(* ===== verification/Prelude.thy ===== *)
theory Prelude
  imports Main "HOL-Library.Word" "HOL-Library.Monad_Syntax"
begin

text \<open>
  Shared vocabulary of the development: Rust's machine integers, its checked arithmetic,
  its bounds-checked slices, and the generic lemmas on words and lists that the component
  theories use.

  A Rust computation that may panic is a function into \<open>'a option\<close>: \<open>None\<close> is a panic
  (the kernel is built with the panic strategy \<^emph>\<open>abort\<close>, so nothing after a panic runs), and
  \<open>Some x\<close> is a normal return. The arithmetic is that of the development profile, where
  overflow and failed \<^verbatim>\<open>debug_assert!\<close>s panic. A Rust \<^verbatim>\<open>Result<T, E>\<close> is a value of
  \<open>'e + 't\<close>, so an error that is returned and a panic are never confused.
\<close>

unbundle bit_operations_syntax

type_synonym u8 = "8 word"
type_synonym u16 = "16 word"
type_synonym u32 = "32 word"
type_synonym u64 = "64 word"
type_synonym usize = "64 word"

named_theorems checked_simps \<open>characterisations of the checked operations\<close>

subsection \<open>Panics and checked arithmetic\<close>

definition guard :: "bool \<Rightarrow> unit option" where
  "guard P = (if P then Some () else None)"

definition checked_add :: "'a::len word \<Rightarrow> 'a word \<Rightarrow> 'a word option" where
  "checked_add a b = (if unat a + unat b < 2 ^ LENGTH('a) then Some (a + b) else None)"

definition checked_sub :: "'a::len word \<Rightarrow> 'a word \<Rightarrow> 'a word option" where
  "checked_sub a b = (if b \<le> a then Some (a - b) else None)"

definition checked_mul :: "'a::len word \<Rightarrow> 'a word \<Rightarrow> 'a word option" where
  "checked_mul a b = (if unat a * unat b < 2 ^ LENGTH('a) then Some (a * b) else None)"

definition saturating_sub :: "'a::len word \<Rightarrow> 'a word \<Rightarrow> 'a word" where
  "saturating_sub a b = (if b \<le> a then a - b else 0)"

definition saturating_add :: "'a::len word \<Rightarrow> 'a word \<Rightarrow> 'a word" where
  "saturating_add a b = (if unat a + unat b < 2 ^ LENGTH('a) then a + b else - 1)"

text \<open>Bounds-checked reading and writing of a slice or a vector.\<close>

definition slice_get :: "'a list \<Rightarrow> nat \<Rightarrow> 'a option" where
  "slice_get xs i = (if i < length xs then Some (xs ! i) else None)"

definition slice_set :: "'a list \<Rightarrow> nat \<Rightarrow> 'a \<Rightarrow> 'a list option" where
  "slice_set xs i v = (if i < length xs then Some (xs[i := v]) else None)"

text \<open>The subslice \<^verbatim>\<open>xs[from..to]\<close>, which panics unless \<open>from \<le> to \<le> length xs\<close>.\<close>

definition slice_range :: "'a list \<Rightarrow> nat \<Rightarrow> nat \<Rightarrow> 'a list option" where
  "slice_range xs from to =
     (if from \<le> to \<and> to \<le> length xs then Some (take (to - from) (drop from xs)) else None)"

text \<open>
  A \<^verbatim>\<open>for\<close> loop whose body may panic, and \<^verbatim>\<open>copy_from_slice\<close>, which panics unless both slices have
  the same length.
\<close>

fun for_each :: "('a \<Rightarrow> 's \<Rightarrow> 's option) \<Rightarrow> 'a list \<Rightarrow> 's \<Rightarrow> 's option" where
  "for_each f [] s = Some s"
| "for_each f (x # xs) s = do { s' \<leftarrow> f x s; for_each f xs s' }"

definition copy_from_slice :: "'a list \<Rightarrow> 'a list \<Rightarrow> 'a list option" where
  "copy_from_slice dst src = (if length dst = length src then Some src else None)"

text \<open>\<^verbatim>\<open>core::task::Poll\<close>.\<close>

datatype 'a poll = Pending | Ready 'a

text \<open>\<^verbatim>\<open>leading_zeros\<close> of an unsigned integer: the number of zero bits above the top one bit.\<close>

definition leading_zeros :: "'a::len word \<Rightarrow> nat" where
  "leading_zeros w = length (takeWhile (\<lambda>i. \<not> bit w i) (rev [0..<LENGTH('a)]))"

lemma guard_eq_Some [simp, checked_simps]: "guard P = Some u \<longleftrightarrow> P"
  by (simp add: guard_def)

lemma guard_eq_None [simp, checked_simps]: "guard P = None \<longleftrightarrow> \<not> P"
  by (simp add: guard_def)

lemma guard_True [simp]: "guard True = Some ()"
  by (simp add: guard_def)

lemma guard_False [simp]: "guard False = None"
  by (simp add: guard_def)

lemma checked_add_Some [checked_simps]:
  "checked_add a b = Some c \<longleftrightarrow> unat c = unat a + unat b"
proof
  assume "checked_add a b = Some c"
  then show "unat c = unat a + unat b"
    by (auto simp: checked_add_def unat_word_ariths split: if_splits)
next
  assume *: "unat c = unat a + unat b"
  moreover have "unat c < 2 ^ LENGTH('a)" by (rule unsigned_less)
  ultimately have "unat (a + b) = unat c" by (simp add: unat_word_ariths)
  with * \<open>unat c < 2 ^ LENGTH('a)\<close> show "checked_add a b = Some c"
    by (simp add: checked_add_def word_unat_eq_iff)
qed

lemma checked_add_None [checked_simps]:
  "checked_add (a :: 'a::len word) b = None \<longleftrightarrow> 2 ^ LENGTH('a) \<le> unat a + unat b"
  by (auto simp: checked_add_def)

lemma checked_sub_Some [checked_simps]:
  "checked_sub a b = Some c \<longleftrightarrow> unat a = unat b + unat c"
proof
  assume "checked_sub a b = Some c"
  then show "unat a = unat b + unat c"
    by (auto simp: checked_sub_def unat_sub word_le_nat_alt split: if_splits)
next
  assume *: "unat a = unat b + unat c"
  then have "b \<le> a" by (simp add: word_le_nat_alt)
  moreover from this * have "unat (a - b) = unat c" by (simp add: unat_sub)
  ultimately show "checked_sub a b = Some c" by (simp add: checked_sub_def word_unat_eq_iff)
qed

lemma checked_sub_None [checked_simps]:
  "checked_sub a b = None \<longleftrightarrow> unat a < unat b"
  by (auto simp: checked_sub_def word_le_nat_alt)

lemma checked_mul_Some [checked_simps]:
  "checked_mul a b = Some c \<longleftrightarrow> unat c = unat a * unat b"
proof
  assume "checked_mul a b = Some c"
  then show "unat c = unat a * unat b"
    by (auto simp: checked_mul_def unat_word_ariths split: if_splits)
next
  assume *: "unat c = unat a * unat b"
  moreover have "unat c < 2 ^ LENGTH('a)" by (rule unsigned_less)
  ultimately have "unat (a * b) = unat c" by (simp add: unat_word_ariths)
  with * \<open>unat c < 2 ^ LENGTH('a)\<close> show "checked_mul a b = Some c"
    by (simp add: checked_mul_def word_unat_eq_iff)
qed

lemma slice_get_Some [checked_simps]:
  "slice_get xs i = Some x \<longleftrightarrow> i < length xs \<and> xs ! i = x"
  by (auto simp: slice_get_def)

lemma slice_set_Some [checked_simps]:
  "slice_set xs i v = Some ys \<longleftrightarrow> i < length xs \<and> ys = xs[i := v]"
  by (auto simp: slice_set_def)

lemma slice_range_Some [checked_simps]:
  "slice_range xs a b = Some ys \<longleftrightarrow> a \<le> b \<and> b \<le> length xs \<and> ys = take (b - a) (drop a xs)"
  by (auto simp: slice_range_def)

subsection \<open>Words and natural numbers\<close>

lemma unat_of_nat_small: "n < 2 ^ LENGTH('a) \<Longrightarrow> unat (of_nat n :: 'a::len word) = n"
  by (simp add: unsigned_of_nat take_bit_nat_eq_self)

lemma unat_add_small:
  "unat a + unat b < 2 ^ LENGTH('a) \<Longrightarrow> unat (a + b :: 'a::len word) = unat a + unat b"
  by (simp add: unat_word_ariths)

lemma unat_mult_small:
  "unat a * unat b < 2 ^ LENGTH('a) \<Longrightarrow> unat (a * b :: 'a::len word) = unat a * unat b"
  by (simp add: unat_word_ariths)

lemma word_eq_unatI: "unat a = unat b \<Longrightarrow> a = (b :: 'a::len word)"
  by (simp add: word_unat_eq_iff)

subsection \<open>Bits of words\<close>

lemma bit_word_iff_drop_bit_and_1: "bit (w :: 'a::len word) n \<longleftrightarrow> drop_bit n w AND 1 = 1"
  by (simp add: bit_iff_odd_drop_bit and_one_eq odd_iff_mod_2_eq_one)

lemma word_eq_bitI:
  fixes a b :: "'a::len word"
  assumes "\<And>n. n < LENGTH('a) \<Longrightarrow> bit a n = bit b n"
  shows "a = b"
  by (rule bit_word_eqI) (rule assms)

text \<open>The first set bit from the top, and the first clear bit of the complement.\<close>

lemma takeWhile_rev_upt:
  assumes "\<exists>i < n. P i"
  shows "let k = length (takeWhile (\<lambda>i. \<not> P i) (rev [0..<n]))
         in k < n \<and> P (n - 1 - k) \<and> (\<forall>j < n. n - 1 - k < j \<longrightarrow> \<not> P j)"
  using assms
proof (induction n)
  case 0
  then show ?case by simp
next
  case (Suc n)
  show ?case
  proof (cases "P n")
    case True
    then show ?thesis by (simp add: Let_def)
  next
    case False
    with Suc.prems have "\<exists>i < n. P i" by (metis less_Suc_eq)
    from Suc.IH [OF this] False show ?thesis
      by (auto simp: Let_def less_Suc_eq)
  qed
qed

lemma leading_zeros_less:
  fixes w :: "'a::len word"
  assumes "w \<noteq> 0"
  shows "leading_zeros w < LENGTH('a)"
    and "bit w (LENGTH('a) - 1 - leading_zeros w)"
    and "\<And>j. j < LENGTH('a) \<Longrightarrow> LENGTH('a) - 1 - leading_zeros w < j \<Longrightarrow> \<not> bit w j"
proof -
  from assms have "\<exists>i < LENGTH('a). bit w i"
    by (metis bit_0_eq bit_word_eqI bot_apply bot_bool_def)
  from takeWhile_rev_upt [OF this] show
    "leading_zeros w < LENGTH('a)"
    "bit w (LENGTH('a) - 1 - leading_zeros w)"
    "\<And>j. j < LENGTH('a) \<Longrightarrow> LENGTH('a) - 1 - leading_zeros w < j \<Longrightarrow> \<not> bit w j"
    by (auto simp: Let_def leading_zeros_def)
qed

text \<open>A cast to a wider type keeps the value.\<close>

lemma unat_ucast_up:
  fixes w :: "'a::len word"
  assumes "LENGTH('a) \<le> LENGTH('b::len)"
  shows "unat (ucast w :: 'b word) = unat w"
proof -
  have "unat w < 2 ^ LENGTH('b)"
    using less_le_trans [OF unsigned_less power_increasing] assms by fastforce
  then show ?thesis by (simp add: unsigned_ucast_eq take_bit_nat_eq_self_iff)
qed

subsection \<open>Multiples\<close>

text \<open>The next multiple of \<open>a\<close>, as \<^verbatim>\<open>next_multiple_of\<close> and the layout of structures have it.\<close>

definition align_up :: "nat \<Rightarrow> nat \<Rightarrow> nat" where
  "align_up a n = (n + a - 1) div a * a"

lemma align_up_eq: "0 < a \<Longrightarrow> align_up a n = (if n mod a = 0 then n else n + (a - n mod a))"
proof -
  assume a: "0 < a"
  have n: "n = n div a * a + n mod a" by simp
  show ?thesis
  proof (cases "n mod a = 0")
    case True
    obtain k where k: "n = a * k" using True by auto
    have "n + a - 1 = (a - 1) + a * k" using k a by simp
    then have "(n + a - 1) div a = n div a"
      using a k div_mult_self2 [of a "a - 1" k] by (simp only:) simp
    then show ?thesis using True n by (simp add: align_up_def)
  next
    case False
    have "n + a - 1 = (n div a + 1) * a + (n mod a - 1)" using n a False by (cases n) (simp_all add: algebra_simps)
    moreover have "n mod a - 1 < a" using a by (simp add: less_imp_diff_less)
    ultimately have "(n + a - 1) div a = n div a + 1" by (intro div_nat_eqI) (simp_all add: algebra_simps)
    then have "align_up a n = (n div a + 1) * a" by (simp add: align_up_def)
    then have "align_up a n + n mod a = n + a" using n by (simp add: algebra_simps)
    then show ?thesis using False mod_less_divisor [OF a, of n] by (simp del: mod_less_divisor)
  qed
qed

lemma align_up_bounds:
  assumes "0 < a"
  shows "n \<le> align_up a n" "align_up a n < n + a" "align_up a n mod a = 0"
proof -
  have m: "n mod a < a" using assms by simp
  show "n \<le> align_up a n" "align_up a n < n + a" using m by (auto simp: align_up_eq [OF assms])
  show "align_up a n mod a = 0" by (simp add: align_up_def)
qed

text \<open>\<^verbatim>\<open>usize::next_multiple_of\<close>\<close>

definition next_multiple_of :: "usize \<Rightarrow> usize \<Rightarrow> usize option" where
  "next_multiple_of x a =
     (if a = 0 then None else if x mod a = 0 then Some x else checked_add x (a - x mod a))"

text \<open>\<^verbatim>\<open>(start..=end).step_by(PAGE_SIZE)\<close> and \<^verbatim>\<open>(start..end).step_by(PAGE_SIZE)\<close>\<close>

definition pages_to :: "usize \<Rightarrow> usize \<Rightarrow> usize list" where
  "pages_to start end_page =
     map (\<lambda>i. start + of_nat (4096 * i)) [0..<(if start \<le> end_page then (unat end_page - unat start) div 4096 + 1 else 0)]"

definition pages_before :: "usize \<Rightarrow> usize \<Rightarrow> usize list" where
  "pages_before start end_page =
     map (\<lambda>i. start + of_nat (4096 * i)) [0..<(if start < end_page then (unat end_page - unat start - 1) div 4096 + 1 else 0)]"

subsection \<open>Addresses as numbers\<close>

lemma unat_usize_less: "unat (x :: usize) < 2 ^ 64"
  using unsigned_less [of x, where 'a = nat] by simp

lemma of_nat_usize_eq: "m < 2 ^ 64 \<Longrightarrow> n < 2 ^ 64 \<Longrightarrow> (of_nat m :: usize) = of_nat n \<longleftrightarrow> m = n"
  by (simp add: word_unat_eq_iff unat_of_nat_small)

lemma of_nat_usize_less: "m < 2 ^ 64 \<Longrightarrow> n < 2 ^ 64 \<Longrightarrow> (of_nat m :: usize) < of_nat n \<longleftrightarrow> m < n"
  by (simp add: word_less_nat_alt unat_of_nat_small)

lemma checked_add_nat: "m + n = k \<Longrightarrow> k < 2 ^ 64 \<Longrightarrow> checked_add (of_nat m :: usize) (of_nat n) = Some (of_nat k)"
  by (auto simp: checked_add_Some unat_of_nat_small simp del: of_nat_add)

lemma checked_sub_nat: "m = n + k \<Longrightarrow> m < 2 ^ 64 \<Longrightarrow> checked_sub (of_nat m :: usize) (of_nat n) = Some (of_nat k)"
  by (simp add: checked_sub_Some unat_of_nat_small del: of_nat_add)

lemma next_multiple_of_nat:
  assumes "0 < a" "n + a < 2 ^ 64"
  shows "next_multiple_of (of_nat n) (of_nat a) = Some (of_nat (align_up a n))"
proof -
  have u: "unat (of_nat k :: usize) = k" if "k \<le> n + a" for k using assms that by (simp add: unat_of_nat_small)
  have nz: "(of_nat a :: usize) \<noteq> 0" unfolding unat_eq_0 [symmetric] using u [of a] assms(1) by simp
  have small: "n mod a < a" using assms(1) by simp
  have m: "(of_nat n :: usize) mod of_nat a = of_nat (n mod a)"
    using small u [of n] u [of a] u [of "n mod a"] by (simp add: word_unat_eq_iff unat_mod)
  have z: "(of_nat (n mod a) :: usize) = 0 \<longleftrightarrow> n mod a = 0" unfolding unat_eq_0 [symmetric] using u [of "n mod a"] small by simp
  have d: "(of_nat a :: usize) - of_nat (n mod a) = of_nat (a - n mod a)" using small by (simp add: of_nat_diff)
  have "n + (a - n mod a) < 2 ^ 64" using assms(2) by linarith
  then show ?thesis
    unfolding next_multiple_of_def align_up_eq [OF assms(1)] m z d using nz checked_add_nat [OF refl, of n "a - n mod a"] by (simp del: of_nat_add)
qed

subsection \<open>Integers as bytes\<close>

text \<open>\<^verbatim>\<open>to_le_bytes\<close> and \<^verbatim>\<open>from_le_bytes\<close>\<close>

definition le_bytes :: "nat \<Rightarrow> 'a::len word \<Rightarrow> u8 list" where
  "le_bytes n w = map (\<lambda>i. ucast (drop_bit (8 * i) w)) [0..<n]"

fun of_le_bytes :: "u8 list \<Rightarrow> 'a::len word" where
  "of_le_bytes [] = 0"
| "of_le_bytes (b # bs) = ucast b OR push_bit 8 (of_le_bytes bs)"

lemma le_bytes_Suc: "le_bytes (Suc n) w = ucast w # le_bytes n (drop_bit 8 w)"
  by (simp add: le_bytes_def upt_conv_Cons map_Suc_upt [symmetric] comp_def add.commute del: upt_Suc)

lemma length_le_bytes [simp]: "length (le_bytes n w) = n"
  by (simp add: le_bytes_def)

lemma le_bytes_zero: "le_bytes n 0 = replicate n 0"
  by (simp add: le_bytes_def map_replicate_const)

lemma of_le_bytes_zero: "of_le_bytes (replicate n 0) = 0"
  by (induction n) simp_all

lemma of_le_bytes_le_bytes: "(of_le_bytes (le_bytes n w) :: 'a::len word) = take_bit (8 * n) w"
proof (induction n arbitrary: w)
  case 0
  then show ?case by (simp add: le_bytes_def)
next
  case (Suc n)
  show ?case unfolding le_bytes_Suc of_le_bytes.simps Suc.IH
    by (rule bit_word_eqI) (auto simp: bit_simps)
qed

end
