(* ===== verification/Paging.thy ===== *)
theory Paging
  imports Prelude
begin

text \<open>
  x86-64 page table entries (\<^verbatim>\<open>kernel/src/arch/x86_64/paging.rs\<close>): the bit layout of
  \<^verbatim>\<open>PageTableEntry\<close>, its construction from \<^verbatim>\<open>PageTableData\<close>, and the two operations that
  replace the address or the flags of an entry. An entry is a 64-bit word, and the getters
  that the \<^verbatim>\<open>bitfield!\<close> declaration names read the bits that the declaration gives.
\<close>

subsection \<open>Definitions\<close>

definition PAGE_SIZE :: usize where
  "PAGE_SIZE = 4096"

definition align_to_page :: "usize \<Rightarrow> usize" where
  "align_to_page addr = addr AND NOT 0xFFF"

type_synonym page_table_entry = u64

definition present :: "page_table_entry \<Rightarrow> bool" where "present e = bit e 0"
definition writable :: "page_table_entry \<Rightarrow> bool" where "writable e = bit e 1"
definition user_accessable :: "page_table_entry \<Rightarrow> bool" where "user_accessable e = bit e 2"
definition write_through_caching_enabled :: "page_table_entry \<Rightarrow> bool" where
  "write_through_caching_enabled e = bit e 3"
definition cache_disabled :: "page_table_entry \<Rightarrow> bool" where "cache_disabled e = bit e 4"
definition accessed :: "page_table_entry \<Rightarrow> bool" where "accessed e = bit e 5"
definition dirty :: "page_table_entry \<Rightarrow> bool" where "dirty e = bit e 6"
definition huge_page :: "page_table_entry \<Rightarrow> bool" where "huge_page e = bit e 7"
definition global_page :: "page_table_entry \<Rightarrow> bool" where "global_page e = bit e 8"
definition no_execute :: "page_table_entry \<Rightarrow> bool" where "no_execute e = bit e 63"
definition address_unextended :: "page_table_entry \<Rightarrow> u64" where
  "address_unextended e = take_bit 40 (drop_bit 12 e)"

lemmas entry_flag_defs =
  present_def writable_def user_accessable_def write_through_caching_enabled_def
  cache_disabled_def accessed_def dirty_def huge_page_def global_page_def no_execute_def

record page_table_data =
  pd_present :: bool
  pd_writable :: bool
  pd_user_accessable :: bool
  pd_write_through_caching_enabled :: bool
  pd_cache_disabled :: bool
  pd_accessed :: bool
  pd_dirty :: bool
  pd_huge_page :: bool
  pd_global :: bool
  pd_physical_address :: usize
  pd_no_execute :: bool

definition default_page_table_data :: page_table_data where
  "default_page_table_data =
     \<lparr>pd_present = True, pd_writable = False, pd_user_accessable = False,
      pd_write_through_caching_enabled = False, pd_cache_disabled = False,
      pd_accessed = False, pd_dirty = False, pd_huge_page = False, pd_global = False,
      pd_physical_address = 0, pd_no_execute = False\<rparr>"

definition from_data :: "page_table_data \<Rightarrow> page_table_entry" where
  "from_data d =
     of_bool (pd_present d)
     OR push_bit 1 (of_bool (pd_writable d))
     OR push_bit 2 (of_bool (pd_user_accessable d))
     OR push_bit 3 (of_bool (pd_write_through_caching_enabled d))
     OR push_bit 4 (of_bool (pd_cache_disabled d))
     OR push_bit 5 (of_bool (pd_accessed d))
     OR push_bit 6 (of_bool (pd_dirty d))
     OR push_bit 7 (of_bool (pd_huge_page d))
     OR push_bit 8 (of_bool (pd_global d))
     OR push_bit 63 (of_bool (pd_no_execute d))
     OR (pd_physical_address d AND 0x000FFFFFFFFFF000)"

definition ENTRY_ZERO :: page_table_entry where "ENTRY_ZERO = 0"

definition READ :: page_table_entry where
  "READ = from_data (default_page_table_data\<lparr>pd_no_execute := True\<rparr>)"

definition READ_WRITE :: page_table_entry where
  "READ_WRITE = from_data (default_page_table_data\<lparr>pd_writable := True, pd_no_execute := True\<rparr>)"

definition READ_EXECUTE :: page_table_entry where
  "READ_EXECUTE = from_data default_page_table_data"

definition READ_WRITE_EXECUTE :: page_table_entry where
  "READ_WRITE_EXECUTE = from_data (default_page_table_data\<lparr>pd_writable := True\<rparr>)"

definition address :: "page_table_entry \<Rightarrow> usize" where
  "address e =
     (let addr_unextended = push_bit 12 (address_unextended e)
      in if addr_unextended AND 0x0008000000000000 \<noteq> 0
         then addr_unextended OR 0xFFF0000000000000
         else addr_unextended)"

definition replace_flags_with :: "page_table_entry \<Rightarrow> page_table_entry \<Rightarrow> page_table_entry" where
  "replace_flags_with e flags =
     (let raw_address = e AND 0x000FFFFFFFFFF000;
          raw_flags = flags AND 0x80000000000001FF
      in raw_address OR raw_flags)"

definition replace_addr_with :: "page_table_entry \<Rightarrow> usize \<Rightarrow> page_table_entry" where
  "replace_addr_with e addr =
     (let stripped_address = addr AND 0x000FFFFFFFFFF000;
          raw_flags = e AND 0x80000000000001FF
      in stripped_address OR raw_flags)"

subsection \<open>The masks bit by bit\<close>

text \<open>The simplifier turns a bit of a numeral word into a bit of an integer numeral.\<close>

lemma bit_addr_mask [simp]: "bit (0x000FFFFFFFFFF000 :: int) n \<longleftrightarrow> 12 \<le> n \<and> n < 52"
proof -
  have *: "(0x000FFFFFFFFFF000 :: int) = push_bit 12 (mask 40)"
    by (simp add: mask_eq_exp_minus_1 push_bit_eq_mult)
  show ?thesis unfolding * by (auto simp: bit_simps)
qed

lemma bit_page_offset_mask [simp]: "bit (0xFFF :: int) n \<longleftrightarrow> n < 12"
proof -
  have *: "(0xFFF :: int) = mask 12" by (simp add: mask_eq_exp_minus_1)
  show ?thesis unfolding * by (auto simp: bit_simps)
qed

lemma bit_exp_63 [simp]: "bit (0x8000000000000000 :: int) n \<longleftrightarrow> n = 63"
proof -
  have *: "(0x8000000000000000 :: int) = 2 ^ 63" by simp
  show ?thesis unfolding * by (auto simp only: bit_exp_iff) auto
qed

lemma bit_flag_mask [simp]: "bit (0x80000000000001FF :: int) n \<longleftrightarrow> n < 9 \<or> n = 63"
proof -
  have *: "(0x80000000000001FF :: int) = mask 9 OR 0x8000000000000000"
    by (simp add: mask_eq_exp_minus_1)
  show ?thesis unfolding * by (auto simp: bit_or_iff bit_mask_iff)
qed

lemma bit_sign_mask [simp]: "bit (0xFFF0000000000000 :: int) n \<longleftrightarrow> 52 \<le> n \<and> n < 64"
proof -
  have *: "(0xFFF0000000000000 :: int) = push_bit 52 (mask 12)"
    by (simp add: mask_eq_exp_minus_1 push_bit_eq_mult)
  show ?thesis unfolding * by (auto simp: bit_simps)
qed

lemma and_bit_51: "(w :: u64) AND 0x0008000000000000 \<noteq> 0 \<longleftrightarrow> bit w 51"
proof -
  have *: "(0x0008000000000000 :: u64) = 2 ^ 51" by simp
  show ?thesis unfolding * by (simp only: and_exp_eq_0_iff_not_bit) simp
qed

lemma bit_addr_mask_word: "bit (0x000FFFFFFFFFF000 :: u64) n \<longleftrightarrow> 12 \<le> n \<and> n < 52"
  by auto

lemma bit_flag_mask_word: "bit (0x80000000000001FF :: u64) n \<longleftrightarrow> n < 9 \<or> n = 63"
  by auto

lemma bit_address: "bit (address e) n \<longleftrightarrow> n < 64 \<and> 12 \<le> n \<and> bit e (min n 51)"
proof -
  let ?a = "push_bit 12 (address_unextended e)"
  have a: "bit ?a k \<longleftrightarrow> 12 \<le> k \<and> k < 52 \<and> bit e k" for k
    by (auto simp: address_unextended_def bit_push_bit_iff bit_take_bit_iff bit_drop_bit_eq
        dest: bit_imp_le_length)
  show ?thesis
  proof (cases "bit e 51")
    case True
    then have "address e = ?a OR 0xFFF0000000000000"
      by (simp only: address_def Let_def and_bit_51 a) simp
    then have "bit (address e) n \<longleftrightarrow> 12 \<le> n \<and> n < 52 \<and> bit e n \<or> 52 \<le> n \<and> n < 64"
      by (auto simp: bit_or_iff a)
    with True show ?thesis by (cases "n \<le> 51") (auto simp: min_def)
  next
    case False
    then have "address e = ?a"
      by (simp only: address_def Let_def and_bit_51 a) simp
    with False show ?thesis by (cases "n \<le> 51") (auto simp: min_def a le_less)
  qed
qed

lemma bit_align_to_page: "bit (align_to_page a) n \<longleftrightarrow> 12 \<le> n \<and> bit a n"
proof -
  have "bit (0xFFF :: u64) n \<longleftrightarrow> n < 12" by auto
  then show ?thesis
    unfolding align_to_page_def bit_and_iff bit_not_iff possible_bit_word
    by (auto dest: bit_imp_le_length)
qed

lemma bit_push_of_bool:
  "k < LENGTH('a) \<Longrightarrow> bit (push_bit k (of_bool b) :: 'a::len word) n \<longleftrightarrow> n = k \<and> b"
  by (auto simp: bit_push_bit_iff bit_of_bool_iff)

lemma bit_from_data:
  "bit (from_data d) n \<longleftrightarrow>
     n = 0 \<and> pd_present d \<or> n = 1 \<and> pd_writable d \<or> n = 2 \<and> pd_user_accessable d
     \<or> n = 3 \<and> pd_write_through_caching_enabled d \<or> n = 4 \<and> pd_cache_disabled d
     \<or> n = 5 \<and> pd_accessed d \<or> n = 6 \<and> pd_dirty d \<or> n = 7 \<and> pd_huge_page d
     \<or> n = 8 \<and> pd_global d \<or> n = 63 \<and> pd_no_execute d
     \<or> bit (pd_physical_address d) n \<and> 12 \<le> n \<and> n < 52"
proof -
  note p = bit_push_of_bool [where 'a = 64]
  have 64: "1 < LENGTH(64)" "2 < LENGTH(64)" "3 < LENGTH(64)" "4 < LENGTH(64)"
    "5 < LENGTH(64)" "6 < LENGTH(64)" "7 < LENGTH(64)" "8 < LENGTH(64)" "63 < LENGTH(64)"
    by simp_all
  show ?thesis
    by (simp only: from_data_def bit_or_iff bit_and_iff bit_of_bool_iff bit_addr_mask_word
        64 [THEN p] disj_assoc conj_commute)
qed

lemma bit_replace_addr_with:
  "bit (replace_addr_with e a) n \<longleftrightarrow>
     (if 12 \<le> n \<and> n < 52 then bit a n else (n < 9 \<or> n = 63) \<and> bit e n)"
  unfolding replace_addr_with_def Let_def bit_or_iff bit_and_iff
    bit_addr_mask_word bit_flag_mask_word by auto

lemma bit_replace_flags_with:
  "bit (replace_flags_with e f) n \<longleftrightarrow>
     (if 12 \<le> n \<and> n < 52 then bit e n else (n < 9 \<or> n = 63) \<and> bit f n)"
  unfolding replace_flags_with_def Let_def bit_or_iff bit_and_iff
    bit_addr_mask_word bit_flag_mask_word by auto

subsection \<open>Addresses and flags of entries\<close>

text \<open>
  An entry stores bits 12 to 51 of a physical address; \<^const>\<open>address\<close> sign-extends bit 51.
  The addresses an entry can hold are the fixed points of \<^const>\<open>address\<close>.
\<close>

definition frame_address :: "usize \<Rightarrow> bool" where
  "frame_address a \<longleftrightarrow> address a = a"

lemma address_address [simp]: "address (address e) = address e"
  by (rule bit_word_eqI) (auto simp: bit_address min_def)

lemma frame_address_address [simp, intro]: "frame_address (address e)"
  by (simp add: frame_address_def)

lemma address_replace_addr_with [simp]: "address (replace_addr_with e a) = address a"
  by (rule bit_word_eqI) (auto simp: bit_address bit_replace_addr_with min_def)

lemma address_replace_flags_with [simp]: "address (replace_flags_with e f) = address e"
  by (rule bit_word_eqI) (auto simp: bit_address bit_replace_flags_with min_def)

lemma address_from_data [simp]: "address (from_data d) = address (pd_physical_address d)"
  by (rule bit_word_eqI) (auto simp: bit_address bit_from_data min_def)

lemma address_and_addr_mask [simp]: "address (a AND 0x000FFFFFFFFFF000) = address a"
  by (rule bit_word_eqI) (auto simp: bit_address bit_and_iff bit_addr_mask_word min_def)

lemma address_zero [simp]: "address 0 = 0"
  by (rule bit_word_eqI) (simp add: bit_address)

lemma address_or_flags:
  assumes "\<And>n. 12 \<le> n \<Longrightarrow> n < 52 \<Longrightarrow> \<not> bit f n"
  shows "address (e OR f) = address e"
  using assms by (intro bit_word_eqI) (auto simp: bit_address bit_or_iff min_def)

lemma address_low_frame: "unat a < 2 ^ 51 \<Longrightarrow> a AND 0xFFF = 0 \<Longrightarrow> address a = a"
proof (rule bit_word_eqI)
  fix n assume a: "unat a < 2 ^ 51" "a AND 0xFFF = 0" and n: "n < LENGTH(64)"
  have low: "\<not> bit a k" if "k < 12" for k
  proof -
    from a(2) have "\<not> bit (a AND 0xFFF) k" by simp
    moreover have "bit (0xFFF :: u64) k" using that by simp
    ultimately show ?thesis unfolding bit_and_iff by blast
  qed
  have high: "\<not> bit a k" if "51 \<le> k" for k
  proof -
    have "(2 :: nat) ^ 51 \<le> 2 ^ k" using that by (intro power_increasing) auto
    with a(1) have "unat a div 2 ^ k = 0" by simp
    then have "\<not> bit (unat a) k" by (simp add: bit_iff_odd)
    then show ?thesis by (auto simp: bit_unsigned_iff)
  qed
  show "bit (address a) n = bit a n"
  proof (cases "n < 51")
    case True
    with low [of n] show ?thesis by (cases "n < 12") (auto simp: bit_address min_def)
  next
    case False
    with high show ?thesis by (auto simp: bit_address min_def)
  qed
qed

lemma entry_flags_replace_addr_with:
  "present (replace_addr_with e a) = present e"
  "writable (replace_addr_with e a) = writable e"
  "user_accessable (replace_addr_with e a) = user_accessable e"
  "huge_page (replace_addr_with e a) = huge_page e"
  "no_execute (replace_addr_with e a) = no_execute e"
  by (simp_all add: entry_flag_defs bit_replace_addr_with)

lemma present_constants [simp]:
  "present READ" "present READ_WRITE" "present READ_EXECUTE" "present READ_WRITE_EXECUTE"
  by (simp_all add: READ_def READ_WRITE_def READ_EXECUTE_def READ_WRITE_EXECUTE_def
      present_def bit_from_data default_page_table_data_def)

lemma huge_page_constants [simp]:
  "\<not> huge_page READ" "\<not> huge_page READ_WRITE" "\<not> huge_page READ_EXECUTE"
  "\<not> huge_page READ_WRITE_EXECUTE"
  by (simp_all add: READ_def READ_WRITE_def READ_EXECUTE_def READ_WRITE_EXECUTE_def
      huge_page_def bit_from_data default_page_table_data_def)

lemma present_zero [simp]: "\<not> present 0"
  by (simp add: present_def)

lemma unat_align_to_page: "unat (align_to_page a) = 4096 * (unat a div 4096)"
proof -
  have "align_to_page a = push_bit 12 (drop_bit 12 a)"
    by (rule bit_word_eqI) (auto simp: bit_align_to_page bit_push_bit_iff bit_drop_bit_eq)
  then have "unat (align_to_page a) = unat (push_bit 12 (drop_bit 12 a))" by simp
  also have "\<dots> = 4096 * (unat a div 4096)"
  proof -
    have "unat a div 4096 * 4096 \<le> unat a" by (rule div_times_less_eq_dividend)
    also have "\<dots> < 2 ^ 64" using unsigned_less [of a] by simp
    finally have "unat a div 4096 * 4096 < 2 ^ 64" .
    then show ?thesis
      by (simp add: push_bit_eq_mult drop_bit_eq_div unat_mult_lem [THEN iffD1] unat_div
          mult.commute unat_word_ariths)
  qed
  finally show ?thesis .
qed

subsection \<open>Properties\<close>

text \<open>
  Building an entry from its fields and reading the fields back is the identity: every flag
  accessor returns the flag that \<^verbatim>\<open>from_data\<close> was given, and the address accessor returns the physical
  address as far as an entry can hold it, whatever the other fields are.
\<close>

theorem from_data_accessors:
  "present (from_data d) = pd_present d \<and> writable (from_data d) = pd_writable d
   \<and> user_accessable (from_data d) = pd_user_accessable d
   \<and> write_through_caching_enabled (from_data d) = pd_write_through_caching_enabled d
   \<and> cache_disabled (from_data d) = pd_cache_disabled d \<and> accessed (from_data d) = pd_accessed d
   \<and> dirty (from_data d) = pd_dirty d \<and> huge_page (from_data d) = pd_huge_page d
   \<and> global_page (from_data d) = pd_global d \<and> no_execute (from_data d) = pd_no_execute d
   \<and> address (from_data d) = address (pd_physical_address d)"
  unfolding entry_flag_defs bit_from_data address_from_data by simp

text \<open>
  An entry that is built from fields is determined by its address and its flags: taking the
  address of one entry and the flags of another with \<^verbatim>\<open>replace_addr_with\<close> and \<^verbatim>\<open>replace_flags_with\<close> loses
  neither, and the two operations put the same entry together.
\<close>

theorem replace_addr_flags_laws:
  "replace_addr_with (from_data d) (address (from_data d)) = from_data d
   \<and> replace_flags_with (from_data d) (from_data d) = from_data d
   \<and> address (replace_addr_with e a) = address a
   \<and> replace_addr_with (replace_addr_with e a) b = replace_addr_with e b
   \<and> replace_flags_with (replace_addr_with e a) f = replace_addr_with f a
   \<and> replace_addr_with (replace_flags_with e f) a = replace_addr_with f a"
proof (intro conjI)
  show "replace_addr_with (from_data d) (address (from_data d)) = from_data d"
    by (rule bit_word_eqI) (auto simp: bit_replace_addr_with bit_address bit_from_data min_def)
  show "replace_flags_with (from_data d) (from_data d) = from_data d"
    by (rule bit_word_eqI) (auto simp: bit_replace_flags_with bit_from_data)
qed (rule address_replace_addr_with bit_word_eqI;
    simp add: bit_replace_addr_with bit_replace_flags_with)+

end
