(* ===== verification/Bitmap.thy ===== *)
theory Bitmap
  imports Prelude
begin

text \<open>
  Allocation bitmaps. The page allocator (\<^verbatim>\<open>page_allocation.rs\<close>) and the node storage pages of
  the virtual memory allocator (\<^verbatim>\<open>vma.rs\<close>) keep the same data structure: a byte array whose bits,
  most significant first, say which slots are in use. This theory has the loop both use to take
  the first free slot, the update that gives a slot back, what they do to the set of used slots,
  and the interface \<open>slot_allocator\<close> that both allocators are shown to provide.
\<close>

subsection \<open>Definitions\<close>

text \<open>
  The search loop: the first byte that is not \<^verbatim>\<open>0xFF\<close>, its first clear bit from the top, which is
  then set. The result is the byte index, the bit index and the new array.
\<close>

fun reserve_first_free :: "nat \<Rightarrow> u8 list \<Rightarrow> (nat \<times> nat \<times> u8 list) option" where
  "reserve_first_free byte_index [] = None"
| "reserve_first_free byte_index (byte # rest) =
     (if byte \<noteq> 0xFF
      then let bit_index = leading_zeros (NOT byte)
           in Some (byte_index, bit_index, (byte OR drop_bit bit_index 0x80) # rest)
      else case reserve_first_free (byte_index + 1) rest of
             None \<Rightarrow> None
           | Some (i, j, bytes) \<Rightarrow> Some (i, j, byte # bytes))"

definition clear_slot :: "u8 list \<Rightarrow> nat \<Rightarrow> nat \<Rightarrow> u8 list option" where
  "clear_slot bytes byte_index bit_index =
     do { byte \<leftarrow> slice_get bytes byte_index;
          slice_set bytes byte_index (byte AND NOT (drop_bit bit_index 0x80)) }"

definition count_zeros :: "u8 \<Rightarrow> nat" where
  "count_zeros w = length (filter (\<lambda>i. \<not> bit w i) [0..<8])"

text \<open>The abstraction: the slots whose bit is set.\<close>

definition slot_bit :: "u8 list \<Rightarrow> nat \<Rightarrow> bool" where
  "slot_bit bytes n = bit (bytes ! (n div 8)) (7 - n mod 8)"

definition used_slots :: "u8 list \<Rightarrow> nat set" where
  "used_slots bytes = {n. n < 8 * length bytes \<and> slot_bit bytes n}"

definition zero_bits :: "u8 list \<Rightarrow> nat" where
  "zero_bits bytes = sum_list (map count_zeros bytes)"

subsection \<open>Bits of a byte\<close>

lemma bit_top_shift:
  assumes "j < 8"
  shows "bit (drop_bit j (0x80 :: u8)) k \<longleftrightarrow> k + j = 7"
proof -
  have *: "(0x80 :: u8) = 2 ^ 7" by simp
  show ?thesis unfolding * bit_drop_bit_eq comp_def bit_exp_iff by (auto simp: add.commute)
qed

lemma byte_neq_FF: "(byte :: u8) \<noteq> 0xFF \<longleftrightarrow> NOT byte \<noteq> 0"
proof -
  have "(0xFF :: u8) = - 1" by simp
  then show ?thesis by (metis bit.compl_eq_compl_iff bit.compl_one bit.double_compl)
qed

lemma leading_zeros_not:
  fixes byte :: u8
  assumes "byte \<noteq> 0xFF"
  defines "j \<equiv> leading_zeros (NOT byte)"
  shows "j < 8" and "\<not> bit byte (7 - j)" and "\<And>k. k < j \<Longrightarrow> bit byte (7 - k)"
proof -
  from assms(1) have nz: "NOT byte \<noteq> 0" by (simp add: byte_neq_FF)
  from leading_zeros_less(1,2) [OF nz] show "j < 8" "\<not> bit byte (7 - j)"
    by (simp_all add: j_def bit_not_iff)
  fix k assume k: "k < j"
  with \<open>j < 8\<close> leading_zeros_less(3) [OF nz, of "7 - k"] show "bit byte (7 - k)"
    by (auto simp: j_def bit_not_iff)
qed

lemma slot_bit_Cons:
  "slot_bit (b # bs) n = (if n < 8 then bit b (7 - n) else slot_bit bs (n - 8))"
proof (cases "n < 8")
  case True
  then show ?thesis by (simp add: slot_bit_def)
next
  case False
  then have "n div 8 = Suc ((n - 8) div 8)" "n mod 8 = (n - 8) mod 8"
    by (simp_all add: le_div_geq le_mod_geq)
  with False show ?thesis by (simp add: slot_bit_def)
qed

lemma slot_bit_FF: "n < 8 \<Longrightarrow> slot_bit (0xFF # bs) n"
proof -
  assume "n < 8"
  moreover have m1: "(0xFF :: u8) = - 1" by simp
  ultimately show ?thesis unfolding m1 by (simp add: slot_bit_Cons)
qed

subsection \<open>What the loop finds\<close>

lemma reserve_first_free_None:
  "reserve_first_free k bs = None \<longleftrightarrow> (\<forall>b \<in> set bs. b = 0xFF)"
  by (induction k bs rule: reserve_first_free.induct) (auto simp: Let_def split: option.splits)

lemma all_FF_used: "(\<forall>b \<in> set bs. b = 0xFF) \<longleftrightarrow> used_slots bs = {..<8 * length bs}"
proof
  assume *: "\<forall>b \<in> set bs. b = 0xFF"
  have m1: "(0xFF :: u8) = - 1" by simp
  have "slot_bit bs n" if "n < 8 * length bs" for n
  proof -
    have "bs ! (n div 8) = 0xFF" using * that by (auto intro: nth_mem)
    then show ?thesis unfolding slot_bit_def m1 by simp
  qed
  then show "used_slots bs = {..<8 * length bs}" by (auto simp: used_slots_def)
next
  assume *: "used_slots bs = {..<8 * length bs}"
  show "\<forall>b \<in> set bs. b = 0xFF"
  proof
    fix b assume "b \<in> set bs"
    then obtain i where i: "i < length bs" "b = bs ! i" by (auto simp: in_set_conv_nth)
    have top: "bit b (7 - k)" if "k < 8" for k
    proof -
      have "8 * i + k \<in> used_slots bs" using * i(1) that by auto
      with i(2) that show ?thesis by (simp add: used_slots_def slot_bit_def)
    qed
    have "bit b n" if "n < 8" for n
    proof -
      from that have "7 - n < 8" "7 - (7 - n) = n" by auto
      with top [of "7 - n"] show ?thesis by simp
    qed
    then have "b = - 1" by (intro bit_word_eqI) simp
    then show "b = 0xFF" by simp
  qed
qed

lemma reserve_first_free_Some:
  assumes "reserve_first_free k bs = Some (i, j, bs')"
  shows "\<exists>i0 < length bs. i = k + i0 \<and> j < 8 \<and> \<not> slot_bit bs (8 * i0 + j)
           \<and> (\<forall>m < 8 * i0 + j. slot_bit bs m)
           \<and> bs' = bs[i0 := (bs ! i0) OR drop_bit j 0x80]"
  using assms
proof (induction k bs arbitrary: bs' rule: reserve_first_free.induct)
  case (1 k)
  then show ?case by simp
next
  case (2 k b bs)
  show ?case
  proof (cases "b = 0xFF")
    case False
    with "2.prems" have eq: "i = k" "j = leading_zeros (NOT b)" "bs' = (b OR drop_bit j 0x80) # bs"
      by (auto simp: Let_def)
    from leading_zeros_not [OF False] eq show ?thesis
      by (intro exI [of _ 0]) (auto simp: slot_bit_Cons)
  next
    case True
    with "2.prems" obtain bs'' where
      rec: "reserve_first_free (k + 1) bs = Some (i, j, bs'')" and bs': "bs' = b # bs''"
      by (auto split: option.splits)
    from "2.IH" [of bs''] True rec obtain i0 where i0: "i0 < length bs" "i = k + 1 + i0" "j < 8"
      "\<not> slot_bit bs (8 * i0 + j)" "\<forall>m < 8 * i0 + j. slot_bit bs m"
      "bs'' = bs[i0 := (bs ! i0) OR drop_bit j 0x80]"
      by auto
    have "slot_bit (b # bs) m" if "m < 8 * Suc i0 + j" for m
      using i0(5) that True slot_bit_FF [of m bs] by (cases "m < 8") (auto simp: slot_bit_Cons)
    moreover have "\<not> slot_bit (b # bs) (8 * Suc i0 + j)"
      using i0(4) by (simp add: slot_bit_Cons)
    ultimately show ?thesis
      using i0 bs' by (intro exI [of _ "Suc i0"]) auto
  qed
qed

subsection \<open>Setting and clearing a slot\<close>

lemma slot_bit_set:
  assumes "i < length bs" "j < 8" "n < 8 * length bs"
  shows "slot_bit (bs[i := (bs ! i) OR drop_bit j 0x80]) n \<longleftrightarrow> n = 8 * i + j \<or> slot_bit bs n"
proof -
  have "n div 8 < length bs" using assms(3) by auto
  moreover have "n = 8 * i + j \<longleftrightarrow> n div 8 = i \<and> n mod 8 = j"
    using assms(2) by (auto simp: mult.commute)
  moreover have "(7 - n mod 8) + j = 7 \<longleftrightarrow> n mod 8 = j"
    using assms(2) mod_less_divisor [of 8 n] by auto
  ultimately show ?thesis
    using assms(1,2) by (auto simp: slot_bit_def nth_list_update bit_or_iff bit_top_shift)
qed

lemma slot_bit_clear:
  assumes "i < length bs" "j < 8" "n < 8 * length bs"
  shows "slot_bit (bs[i := (bs ! i) AND NOT (drop_bit j 0x80)]) n
           \<longleftrightarrow> n \<noteq> 8 * i + j \<and> slot_bit bs n"
proof -
  have "n div 8 < length bs" using assms(3) by auto
  moreover have "n = 8 * i + j \<longleftrightarrow> n div 8 = i \<and> n mod 8 = j"
    using assms(2) by (auto simp: mult.commute)
  moreover have "(7 - n mod 8) + j = 7 \<longleftrightarrow> n mod 8 = j"
    using assms(2) mod_less_divisor [of 8 n] by auto
  moreover have "7 - n mod 8 < 8" by simp
  ultimately show ?thesis
    using assms(1,2)
    by (auto simp: slot_bit_def nth_list_update bit_and_iff bit_not_iff bit_top_shift)
qed

lemma used_slots_set:
  assumes "i < length bs" "j < 8"
  shows "used_slots (bs[i := (bs ! i) OR drop_bit j 0x80]) = insert (8 * i + j) (used_slots bs)"
  using assms slot_bit_set [OF assms] by (auto simp: used_slots_def)

lemma used_slots_clear:
  assumes "i < length bs" "j < 8"
  shows "used_slots (bs[i := (bs ! i) AND NOT (drop_bit j 0x80)]) = used_slots bs - {8 * i + j}"
  using assms slot_bit_clear [OF assms] by (auto simp: used_slots_def)

lemma finite_used_slots [simp, intro]: "finite (used_slots bs)"
  by (rule finite_subset [of _ "{..<8 * length bs}"]) (auto simp: used_slots_def)

lemma used_slots_bound: "n \<in> used_slots bs \<Longrightarrow> n < 8 * length bs"
  by (simp add: used_slots_def)

lemma clear_slot_Some:
  "clear_slot bs i j = Some bs' \<longleftrightarrow> i < length bs \<and> bs' = bs[i := (bs ! i) AND NOT (drop_bit j 0x80)]"
  by (auto simp: clear_slot_def slice_get_def slice_set_def)

text \<open>A bitmap is determined by its slots, so clearing a slot undoes setting it.\<close>

lemma bitmap_eqI:
  assumes "length bs = length cs" "\<And>n. n < 8 * length cs \<Longrightarrow> slot_bit bs n = slot_bit cs n"
  shows "bs = cs"
proof (rule nth_equalityI [OF assms(1)])
  fix i assume i: "i < length bs"
  show "bs ! i = cs ! i"
  proof (rule bit_word_eqI)
    fix k assume "k < LENGTH(8)"
    define j where "j = 7 - k"
    have k: "j < 8" "7 - j = k" using \<open>k < LENGTH(8)\<close> by (auto simp: j_def)
    have "8 * i + j < 8 * length cs" using i assms(1) k by auto
    from assms(2) [OF this] k show "bit (bs ! i) k = bit (cs ! i) k"
      by (simp add: slot_bit_def)
  qed
qed

lemma clear_set_slot:
  assumes "i < length bs" "j < 8" "\<not> slot_bit bs (8 * i + j)"
  defines "cs \<equiv> bs[i := (bs ! i) OR drop_bit j 0x80]"
  shows "cs[i := (cs ! i) AND NOT (drop_bit j 0x80)] = bs"
proof (rule bitmap_eqI)
  fix n assume "n < 8 * length bs"
  with assms(1,2,3) show "slot_bit (cs[i := (cs ! i) AND NOT (drop_bit j 0x80)]) n = slot_bit bs n"
    using slot_bit_clear [of i cs j n] slot_bit_set [of i bs j n] by (auto simp: cs_def)
qed (simp add: cs_def)

subsection \<open>Counting free slots\<close>

lemma count_zeros_card: "count_zeros b = card {k. k < 8 \<and> \<not> bit b (7 - k)}"
proof -
  have "count_zeros b = card (set (filter (\<lambda>i. \<not> bit b i) [0..<8]))"
    unfolding count_zeros_def by (rule distinct_card [symmetric]) simp
  also have "set (filter (\<lambda>i. \<not> bit b i) [0..<8]) = (\<lambda>k. 7 - k) ` {k. k < 8 \<and> \<not> bit b (7 - k)}"
  proof (intro set_eqI iffI)
    fix n assume "n \<in> set (filter (\<lambda>i. \<not> bit b i) [0..<8])"
    then have n: "n < 8" "\<not> bit b n" by auto
    then have "n = 7 - (7 - n)" "7 - n < 8" by auto
    with n show "n \<in> (\<lambda>k. 7 - k) ` {k. k < 8 \<and> \<not> bit b (7 - k)}"
      by (metis (mono_tags, lifting) imageI mem_Collect_eq)
  qed auto
  also have "card \<dots> = card {k. k < 8 \<and> \<not> bit b (7 - k)}"
    by (rule card_image) (auto simp: inj_on_def)
  finally show ?thesis .
qed

lemma used_slots_Cons:
  "used_slots (b # bs) = {k. k < 8 \<and> bit b (7 - k)} \<union> (\<lambda>n. n + 8) ` used_slots bs"
proof (intro set_eqI iffI)
  fix n assume n: "n \<in> used_slots (b # bs)"
  show "n \<in> {k. k < 8 \<and> bit b (7 - k)} \<union> (\<lambda>n. n + 8) ` used_slots bs"
  proof (cases "n < 8")
    case False
    with n have "n - 8 \<in> used_slots bs" by (auto simp: used_slots_def slot_bit_Cons)
    then have "n - 8 + 8 \<in> (\<lambda>n. n + 8) ` used_slots bs" by (rule imageI)
    with False show ?thesis by simp
  qed (use n in \<open>auto simp: used_slots_def slot_bit_Cons\<close>)
qed (auto simp: used_slots_def slot_bit_Cons)

lemma zero_bits_card: "zero_bits bs + card (used_slots bs) = 8 * length bs"
proof (induction bs)
  case Nil
  then show ?case by (simp add: zero_bits_def used_slots_def)
next
  case (Cons b bs)
  let ?U = "{k. k < 8 \<and> bit b (7 - k)}" and ?Z = "{k. k < 8 \<and> \<not> bit b (7 - k)}"
  have "card (used_slots (b # bs)) = card ?U + card ((\<lambda>n. n + 8) ` used_slots bs)"
    unfolding used_slots_Cons by (rule card_Un_disjoint) auto
  also have "\<dots> = card ?U + card (used_slots bs)"
    by (simp add: card_image inj_on_def)
  finally have "card (used_slots (b # bs)) = card ?U + card (used_slots bs)" .
  moreover have "count_zeros b + card ?U = 8"
  proof -
    have "card ?Z + card ?U = card (?Z \<union> ?U)"
      by (rule card_Un_disjoint [symmetric]) auto
    also have "?Z \<union> ?U = {..<8}" by auto
    finally show ?thesis by (simp add: count_zeros_card)
  qed
  ultimately show ?case using Cons.IH by (simp add: zero_bits_def)
qed

lemma zero_bits_eq: "zero_bits bs = 8 * length bs - card (used_slots bs)"
  using zero_bits_card [of bs] by simp

subsection \<open>The interface of a slot allocator\<close>

text \<open>
  What the clients of a bitmap allocator rely on: a reservation hands out the least free slot,
  fails exactly when every slot is taken, and a release gives one used slot back.
\<close>

locale slot_allocator =
  fixes invar :: "'s \<Rightarrow> bool"
    and slots :: "'s \<Rightarrow> nat set"
    and used :: "'s \<Rightarrow> nat set"
    and reserve :: "'s \<Rightarrow> (nat \<times> 's) option"
    and release :: "nat \<Rightarrow> 's \<Rightarrow> 's option"
  assumes reserve_fresh: "invar s \<Longrightarrow> reserve s = Some (n, s') \<Longrightarrow>
      n \<in> slots s - used s \<and> used s' = insert n (used s) \<and> slots s' = slots s \<and> invar s'"
    and reserve_least: "invar s \<Longrightarrow> reserve s = Some (n, s') \<Longrightarrow> m \<in> slots s \<Longrightarrow> m < n \<Longrightarrow> m \<in> used s"
    and reserve_full: "invar s \<Longrightarrow> reserve s = None \<Longrightarrow> used s = slots s"
    and release_used: "invar s \<Longrightarrow> n \<in> used s \<Longrightarrow>
      \<exists>s'. release n s = Some s' \<and> used s' = used s - {n} \<and> slots s' = slots s \<and> invar s'"
    and used_slots: "invar s \<Longrightarrow> used s \<subseteq> slots s"
    and finite_slots: "invar s \<Longrightarrow> finite (slots s)"
begin

lemma finite_used: "invar s \<Longrightarrow> finite (used s)"
  using used_slots finite_slots finite_subset by blast

lemma reserve_succeeds_iff:
  assumes "invar s"
  shows "reserve s \<noteq> None \<longleftrightarrow> card (used s) < card (slots s)"
proof
  assume "reserve s \<noteq> None"
  then obtain n s' where r: "reserve s = Some (n, s')" by auto
  from reserve_fresh [OF assms r] have "used s \<subset> slots s" using used_slots [OF assms] by auto
  then show "card (used s) < card (slots s)"
    by (rule psubset_card_mono [rotated]) (rule finite_slots [OF assms])
next
  assume "card (used s) < card (slots s)"
  then show "reserve s \<noteq> None" using reserve_full [OF assms] by (metis less_irrefl)
qed

lemma reserve_is_Least:
  assumes "invar s" "reserve s = Some (n, s')"
  shows "n = (LEAST k. k \<in> slots s - used s)"
  using reserve_fresh [OF assms] reserve_least [OF assms]
  by (intro Least_equality [symmetric]) (auto simp: not_less [symmetric])

lemma release_reserve:
  assumes "invar s" "reserve s = Some (n, s')"
  shows "\<exists>s''. release n s' = Some s'' \<and> used s'' = used s \<and> slots s'' = slots s \<and> invar s''"
  using reserve_fresh [OF assms] release_used [of s' n] by auto

text \<open>A batch of reservations, as a client makes them one after the other.\<close>

fun reserve_many :: "nat \<Rightarrow> 's \<Rightarrow> (nat list \<times> 's) option" where
  "reserve_many 0 s = Some ([], s)"
| "reserve_many (Suc k) s =
     (case reserve s of None \<Rightarrow> None
      | Some (n, s') \<Rightarrow> map_option (\<lambda>(ns, s''). (n # ns, s'')) (reserve_many k s'))"

lemma reserve_many_spec:
  assumes "invar s" "reserve_many k s = Some (ns, s')"
  shows "invar s' \<and> length ns = k \<and> distinct ns \<and> set ns \<subseteq> slots s - used s
         \<and> used s' = used s \<union> set ns \<and> slots s' = slots s"
  using assms
proof (induction k arbitrary: s ns)
  case 0
  then show ?case by simp
next
  case (Suc k)
  then obtain n s1 ns1 where r: "reserve s = Some (n, s1)" "reserve_many k s1 = Some (ns1, s')"
    "ns = n # ns1"
    by (auto split: option.splits)
  from reserve_fresh [OF Suc.prems(1) r(1)] have f: "n \<in> slots s - used s"
    "used s1 = insert n (used s)" "slots s1 = slots s" "invar s1" by auto
  from Suc.IH [OF f(4) r(2)] f r(3) show ?case by auto
qed

lemma reserve_many_succeeds:
  assumes "invar s" "card (used s) + k \<le> card (slots s)"
  shows "\<exists>ns s'. reserve_many k s = Some (ns, s')"
  using assms
proof (induction k arbitrary: s)
  case 0
  then show ?case by simp
next
  case (Suc k)
  then obtain n s1 where r: "reserve s = Some (n, s1)"
    using reserve_succeeds_iff [OF Suc.prems(1)] by fastforce
  from reserve_fresh [OF Suc.prems(1) r] finite_used [OF Suc.prems(1)] Suc.prems(2)
  have "invar s1" "card (used s1) + k \<le> card (slots s1)" by auto
  from Suc.IH [OF this] r show ?case by auto
qed

end

end
