(* ===== verification/Page_Allocation.thy ===== *)
theory Page_Allocation
  imports Paging Bitmap
begin

text \<open>
  The physical page allocator (\<^verbatim>\<open>arch/x86_64/page_allocation.rs\<close>) and the block allocator on top
  of it (\<^verbatim>\<open>physical_block_allocator.rs\<close>). The state of \<^verbatim>\<open>PageAllocatorInternal\<close> is a record; the
  global \<^verbatim>\<open>PAGE_ALLOCATOR\<close> (a locked \<^verbatim>\<open>Option\<close>) is a field of the machine state, beside physical
  memory. Physical memory is identity mapped and is only reached through page-aligned pointers to
  arrays of 512 eight-byte entries, so it is a function from the base address of a frame and the
  index of an eight-byte unit in it to that unit.

  The page table operations of \<^verbatim>\<open>PageAllocatorInternal\<close> are in the theory \<open>Page_Walk\<close>.
\<close>

subsection \<open>Definitions\<close>

type_synonym memory = "usize \<Rightarrow> nat \<Rightarrow> u64"

datatype reserve_page_error = ReservePageError

record page_allocator =
  memory_bitmap :: "u8 list"
  total_pages :: usize
  free_pages :: usize
  page_table :: page_table_entry

definition BYTE_RATIO :: usize where
  "BYTE_RATIO = PAGE_SIZE * 8"

text \<open>The fold of \<^verbatim>\<open>PageAllocatorInternal::new\<close>; its accumulator is the \<^verbatim>\<open>u32\<close> of \<^verbatim>\<open>count_zeros\<close>.\<close>

fun sum_count_zeros :: "u32 \<Rightarrow> u8 list \<Rightarrow> u32 option" where
  "sum_count_zeros acc [] = Some acc"
| "sum_count_zeros acc (byte # rest) =
     do { acc' \<leftarrow> checked_add acc (of_nat (count_zeros byte)); sum_count_zeros acc' rest }"

definition pai_new :: "usize \<Rightarrow> u8 list \<Rightarrow> usize \<Rightarrow> page_allocator option" where
  "pai_new page_table_address bitmap num_pages =
     do { free \<leftarrow> sum_count_zeros 0 bitmap;
          Some \<lparr>memory_bitmap = bitmap, total_pages = num_pages, free_pages = ucast free,
                page_table = replace_addr_with ENTRY_ZERO page_table_address\<rparr> }"

definition num_pages_used :: "page_allocator \<Rightarrow> usize option" where
  "num_pages_used pa = checked_sub (total_pages pa) (free_pages pa)"

text \<open>
  A reservation clears the page it hands out. The address is turned into a pointer and
  \<^verbatim>\<open>as_mut().unwrap()\<close> panics on the null pointer, that is, on page 0.
\<close>

definition pai_find_and_reserve_page ::
  "page_allocator \<Rightarrow> memory \<Rightarrow> ((reserve_page_error + usize) \<times> page_allocator \<times> memory) option" where
  "pai_find_and_reserve_page pa m =
     (case reserve_first_free 0 (memory_bitmap pa) of
        None \<Rightarrow> Some (Inl ReservePageError, pa, m)
      | Some (byte_index, bit_index, bitmap) \<Rightarrow>
          do { free \<leftarrow> checked_sub (free_pages pa) 1;
               byte_addr \<leftarrow> checked_mul (of_nat byte_index) BYTE_RATIO;
               bit_addr \<leftarrow> checked_mul (of_nat bit_index) PAGE_SIZE;
               addr \<leftarrow> checked_add byte_addr bit_addr;
               guard (addr \<noteq> 0);
               Some (Inr addr, pa\<lparr>memory_bitmap := bitmap, free_pages := free\<rparr>,
                     m(addr := (\<lambda>_. 0))) })"

definition pai_free_page :: "page_allocator \<Rightarrow> usize \<Rightarrow> page_allocator option" where
  "pai_free_page pa addr =
     (let byte_index = addr div BYTE_RATIO;
          bit_offset = (addr div PAGE_SIZE) mod 8
      in do { bits \<leftarrow> checked_mul byte_index 8;
              page_index \<leftarrow> checked_add bits bit_offset;
              if page_index \<ge> total_pages pa then Some pa
              else do { bitmap \<leftarrow> clear_slot (memory_bitmap pa) (unat byte_index) (unat bit_offset);
                        free \<leftarrow> checked_add (free_pages pa) 1;
                        Some (pa\<lparr>memory_bitmap := bitmap, free_pages := free\<rparr>) } })"

subsection \<open>The global allocator\<close>

record machine =
  PAGE_ALLOCATOR :: "page_allocator option"
  mem :: memory

definition init :: "usize \<Rightarrow> u8 list \<Rightarrow> usize \<Rightarrow> machine \<Rightarrow> machine option" where
  "init pt_address bitmap num_pages s =
     (case PAGE_ALLOCATOR s of
        None \<Rightarrow> do { pa \<leftarrow> pai_new pt_address bitmap num_pages; Some (s\<lparr>PAGE_ALLOCATOR := Some pa\<rparr>) }
      | Some _ \<Rightarrow> Some s)"

definition deinit_and_remove :: "machine \<Rightarrow> page_allocator option \<times> machine" where
  "deinit_and_remove s = (PAGE_ALLOCATOR s, s\<lparr>PAGE_ALLOCATOR := None\<rparr>)"

definition page_table_address :: "machine \<Rightarrow> usize option" where
  "page_table_address s = do { pa \<leftarrow> PAGE_ALLOCATOR s; Some (address (page_table pa)) }"

definition memory_bitmap_slice :: "machine \<Rightarrow> u8 list option" where
  "memory_bitmap_slice s = do { pa \<leftarrow> PAGE_ALLOCATOR s; Some (memory_bitmap pa) }"

definition get_total_pages :: "machine \<Rightarrow> usize option" where
  "get_total_pages s = do { pa \<leftarrow> PAGE_ALLOCATOR s; Some (total_pages pa) }"

definition get_free_pages :: "machine \<Rightarrow> usize option" where
  "get_free_pages s = do { pa \<leftarrow> PAGE_ALLOCATOR s; Some (free_pages pa) }"

definition used_pages :: "machine \<Rightarrow> usize option" where
  "used_pages s = do { pa \<leftarrow> PAGE_ALLOCATOR s; checked_sub (total_pages pa) (free_pages pa) }"

definition find_and_reserve_page :: "machine \<Rightarrow> ((reserve_page_error + usize) \<times> machine) option" where
  "find_and_reserve_page s =
     do { pa \<leftarrow> PAGE_ALLOCATOR s;
          (r, pa', m) \<leftarrow> pai_find_and_reserve_page pa (mem s);
          Some (r, s\<lparr>PAGE_ALLOCATOR := Some pa', mem := m\<rparr>) }"

definition free_page :: "machine \<Rightarrow> usize \<Rightarrow> machine option" where
  "free_page s addr =
     do { pa \<leftarrow> PAGE_ALLOCATOR s;
          pa' \<leftarrow> pai_free_page pa addr;
          Some (s\<lparr>PAGE_ALLOCATOR := Some pa'\<rparr>) }"

text \<open>
  An \<^verbatim>\<open>OwnedPhysicalPage\<close> is its pointer; dropping it frees the page, \<^verbatim>\<open>into_raw\<close> forgets it and keeps
  the page reserved.
\<close>

definition owned_page_into_raw :: "usize \<Rightarrow> usize" where
  "owned_page_into_raw pointer = pointer"

definition owned_page_drop :: "machine \<Rightarrow> usize \<Rightarrow> machine option" where
  "owned_page_drop s pointer =
     do { pa \<leftarrow> PAGE_ALLOCATOR s;
          pa' \<leftarrow> pai_free_page pa pointer;
          Some (s\<lparr>PAGE_ALLOCATOR := Some pa'\<rparr>) }"

subsection \<open>The block allocator\<close>

datatype alloc_error = AllocError

definition block_allocate :: "machine \<Rightarrow> usize \<Rightarrow> usize \<Rightarrow> ((alloc_error + usize) \<times> machine) option" where
  "block_allocate s layout_size layout_align =
     do { guard (layout_align \<le> PAGE_SIZE);
          if layout_size > PAGE_SIZE then Some (Inl AllocError, s)
          else do { (r, s') \<leftarrow> find_and_reserve_page s;
                    Some (case r of Inl _ \<Rightarrow> Inl AllocError | Inr a \<Rightarrow> Inr (owned_page_into_raw a), s') } }"

definition block_deallocate :: "machine \<Rightarrow> usize \<Rightarrow> machine option" where
  "block_deallocate s addr = owned_page_drop s addr"

subsection \<open>The invariant of the allocator\<close>

text \<open>
  The invariant: the free count is the number of clear bits, page 0 is never handed out (its
  address is the null pointer), the bits past the end of memory are set, and physical addresses
  fit into the 51 bits an entry holds without sign extension.
\<close>

definition frame_of :: "nat \<Rightarrow> usize" where
  "frame_of n = of_nat (4096 * n)"

definition pa_slots :: "page_allocator \<Rightarrow> nat set" where
  "pa_slots pa = {1..<min (unat (total_pages pa)) (8 * length (memory_bitmap pa))}"

definition pa_used :: "page_allocator \<Rightarrow> nat set" where
  "pa_used pa = used_slots (memory_bitmap pa) \<inter> pa_slots pa"

definition pa_inv :: "page_allocator \<Rightarrow> bool" where
  "pa_inv pa \<longleftrightarrow>
     unat (free_pages pa) = zero_bits (memory_bitmap pa)
     \<and> 0 \<in> used_slots (memory_bitmap pa)
     \<and> (\<forall>n < 8 * length (memory_bitmap pa). unat (total_pages pa) \<le> n \<longrightarrow> slot_bit (memory_bitmap pa) n)
     \<and> length (memory_bitmap pa) \<le> 2 ^ 36"

lemma unat_frame_of [simp]: "n < 2 ^ 39 \<Longrightarrow> unat (frame_of n) = 4096 * n"
  unfolding frame_of_def by (rule unat_of_nat_small) simp

lemma frame_of_inj: "m < 2 ^ 39 \<Longrightarrow> n < 2 ^ 39 \<Longrightarrow> frame_of m = frame_of n \<longleftrightarrow> m = n"
  by (metis mult_left_cancel unat_frame_of zero_neq_numeral)

lemma frame_of_nonzero: "n < 2 ^ 39 \<Longrightarrow> n \<noteq> 0 \<Longrightarrow> frame_of n \<noteq> 0"
  using frame_of_inj [of n 0] by (simp add: frame_of_def)

lemma frame_of_div_ratio: "n < 2 ^ 39 \<Longrightarrow> unat (frame_of n div BYTE_RATIO) = n div 8"
proof -
  assume "n < 2 ^ 39"
  then have "unat (frame_of n div BYTE_RATIO) = 4096 * n div (4096 * 8)"
    by (simp add: unat_div BYTE_RATIO_def PAGE_SIZE_def)
  also have "\<dots> = n div 8" by (subst div_mult2_eq) simp
  finally show ?thesis .
qed

lemma frame_of_div_size: "n < 2 ^ 39 \<Longrightarrow> unat (frame_of n div PAGE_SIZE mod 8) = n mod 8"
  by (simp add: unat_div unat_mod PAGE_SIZE_def)

lemma frame_of_bytes:
  "i < 2 ^ 36 \<Longrightarrow> j < 8 \<Longrightarrow>
     checked_mul (of_nat i) BYTE_RATIO = Some (of_nat i * BYTE_RATIO)
     \<and> checked_mul (of_nat j) PAGE_SIZE = Some (of_nat j * PAGE_SIZE)
     \<and> checked_add (of_nat i * BYTE_RATIO) (of_nat j * PAGE_SIZE) = Some (frame_of (8 * i + j))"
  by (simp add: checked_simps unat_mult_small unat_of_nat_small BYTE_RATIO_def PAGE_SIZE_def)

lemma frame_address_frame_of: "n < 2 ^ 39 \<Longrightarrow> frame_address (frame_of n)"
  unfolding frame_address_def
proof (rule address_low_frame)
  assume n: "n < 2 ^ 39"
  then show "unat (frame_of n) < 2 ^ 51" by simp
  have "frame_of n = push_bit 12 (of_nat n)"
    by (simp add: frame_of_def push_bit_eq_mult)
  moreover have "push_bit 12 (of_nat n :: usize) AND 0xFFF = 0"
    by (rule bit_word_eqI) (auto simp: bit_simps)
  ultimately show "frame_of n AND 0xFFF = 0" by simp
qed

lemma pa_slots_bound: "pa_inv pa \<Longrightarrow> n \<in> pa_slots pa \<Longrightarrow> n < 2 ^ 39 \<and> n \<noteq> 0"
  by (auto simp: pa_inv_def pa_slots_def)

lemma pa_inv_free_page:
  assumes "pa_inv pa" "n < 8 * length (memory_bitmap pa)" "\<not> slot_bit (memory_bitmap pa) n"
  shows "n \<in> pa_slots pa" "n \<notin> pa_used pa"
proof -
  have "n \<noteq> 0" using assms by (metis (no_types, lifting) mem_Collect_eq pa_inv_def used_slots_def)
  moreover have "n < unat (total_pages pa)" using assms by (auto simp: pa_inv_def not_le [symmetric])
  ultimately show "n \<in> pa_slots pa" using assms(2) by (simp add: pa_slots_def)
  show "n \<notin> pa_used pa" using assms(3) by (simp add: pa_used_def used_slots_def)
qed

subsection \<open>Reserving and freeing a page\<close>

lemma zero_bits_pos: "n < 8 * length bs \<Longrightarrow> \<not> slot_bit bs n \<Longrightarrow> zero_bits bs > 0"
proof -
  assume n: "n < 8 * length bs" "\<not> slot_bit bs n"
  then have "used_slots bs \<subset> {..<8 * length bs}" by (auto simp: used_slots_def)
  then have "card (used_slots bs) < card {..<8 * length bs}"
    by (rule psubset_card_mono [rotated]) simp
  then show ?thesis by (simp add: zero_bits_eq)
qed

lemma zero_bits_set:
  assumes "i < length bs" "j < 8" "\<not> slot_bit bs (8 * i + j)"
  shows "Suc (zero_bits (bs[i := (bs ! i) OR drop_bit j 0x80])) = zero_bits bs"
proof -
  have "8 * i + j \<notin> used_slots bs" using assms(3) by (simp add: used_slots_def)
  then have "card (used_slots (bs[i := (bs ! i) OR drop_bit j 0x80])) = Suc (card (used_slots bs))"
    by (simp add: used_slots_set [OF assms(1,2)])
  with zero_bits_card [of bs] zero_bits_card [of "bs[i := (bs ! i) OR drop_bit j 0x80]"]
  show ?thesis by simp
qed

lemma zero_bits_clear:
  assumes "i < length bs" "j < 8" "slot_bit bs (8 * i + j)"
  shows "zero_bits (bs[i := (bs ! i) AND NOT (drop_bit j 0x80)]) = Suc (zero_bits bs)"
proof -
  let ?bs = "bs[i := (bs ! i) AND NOT (drop_bit j 0x80)]"
  have u: "8 * i + j \<in> used_slots bs" using assms by (simp add: used_slots_def)
  then have "Suc (card (used_slots ?bs)) = card (used_slots bs)"
    using card_Suc_Diff1 [OF finite_used_slots u] by (simp add: used_slots_clear [OF assms(1,2)])
  with zero_bits_card [of bs] zero_bits_card [of ?bs] show ?thesis by simp
qed

lemma pa_inv_set:
  assumes inv: "pa_inv pa" and ij: "i < length (memory_bitmap pa)" "j < 8"
    and free: "\<not> slot_bit (memory_bitmap pa) (8 * i + j)" and fp: "Suc (unat f) = unat (free_pages pa)"
  defines "pa' \<equiv> pa\<lparr>memory_bitmap := (memory_bitmap pa)[i := (memory_bitmap pa ! i) OR drop_bit j 0x80],
                     free_pages := f\<rparr>"
  shows "pa_inv pa'" "pa_slots pa' = pa_slots pa" "pa_used pa' = insert (8 * i + j) (pa_used pa)"
proof -
  show "pa_inv pa'"
    using inv fp zero_bits_set [OF ij free] slot_bit_set [OF ij]
    by (simp add: pa_inv_def pa'_def used_slots_set [OF ij])
  show "pa_slots pa' = pa_slots pa" by (simp add: pa_slots_def pa'_def)
  moreover have "8 * i + j \<in> pa_slots pa"
    using ij by (intro pa_inv_free_page [OF inv _ free]) simp
  ultimately show "pa_used pa' = insert (8 * i + j) (pa_used pa)"
    by (auto simp: pa_used_def pa'_def used_slots_set [OF ij])
qed

lemma pai_find_and_reserve_page_cases:
  assumes inv: "pa_inv pa"
  obtains
    (full) "pai_find_and_reserve_page pa m = Some (Inl ReservePageError, pa, m)"
      "pa_used pa = pa_slots pa"
  | (found) n pa' where
      "pai_find_and_reserve_page pa m = Some (Inr (frame_of n), pa', m(frame_of n := (\<lambda>_. 0)))"
      "n \<in> pa_slots pa - pa_used pa" "\<And>k. k \<in> pa_slots pa \<Longrightarrow> k < n \<Longrightarrow> k \<in> pa_used pa"
      "pa_inv pa'" "pa_used pa' = insert n (pa_used pa)" "pa_slots pa' = pa_slots pa"
      "page_table pa' = page_table pa" "total_pages pa' = total_pages pa"
      "unat (free_pages pa) = Suc (unat (free_pages pa'))" "\<not> slot_bit (memory_bitmap pa) n"
      "memory_bitmap pa' = (memory_bitmap pa)[n div 8 := (memory_bitmap pa ! (n div 8)) OR drop_bit (n mod 8) 0x80]"
proof (cases "reserve_first_free 0 (memory_bitmap pa)")
  case None
  then have "used_slots (memory_bitmap pa) = {..<8 * length (memory_bitmap pa)}"
    by (simp add: reserve_first_free_None all_FF_used)
  moreover have "pa_slots pa \<subseteq> {..<8 * length (memory_bitmap pa)}" by (auto simp: pa_slots_def)
  ultimately have "pa_used pa = pa_slots pa" by (simp add: pa_used_def Int_absorb1)
  moreover from None have "pai_find_and_reserve_page pa m = Some (Inl ReservePageError, pa, m)"
    by (simp add: pai_find_and_reserve_page_def)
  ultimately show thesis by (rule full [rotated])
next
  case (Some r)
  obtain i j bm where r: "r = (i, j, bm)" by (cases r)
  from reserve_first_free_Some [OF Some [unfolded r]] have i: "i < length (memory_bitmap pa)"
    and j: "j < 8" and free: "\<not> slot_bit (memory_bitmap pa) (8 * i + j)"
    and least: "\<forall>k < 8 * i + j. slot_bit (memory_bitmap pa) k"
    and bm: "bm = (memory_bitmap pa)[i := (memory_bitmap pa ! i) OR drop_bit j 0x80]" by auto
  have lt: "8 * i + j < 8 * length (memory_bitmap pa)" using i j by simp
  have fp: "unat (free_pages pa) > 0" using zero_bits_pos [OF lt free] inv by (simp add: pa_inv_def)
  define f where "f = free_pages pa - 1"
  have f: "Suc (unat f) = unat (free_pages pa)"
    using fp by (simp add: f_def unat_sub word_le_nat_alt)
  have sub: "checked_sub (free_pages pa) 1 = Some f" using f by (simp add: checked_simps)
  have small: "i < 2 ^ 36" "8 * i + j < 2 ^ 39" using i j inv by (auto simp: pa_inv_def)
  note slot = pa_inv_free_page [OF inv lt free]
  have "frame_of (8 * i + j) \<noteq> 0"
    using pa_slots_bound [OF inv slot(1)] by (intro frame_of_nonzero) auto
  with frame_of_bytes [OF small(1) j] sub Some r
  have eq: "pai_find_and_reserve_page pa m =
      Some (Inr (frame_of (8 * i + j)), pa\<lparr>memory_bitmap := bm, free_pages := f\<rparr>,
            m(frame_of (8 * i + j) := (\<lambda>_. 0)))"
    by (simp add: pai_find_and_reserve_page_def)
  have ij: "(8 * i + j) div 8 = i" "(8 * i + j) mod 8 = j" using j by auto
  from pa_inv_set [OF inv i j free f] least slot lt free j show thesis
    by (intro found [OF eq]) (auto simp: bm f pa_used_def pa_slots_def used_slots_def ij)
qed

lemma pai_free_page_used:
  assumes inv: "pa_inv pa" and n: "n \<in> pa_used pa"
  obtains pa' where "pai_free_page pa (frame_of n) = Some pa'" "pa_inv pa'"
    "pa_used pa' = pa_used pa - {n}" "pa_slots pa' = pa_slots pa"
    "page_table pa' = page_table pa" "total_pages pa' = total_pages pa"
    "unat (free_pages pa') = Suc (unat (free_pages pa))"
    "memory_bitmap pa' = (memory_bitmap pa)[n div 8 := (memory_bitmap pa ! (n div 8)) AND NOT (drop_bit (n mod 8) 0x80)]"
proof -
  let ?i = "n div 8" and ?j = "n mod 8" and ?bs = "memory_bitmap pa"
  from n have ns: "n \<in> pa_slots pa" and u: "slot_bit ?bs n" "n < 8 * length ?bs"
    by (auto simp: pa_used_def used_slots_def)
  from pa_slots_bound [OF inv ns] have small: "n < 2 ^ 39" and n0: "n \<noteq> 0" by auto
  have ij: "?i < length ?bs" "?j < 8" using u by auto
  have idx: "8 * ?i + ?j = n" by simp
  define bm where "bm = ?bs[?i := (?bs ! ?i) AND NOT (drop_bit ?j 0x80)]"
  note zb = zero_bits_clear [OF ij, unfolded idx, OF u(1), folded bm_def]
  have le: "zero_bits bm \<le> 8 * length ?bs" using zero_bits_card [of bm] by (simp add: bm_def)
  have len: "length ?bs \<le> 2 ^ 36" using inv by (simp add: pa_inv_def)
  define f where "f = free_pages pa + 1"
  have "unat (free_pages pa) + unat (1 :: usize) < 2 ^ LENGTH(64)"
    using zb le len inv by (simp add: pa_inv_def)
  then have f: "unat f = Suc (unat (free_pages pa))" unfolding f_def by (subst unat_add_small) auto
  then have add: "checked_add (free_pages pa) 1 = Some f" by (simp add: checked_simps)
  have un: "unat (of_nat (8 * ?i) :: usize) = 8 * ?i" "unat (of_nat n :: usize) = n"
    using small by (intro unat_of_nat_small; simp)+
  have mul: "checked_mul (frame_of n div BYTE_RATIO) 8 = Some (of_nat (8 * ?i))"
    unfolding checked_mul_Some un frame_of_div_ratio [OF small] by simp
  have add2: "checked_add (of_nat (8 * ?i)) (frame_of n div PAGE_SIZE mod 8) = Some (of_nat n)"
    unfolding checked_add_Some un frame_of_div_size [OF small] by simp
  have "\<not> of_nat n \<ge> total_pages pa"
    using ns unfolding word_le_nat_alt un by (simp add: pa_slots_def)
  moreover have clear: "clear_slot ?bs ?i ?j = Some bm"
    using ij by (simp add: clear_slot_Some bm_def)
  ultimately have eq: "pai_free_page pa (frame_of n) = Some (pa\<lparr>memory_bitmap := bm, free_pages := f\<rparr>)"
    by (simp add: pai_free_page_def mul add2 add frame_of_div_ratio [OF small]
        frame_of_div_size [OF small] clear del: of_nat_mult)
  have sb: "slot_bit bm k \<longleftrightarrow> k \<noteq> n \<and> slot_bit ?bs k" if "k < 8 * length ?bs" for k
    using slot_bit_clear [OF ij that] by (simp add: bm_def)
  have us: "used_slots bm = used_slots ?bs - {n}"
    using used_slots_clear [OF ij] by (simp add: bm_def)
  have "pa_inv (pa\<lparr>memory_bitmap := bm, free_pages := f\<rparr>)"
    unfolding pa_inv_def
  proof (intro conjI)
    show "\<forall>k < 8 * length (memory_bitmap (pa\<lparr>memory_bitmap := bm, free_pages := f\<rparr>)).
        unat (total_pages (pa\<lparr>memory_bitmap := bm, free_pages := f\<rparr>)) \<le> k \<longrightarrow>
        slot_bit (memory_bitmap (pa\<lparr>memory_bitmap := bm, free_pages := f\<rparr>)) k"
      using inv ns sb by (auto simp: pa_inv_def pa_slots_def bm_def)
  qed (use inv zb f us n0 len in \<open>simp_all add: pa_inv_def bm_def\<close>)
  then show thesis using us f
    by (intro that [OF eq]) (auto simp: pa_used_def pa_slots_def bm_def)
qed

subsection \<open>The page allocator provides the slot allocator interface\<close>

definition pa_reserve :: "page_allocator \<Rightarrow> (nat \<times> page_allocator) option" where
  "pa_reserve pa =
     (case pai_find_and_reserve_page pa (\<lambda>_ _. 0) of
        Some (Inr addr, pa', _) \<Rightarrow> Some (unat (addr div PAGE_SIZE), pa')
      | _ \<Rightarrow> None)"

definition pa_release :: "nat \<Rightarrow> page_allocator \<Rightarrow> page_allocator option" where
  "pa_release n pa = pai_free_page pa (frame_of n)"

lemma frame_of_page_number: "n < 2 ^ 39 \<Longrightarrow> unat (frame_of n div PAGE_SIZE) = n"
  by (simp add: unat_div PAGE_SIZE_def)

lemma pa_reserve_cases:
  assumes "pa_inv pa"
  obtains (none) "pa_reserve pa = None" "pa_used pa = pa_slots pa"
  | (some) n pa' where "pa_reserve pa = Some (n, pa')" "n \<in> pa_slots pa - pa_used pa"
      "\<And>k. k \<in> pa_slots pa \<Longrightarrow> k < n \<Longrightarrow> k \<in> pa_used pa"
      "pa_inv pa'" "pa_used pa' = insert n (pa_used pa)" "pa_slots pa' = pa_slots pa"
proof (cases rule: pai_find_and_reserve_page_cases [OF assms, of "\<lambda>_ _. 0"])
  case 1
  then show thesis by (intro none) (simp_all add: pa_reserve_def)
next
  case (2 n pa')
  from pa_slots_bound [OF assms] 2(2) have "n < 2 ^ 39" by auto
  with 2(1) have "pa_reserve pa = Some (n, pa')"
    by (simp add: pa_reserve_def frame_of_page_number)
  from some [OF this 2(2-6)] show thesis .
qed

interpretation page_slots: slot_allocator pa_inv pa_slots pa_used pa_reserve pa_release
proof unfold_locales
  fix s :: page_allocator and n s' assume inv: "pa_inv s"
  show "n \<in> pa_slots s - pa_used s \<and> pa_used s' = insert n (pa_used s)
      \<and> pa_slots s' = pa_slots s \<and> pa_inv s'" if "pa_reserve s = Some (n, s')"
    using that by (cases rule: pa_reserve_cases [OF inv]) auto
  show "m \<in> pa_used s" if "pa_reserve s = Some (n, s')" "m \<in> pa_slots s" "m < n" for m
    using that by (cases rule: pa_reserve_cases [OF inv]) auto
  show "pa_used s = pa_slots s" if "pa_reserve s = None"
    using that by (cases rule: pa_reserve_cases [OF inv]) auto
  show "\<exists>s'. pa_release n s = Some s' \<and> pa_used s' = pa_used s - {n}
      \<and> pa_slots s' = pa_slots s \<and> pa_inv s'" if "n \<in> pa_used s"
    by (rule pai_free_page_used [OF inv that]) (auto simp: pa_release_def)
  show "pa_used s \<subseteq> pa_slots s" by (simp add: pa_used_def)
  show "finite (pa_slots s)" by (simp add: pa_slots_def)
qed

subsection \<open>The interface of a frame allocator\<close>

text \<open>
  The page table code sees the allocator as a source of frames: a reservation never panics, gives
  a cleared frame that nobody else holds, or an error that changes nothing; a frame that is held
  can be given back.
\<close>

locale frame_allocator =
  fixes invar :: "'s \<Rightarrow> bool"
    and frames :: "'s \<Rightarrow> usize set"
    and memory_of :: "'s \<Rightarrow> memory"
    and reserve :: "'s \<Rightarrow> ((reserve_page_error + usize) \<times> 's) option"
    and release :: "'s \<Rightarrow> usize \<Rightarrow> 's option"
  assumes reserve_total: "invar s \<Longrightarrow> reserve s \<noteq> None"
    and reserve_error: "invar s \<Longrightarrow> reserve s = Some (Inl e, s') \<Longrightarrow> s' = s"
    and reserve_frame: "invar s \<Longrightarrow> reserve s = Some (Inr a, s') \<Longrightarrow>
      a \<notin> frames s \<and> frames s' = insert a (frames s) \<and> frame_address a \<and> a \<noteq> 0
      \<and> memory_of s' = (memory_of s)(a := (\<lambda>_. 0)) \<and> invar s'"
    and release_frame: "invar s \<Longrightarrow> a \<in> frames s \<Longrightarrow>
      \<exists>s'. release s a = Some s' \<and> frames s' = frames s - {a}
        \<and> memory_of s' = memory_of s \<and> invar s'"

definition pa_frames :: "page_allocator \<Rightarrow> usize set" where
  "pa_frames pa = frame_of ` pa_used pa"

definition machine_frames :: "machine \<Rightarrow> usize set" where
  "machine_frames s = (case PAGE_ALLOCATOR s of None \<Rightarrow> {} | Some pa \<Rightarrow> pa_frames pa)"

definition machine_inv :: "machine \<Rightarrow> bool" where
  "machine_inv s = (case PAGE_ALLOCATOR s of None \<Rightarrow> False | Some pa \<Rightarrow> pa_inv pa)"

definition pai_reserve :: "page_allocator \<times> memory \<Rightarrow>
    ((reserve_page_error + usize) \<times> page_allocator \<times> memory) option" where
  "pai_reserve s = pai_find_and_reserve_page (fst s) (snd s)"

definition pai_release :: "page_allocator \<times> memory \<Rightarrow> usize \<Rightarrow> (page_allocator \<times> memory) option" where
  "pai_release s addr = map_option (\<lambda>pa. (pa, snd s)) (pai_free_page (fst s) addr)"

lemma pa_frames_fresh:
  assumes "pa_inv pa" "n \<in> pa_slots pa - pa_used pa"
  shows "frame_of n \<notin> pa_frames pa"
proof
  assume "frame_of n \<in> pa_frames pa"
  then obtain k where k: "k \<in> pa_used pa" "frame_of n = frame_of k" by (auto simp: pa_frames_def)
  then have "k \<in> pa_slots pa" by (simp add: pa_used_def)
  with k assms pa_slots_bound [OF assms(1)] have "n = k" by (auto simp: frame_of_inj)
  with k assms show False by simp
qed

lemma pa_frames_remove:
  assumes "pa_inv pa" "n \<in> pa_used pa" "pa_used pa' = pa_used pa - {n}"
  shows "pa_frames pa' = pa_frames pa - {frame_of n}"
proof -
  have "inj_on frame_of (pa_used pa)"
    using pa_slots_bound [OF assms(1)] by (auto simp: inj_on_def pa_used_def frame_of_inj)
  then show ?thesis using assms(2,3) by (auto simp: pa_frames_def inj_on_def)
qed

interpretation pai_frames: frame_allocator "\<lambda>s. pa_inv (fst s)" "\<lambda>s. pa_frames (fst s)" snd
  pai_reserve pai_release
proof unfold_locales
  fix s :: "page_allocator \<times> memory" and a s' e
  obtain pa m where s: "s = (pa, m)" by (cases s)
  assume "pa_inv (fst s)"
  then have inv: "pa_inv pa" by (simp add: s)
  show "pai_reserve s \<noteq> None"
    by (cases rule: pai_find_and_reserve_page_cases [OF inv, of m]) (simp_all add: pai_reserve_def s)
  show "s' = s" if "pai_reserve s = Some (Inl e, s')"
    using that
    by (cases rule: pai_find_and_reserve_page_cases [OF inv, of m]) (simp_all add: pai_reserve_def s)
  show "a \<notin> pa_frames (fst s) \<and> pa_frames (fst s') = insert a (pa_frames (fst s))
      \<and> frame_address a \<and> a \<noteq> 0 \<and> snd s' = (snd s)(a := (\<lambda>_. 0)) \<and> pa_inv (fst s')"
    if "pai_reserve s = Some (Inr a, s')"
  proof (cases rule: pai_find_and_reserve_page_cases [OF inv, of m])
    case 1
    with that show ?thesis by (simp add: pai_reserve_def s)
  next
    case (2 n pa')
    from that have eq: "a = frame_of n" "s' = (pa', m(a := (\<lambda>_. 0)))"
      by (auto simp: pai_reserve_def s 2(1))
    from pa_slots_bound [OF inv, of n] 2(2) have "frame_address a" "a \<noteq> 0"
      by (simp_all add: eq frame_address_frame_of frame_of_nonzero)
    with eq 2(1,4,5) pa_frames_fresh [OF inv 2(2)] show ?thesis by (simp add: s pa_frames_def)
  qed
  show "\<exists>s'. pai_release s a = Some s' \<and> pa_frames (fst s') = pa_frames (fst s) - {a}
      \<and> snd s' = snd s \<and> pa_inv (fst s')" if "a \<in> pa_frames (fst s)"
  proof -
    from that obtain n where n: "n \<in> pa_used pa" "a = frame_of n" by (auto simp: s pa_frames_def)
    from pai_free_page_used [OF inv n(1)] obtain pa' where pa': "pai_free_page pa a = Some pa'"
      "pa_inv pa'" "pa_used pa' = pa_used pa - {n}" unfolding n(2) by metis
    with pa_frames_remove [OF inv n(1) pa'(3)] n(2) show ?thesis
      by (auto simp: pai_release_def s)
  qed
qed

interpretation machine_alloc: frame_allocator machine_inv machine_frames mem
  find_and_reserve_page free_page
proof unfold_locales
  fix s :: machine and a s' e
  assume "machine_inv s"
  then obtain pa where pa: "PAGE_ALLOCATOR s = Some pa" and inv: "pa_inv pa"
    by (auto simp: machine_inv_def split: option.splits)
  have inv': "pa_inv (fst (pa, mem s))" by (simp add: inv)
  note r = find_and_reserve_page_def pa pai_reserve_def
  show "find_and_reserve_page s \<noteq> None"
    using pai_frames.reserve_total [OF inv'] by (auto simp: r)
  show "s' = s" if "find_and_reserve_page s = Some (Inl e, s')"
  proof -
    from that obtain pa' m' where *: "pai_reserve (pa, mem s) = Some (Inl e, pa', m')"
      "s' = s\<lparr>PAGE_ALLOCATOR := Some pa', mem := m'\<rparr>"
      by (auto simp: r bind_eq_Some_conv)
    from pai_frames.reserve_error [OF inv' *(1)] *(2) pa show ?thesis by simp
  qed
  show "a \<notin> machine_frames s \<and> machine_frames s' = insert a (machine_frames s) \<and> frame_address a
      \<and> a \<noteq> 0 \<and> mem s' = (mem s)(a := (\<lambda>_. 0)) \<and> machine_inv s'"
    if "find_and_reserve_page s = Some (Inr a, s')"
  proof -
    from that obtain pa' m' where *: "pai_reserve (pa, mem s) = Some (Inr a, pa', m')"
      "s' = s\<lparr>PAGE_ALLOCATOR := Some pa', mem := m'\<rparr>"
      by (auto simp: r bind_eq_Some_conv)
    from pai_frames.reserve_frame [OF inv' *(1)] *(2) pa show ?thesis
      by (simp add: machine_frames_def machine_inv_def)
  qed
  show "\<exists>s'. free_page s a = Some s' \<and> machine_frames s' = machine_frames s - {a}
      \<and> mem s' = mem s \<and> machine_inv s'" if "a \<in> machine_frames s"
  proof -
    from that pa have "a \<in> pa_frames (fst (pa, mem s))" by (simp add: machine_frames_def)
    from pai_frames.release_frame [OF inv' this] show ?thesis
      by (auto simp: free_page_def pa pai_release_def machine_frames_def machine_inv_def)
  qed
qed

subsection \<open>A small machine\<close>

text \<open>Eight pages: page 0 is never handed out, page 1 holds the top-level page table.\<close>

definition small_allocator :: page_allocator where
  "small_allocator = \<lparr>memory_bitmap = [0xC0], total_pages = 8, free_pages = 6, page_table = 0x1000\<rparr>"

definition small_machine :: machine where
  "small_machine = \<lparr>PAGE_ALLOCATOR = Some small_allocator, mem = (\<lambda>_ _. 0)\<rparr>"

lemma slots_of_byte: "used_slots [b] = {n. n < 8 \<and> bit b (7 - n)}"
  by (auto simp: used_slots_def slot_bit_def)

lemma small_machine_leading_zeros:
  "leading_zeros (NOT (0xC0 :: u8)) = 2" "leading_zeros (NOT (0xE0 :: u8)) = 3"
  "leading_zeros (NOT (0xF0 :: u8)) = 4" "leading_zeros (NOT (0xF8 :: u8)) = 5"
  by code_simp+

lemma small_machine_reserve:
  "pai_find_and_reserve_page \<lparr>memory_bitmap = [0xC0], total_pages = 8, free_pages = 6, page_table = pt\<rparr> m
   = Some (Inr 0x2000, \<lparr>memory_bitmap = [0xE0], total_pages = 8, free_pages = 5, page_table = pt\<rparr>, m(0x2000 := (\<lambda>_. 0)))"
  "pai_find_and_reserve_page \<lparr>memory_bitmap = [0xE0], total_pages = 8, free_pages = 5, page_table = pt\<rparr> m
   = Some (Inr 0x3000, \<lparr>memory_bitmap = [0xF0], total_pages = 8, free_pages = 4, page_table = pt\<rparr>, m(0x3000 := (\<lambda>_. 0)))"
  "pai_find_and_reserve_page \<lparr>memory_bitmap = [0xF0], total_pages = 8, free_pages = 4, page_table = pt\<rparr> m
   = Some (Inr 0x4000, \<lparr>memory_bitmap = [0xF8], total_pages = 8, free_pages = 3, page_table = pt\<rparr>, m(0x4000 := (\<lambda>_. 0)))"
  "pai_find_and_reserve_page \<lparr>memory_bitmap = [0xF8], total_pages = 8, free_pages = 3, page_table = pt\<rparr> m
   = Some (Inr 0x5000, \<lparr>memory_bitmap = [0xFC], total_pages = 8, free_pages = 2, page_table = pt\<rparr>, m(0x5000 := (\<lambda>_. 0)))"
  by (simp_all add: pai_find_and_reserve_page_def small_machine_leading_zeros [simplified] Let_def
      checked_sub_def checked_mul_def checked_add_def BYTE_RATIO_def PAGE_SIZE_def guard_def)

lemma small_allocator_inv: "pa_inv small_allocator" "Suc 0 \<in> pa_used small_allocator"
proof -
  have "zero_bits [0xC0] = 6" by code_simp
  moreover have "0 \<in> used_slots [0xC0]" "1 \<in> used_slots [0xC0]"
    by (simp_all add: slots_of_byte bit_simps)
  ultimately show "pa_inv small_allocator" "Suc 0 \<in> pa_used small_allocator"
    by (auto simp: small_allocator_def pa_inv_def pa_used_def pa_slots_def)
qed

lemma small_machine_inv: "PAGE_ALLOCATOR small_machine = Some small_allocator" "machine_inv small_machine"
  using small_allocator_inv(1) by (simp_all add: small_machine_def machine_inv_def)

lemma small_machine_reserves:
  "find_and_reserve_page small_machine =
     Some (Inr 0x2000, \<lparr>PAGE_ALLOCATOR = Some \<lparr>memory_bitmap = [0xE0], total_pages = 8, free_pages = 5,
       page_table = 0x1000\<rparr>, mem = (\<lambda>_ _. 0)\<rparr>)"
  by (simp add: find_and_reserve_page_def small_machine_def small_allocator_def small_machine_reserve fun_upd_idem)

subsection \<open>Properties\<close>

lemma machine_invE:
  assumes "machine_inv s"
  obtains pa where "PAGE_ALLOCATOR s = Some pa" "pa_inv pa"
  using assms by (auto simp: machine_inv_def split: option.splits)

text \<open>
  C9. \<^verbatim>\<open>find_and_reserve_page\<close> never panics in a state where the invariant of the allocator holds. It
  fails only when every page is in use and then changes nothing. When it succeeds it returns the
  address of the free page with the lowest number, marks exactly this page as used, clears exactly
  its frame, takes one from the count of free pages, and keeps the invariant.
\<close>

theorem find_and_reserve_page_correct:
  assumes "PAGE_ALLOCATOR s = Some pa" "pa_inv pa"
  shows "case find_and_reserve_page s of
      None \<Rightarrow> False
    | Some (Inl e, s') \<Rightarrow> s' = s \<and> pa_used pa = pa_slots pa
    | Some (Inr addr, s') \<Rightarrow>
        (\<exists>n pa'. addr = frame_of n \<and> n = (LEAST k. k \<in> pa_slots pa - pa_used pa)
          \<and> n \<in> pa_slots pa - pa_used pa
          \<and> s' = s\<lparr>PAGE_ALLOCATOR := Some pa', mem := (mem s)(addr := (\<lambda>_. 0))\<rparr>
          \<and> pa_inv pa' \<and> pa_used pa' = insert n (pa_used pa) \<and> pa_slots pa' = pa_slots pa
          \<and> unat (free_pages pa) = Suc (unat (free_pages pa')))"
proof (cases rule: pai_find_and_reserve_page_cases [OF assms(2), of "mem s"])
  case 1
  with assms(1) show ?thesis by (simp add: find_and_reserve_page_def)
next
  case (2 n pa')
  then have "n = (LEAST k. k \<in> pa_slots pa - pa_used pa)"
    by (intro Least_equality [symmetric]) (auto simp: not_less [symmetric])
  with 2 assms(1) show ?thesis by (auto simp: find_and_reserve_page_def)
qed

theorem find_and_reserve_page_correct_witness:
  "pa_inv small_allocator \<and> (\<exists>n. frame_of n = 0x2000 \<and> n = (LEAST k. k \<in> pa_slots small_allocator - pa_used small_allocator))"
  using find_and_reserve_page_correct [OF small_machine_inv(1) small_allocator_inv(1)] small_allocator_inv(1)
  by (auto simp: small_machine_reserves)

text \<open>
  C15. Reserving a page and freeing it gives back the allocator as it was, bit for bit and with the
  same count; physical memory differs from before only in the frame that was reserved, which is clear.
\<close>

theorem reserve_free_round_trip:
  assumes "machine_inv s" "find_and_reserve_page s = Some (Inr addr, s1)"
  shows "free_page s1 addr = Some (s\<lparr>mem := (mem s)(addr := (\<lambda>_. 0))\<rparr>)"
proof -
  from assms(1) obtain pa where pa: "PAGE_ALLOCATOR s = Some pa" and inv: "pa_inv pa" by (rule machine_invE)
  show ?thesis
  proof (cases rule: pai_find_and_reserve_page_cases [OF inv, of "mem s"])
    case 1
    with assms(2) pa show ?thesis by (simp add: find_and_reserve_page_def)
  next
    case (2 n pa1)
    from assms(2) pa 2(1) have addr: "addr = frame_of n"
      and s1: "s1 = s\<lparr>PAGE_ALLOCATOR := Some pa1, mem := (mem s)(addr := (\<lambda>_. 0))\<rparr>"
      by (auto simp: find_and_reserve_page_def)
    from 2(5) have "n \<in> pa_used pa1" by simp
    from pai_free_page_used [OF 2(4) this] obtain pa2 where
      pa2: "pai_free_page pa1 addr = Some pa2" "pa_used pa2 = pa_used pa1 - {n}"
        "unat (free_pages pa2) = Suc (unat (free_pages pa1))"
        "page_table pa2 = page_table pa1" "total_pages pa2 = total_pages pa1"
        "memory_bitmap pa2 = (memory_bitmap pa1)[n div 8 := (memory_bitmap pa1 ! (n div 8)) AND NOT (drop_bit (n mod 8) 0x80)]"
      unfolding addr by metis
    have "n < 8 * length (memory_bitmap pa)" using 2(2) by (simp add: pa_slots_def)
    then have "memory_bitmap pa2 = memory_bitmap pa"
      unfolding pa2(6) 2(11) using clear_set_slot [of "n div 8" "memory_bitmap pa" "n mod 8"] 2(10) by simp
    then have "pa2 = pa" using pa2 2 by (intro page_allocator.equality) (auto intro: word_eq_unatI)
    with pa2(1) pa show ?thesis by (simp add: free_page_def s1)
  qed
qed

theorem reserve_free_round_trip_witness:
  "machine_inv small_machine
   \<and> (\<exists>s1. find_and_reserve_page small_machine = Some (Inr 0x2000, s1) \<and> free_page s1 0x2000 = Some small_machine)"
proof -
  have "small_machine\<lparr>mem := (mem small_machine)(0x2000 := (\<lambda>_. 0))\<rparr> = small_machine"
    by (simp add: small_machine_def fun_upd_idem)
  with reserve_free_round_trip [OF small_machine_inv(2) small_machine_reserves] small_machine_inv(2)
  show ?thesis by (simp add: small_machine_reserves)
qed

lemma sum_count_zeros_spec:
  "unat acc + zero_bits bs < 2 ^ 32 \<Longrightarrow> sum_count_zeros acc bs = Some (acc + of_nat (zero_bits bs))"
  "unat acc + zero_bits bs \<ge> 2 ^ 32 \<Longrightarrow> sum_count_zeros acc bs = None"
proof (induction acc bs rule: sum_count_zeros.induct)
  case (1 acc)
  { case 1 show ?case by (simp add: zero_bits_def) }
  { case 2 then show ?case using unsigned_less [of acc, where ?'a = nat] by (simp add: zero_bits_def) }
next
  case (2 acc b bs)
  let ?z = "count_zeros b"
  have z: "?z \<le> 8" unfolding count_zeros_def by (metis diff_zero length_filter_le length_upt)
  then have uz: "unat (of_nat ?z :: u32) = ?z" by (intro unat_of_nat_small) simp
  have zb: "zero_bits (b # bs) = ?z + zero_bits bs" by (simp add: zero_bits_def)
  { case 1
    then have lt: "unat acc + ?z < 2 ^ 32" by (simp add: zb)
    then have "checked_add acc (of_nat ?z) = Some (acc + of_nat ?z)" and "unat (acc + of_nat ?z) = unat acc + ?z"
      using uz by (simp_all add: checked_add_def unat_add_small)
    with "2.IH"(1) 1 show ?case by (simp add: zb ac_simps) }
  { case 2
    show ?case
    proof (cases "unat acc + ?z < 2 ^ 32")
      case True
      then have "checked_add acc (of_nat ?z) = Some (acc + of_nat ?z)" and "unat (acc + of_nat ?z) = unat acc + ?z"
        using uz by (simp_all add: checked_add_def unat_add_small)
      with "2.IH"(2) 2 show ?thesis by (simp add: zb)
    next
      case False
      then have "checked_add acc (of_nat ?z) = None" using uz by (simp add: checked_add_def)
      then show ?thesis by simp
    qed }
qed

lemma init_new_allocator:
  assumes "PAGE_ALLOCATOR s = None" "0 \<in> used_slots bitmap" "length bitmap < 2 ^ 29"
    and "\<And>n. n < 8 * length bitmap \<Longrightarrow> unat num_pages \<le> n \<Longrightarrow> slot_bit bitmap n"
  shows "\<exists>pa. init pt_address bitmap num_pages s = Some (s\<lparr>PAGE_ALLOCATOR := Some pa\<rparr>) \<and> pa_inv pa \<and> total_pages pa = num_pages
    \<and> memory_bitmap pa = bitmap \<and> unat (free_pages pa) = zero_bits bitmap
    \<and> address (page_table pa) = address pt_address"
proof -
  have z: "zero_bits bitmap < 2 ^ 32" using zero_bits_card [of bitmap] assms(3) by simp
  have u: "unat (of_nat (zero_bits bitmap) :: u32) = zero_bits bitmap"
    by (rule unat_of_nat_small) (use z in simp)
  then have "unat (ucast (of_nat (zero_bits bitmap) :: u32) :: usize) = zero_bits bitmap"
    by (subst unat_ucast_up) simp_all
  with assms z sum_count_zeros_spec(1) [of 0 bitmap] show ?thesis
    by (intro exI [of _ "\<lparr>memory_bitmap = bitmap, total_pages = num_pages,
        free_pages = ucast (of_nat (zero_bits bitmap) :: u32),
        page_table = replace_addr_with ENTRY_ZERO pt_address\<rparr>"]) (simp add: init_def pai_new_def pa_inv_def)
qed

text \<open>
  C32. \<^verbatim>\<open>init\<close> on a machine without an allocator installs one whose invariant holds, if page 0 and the
  pages past the end of memory are marked in the bitmap and the bitmap is not larger than the 512 MiB
  after which the \<^verbatim>\<open>u32\<close> that counts its clear bits could overflow. The free count is the number of
  clear bits of the bitmap.
\<close>

theorem init_establishes_invariant:
  assumes "PAGE_ALLOCATOR s = None" "0 \<in> used_slots bitmap" "length bitmap < 2 ^ 29"
    and "\<And>n. n < 8 * length bitmap \<Longrightarrow> unat num_pages \<le> n \<Longrightarrow> slot_bit bitmap n"
  shows "\<exists>pa. init pt_address bitmap num_pages s = Some (s\<lparr>PAGE_ALLOCATOR := Some pa\<rparr>) \<and> pa_inv pa
    \<and> memory_bitmap pa = bitmap \<and> unat (free_pages pa) = zero_bits bitmap
    \<and> address (page_table pa) = address pt_address"
  using init_new_allocator [OF assms] by blast

theorem init_establishes_invariant_witness:
  "\<exists>pa. init 0x1000 [0xC0] 8 (small_machine\<lparr>PAGE_ALLOCATOR := None\<rparr>) = Some (small_machine\<lparr>PAGE_ALLOCATOR := Some pa\<rparr>)
     \<and> pa_inv pa"
  using init_establishes_invariant [of "small_machine\<lparr>PAGE_ALLOCATOR := None\<rparr>" "[0xC0]" 8 "0x1000"]
  by (auto simp: slots_of_byte bit_simps)

text \<open>
  Page 0 must never be free: a reservation that finds it panics on the null pointer, whatever
  else is free.
\<close>

theorem reserve_page_zero_panics:
  assumes "memory_bitmap pa = byte # bytes" "\<not> bit byte 7"
  shows "pai_find_and_reserve_page pa m = None"
proof -
  have ne: "byte \<noteq> 0xFF"
  proof
    assume "byte = 0xFF"
    moreover have "(0xFF :: u8) = - 1" by simp
    ultimately show False using assms(2) by simp
  qed
  from leading_zeros_not [OF ne] assms(2) have "leading_zeros (NOT byte) = 0"
    by (metis diff_zero gr0I)
  with ne assms(1) show ?thesis
    by (auto simp: pai_find_and_reserve_page_def Let_def checked_mul_def checked_add_def bind_eq_None_conv
        split: option.splits)
qed

theorem reserve_page_zero_panics_witness:
  "pai_find_and_reserve_page (small_allocator\<lparr>memory_bitmap := [0x40]\<rparr>) (\<lambda>_ _. 0) = None"
  by (rule reserve_page_zero_panics [of _ "0x40" "[]"]) simp_all

end
