(* ===== verification/Page_Walk.thy ===== *)
theory Page_Walk
  imports Page_Allocation
begin

text \<open>
  Walking and editing four-level page tables: the page table methods of
  \<^verbatim>\<open>PageAllocatorInternal\<close> (\<^verbatim>\<open>page_allocation.rs\<close>), and the view of a page table as a partial map
  from paths of table indices to frames, which the proofs about every mapper use.

  A loop over \<^verbatim>\<open>LEVEL_MASKS.iter().enumerate()\<close> is a recursion over the list of the remaining
  levels; running off its end is the \<^verbatim>\<open>unreachable!()\<close> after the loop.
\<close>

subsection \<open>Definitions\<close>

datatype map_page_error = OutOfPages | PageAlreadyExists

definition LEVEL_MASKS :: "usize list" where
  "LEVEL_MASKS = [0xFF8000000000, 0x007FC0000000, 0x00003FE00000, 0x0000001FF000]"

definition level_index :: "nat \<Rightarrow> usize \<Rightarrow> nat" where
  "level_index i va = unat (drop_bit ((3 - i) * 9 + 12) (LEVEL_MASKS ! i AND va) mod 512)"

definition levels :: "nat list" where
  "levels = [0, 1, 2, 3]"

definition write_entry :: "memory \<Rightarrow> usize \<Rightarrow> nat \<Rightarrow> page_table_entry \<Rightarrow> memory" where
  "write_entry m table index e = m(table := (m table)(index := e))"

text \<open>Reading an entry through a pointer to a table; the null pointer must not be dereferenced.\<close>

definition read_table :: "memory \<Rightarrow> usize \<Rightarrow> nat \<Rightarrow> page_table_entry option" where
  "read_table m table index = (if table = 0 then None else Some (m table index))"

definition identity_mask :: "nat \<Rightarrow> usize" where
  "identity_mask i =
     (if i = 0 then 0xFFFFFF80C0000000 else if i = 1 then 0xFFFFFFFFC0000000
      else if i = 2 then 0xFFFFFFFFFFE00000 else 0xFFFFFFFFFFFFF000)"

fun identity_mapped_loop :: "memory \<Rightarrow> usize \<Rightarrow> nat list \<Rightarrow> usize \<Rightarrow> bool option" where
  "identity_mapped_loop m addr [] current = None"
| "identity_mapped_loop m addr (i # is) current =
     do { entry \<leftarrow> read_table m current (level_index i addr);
          if \<not> present entry then Some False
          else if i = 3 \<or> huge_page entry then Some (addr AND identity_mask i = address entry)
          else identity_mapped_loop m addr is (address entry) }"

definition pai_is_address_identity_mapped :: "page_allocator \<Rightarrow> memory \<Rightarrow> usize \<Rightarrow> bool option" where
  "pai_is_address_identity_mapped pa m addr =
     identity_mapped_loop m addr levels (address (page_table pa))"

fun map_translation_loop ::
  "usize \<Rightarrow> usize \<Rightarrow> page_table_entry \<Rightarrow> nat list \<Rightarrow> usize \<Rightarrow> page_allocator \<Rightarrow> memory \<Rightarrow>
   ((map_page_error + unit) \<times> page_allocator \<times> memory) option" where
  "map_translation_loop phys va flags [] current pa m = None"
| "map_translation_loop phys va flags (i # is) current pa m =
     do { let index = level_index i va;
          entry \<leftarrow> read_table m current index;
          if i = 3 then
            (if present entry then Some (Inl PageAlreadyExists, pa, m)
             else Some (Inr (), pa, write_entry m current index (replace_addr_with flags phys)))
          else if \<not> present entry then
            do { (r, pa', m') \<leftarrow> pai_find_and_reserve_page pa m;
                 case r of
                   Inl _ \<Rightarrow> Some (Inl OutOfPages, pa', m')
                 | Inr new_page_table \<Rightarrow>
                     let m1 = m'(new_page_table := (\<lambda>_. 0));
                         new_entry = replace_addr_with READ_WRITE
                           (new_page_table AND 0x000FFFFFFFFFF000)
                     in map_translation_loop phys va flags is (address new_entry) pa'
                          (write_entry m1 current index new_entry) }
          else map_translation_loop phys va flags is (address entry) pa m }"

definition pai_map_page_translation ::
  "page_allocator \<Rightarrow> memory \<Rightarrow> usize \<Rightarrow> usize \<Rightarrow> page_table_entry \<Rightarrow>
   ((map_page_error + unit) \<times> page_allocator \<times> memory) option" where
  "pai_map_page_translation pa m physical_address virtual_address flags =
     map_translation_loop (physical_address AND 0x000FFFFFFFFFF000) virtual_address flags levels
       (address (page_table pa)) pa m"

definition pai_map_page ::
  "page_allocator \<Rightarrow> memory \<Rightarrow> usize \<Rightarrow> page_table_entry \<Rightarrow>
   ((map_page_error + unit) \<times> page_allocator \<times> memory) option" where
  "pai_map_page pa m virtual_address flags =
     do { (r, pa1, m1) \<leftarrow> pai_find_and_reserve_page pa m;
          case r of
            Inl _ \<Rightarrow> Some (Inl OutOfPages, pa1, m1)
          | Inr new_page_address \<Rightarrow>
              do { (r2, pa2, m2) \<leftarrow> pai_map_page_translation pa1 m1 new_page_address virtual_address flags;
                   case r2 of
                     Inl err \<Rightarrow> do { pa3 \<leftarrow> pai_free_page pa2 new_page_address; Some (Inl err, pa3, m2) }
                   | Inr u \<Rightarrow> Some (Inr u, pa2, m2) } }"

fun unmap_and_free_loop ::
  "usize \<Rightarrow> nat list \<Rightarrow> usize \<Rightarrow> page_allocator \<Rightarrow> memory \<Rightarrow> (page_allocator \<times> memory) option" where
  "unmap_and_free_loop va [] current pa m = Some (pa, m)"
| "unmap_and_free_loop va (i # is) current pa m =
     do { let index = level_index i va;
          entry \<leftarrow> read_table m current index;
          if \<not> present entry then Some (pa, m)
          else if i = 3 then
            do { let m' = write_entry m current index ENTRY_ZERO;
                 pa' \<leftarrow> pai_free_page pa (address entry);
                 Some (pa', m') }
          else unmap_and_free_loop va is (address entry) pa m }"

definition pai_unmap_and_free_page :: "page_allocator \<Rightarrow> memory \<Rightarrow> usize \<Rightarrow> (page_allocator \<times> memory) option" where
  "pai_unmap_and_free_page pa m virtual_address =
     unmap_and_free_loop (virtual_address AND 0x000FFFFFFFFFF000) levels
       (address (page_table pa)) pa m"

text \<open>The number of pages an address range touches, as every range operation computes it.\<close>

definition range_num_pages :: "usize \<Rightarrow> usize \<Rightarrow> usize option" where
  "range_num_pages start size_bytes =
     do { last_off \<leftarrow> checked_sub size_bytes 1;
          last_addr \<leftarrow> checked_add start last_off;
          let lower_bound = align_to_page start;
          let upper_bound = align_to_page last_addr;
          d \<leftarrow> checked_sub upper_bound lower_bound;
          checked_add (drop_bit 12 d) 1 }"

fun check_flags_walk :: "memory \<Rightarrow> u64 \<Rightarrow> usize \<Rightarrow> nat list \<Rightarrow> usize \<Rightarrow> bool option" where
  "check_flags_walk m actual_flags va [] current = Some True"
| "check_flags_walk m actual_flags va (i # is) current =
     do { entry \<leftarrow> read_table m current (level_index i va);
          if \<not> present entry \<or> entry AND actual_flags \<noteq> actual_flags then Some False
          else check_flags_walk m actual_flags va is (address entry) }"

fun check_flags_pages :: "memory \<Rightarrow> usize \<Rightarrow> u64 \<Rightarrow> usize \<Rightarrow> nat list \<Rightarrow> bool option" where
  "check_flags_pages m root actual_flags start [] = Some True"
| "check_flags_pages m root actual_flags start (page_i # pages) =
     do { va \<leftarrow> checked_add start (push_bit 12 (of_nat page_i));
          ok \<leftarrow> check_flags_walk m actual_flags va levels root;
          if ok then check_flags_pages m root actual_flags start pages else Some False }"

definition pai_check_flags :: "page_allocator \<Rightarrow> memory \<Rightarrow> usize \<Rightarrow> usize \<Rightarrow> page_table_entry \<Rightarrow> bool option" where
  "pai_check_flags pa m virtual_start_address size_bytes flags =
     do { num_pages \<leftarrow> range_num_pages virtual_start_address size_bytes;
          check_flags_pages m (address (page_table pa)) (replace_addr_with flags 0)
            virtual_start_address [0..<unat num_pages] }"

subsection \<open>The module functions on the global allocator\<close>

definition is_address_identity_mapped :: "machine \<Rightarrow> usize \<Rightarrow> bool option" where
  "is_address_identity_mapped s addr =
     do { pa \<leftarrow> PAGE_ALLOCATOR s; pai_is_address_identity_mapped pa (mem s) addr }"

definition map_page_translation ::
  "machine \<Rightarrow> usize \<Rightarrow> usize \<Rightarrow> page_table_entry \<Rightarrow> ((map_page_error + unit) \<times> machine) option" where
  "map_page_translation s physical_address virtual_address flags =
     do { pa \<leftarrow> PAGE_ALLOCATOR s;
          (r, pa', m) \<leftarrow> pai_map_page_translation pa (mem s) physical_address virtual_address flags;
          Some (r, s\<lparr>PAGE_ALLOCATOR := Some pa', mem := m\<rparr>) }"

definition map_page ::
  "machine \<Rightarrow> usize \<Rightarrow> page_table_entry \<Rightarrow> ((map_page_error + unit) \<times> machine) option" where
  "map_page s virtual_address flags =
     do { pa \<leftarrow> PAGE_ALLOCATOR s;
          (r, pa', m) \<leftarrow> pai_map_page pa (mem s) virtual_address flags;
          Some (r, s\<lparr>PAGE_ALLOCATOR := Some pa', mem := m\<rparr>) }"

definition unmap_and_free_page :: "machine \<Rightarrow> usize \<Rightarrow> machine option" where
  "unmap_and_free_page s virtual_address =
     do { pa \<leftarrow> PAGE_ALLOCATOR s;
          (pa', m) \<leftarrow> pai_unmap_and_free_page pa (mem s) virtual_address;
          Some (s\<lparr>PAGE_ALLOCATOR := Some pa', mem := m\<rparr>) }"

definition check_flags :: "machine \<Rightarrow> usize \<Rightarrow> usize \<Rightarrow> page_table_entry \<Rightarrow> bool option" where
  "check_flags s virtual_start_address size_bytes flags =
     do { pa \<leftarrow> PAGE_ALLOCATOR s;
          pai_check_flags pa (mem s) virtual_start_address size_bytes flags }"

subsection \<open>A page table as a tree of paths\<close>

text \<open>
  \<open>walk m root p\<close> follows the indices \<open>p\<close> through present entries. Paths of length up to three end
  in page tables, paths of length four in the frame a virtual page is mapped to.
\<close>

fun walk :: "memory \<Rightarrow> usize \<Rightarrow> nat list \<Rightarrow> usize option" where
  "walk m a [] = Some a"
| "walk m a (i # is) = (if present (m a i) then walk m (address (m a i)) is else None)"

definition va_path :: "usize \<Rightarrow> nat list" where
  "va_path va = map (\<lambda>i. level_index i va) levels"

definition translate :: "memory \<Rightarrow> usize \<Rightarrow> usize \<Rightarrow> usize option" where
  "translate m root va = walk m root (va_path va)"

definition table_path :: "nat list \<Rightarrow> bool" where
  "table_path p \<longleftrightarrow> length p \<le> 3 \<and> set p \<subseteq> {..<512}"

text \<open>
  A page table is well formed when its tables are frames that are held (so that the allocator
  never hands one of them out), none of them is at the null address, and no table is reached along
  two different paths.
\<close>

definition pt_wf :: "memory \<Rightarrow> usize \<Rightarrow> usize set \<Rightarrow> bool" where
  "pt_wf m root F \<longleftrightarrow>
     (\<forall>p a. table_path p \<longrightarrow> walk m root p = Some a \<longrightarrow> a \<in> F \<and> a \<noteq> 0)
     \<and> (\<forall>p q a. table_path p \<longrightarrow> table_path q \<longrightarrow> walk m root p = Some a \<longrightarrow> walk m root q = Some a \<longrightarrow> p = q)"

lemma walk_append:
  "walk m a (p @ q) = (case walk m a p of None \<Rightarrow> None | Some b \<Rightarrow> walk m b q)"
  by (induction p arbitrary: a) auto

lemma walk_snoc:
  "walk m a (p @ [i]) =
     (case walk m a p of None \<Rightarrow> None
      | Some b \<Rightarrow> if present (m b i) then Some (address (m b i)) else None)"
  by (simp add: walk_append split: option.splits)

lemma table_path_prefix: "table_path (p @ q) \<Longrightarrow> table_path p"
  by (auto simp: table_path_def)

lemma pt_wf_held: "pt_wf m root F \<Longrightarrow> table_path p \<Longrightarrow> walk m root p = Some a \<Longrightarrow> a \<in> F"
  by (auto simp: pt_wf_def)

lemma pt_wf_nonzero: "pt_wf m root F \<Longrightarrow> table_path p \<Longrightarrow> walk m root p = Some a \<Longrightarrow> a \<noteq> 0"
  by (auto simp: pt_wf_def)

lemma read_table_nonzero [simp]: "t \<noteq> 0 \<Longrightarrow> read_table m t i = Some (m t i)"
  by (simp add: read_table_def)

lemma pt_wf_inj:
  "pt_wf m root F \<Longrightarrow> table_path p \<Longrightarrow> table_path q \<Longrightarrow>
     walk m root p = Some a \<Longrightarrow> walk m root q = Some a \<Longrightarrow> p = q"
  unfolding pt_wf_def by blast

subsection \<open>Table indices of a virtual address\<close>

lemma level_index_take_bit:
  assumes "i < 4"
  shows "level_index i va = unat (take_bit 9 (drop_bit ((3 - i) * 9 + 12) va))"
proof -
  have "i = 0 \<or> i = 1 \<or> i = 2 \<or> i = 3" using assms by auto
  then have "LEVEL_MASKS ! i = push_bit ((3 - i) * 9 + 12) (mask 9)"
    by (elim disjE) (simp_all add: LEVEL_MASKS_def mask_eq_exp_minus_1 push_bit_eq_mult)
  then have "drop_bit ((3 - i) * 9 + 12) (LEVEL_MASKS ! i AND va) mod 512
      = take_bit 9 (drop_bit ((3 - i) * 9 + 12) (push_bit ((3 - i) * 9 + 12) (mask 9) AND va))"
    by (simp add: take_bit_eq_mod)
  also have "\<dots> = take_bit 9 (drop_bit ((3 - i) * 9 + 12) va)"
    by (rule bit_word_eqI) (auto simp: bit_simps)
  finally show ?thesis by (simp add: level_index_def)
qed

lemma level_index_less: "i < 4 \<Longrightarrow> level_index i va < 512"
  by (simp add: level_index_def unat_mod)

lemma length_va_path [simp]: "length (va_path va) = 4"
  by (simp add: va_path_def levels_def)

lemma set_va_path [simp]: "set (va_path va) \<subseteq> {..<512}"
  by (auto simp: va_path_def levels_def intro: level_index_less)

text \<open>Two addresses have the same path exactly when they agree on bits 12 to 47.\<close>

lemma va_path_eq_iff:
  "va_path a = va_path b \<longleftrightarrow> a AND 0xFFFFFFFFF000 = b AND 0xFFFFFFFFF000"
proof -
  have m: "(0xFFFFFFFFF000 :: usize) = push_bit 12 (mask 36)"
    by (simp add: mask_eq_exp_minus_1 push_bit_eq_mult)
  have lv: "level_index i a = level_index i b \<longleftrightarrow>
      (\<forall>n < 9. bit a ((3 - i) * 9 + 12 + n) = bit b ((3 - i) * 9 + 12 + n))" if "i < 4" for i
  proof -
    have "level_index i a = level_index i b \<longleftrightarrow>
        take_bit 9 (drop_bit ((3 - i) * 9 + 12) a) = take_bit 9 (drop_bit ((3 - i) * 9 + 12) b)"
      unfolding level_index_take_bit [OF that] word_unat_eq_iff ..
    also have "\<dots> \<longleftrightarrow> (\<forall>n < 64. n < 9 \<longrightarrow>
        bit a ((3 - i) * 9 + 12 + n) = bit b ((3 - i) * 9 + 12 + n))"
      by (auto simp: bit_eq_iff bit_simps)
    finally show ?thesis by auto
  qed
  have "a AND 0xFFFFFFFFF000 = b AND 0xFFFFFFFFF000 \<longleftrightarrow> (\<forall>n. 12 \<le> n \<and> n < 48 \<longrightarrow> bit a n = bit b n)"
  proof -
    have "bit (x AND 0xFFFFFFFFF000) n \<longleftrightarrow> 12 \<le> n \<and> n < 48 \<and> bit x n" for x :: usize and n
      unfolding m by (auto simp: bit_simps)
    moreover have "n < LENGTH(64)" if "n < 48" for n :: nat using that by simp
    ultimately show ?thesis unfolding bit_eq_iff [of "a AND _"] possible_bit_word by blast
  qed
  also have "\<dots> \<longleftrightarrow> (\<forall>i < 4. \<forall>n < 9. bit a ((3 - i) * 9 + 12 + n) = bit b ((3 - i) * 9 + 12 + n))"
    (is "?L \<longleftrightarrow> ?R")
  proof
    assume r: ?R
    show ?L
    proof (intro allI impI)
      fix n :: nat assume n: "12 \<le> n \<and> n < 48"
      define i where "i = 3 - (n - 12) div 9"
      have q: "(n - 12) div 9 \<le> 3" using n by linarith
      then have "3 - i = (n - 12) div 9" "i < 4" by (auto simp: i_def)
      moreover have "(n - 12) div 9 * 9 + 12 + (n - 12) mod 9 = n" using n by simp
      ultimately show "bit a n = bit b n" using r [rule_format, of i "(n - 12) mod 9"] by simp
    qed
  qed auto
  also have "\<dots> \<longleftrightarrow> (\<forall>i < 4. level_index i a = level_index i b)" using lv by blast
  also have "\<dots> \<longleftrightarrow> va_path a = va_path b"
    by (auto simp: va_path_def levels_def less_Suc_eq numeral_eq_Suc)
  finally show ?thesis by simp
qed

subsection \<open>Writing one entry\<close>

definition page_path :: "nat list \<Rightarrow> bool" where
  "page_path p \<longleftrightarrow> length p \<le> 4 \<and> set p \<subseteq> {..<512}"

lemma page_path_va [simp]: "page_path (va_path va)"
  by (simp add: page_path_def)

lemma table_path_page_path: "table_path p \<Longrightarrow> page_path p"
  by (simp add: table_path_def page_path_def)

lemma page_path_snoc: "page_path (p @ [i]) \<longleftrightarrow> table_path p \<and> i < 512"
  by (auto simp: page_path_def table_path_def)

lemma write_entry_same [simp]: "write_entry m t i e t i = e"
  by (simp add: write_entry_def)

lemma write_entry_other: "b \<noteq> t \<or> j \<noteq> i \<Longrightarrow> write_entry m t i e b j = m b j"
  by (auto simp: write_entry_def)

text \<open>A walk only reads the tables, so it does not see changes outside of the held frames.\<close>

lemma walk_cong_held:
  assumes wf: "pt_wf m root F" and eq: "\<And>b. b \<in> F \<Longrightarrow> m' b = m b" and q: "page_path q"
  shows "walk m' root q = walk m root q"
  using q
proof (induction q rule: rev_induct)
  case (snoc j q)
  then have q: "table_path q" by (simp add: page_path_snoc)
  with snoc have ih: "walk m' root q = walk m root q" by (simp add: table_path_page_path)
  show ?case
  proof (cases "walk m root q")
    case (Some b)
    with pt_wf_held [OF wf q] eq ih show ?thesis by (simp add: walk_snoc)
  qed (simp add: walk_snoc ih)
qed simp

lemma pt_wf_cong_held:
  assumes "pt_wf m root F" "\<And>b. b \<in> F \<Longrightarrow> m' b = m b" "F \<subseteq> F'"
  shows "pt_wf m' root F'"
  using assms walk_cong_held [OF assms(1,2)] table_path_page_path
  unfolding pt_wf_def by (metis subsetD)

text \<open>Writing the entry \<open>i\<close> of the table at path \<open>p\<close> only changes the walks that go through it.\<close>

lemma walk_write_entry_other:
  assumes wf: "pt_wf m root F" and p: "table_path p" "walk m root p = Some t"
    and q: "page_path q" "take (Suc (length p)) q \<noteq> p @ [i]"
  shows "walk (write_entry m t i e) root q = walk m root q"
  using q
proof (induction q rule: rev_induct)
  case (snoc j q)
  from snoc.prems have tq: "table_path q" by (simp add: page_path_snoc)
  have "take (Suc (length p)) q \<noteq> p @ [i]"
  proof
    assume eq: "take (Suc (length p)) q = p @ [i]"
    then have "Suc (length p) \<le> length q" by (metis length_append_singleton length_take min.cobounded1)
    with eq snoc.prems(2) show False by simp
  qed
  with snoc tq have ih: "walk (write_entry m t i e) root q = walk m root q"
    by (simp add: table_path_page_path)
  show ?case
  proof (cases "walk m root q")
    case (Some b)
    have "b \<noteq> t \<or> j \<noteq> i"
    proof (rule ccontr)
      assume "\<not> ?thesis"
      with Some pt_wf_inj [OF wf tq p(1)] p(2) have "q = p" "j = i" by auto
      with snoc.prems(2) show False by simp
    qed
    with Some ih show ?thesis by (auto simp: walk_snoc write_entry_other)
  qed (simp add: walk_snoc ih)
qed simp

lemma walk_write_entry_through:
  assumes "pt_wf m root F" "table_path p" "walk m root p = Some t"
  shows "walk (write_entry m t i e) root (p @ i # r) =
    (if present e then walk (write_entry m t i e) (address e) r else None)"
proof -
  have "walk (write_entry m t i e) root p = Some t"
    using assms by (subst walk_write_entry_other [OF assms]) (auto simp: table_path_page_path)
  then show ?thesis by (simp add: walk_append)
qed

text \<open>Writing an entry of a last-level table, or clearing one of any level, keeps the tables.\<close>

lemma pt_wf_write_leaf:
  assumes wf: "pt_wf m root F" and p: "table_path p" "walk m root p = Some t" "length p = 3"
  shows "pt_wf (write_entry m t i e) root F"
proof -
  have "walk (write_entry m t i e) root q = walk m root q" if "table_path q" for q
    using that p(3) by (intro walk_write_entry_other [OF wf p(1,2)])
      (auto simp: table_path_page_path table_path_def dest: arg_cong [of _ _ length])
  then show ?thesis using wf unfolding pt_wf_def by metis
qed

subsection \<open>Adding tables\<close>

definition is_table :: "memory \<Rightarrow> usize \<Rightarrow> usize \<Rightarrow> bool" where
  "is_table m root b \<longleftrightarrow> (\<exists>p. table_path p \<and> walk m root p = Some b)"

text \<open>
  Adding tables changes no translation, keeps every table where it is, and leaves every held frame
  that is not a table alone.
\<close>

definition pt_extends :: "usize \<Rightarrow> memory \<Rightarrow> usize set \<Rightarrow> memory \<Rightarrow> usize set \<Rightarrow> bool" where
  "pt_extends root m F m' F' \<longleftrightarrow>
     pt_wf m' root F' \<and> F \<subseteq> F'
     \<and> (\<forall>q. page_path q \<longrightarrow> length q = 4 \<longrightarrow> walk m' root q = walk m root q)
     \<and> (\<forall>p a. table_path p \<longrightarrow> walk m root p = Some a \<longrightarrow> walk m' root p = Some a)
     \<and> (\<forall>b \<in> F. \<not> is_table m root b \<longrightarrow> m' b = m b \<and> \<not> is_table m' root b)"

lemma pt_extends_refl: "pt_wf m root F \<Longrightarrow> pt_extends root m F m F"
  by (simp add: pt_extends_def)

lemma pt_extends_trans:
  "pt_extends root m F m1 F1 \<Longrightarrow> pt_extends root m1 F1 m2 F2 \<Longrightarrow> pt_extends root m F m2 F2"
  unfolding pt_extends_def by (auto 4 3 dest: subsetD)

lemma walk_zero_frame: "m a = (\<lambda>_. 0) \<Longrightarrow> walk m a r = (if r = [] then Some a else None)"
  by (cases r) simp_all

lemma walk_link:
  assumes wf: "pt_wf m root F" and a: "a \<notin> F"
    and p: "table_path p" "walk m root p = Some t" and free: "\<not> present (m t i)"
    and e: "present e" "address e = a" and q: "page_path q"
  defines "m' \<equiv> write_entry (m(a := (\<lambda>_. 0))) t i e"
  shows "walk m' root q = (if q = p @ [i] then Some a else walk m root q)"
proof -
  let ?m = "m(a := (\<lambda>_. 0))"
  have eq: "?m b = m b" if "b \<in> F" for b using that a by auto
  have same: "walk ?m root r = walk m root r" if "page_path r" for r
    by (rule walk_cong_held [OF wf eq that])
  have wf1: "pt_wf ?m root F" by (rule pt_wf_cong_held [OF wf eq]) auto
  have p1: "walk ?m root p = Some t" using p by (simp add: same table_path_page_path)
  have t: "t \<in> F" by (rule pt_wf_held [OF wf p])
  show ?thesis
  proof (cases "take (Suc (length p)) q = p @ [i]")
    case True
    then obtain r where qr: "q = p @ i # r"
      by (metis append.assoc append_Cons append_Nil append_take_drop_id)
    have "m' a = (\<lambda>_. 0)" using t a by (auto simp: m'_def write_entry_def)
    then have "walk m' root q = (if r = [] then Some a else None)"
      using walk_write_entry_through [OF wf1 p(1) p1, of i e r] e
      by (simp add: qr m'_def walk_zero_frame)
    moreover have "walk m root q = None" using p free by (simp add: qr walk_append)
    ultimately show ?thesis by (simp add: qr)
  next
    case False
    then have "q \<noteq> p @ [i]" by auto
    with False walk_write_entry_other [OF wf1 p(1) p1 q False, of e] same [OF q] show ?thesis
      by (simp add: m'_def)
  qed
qed

lemma pt_extends_link:
  assumes wf: "pt_wf m root F" and a: "a \<notin> F" "a \<noteq> 0"
    and p: "table_path p" "walk m root p = Some t" "length p < 3" and i: "i < 512"
    and free: "\<not> present (m t i)" and e: "present e" "address e = a"
  defines "m' \<equiv> write_entry (m(a := (\<lambda>_. 0))) t i e"
  shows "pt_extends root m F m' (insert a F)" "walk m' root (p @ [i]) = Some a"
proof -
  note w = walk_link [OF wf a(1) p(1,2) free e, folded m'_def]
  have none: "walk m root (p @ [i]) = None" using p free by (simp add: walk_snoc)
  have t: "t \<in> F" by (rule pt_wf_held [OF wf p(1,2)])
  have table: "walk m' root q = (if q = p @ [i] then Some a else walk m root q)" if "table_path q" for q
    using w [OF table_path_page_path [OF that]] .
  have fresh: "walk m root q \<noteq> Some a" if "table_path q" for q
    using pt_wf_held [OF wf that] a(1) by auto
  have new: "table_path (p @ [i])" using p i by (auto simp: table_path_def)
  then show "walk m' root (p @ [i]) = Some a" by (simp add: table)
  have "pt_wf m' root (insert a F)"
    unfolding pt_wf_def
  proof (intro conjI allI impI)
    show "b \<in> insert a F" "b \<noteq> 0" if "table_path q" "walk m' root q = Some b" for q b
      using that table [OF that(1)] pt_wf_held [OF wf that(1)] pt_wf_nonzero [OF wf that(1)] a(2)
      by (auto split: if_splits)
    show "q = r" if "table_path q" "table_path r" "walk m' root q = Some b" "walk m' root r = Some b" for q r b
      using that table [OF that(1)] table [OF that(2)] fresh pt_wf_inj [OF wf that(1,2)]
      by (auto split: if_splits)
  qed
  moreover have "walk m' root q = walk m root q" if "page_path q" "length q = 4" for q
    using w [OF that(1)] that(2) p(3) by auto
  moreover have "walk m' root q = Some b" if "table_path q" "walk m root q = Some b" for q b
    using table [OF that(1)] that none by auto
  moreover have "m' b = m b" "\<not> is_table m' root b" if "b \<in> F" "\<not> is_table m root b" for b
  proof -
    from that a p have "b \<noteq> a" "b \<noteq> t" by (auto simp: is_table_def)
    then show "m' b = m b" by (simp add: m'_def write_entry_def)
    show "\<not> is_table m' root b"
      using that \<open>b \<noteq> a\<close> table by (auto simp: is_table_def split: if_splits)
  qed
  ultimately show "pt_extends root m F m' (insert a F)"
    unfolding pt_extends_def by auto
qed

subsection \<open>Mapping a page\<close>

lemma drop_levels: "k < 4 \<Longrightarrow> drop k levels = k # drop (Suc k) levels"
  by (auto simp: levels_def less_Suc_eq numeral_eq_Suc)

lemma nth_va_path: "k < 4 \<Longrightarrow> va_path va ! k = level_index k va"
  by (auto simp: va_path_def levels_def less_Suc_eq numeral_eq_Suc)

lemma take_Suc_va_path: "k < 4 \<Longrightarrow> take (Suc k) (va_path va) = take k (va_path va) @ [level_index k va]"
  by (simp add: take_Suc_conv_app_nth nth_va_path)

lemma va_path_split: "va_path va = take 3 (va_path va) @ [level_index 3 va]"
  using take_Suc_va_path [of 3 va] by simp

lemma table_path_take [simp]: "k \<le> 3 \<Longrightarrow> table_path (take k (va_path va))"
  unfolding table_path_def using order_trans [OF set_take_subset set_va_path] by simp

lemma walk_va_path_stop:
  assumes "k < 4" "walk m root (take k (va_path va)) = Some t" "\<not> present (m t (level_index k va))"
  shows "walk m root (va_path va) = None"
proof -
  have "va_path va = take k (va_path va) @ level_index k va # drop (Suc k) (va_path va)"
    using assms(1) by (metis id_take_nth_drop length_va_path nth_va_path)
  then show ?thesis using assms(2,3) by (metis (no_types, lifting) option.simps(5) walk.simps(2) walk_append)
qed

text \<open>What one run of the loop does, as a relation between the states before and after it.\<close>

definition map_post ::
  "usize \<Rightarrow> usize \<Rightarrow> page_table_entry \<Rightarrow> usize \<Rightarrow> page_allocator \<Rightarrow> memory \<Rightarrow>
   map_page_error + unit \<Rightarrow> page_allocator \<Rightarrow> memory \<Rightarrow> bool" where
  "map_post phys va flags root pa m r pa' m' \<longleftrightarrow>
     pa_inv pa' \<and> page_table pa' = page_table pa \<and> pa_slots pa' = pa_slots pa
     \<and> (case r of
          Inl PageAlreadyExists \<Rightarrow> pa' = pa \<and> m' = m \<and> walk m root (va_path va) \<noteq> None
        | Inl OutOfPages \<Rightarrow>
            walk m root (va_path va) = None \<and> pa_used pa' = pa_slots pa'
            \<and> pt_extends root m (pa_frames pa) m' (pa_frames pa')
        | Inr _ \<Rightarrow>
            walk m root (va_path va) = None
            \<and> (\<exists>m1 t. pt_extends root m (pa_frames pa) m1 (pa_frames pa')
                 \<and> walk m1 root (take 3 (va_path va)) = Some t
                 \<and> m' = write_entry m1 t (level_index 3 va) (replace_addr_with flags phys)))"

lemma map_post_extends:
  assumes "pt_extends root m (pa_frames pa) m1 (pa_frames pa1)" "page_table pa1 = page_table pa"
    "pa_slots pa1 = pa_slots pa" "walk m root (va_path va) = None"
    "map_post phys va flags root pa1 m1 r pa' m'"
  shows "map_post phys va flags root pa m r pa' m'"
proof -
  have "walk m1 root (va_path va) = None"
    using assms(1,4) by (simp add: pt_extends_def)
  then show ?thesis
    using assms(2-5) pt_extends_trans [OF assms(1)]
    by (auto simp: map_post_def split: sum.splits map_page_error.splits)
qed

lemma map_translation_loop_post:
  assumes "pa_inv pa" "pt_wf m root (pa_frames pa)" "k \<le> 3"
    "walk m root (take k (va_path va)) = Some current"
  shows "\<exists>r pa' m'. map_translation_loop phys va flags (drop k levels) current pa m = Some (r, pa', m')
    \<and> map_post phys va flags root pa m r pa' m'"
  using assms
proof (induction "3 - k" arbitrary: k current pa m)
  case 0
  then have k: "k = 3" by simp
  note loop = drop_levels [of 3, simplified] k
  have nz: "current \<noteq> 0" using pt_wf_nonzero [OF "0.prems"(2) _ "0.prems"(4)] k by simp
  have w: "walk m root (va_path va) =
      (if present (m current (level_index 3 va)) then Some (address (m current (level_index 3 va))) else None)"
    using "0.prems"(4) k by (subst va_path_split) (simp add: walk_snoc)
  from "0.prems" nz w k show ?case
    by (auto simp: loop map_post_def Let_def intro!: pt_extends_refl)
next
  case (Suc n)
  then have k: "k < 3" and n: "n = 3 - Suc k" by simp_all
  have nz: "current \<noteq> 0" using pt_wf_nonzero [OF Suc.prems(2) _ Suc.prems(4)] k by simp
  let ?i = "level_index k va"
  let ?e = "m current ?i"
  have next_path: "take (Suc k) (va_path va) = take k (va_path va) @ [?i]"
    using k by (simp add: take_Suc_va_path)
  note loop = drop_levels [of k] Let_def
  show ?case
  proof (cases "present ?e")
    case True
    then have "walk m root (take (Suc k) (va_path va)) = Some (address ?e)"
      using Suc.prems(4) by (simp add: next_path walk_snoc)
    from Suc.hyps(1) [OF _ Suc.prems(1,2) _ this] Suc.hyps(2) k True nz show ?thesis
      by (simp add: loop)
  next
    case False
    have none: "walk m root (va_path va) = None"
      using False k Suc.prems(4) by (intro walk_va_path_stop [of k]) auto
    show ?thesis
    proof (cases rule: pai_find_and_reserve_page_cases [OF Suc.prems(1), of m])
      case 1
      with False k nz none Suc.prems show ?thesis
        by (simp add: loop map_post_def pt_extends_refl)
    next
      case (2 f pa1)
      let ?a = "frame_of f"
      let ?e1 = "replace_addr_with READ_WRITE (?a AND 0x000FFFFFFFFFF000)"
      let ?m1 = "write_entry (m(?a := (\<lambda>_. 0))) current ?i ?e1"
      from 2(2) pa_slots_bound [OF Suc.prems(1), of f] have f: "f < 2 ^ 39" "f \<noteq> 0" by auto
      then have e1: "present ?e1" "address ?e1 = ?a"
        using frame_address_frame_of [of f]
        by (simp_all add: entry_flags_replace_addr_with frame_address_def)
      have frames: "pa_frames pa1 = insert ?a (pa_frames pa)"
        using 2(5) by (simp add: pa_frames_def)
      note link = pt_extends_link [OF Suc.prems(2) pa_frames_fresh [OF Suc.prems(1) 2(2)]
          frame_of_nonzero [OF f] table_path_take Suc.prems(4) _ level_index_less False e1]
      have ext: "pt_extends root m (pa_frames pa) ?m1 (pa_frames pa1)"
        and "walk ?m1 root (take (Suc k) (va_path va)) = Some ?a"
        using link k by (simp_all add: frames next_path)
      moreover have "pt_wf ?m1 root (pa_frames pa1)" using ext by (simp add: pt_extends_def)
      ultimately obtain r pa' m' where
        "map_translation_loop phys va flags (drop (Suc k) levels) ?a pa1 ?m1 = Some (r, pa', m')"
        and post: "map_post phys va flags root pa1 ?m1 r pa' m'"
        using Suc.hyps(1) [OF n 2(4), of ?m1 ?a] k by auto
      with False k nz 2(1) e1 have "map_translation_loop phys va flags (drop k levels) current pa m
          = Some (r, pa', m')" by (simp add: loop)
      with map_post_extends [OF ext 2(7,6) none post] show ?thesis by blast
    qed
  qed
qed

subsection \<open>Releasing a frame and clearing an entry\<close>

lemma pt_wf_release: "pt_wf m root F \<Longrightarrow> \<not> is_table m root a \<Longrightarrow> pt_wf m root (F - {a})"
  unfolding pt_wf_def is_table_def by blast

lemma is_table_write_leaf:
  assumes "pt_wf m root F" "table_path p" "walk m root p = Some t" "length p = 3"
  shows "is_table (write_entry m t i e) root b \<longleftrightarrow> is_table m root b"
proof -
  have "walk (write_entry m t i e) root q = walk m root q" if "table_path q" for q
    using that assms(4) by (intro walk_write_entry_other [OF assms(1-3)])
      (auto simp: table_path_page_path table_path_def dest: arg_cong [of _ _ length])
  then show ?thesis unfolding is_table_def by metis
qed

text \<open>The translations after writing the last-level entry of a virtual address.\<close>

lemma translate_write_leaf:
  assumes wf: "pt_wf m root F" and t: "walk m root (take 3 (va_path va)) = Some t"
  shows "translate (write_entry m t (level_index 3 va) e) root va' =
    (if va_path va' = va_path va then if present e then Some (address e) else None
     else translate m root va')"
proof (cases "va_path va' = va_path va")
  case True
  have "walk (write_entry m t (level_index 3 va) e) root (take 3 (va_path va) @ [level_index 3 va]) =
      (if present e then walk (write_entry m t (level_index 3 va) e) (address e) [] else None)"
    by (rule walk_write_entry_through [OF wf _ t]) simp
  then show ?thesis by (simp add: translate_def True va_path_split [symmetric])
next
  case False
  have "take (Suc (length (take 3 (va_path va)))) (va_path va') \<noteq> take 3 (va_path va) @ [level_index 3 va]"
    using False by (simp add: va_path_split [symmetric])
  with walk_write_entry_other [OF wf _ t page_path_va this] False show ?thesis
    by (simp add: translate_def)
qed

lemma pt_extends_translate: "pt_extends root m F m' F' \<Longrightarrow> translate m' root va = translate m root va"
  by (simp add: pt_extends_def translate_def)

lemma pt_extends_wf: "pt_extends root m F m' F' \<Longrightarrow> pt_wf m' root F'"
  by (simp add: pt_extends_def)

lemma map_post_cases:
  assumes "map_post phys va flags root pa m r pa' m'" "pt_wf m root (pa_frames pa)"
  shows "pt_wf m' root (pa_frames pa')" "pa_frames pa \<subseteq> pa_frames pa'"
    "va_path va' \<noteq> va_path va \<or> r \<noteq> Inr () \<Longrightarrow> translate m' root va' = translate m root va'"
    "b \<in> pa_frames pa \<Longrightarrow> \<not> is_table m root b \<Longrightarrow> m' b = m b \<and> \<not> is_table m' root b"
    "r = Inr () \<Longrightarrow> translate m root va = None
      \<and> translate m' root va = (if present flags then Some (address phys) else None)"
proof -
  consider (exists) "r = Inl PageAlreadyExists" "pa' = pa" "m' = m"
    | (oom) "r = Inl OutOfPages" "pt_extends root m (pa_frames pa) m' (pa_frames pa')"
    | (ok) m1 t where "r = Inr ()" "pt_extends root m (pa_frames pa) m1 (pa_frames pa')"
      "translate m root va = None" "walk m1 root (take 3 (va_path va)) = Some t"
      "m' = write_entry m1 t (level_index 3 va) (replace_addr_with flags phys)"
    using assms(1) by (auto simp: map_post_def translate_def split: sum.splits map_page_error.splits)
  note c = this
  show "pt_wf m' root (pa_frames pa')"
    by (cases rule: c) (use assms(2) in \<open>auto intro: pt_extends_wf
        pt_wf_write_leaf [OF pt_extends_wf, where p = "take 3 (va_path va)"]\<close>)
  show "pa_frames pa \<subseteq> pa_frames pa'"
    by (cases rule: c) (auto simp: pt_extends_def)
  show "translate m' root va' = translate m root va'" if "va_path va' \<noteq> va_path va \<or> r \<noteq> Inr ()"
    by (cases rule: c) (use that in \<open>auto simp: pt_extends_translate translate_write_leaf [OF pt_extends_wf]\<close>)
  show "m' b = m b \<and> \<not> is_table m' root b" if b: "b \<in> pa_frames pa" "\<not> is_table m root b"
  proof (cases rule: c)
    case ok
    note wf1 = pt_extends_wf [OF ok(2)]
    from ok(2) b have "m1 b = m b" "\<not> is_table m1 root b" by (auto simp: pt_extends_def)
    moreover from this ok(4) have "b \<noteq> t"
      by (auto simp: is_table_def dest!: spec [where x = "take 3 (va_path va)"])
    moreover have "is_table m' root b \<longleftrightarrow> is_table m1 root b"
      unfolding ok(5) by (rule is_table_write_leaf [OF wf1 _ ok(4)]) simp_all
    ultimately show ?thesis by (simp add: ok(5) write_entry_def)
  qed (use b in \<open>auto simp: pt_extends_def\<close>)
  show "translate m root va = None
      \<and> translate m' root va = (if present flags then Some (address phys) else None)" if "r = Inr ()"
    by (cases rule: c) (use that in \<open>auto simp: translate_write_leaf [OF pt_extends_wf]
        entry_flags_replace_addr_with\<close>)
qed

end
