(* ===== verification/Kernel_Paging.thy ===== *)
theory Kernel_Paging
  imports Page_Walk
begin

text \<open>
  Correctness of the page table methods of the kernel's page allocator (\<^verbatim>\<open>page_allocation.rs\<close>),
  stated on the machine state: what each call does to the allocator, to the translations of the
  kernel's page table and to the content of the frames that are in use.
\<close>

subsection \<open>The kernel's page table\<close>

definition kernel_root :: "page_allocator \<Rightarrow> usize" where
  "kernel_root pa = address (page_table pa)"

definition kernel_wf :: "machine \<Rightarrow> bool" where
  "kernel_wf s = (case PAGE_ALLOCATOR s of None \<Rightarrow> False
     | Some pa \<Rightarrow> pa_inv pa \<and> pt_wf (mem s) (kernel_root pa) (pa_frames pa))"

definition kernel_translate :: "machine \<Rightarrow> usize \<Rightarrow> usize option" where
  "kernel_translate s va =
     do { pa \<leftarrow> PAGE_ALLOCATOR s; translate (mem s) (kernel_root pa) va }"

definition kernel_table :: "machine \<Rightarrow> usize \<Rightarrow> bool" where
  "kernel_table s a = (case PAGE_ALLOCATOR s of None \<Rightarrow> False
     | Some pa \<Rightarrow> is_table (mem s) (kernel_root pa) a)"

lemma kernel_wfE:
  assumes "kernel_wf s"
  obtains pa where "PAGE_ALLOCATOR s = Some pa" "pa_inv pa" "pt_wf (mem s) (kernel_root pa) (pa_frames pa)"
  using assms by (auto simp: kernel_wf_def split: option.splits)

subsection \<open>A small machine\<close>

lemma pt_wf_empty_table: "root \<in> F \<Longrightarrow> root \<noteq> 0 \<Longrightarrow> m root = (\<lambda>_. 0) \<Longrightarrow> pt_wf m root F"
  by (auto simp: pt_wf_def walk_zero_frame split: if_splits)

lemma small_machine_wf: "kernel_wf small_machine"
proof -
  have root: "kernel_root small_allocator = frame_of 1"
    unfolding kernel_root_def by (simp add: small_allocator_def frame_of_def address_low_frame)
  have "pt_wf (\<lambda>_ _. 0) (kernel_root small_allocator) (pa_frames small_allocator)"
    unfolding root using small_allocator_inv
    by (intro pt_wf_empty_table) (simp_all add: pa_frames_def frame_of_nonzero)
  then show ?thesis using small_allocator_inv by (simp add: kernel_wf_def small_machine_def)
qed

subsection \<open>Mapping\<close>

lemma pai_map_page_translation_post:
  assumes "pa_inv pa" "pt_wf m (kernel_root pa) (pa_frames pa)"
  obtains r pa' m' where "pai_map_page_translation pa m phys va flags = Some (r, pa', m')"
    "map_post (phys AND 0x000FFFFFFFFFF000) va flags (kernel_root pa) pa m r pa' m'"
  using map_translation_loop_post [OF assms, where k = 0 and va = va and
      current = "kernel_root pa" and phys = "phys AND 0x000FFFFFFFFFF000" and flags = flags]
  by (auto simp: pai_map_page_translation_def kernel_root_def)

text \<open>
  C8. \<^verbatim>\<open>map_page_translation\<close> never panics on a well-formed kernel page table and keeps it well
  formed. It changes no translation but that of the page of \<open>va\<close>: on success that page was unmapped
  and now leads to the frame of \<open>phys\<close> (if the flags say present); \<open>PageAlreadyExists\<close> is returned
  for a page that is mapped and changes nothing at all; \<open>OutOfPages\<close> leaves every translation as it
  was and means that no page is free any more.
\<close>

theorem map_page_translation_correct:
  assumes "kernel_wf s"
  shows "\<exists>r s'. map_page_translation s phys va flags = Some (r, s') \<and> kernel_wf s'
    \<and> machine_frames s \<subseteq> machine_frames s'
    \<and> (\<forall>va'. va' AND 0xFFFFFFFFF000 \<noteq> va AND 0xFFFFFFFFF000 \<longrightarrow>
          kernel_translate s' va' = kernel_translate s va')
    \<and> (case r of
         Inr _ \<Rightarrow> kernel_translate s va = None
           \<and> kernel_translate s' va = (if present flags then Some (address phys) else None)
       | Inl PageAlreadyExists \<Rightarrow> kernel_translate s va \<noteq> None \<and> s' = s
       | Inl OutOfPages \<Rightarrow> kernel_translate s va = None \<and> kernel_translate s' va = None
           \<and> (\<exists>e. find_and_reserve_page s' = Some (Inl e, s')))"
proof -
  from assms obtain pa where pa: "PAGE_ALLOCATOR s = Some pa" and inv: "pa_inv pa"
    and wf: "pt_wf (mem s) (kernel_root pa) (pa_frames pa)" by (rule kernel_wfE)
  from pai_map_page_translation_post [OF inv wf] obtain r pa' m' where
    eq: "pai_map_page_translation pa (mem s) phys va flags = Some (r, pa', m')"
    and post: "map_post (phys AND 0x000FFFFFFFFFF000) va flags (kernel_root pa) pa (mem s) r pa' m'" .
  define s' where "s' = s\<lparr>PAGE_ALLOCATOR := Some pa', mem := m'\<rparr>"
  have root: "kernel_root pa' = kernel_root pa" and inv': "pa_inv pa'"
    using post by (simp_all add: map_post_def kernel_root_def)
  note post' = map_post_cases [OF post wf]
  note defs = kernel_translate_def kernel_wf_def machine_frames_def pa root s'_def
  have full: "find_and_reserve_page s' = Some (Inl ReservePageError, s')" if "pa_used pa' = pa_slots pa'"
    by (cases rule: pai_find_and_reserve_page_cases [OF inv', of m'])
      (use that in \<open>auto simp: find_and_reserve_page_def s'_def\<close>)
  have "map_page_translation s phys va flags = Some (r, s')"
    by (simp add: map_page_translation_def pa eq s'_def)
  moreover have "kernel_wf s'" using inv' post'(1) by (simp add: defs)
  moreover have "machine_frames s \<subseteq> machine_frames s'" using post'(2) by (simp add: defs)
  moreover have "kernel_translate s' va' = kernel_translate s va'"
    if "va' AND 0xFFFFFFFFF000 \<noteq> va AND 0xFFFFFFFFF000" for va'
    using post'(3) that by (simp add: defs va_path_eq_iff)
  moreover have "case r of
         Inr _ \<Rightarrow> kernel_translate s va = None
           \<and> kernel_translate s' va = (if present flags then Some (address phys) else None)
       | Inl PageAlreadyExists \<Rightarrow> kernel_translate s va \<noteq> None \<and> s' = s
       | Inl OutOfPages \<Rightarrow> kernel_translate s va = None \<and> kernel_translate s' va = None
           \<and> (\<exists>e. find_and_reserve_page s' = Some (Inl e, s'))"
    using post post'(3) [of va] post'(5) full pa
    by (auto simp: defs map_post_def translate_def split: sum.splits map_page_error.splits)
  ultimately show ?thesis by blast
qed

theorem map_page_translation_correct_witness:
  "kernel_wf small_machine
   \<and> (\<exists>r s'. map_page_translation small_machine 0x5000 0x400000 READ_WRITE = Some (r, s') \<and> kernel_wf s'
        \<and> machine_frames small_machine \<subseteq> machine_frames s')"
  using small_machine_wf
    map_page_translation_correct [OF small_machine_wf, of "0x5000" "0x400000" READ_WRITE] by blast

text \<open>The state after a mapping, in terms of the machine before and after it.\<close>

lemma pai_map_page_post:
  assumes inv: "pa_inv pa" and wf: "pt_wf m (kernel_root pa) (pa_frames pa)"
  obtains
    (empty) "pai_map_page pa m va flags = Some (Inl OutOfPages, pa, m)" "pa_used pa = pa_slots pa"
  | (failed) err pa' m' where "pai_map_page pa m va flags = Some (Inl err, pa', m')"
      "pa_inv pa'" "page_table pa' = page_table pa" "pt_wf m' (kernel_root pa) (pa_frames pa')"
      "pa_frames pa \<subseteq> pa_frames pa'"
      "\<And>va'. translate m' (kernel_root pa) va' = translate m (kernel_root pa) va'"
      "\<And>b. b \<in> pa_frames pa \<Longrightarrow> \<not> is_table m (kernel_root pa) b \<Longrightarrow> m' b = m b \<and> \<not> is_table m' (kernel_root pa) b"
      "err = PageAlreadyExists \<Longrightarrow> pa_frames pa' = pa_frames pa
        \<and> translate m (kernel_root pa) va \<noteq> None"
  | (mapped) pa' m' a where "pai_map_page pa m va flags = Some (Inr (), pa', m')"
      "pa_inv pa'" "page_table pa' = page_table pa" "pt_wf m' (kernel_root pa) (pa_frames pa')"
      "pa_frames pa \<subseteq> pa_frames pa'" "a \<in> pa_frames pa' - pa_frames pa" "m' a = (\<lambda>_. 0)"
      "\<not> is_table m' (kernel_root pa) a" "translate m (kernel_root pa) va = None"
      "translate m' (kernel_root pa) va = (if present flags then Some a else None)"
      "\<And>va'. va_path va' \<noteq> va_path va \<Longrightarrow>
         translate m' (kernel_root pa) va' = translate m (kernel_root pa) va'"
      "\<And>b. b \<in> pa_frames pa \<Longrightarrow> \<not> is_table m (kernel_root pa) b \<Longrightarrow> m' b = m b \<and> \<not> is_table m' (kernel_root pa) b"
proof (cases rule: pai_find_and_reserve_page_cases [OF inv, of m])
  case 1
  then show thesis by (intro empty) (simp_all add: pai_map_page_def)
next
  case (2 n pa1)
  let ?a = "frame_of n" and ?r = "kernel_root pa"
  let ?m1 = "m(?a := (\<lambda>_. 0))"
  have fresh: "?a \<notin> pa_frames pa" by (rule pa_frames_fresh [OF inv 2(2)])
  have n1: "n \<in> pa_used pa1" "?a \<in> pa_frames pa1" using 2(5) by (auto simp: pa_frames_def)
  have F1: "pa_frames pa1 = insert ?a (pa_frames pa)" using 2(5) by (simp add: pa_frames_def)
  have root: "kernel_root pa1 = ?r" using 2(7) by (simp add: kernel_root_def)
  have same: "?m1 b = m b" if "b \<in> pa_frames pa" for b using that fresh by auto
  have w1: "walk ?m1 ?r q = walk m ?r q" if "page_path q" for q
    by (rule walk_cong_held [OF wf same that])
  then have t1: "translate ?m1 ?r va' = translate m ?r va'" for va' by (simp add: translate_def)
  have it1: "is_table ?m1 ?r b \<longleftrightarrow> is_table m ?r b" for b
    using w1 table_path_page_path unfolding is_table_def by metis
  have nt: "\<not> is_table ?m1 ?r ?a" unfolding it1 using pt_wf_held [OF wf] fresh by (auto simp: is_table_def)
  have wf1: "pt_wf ?m1 (kernel_root pa1) (pa_frames pa1)"
    unfolding root by (rule pt_wf_cong_held [OF wf same]) (auto simp: F1)
  from pai_map_page_translation_post [OF 2(4) wf1] obtain r pa' m' where
    eq: "pai_map_page_translation pa1 ?m1 ?a va flags = Some (r, pa', m')" and
    post: "map_post (?a AND 0x000FFFFFFFFFF000) va flags ?r pa1 ?m1 r pa' m'" unfolding root .
  note post' = map_post_cases [OF post wf1 [unfolded root]]
  have inv': "pa_inv pa'" "page_table pa' = page_table pa" using post 2(7) by (simp_all add: map_post_def)
  have data: "m' b = m b \<and> \<not> is_table m' ?r b" if "b \<in> pa_frames pa" "\<not> is_table m ?r b" for b
    using post'(4) [of b] that same [of b] it1 [of b] by (simp add: F1)
  have a': "m' ?a = (\<lambda>_. 0)" "\<not> is_table m' ?r ?a" using post'(4) [of ?a] n1 nt by auto
  show thesis
  proof (cases r)
    case (Inr u)
    have "address ?a = ?a"
      using 2(2) pa_slots_bound [OF inv, of n] by (auto simp: frame_address_frame_of frame_address_def [symmetric])
    then have "translate m ?r va = None" "translate m' ?r va = (if present flags then Some ?a else None)"
      using post'(5) Inr by (auto simp: t1)
    moreover have "pai_map_page pa m va flags = Some (Inr (), pa', m')"
      using 2(1) eq Inr by (simp add: pai_map_page_def)
    moreover have "?a \<in> pa_frames pa' - pa_frames pa" using n1 post'(2) fresh by auto
    ultimately show thesis
      using post'(1,2,3) a' data inv' by (intro mapped [of pa' m' ?a]) (auto simp: t1 F1)
  next
    case (Inl err)
    have "?a \<in> pa_frames pa'" using n1 post'(2) by auto
    then obtain k where k: "k \<in> pa_used pa'" "?a = frame_of k" by (auto simp: pa_frames_def)
    from pai_free_page_used [OF inv'(1) k(1)] obtain pa2 where pa2: "pai_free_page pa' ?a = Some pa2"
      "pa_inv pa2" "pa_used pa2 = pa_used pa' - {k}" "page_table pa2 = page_table pa'"
      unfolding k(2) by metis
    have F2: "pa_frames pa2 = pa_frames pa' - {?a}"
      using pa_frames_remove [OF inv'(1) k(1) pa2(3)] k(2) by simp
    have "pai_map_page pa m va flags = Some (Inl err, pa2, m')"
      using 2(1) eq Inl pa2(1) by (simp add: pai_map_page_def)
    moreover have "pt_wf m' ?r (pa_frames pa2)" unfolding F2 by (rule pt_wf_release [OF post'(1) a'(2)])
    moreover have "err = PageAlreadyExists \<Longrightarrow> pa_frames pa2 = pa_frames pa \<and> translate m ?r va \<noteq> None"
      using post Inl fresh by (auto simp: map_post_def F1 F2 translate_def [symmetric] t1)
    ultimately show thesis
      using post'(2,3) Inl data inv' pa2 fresh by (intro failed [of err pa2 m']) (auto simp: t1 F1 F2)
  qed
qed

definition map_page_post :: "machine \<Rightarrow> usize \<Rightarrow> page_table_entry \<Rightarrow> map_page_error + unit \<Rightarrow> machine \<Rightarrow> bool" where
  "map_page_post s va flags r s' \<longleftrightarrow>
     kernel_wf s' \<and> machine_frames s \<subseteq> machine_frames s'
     \<and> (\<forall>va'. va' AND 0xFFFFFFFFF000 \<noteq> va AND 0xFFFFFFFFF000 \<longrightarrow>
           kernel_translate s' va' = kernel_translate s va')
     \<and> (\<forall>b \<in> machine_frames s. \<not> kernel_table s b \<longrightarrow> mem s' b = mem s b)
     \<and> (case r of
          Inr _ \<Rightarrow> kernel_translate s va = None
            \<and> (\<exists>a. kernel_translate s' va = (if present flags then Some a else None)
                 \<and> a \<notin> machine_frames s \<and> a \<in> machine_frames s' \<and> \<not> kernel_table s' a
                 \<and> mem s' a = (\<lambda>_. 0))
        | Inl PageAlreadyExists \<Rightarrow> kernel_translate s va \<noteq> None
            \<and> kernel_translate s' va = kernel_translate s va \<and> machine_frames s' = machine_frames s
        | Inl OutOfPages \<Rightarrow> kernel_translate s' va = kernel_translate s va)"

lemma map_page_post_holds:
  assumes "kernel_wf s"
  shows "\<exists>r s'. map_page s va flags = Some (r, s') \<and> map_page_post s va flags r s'
     \<and> (\<forall>b \<in> machine_frames s. \<not> kernel_table s b \<longrightarrow> \<not> kernel_table s' b)"
proof -
  from assms obtain pa where pa: "PAGE_ALLOCATOR s = Some pa" and inv: "pa_inv pa"
    and wf: "pt_wf (mem s) (kernel_root pa) (pa_frames pa)" by (rule kernel_wfE)
  note defs = kernel_translate_def kernel_wf_def machine_frames_def kernel_table_def map_page_post_def
    va_path_eq_iff [symmetric] map_page_def pa
  show ?thesis
  proof (cases rule: pai_map_page_post [OF inv wf, of va flags])
    case 1
    with assms show ?thesis by (simp add: defs wf inv)
  next
    case (2 err pa' m')
    then have "kernel_root pa' = kernel_root pa" by (simp add: kernel_root_def)
    with 2 show ?thesis by (cases err) (simp_all add: defs)
  next
    case (3 pa' m' a)
    then have "kernel_root pa' = kernel_root pa" by (simp add: kernel_root_def)
    with 3 show ?thesis by (auto simp: defs)
  qed
qed

text \<open>
  C2. \<^verbatim>\<open>map_page\<close> on a well-formed kernel page table never panics, keeps it well formed, and leaves
  every other translation and the content of every frame in use that is not a page table unchanged.
  When it succeeds the page of \<open>va\<close> was unmapped and now leads to a cleared frame that was free
  before; \<open>PageAlreadyExists\<close> means the page was mapped, and the frame taken for it is given back.
\<close>

theorem map_page_correct:
  assumes "kernel_wf s"
  shows "\<exists>r s'. map_page s va flags = Some (r, s')
     \<and> kernel_wf s' \<and> machine_frames s \<subseteq> machine_frames s'
     \<and> (\<forall>va'. va' AND 0xFFFFFFFFF000 \<noteq> va AND 0xFFFFFFFFF000 \<longrightarrow>
           kernel_translate s' va' = kernel_translate s va')
     \<and> (\<forall>b \<in> machine_frames s. \<not> kernel_table s b \<longrightarrow> mem s' b = mem s b)
     \<and> (case r of
          Inr _ \<Rightarrow> kernel_translate s va = None
            \<and> (\<exists>a. kernel_translate s' va = (if present flags then Some a else None)
                 \<and> a \<notin> machine_frames s \<and> a \<in> machine_frames s' \<and> \<not> kernel_table s' a
                 \<and> mem s' a = (\<lambda>_. 0))
        | Inl PageAlreadyExists \<Rightarrow> kernel_translate s va \<noteq> None
            \<and> kernel_translate s' va = kernel_translate s va \<and> machine_frames s' = machine_frames s
        | Inl OutOfPages \<Rightarrow> kernel_translate s' va = kernel_translate s va)"
  using map_page_post_holds [OF assms, of va flags] unfolding map_page_post_def by blast

theorem map_page_correct_witness:
  "kernel_wf small_machine
   \<and> (\<exists>r s'. map_page small_machine 0x400000 READ_WRITE = Some (r, s') \<and> kernel_wf s')"
  using small_machine_wf map_page_correct [OF small_machine_wf, of "0x400000" READ_WRITE] by blast

subsection \<open>Unmapping\<close>

lemma level_index_strip:
  "i < 4 \<Longrightarrow> level_index i (va AND 0x000FFFFFFFFFF000) = level_index i va"
proof -
  assume "i < 4"
  then have "take_bit 9 (drop_bit ((3 - i) * 9 + 12) (va AND 0x000FFFFFFFFFF000))
      = take_bit 9 (drop_bit ((3 - i) * 9 + 12) va)"
    by (intro bit_word_eqI) (auto simp: bit_simps bit_addr_mask_word)
  with \<open>i < 4\<close> show ?thesis by (simp add: level_index_take_bit)
qed

lemma va_path_strip: "va_path (va AND 0x000FFFFFFFFFF000) = va_path va"
  by (simp add: va_path_def levels_def level_index_strip)

lemma unmap_and_free_loop_spec:
  assumes wf: "pt_wf m root F" and k: "k \<le> 3" and w: "walk m root (take k (va_path va)) = Some current"
  shows "unmap_and_free_loop va (drop k levels) current pa m =
    (case translate m root va of None \<Rightarrow> Some (pa, m)
     | Some a \<Rightarrow> do { pa' \<leftarrow> pai_free_page pa a;
          Some (pa', write_entry m (the (walk m root (take 3 (va_path va)))) (level_index 3 va) 0) })"
  using k w
proof (induction "3 - k" arbitrary: k current)
  case 0
  then have k: "k = 3" by simp
  have nz: "current \<noteq> 0" using pt_wf_nonzero [OF wf _ "0.prems"(2)] k by simp
  have "translate m root va =
      (if present (m current (level_index 3 va)) then Some (address (m current (level_index 3 va))) else None)"
    using "0.prems"(2) k unfolding translate_def by (subst va_path_split) (simp add: walk_snoc)
  with nz "0.prems"(2) show ?case
    by (simp add: k drop_levels [of 3, simplified] Let_def ENTRY_ZERO_def)
next
  case (Suc n)
  then have k: "k < 3" and n: "n = 3 - Suc k" by simp_all
  have nz: "current \<noteq> 0" using pt_wf_nonzero [OF wf _ Suc.prems(2)] k by simp
  show ?case
  proof (cases "present (m current (level_index k va))")
    case True
    then have "walk m root (take (Suc k) (va_path va)) = Some (address (m current (level_index k va)))"
      using Suc.prems(2) k by (simp add: take_Suc_va_path walk_snoc)
    from Suc.hyps(1) [OF n _ this] k True nz show ?thesis by (simp add: drop_levels [of k] Let_def)
  next
    case False
    then have "translate m root va = None"
      unfolding translate_def using k Suc.prems(2) by (intro walk_va_path_stop [of k]) auto
    with False k nz show ?thesis by (simp add: drop_levels [of k] Let_def)
  qed
qed

lemma unmap_and_free_page_unmapped:
  assumes "kernel_wf s" "kernel_translate s va = None"
  shows "unmap_and_free_page s va = Some s"
proof -
  from assms(1) obtain pa where pa: "PAGE_ALLOCATOR s = Some pa" and inv: "pa_inv pa"
    and wf: "pt_wf (mem s) (kernel_root pa) (pa_frames pa)" by (rule kernel_wfE)
  have "unmap_and_free_loop (va AND 0x000FFFFFFFFFF000) levels (kernel_root pa) pa (mem s) = Some (pa, mem s)"
    using unmap_and_free_loop_spec [OF wf, of 0 "va AND 0x000FFFFFFFFFF000" "kernel_root pa" pa] assms(2)
    by (simp add: translate_def va_path_strip kernel_translate_def pa)
  then show ?thesis
    by (simp add: unmap_and_free_page_def pai_unmap_and_free_page_def pa kernel_root_def [symmetric])
qed

lemma unmap_and_free_page_mapped:
  assumes "kernel_wf s" "kernel_translate s va = Some a" "a \<in> machine_frames s" "\<not> kernel_table s a"
  obtains s' where "unmap_and_free_page s va = Some s'" "kernel_wf s'"
    "machine_frames s' = machine_frames s - {a}"
    "\<And>va'. kernel_translate s' va' = (if va_path va' = va_path va then None else kernel_translate s va')"
    "\<And>b. \<not> kernel_table s b \<Longrightarrow> mem s' b = mem s b"
    "\<forall>b i. mem s' b i = mem s b i \<or> (i = level_index 3 va \<and> mem s' b i = 0)"
proof -
  from assms(1) obtain pa where pa: "PAGE_ALLOCATOR s = Some pa" and inv: "pa_inv pa"
    and wf: "pt_wf (mem s) (kernel_root pa) (pa_frames pa)" by (rule kernel_wfE)
  let ?m = "mem s" and ?r = "kernel_root pa"
  have tr: "translate ?m ?r va = Some a" and nt: "\<not> is_table ?m ?r a" and a: "a \<in> pa_frames pa"
    using assms(2-4) by (simp_all add: kernel_translate_def kernel_table_def machine_frames_def pa)
  from tr obtain t where t: "walk ?m ?r (take 3 (va_path va)) = Some t"
    unfolding translate_def by (subst (asm) va_path_split) (auto simp: walk_snoc split: option.splits)
  from a obtain k where k: "k \<in> pa_used pa" "a = frame_of k" by (auto simp: pa_frames_def)
  from pai_free_page_used [OF inv k(1)] obtain pa' where pa': "pai_free_page pa a = Some pa'"
    "pa_inv pa'" "pa_used pa' = pa_used pa - {k}" "page_table pa' = page_table pa"
    unfolding k(2) by metis
  have F': "pa_frames pa' = pa_frames pa - {a}"
    using pa_frames_remove [OF inv k(1) pa'(3)] k(2) by simp
  define m' where "m' = write_entry ?m t (level_index 3 va) 0"
  have "unmap_and_free_loop (va AND 0x000FFFFFFFFFF000) levels ?r pa ?m = Some (pa', m')"
    using unmap_and_free_loop_spec [OF wf, of 0 "va AND 0x000FFFFFFFFFF000" ?r pa] tr t pa'(1)
    by (simp add: translate_def va_path_strip level_index_strip m'_def)
  then have "unmap_and_free_page s va = Some (s\<lparr>PAGE_ALLOCATOR := Some pa', mem := m'\<rparr>)" (is "_ = Some ?s'")
    by (simp add: unmap_and_free_page_def pai_unmap_and_free_page_def pa kernel_root_def [symmetric])
  moreover have root: "kernel_root pa' = ?r" using pa'(4) by (simp add: kernel_root_def)
  have "pt_wf m' ?r (pa_frames pa)" "is_table m' ?r a \<longleftrightarrow> is_table ?m ?r a"
    unfolding m'_def by (rule pt_wf_write_leaf [OF wf _ t] is_table_write_leaf [OF wf _ t]; simp)+
  then have "pt_wf m' ?r (pa_frames pa')" unfolding F' using nt by (intro pt_wf_release) auto
  then have "kernel_wf ?s'" by (simp add: kernel_wf_def root pa'(2))
  moreover have "machine_frames ?s' = machine_frames s - {a}" by (simp add: machine_frames_def F' pa)
  moreover have "kernel_translate ?s' va' = (if va_path va' = va_path va then None else kernel_translate s va')" for va'
    using translate_write_leaf [OF wf t, of 0 va'] by (simp add: kernel_translate_def pa root m'_def)
  moreover have "mem ?s' b = mem s b" if "\<not> kernel_table s b" for b
  proof -
    have "is_table ?m ?r t" unfolding is_table_def using t table_path_take by blast
    with that show ?thesis by (auto simp: kernel_table_def pa m'_def write_entry_def)
  qed
  moreover have "\<forall>b i. mem ?s' b i = mem s b i \<or> (i = level_index 3 va \<and> mem ?s' b i = 0)" by (simp add: m'_def write_entry_def)
  ultimately show thesis by (rule that)
qed

text \<open>
  C5. Mapping a page with flags that include present and unmapping it again gives back the frame
  that was taken: the second call does not panic, the kernel page table is well formed, every
  translation is what it was before the two calls, and the only frames that are in use now and were
  not before are page tables.
\<close>

theorem map_page_unmap_round_trip:
  assumes "kernel_wf s" "map_page s va flags = Some (Inr (), s1)" "present flags"
  shows "\<exists>s2. unmap_and_free_page s1 va = Some s2 \<and> kernel_wf s2
    \<and> (\<forall>va'. kernel_translate s2 va' = kernel_translate s va')
    \<and> machine_frames s \<subseteq> machine_frames s2
    \<and> (\<exists>a. kernel_translate s1 va = Some a \<and> machine_frames s2 = machine_frames s1 - {a})
    \<and> (\<forall>b \<in> machine_frames s. \<not> kernel_table s b \<longrightarrow> \<not> kernel_table s1 b \<longrightarrow> mem s2 b = mem s b)"
proof -
  have post: "map_page_post s va flags (Inr ()) s1"
    using map_page_post_holds [OF assms(1), of va flags] assms(2) by simp
  then obtain a where s1: "kernel_wf s1" "machine_frames s \<subseteq> machine_frames s1"
    "kernel_translate s va = None" "kernel_translate s1 va = Some a"
    "a \<notin> machine_frames s" "a \<in> machine_frames s1" "\<not> kernel_table s1 a"
    and other: "\<And>va'. va_path va' \<noteq> va_path va \<Longrightarrow> kernel_translate s1 va' = kernel_translate s va'"
    and data: "\<And>b. b \<in> machine_frames s \<Longrightarrow> \<not> kernel_table s b \<Longrightarrow> mem s1 b = mem s b"
    using assms(3) by (auto simp: map_page_post_def va_path_eq_iff)
  obtain s2 where
    s2: "unmap_and_free_page s1 va = Some s2" "kernel_wf s2" "machine_frames s2 = machine_frames s1 - {a}"
    and tr: "\<And>va'. kernel_translate s2 va' = (if va_path va' = va_path va then None else kernel_translate s1 va')"
    and data2: "\<And>b. \<not> kernel_table s1 b \<Longrightarrow> mem s2 b = mem s1 b"
    and "\<forall>b i. mem s2 b i = mem s1 b i \<or> (i = level_index 3 va \<and> mem s2 b i = 0)"
    by (rule unmap_and_free_page_mapped [OF s1(1,4,6,7)]) (rule that)
  have "kernel_translate s va' = None" if "va_path va' = va_path va" for va'
    using s1(3) that by (simp add: kernel_translate_def translate_def)
  then have "kernel_translate s2 va' = kernel_translate s va'" for va' using tr other by simp
  with s1 s2 data data2 show ?thesis by auto
qed

lemma small_machine_levels:
  "level_index 0 0x400000 = 0" "level_index (Suc 0) 0x400000 = 0" "level_index 2 0x400000 = 2"
  "level_index 3 0x400000 = 0"
  by (simp_all add: level_index_def LEVEL_MASKS_def)

lemma small_frame_addresses:
  "address 0x1000 = 0x1000" "address 0x2000 = 0x2000" "address 0x3000 = 0x3000"
  "address 0x4000 = 0x4000" "address 0x5000 = 0x5000"
  by (simp_all add: address_low_frame)

lemma small_machine_maps:
  "\<exists>s1. map_page small_machine 0x400000 READ_WRITE = Some (Inr (), s1)"
  by (simp add: map_page_def small_machine_def small_allocator_def pai_map_page_def small_machine_reserve
      pai_map_page_translation_def levels_def small_machine_levels read_table_def write_entry_def
      Let_def small_frame_addresses entry_flags_replace_addr_with)

theorem map_page_unmap_round_trip_witness:
  "\<exists>s1 s2. map_page small_machine 0x400000 READ_WRITE = Some (Inr (), s1)
     \<and> unmap_and_free_page s1 0x400000 = Some s2 \<and> kernel_wf s2
     \<and> kernel_translate s2 0x400000 = kernel_translate small_machine 0x400000"
proof -
  obtain s1 where s1: "map_page small_machine 0x400000 READ_WRITE = Some (Inr (), s1)"
    using small_machine_maps by blast
  from map_page_unmap_round_trip [OF small_machine_wf s1] s1 show ?thesis by auto
qed

text \<open>
  C10. \<^verbatim>\<open>unmap_and_free_page\<close> of a page that is not mapped changes nothing: the state it returns is the state it
  was given. Of a page that is mapped to a frame in use that is not itself a page table, it removes exactly that
  translation, makes exactly that frame free, and keeps the page table well formed and the content of all frames that are
  not page tables; in the tables nothing changes but an entry for the page, which becomes zero.
\<close>

theorem unmap_and_free_page_correct:
  assumes "kernel_wf s"
    and "\<And>a. kernel_translate s va = Some a \<Longrightarrow> a \<in> machine_frames s \<and> \<not> kernel_table s a"
  shows "\<exists>s'. unmap_and_free_page s va = Some s' \<and> kernel_wf s'
    \<and> (\<forall>va'. kernel_translate s' va' =
          (if va' AND 0xFFFFFFFFF000 = va AND 0xFFFFFFFFF000 then None else kernel_translate s va'))
    \<and> machine_frames s' = machine_frames s - set_option (kernel_translate s va)
    \<and> (\<forall>b. \<not> kernel_table s b \<longrightarrow> mem s' b = mem s b)
    \<and> (\<forall>b i. mem s' b i = mem s b i \<or> (i = level_index 3 va \<and> mem s' b i = 0))
    \<and> (kernel_translate s va = None \<longrightarrow> s' = s)"
proof (cases "kernel_translate s va")
  case None
  have "kernel_translate s va' = None" if "va_path va' = va_path va" for va'
    using None that by (simp add: kernel_translate_def translate_def)
  with None unmap_and_free_page_unmapped [OF assms(1) None] assms(1) show ?thesis
    by (auto simp: va_path_eq_iff)
next
  case (Some a)
  from assms(2) [OF Some] have "a \<in> machine_frames s" "\<not> kernel_table s a" by auto
  then obtain s' where
    "unmap_and_free_page s va = Some s'" "kernel_wf s'" "machine_frames s' = machine_frames s - {a}"
    "\<And>va'. kernel_translate s' va' = (if va_path va' = va_path va then None else kernel_translate s va')"
    "\<And>b. \<not> kernel_table s b \<Longrightarrow> mem s' b = mem s b" "\<forall>b i. mem s' b i = mem s b i \<or> (i = level_index 3 va \<and> mem s' b i = 0)"
    by (rule unmap_and_free_page_mapped [OF assms(1) Some]) (rule that)
  with Some show ?thesis by (simp add: va_path_eq_iff)
qed

theorem unmap_and_free_page_correct_witness:
  "\<exists>s1 s2 a. map_page small_machine 0x400000 READ_WRITE = Some (Inr (), s1)
     \<and> kernel_translate s1 0x400000 = Some a
     \<and> unmap_and_free_page s1 0x400000 = Some s2 \<and> kernel_translate s2 0x400000 = None
     \<and> machine_frames s2 = machine_frames s1 - {a}"
proof -
  obtain s1 where s1: "map_page small_machine 0x400000 READ_WRITE = Some (Inr (), s1)"
    using small_machine_maps by blast
  with map_page_post_holds [OF small_machine_wf, of "0x400000" READ_WRITE]
  obtain a where a: "kernel_wf s1" "kernel_translate s1 0x400000 = Some a" "a \<in> machine_frames s1"
    "\<not> kernel_table s1 a" by (auto simp: map_page_post_def)
  with unmap_and_free_page_correct [OF a(1), of "0x400000"] s1 show ?thesis by auto
qed

subsection \<open>Checking flags over a range\<close>

definition has_flags :: "memory \<Rightarrow> usize \<Rightarrow> u64 \<Rightarrow> usize \<Rightarrow> bool" where
  "has_flags m root f va \<longleftrightarrow>
     (\<forall>j < 4. case walk m root (take j (va_path va)) of None \<Rightarrow> False
        | Some t \<Rightarrow> present (m t (level_index j va)) \<and> m t (level_index j va) AND f = f)"

lemma check_flags_walk_spec:
  assumes wf: "pt_wf m root F"
  shows "k \<le> 4 \<Longrightarrow> walk m root (take k (va_path va)) = Some current \<Longrightarrow>
    check_flags_walk m f va (drop k levels) current =
    Some (\<forall>j. k \<le> j \<and> j < 4 \<longrightarrow> (case walk m root (take j (va_path va)) of None \<Rightarrow> False
        | Some t \<Rightarrow> present (m t (level_index j va)) \<and> m t (level_index j va) AND f = f))"
proof (induction "4 - k" arbitrary: k current)
  case 0
  then have "drop k levels = []" by (simp add: levels_def)
  with 0 show ?case by auto
next
  case (Suc n)
  then have k: "k < 4" and n: "n = 4 - Suc k" by simp_all
  let ?e = "m current (level_index k va)"
  have nz: "current \<noteq> 0" using pt_wf_nonzero [OF wf _ Suc.prems(2)] k by simp
  show ?case
  proof (cases "present ?e \<and> ?e AND f = f")
    case True
    then have "walk m root (take (Suc k) (va_path va)) = Some (address ?e)"
      using Suc.prems(2) k by (simp add: take_Suc_va_path walk_snoc)
    note ih = Suc.hyps(1) [OF n _ this]
    have "(\<forall>j. k \<le> j \<and> j < 4 \<longrightarrow> P j) \<longleftrightarrow> (\<forall>j. Suc k \<le> j \<and> j < 4 \<longrightarrow> P j)" if "P k" for P
      using that by (metis le_SucI le_antisym not_less_eq_eq)
    from this [of "\<lambda>j. case walk m root (take j (va_path va)) of None \<Rightarrow> False
        | Some t \<Rightarrow> present (m t (level_index j va)) \<and> m t (level_index j va) AND f = f"]
    show ?thesis using ih k True nz Suc.prems(2) by (simp add: drop_levels [of k])
  next
    case False
    with k nz Suc.prems(2) show ?thesis by (auto simp: drop_levels [of k] intro!: exI [of _ k])
  qed
qed

lemma check_flags_walk_has_flags:
  "pt_wf m root F \<Longrightarrow> check_flags_walk m f va levels root = Some (has_flags m root f va)"
  using check_flags_walk_spec [of m root F 0 va root f] by (simp add: has_flags_def)

lemma va_path_page: "unat a div 4096 = unat b div 4096 \<Longrightarrow> va_path a = va_path b"
proof -
  assume "unat a div 4096 = unat b div 4096"
  then have d: "drop_bit 12 a = drop_bit 12 b"
    by (intro word_eq_unatI) (simp add: drop_bit_eq_div unat_div)
  have "drop_bit ((3 - i) * 9 + 12) a = drop_bit ((3 - i) * 9 + 12) b" for i
    using arg_cong [OF d, of "drop_bit ((3 - i) * 9)"] by (simp add: ac_simps)
  then have "level_index i a = level_index i b" if "i < 4" for i
    unfolding level_index_take_bit [OF that] by (simp only:)
  then show ?thesis by (simp add: va_path_def levels_def)
qed

lemma has_flags_page: "unat a div 4096 = unat b div 4096 \<Longrightarrow> has_flags m root f a = has_flags m root f b"
proof -
  assume "unat a div 4096 = unat b div 4096"
  then have eq: "va_path a = va_path b" by (rule va_path_page)
  have "level_index j a = level_index j b" if "j < 4" for j
    using that eq by (metis nth_va_path)
  then show ?thesis using eq by (simp add: has_flags_def cong: option.case_cong)
qed

text \<open>The pages of a range: as many as there are between its first and its last byte.\<close>

lemma range_num_pages_Some:
  "range_num_pages start size_bytes = Some n \<longleftrightarrow>
     size_bytes \<noteq> 0 \<and> unat start + unat size_bytes \<le> 2 ^ 64
     \<and> unat n = (unat start + unat size_bytes - 1) div 4096 - unat start div 4096 + 1"
proof (cases "size_bytes = 0 \<or> unat start + unat size_bytes > 2 ^ 64")
  case True
  have "range_num_pages start size_bytes = None"
  proof (cases "size_bytes = 0")
    case False
    then have "checked_sub size_bytes 1 = Some (size_bytes - 1)" and u: "unat (size_bytes - 1) = unat size_bytes - 1"
      by (simp_all add: checked_sub_def word_le_nat_alt unat_sub unat_gt_0 Suc_le_eq)
    moreover have "checked_add start (size_bytes - 1) = None"
      using True False u by (simp add: checked_add_None)
    ultimately show ?thesis by (simp add: range_num_pages_def)
  qed (simp add: range_num_pages_def checked_sub_def)
  with True show ?thesis by auto
next
  case False
  define last_addr where "last_addr = start + (size_bytes - 1)"
  have nz: "unat size_bytes > 0" using False by (simp add: unat_gt_0)
  then have sub: "checked_sub size_bytes 1 = Some (size_bytes - 1)" and u: "unat (size_bytes - 1) = unat size_bytes - 1"
    by (simp_all add: checked_sub_def word_le_nat_alt unat_sub Suc_le_eq)
  from False have "unat start + unat size_bytes \<le> 2 ^ 64" by simp
  then have "unat start + unat (size_bytes - 1) < 2 ^ 64" using nz unfolding u by linarith
  then have add: "checked_add start (size_bytes - 1) = Some last_addr"
    and l: "unat last_addr = unat start + unat size_bytes - 1"
    using nz u by (simp_all add: checked_add_def last_addr_def unat_add_small)
  define d where "d = align_to_page last_addr - align_to_page start"
  have le: "unat start div 4096 \<le> unat last_addr div 4096" using l nz by (intro div_le_mono) simp
  then have sub2: "checked_sub (align_to_page last_addr) (align_to_page start) = Some d"
    and d: "unat d = 4096 * (unat last_addr div 4096) - 4096 * (unat start div 4096)"
    by (simp_all add: checked_sub_def d_def word_le_nat_alt unat_sub unat_align_to_page)
  have dd: "unat (drop_bit 12 d) = unat last_addr div 4096 - unat start div 4096"
    using d by (simp add: drop_bit_eq_div unat_div diff_mult_distrib2 [symmetric])
  have "unat last_addr < 2 ^ 64" using unsigned_less [of last_addr, where ?'a = nat] by simp
  then have "unat last_addr div 4096 < 2 ^ 52" by (simp add: div_less_iff_less_mult)
  then have "checked_add (drop_bit 12 d) 1 = Some (drop_bit 12 d + 1)"
    and n: "unat (drop_bit 12 d + 1) = unat last_addr div 4096 - unat start div 4096 + 1"
    using dd by (simp_all add: checked_add_def unat_add_small)
  then have "range_num_pages start size_bytes = Some (drop_bit 12 d + 1)"
    by (simp add: range_num_pages_def sub add sub2 Let_def)
  with n False show ?thesis by (auto simp: l intro: word_eq_unatI)
qed

lemma range_num_pages_None:
  "range_num_pages start size_bytes = None \<longleftrightarrow> size_bytes = 0 \<or> unat start + unat size_bytes > 2 ^ 64"
proof (cases "size_bytes = 0 \<or> unat start + unat size_bytes > 2 ^ 64")
  case True
  then show ?thesis using range_num_pages_Some [of start size_bytes] by (metis linorder_not_le option.exhaust)
next
  case False
  let ?k = "(unat start + unat size_bytes - 1) div 4096 - unat start div 4096 + 1"
  have "(unat start + unat size_bytes - 1) div 4096 \<le> 2 ^ 64 div 4096"
    using False by (intro div_le_mono) linarith
  then have "unat (of_nat ?k :: usize) = ?k" by (intro unat_of_nat_small) simp
  with False have "range_num_pages start size_bytes = Some (of_nat ?k)"
    unfolding range_num_pages_Some by auto
  with False show ?thesis by simp
qed

text \<open>The address of the \<open>i\<close>-th page of a range lies in that page, and no addition overflows.\<close>

lemma unat_page_offset: "i < 2 ^ 52 \<Longrightarrow> unat (push_bit 12 (of_nat i) :: usize) = 4096 * i"
proof -
  assume "i < 2 ^ 52"
  moreover have "push_bit 12 (of_nat i) = (of_nat (4096 * i) :: usize)"
    by (simp add: push_bit_eq_mult ac_simps)
  ultimately show ?thesis by (simp only:) (rule unat_of_nat_small, simp)
qed

lemma range_page_address:
  assumes "range_num_pages start size_bytes = Some n" "i < unat n"
  obtains va where "checked_add start (push_bit 12 (of_nat i)) = Some va"
    "unat va div 4096 = unat start div 4096 + i"
proof -
  from assms(1) have n: "unat n = (unat start + unat size_bytes - 1) div 4096 - unat start div 4096 + 1"
    and sz: "unat start + unat size_bytes \<le> 2 ^ 64" "unat size_bytes > 0"
    by (auto simp: range_num_pages_Some unat_gt_0)
  define l where "l = unat start + unat size_bytes - 1"
  have l: "l < 2 ^ 64" "unat start \<le> l" using sz by (simp_all add: l_def)
  have "unat start div 4096 \<le> l div 4096" using l by (intro div_le_mono)
  then have il: "unat start div 4096 + i \<le> l div 4096" using assms(2) n unfolding l_def by linarith
  moreover have "l div 4096 < 2 ^ 52" using l by (simp add: div_less_iff_less_mult)
  ultimately have i: "i < 2 ^ 52" "unat start div 4096 + i < 2 ^ 52" by linarith+
  have "unat start + 4096 * i = 4096 * (unat start div 4096 + i) + unat start mod 4096"
    using mult_div_mod_eq [of 4096 "unat start"] by (simp add: algebra_simps)
  also have "\<dots> < 4096 * (unat start div 4096 + i) + 4096" by simp
  also have "\<dots> \<le> 2 ^ 64" using i by simp
  finally have "unat start + unat (push_bit 12 (of_nat i) :: usize) < 2 ^ 64"
    using unat_page_offset [OF i(1)] by simp
  then have add: "checked_add start (push_bit 12 (of_nat i)) = Some (start + push_bit 12 (of_nat i))"
    and v: "unat (start + push_bit 12 (of_nat i)) = unat start + 4096 * i"
    using unat_page_offset [OF i(1)] by (simp_all add: checked_add_def unat_add_small)
  show thesis by (rule that [OF add]) (unfold v, simp)
qed

lemma range_address_page:
  assumes "range_num_pages start size_bytes = Some n" "start \<le> a" "unat a < unat start + unat size_bytes"
  obtains i where "i < unat n" "unat a div 4096 = unat start div 4096 + i"
proof -
  from assms(1) have n: "unat n = (unat start + unat size_bytes - 1) div 4096 - unat start div 4096 + 1"
    by (simp add: range_num_pages_Some)
  have "unat start div 4096 \<le> unat a div 4096" using assms(2) by (intro div_le_mono) (simp add: word_le_nat_alt)
  moreover have "unat a div 4096 \<le> (unat start + unat size_bytes - 1) div 4096"
    using assms(3) by (intro div_le_mono) simp
  ultimately show thesis
    by (intro that [of "unat a div 4096 - unat start div 4096"]) (use n in linarith)+
qed

lemma range_page_in_range:
  assumes "range_num_pages start size_bytes = Some n" "i < unat n"
  obtains a where "start \<le> a" "unat a < unat start + unat size_bytes" "unat a div 4096 = unat start div 4096 + i"
proof (cases "i = 0")
  case True
  from assms(1) have "unat size_bytes > 0" by (simp add: range_num_pages_Some unat_gt_0)
  then show thesis using True by (intro that [of start]) simp_all
next
  case False
  from assms(1) have n: "unat n = (unat start + unat size_bytes - 1) div 4096 - unat start div 4096 + 1"
    and sz: "unat start + unat size_bytes \<le> 2 ^ 64" "unat size_bytes > 0"
    by (auto simp: range_num_pages_Some unat_gt_0)
  define p where "p = unat start div 4096 + i"
  have "unat start div 4096 \<le> (unat start + unat size_bytes - 1) div 4096" using sz by (intro div_le_mono) simp
  then have "p \<le> (unat start + unat size_bytes - 1) div 4096" using assms(2) n unfolding p_def by linarith
  then have p: "4096 * p \<le> unat start + unat size_bytes - 1" by linarith
  moreover have "unat start < 4096 * p" using False by (simp add: p_def)
  moreover have "unat (of_nat (4096 * p) :: usize) = 4096 * p"
    using p sz by (intro unat_of_nat_small) simp
  ultimately show thesis using sz
    by (intro that [of "of_nat (4096 * p)"]) (simp_all add: word_le_nat_alt p_def del: of_nat_mult of_nat_add)
qed

lemma check_flags_pages_spec:
  assumes wf: "pt_wf m root F" and n: "range_num_pages start size_bytes = Some n"
    and ps: "set ps \<subseteq> {..<unat n}"
  shows "check_flags_pages m root f start ps =
    Some (\<forall>i \<in> set ps. \<forall>va. unat va div 4096 = unat start div 4096 + i \<longrightarrow> has_flags m root f va)"
  using ps
proof (induction ps)
  case (Cons i js)
  then obtain va where va: "checked_add start (push_bit 12 (of_nat i)) = Some va"
    "unat va div 4096 = unat start div 4096 + i" using range_page_address [OF n, of i] by auto
  have "(\<forall>va'. unat va' div 4096 = unat start div 4096 + i \<longrightarrow> has_flags m root f va') \<longleftrightarrow> has_flags m root f va"
    using va(2) has_flags_page [of _ va] by metis
  with Cons va show ?case by (auto simp: check_flags_walk_has_flags [OF wf])
qed simp

text \<open>
  C13. \<^verbatim>\<open>check_flags\<close> answers whether every address of the range is mapped with at least the given
  flags at all four levels of the page table, for every range, whether or not its ends are page
  aligned; it panics exactly for the empty range and for one that runs past the end of the address
  space.
\<close>

theorem check_flags_correct:
  assumes "PAGE_ALLOCATOR s = Some pa" "pt_wf (mem s) (kernel_root pa) (pa_frames pa)"
  shows "check_flags s start size_bytes flags =
    (if size_bytes = 0 \<or> unat start + unat size_bytes > 2 ^ 64 then None
     else Some (\<forall>va. start \<le> va \<longrightarrow> unat va < unat start + unat size_bytes \<longrightarrow>
        has_flags (mem s) (kernel_root pa) (replace_addr_with flags 0) va))"
proof (cases "range_num_pages start size_bytes")
  case None
  with assms range_num_pages_None [of start size_bytes] show ?thesis
    by (auto simp: check_flags_def pai_check_flags_def)
next
  case (Some n)
  let ?ok = "has_flags (mem s) (kernel_root pa) (replace_addr_with flags 0)"
  define b where "b \<longleftrightarrow> (\<forall>i < unat n. \<forall>va. unat va div 4096 = unat start div 4096 + i \<longrightarrow> ?ok va)"
  have eq: "check_flags_pages (mem s) (kernel_root pa) (replace_addr_with flags 0) start [0..<unat n] = Some b"
    by (subst check_flags_pages_spec [OF assms(2) Some]) (auto simp: b_def)
  have "b \<longleftrightarrow> (\<forall>va. start \<le> va \<longrightarrow> unat va < unat start + unat size_bytes \<longrightarrow> ?ok va)"
    unfolding b_def using range_address_page [OF Some] range_page_in_range [OF Some] has_flags_page
    by (metis (no_types, lifting))
  with eq Some assms(1) range_num_pages_None [of start size_bytes] show ?thesis
    by (simp add: check_flags_def pai_check_flags_def kernel_root_def)
qed

theorem check_flags_correct_witness:
  "check_flags small_machine 0x400000 0x1800 READ = Some False"
proof -
  let ?pa = "the (PAGE_ALLOCATOR small_machine)"
  have pa: "PAGE_ALLOCATOR small_machine = Some ?pa"
    "pt_wf (mem small_machine) (kernel_root ?pa) (pa_frames ?pa)"
    using small_machine_wf by (auto simp: kernel_wf_def split: option.splits)
  have "\<not> has_flags (mem small_machine) (kernel_root ?pa) (replace_addr_with READ 0) 0x400000"
    by (simp add: has_flags_def small_machine_def exI [of _ 0])
  then show ?thesis
    unfolding check_flags_correct [OF pa] by (auto intro!: exI [of _ "0x400000"])
qed

subsection \<open>Identity mapping\<close>

text \<open>
  For an address whose walk meets no large page, \<^verbatim>\<open>is_address_identity_mapped\<close> answers whether the
  kernel's page table maps its page to the frame with the same address.
\<close>

theorem is_address_identity_mapped_correct:
  assumes "PAGE_ALLOCATOR s = Some pa" and wf: "pt_wf (mem s) (kernel_root pa) (pa_frames pa)"
    and huge: "\<And>j t. j < 3 \<Longrightarrow> walk (mem s) (kernel_root pa) (take j (va_path addr)) = Some t \<Longrightarrow>
      \<not> huge_page (mem s t (level_index j addr))"
  shows "is_address_identity_mapped s addr = Some (kernel_translate s addr = Some (align_to_page addr))"
proof -
  let ?m = "mem s" and ?r = "kernel_root pa"
  have loop: "identity_mapped_loop ?m addr (drop k levels) current =
      Some (translate ?m ?r addr = Some (align_to_page addr))"
    if "k \<le> 3" "walk ?m ?r (take k (va_path addr)) = Some current" for k current
    using that
  proof (induction "3 - k" arbitrary: k current)
    case 0
    then have k: "k = 3" by simp
    have nz: "current \<noteq> 0" using pt_wf_nonzero [OF wf _ "0.prems"(2)] k by simp
    have "addr AND identity_mask 3 = align_to_page addr"
    proof -
      have "(0xFFFFFFFFFFFFF000 :: usize) = NOT 0xFFF" by code_simp
      then show ?thesis unfolding align_to_page_def identity_mask_def by (simp only:) simp
    qed
    moreover have "translate ?m ?r addr =
        (if present (?m current (level_index 3 addr)) then Some (address (?m current (level_index 3 addr))) else None)"
      using "0.prems"(2) k unfolding translate_def by (subst va_path_split) (simp add: walk_snoc)
    ultimately show ?case using nz by (auto simp: k drop_levels [of 3, simplified])
  next
    case (Suc n)
    then have k: "k < 3" and n: "n = 3 - Suc k" by simp_all
    have nz: "current \<noteq> 0" using pt_wf_nonzero [OF wf _ Suc.prems(2)] k by simp
    show ?case
    proof (cases "present (?m current (level_index k addr))")
      case True
      then have "walk ?m ?r (take (Suc k) (va_path addr)) = Some (address (?m current (level_index k addr)))"
        using Suc.prems(2) k by (simp add: take_Suc_va_path walk_snoc)
      from Suc.hyps(1) [OF n _ this] k True nz huge [OF k Suc.prems(2)] show ?thesis
        by (simp add: drop_levels [of k])
    next
      case False
      then have "translate ?m ?r addr = None"
        unfolding translate_def using k Suc.prems(2) by (intro walk_va_path_stop [of k]) auto
      with False k nz show ?thesis by (simp add: drop_levels [of k])
    qed
  qed
  from loop [of 0 ?r] show ?thesis
    by (simp add: is_address_identity_mapped_def pai_is_address_identity_mapped_def assms(1)
        kernel_translate_def kernel_root_def)
qed

theorem is_address_identity_mapped_correct_witness:
  "is_address_identity_mapped small_machine 0x1234 = Some False"
proof -
  let ?pa = "the (PAGE_ALLOCATOR small_machine)"
  have pa: "PAGE_ALLOCATOR small_machine = Some ?pa"
    "pt_wf (mem small_machine) (kernel_root ?pa) (pa_frames ?pa)"
    using small_machine_wf by (auto simp: kernel_wf_def split: option.splits)
  have zero: "mem small_machine = (\<lambda>_ _. 0)" by (simp add: small_machine_def)
  then have "kernel_translate small_machine 0x1234 = None"
    using pa(1) by (simp add: kernel_translate_def translate_def walk_zero_frame va_path_def levels_def)
  then show ?thesis
    by (subst is_address_identity_mapped_correct [OF pa]) (simp_all add: zero huge_page_def)
qed

end
