(* ===== verification/User_Page_Mapping.thy ===== *)
theory User_Page_Mapping
  imports Kernel_Paging
begin

text \<open>
  The page mapper of user address spaces (\<^verbatim>\<open>arch/x86_64/user_page_mapping.rs\<close>): mapping and unmapping
  single pages, the suspendable tasks that map and unmap ranges, the operations on ranges, and the
  teardown of an address space. A \<^verbatim>\<open>UserPageMapper\<close> is the address of the top-level table it owns;
  its operations act on the machine state of the page allocator.

  A \<^verbatim>\<open>&mut usize\<close> argument is an argument and a component of the result. The closure
  \<^verbatim>\<open>should_suspend\<close> of the tasks is the list of its answers: a call of \<^verbatim>\<open>run\<close> consumes one answer per
  iteration, and \<^term>\<open>None\<close> as the polled value says that these answers do not end the call.
\<close>

subsection \<open>Mapping and unmapping one page\<close>

datatype user_page_mapper_error = UserPageAlreadyExists | UserOutOfMemory

text \<open>
  The loop of \<^verbatim>\<open>map_blank_page\<close>: it ends with the value of the labelled block (\<^term>\<open>Inr\<close>) or leaves the
  function at once (\<^term>\<open>Inl\<close>), which skips the cleanup.
\<close>

fun map_blank_loop ::
  "usize \<Rightarrow> u64 \<Rightarrow> nat list \<Rightarrow> usize \<Rightarrow> usize \<Rightarrow> usize option list \<Rightarrow> machine \<Rightarrow>
   ((user_page_mapper_error + (user_page_mapper_error + unit)) \<times> usize \<times> usize option list \<times> machine) option" where
  "map_blank_loop va child_flags [] current used parents s = Some (Inr (Inr ()), used, parents, s)"
| "map_blank_loop va child_flags (i # is) current used parents s =
     do { let index = level_index i va;
          entry \<leftarrow> read_table (mem s) current index;
          if \<not> present entry then
            do { used \<leftarrow> checked_add used 1;
                 (r, s) \<leftarrow> find_and_reserve_page s;
                 case r of
                   Inl _ \<Rightarrow> Some (Inr (Inl UserOutOfMemory), used, parents, s)
                 | Inr page \<Rightarrow>
                     let new_page = owned_page_into_raw page;
                         m = (mem s)(new_page := (\<lambda>_. 0));
                         parents = (if i < 3 then parents[i := Some new_page] else parents);
                         stripped_address = new_page AND 0x000FFFFFFFFFF000;
                         new_entry = stripped_address OR (if i < 3 then READ_WRITE_EXECUTE else child_flags);
                         s = s\<lparr>mem := write_entry m current index new_entry\<rparr>
                     in map_blank_loop va child_flags is (address new_entry) used parents s }
          else if i = 3 then Some (Inl UserPageAlreadyExists, used, parents, s)
          else map_blank_loop va child_flags is (address entry) used parents s }"

fun free_parents :: "usize option list \<Rightarrow> usize \<Rightarrow> machine \<Rightarrow> (usize \<times> machine) option" where
  "free_parents [] used s = Some (used, s)"
| "free_parents (None # ps) used s = free_parents ps used s"
| "free_parents (Some page # ps) used s =
     do { s \<leftarrow> free_page s page; used \<leftarrow> checked_sub used 1; free_parents ps used s }"

definition map_blank_page ::
  "usize \<Rightarrow> usize \<Rightarrow> page_table_entry \<Rightarrow> usize \<Rightarrow> machine \<Rightarrow>
   ((user_page_mapper_error + unit) \<times> usize \<times> machine) option" where
  "map_blank_page pml4 virtual_address flags pages_used s =
     do { let child_flags = (flags AND 0x8000000000000007) OR 5;
          (exit, used, parents, s) \<leftarrow>
            map_blank_loop virtual_address child_flags levels pml4 pages_used [None, None, None] s;
          case exit of
            Inl err \<Rightarrow> Some (Inl err, used, s)
          | Inr (Inr u) \<Rightarrow> Some (Inr u, used, s)
          | Inr (Inl err) \<Rightarrow> do { (used, s) \<leftarrow> free_parents parents used s; Some (Inl err, used, s) } }"

text \<open>
  The first loop of \<^verbatim>\<open>unmap_page\<close> collects the tables on the way down; \<^term>\<open>Some None\<close> is the early
  return for a page that is not mapped.
\<close>

fun collect_tables :: "usize \<Rightarrow> nat list \<Rightarrow> usize \<Rightarrow> memory \<Rightarrow> (nat \<times> usize) list option option" where
  "collect_tables va [] current m = Some (Some [])"
| "collect_tables va (i # is) current m =
     do { let index = level_index i va;
          entry \<leftarrow> read_table m current index;
          guard (\<not> huge_page entry);
          if \<not> present entry then Some None
          else do { rest \<leftarrow> collect_tables va is (address entry) m;
                    Some (map_option (\<lambda>ts. (index, current) # ts) rest) } }"

text \<open>
  The second loop goes back up. Its search for an entry that is not zero only leaves the search
  itself, so it does not influence what happens next.
\<close>

fun unmap_tables_loop ::
  "usize \<Rightarrow> nat \<Rightarrow> (nat \<times> usize) list \<Rightarrow> usize \<Rightarrow> machine \<Rightarrow> (usize \<times> machine) option" where
  "unmap_tables_loop depth tables_checked [] pages_freed s = Some (pages_freed, s)"
| "unmap_tables_loop depth tables_checked ((prev_table_index, table_addr) # ts) pages_freed s =
     do { entry \<leftarrow> read_table (mem s) table_addr prev_table_index;
          let s = s\<lparr>mem := write_entry (mem s) table_addr prev_table_index ENTRY_ZERO\<rparr>;
          s \<leftarrow> free_page s (address entry);
          pages_freed \<leftarrow> checked_add pages_freed 1;
          if tables_checked \<ge> unat depth then Some (pages_freed, s)
          else unmap_tables_loop depth (Suc tables_checked) ts pages_freed s }"

definition unmap_page :: "usize \<Rightarrow> usize \<Rightarrow> usize \<Rightarrow> machine \<Rightarrow> (usize \<times> machine) option" where
  "unmap_page pml4 virtual_address free_table_check_depth s =
     do { tables \<leftarrow> collect_tables (virtual_address AND 0x000FFFFFFFFFF000) levels pml4 (mem s);
          case tables of
            None \<Rightarrow> Some (0, s)
          | Some ts \<Rightarrow> unmap_tables_loop free_table_check_depth 0 (rev ts) 0 s }"

subsection \<open>The unmapping task\<close>

record unmap_mem_task =
  um_current_address :: usize
  um_pages_left :: usize
  um_pages_freed :: usize

definition unmap_mem_task_new :: "usize \<Rightarrow> usize \<Rightarrow> unmap_mem_task" where
  "unmap_mem_task_new start_address num_pages =
     \<lparr>um_current_address = start_address, um_pages_left = num_pages, um_pages_freed = 0\<rparr>"

text \<open>How many parent tables to check: the first level whose index differs from the next page's.\<close>

fun changed_level_depth :: "nat \<Rightarrow> usize list \<Rightarrow> usize \<Rightarrow> usize \<Rightarrow> usize" where
  "changed_level_depth i [] page_address next_page_address = 0"
| "changed_level_depth i (level_mask # masks) page_address next_page_address =
     (if page_address AND level_mask \<noteq> next_page_address AND level_mask then of_nat (4 - i)
      else changed_level_depth (Suc i) masks page_address next_page_address)"

fun unmap_mem_task_run ::
  "bool list \<Rightarrow> usize \<Rightarrow> unmap_mem_task \<Rightarrow> machine \<Rightarrow> (usize poll option \<times> unmap_mem_task \<times> machine) option" where
  "unmap_mem_task_run [] pml4 task s = Some (None, task, s)"
| "unmap_mem_task_run (should_suspend # answers) pml4 task s =
     (if should_suspend then Some (Some Pending, task, s)
      else do { let page_address = um_current_address task;
                next_page_address \<leftarrow> checked_add page_address 4096;
                let depth = (if um_pages_left task = 0 then 3
                             else changed_level_depth 0 LEVEL_MASKS page_address next_page_address);
                (freed, s) \<leftarrow> unmap_page pml4 page_address depth s;
                pages_freed \<leftarrow> checked_add (um_pages_freed task) freed;
                pages_left \<leftarrow> checked_sub (um_pages_left task) 1;
                let task = task\<lparr>um_current_address := next_page_address, um_pages_left := pages_left,
                                um_pages_freed := pages_freed\<rparr>;
                if pages_left = 0 then Some (Some (Ready pages_freed), task, s)
                else unmap_mem_task_run answers pml4 task s })"

subsection \<open>The mapping task\<close>

text \<open>\<^verbatim>\<open>vma::SegmentFlags\<close>.\<close>

record segment_flags =
  sf_read :: bool
  sf_write :: bool
  sf_execute :: bool

datatype map_mem_error = MapMemOutOfMemory

datatype map_mem_state =
  Mapping (mm_pages_left: usize) (mm_flags: page_table_entry)
| FailRewinding map_mem_error

record map_mem_task =
  mm_start_address :: usize
  mm_current_address :: usize
  mm_pages_allocated :: usize
  mm_state :: map_mem_state

definition map_mem_task_new :: "usize \<Rightarrow> usize \<Rightarrow> segment_flags \<Rightarrow> map_mem_task" where
  "map_mem_task_new start_address num_pages flags =
     \<lparr>mm_start_address = start_address, mm_current_address = start_address, mm_pages_allocated = 0,
      mm_state = Mapping num_pages
        (from_data (default_page_table_data
           \<lparr>pd_user_accessable := sf_read flags, pd_writable := sf_write flags,
            pd_no_execute := \<not> sf_execute flags\<rparr>))\<rparr>"

text \<open>One iteration of the loop of \<^verbatim>\<open>run\<close> after \<^verbatim>\<open>should_suspend\<close>: its result, if it returns, and the new state.\<close>

definition map_mem_mapping_step ::
  "usize \<Rightarrow> usize \<Rightarrow> page_table_entry \<Rightarrow> map_mem_task \<Rightarrow> machine \<Rightarrow>
   ((map_mem_error + usize) option \<times> map_mem_task \<times> machine) option" where
  "map_mem_mapping_step pml4 pages_left flags task s =
     do { let page_address = mm_current_address task;
          next_page_address \<leftarrow> checked_add page_address 4096;
          (r, pages_allocated, s) \<leftarrow> map_blank_page pml4 page_address flags (mm_pages_allocated task) s;
          let task = task\<lparr>mm_pages_allocated := pages_allocated\<rparr>;
          case r of
            Inl UserOutOfMemory \<Rightarrow>
              Some (None, task\<lparr>mm_current_address := saturating_sub page_address 4096,
                               mm_state := FailRewinding MapMemOutOfMemory\<rparr>, s)
          | Inl UserPageAlreadyExists \<Rightarrow> None
          | Inr _ \<Rightarrow>
              do { pages_left \<leftarrow> checked_sub pages_left 1;
                   let task = task\<lparr>mm_current_address := next_page_address,
                                   mm_state := Mapping pages_left flags\<rparr>;
                   Some (if pages_left = 0 then Some (Inr pages_allocated) else None, task, s) } }"

definition map_mem_rewind_step ::
  "usize \<Rightarrow> map_mem_error \<Rightarrow> map_mem_task \<Rightarrow> machine \<Rightarrow>
   ((map_mem_error + usize) option \<times> map_mem_task \<times> machine) option" where
  "map_mem_rewind_step pml4 error task s =
     do { let page_address = mm_current_address task;
          let next_page_address = saturating_sub page_address 4096;
          let depth = (if page_address = mm_start_address task then 3
                       else changed_level_depth 0 LEVEL_MASKS page_address next_page_address);
          (freed, s) \<leftarrow> unmap_page pml4 page_address depth s;
          pages_allocated \<leftarrow> checked_sub (mm_pages_allocated task) freed;
          let task = task\<lparr>mm_pages_allocated := pages_allocated, mm_current_address := next_page_address\<rparr>;
          if page_address = mm_start_address task
          then do { guard (pages_allocated = 0); Some (Some (Inl error), task, s) }
          else Some (None, task, s) }"

definition map_mem_step ::
  "usize \<Rightarrow> map_mem_task \<Rightarrow> machine \<Rightarrow> ((map_mem_error + usize) option \<times> map_mem_task \<times> machine) option" where
  "map_mem_step pml4 task s =
     (case mm_state task of
        Mapping pages_left flags \<Rightarrow> map_mem_mapping_step pml4 pages_left flags task s
      | FailRewinding error \<Rightarrow> map_mem_rewind_step pml4 error task s)"

fun map_mem_task_run ::
  "bool list \<Rightarrow> usize \<Rightarrow> map_mem_task \<Rightarrow> machine \<Rightarrow>
   ((map_mem_error + usize) poll option \<times> map_mem_task \<times> machine) option" where
  "map_mem_task_run [] pml4 task s = Some (None, task, s)"
| "map_mem_task_run (should_suspend # answers) pml4 task s =
     (if should_suspend then Some (Some Pending, task, s)
      else do { (r, task, s) \<leftarrow> map_mem_step pml4 task s;
                case r of Some result \<Rightarrow> Some (Some (Ready result), task, s)
                | None \<Rightarrow> map_mem_task_run answers pml4 task s })"

subsection \<open>Operations on ranges\<close>

text \<open>The bytes of a frame, eight to an entry, the least significant first.\<close>

definition page_byte :: "memory \<Rightarrow> usize \<Rightarrow> nat \<Rightarrow> u8" where
  "page_byte m a n = ucast (drop_bit (8 * (n mod 8)) (m a (n div 8)))"

definition entry_of_bytes :: "u8 list \<Rightarrow> u64" where
  "entry_of_bytes bs = foldr (\<lambda>b w. ucast b OR push_bit 8 w) bs 0"

definition page_to_bytes :: "memory \<Rightarrow> usize \<Rightarrow> u8 list" where
  "page_to_bytes m a = map (page_byte m a) [0..<4096]"

definition page_from_bytes :: "memory \<Rightarrow> usize \<Rightarrow> u8 list \<Rightarrow> memory" where
  "page_from_bytes m a bs = m(a := (\<lambda>i. if i < 512 then entry_of_bytes (take 8 (drop (8 * i) bs)) else m a i))"

text \<open>
  The last level of \<^verbatim>\<open>map_mem_copy_from_buffer\<close>: copy what is left of the buffer into the page from
  \<open>start_offset\<close> on and clear the rest. \<^verbatim>\<open>copy_from_slice\<close> panics unless the two slices have the same length.
\<close>

definition write_page_data ::
  "u8 list \<Rightarrow> usize \<Rightarrow> usize \<Rightarrow> usize \<Rightarrow> memory \<Rightarrow> (usize \<times> memory) option" where
  "write_page_data buffer start_offset data_written page m =
     do { remaining \<leftarrow> checked_sub (of_nat (length buffer)) data_written;
          room \<leftarrow> checked_sub 4096 start_offset;
          let data_to_write = min remaining room;
          guard (page \<noteq> 0);
          let write_page = page_to_bytes m page;
          guard (unat start_offset \<le> length write_page);
          dst \<leftarrow> slice_range (drop (unat start_offset) write_page) 0 (unat data_to_write);
          guard (unat data_written \<le> length buffer);
          copied \<leftarrow> copy_from_slice dst (drop (unat data_written) buffer);
          zero_from \<leftarrow> checked_add start_offset data_to_write;
          let bytes = take (unat start_offset) write_page @ copied
                      @ replicate (4096 - unat zero_from) 0;
          data_written \<leftarrow> checked_add data_written data_to_write;
          Some (data_written, page_from_bytes m page bytes) }"

fun copy_levels ::
  "u8 list \<Rightarrow> usize \<Rightarrow> nat list \<Rightarrow> usize \<Rightarrow> usize \<Rightarrow> usize \<Rightarrow> machine \<Rightarrow>
   ((reserve_page_error + (usize \<times> usize)) \<times> machine) option" where
  "copy_levels buffer va [] current start_offset data_written s = Some (Inr (start_offset, data_written), s)"
| "copy_levels buffer va (i # is) current start_offset data_written s =
     do { let index = level_index i va;
          entry \<leftarrow> read_table (mem s) current index;
          (r, s) \<leftarrow>
            (if present entry then Some (Inr entry, s)
             else do { (r, s) \<leftarrow> find_and_reserve_page s;
                       Some (case r of
                           Inl err \<Rightarrow> (Inl err, s)
                         | Inr page \<Rightarrow>
                             let new_page = owned_page_into_raw page;
                                 m = (if i < 3 then (mem s)(new_page := (\<lambda>_. 0)) else mem s);
                                 stripped_address = new_page AND 0x000FFFFFFFFFF000;
                                 new_entry = stripped_address OR (if i < 3 then READ_WRITE_EXECUTE else READ)
                             in (Inr new_entry, s\<lparr>mem := write_entry m current index new_entry\<rparr>)) });
          case r of
            Inl err \<Rightarrow> Some (Inl err, s)
          | Inr entry \<Rightarrow>
              if i = 3
              then do { (data_written, m) \<leftarrow> write_page_data buffer start_offset data_written (address entry) (mem s);
                        copy_levels buffer va is (address entry) 0 data_written (s\<lparr>mem := m\<rparr>) }
              else copy_levels buffer va is (address entry) start_offset data_written s }"

fun copy_pages ::
  "u8 list \<Rightarrow> usize \<Rightarrow> usize \<Rightarrow> nat list \<Rightarrow> usize \<Rightarrow> usize \<Rightarrow> machine \<Rightarrow>
   ((reserve_page_error + unit) \<times> machine) option" where
  "copy_pages buffer pml4 start [] start_offset data_written s = Some (Inr (), s)"
| "copy_pages buffer pml4 start (page_i # pages) start_offset data_written s =
     do { va \<leftarrow> checked_add start (push_bit 12 (of_nat page_i));
          (r, s) \<leftarrow> copy_levels buffer va levels pml4 start_offset data_written s;
          case r of
            Inl err \<Rightarrow> Some (Inl err, s)
          | Inr (start_offset, data_written) \<Rightarrow> copy_pages buffer pml4 start pages start_offset data_written s }"

definition map_mem_copy_from_buffer ::
  "usize \<Rightarrow> usize \<Rightarrow> usize \<Rightarrow> u8 list \<Rightarrow> machine \<Rightarrow> ((reserve_page_error + unit) \<times> machine) option" where
  "map_mem_copy_from_buffer pml4 virtual_start_address size_bytes buffer s =
     do { num_pages \<leftarrow> range_num_pages virtual_start_address size_bytes;
          copy_pages buffer pml4 virtual_start_address [0..<unat num_pages]
            (virtual_start_address AND 0xFFF) 0 s }"

text \<open>
  \<^verbatim>\<open>unmap_mem\<close>, \<^verbatim>\<open>change_flags\<close> and \<^verbatim>\<open>change_flags_relaxing\<close> are the same two nested loops around what they
  do to the entry of a present page. The loops do not look whether a parent entry is present.
\<close>

type_synonym leaf_action = "usize \<Rightarrow> nat \<Rightarrow> page_table_entry \<Rightarrow> machine \<Rightarrow> machine option"

fun leaf_walk :: "leaf_action \<Rightarrow> usize \<Rightarrow> nat list \<Rightarrow> usize \<Rightarrow> machine \<Rightarrow> machine option" where
  "leaf_walk act va [] current s = Some s"
| "leaf_walk act va (i # is) current s =
     do { let index = level_index i va;
          entry \<leftarrow> read_table (mem s) current index;
          guard (\<not> huge_page entry);
          if i = 3
          then if \<not> present entry then Some s
               else do { s \<leftarrow> act current index entry s; leaf_walk act va is current s }
          else leaf_walk act va is (address entry) s }"

definition leaf_page :: "leaf_action \<Rightarrow> usize \<Rightarrow> usize \<Rightarrow> nat \<Rightarrow> machine \<Rightarrow> machine option" where
  "leaf_page act pml4 actual_start page_i s =
     do { va \<leftarrow> checked_add actual_start (push_bit 12 (of_nat page_i));
          leaf_walk act va levels pml4 s }"

definition leaf_range :: "leaf_action \<Rightarrow> usize \<Rightarrow> usize \<Rightarrow> usize \<Rightarrow> machine \<Rightarrow> machine option" where
  "leaf_range act pml4 start_address size_bytes s =
     do { num_pages \<leftarrow> range_num_pages start_address size_bytes;
          for_each (leaf_page act pml4 (start_address AND 0x000FFFFFFFFFF000)) [0..<unat num_pages] s }"

definition unmap_action :: leaf_action where
  "unmap_action table index entry s =
     do { s \<leftarrow> free_page s (address entry);
          Some (s\<lparr>mem := write_entry (mem s) table index ENTRY_ZERO\<rparr>) }"

definition unmap_mem :: "usize \<Rightarrow> usize \<Rightarrow> usize \<Rightarrow> machine \<Rightarrow> machine option" where
  "unmap_mem pml4 start_address size_bytes s = leaf_range unmap_action pml4 start_address size_bytes s"

definition set_flags_action :: "u64 \<Rightarrow> leaf_action" where
  "set_flags_action actual_flags table index entry s =
     Some (s\<lparr>mem := write_entry (mem s) table index (address entry OR actual_flags)\<rparr>)"

definition change_flags :: "usize \<Rightarrow> usize \<Rightarrow> usize \<Rightarrow> page_table_entry \<Rightarrow> machine \<Rightarrow> machine option" where
  "change_flags pml4 start_address size_bytes flags s =
     (let actual_flags = (flags AND 0x80000000000001FE) OR 1
      in leaf_range (set_flags_action actual_flags) pml4 start_address size_bytes s)"

definition relax_flags_action :: "u64 \<Rightarrow> u64 \<Rightarrow> leaf_action" where
  "relax_flags_action relaxation_flags no_execute_mask table index entry s =
     Some (s\<lparr>mem := write_entry (mem s) table index
              ((address entry OR relaxation_flags) AND no_execute_mask)\<rparr>)"

definition change_flags_relaxing :: "usize \<Rightarrow> usize \<Rightarrow> usize \<Rightarrow> page_table_entry \<Rightarrow> machine \<Rightarrow> machine option" where
  "change_flags_relaxing pml4 start_address size_bytes flags s =
     (let relaxation_flags = (flags AND 0x6) OR 1;
          no_execute_mask = (if flags AND push_bit 63 1 = 0 then NOT (push_bit 63 1) else NOT 0)
      in leaf_range (relax_flags_action relaxation_flags no_execute_mask) pml4 start_address size_bytes s)"

subsection \<open>Creation and teardown\<close>

text \<open>
  \<^verbatim>\<open>free_page_tree\<close> at level \<open>3 - d\<close>. Freeing pages does not change memory, so the entries of a table
  can be read before the loop.
\<close>

primrec free_page_tree_below :: "nat \<Rightarrow> page_table_entry \<Rightarrow> machine \<Rightarrow> machine option" where
  "free_page_tree_below 0 node s =
     (if \<not> present node then Some s
      else do { guard (\<not> huge_page node); free_page s (address node) })"
| "free_page_tree_below (Suc d) node s =
     (if \<not> present node then Some s
      else do { guard (\<not> huge_page node);
                guard (address node \<noteq> 0);
                s \<leftarrow> for_each (\<lambda>entry s. if present entry then free_page_tree_below d entry s else Some s)
                       (map (mem s (address node)) [0..<512]) s;
                free_page s (address node) })"

definition free_page_tree :: "page_table_entry \<Rightarrow> nat \<Rightarrow> machine \<Rightarrow> machine option" where
  "free_page_tree node level s = free_page_tree_below (3 - level) node s"

definition user_page_mapper_drop :: "usize \<Rightarrow> machine \<Rightarrow> machine option" where
  "user_page_mapper_drop pml4 s =
     do { s \<leftarrow> for_each (\<lambda>entry s. if present entry then free_page_tree entry 0 s else Some s)
                 (map (mem s pml4) [0..<256]) s;
          owned_page_drop s pml4 }"

definition user_page_mapper_new :: "machine \<Rightarrow> ((reserve_page_error + usize) \<times> machine) option" where
  "user_page_mapper_new s =
     do { (r, s) \<leftarrow> find_and_reserve_page s;
          case r of
            Inl err \<Rightarrow> Some (Inl err, s)
          | Inr pml4 \<Rightarrow>
              do { let pml4_table = map (mem s pml4) [0..<512];
                   let lower = replicate 256 ENTRY_ZERO;
                   kernel_root \<leftarrow> page_table_address s;
                   guard (kernel_root \<noteq> 0);
                   let kernel_pml4 = map (mem s kernel_root) [0..<512];
                   upper \<leftarrow> slice_range pml4_table 256 512;
                   upper \<leftarrow> copy_from_slice upper kernel_pml4;
                   Some (Inr pml4, s\<lparr>mem := (mem s)(pml4 := (\<lambda>i. (lower @ upper) ! i))\<rparr>) } }"

end
