(* ===== verification/User_Paging.thy ===== *)
theory User_Paging
  imports User_Page_Mapping "HOL-Library.Multiset"
begin

text \<open>
  Correctness of the user page mapper: what mapping and unmapping a page do to the translations, to
  the frames in use and to the page counts, and where the code departs from its documentation.
\<close>

definition user_wf :: "usize \<Rightarrow> machine \<Rightarrow> bool" where
  "user_wf pml4 s \<longleftrightarrow> machine_inv s \<and> pt_wf (mem s) pml4 (machine_frames s)"

definition user_translate :: "usize \<Rightarrow> machine \<Rightarrow> usize \<Rightarrow> usize option" where
  "user_translate pml4 s va = translate (mem s) pml4 va"

subsection \<open>Entries for new pages\<close>

lemma frame_entry:
  assumes "frame_address a" "\<And>n. 12 \<le> n \<Longrightarrow> n < 52 \<Longrightarrow> \<not> bit f n" "bit f 0"
  shows "present ((a AND 0x000FFFFFFFFFF000) OR f)" "address ((a AND 0x000FFFFFFFFFF000) OR f) = a"
proof -
  show "present ((a AND 0x000FFFFFFFFFF000) OR f)" using assms(3) by (simp add: present_def bit_simps)
  have "address ((a AND 0x000FFFFFFFFFF000) OR f) = address (a AND 0x000FFFFFFFFFF000)"
    using assms(2) by (rule address_or_flags)
  then show "address ((a AND 0x000FFFFFFFFFF000) OR f) = a" using assms(1) by (simp add: frame_address_def)
qed

lemma parent_entry:
  assumes "frame_address a"
  shows "present ((a AND 0x000FFFFFFFFFF000) OR READ_WRITE_EXECUTE)"
    "address ((a AND 0x000FFFFFFFFFF000) OR READ_WRITE_EXECUTE) = a"
  by (rule frame_entry [OF assms];
      auto simp: READ_WRITE_EXECUTE_def bit_from_data default_page_table_data_def)+

definition child_flags :: "page_table_entry \<Rightarrow> u64" where
  "child_flags flags = (flags AND 0x8000000000000007) OR 5"

lemma bit_child_mask: "bit (0x8000000000000007 :: u64) n \<longleftrightarrow> n < 3 \<or> n = 63"
proof -
  have *: "(0x8000000000000007 :: int) = mask 3 OR 0x8000000000000000"
    by (simp add: mask_eq_exp_minus_1)
  have "bit (0x8000000000000007 :: int) n \<longleftrightarrow> n < 3 \<or> n = 63"
    unfolding * by (auto simp: bit_or_iff bit_mask_iff)
  then show ?thesis by auto
qed

lemma bit_five: "bit (5 :: u64) n \<longleftrightarrow> n = 0 \<or> n = 2"
proof -
  have *: "(5 :: int) = 2 ^ 0 OR 2 ^ 2" by simp
  have "bit (5 :: int) n \<longleftrightarrow> n = 0 \<or> n = 2"
    unfolding * bit_or_iff bit_exp_iff by auto
  then show ?thesis by auto
qed

lemma bit_child_flags:
  "bit (child_flags flags) n \<longleftrightarrow> n = 0 \<or> n = 2 \<or> (n = 1 \<or> n = 63) \<and> bit flags n"
  unfolding child_flags_def bit_or_iff bit_and_iff bit_child_mask bit_five by auto

lemma child_entry:
  assumes "frame_address a"
  shows "present ((a AND 0x000FFFFFFFFFF000) OR child_flags flags)"
    "address ((a AND 0x000FFFFFFFFFF000) OR child_flags flags) = a"
  by (rule frame_entry [OF assms]; auto simp: bit_child_flags)+

subsection \<open>The pages created on the way down\<close>

definition somes :: "'a option list \<Rightarrow> 'a list" where
  "somes ps = List.map_filter (\<lambda>x. x) ps"

lemma somes_simps [simp]:
  "somes [] = []" "somes (None # ps) = somes ps" "somes (Some x # ps) = x # somes ps"
  by (simp_all add: somes_def List.map_filter_simps)

lemma somes_update:
  "k < length ps \<Longrightarrow> ps ! k = None \<Longrightarrow> mset (somes (ps[k := Some a])) = add_mset a (mset (somes ps))"
proof (induction ps arbitrary: k)
  case (Cons p ps)
  then show ?case by (cases k; cases p) auto
qed simp

lemma mset_eq_mset_set:
  assumes "mset xs = mset_set A" "finite A"
  shows "distinct xs" "set xs = A" "length xs = card A"
proof -
  show set: "set xs = A" using assms by (metis finite_set_mset_mset_set set_mset_mset)
  show len: "length xs = card A" using assms by (metis size_mset size_mset_set)
  show "distinct xs" using set len by (simp add: card_distinct)
qed

lemma free_parents_spec:
  assumes "machine_inv s" "distinct (somes ps)" "set (somes ps) \<subseteq> machine_frames s"
    "length (somes ps) \<le> unat used"
  shows "\<exists>used' s'. free_parents ps used s = Some (used', s') \<and> machine_inv s'
    \<and> machine_frames s' = machine_frames s - set (somes ps) \<and> mem s' = mem s
    \<and> unat used = unat used' + length (somes ps)"
  using assms
proof (induction ps used s rule: free_parents.induct)
  case (3 page ps used s)
  from "3.prems" have "page \<in> machine_frames s" by simp
  from machine_alloc.release_frame [OF "3.prems"(1) this] obtain s1 where
    s1: "free_page s page = Some s1" "machine_frames s1 = machine_frames s - {page}" "mem s1 = mem s"
      "machine_inv s1" by blast
  from "3.prems"(4) obtain u where u: "checked_sub used 1 = Some u" "unat used = unat u + 1"
    using checked_sub_Some [of used 1] checked_sub_None [of used 1]
    by (cases "checked_sub used 1") auto
  have "set (somes ps) \<subseteq> machine_frames s1" "distinct (somes ps)" "length (somes ps) \<le> unat u"
    using "3.prems" s1(2) u(2) by auto
  from "3.IH" [OF s1(1) u(1) s1(4) this(2,1,3)] s1 u show ?case by auto
qed auto

subsection \<open>The loop of map blank page\<close>

text \<open>
  The loop at level \<open>k\<close>, from a state in which the tables above are there. Every table it adds is
  recorded in the list of created parents.
\<close>

definition blank_post ::
  "usize \<Rightarrow> page_table_entry \<Rightarrow> usize \<Rightarrow> usize \<Rightarrow> usize option list \<Rightarrow> machine \<Rightarrow>
   user_page_mapper_error + (user_page_mapper_error + unit) \<Rightarrow> usize \<Rightarrow> usize option list \<Rightarrow> machine \<Rightarrow> bool" where
  "blank_post va flags root used parents s exit used' parents' s' \<longleftrightarrow>
     machine_inv s'
     \<and> (case exit of
          Inl err \<Rightarrow> err = UserPageAlreadyExists \<and> used' = used \<and> parents' = parents \<and> s' = s
            \<and> walk (mem s) root (va_path va) \<noteq> None
        | Inr (Inl err) \<Rightarrow> err = UserOutOfMemory \<and> walk (mem s) root (va_path va) = None
            \<and> pt_extends root (mem s) (machine_frames s) (mem s') (machine_frames s')
            \<and> unat used' = unat used + card (machine_frames s' - machine_frames s) + 1
            \<and> mset (somes parents') = mset (somes parents) + mset_set (machine_frames s' - machine_frames s)
            \<and> (\<exists>e. find_and_reserve_page s' = Some (Inl e, s'))
        | Inr (Inr _) \<Rightarrow> walk (mem s) root (va_path va) = None
            \<and> unat used' = unat used + card (machine_frames s' - machine_frames s)
            \<and> (\<exists>m1 F1 t a. pt_extends root (mem s) (machine_frames s) m1 F1
                 \<and> walk m1 root (take 3 (va_path va)) = Some t
                 \<and> a \<notin> F1 \<and> frame_address a \<and> machine_frames s' = insert a F1
                 \<and> mem s' = write_entry (m1(a := (\<lambda>_. 0))) t (level_index 3 va)
                     ((a AND 0x000FFFFFFFFFF000) OR child_flags flags)))"

lemma finite_machine_frames [simp, intro]: "finite (machine_frames s)"
  by (auto simp: machine_frames_def pa_frames_def pa_used_def split: option.splits)

lemma blank_post_extends:
  assumes ext: "pt_extends root (mem s) (machine_frames s) (mem s1) (machine_frames s1)"
    and F1: "machine_frames s1 = insert a (machine_frames s)" "a \<notin> machine_frames s"
    and used: "unat used1 = unat used + 1"
    and parents: "mset (somes parents1) = add_mset a (mset (somes parents))"
    and none: "walk (mem s) root (va_path va) = None"
    and post: "blank_post va flags root used1 parents1 s1 exit used' parents' s'"
  shows "blank_post va flags root used parents s exit used' parents' s'"
proof -
  have none1: "walk (mem s1) root (va_path va) = None" using ext none by (simp add: pt_extends_def)
  have new: "machine_frames s' - machine_frames s = insert a (machine_frames s' - machine_frames s1)"
    if "machine_frames s1 \<subseteq> machine_frames s'"
    using that F1 by auto
  have card: "card (machine_frames s' - machine_frames s) = Suc (card (machine_frames s' - machine_frames s1))"
    and ms: "mset_set (machine_frames s' - machine_frames s) = add_mset a (mset_set (machine_frames s' - machine_frames s1))"
    if "machine_frames s1 \<subseteq> machine_frames s'"
    unfolding new [OF that] using F1 by (auto simp: card_insert_if)
  have sub: "pt_extends root (mem s1) (machine_frames s1) m F \<Longrightarrow> F \<subseteq> machine_frames s' \<Longrightarrow>
      machine_frames s1 \<subseteq> machine_frames s'" for m F by (auto simp: pt_extends_def)
  show ?thesis
  proof (cases exit)
    case (Inl err)
    with post none1 show ?thesis by (simp add: blank_post_def)
  next
    case (Inr r)
    show ?thesis
    proof (cases r)
      case (Inl err)
      with Inr post have "pt_extends root (mem s1) (machine_frames s1) (mem s') (machine_frames s')"
        by (simp add: blank_post_def)
      with sub Inr Inl post none card ms used parents pt_extends_trans [OF ext] show ?thesis
        by (auto simp: blank_post_def)
    next
      case r: (Inr u)
      with Inr post obtain m1 F1 t b where "pt_extends root (mem s1) (machine_frames s1) m1 F1"
        "machine_frames s' = insert b F1" by (auto simp: blank_post_def)
      with sub have "machine_frames s1 \<subseteq> machine_frames s'" by (metis subset_insertI)
      with Inr r post none card used show ?thesis
        unfolding blank_post_def by (auto intro: pt_extends_trans [OF ext])
    qed
  qed
qed

lemma machine_mem_update [simp]:
  "machine_frames (s\<lparr>mem := m\<rparr>) = machine_frames s" "machine_inv (s\<lparr>mem := m\<rparr>) = machine_inv s"
  by (simp_all add: machine_frames_def machine_inv_def)

text \<open>The last level: the page itself is allocated.\<close>

lemma map_blank_leaf:
  assumes inv: "machine_inv s" and wf: "pt_wf (mem s) root (machine_frames s)"
    and w: "walk (mem s) root (take 3 (va_path va)) = Some current" and used: "unat used + 1 < 2 ^ 64"
  shows "\<exists>exit used' s'.
    map_blank_loop va (child_flags flags) [3] current used parents s = Some (exit, used', parents, s')
    \<and> blank_post va flags root used parents s exit used' parents s'"
proof -
  let ?e = "mem s current (level_index 3 va)"
  note loop = Let_def owned_page_into_raw_def
  have nz: "current \<noteq> 0" using pt_wf_nonzero [OF wf _ w] by simp
  have w': "walk (mem s) root (va_path va) = (if present ?e then Some (address ?e) else None)"
    using w by (subst va_path_split) (simp add: walk_snoc)
  have add: "checked_add used 1 = Some (used + 1)" "unat (used + 1) = unat used + 1"
    using used by (simp_all add: checked_add_def unat_add_small)
  show ?thesis
  proof (cases "present ?e")
    case True
    with nz w' inv show ?thesis by (simp add: loop blank_post_def)
  next
    case False
    obtain r s1 where r: "find_and_reserve_page s = Some (r, s1)"
      using machine_alloc.reserve_total [OF inv] by auto
    show ?thesis
    proof (cases r)
      case (Inl e)
      with machine_alloc.reserve_error [OF inv] r have "s1 = s" by simp
      with False nz add r Inl w' inv wf show ?thesis by (simp add: loop blank_post_def pt_extends_refl)
    next
      case (Inr a)
      from machine_alloc.reserve_frame [OF inv r [unfolded Inr]]
      have a: "a \<notin> machine_frames s" "machine_frames s1 = insert a (machine_frames s)" "frame_address a"
        "mem s1 = (mem s)(a := (\<lambda>_. 0))" "machine_inv s1" by auto
      define s2 where "s2 = s1\<lparr>mem := write_entry (mem s1) current (level_index 3 va)
          ((a AND 0x000FFFFFFFFFF000) OR child_flags flags)\<rparr>"
      have "machine_frames s2 - machine_frames s = {a}" using a(1,2) by (auto simp: s2_def)
      then have "blank_post va flags root used parents s (Inr (Inr ())) (used + 1) parents s2"
        using a w w' False add(2) pt_extends_refl [OF wf]
        unfolding blank_post_def by (auto simp: s2_def intro!: exI [of _ "mem s"] exI [of _ "machine_frames s"])
      moreover have "map_blank_loop va (child_flags flags) [3] current used parents s
          = Some (Inr (Inr ()), used + 1, parents, s2)"
        using False nz add r Inr a(4) by (simp add: loop s2_def)
      ultimately show ?thesis by blast
    qed
  qed
qed

lemma map_blank_loop_post:
  assumes "machine_inv s" "pt_wf (mem s) root (machine_frames s)" "k \<le> 3"
    "walk (mem s) root (take k (va_path va)) = Some current"
    "length parents = 3" "\<And>j. k \<le> j \<Longrightarrow> j < 3 \<Longrightarrow> parents ! j = None" "unat used + (4 - k) < 2 ^ 64"
  shows "\<exists>exit used' parents' s'.
    map_blank_loop va (child_flags flags) (drop k levels) current used parents s = Some (exit, used', parents', s')
    \<and> blank_post va flags root used parents s exit used' parents' s'"
  using assms
proof (induction "3 - k" arbitrary: k current used parents s)
  case 0
  then have k: "k = 3" by simp
  have "drop 3 levels = [3]" by (simp add: levels_def)
  with map_blank_leaf [OF "0.prems"(1,2) "0.prems"(4) [unfolded k]] "0.prems"(7) k show ?case
    by fastforce
next
  case (Suc n)
  then have k: "k < 3" and n: "n = 3 - Suc k" by simp_all
  let ?i = "level_index k va"
  let ?e = "mem s current ?i"
  have nz: "current \<noteq> 0" using pt_wf_nonzero [OF Suc.prems(2) _ Suc.prems(4)] k by simp
  have next_path: "take (Suc k) (va_path va) = take k (va_path va) @ [?i]"
    using k by (simp add: take_Suc_va_path)
  note loop = drop_levels [of k] Let_def owned_page_into_raw_def
  show ?case
  proof (cases "present ?e")
    case True
    then have "walk (mem s) root (take (Suc k) (va_path va)) = Some (address ?e)"
      using Suc.prems(4) by (simp add: next_path walk_snoc)
    from Suc.hyps(1) [OF n Suc.prems(1,2) _ this Suc.prems(5), of used] Suc.prems(6,7) k True nz
    show ?thesis by (simp add: loop)
  next
    case False
    have none: "walk (mem s) root (va_path va) = None"
      using False k Suc.prems(4) by (intro walk_va_path_stop [of k]) auto
    have add: "checked_add used 1 = Some (used + 1)" "unat (used + 1) = unat used + 1"
      using Suc.prems(7) k by (simp_all add: checked_add_def unat_add_small)
    obtain r s1 where r: "find_and_reserve_page s = Some (r, s1)"
      using machine_alloc.reserve_total [OF Suc.prems(1)] by auto
    show ?thesis
    proof (cases r)
      case (Inl e)
      with machine_alloc.reserve_error [OF Suc.prems(1)] r have "s1 = s" by simp
      with False nz add r Inl none k Suc.prems show ?thesis
        by (simp add: loop blank_post_def pt_extends_refl)
    next
      case (Inr a)
      from machine_alloc.reserve_frame [OF Suc.prems(1) r [unfolded Inr]]
      have a: "a \<notin> machine_frames s" "machine_frames s1 = insert a (machine_frames s)" "frame_address a"
        "a \<noteq> 0" "mem s1 = (mem s)(a := (\<lambda>_. 0))" "machine_inv s1" by auto
      let ?e1 = "(a AND 0x000FFFFFFFFFF000) OR READ_WRITE_EXECUTE"
      define s2 where "s2 = s1\<lparr>mem := write_entry (mem s1) current ?i ?e1\<rparr>"
      have s2: "machine_frames s2 = insert a (machine_frames s)" "machine_inv s2"
        using a by (simp_all add: s2_def)
      note link = pt_extends_link [OF Suc.prems(2) a(1,4) table_path_take Suc.prems(4) _ level_index_less False
          parent_entry [OF a(3)]]
      have ext: "pt_extends root (mem s) (machine_frames s) (mem s2) (machine_frames s2)"
        and w2: "walk (mem s2) root (take (Suc k) (va_path va)) = Some a"
        using link k unfolding s2(1) by (simp_all add: s2_def a(5) next_path)
      have p2: "mset (somes (parents[k := Some a])) = add_mset a (mset (somes parents))"
        using Suc.prems(5,6) k by (intro somes_update) auto
      have wf2: "pt_wf (mem s2) root (machine_frames s2)" by (rule pt_extends_wf [OF ext])
      have "(parents[k := Some a]) ! j = None" if "Suc k \<le> j" "j < 3" for j
        using Suc.prems(6) [of j] that by simp
      moreover have "unat (used + 1) + (4 - Suc k) < 2 ^ 64" using Suc.prems(7) k unfolding add(2) by linarith
      ultimately obtain exit used' parents' s' where
        rec: "map_blank_loop va (child_flags flags) (drop (Suc k) levels) a (used + 1) (parents[k := Some a]) s2
          = Some (exit, used', parents', s')"
        and post: "blank_post va flags root (used + 1) (parents[k := Some a]) s2 exit used' parents' s'"
        using Suc.hyps(1) [OF n s2(2) wf2 _ w2, of "parents[k := Some a]" "used + 1"] Suc.prems(5) k by auto
      have "map_blank_loop va (child_flags flags) (drop k levels) current used parents s = Some (exit, used', parents', s')"
        using False nz add r Inr a(5) rec k parent_entry [OF a(3)] by (simp add: loop s2_def)
      with blank_post_extends [OF ext s2(1) a(1) add(2) p2 none post] show ?thesis by blast
    qed
  qed
qed

subsection \<open>Mapping a blank page\<close>

definition leaf_entry :: "memory \<Rightarrow> usize \<Rightarrow> usize \<Rightarrow> page_table_entry option" where
  "leaf_entry m root va =
     (case walk m root (take 3 (va_path va)) of None \<Rightarrow> None | Some t \<Rightarrow> Some (m t (level_index 3 va)))"

lemma pt_wf_mono: "pt_wf m root F \<Longrightarrow> F \<subseteq> F' \<Longrightarrow> pt_wf m root F'"
  by (rule pt_wf_cong_held) auto

lemma translate_cong_held:
  "pt_wf m root F \<Longrightarrow> (\<And>b. b \<in> F \<Longrightarrow> m' b = m b) \<Longrightarrow> translate m' root va = translate m root va"
  unfolding translate_def by (rule walk_cong_held) auto

text \<open>The entry that the walk for an address meets at a level.\<close>

definition level_entry :: "memory \<Rightarrow> usize \<Rightarrow> usize \<Rightarrow> nat \<Rightarrow> page_table_entry option" where
  "level_entry m root va k = (case walk m root (take k (va_path va)) of None \<Rightarrow> None | Some t \<Rightarrow> Some (m t (level_index k va)))"

text \<open>No entry that was present changes.\<close>

lemma map_blank_loop_keeps:
  assumes "machine_inv s" "map_blank_loop va f is current used parents s = Some (r, used', parents', s')"
    "b \<in> machine_frames s" "present (mem s b i)"
  shows "mem s' b i = mem s b i"
  using assms
proof (induction "is" arbitrary: current used parents s)
  case (Cons l "is")
  let ?e = "mem s current (level_index l va)"
  have nz: "current \<noteq> 0" using Cons.prems(2) by (auto simp: read_table_def split: if_splits)
  show ?case
  proof (cases "present ?e")
    case True
    then show ?thesis using Cons.prems nz Cons.IH [OF Cons.prems(1)] by (auto simp: Let_def read_table_def split: if_splits)
  next
    case False
    obtain q s1 where q: "find_and_reserve_page s = Some (q, s1)" using machine_alloc.reserve_total [OF Cons.prems(1)] by auto
    show ?thesis
    proof (cases q)
      case (Inl e)
      with machine_alloc.reserve_error [OF Cons.prems(1)] q have "s1 = s" by simp
      then show ?thesis using Cons.prems(2) False nz q Inl by (auto simp: Let_def bind_eq_Some_conv read_table_def)
    next
      case (Inr a)
      from machine_alloc.reserve_frame [OF Cons.prems(1) q [unfolded Inr]]
      have a: "a \<notin> machine_frames s" "machine_frames s1 = insert a (machine_frames s)" "mem s1 = (mem s)(a := (\<lambda>_. 0))" "machine_inv s1" by auto
      from Cons.prems(2) False nz q Inr obtain used1 parents1 e1 where
        loop: "map_blank_loop va f is (address e1) used1 parents1 (s1\<lparr>mem := write_entry (mem s1) current (level_index l va) e1\<rparr>) = Some (r, used', parents', s')"
        by (auto simp: Let_def bind_eq_Some_conv read_table_def owned_page_into_raw_def a(3))
      have "write_entry (mem s1) current (level_index l va) e1 b i = mem s b i"
        using Cons.prems(3,4) a(1,3) False by (auto simp: write_entry_def)
      then show ?thesis using Cons.IH [OF _ loop] Cons.prems(3,4) a(2,4) by simp
    qed
  qed
qed simp

lemma walk_keeps:
  assumes "pt_wf m root F" "\<And>b i. b \<in> F \<Longrightarrow> present (m b i) \<Longrightarrow> m' b i = m b i" "walk m root (take k (va_path va)) = Some t" "k \<le> 3"
  shows "walk m' root (take k (va_path va)) = Some t"
  using assms(3,4)
proof (induction k arbitrary: t)
  case (Suc k)
  from Suc.prems obtain u where u: "walk m root (take k (va_path va)) = Some u" "present (m u (level_index k va))" "address (m u (level_index k va)) = t"
    by (auto simp: take_Suc_va_path walk_snoc split: option.splits if_splits)
  have "u \<in> F" using pt_wf_held [OF assms(1) _ u(1)] Suc.prems(2) by simp
  then show ?case using Suc.IH [OF u(1)] Suc.prems(2) u(2,3) assms(2) by (simp add: take_Suc_va_path walk_snoc)
qed simp

text \<open>The tables that are created on the way are entered without the bit that lets user mode through.\<close>

lemma bit_parent: "user_accessable ((a AND 0x000FFFFFFFFFF000) OR READ_WRITE_EXECUTE) = False"
  "writable ((a AND 0x000FFFFFFFFFF000) OR READ_WRITE_EXECUTE)" "\<not> no_execute ((a AND 0x000FFFFFFFFFF000) OR READ_WRITE_EXECUTE)"
  unfolding entry_flag_defs bit_or_iff bit_and_iff bit_addr_mask_word READ_WRITE_EXECUTE_def bit_from_data
  by (auto simp: default_page_table_data_def)

lemma map_blank_loop_parents:
  assumes "machine_inv s" "pt_wf (mem s) root (machine_frames s)" "k \<le> 3" "walk (mem s) root (take k (va_path va)) = Some current"
    "map_blank_loop va f (drop k levels) current used parents s = Some (Inr (Inr ()), used', parents', s')" "k \<le> j" "j < 3"
  shows "\<exists>e. level_entry (mem s') root va j = Some e \<and> (level_entry (mem s) root va j = Some e \<and> present e
    \<or> address e \<notin> machine_frames s \<and> writable e \<and> \<not> no_execute e \<and> \<not> user_accessable e)"
  using assms
proof (induction "3 - k" arbitrary: k current used parents s)
  case (Suc n)
  then have k: "k < 3" and n: "n = 3 - Suc k" by simp_all
  let ?i = "level_index k va"
  let ?e = "mem s current ?i"
  have nz: "current \<noteq> 0" using pt_wf_nonzero [OF Suc.prems(2) _ Suc.prems(4)] k by simp
  have held: "current \<in> machine_frames s" using pt_wf_held [OF Suc.prems(2) _ Suc.prems(4)] k by simp
  note loop = drop_levels [of k] Let_def owned_page_into_raw_def
  have keeps: "mem s' b i = mem s b i" if "b \<in> machine_frames s" "present (mem s b i)" for b i
    using map_blank_loop_keeps [OF Suc.prems(1,5) that] .
  have w': "walk (mem s') root (take k (va_path va)) = Some current"
    using walk_keeps [OF Suc.prems(2) keeps Suc.prems(4)] k by simp
  show ?case
  proof (cases "present ?e")
    case True
    then have w: "walk (mem s) root (take (Suc k) (va_path va)) = Some (address ?e)"
      using Suc.prems(4) k by (simp add: take_Suc_va_path walk_snoc)
    have "level_entry (mem s') root va k = Some ?e" "level_entry (mem s) root va k = Some ?e"
      using w' keeps [OF held True] Suc.prems(4) by (simp_all add: level_entry_def)
    moreover have "map_blank_loop va f (drop (Suc k) levels) (address ?e) used parents s = Some (Inr (Inr ()), used', parents', s')"
      using Suc.prems(5) True nz k by (simp add: loop)
    ultimately show ?thesis using Suc.hyps(1) [OF n Suc.prems(1,2) _ w] Suc.prems(6,7) k True by (cases "j = k") auto
  next
    case False
    obtain q s1 where q: "find_and_reserve_page s = Some (q, s1)" using machine_alloc.reserve_total [OF Suc.prems(1)] by auto
    show ?thesis
    proof (cases q)
      case (Inl e)
      then show ?thesis using Suc.prems(5) False nz q k by (auto simp: loop bind_eq_Some_conv read_table_def)
    next
      case (Inr a)
      from machine_alloc.reserve_frame [OF Suc.prems(1) q [unfolded Inr]]
      have a: "a \<notin> machine_frames s" "machine_frames s1 = insert a (machine_frames s)" "frame_address a"
        "a \<noteq> 0" "mem s1 = (mem s)(a := (\<lambda>_. 0))" "machine_inv s1" by auto
      let ?e1 = "(a AND 0x000FFFFFFFFFF000) OR READ_WRITE_EXECUTE"
      define s2 where "s2 = s1\<lparr>mem := write_entry (mem s1) current ?i ?e1\<rparr>"
      have s2: "machine_frames s2 = insert a (machine_frames s)" "machine_inv s2" using a by (simp_all add: s2_def)
      note link = pt_extends_link [OF Suc.prems(2) a(1,4) table_path_take Suc.prems(4) _ level_index_less False parent_entry [OF a(3)]]
      have wf2: "pt_wf (mem s2) root (machine_frames s2)" and w2: "walk (mem s2) root (take (Suc k) (va_path va)) = Some a"
        using link k pt_extends_wf unfolding s2(1) by (simp_all add: s2_def a(5) take_Suc_va_path)
      from Suc.prems(5) False nz q Inr obtain used1 where
        rest: "map_blank_loop va f (drop (Suc k) levels) a used1 (parents[k := Some a]) s2 = Some (Inr (Inr ()), used', parents', s')"
        using parent_entry [OF a(3)] k by (auto simp: loop bind_eq_Some_conv read_table_def a(5) s2_def)
      have e1: "mem s2 current ?i = ?e1" by (simp add: s2_def write_entry_def)
      have zero: "mem s2 a = (\<lambda>_. 0)" using held a(1,5) by (auto simp: s2_def write_entry_def)
      show ?thesis
      proof (cases "j = k")
        case True
        have "mem s' current ?i = ?e1" using map_blank_loop_keeps [OF s2(2) rest, of current ?i] held s2(1) e1 parent_entry [OF a(3)] by simp
        then show ?thesis using True w' parent_entry(2) [OF a(3)] a(1) bit_parent by (auto simp: level_entry_def)
      next
        case j: False
        have "level_entry (mem s2) root va j \<noteq> Some e \<or> \<not> present e" for e
        proof -
          obtain q where "take j (va_path va) = take (Suc k) (va_path va) @ q"
            using j Suc.prems(6) by (metis Suc_leI le_neq_implies_less take_add le_Suc_ex)
          then show ?thesis using w2 walk_zero_frame [of "mem s2" a] zero by (auto simp: level_entry_def walk_append zero present_def split: if_splits)
        qed
        then show ?thesis using Suc.hyps(1) [OF n s2(2) wf2 _ w2 rest] Suc.prems(6,7) j k s2(1) by fastforce
      qed
    qed
  qed
qed simp

lemma blank_post_mapped:
  assumes post: "blank_post va flags root used parents s (Inr (Inr ())) used' parents' s'"
  obtains a where "pt_wf (mem s') root (machine_frames s')" "machine_frames s \<subseteq> machine_frames s'"
    "a \<in> machine_frames s' - machine_frames s" "mem s' a = (\<lambda>_. 0)" "translate (mem s') root va = Some a"
    "leaf_entry (mem s') root va = Some ((a AND 0x000FFFFFFFFFF000) OR child_flags flags)"
    "\<And>va'. va_path va' \<noteq> va_path va \<Longrightarrow> translate (mem s') root va' = translate (mem s) root va'"
proof -
  from post obtain m1 F1 t a where ext: "pt_extends root (mem s) (machine_frames s) m1 F1"
    and t: "walk m1 root (take 3 (va_path va)) = Some t" and a: "a \<notin> F1" "frame_address a"
    and F': "machine_frames s' = insert a F1"
    and m': "mem s' = write_entry (m1(a := (\<lambda>_. 0))) t (level_index 3 va)
        ((a AND 0x000FFFFFFFFFF000) OR child_flags flags)"
    by (auto simp: blank_post_def)
  note wf1 = pt_extends_wf [OF ext]
  let ?m = "m1(a := (\<lambda>_. 0))"
  have same: "?m b = m1 b" if "b \<in> F1" for b using that a(1) by auto
  have wf2: "pt_wf ?m root F1" by (rule pt_wf_cong_held [OF wf1 same]) auto
  have t2: "walk ?m root (take 3 (va_path va)) = Some t"
    by (subst walk_cong_held [OF wf1 same]) (auto simp: t table_path_page_path)
  have "t \<in> F1" by (rule pt_wf_held [OF wf1 _ t]) simp
  with a(1) have "a \<noteq> t" by auto
  have tr: "translate (mem s') root va' = (if va_path va' = va_path va then Some a else translate (mem s) root va')" for va'
    unfolding m' using translate_write_leaf [OF wf2 t2, of _ va'] child_entry [OF a(2), of flags]
      translate_cong_held [OF wf1, of ?m va', OF same] pt_extends_translate [OF ext, of va'] by simp
  have wf3: "pt_wf (mem s') root F1" unfolding m' by (rule pt_wf_write_leaf [OF wf2 _ t2]) simp_all
  have "walk (mem s') root (take 3 (va_path va)) = Some t"
    unfolding m' using t2 by (subst walk_write_entry_other [OF wf2 _ t2]) (simp_all add: table_path_page_path)
  then have "leaf_entry (mem s') root va = Some ((a AND 0x000FFFFFFFFFF000) OR child_flags flags)"
    by (simp add: leaf_entry_def m')
  then show thesis
    using ext F' a(1) \<open>a \<noteq> t\<close> tr pt_wf_mono [OF wf3, of "machine_frames s'"]
    by (intro that [of a]) (auto simp: m' write_entry_def pt_extends_def)
qed

lemma map_blank_page_cases:
  assumes wf: "user_wf pml4 s" and used: "unat used + 4 < 2 ^ 64"
  obtains (exists) "map_blank_page pml4 va flags used s = Some (Inl UserPageAlreadyExists, used, s)"
      "user_translate pml4 s va \<noteq> None"
  | (oom) parents used1 s1 used' s' where
      "map_blank_loop va (child_flags flags) levels pml4 used [None, None, None] s
        = Some (Inr (Inl UserOutOfMemory), used1, parents, s1)"
      "map_blank_page pml4 va flags used s = Some (Inl UserOutOfMemory, used', s')"
      "user_translate pml4 s va = None" "machine_inv s'" "machine_frames s' = machine_frames s"
      "unat used' = unat used + 1" "mem s' = mem s1"
      "pt_extends pml4 (mem s) (machine_frames s) (mem s1) (machine_frames s1)"
  | (mapped) used' s' parents where "map_blank_page pml4 va flags used s = Some (Inr (), used', s')"
      "user_translate pml4 s va = None" "machine_inv s'"
      "unat used' = unat used + card (machine_frames s' - machine_frames s)"
      "blank_post va flags pml4 used [None, None, None] s (Inr (Inr ())) used' parents s'"
      "map_blank_loop va (child_flags flags) levels pml4 used [None, None, None] s = Some (Inr (Inr ()), used', parents, s')"
proof -
  have inv: "machine_inv s" and pt: "pt_wf (mem s) pml4 (machine_frames s)" using wf by (simp_all add: user_wf_def)
  have nones: "[None, None, None] ! j = None" if "j < 3" for j :: nat and x :: "usize option"
    using that by (auto simp: less_Suc_eq numeral_eq_Suc)
  obtain exit used1 parents s1 where
    loop: "map_blank_loop va (child_flags flags) levels pml4 used [None, None, None] s = Some (exit, used1, parents, s1)"
    and post: "blank_post va flags pml4 used [None, None, None] s exit used1 parents s1"
    using map_blank_loop_post [OF inv pt, of 0 va pml4 "[None, None, None]" used flags] used nones by auto
  note defs = map_blank_page_def Let_def child_flags_def [symmetric] loop
  have tr: "user_translate pml4 s va = walk (mem s) pml4 (va_path va)"
    by (simp add: user_translate_def translate_def)
  consider (e) err where "exit = Inl err" | (o) err where "exit = Inr (Inl err)" | (m) "exit = Inr (Inr ())"
    by (metis old.unit.exhaust sum.exhaust)
  then show thesis
  proof cases
    case e
    with post show thesis by (intro exists) (auto simp: blank_post_def defs tr)
  next
    case m
    with post show thesis by (intro mapped [of used1 s1 parents]) (auto simp: blank_post_def defs tr)
  next
    case o
    let ?new = "machine_frames s1 - machine_frames s"
    from post o have p: "err = UserOutOfMemory" "walk (mem s) pml4 (va_path va) = None" "machine_inv s1"
      "pt_extends pml4 (mem s) (machine_frames s) (mem s1) (machine_frames s1)"
      "unat used1 = unat used + card ?new + 1" "mset (somes parents) = mset_set ?new"
      by (auto simp: blank_post_def)
    from p(6) have ps: "distinct (somes parents)" "set (somes parents) = ?new" "length (somes parents) = card ?new"
      using mset_eq_mset_set [of "somes parents" ?new] by auto
    then have le: "set (somes parents) \<subseteq> machine_frames s1" "length (somes parents) \<le> unat used1" using p(5) by auto
    from free_parents_spec [OF p(3) ps(1) le] obtain used' s' where
      f: "free_parents parents used1 s1 = Some (used', s')" "machine_inv s'"
        "machine_frames s' = machine_frames s1 - ?new" "mem s' = mem s1" "unat used1 = unat used' + card ?new"
      unfolding ps(2,3) by blast
    have "machine_frames s1 - ?new = machine_frames s" using p(4) by (auto simp: pt_extends_def)
    then show thesis using p f o loop
      by (intro oom [of used1 parents s1 used' s']) (auto simp: defs tr)
  qed
qed

text \<open>
  C18. \<^verbatim>\<open>map_blank_page\<close> on a well-formed user page table never panics (while the page count is not
  about to overflow). Success means the page was unmapped: it now leads to a cleared frame that was
  free before. The last entry holds that frame with the present, writable and no-execute bits of \<open>flags\<close>, and always the present and the
  user bit, whether \<open>flags\<close> has them or not. Each entry above it is either the one that was there before or leads to a new
  table, and then it is writable and executable but lacks the user bit, so that the processor keeps user mode out of the page. The
  table is well formed, no other translation has changed, and the page count has grown by exactly the number
  of frames taken. A page that is already mapped is reported and nothing changes. When memory runs
  out no translation changes and every frame taken on the way is given back, but the page count
  stays one too high.
\<close>

theorem map_blank_page_correct:
  assumes "user_wf pml4 s" "unat used + 4 < 2 ^ 64"
  shows "\<exists>r used' s'. map_blank_page pml4 va flags used s = Some (r, used', s') \<and> machine_inv s' \<and>
    (case r of
       Inr _ \<Rightarrow> user_wf pml4 s' \<and> user_translate pml4 s va = None
         \<and> (\<exists>a e. user_translate pml4 s' va = Some a \<and> a \<in> machine_frames s' - machine_frames s
              \<and> mem s' a = (\<lambda>_. 0) \<and> leaf_entry (mem s') pml4 va = Some e \<and> user_accessable e
              \<and> writable e = writable flags \<and> no_execute e = no_execute flags
              \<and> e = (a AND 0x000FFFFFFFFFF000) OR (flags AND 0x8000000000000007) OR 5)
         \<and> (\<forall>k<3. \<exists>e. level_entry (mem s') pml4 va k = Some e
              \<and> (level_entry (mem s) pml4 va k = Some e \<and> present e
                 \<or> address e \<notin> machine_frames s \<and> writable e \<and> \<not> no_execute e \<and> \<not> user_accessable e))
         \<and> (\<forall>va'. va' AND 0xFFFFFFFFF000 \<noteq> va AND 0xFFFFFFFFF000 \<longrightarrow>
              user_translate pml4 s' va' = user_translate pml4 s va')
         \<and> machine_frames s \<subseteq> machine_frames s'
         \<and> unat used' = unat used + card (machine_frames s' - machine_frames s)
     | Inl UserPageAlreadyExists \<Rightarrow> s' = s \<and> used' = used \<and> user_translate pml4 s va \<noteq> None
     | Inl UserOutOfMemory \<Rightarrow> user_translate pml4 s va = None
         \<and> (\<forall>va'. user_translate pml4 s' va' = user_translate pml4 s va')
         \<and> machine_frames s' = machine_frames s \<and> unat used' = unat used + 1)"
proof (cases rule: map_blank_page_cases [OF assms, of va flags])
  case 1
  then show ?thesis using assms(1) by (simp add: user_wf_def)
next
  case (2 parents used1 s1 used' s')
  then show ?thesis using pt_extends_translate [OF 2(8)] by (simp add: user_translate_def)
next
  case (3 used' s' parents)
  from blank_post_mapped [OF 3(5)] obtain a where a: "pt_wf (mem s') pml4 (machine_frames s')"
    "machine_frames s \<subseteq> machine_frames s'" "a \<in> machine_frames s' - machine_frames s"
    "mem s' a = (\<lambda>_. 0)" "translate (mem s') pml4 va = Some a"
    "leaf_entry (mem s') pml4 va = Some ((a AND 0x000FFFFFFFFFF000) OR child_flags flags)"
    "\<And>va'. va_path va' \<noteq> va_path va \<Longrightarrow> translate (mem s') pml4 va' = translate (mem s) pml4 va'" by metis
  have "user_accessable ((a AND 0x000FFFFFFFFFF000) OR child_flags flags)"
    "writable ((a AND 0x000FFFFFFFFFF000) OR child_flags flags) = writable flags"
    "no_execute ((a AND 0x000FFFFFFFFFF000) OR child_flags flags) = no_execute flags"
    unfolding entry_flag_defs bit_or_iff bit_and_iff bit_addr_mask_word bit_child_flags by auto
  moreover have "\<forall>k<3. \<exists>e. level_entry (mem s') pml4 va k = Some e
      \<and> (level_entry (mem s) pml4 va k = Some e \<and> present e
         \<or> address e \<notin> machine_frames s \<and> writable e \<and> \<not> no_execute e \<and> \<not> user_accessable e)"
    using assms(1) 3(6) map_blank_loop_parents [of s pml4 0 va pml4 "child_flags flags" used "[None, None, None]" used' parents s']
    by (simp add: user_wf_def)
  moreover have "(a AND 0x000FFFFFFFFFF000) OR child_flags flags = (a AND 0x000FFFFFFFFFF000) OR (flags AND 0x8000000000000007) OR 5"
    by (simp only: child_flags_def)
  ultimately show ?thesis using a 3
    by (auto simp: user_wf_def user_translate_def va_path_eq_iff)
qed

lemma small_user_wf: "user_wf 0x1000 small_machine"
proof -
  have "kernel_root small_allocator = 0x1000"
    by (simp add: kernel_root_def small_allocator_def address_low_frame)
  with small_machine_wf show ?thesis
    by (simp add: user_wf_def kernel_wf_def machine_inv_def machine_frames_def small_machine_def)
qed

theorem map_blank_page_correct_witness:
  "user_wf 0x1000 small_machine
   \<and> (\<exists>r used' s'. map_blank_page 0x1000 0x400000 READ_WRITE 0 small_machine = Some (r, used', s') \<and> machine_inv s')"
  using small_user_wf map_blank_page_correct [OF small_user_wf, of 0 "0x400000" READ_WRITE] by fastforce

text \<open>
  When memory runs out after the first parent table was created, \<^verbatim>\<open>map_blank_page\<close> frees that table
  but leaves the entry that points to it: the page table still leads to a frame that the allocator
  may hand out again.
\<close>

theorem map_blank_page_out_of_memory_dangles:
  assumes wf: "user_wf pml4 s" and used: "unat used + 4 < 2 ^ 64"
    and top: "\<not> present (mem s pml4 (level_index 0 va))"
    and res: "find_and_reserve_page s = Some (Inr a, s0)"
    and oom: "map_blank_page pml4 va flags used s = Some (Inl UserOutOfMemory, used', s')"
  shows "walk (mem s') pml4 [level_index 0 va] = Some a \<and> a \<notin> machine_frames s'"
proof (cases rule: map_blank_page_cases [OF wf used, of va flags])
  case (2 parents used1 s1 used'' s'')
  with oom have s': "mem s' = mem s1" "machine_frames s' = machine_frames s" by auto
  have inv: "machine_inv s" and pt: "pt_wf (mem s) pml4 (machine_frames s)" using wf by (simp_all add: user_wf_def)
  from machine_alloc.reserve_frame [OF inv res] have a: "a \<notin> machine_frames s"
    "machine_frames s0 = insert a (machine_frames s)" "frame_address a" "a \<noteq> 0"
    "mem s0 = (mem s)(a := (\<lambda>_. 0))" "machine_inv s0" by auto
  let ?i = "level_index 0 va"
  let ?e = "(a AND 0x000FFFFFFFFFF000) OR READ_WRITE_EXECUTE"
  define s2 where "s2 = s0\<lparr>mem := write_entry (mem s0) pml4 ?i ?e\<rparr>"
  have nz: "pml4 \<noteq> 0" using pt_wf_nonzero [OF pt, of "[]" pml4] by (simp add: table_path_def)
  have tp: "table_path []" "walk (mem s) pml4 [] = Some pml4" by (simp_all add: table_path_def)
  have s2: "machine_frames s2 = insert a (machine_frames s)" "machine_inv s2" using a by (simp_all add: s2_def)
  have ext: "pt_extends pml4 (mem s) (machine_frames s) (mem s2) (machine_frames s2)"
    and w2: "walk (mem s2) pml4 [?i] = Some a"
    using pt_extends_link [OF pt a(1,4) tp _ level_index_less top parent_entry [OF a(3)]]
    unfolding s2(1) by (simp_all add: s2_def a(5))
  have add: "checked_add used 1 = Some (used + 1)" "unat (used + 1) = unat used + 1"
    using used by (simp_all add: checked_add_def unat_add_small)
  have step: "map_blank_loop va (child_flags flags) levels pml4 used [None, None, None] s =
      map_blank_loop va (child_flags flags) (drop 1 levels) a (used + 1) [Some a, None, None] s2"
    using top nz add res a(5) parent_entry [OF a(3)]
    by (subst (1) drop_levels [of 0, simplified]) (simp add: Let_def owned_page_into_raw_def s2_def)
  have "[Some a, None, None] ! j = None" if "1 \<le> j" "j < 3" for j
    using that by (auto simp: less_Suc_eq numeral_eq_Suc)
  moreover have "take 1 (va_path va) = [?i]" using take_Suc_va_path [of 0 va] by simp
  ultimately have "blank_post va flags pml4 (used + 1) [Some a, None, None] s2 (Inr (Inl UserOutOfMemory)) used1 parents s1"
    using map_blank_loop_post [OF s2(2) pt_extends_wf [OF ext], of 1 va a "[Some a, None, None]" "used + 1" flags]
      w2 used 2(1) [unfolded step] by (auto simp: add(2))
  then have "pt_extends pml4 (mem s2) (machine_frames s2) (mem s1) (machine_frames s1)"
    by (simp add: blank_post_def)
  moreover have "table_path [?i]" using level_index_less [of 0 va] by (simp add: table_path_def)
  ultimately have "walk (mem s1) pml4 [?i] = Some a" using w2 unfolding pt_extends_def by blast
  with a(1) s' show ?thesis by simp
qed (use oom in auto)

text \<open>Eight pages of which only the last is free.\<close>

definition tight_machine :: machine where
  "tight_machine =
     \<lparr>PAGE_ALLOCATOR = Some \<lparr>memory_bitmap = [0xFE], total_pages = 8, free_pages = 1, page_table = 0x1000\<rparr>,
      mem = (\<lambda>_ _. 0)\<rparr>"

lemma tight_machine_wf: "user_wf 0x1000 tight_machine"
proof -
  let ?pa = "\<lparr>memory_bitmap = [0xFE], total_pages = 8, free_pages = 1, page_table = 0x1000\<rparr>"
  have "zero_bits [0xFE] = 1" by code_simp
  moreover have "0 \<in> used_slots [0xFE]" "1 \<in> used_slots [0xFE]"
    by (simp_all add: slots_of_byte bit_simps)
  ultimately have pa: "pa_inv ?pa" "1 \<in> pa_used ?pa"
    by (auto simp: pa_inv_def pa_used_def pa_slots_def)
  have "frame_of 1 = 0x1000" by (simp add: frame_of_def)
  with pa(2) have "0x1000 \<in> pa_frames ?pa" unfolding pa_frames_def by (metis image_eqI)
  then have "pt_wf (\<lambda>_ _. 0) 0x1000 (pa_frames ?pa)" by (intro pt_wf_empty_table) auto
  with pa show ?thesis
    by (simp add: user_wf_def machine_inv_def machine_frames_def tight_machine_def)
qed

lemma tight_machine_reserve:
  "leading_zeros (NOT (0xFE :: u8)) = 7"
  "pai_find_and_reserve_page \<lparr>memory_bitmap = [0xFE], total_pages = 8, free_pages = 1, page_table = pt\<rparr> m
   = Some (Inr 0x7000, \<lparr>memory_bitmap = [0xFF], total_pages = 8, free_pages = 0, page_table = pt\<rparr>, m(0x7000 := (\<lambda>_. 0)))"
  "pai_find_and_reserve_page \<lparr>memory_bitmap = [0xFF], total_pages = 8, free_pages = 0, page_table = pt\<rparr> m
   = Some (Inl ReservePageError, \<lparr>memory_bitmap = [0xFF], total_pages = 8, free_pages = 0, page_table = pt\<rparr>, m)"
proof -
  show lz: "leading_zeros (NOT (0xFE :: u8)) = 7" by code_simp
  then show "pai_find_and_reserve_page \<lparr>memory_bitmap = [0xFE], total_pages = 8, free_pages = 1, page_table = pt\<rparr> m
   = Some (Inr 0x7000, \<lparr>memory_bitmap = [0xFF], total_pages = 8, free_pages = 0, page_table = pt\<rparr>, m(0x7000 := (\<lambda>_. 0)))"
    by (simp add: pai_find_and_reserve_page_def Let_def
      checked_sub_def checked_mul_def checked_add_def BYTE_RATIO_def PAGE_SIZE_def guard_def)
qed (simp add: pai_find_and_reserve_page_def)

lemma tight_machine_out_of_memory:
  "\<exists>used' s'. map_blank_page 0x1000 0x400000 READ_WRITE 0 tight_machine = Some (Inl UserOutOfMemory, used', s')"
proof -
  have "frame_address 0x7000" by (simp add: frame_address_def address_low_frame)
  note ent = parent_entry [OF this, simplified]
  have loop: "\<exists>used1 ps s1. map_blank_loop 0x400000 (child_flags READ_WRITE) levels 0x1000 0 [None, None, None] tight_machine
      = Some (Inr (Inl UserOutOfMemory), used1, ps, s1)"
    by (simp add: levels_def small_machine_levels find_and_reserve_page_def tight_machine_def
        tight_machine_reserve read_table_def write_entry_def Let_def owned_page_into_raw_def ent checked_add_def)
  show ?thesis
  proof (cases rule: map_blank_page_cases [OF tight_machine_wf, of 0 "0x400000" READ_WRITE, simplified])
    case 2
    then show ?thesis by blast
  qed (use loop in \<open>auto simp: map_blank_page_def child_flags_def [symmetric] bind_eq_Some_conv\<close>)
qed

theorem map_blank_page_out_of_memory_dangles_witness:
  "\<exists>used' s'. map_blank_page 0x1000 0x400000 READ_WRITE 0 tight_machine = Some (Inl UserOutOfMemory, used', s')
     \<and> walk (mem s') 0x1000 [0] = Some 0x7000 \<and> 0x7000 \<notin> machine_frames s'"
proof -
  obtain s0 where r: "find_and_reserve_page tight_machine = Some (Inr 0x7000, s0)"
    by (simp add: find_and_reserve_page_def tight_machine_def tight_machine_reserve)
  obtain used' s' where o: "map_blank_page 0x1000 0x400000 READ_WRITE 0 tight_machine
      = Some (Inl UserOutOfMemory, used', s')" using tight_machine_out_of_memory by blast
  have "\<not> present (mem tight_machine 0x1000 (level_index 0 0x400000))" by (simp add: tight_machine_def)
  from map_blank_page_out_of_memory_dangles [OF tight_machine_wf _ this r o] o
  show ?thesis unfolding small_machine_levels by (auto simp del: walk.simps)
qed

subsection \<open>Unmapping a page\<close>

definition no_huge_on_path :: "memory \<Rightarrow> usize \<Rightarrow> usize \<Rightarrow> bool" where
  "no_huge_on_path m root va \<longleftrightarrow>
     (\<forall>j < 4. case walk m root (take j (va_path va)) of None \<Rightarrow> True
        | Some t \<Rightarrow> \<not> huge_page (m t (level_index j va)))"

lemma no_huge_on_pathD:
  "no_huge_on_path m root va \<Longrightarrow> j < 4 \<Longrightarrow> walk m root (take j (va_path va)) = Some t \<Longrightarrow>
     \<not> huge_page (m t (level_index j va))"
  by (fastforce simp: no_huge_on_path_def split: option.splits)

definition path_table :: "memory \<Rightarrow> usize \<Rightarrow> usize \<Rightarrow> nat \<Rightarrow> usize" where
  "path_table m root va j = the (walk m root (take j (va_path va)))"

lemma collect_tables_spec:
  assumes wf: "pt_wf m root F" and huge: "no_huge_on_path m root va"
  shows "k \<le> 4 \<Longrightarrow> walk m root (take k (va_path va)) = Some current \<Longrightarrow>
    collect_tables va (drop k levels) current m =
      Some (if translate m root va = None then None
            else Some (map (\<lambda>j. (level_index j va, path_table m root va j)) [k..<4]))"
proof (induction "4 - k" arbitrary: k current)
  case 0
  then have "k = 4" by simp
  moreover from this "0.prems" have "translate m root va \<noteq> None" by (simp add: translate_def)
  moreover have "drop 4 levels = []" by (simp add: levels_def)
  ultimately show ?case by simp
next
  case (Suc n)
  then have k: "k < 4" and n: "n = 4 - Suc k" by simp_all
  let ?e = "m current (level_index k va)"
  have nz: "current \<noteq> 0" using pt_wf_nonzero [OF wf _ Suc.prems(2)] k by simp
  have nh: "\<not> huge_page ?e" by (rule no_huge_on_pathD [OF huge k Suc.prems(2)])
  have "[k..<4] = k # [Suc k..<4]" using k by (simp add: upt_conv_Cons)
  show ?case
  proof (cases "present ?e")
    case True
    then have "walk m root (take (Suc k) (va_path va)) = Some (address ?e)"
      using Suc.prems(2) k by (simp add: take_Suc_va_path walk_snoc)
    from Suc.hyps(1) [OF n _ this] k True nz nh Suc.prems(2) \<open>[k..<4] = _\<close> show ?thesis
      by (simp add: drop_levels [of k] Let_def guard_def path_table_def)
  next
    case False
    then have "translate m root va = None"
      unfolding translate_def using k Suc.prems(2) by (intro walk_va_path_stop [of k]) auto
    with False k nz nh show ?thesis by (simp add: drop_levels [of k] Let_def guard_def)
  qed
qed

lemma no_huge_strip: "no_huge_on_path m root (va AND 0x000FFFFFFFFFF000) = no_huge_on_path m root va"
  by (simp add: no_huge_on_path_def va_path_strip level_index_strip cong: option.case_cong)

lemma unmap_page_tables:
  assumes "pt_wf (mem s) pml4 F" "no_huge_on_path (mem s) pml4 va"
  shows "unmap_page pml4 va depth s =
    (if translate (mem s) pml4 va = None then Some (0, s)
     else unmap_tables_loop depth 0
       ((level_index 3 va, path_table (mem s) pml4 va 3) # (level_index 2 va, path_table (mem s) pml4 va 2)
        # [(level_index 1 va, path_table (mem s) pml4 va 1), (level_index 0 va, path_table (mem s) pml4 va 0)]) 0 s)"
proof -
  have eq: "map (\<lambda>j. (level_index j (va AND 0x000FFFFFFFFFF000), path_table (mem s) pml4 (va AND 0x000FFFFFFFFFF000) j)) [0..<4]
      = map (\<lambda>j. (level_index j va, path_table (mem s) pml4 va j)) [0..<4]"
    by (rule map_cong) (simp_all add: level_index_strip path_table_def va_path_strip)
  have "[0..<4] = [0, 1, 2, 3 :: nat]" by (simp add: upt_rec)
  with collect_tables_spec [OF assms(1), of "va AND 0x000FFFFFFFFFF000" 0 pml4, unfolded eq] assms(2) show ?thesis
    by (simp add: unmap_page_def no_huge_strip translate_def va_path_strip del: unmap_tables_loop.simps)
qed

lemma walk_prefix_Some: "walk m a (p @ q) = Some b \<Longrightarrow> \<exists>c. walk m a p = Some c"
  by (auto simp: walk_append split: option.splits)

text \<open>The first iteration of the way back clears the entry of the page and frees its frame.\<close>

lemma unmap_leaf_step:
  assumes wf: "user_wf pml4 s" and tr: "user_translate pml4 s va = Some a"
    and a: "a \<in> machine_frames s" "\<not> is_table (mem s) pml4 a"
  defines "t \<equiv> path_table (mem s) pml4 va 3"
  obtains s' where
    "unmap_tables_loop depth 0 ((level_index 3 va, t) # ts) 0 s =
       (if depth = 0 then Some (1, s') else unmap_tables_loop depth 1 ts 1 s')"
    "user_wf pml4 s'" "machine_frames s' = machine_frames s - {a}"
    "mem s' = write_entry (mem s) t (level_index 3 va) 0"
    "walk (mem s) pml4 (take 3 (va_path va)) = Some t"
    "\<And>va'. user_translate pml4 s' va' =
       (if va_path va' = va_path va then None else user_translate pml4 s va')"
    "\<And>b. is_table (mem s') pml4 b \<longleftrightarrow> is_table (mem s) pml4 b"
proof -
  have inv: "machine_inv s" and pt: "pt_wf (mem s) pml4 (machine_frames s)" using wf by (simp_all add: user_wf_def)
  from tr obtain t' where t': "walk (mem s) pml4 (take 3 (va_path va)) = Some t'"
    unfolding user_translate_def translate_def by (subst (asm) va_path_split) (auto dest: walk_prefix_Some)
  then have t: "walk (mem s) pml4 (take 3 (va_path va)) = Some t" by (simp add: t_def path_table_def)
  have nz: "t \<noteq> 0" by (rule pt_wf_nonzero [OF pt _ t]) simp
  have ad: "address (mem s t (level_index 3 va)) = a"
    using tr t unfolding user_translate_def translate_def
    by (subst (asm) va_path_split) (auto simp: walk_snoc split: if_splits)
  let ?s1 = "s\<lparr>mem := write_entry (mem s) t (level_index 3 va) 0\<rparr>"
  have "machine_inv ?s1" "a \<in> machine_frames ?s1" using inv a by simp_all
  from machine_alloc.release_frame [OF this] obtain s' where s': "free_page ?s1 a = Some s'"
    "machine_frames s' = machine_frames s - {a}" "mem s' = write_entry (mem s) t (level_index 3 va) 0" "machine_inv s'"
    by auto
  have it: "is_table (mem s') pml4 b \<longleftrightarrow> is_table (mem s) pml4 b" for b
    unfolding s'(3) by (rule is_table_write_leaf [OF pt _ t]) simp_all
  have "pt_wf (mem s') pml4 (machine_frames s)" unfolding s'(3) by (rule pt_wf_write_leaf [OF pt _ t]) simp_all
  then have wf': "user_wf pml4 s'"
    using s' it a(2) by (simp add: user_wf_def pt_wf_release)
  have tr': "user_translate pml4 s' va' = (if va_path va' = va_path va then None else user_translate pml4 s va')" for va'
    unfolding user_translate_def s'(3) using translate_write_leaf [OF pt t, of 0 va'] by simp
  have "unmap_tables_loop depth 0 ((level_index 3 va, t) # ts) 0 s =
       (if depth = 0 then Some (1, s') else unmap_tables_loop depth 1 ts 1 s')"
    using nz ad s'(1) by (simp add: Let_def ENTRY_ZERO_def checked_add_def unat_eq_zero)
  from that [OF this wf' s'(2,3) t tr' it] show thesis .
qed

lemma small_user_maps:
  "\<exists>used' s'. map_blank_page 0x1000 0x400000 READ_WRITE 0 small_machine = Some (Inr (), used', s')"
proof -
  note fa = small_frame_addresses [folded frame_address_def]
  have loop: "\<exists>used1 ps s1. map_blank_loop 0x400000 (child_flags READ_WRITE) levels 0x1000 0 [None, None, None] small_machine
      = Some (Inr (Inr ()), used1, ps, s1)"
    by (simp add: levels_def small_machine_levels find_and_reserve_page_def small_machine_def small_allocator_def
        small_machine_reserve read_table_def write_entry_def Let_def owned_page_into_raw_def
        frame_address_def [symmetric] parent_entry [OF fa(2), simplified] parent_entry [OF fa(3), simplified]
        parent_entry [OF fa(4), simplified] child_entry [OF fa(5), simplified] checked_add_def)
  then show ?thesis by (auto simp: map_blank_page_def child_flags_def [symmetric])
qed

end
