(* ===== verification/User_Tasks.thy ===== *)
theory User_Tasks
  imports User_Paging
begin

text \<open>
  The user page mapper beyond single pages: unmapping with a check of parent tables, the mapping and
  unmapping tasks, the operations on ranges and the creation of an address space.
\<close>

subsection \<open>A machine with two mapped pages\<close>

text \<open>
  Pages 2, 3 and 4 are the tables below the top-level table in page 1; pages 5 and 6 are mapped at
  \<open>0x400000\<close> and \<open>0x401000\<close>; page 7 is free.
\<close>

definition mapped_memory :: memory where
  "mapped_memory =
     (let m1 = write_entry (\<lambda>_ _. 0) 0x1000 0 0x2003;
          m2 = write_entry m1 0x2000 0 0x3003;
          m3 = write_entry m2 0x3000 2 0x4003;
          m4 = write_entry m3 0x4000 0 0x5007
      in write_entry m4 0x4000 1 0x6007)"

definition mapped_machine :: machine where
  "mapped_machine =
     \<lparr>PAGE_ALLOCATOR = Some \<lparr>memory_bitmap = [0xFE], total_pages = 8, free_pages = 1, page_table = 0x1000\<rparr>,
      mem = mapped_memory\<rparr>"

lemma mapped_entries:
  "present 0x2003" "address 0x2003 = 0x2000" "present 0x3003" "address 0x3003 = 0x3000"
  "present 0x4003" "address 0x4003 = 0x4000" "present 0x5007" "address 0x5007 = 0x5000"
  "present 0x6007" "address 0x6007 = 0x6000"
  by (simp_all add: present_def address_def address_unextended_def)

lemma mapped_machine_used:
  "pa_used \<lparr>memory_bitmap = [0xFE], total_pages = 8, free_pages = 1, page_table = 0x1000\<rparr> = {1, 2, 3, 4, 5, 6}"
proof -
  have "x = 6" if "bit (254 :: int) (7 - x)" "1 \<le> x" "x < 8" "x \<notin> {1, 2, 3, 4, 5}" for x :: nat
  proof -
    have "x = 6 \<or> x = 7" using that(2-4) by auto
    then show ?thesis using that(1) by auto
  qed
  then show ?thesis by (auto simp: pa_used_def pa_slots_def slots_of_byte bit_simps)
qed

lemma mapped_machine_frames: "machine_frames mapped_machine = {0x1000, 0x2000, 0x3000, 0x4000, 0x5000, 0x6000}"
  by (simp add: machine_frames_def mapped_machine_def pa_frames_def frame_of_def mapped_machine_used)

lemma write_entry_frame: "b \<noteq> t \<Longrightarrow> write_entry m t i e b = m b"
  by (simp add: write_entry_def)

lemma link_blank_table:
  assumes "pt_wf m root F" "table_path p" "walk m root p = Some t" "a \<notin> F" "a \<noteq> 0" "m a = (\<lambda>_. 0)"
    "length p < 3" "i < 512" "\<not> present (m t i)" "present e" "address e = a"
  shows "pt_wf (write_entry m t i e) root (insert a F)" "walk (write_entry m t i e) root (p @ [i]) = Some a"
proof -
  have "m(a := (\<lambda>_. 0)) = m" using assms(6) by (rule fun_upd_idem)
  with pt_extends_link [OF assms(1,4,5,2,3,7-11)] show
    "pt_wf (write_entry m t i e) root (insert a F)" "walk (write_entry m t i e) root (p @ [i]) = Some a"
    by (simp_all add: pt_extends_wf)
qed

lemma mapped_memory_tables:
  "pt_wf mapped_memory 0x1000 {0x1000, 0x2000, 0x3000, 0x4000}"
  "walk mapped_memory 0x1000 [0, 0, 2] = Some 0x4000"
proof -
  let ?m1 = "write_entry (\<lambda>_ _. 0) 0x1000 0 0x2003"
  let ?m2 = "write_entry ?m1 0x2000 0 0x3003"
  let ?m3 = "write_entry ?m2 0x3000 2 0x4003"
  let ?m4 = "write_entry ?m3 0x4000 0 0x5007"
  have tp: "table_path [] \<and> table_path [0] \<and> table_path [0, 0] \<and> table_path [0, 0, 2]"
    by (simp add: table_path_def)
  have wf0: "pt_wf (\<lambda>_ _. 0) 0x1000 {0x1000}" and w0: "walk (\<lambda>_ _. 0) 0x1000 [] = Some 0x1000"
    by (rule pt_wf_empty_table) auto
  note side = tp write_entry_frame mapped_entries
  have wf1: "pt_wf ?m1 0x1000 {0x2000, 0x1000}" and w1: "walk ?m1 0x1000 [0] = Some 0x2000"
    using link_blank_table [OF wf0 _ w0, of "0x2000" 0 "0x2003"] by (simp_all add: side del: walk.simps)
  have wf2: "pt_wf ?m2 0x1000 {0x3000, 0x2000, 0x1000}" and w2: "walk ?m2 0x1000 [0, 0] = Some 0x3000"
    using link_blank_table [OF wf1 _ w1, of "0x3000" 0 "0x3003"] by (simp_all add: side del: walk.simps)
  have wf3: "pt_wf ?m3 0x1000 {0x4000, 0x3000, 0x2000, 0x1000}" and w3: "walk ?m3 0x1000 [0, 0, 2] = Some 0x4000"
    using link_blank_table [OF wf2 _ w2, of "0x4000" 2 "0x4003"] by (simp_all add: side del: walk.simps)
  have wf4: "pt_wf ?m4 0x1000 {0x4000, 0x3000, 0x2000, 0x1000}"
    by (rule pt_wf_write_leaf [OF wf3 _ w3]) (simp_all add: tp)
  have w4: "walk ?m4 0x1000 [0, 0, 2] = Some 0x4000"
    by (subst walk_write_entry_other [OF wf3 _ w3]) (use tp w3 in \<open>simp_all add: table_path_page_path del: walk.simps\<close>)
  have "pt_wf (write_entry ?m4 0x4000 1 0x6007) 0x1000 {0x4000, 0x3000, 0x2000, 0x1000}"
    by (rule pt_wf_write_leaf [OF wf4 _ w4]) (simp_all add: tp)
  then show "pt_wf mapped_memory 0x1000 {0x1000, 0x2000, 0x3000, 0x4000}"
    by (simp add: mapped_memory_def insert_commute)
  show "walk mapped_memory 0x1000 [0, 0, 2] = Some 0x4000"
    unfolding mapped_memory_def Let_def
    by (subst walk_write_entry_other [OF wf4 _ w4]) (use tp w4 in \<open>simp_all add: table_path_page_path del: walk.simps\<close>)
qed

lemma mapped_machine_wf: "user_wf 0x1000 mapped_machine"
proof -
  have "zero_bits [0xFE] = 1" by code_simp
  moreover have "0 \<in> used_slots [0xFE]" by (simp add: slots_of_byte bit_simps)
  ultimately have "machine_inv mapped_machine"
    by (simp add: machine_inv_def mapped_machine_def pa_inv_def)
  moreover have "pt_wf mapped_memory 0x1000 (machine_frames mapped_machine)"
    by (rule pt_wf_mono [OF mapped_memory_tables(1)]) (auto simp: mapped_machine_frames)
  ultimately show ?thesis by (simp add: user_wf_def mapped_machine_def)
qed

lemma mapped_levels:
  "level_index 0 0x401000 = 0" "level_index (Suc 0) 0x401000 = 0" "level_index 2 0x401000 = 2"
  "level_index 3 0x401000 = 1" "level_index 3 0x400000 = 0"
  by (simp_all add: level_index_def LEVEL_MASKS_def)

lemma mapped_paths:
  "va_path 0x400000 = [0, 0, 2, 0]" "va_path 0x401000 = [0, 0, 2, 1]"
  by (simp_all add: va_path_def levels_def mapped_levels small_machine_levels)

lemma mapped_translations:
  "user_translate 0x1000 mapped_machine 0x400000 = Some 0x5000"
  "user_translate 0x1000 mapped_machine 0x401000 = Some 0x6000"
  by (simp_all add: user_translate_def translate_def mapped_paths mapped_machine_def mapped_memory_def
      write_entry_def mapped_entries)

lemma all_less_4: "(\<forall>j < 4 :: nat. P j) \<longleftrightarrow> P 0 \<and> P 1 \<and> P 2 \<and> P 3"
proof -
  have "j = 0 \<or> j = 1 \<or> j = 2 \<or> j = 3" if "j < 4" for j :: nat using that by linarith
  then show ?thesis by auto
qed

lemma mapped_not_huge:
  "no_huge_on_path (mem mapped_machine) 0x1000 0x400000" "no_huge_on_path (mem mapped_machine) 0x1000 0x401000"
  unfolding no_huge_on_path_def all_less_4
  by (simp_all add: mapped_paths mapped_machine_def mapped_memory_def write_entry_def
      mapped_entries huge_page_def mapped_levels small_machine_levels)

lemma mapped_not_tables: "\<not> is_table (mem mapped_machine) 0x1000 0x5000" "\<not> is_table (mem mapped_machine) 0x1000 0x6000"
  using pt_wf_held [OF mapped_memory_tables(1)]
  by (fastforce simp: is_table_def mapped_machine_def)+

subsection \<open>Unmapping a page\<close>

text \<open>
  C21. \<^verbatim>\<open>unmap_page\<close> that is not asked to check parent tables removes exactly one translation, frees exactly
  the frame of that page and reports one page; of a page that is not mapped, it changes nothing and
  reports none.
\<close>

theorem unmap_page_correct:
  assumes "user_wf pml4 s" "no_huge_on_path (mem s) pml4 va"
    and "\<And>a. user_translate pml4 s va = Some a \<Longrightarrow> a \<in> machine_frames s \<and> \<not> is_table (mem s) pml4 a"
  shows "\<exists>n s'. unmap_page pml4 va 0 s = Some (n, s') \<and> user_wf pml4 s'
    \<and> n = (if user_translate pml4 s va = None then 0 else 1)
    \<and> (user_translate pml4 s va = None \<longrightarrow> s' = s)
    \<and> machine_frames s' = machine_frames s - set_option (user_translate pml4 s va)
    \<and> (\<forall>va'. user_translate pml4 s' va' =
         (if va' AND 0xFFFFFFFFF000 = va AND 0xFFFFFFFFF000 then None else user_translate pml4 s va'))"
proof (cases "user_translate pml4 s va")
  case None
  have "user_translate pml4 s va' = None" if "va_path va' = va_path va" for va'
    using None that by (simp add: user_translate_def translate_def)
  moreover have "unmap_page pml4 va 0 s = Some (0, s)"
    using None assms(1) unmap_page_tables [OF _ assms(2), of "machine_frames s" 0]
    by (simp add: user_wf_def user_translate_def)
  ultimately show ?thesis using None assms(1) by (auto simp: va_path_eq_iff)
next
  case (Some a)
  have pt: "pt_wf (mem s) pml4 (machine_frames s)" using assms(1) by (simp add: user_wf_def)
  from assms(3) [OF Some] have a: "a \<in> machine_frames s" "\<not> is_table (mem s) pml4 a" by auto
  from unmap_leaf_step [OF assms(1) Some a, of 0] obtain s' where
    "unmap_tables_loop 0 0 ((level_index 3 va, path_table (mem s) pml4 va 3)
      # (level_index 2 va, path_table (mem s) pml4 va 2)
      # [(level_index 1 va, path_table (mem s) pml4 va 1), (level_index 0 va, path_table (mem s) pml4 va 0)]) 0 s
      = Some (1, s')" "user_wf pml4 s'" "machine_frames s' = machine_frames s - {a}"
    "\<And>va'. user_translate pml4 s' va' = (if va_path va' = va_path va then None else user_translate pml4 s va')"
    by metis
  with Some unmap_page_tables [OF pt assms(2), of 0] show ?thesis
    by (simp add: va_path_eq_iff user_translate_def del: unmap_tables_loop.simps)
qed

theorem unmap_page_correct_witness:
  "\<exists>s'. unmap_page 0x1000 0x400000 0 mapped_machine = Some (1, s') \<and> user_wf 0x1000 s'
     \<and> machine_frames s' = {0x1000, 0x2000, 0x3000, 0x4000, 0x6000}
     \<and> user_translate 0x1000 s' 0x401000 = Some 0x6000"
proof -
  have eq: "\<And>va'. (va' AND 0xFFFFFFFFF000 = 0x400000 AND 0xFFFFFFFFF000) \<longleftrightarrow> va_path va' = [0, 0, 2, 0]"
    using va_path_eq_iff [of _ "0x400000"] by (simp add: mapped_paths)
  from unmap_page_correct [OF mapped_machine_wf mapped_not_huge(1)] obtain s' where
    "unmap_page 0x1000 0x400000 0 mapped_machine = Some (1, s')" "user_wf 0x1000 s'"
    "machine_frames s' = machine_frames mapped_machine - {0x5000}"
    "\<forall>va'. user_translate 0x1000 s' va' =
       (if va_path va' = [0, 0, 2, 0] then None else user_translate 0x1000 mapped_machine va')"
    unfolding eq by (auto simp: mapped_translations mapped_machine_frames mapped_not_tables)
  moreover have "machine_frames mapped_machine - {0x5000} = {0x1000, 0x2000, 0x3000, 0x4000, 0x6000}"
    by (auto simp: mapped_machine_frames)
  ultimately show ?thesis by (auto simp: mapped_paths mapped_translations)
qed

subsection \<open>Freeing a table\<close>

lemma walk_clear_entry:
  assumes "pt_wf m root F" "table_path p" "walk m root p = Some t" "page_path q"
  shows "walk (write_entry m t i 0) root q =
    (if take (Suc (length p)) q = p @ [i] then None else walk m root q)"
proof (cases "take (Suc (length p)) q = p @ [i]")
  case True
  then obtain r where "q = p @ i # r" by (metis append.assoc append_Cons append_Nil append_take_drop_id)
  with walk_write_entry_through [OF assms(1-3), of i 0 r] True show ?thesis by simp
qed (use walk_write_entry_other [OF assms] in simp)

lemma pt_wf_clear_table:
  assumes wf: "pt_wf m root F" and p: "table_path (p @ [i])" "walk m root p = Some t" "walk m root (p @ [i]) = Some u"
  shows "pt_wf (write_entry m t i 0) root (F - {u})"
proof -
  have tp: "table_path p" using p(1) by (rule table_path_prefix)
  have w: "walk (write_entry m t i 0) root q = (if take (Suc (length p)) q = p @ [i] then None else walk m root q)"
    if "table_path q" for q
    using walk_clear_entry [OF wf tp p(2)] that by (simp add: table_path_page_path)
  have only: "q = p @ [i]" if "table_path q" "walk m root q = Some u" for q
    by (rule pt_wf_inj [OF wf that(1) p(1) that(2) p(3)])
  have "a \<noteq> u" if "table_path q" "walk (write_entry m t i 0) root q = Some a" for q a
  proof
    assume "a = u"
    with that w [OF that(1)] only [OF that(1)] show False by (simp split: if_splits)
  qed
  moreover have "walk m root q = Some a" if "table_path q" "walk (write_entry m t i 0) root q = Some a" for q a
    using that w [OF that(1)] by (simp split: if_splits)
  ultimately show ?thesis
    using wf unfolding pt_wf_def by (metis Diff_iff singletonD)
qed

lemma unmap_page_frees_table:
  assumes wf: "user_wf pml4 s" and huge: "no_huge_on_path (mem s) pml4 va"
    and tr: "user_translate pml4 s va = Some a" and a: "a \<in> machine_frames s" "\<not> is_table (mem s) pml4 a"
  obtains s' where "unmap_page pml4 va 1 s = Some (2, s')" "user_wf pml4 s'"
    "machine_frames s' = machine_frames s - {a, path_table (mem s) pml4 va 3}"
    "\<And>va'. user_translate pml4 s' va' =
       (if take 3 (va_path va') = take 3 (va_path va) then None else user_translate pml4 s va')"
    "mem s' = write_entry (write_entry (mem s) (path_table (mem s) pml4 va 3) (level_index 3 va) 0)
       (path_table (mem s) pml4 va 2) (level_index 2 va) 0"
proof -
  have pt: "pt_wf (mem s) pml4 (machine_frames s)" using wf by (simp add: user_wf_def)
  let ?t3 = "path_table (mem s) pml4 va 3" and ?t2 = "path_table (mem s) pml4 va 2"
  let ?ts = "[(level_index 1 va, path_table (mem s) pml4 va 1), (level_index 0 va, path_table (mem s) pml4 va 0)]"
  from unmap_leaf_step [OF wf tr a, of 1 "(level_index 2 va, ?t2) # ?ts"] obtain s1 where
    s1: "unmap_tables_loop 1 0 ((level_index 3 va, ?t3) # (level_index 2 va, ?t2) # ?ts) 0 s =
       unmap_tables_loop 1 1 ((level_index 2 va, ?t2) # ?ts) 1 s1"
    "user_wf pml4 s1" "machine_frames s1 = machine_frames s - {a}"
    "mem s1 = write_entry (mem s) ?t3 (level_index 3 va) 0"
    "walk (mem s) pml4 (take 3 (va_path va)) = Some ?t3"
    and tr1: "\<And>va'. user_translate pml4 s1 va' =
       (if va_path va' = va_path va then None else user_translate pml4 s va')" by (metis zero_neq_one)
  have pt1: "pt_wf (mem s1) pml4 (machine_frames s1)" and inv1: "machine_inv s1"
    using s1(2) by (simp_all add: user_wf_def)
  have t3: "take 3 (va_path va) = take 2 (va_path va) @ [level_index 2 va]"
    using take_Suc_va_path [of 2 va] by simp
  have keep: "walk (mem s1) pml4 (take j (va_path va)) = walk (mem s) pml4 (take j (va_path va))" if "j \<le> 3" for j
    unfolding s1(4) using that by (intro walk_write_entry_other [OF pt _ s1(5)])
      (auto simp: table_path_page_path dest: arg_cong [of _ _ length])
  from s1(5) obtain u where u: "walk (mem s) pml4 (take 2 (va_path va)) = Some u"
    unfolding t3 by (auto dest: walk_prefix_Some)
  then have "u = ?t2" by (simp add: path_table_def)
  with u keep [of 2] have w2: "walk (mem s1) pml4 (take 2 (va_path va)) = Some ?t2" by simp
  have w3: "walk (mem s1) pml4 (take 2 (va_path va) @ [level_index 2 va]) = Some ?t3"
    using keep [of 3] s1(5) by (simp add: t3)
  have ad: "address (mem s1 ?t2 (level_index 2 va)) = ?t3" using w2 w3 by (simp add: walk_snoc split: if_splits)
  have nz: "?t2 \<noteq> 0" by (rule pt_wf_nonzero [OF pt1 _ w2]) simp
  let ?s2 = "s1\<lparr>mem := write_entry (mem s1) ?t2 (level_index 2 va) 0\<rparr>"
  have tp3: "table_path (take 2 (va_path va) @ [level_index 2 va])" using t3 table_path_take [of 3 va] by simp
  have "?t3 \<in> machine_frames ?s2" using pt_wf_held [OF pt1 tp3 w3] by simp
  with inv1 machine_alloc.release_frame [of ?s2 ?t3] obtain s' where s': "free_page ?s2 ?t3 = Some s'"
    "machine_frames s' = machine_frames s1 - {?t3}" "mem s' = write_entry (mem s1) ?t2 (level_index 2 va) 0" "machine_inv s'"
    by auto
  have "unmap_tables_loop 1 1 ((level_index 2 va, ?t2) # ?ts) 1 s1 = Some (2, s')"
    using nz ad s'(1) by (simp add: Let_def ENTRY_ZERO_def checked_add_def)
  with s1(1) unmap_page_tables [OF pt huge, of 1] tr have run: "unmap_page pml4 va 1 s = Some (2, s')"
    by (simp add: user_translate_def del: unmap_tables_loop.simps)
  have wf': "user_wf pml4 s'"
    using pt_wf_clear_table [OF pt1 tp3 w2 w3] s'(2-4) by (simp add: user_wf_def)
  have tr': "user_translate pml4 s' va' =
       (if take 3 (va_path va') = take 3 (va_path va) then None else user_translate pml4 s va')" for va'
    using walk_clear_entry [OF pt1 _ w2, of "va_path va'"] tr1 [of va']
    by (auto simp: user_translate_def translate_def s'(3) t3)
  have F': "machine_frames s' = machine_frames s - {a, ?t3}" using s'(2) s1(3) by auto
  from that [OF run wf' F' tr'] s'(3) s1(4) show thesis by simp
qed

text \<open>
  \<^verbatim>\<open>unmap_page\<close> that is asked to check one parent table frees the last-level table without looking
  whether it is empty, although its documentation says that it checks: every other page of that
  table loses its translation too, while the frame it was mapped to stays in use.
\<close>

theorem unmap_page_drops_neighbours:
  assumes "user_wf pml4 s" "no_huge_on_path (mem s) pml4 va" "user_translate pml4 s va = Some a"
    "a \<in> machine_frames s" "\<not> is_table (mem s) pml4 a"
    and "take 3 (va_path va') = take 3 (va_path va)" "user_translate pml4 s va' = Some b"
    "b \<in> machine_frames s" "\<not> is_table (mem s) pml4 b" "b \<noteq> a"
  shows "\<exists>s'. unmap_page pml4 va 1 s = Some (2, s') \<and> user_translate pml4 s' va' = None \<and> b \<in> machine_frames s'"
proof -
  have "walk (mem s) pml4 (take 3 (va_path va)) \<noteq> None"
    using assms(3) unfolding user_translate_def translate_def
    by (subst (asm) va_path_split) (auto dest: walk_prefix_Some)
  then have "is_table (mem s) pml4 (path_table (mem s) pml4 va 3)"
    unfolding is_table_def path_table_def by (metis option.collapse order_refl table_path_take)
  with assms(9) have "b \<noteq> path_table (mem s) pml4 va 3" by auto
  with unmap_page_frees_table [OF assms(1-5)] assms(6-10) show ?thesis by (metis Diff_iff empty_iff insert_iff)
qed

theorem unmap_page_drops_neighbours_witness:
  "\<exists>s'. unmap_page 0x1000 0x400000 1 mapped_machine = Some (2, s')
     \<and> user_translate 0x1000 s' 0x401000 = None \<and> 0x6000 \<in> machine_frames s'"
  by (rule unmap_page_drops_neighbours [OF mapped_machine_wf mapped_not_huge(1) mapped_translations(1) _ mapped_not_tables(1)
        _ mapped_translations(2) _ mapped_not_tables(2)])
    (simp_all add: mapped_machine_frames mapped_paths)

subsection \<open>The unmapping task\<close>

lemma level_mask_eq_iff:
  assumes "i < 4"
  shows "a AND LEVEL_MASKS ! i = b AND LEVEL_MASKS ! i \<longleftrightarrow> level_index i a = level_index i b"
proof -
  define k where "k = (3 - i) * 9 + 12"
  have "i = 0 \<or> i = 1 \<or> i = 2 \<or> i = 3" using assms by auto
  then have m: "LEVEL_MASKS ! i = push_bit k (mask 9)" "k + 9 \<le> 48"
    by (auto simp: k_def LEVEL_MASKS_def mask_eq_exp_minus_1 push_bit_eq_mult)
  have bits: "bit (x AND LEVEL_MASKS ! i) n \<longleftrightarrow> k \<le> n \<and> n < k + 9 \<and> bit x n" for x :: usize and n
  proof -
    have "n - k < 64" if "n < k + 9" using that by linarith
    moreover have "n - k < 9 \<longleftrightarrow> n < k + 9" if "k \<le> n" using that by linarith
    ultimately show ?thesis
      unfolding m(1) bit_and_iff bit_push_bit_iff bit_mask_iff possible_bit_word
      by (auto dest: bit_imp_le_length)
  qed
  have ti: "bit (take_bit 9 (drop_bit k x)) n \<longleftrightarrow> n < 9 \<and> bit x (k + n)" for x :: usize and n
    by (auto simp: bit_simps)
  have "a AND LEVEL_MASKS ! i = b AND LEVEL_MASKS ! i \<longleftrightarrow> take_bit 9 (drop_bit k a) = take_bit 9 (drop_bit k b)"
  proof
    assume eq: "a AND LEVEL_MASKS ! i = b AND LEVEL_MASKS ! i"
    show "take_bit 9 (drop_bit k a) = take_bit 9 (drop_bit k b)"
    proof (rule bit_word_eqI)
      fix n
      have "bit (a AND LEVEL_MASKS ! i) (k + n) = bit (b AND LEVEL_MASKS ! i) (k + n)" by (simp only: eq)
      then show "bit (take_bit 9 (drop_bit k a)) n = bit (take_bit 9 (drop_bit k b)) n"
        unfolding bits ti by auto
    qed
  next
    assume eq: "take_bit 9 (drop_bit k a) = take_bit 9 (drop_bit k b)"
    show "a AND LEVEL_MASKS ! i = b AND LEVEL_MASKS ! i"
    proof (rule bit_word_eqI)
      fix n
      show "bit (a AND LEVEL_MASKS ! i) n = bit (b AND LEVEL_MASKS ! i) n"
        using ti [of a "n - k"] ti [of b "n - k"] unfolding eq bits by auto
    qed
  qed
  then show ?thesis by (simp add: level_index_take_bit [OF assms] k_def word_unat_eq_iff)
qed

lemma changed_level_depth_same_table:
  assumes "take 3 (va_path a) = take 3 (va_path b)" "va_path a \<noteq> va_path b"
  shows "changed_level_depth 0 LEVEL_MASKS a b = 1"
proof -
  have "level_index 0 a = level_index 0 b" "level_index 1 a = level_index 1 b" "level_index 2 a = level_index 2 b"
    "level_index 3 a \<noteq> level_index 3 b"
    using assms by (auto simp: va_path_def levels_def)
  then have "a AND LEVEL_MASKS ! 0 = b AND LEVEL_MASKS ! 0" "a AND LEVEL_MASKS ! 1 = b AND LEVEL_MASKS ! 1"
    "a AND LEVEL_MASKS ! 2 = b AND LEVEL_MASKS ! 2" "a AND LEVEL_MASKS ! 3 \<noteq> b AND LEVEL_MASKS ! 3"
    by (simp_all add: level_mask_eq_iff)
  then show ?thesis by (simp add: LEVEL_MASKS_def)
qed

lemma no_huge_clear:
  assumes wf: "pt_wf m root F" "table_path p" "walk m root p = Some t" and huge: "no_huge_on_path m root va"
  shows "no_huge_on_path (write_entry m t i 0) root va"
  unfolding no_huge_on_path_def
proof (intro allI impI)
  fix j :: nat assume j: "j < 4"
  let ?m = "write_entry m t i 0"
  show "case walk ?m root (take j (va_path va)) of None \<Rightarrow> True | Some u \<Rightarrow> \<not> huge_page (?m u (level_index j va))"
  proof (cases "walk ?m root (take j (va_path va))")
    case (Some u)
    have "page_path (take j (va_path va))" using j by (simp add: table_path_page_path)
    from walk_clear_entry [OF wf this, of i] Some have "walk m root (take j (va_path va)) = Some u"
      by (simp split: if_splits)
    from no_huge_on_pathD [OF huge j this] Some show ?thesis
      by (auto simp: write_entry_def huge_page_def)
  qed simp
qed

lemma level_index_3: "level_index 3 va = unat va div 4096 mod 512"
  by (simp add: level_index_take_bit drop_bit_eq_div take_bit_eq_mod unat_div unat_mod)

lemma next_page_path:
  assumes "unat a + 4096 < 2 ^ 64"
  shows "checked_add a 4096 = Some (a + 4096)" "va_path (a + 4096) \<noteq> va_path a"
proof -
  from assms show "checked_add a 4096 = Some (a + 4096)" by (simp add: checked_add_def)
  have "unat (a + 4096) = unat a + 4096" using assms by (subst unat_add_small) auto
  then have "level_index 3 (a + 4096) = Suc (unat a div 4096) mod 512"
    using div_add_self2 [of 4096 "unat a"] by (simp add: level_index_3)
  then have "level_index 3 (a + 4096) \<noteq> level_index 3 a" by (simp add: level_index_3 mod_Suc)
  then show "va_path (a + 4096) \<noteq> va_path a" 
    using nth_va_path [of 3 a] nth_va_path [of 3 "a + 4096"] by force
qed

lemma unmap_mem_task_two_steps:
  assumes "checked_add start 4096 = Some n1" "checked_add n1 4096 = Some n2"
    "changed_level_depth 0 LEVEL_MASKS start n1 = d1" "changed_level_depth 0 LEVEL_MASKS n1 n2 = d2"
    "unmap_page pml4 start d1 s = Some (2, s1)" "unmap_page pml4 n1 d2 s1 = Some (0, s2)"
  shows "unmap_mem_task_run [False, False] pml4 (unmap_mem_task_new start 2) s =
    Some (Some (Ready 2), \<lparr>um_current_address = n2, um_pages_left = 0, um_pages_freed = 2\<rparr>, s2)"
proof -
  have "checked_add 0 2 = Some (2 :: usize)" "checked_add 2 0 = Some (2 :: usize)"
    "checked_sub 2 1 = Some (1 :: usize)" "checked_sub 1 1 = Some (0 :: usize)"
    by (simp_all add: checked_add_def checked_sub_def)
  with assms show ?thesis by (simp add: unmap_mem_task_new_def Let_def)
qed

text \<open>
  The task that unmaps two neighbouring pages of one last-level table ends after two iterations
  and reports two freed pages, but it has freed the table instead of the second page: the frame of the
  second page stays in use and nothing maps it any more.
\<close>

theorem unmap_mem_task_leaks:
  assumes wf: "user_wf pml4 s" and room: "unat start + 2 * 4096 < 2 ^ 64"
    and same: "take 3 (va_path (start + 4096)) = take 3 (va_path start)"
      "take 3 (va_path (start + 4096 + 4096)) = take 3 (va_path start)"
    and huge: "no_huge_on_path (mem s) pml4 start" "no_huge_on_path (mem s) pml4 (start + 4096)"
    and a: "user_translate pml4 s start = Some a" "a \<in> machine_frames s" "\<not> is_table (mem s) pml4 a"
    and b: "user_translate pml4 s (start + 4096) = Some b" "b \<in> machine_frames s" "\<not> is_table (mem s) pml4 b" "b \<noteq> a"
  shows "\<exists>task s'. unmap_mem_task_run [False, False] pml4 (unmap_mem_task_new start 2) s = Some (Some (Ready 2), task, s')
    \<and> user_wf pml4 s' \<and> user_translate pml4 s' (start + 4096) = None \<and> b \<in> machine_frames s'"
proof -
  let ?t3 = "path_table (mem s) pml4 start 3" and ?t2 = "path_table (mem s) pml4 start 2"
  have pt: "pt_wf (mem s) pml4 (machine_frames s)" using wf by (simp add: user_wf_def)
  from a(1) have "walk (mem s) pml4 (take 3 (va_path start)) \<noteq> None"
    unfolding user_translate_def translate_def by (subst (asm) va_path_split) (auto dest: walk_prefix_Some)
  then have w3: "walk (mem s) pml4 (take 3 (va_path start)) = Some ?t3" by (auto simp: path_table_def)
  then have "is_table (mem s) pml4 ?t3" unfolding is_table_def by (metis order_refl table_path_take)
  with b(3) have bt: "b \<noteq> ?t3" by auto
  have next1: "unat (start + 4096) = unat start + 4096" using room by (subst unat_add_small) auto
  have r1: "unat start + 4096 < 2 ^ 64" using room by linarith
  have r2: "unat (start + 4096) + 4096 < 2 ^ 64" using room unfolding next1 by linarith
  note np = next_page_path [OF r1] next_page_path [OF r2]
  obtain s1 where s1: "unmap_page pml4 start 1 s = Some (2, s1)"
    "user_wf pml4 s1" "machine_frames s1 = machine_frames s - {a, ?t3}"
    "\<And>va'. user_translate pml4 s1 va' = (if take 3 (va_path va') = take 3 (va_path start) then None else user_translate pml4 s va')"
    "mem s1 = write_entry (write_entry (mem s) ?t3 (level_index 3 start) 0) ?t2 (level_index 2 start) 0"
    by (rule unmap_page_frees_table [OF wf huge(1) a]) (rule that)
  let ?m = "write_entry (mem s) ?t3 (level_index 3 start) 0"
  have wfm: "pt_wf ?m pml4 (machine_frames s)" by (rule pt_wf_write_leaf [OF pt _ w3]) simp_all
  have "walk (mem s) pml4 (take 2 (va_path start)) \<noteq> None"
    using w3 take_Suc_va_path [of 2 start] by (auto dest: walk_prefix_Some)
  then have "walk ?m pml4 (take 2 (va_path start)) = Some ?t2"
    by (subst walk_write_entry_other [OF pt _ w3])
      (auto simp: path_table_def table_path_page_path dest: arg_cong [of _ _ length])
  then have huge1: "no_huge_on_path (mem s1) pml4 (start + 4096)"
    unfolding s1(5) using no_huge_clear [OF pt _ w3 huge(2)] by (intro no_huge_clear [OF wfm]) simp_all
  have none: "user_translate pml4 s1 (start + 4096) = None" using s1(4) same by simp
  have d1: "changed_level_depth 0 LEVEL_MASKS start (start + 4096) = 1"
    by (rule changed_level_depth_same_table [OF same(1) [symmetric] np(2) [symmetric]])
  have d2: "changed_level_depth 0 LEVEL_MASKS (start + 4096) (start + 4096 + 4096) = 1"
    by (rule changed_level_depth_same_table [OF _ np(4) [symmetric]]) (simp only: same)
  have pt1: "pt_wf (mem s1) pml4 (machine_frames s1)" using s1(2) by (simp add: user_wf_def)
  have u2: "unmap_page pml4 (start + 4096) 1 s1 = Some (0, s1)"
    using unmap_page_tables [OF pt1 huge1, of 1] none by (simp add: user_translate_def)
  have "unmap_mem_task_run [False, False] pml4 (unmap_mem_task_new start 2) s =
      Some (Some (Ready 2), \<lparr>um_current_address = start + 4096 + 4096, um_pages_left = 0, um_pages_freed = 2\<rparr>, s1)"
    using unmap_mem_task_two_steps [OF np(1) np(3) d1 d2 s1(1) u2] by simp
  with s1(2,3) none b bt show ?thesis by auto
qed

theorem unmap_mem_task_leaks_witness:
  "\<exists>task s'. unmap_mem_task_run [False, False] 0x1000 (unmap_mem_task_new 0x400000 2) mapped_machine
     = Some (Some (Ready 2), task, s') \<and> user_translate 0x1000 s' 0x401000 = None \<and> 0x6000 \<in> machine_frames s'"
proof -
  have p: "va_path 0x402000 = [0, 0, 2, 2]" by (simp add: va_path_def levels_def level_index_def LEVEL_MASKS_def)
  show ?thesis
    using unmap_mem_task_leaks [OF mapped_machine_wf, of "0x400000" "0x5000" "0x6000"] p
    by (simp add: mapped_paths mapped_not_huge mapped_translations mapped_not_tables mapped_machine_frames
        del: unmap_mem_task_run.simps) blast
qed

end
