(* ===== verification/User_Ranges.thy ===== *)
theory User_Ranges
  imports User_Tasks
begin

text \<open>
  The user page mapper on ranges: what the mapping task achieves and when it never returns, the copy
  of a buffer into new pages, the change of flags of a range, and the creation of an address space.
\<close>

subsection \<open>Creating an address space\<close>

text \<open>
  \<^verbatim>\<open>UserPageMapper::new\<close> never returns a mapper: it copies the 512 entries of the kernel's table
  into the 256 entries of the upper half of the new one, and \<^verbatim>\<open>copy_from_slice\<close> panics on slices of
  different lengths. The only result it can return is the error of the failed reservation.
\<close>

theorem user_page_mapper_new_never_succeeds:
  "user_page_mapper_new s \<noteq> Some (Inr pml4, s')"
proof -
  have "slice_range (map f [0..<512]) 256 512 = Some (map f [256..<512])" for f :: "nat \<Rightarrow> page_table_entry"
    by (simp add: slice_range_def drop_map take_map)
  then show ?thesis
    by (auto simp: user_page_mapper_new_def Let_def copy_from_slice_def bind_eq_Some_conv split: sum.splits)
qed

subsection \<open>Copying a buffer\<close>

lemma unat_page_offset_mask: "unat ((va :: usize) AND 0xFFF) = unat va mod 4096"
proof -
  have *: "(0xFFF :: usize) = mask 12" by (simp add: mask_eq_exp_minus_1)
  have "va AND 0xFFF = take_bit 12 va" unfolding * take_bit_eq_mask ..
  then show ?thesis by (simp add: take_bit_eq_mod unat_mod)
qed

lemma copy_levels_needs_write:
  assumes "\<And>page m. write_page_data buffer start_offset data_written page m = None"
  shows "3 \<in> set ls \<Longrightarrow> copy_levels buffer va ls current start_offset data_written s \<noteq> Some (Inr r, s')"
proof (induction ls arbitrary: current s)
  case (Cons i ls)
  then show ?case
    by (auto simp: Let_def bind_eq_Some_conv assms split: sum.splits if_splits)
qed simp

text \<open>
  \<^verbatim>\<open>map_mem_copy_from_buffer\<close> only works for a buffer that ends in the page it starts in: with a
  longer buffer it never returns successfully, because the slice it copies from is the whole rest of
  the buffer and not the part that fits into the page.
\<close>

theorem map_mem_copy_from_buffer_needs_one_page:
  assumes "length buffer < 2 ^ 63" "unat (start AND 0xFFF) + length buffer > 4096"
  shows "map_mem_copy_from_buffer pml4 start size_bytes buffer s \<noteq> Some (Inr (), s')"
proof
  let ?off = "start AND 0xFFF"
  assume ok: "map_mem_copy_from_buffer pml4 start size_bytes buffer s = Some (Inr (), s')"
  have off: "unat ?off < 4096" by (simp add: unat_page_offset_mask)
  have len: "unat (of_nat (length buffer) :: usize) = length buffer"
    by (rule unat_of_nat_small) (use assms(1) in simp)
  have "write_page_data buffer ?off 0 page m = None" for page m
  proof -
    have "checked_sub 4096 ?off = Some (4096 - ?off)" and r: "unat (4096 - ?off) = 4096 - unat ?off"
      using off by (simp_all add: checked_sub_def word_le_nat_alt unat_sub)
    moreover have "unat (min (of_nat (length buffer)) (4096 - ?off)) < length buffer"
      using assms(2) off len r by (simp add: min_def word_le_nat_alt)
    ultimately show ?thesis
      by (auto simp: write_page_data_def Let_def checked_sub_def guard_def slice_range_def copy_from_slice_def
          bind_eq_None_conv)
  qed
  then have no: "copy_levels buffer va levels pml4 ?off 0 s1 \<noteq> Some (Inr r, s2)" for va s1 r s2
    by (rule copy_levels_needs_write) (simp add: levels_def)
  from ok obtain n where n: "range_num_pages start size_bytes = Some n"
    and run: "copy_pages buffer pml4 start [0..<unat n] ?off 0 s = Some (Inr (), s')"
    by (auto simp: map_mem_copy_from_buffer_def bind_eq_Some_conv)
  from n have "0 < unat n" by (simp add: range_num_pages_Some)
  then obtain ps where "[0..<unat n] = 0 # ps" by (simp add: upt_conv_Cons)
  with run no show False
    by (auto simp: bind_eq_Some_conv split: sum.splits) (metis sum.exhaust surj_pair)
qed

theorem map_mem_copy_from_buffer_needs_one_page_witness:
  "\<forall>s'. map_mem_copy_from_buffer 0x1000 0x400000 0x2000 (replicate 5000 0) small_machine \<noteq> Some (Inr (), s')"
  by (intro allI map_mem_copy_from_buffer_needs_one_page) simp_all

subsection \<open>The mapping task\<close>

text \<open>With no page free, mapping fails at the first missing table and changes nothing.\<close>

lemma map_blank_loop_full:
  assumes wf: "pt_wf (mem s) root F" and full: "find_and_reserve_page s = Some (Inl e, s)"
    and none: "translate (mem s) root va = None" and used: "unat used + 1 < 2 ^ 64"
  shows "k \<le> 3 \<Longrightarrow> walk (mem s) root (take k (va_path va)) = Some current \<Longrightarrow>
    map_blank_loop va cf (drop k levels) current used parents s = Some (Inr (Inl UserOutOfMemory), used + 1, parents, s)"
proof (induction "3 - k" arbitrary: k current)
  case 0
  then have k: "k = 3" by simp
  have nz: "current \<noteq> 0" using pt_wf_nonzero [OF wf _ "0.prems"(2)] k by simp
  have "\<not> present (mem s current (level_index 3 va))"
    using none "0.prems"(2) k unfolding translate_def by (subst (asm) va_path_split) (simp add: walk_snoc split: if_splits)
  with nz full used show ?case by (simp add: k drop_levels [of 3, simplified] Let_def checked_add_def)
next
  case (Suc n)
  then have k: "k < 3" and n: "n = 3 - Suc k" by simp_all
  have nz: "current \<noteq> 0" using pt_wf_nonzero [OF wf _ Suc.prems(2)] k by simp
  show ?case
  proof (cases "present (mem s current (level_index k va))")
    case True
    then have "walk (mem s) root (take (Suc k) (va_path va)) = Some (address (mem s current (level_index k va)))"
      using Suc.prems(2) k by (simp add: take_Suc_va_path walk_snoc)
    from Suc.hyps(1) [OF n _ this] k True nz show ?thesis by (simp add: drop_levels [of k] Let_def)
  next
    case False
    with k nz full used show ?thesis by (simp add: drop_levels [of k] Let_def checked_add_def)
  qed
qed

lemma map_blank_page_full:
  assumes "user_wf pml4 s" "find_and_reserve_page s = Some (Inl e, s)" "user_translate pml4 s va = None"
    "unat used + 1 < 2 ^ 64"
  shows "map_blank_page pml4 va flags used s = Some (Inl UserOutOfMemory, used + 1, s)"
  using map_blank_loop_full [of s pml4 "machine_frames s" e va used 0 pml4] assms
  by (simp add: user_wf_def user_translate_def map_blank_page_def Let_def)

lemma unmap_page_unmapped:
  "user_wf pml4 s \<Longrightarrow> no_huge_on_path (mem s) pml4 va \<Longrightarrow> user_translate pml4 s va = None \<Longrightarrow>
     unmap_page pml4 va depth s = Some (0, s)"
  using unmap_page_tables [of s pml4 "machine_frames s" va depth] by (simp add: user_wf_def user_translate_def)

lemma rewind_never_returns:
  assumes wf: "user_wf pml4 s"
    and below: "\<And>va. va < start \<Longrightarrow> user_translate pml4 s va = None \<and> no_huge_on_path (mem s) pml4 va"
  shows "mm_state task = FailRewinding err \<Longrightarrow> mm_start_address task = start \<Longrightarrow> mm_current_address task < start \<Longrightarrow>
    \<exists>task'. map_mem_task_run (replicate n False) pml4 task s = Some (None, task', s)"
proof (induction n arbitrary: task)
  case (Suc n)
  let ?a = "mm_current_address task"
  let ?task = "task\<lparr>mm_current_address := saturating_sub ?a 4096\<rparr>"
  have u: "unmap_page pml4 ?a depth s = Some (0, s)" for depth
    using below [OF Suc.prems(3)] wf by (simp add: unmap_page_unmapped)
  have "checked_sub (mm_pages_allocated task) 0 = Some (mm_pages_allocated task)" by (simp add: checked_sub_def)
  then have step: "map_mem_step pml4 task s = Some (None, ?task, s)"
    using Suc.prems u by (auto simp: map_mem_step_def map_mem_rewind_step_def Let_def)
  have "saturating_sub ?a 4096 \<le> ?a" by (simp add: saturating_sub_def word_le_nat_alt unat_sub_if')
  then have "mm_current_address ?task < start" using Suc.prems(3) by simp
  from Suc.IH [of ?task] this Suc.prems step show ?case by simp
qed simp


text \<open>Eight pages that are all in use.\<close>

definition full_machine :: machine where
  "full_machine =
     \<lparr>PAGE_ALLOCATOR = Some \<lparr>memory_bitmap = [0xFF], total_pages = 8, free_pages = 0, page_table = 0x1000\<rparr>,
      mem = (\<lambda>_ _. 0)\<rparr>"

lemma full_machine_wf: "user_wf 0x1000 full_machine" "find_and_reserve_page full_machine = Some (Inl ReservePageError, full_machine)"
proof -
  let ?pa = "\<lparr>memory_bitmap = [0xFF], total_pages = 8, free_pages = 0, page_table = 0x1000\<rparr>"
  have m1: "(0xFF :: u8) = - 1" by simp
  have "zero_bits [0xFF] = 0" by code_simp
  moreover have "0 \<in> used_slots [0xFF]" "1 \<in> used_slots [0xFF]" unfolding m1 by (simp_all add: slots_of_byte)
  ultimately have pa: "pa_inv ?pa" "1 \<in> pa_used ?pa"
    by (auto simp: pa_inv_def pa_used_def pa_slots_def)
  have "frame_of 1 = 0x1000" by (simp add: frame_of_def)
  with pa(2) have "0x1000 \<in> pa_frames ?pa" unfolding pa_frames_def by (metis image_eqI)
  then have "pt_wf (\<lambda>_ _. 0) 0x1000 (pa_frames ?pa)" by (intro pt_wf_empty_table) auto
  with pa show "user_wf 0x1000 full_machine"
    by (simp add: user_wf_def machine_inv_def machine_frames_def full_machine_def)
  show "find_and_reserve_page full_machine = Some (Inl ReservePageError, full_machine)"
    by (simp add: find_and_reserve_page_def full_machine_def tight_machine_reserve)
qed


end
