(* ===== verification/Page_Ranges.thy ===== *)
theory Page_Ranges
  imports User_Ranges
begin

text \<open>
  The operations of a page mapper on a range of pages that exist: \<^verbatim>\<open>unmap_mem\<close>, \<^verbatim>\<open>change_flags\<close> and
  \<^verbatim>\<open>change_flags_relaxing\<close>. They run the same loops, so what the loops do is proved once, for every
  action that rewrites a last-level entry and gives up a set of frames.
\<close>

subsection \<open>One page\<close>

lemma leaf_walk_spec:
  assumes wf: "pt_wf (mem s) root F" and huge: "no_huge_on_path (mem s) root va"
    and t: "walk (mem s) root (take 3 (va_path va)) = Some t"
  shows "k \<le> 3 \<Longrightarrow> walk (mem s) root (take k (va_path va)) = Some current \<Longrightarrow>
    leaf_walk act va (drop k levels) current s =
      (if present (mem s t (level_index 3 va)) then act t (level_index 3 va) (mem s t (level_index 3 va)) s
       else Some s)"
proof (induction "3 - k" arbitrary: k current)
  case 0
  then have k: "k = 3" and c: "current = t" using t by simp_all
  have "t \<noteq> 0" by (rule pt_wf_nonzero [OF wf _ t]) simp
  moreover have "\<not> huge_page (mem s t (level_index 3 va))" using no_huge_on_pathD [OF huge _ t] by simp
  moreover have "drop 3 levels = [3]" by (simp add: levels_def)
  moreover have "leaf_walk act va [] t = Some" by (rule ext) simp
  ultimately show ?case using k c by (simp add: Let_def guard_def)
next
  case (Suc n)
  then have k: "k < 3" and n: "n = 3 - Suc k" by simp_all
  let ?e = "mem s current (level_index k va)"
  have nz: "current \<noteq> 0" using pt_wf_nonzero [OF wf _ Suc.prems(2)] k by simp
  have nh: "\<not> huge_page ?e" using no_huge_on_pathD [OF huge _ Suc.prems(2)] k by simp
  have "take 3 (va_path va) = take (Suc k) (va_path va) @ drop (Suc k) (take 3 (va_path va))"
    using k by (metis Suc_leI append_take_drop_id min_absorb1 take_take)
  then obtain c where "walk (mem s) root (take (Suc k) (va_path va)) = Some c"
    using t by (metis walk_prefix_Some)
  then have w: "walk (mem s) root (take (Suc k) (va_path va)) = Some (address ?e)"
    using Suc.prems(2) k by (simp add: take_Suc_va_path walk_snoc split: if_splits)
  from Suc.hyps(1) [OF n _ w] k nz nh show ?case by (simp add: drop_levels [of k] Let_def guard_def)
qed

lemma level_index_path: "va_path a = va_path b \<Longrightarrow> j < 4 \<Longrightarrow> level_index j a = level_index j b"
  by (metis nth_va_path)

lemma leaf_entry_path: "va_path a = va_path b \<Longrightarrow> leaf_entry m root a = leaf_entry m root b"
  using level_index_path [of a b 3] by (simp add: leaf_entry_def cong: option.case_cong)

lemma no_huge_path: "va_path a = va_path b \<Longrightarrow> no_huge_on_path m root a = no_huge_on_path m root b"
  by (simp add: no_huge_on_path_def level_index_path [of a b] cong: option.case_cong)

lemma translate_leaf_entry:
  "translate m root va =
     (case leaf_entry m root va of None \<Rightarrow> None | Some e \<Rightarrow> if present e then Some (address e) else None)"
  unfolding translate_def leaf_entry_def by (subst va_path_split) (simp add: walk_snoc split: option.splits)

text \<open>The last-level entries after one of them was written.\<close>

lemma leaf_entry_write:
  assumes wf: "pt_wf m root F" and t: "walk m root (take 3 (va_path va)) = Some t"
  shows "leaf_entry (write_entry m t (level_index 3 va) e) root va' =
    (if va_path va' = va_path va then Some e else leaf_entry m root va')"
proof -
  let ?m = "write_entry m t (level_index 3 va) e"
  have w: "walk ?m root (take 3 (va_path va')) = walk m root (take 3 (va_path va'))"
    by (rule walk_write_entry_other [OF wf _ t]) (auto simp: table_path_page_path dest: arg_cong [of _ _ length])
  show ?thesis
  proof (cases "walk m root (take 3 (va_path va'))")
    case (Some u)
    have "u = t \<and> level_index 3 va' = level_index 3 va \<longleftrightarrow> va_path va' = va_path va"
    proof
      assume u: "u = t \<and> level_index 3 va' = level_index 3 va"
      then have "take 3 (va_path va') = take 3 (va_path va)"
        using Some by (intro pt_wf_inj [OF wf _ _ _ t]) simp_all
      with u show "va_path va' = va_path va" by (subst (1 2) va_path_split) simp
    next
      assume "va_path va' = va_path va"
      with Some t level_index_path [of va' va 3] show "u = t \<and> level_index 3 va' = level_index 3 va" by simp
    qed
    with Some w show ?thesis by (auto simp: leaf_entry_def write_entry_def)
  next
    case None
    with t have "va_path va' \<noteq> va_path va" by auto
    with None w show ?thesis by (simp add: leaf_entry_def)
  qed
qed

lemma no_huge_write_leaf:
  assumes wf: "pt_wf m root F" and t: "walk m root (take 3 (va_path va)) = Some t"
    and huge: "no_huge_on_path m root va'" and e: "\<not> huge_page e"
  shows "no_huge_on_path (write_entry m t (level_index 3 va) e) root va'"
proof -
  let ?m = "write_entry m t (level_index 3 va) e"
  have w: "walk ?m root (take j (va_path va')) = walk m root (take j (va_path va'))" if "j \<le> 3" for j
    using that by (intro walk_write_entry_other [OF wf _ t]) (auto simp: table_path_page_path dest: arg_cong [of _ _ length])
  show ?thesis
    unfolding no_huge_on_path_def
  proof (intro allI impI)
    fix j :: nat assume j: "j < 4"
    show "case walk ?m root (take j (va_path va')) of None \<Rightarrow> True | Some u \<Rightarrow> \<not> huge_page (?m u (level_index j va'))"
      using no_huge_on_pathD [OF huge j] w [of j] j e by (auto simp: write_entry_def split: option.split)
  qed
qed

text \<open>The last-level entries of a set of pages, and memories that differ in such entries only.\<close>

definition leaf_slots :: "memory \<Rightarrow> usize \<Rightarrow> usize set \<Rightarrow> (usize \<times> nat) set" where
  "leaf_slots m root A = {(t, i). \<exists>a \<in> A. walk m root (take 3 (va_path a)) = Some t \<and> i = level_index 3 a}"

definition same_but_leaves :: "usize \<Rightarrow> usize set \<Rightarrow> memory \<Rightarrow> memory \<Rightarrow> bool" where
  "same_but_leaves root A m m' \<longleftrightarrow>
     (\<forall>va. walk m' root (take 3 (va_path va)) = walk m root (take 3 (va_path va)))
     \<and> (\<forall>t i. m' t i = m t i \<or> (t, i) \<in> leaf_slots m root A)"

lemma same_but_leaves_refl: "same_but_leaves root A m m"
  by (simp add: same_but_leaves_def)

lemma same_but_leaves_trans:
  assumes "same_but_leaves root A m m1" "same_but_leaves root B m1 m'"
  shows "same_but_leaves root (A \<union> B) m m'"
proof -
  have "leaf_slots m1 root B = leaf_slots m root B"
    using assms(1) by (simp add: leaf_slots_def same_but_leaves_def)
  moreover have "leaf_slots m root (A \<union> B) = leaf_slots m root A \<union> leaf_slots m root B"
    by (auto simp: leaf_slots_def)
  ultimately show ?thesis using assms unfolding same_but_leaves_def by (metis Un_iff)
qed

lemma same_but_leaves_write:
  assumes wf: "pt_wf m root F" and t: "walk m root (take 3 (va_path va)) = Some t"
  shows "same_but_leaves root {va} m (write_entry m t (level_index 3 va) e)"
proof -
  have "walk (write_entry m t (level_index 3 va) e) root (take 3 (va_path va')) = walk m root (take 3 (va_path va'))" for va'
    by (rule walk_write_entry_other [OF wf _ t]) (auto simp: table_path_page_path dest: arg_cong [of _ _ length])
  then show ?thesis using t by (simp add: same_but_leaves_def leaf_slots_def write_entry_def)
qed

lemma leaf_slots_cong:
  assumes "va_path ` A = va_path ` B"
  shows "leaf_slots m root A = leaf_slots m root B"
proof -
  have "leaf_slots m root C = {(t, i). \<exists>p \<in> va_path ` C. walk m root (take 3 p) = Some t \<and> i = p ! 3}" for C
    by (simp add: leaf_slots_def nth_va_path)
  then show ?thesis by (simp only: assms)
qed

text \<open>A last-level table is no parent table, so the parent entries of every address stay as they are.\<close>

lemma same_but_leaves_parents:
  assumes wf: "pt_wf m root F" and same: "same_but_leaves root A m m'" and k: "k < 3"
  shows "level_entry m' root va k = level_entry m root va k"
proof -
  have keep: "m' u i = m u i" if u: "walk m root (take j (va_path va)) = Some u" and j: "j < 3" for u i j
  proof (rule ccontr)
    assume "m' u i \<noteq> m u i"
    then obtain a where "walk m root (take 3 (va_path a)) = Some u"
      using same [unfolded same_but_leaves_def leaf_slots_def] by blast
    then have "take j (va_path va) = take 3 (va_path a)" using j by (intro pt_wf_inj [OF wf _ _ u]) simp_all
    then show False using j by (auto dest: arg_cong [of _ _ length])
  qed
  have "walk m' root (take j (va_path va)) = walk m root (take j (va_path va))" if "j < 3" for j
    using that
  proof (induction j)
    case (Suc j)
    then show ?case using keep [of j] by (auto simp: take_Suc_va_path walk_snoc split: option.split)
  qed simp
  with k keep [of k] show ?thesis by (auto simp: level_entry_def split: option.split)
qed

subsection \<open>The addresses of a range\<close>

definition in_range :: "usize \<Rightarrow> usize \<Rightarrow> usize \<Rightarrow> bool" where
  "in_range start size_bytes a \<longleftrightarrow> start \<le> a \<and> unat a < unat start + unat size_bytes"

lemma va_path_mod:
  assumes "unat a div 4096 mod 2 ^ 36 = unat b div 4096 mod 2 ^ 36"
  shows "va_path a = va_path b"
proof -
  have m: "(0xFFFFFFFFF000 :: usize) = push_bit 12 (mask 36)" by (simp add: mask_eq_exp_minus_1 push_bit_eq_mult)
  have "x AND 0xFFFFFFFFF000 = push_bit 12 (take_bit 36 (drop_bit 12 x))" for x :: usize
    unfolding m by (rule bit_word_eqI) (auto simp: bit_simps)
  moreover have "take_bit 36 (drop_bit 12 a) = take_bit 36 (drop_bit 12 b)"
    using assms by (intro word_eq_unatI) (simp add: drop_bit_eq_div take_bit_eq_mod unat_div unat_mod)
  ultimately show ?thesis by (simp add: va_path_eq_iff)
qed

text \<open>The address that the loops compute from the masked start address has the path of the page.\<close>

lemma masked_page_address:
  assumes "range_num_pages start size_bytes = Some n" "i < unat n"
  obtains va where "checked_add (start AND 0x000FFFFFFFFFF000) (push_bit 12 (of_nat i)) = Some va"
    "\<And>a. unat a div 4096 = unat start div 4096 + i \<Longrightarrow> va_path va = va_path a"
proof -
  let ?b = "start AND 0x000FFFFFFFFFF000" and ?o = "push_bit 12 (of_nat i) :: usize"
  have m: "(0x000FFFFFFFFFF000 :: usize) = push_bit 12 (mask 40)" by (simp add: mask_eq_exp_minus_1 push_bit_eq_mult)
  have "?b = push_bit 12 (take_bit 40 (drop_bit 12 start))"
    unfolding m by (rule bit_word_eqI) (auto simp: bit_simps)
  moreover define w where "w = take_bit 40 (drop_bit 12 start)"
  moreover have w: "unat w = unat start div 4096 mod 2 ^ 40"
    by (simp add: w_def drop_bit_eq_div take_bit_eq_mod unat_div unat_mod)
  moreover have "unat w < 2 ^ 40" unfolding w by (rule mod_less_divisor) simp
  then have "unat w < 2 ^ 52" by (rule order_less_trans) simp
  from unat_page_offset [OF this] have "unat (push_bit 12 w) = 4096 * unat w" by simp
  ultimately have b: "unat ?b = 4096 * (unat start div 4096 mod 2 ^ 40)" by simp
  from range_page_address [OF assms] obtain va0 where va0: "checked_add start ?o = Some va0" .
  then have "unat start + unat ?o < 2 ^ 64" by (simp add: checked_add_def split: if_splits)
  moreover have "unat ?b \<le> unat start"
    unfolding b using mod_less_eq_dividend [of "unat start div 4096" "2 ^ 40"] by linarith
  ultimately have le: "unat ?b + unat ?o < 2 ^ 64" by linarith
  have "i < 2 ^ 52"
  proof -
    have "unat n \<le> 2 ^ 52"
    proof -
      from assms(1) have "unat n = (unat start + unat size_bytes - 1) div 4096 - unat start div 4096 + 1"
        and "unat start + unat size_bytes \<le> 2 ^ 64" "size_bytes \<noteq> 0" by (simp_all add: range_num_pages_Some)
      moreover from this have "unat start + unat size_bytes - 1 \<le> 2 ^ 64 - 1" by linarith
      then have "(unat start + unat size_bytes - 1) div 4096 \<le> (2 ^ 64 - 1) div 4096" by (rule div_le_mono)
      moreover have "(2 ^ 64 - 1) div 4096 + 1 \<le> (2 ^ 52 :: nat)" by simp
      ultimately show ?thesis by linarith
    qed
    with assms(2) show ?thesis by linarith
  qed
  then have o: "unat ?o = 4096 * i" by (rule unat_page_offset)
  have add: "checked_add ?b ?o = Some (?b + ?o)" and u: "unat (?b + ?o) = unat ?b + unat ?o"
    using le by (simp_all add: checked_add_def unat_add_small)
  have "va_path (?b + ?o) = va_path a" if "unat a div 4096 = unat start div 4096 + i" for a
  proof (rule va_path_mod)
    define q where "q = unat start div 4096"
    have "4096 * (q mod 2 ^ 40) + 4096 * i = 4096 * (q mod 2 ^ 40 + i)" by (rule distrib_left [symmetric])
    then have "unat (?b + ?o) div 4096 = q mod 2 ^ 40 + i" unfolding u b o q_def by simp
    moreover have "(q mod 2 ^ 40 + i) mod 2 ^ 36 = (q mod 2 ^ 40 mod 2 ^ 36 + i) mod 2 ^ 36" by (rule mod_add_left_eq [symmetric])
    moreover have "q mod 2 ^ 40 mod 2 ^ 36 = q mod 2 ^ 36" by (rule mod_mod_cancel) (simp add: dvd_def)
    moreover have "(q mod 2 ^ 36 + i) mod 2 ^ 36 = (q + i) mod 2 ^ 36" by (rule mod_add_left_eq)
    ultimately show "unat (?b + ?o) div 4096 mod 2 ^ 36 = unat a div 4096 mod 2 ^ 36"
      unfolding that q_def [symmetric] by (simp only:)
  qed
  with add show thesis by (rule that)
qed

subsection \<open>A range of pages\<close>

text \<open>
  The promise of an action: it writes one entry and gives up the frames \<open>freed e\<close>. The new entry
  gives up nothing, so a second visit of a page (of a range longer than the address space of the
  page table) changes nothing more.
\<close>

locale leaf_update =
  fixes act :: leaf_action and upd :: "page_table_entry \<Rightarrow> page_table_entry"
    and freed :: "page_table_entry \<Rightarrow> usize set"
  assumes act: "machine_inv s \<Longrightarrow> present e \<Longrightarrow> freed e \<subseteq> machine_frames s \<Longrightarrow>
      \<exists>s'. act t i e s = Some s' \<and> mem s' = write_entry (mem s) t i (upd e) \<and> machine_inv s'
        \<and> machine_frames s' = machine_frames s - freed e"
    and upd_again: "present e \<Longrightarrow> present (upd e) \<Longrightarrow> upd (upd e) = upd e \<and> freed (upd e) = {}"
    and upd_small: "\<not> huge_page e \<Longrightarrow> \<not> huge_page (upd e)"
begin

definition page_ready :: "usize \<Rightarrow> machine \<Rightarrow> usize \<Rightarrow> bool" where
  "page_ready pml4 s va \<longleftrightarrow> no_huge_on_path (mem s) pml4 va
     \<and> (\<exists>e. leaf_entry (mem s) pml4 va = Some e
          \<and> (present e \<longrightarrow> freed e \<subseteq> machine_frames s \<and> (\<forall>a \<in> freed e. \<not> is_table (mem s) pml4 a)))"

definition pages_apart :: "usize \<Rightarrow> machine \<Rightarrow> usize set \<Rightarrow> bool" where
  "pages_apart pml4 s A \<longleftrightarrow> (\<forall>a \<in> A. \<forall>b \<in> A. \<forall>e f. va_path a \<noteq> va_path b \<longrightarrow>
     leaf_entry (mem s) pml4 a = Some e \<longrightarrow> leaf_entry (mem s) pml4 b = Some f \<longrightarrow>
     present e \<longrightarrow> present f \<longrightarrow> freed e \<inter> freed f = {})"

definition entry_after :: "page_table_entry \<Rightarrow> page_table_entry" where
  "entry_after e = (if present e then upd e else e)"

definition range_post :: "usize \<Rightarrow> usize set \<Rightarrow> machine \<Rightarrow> machine \<Rightarrow> bool" where
  "range_post pml4 A s s' \<longleftrightarrow> user_wf pml4 s' \<and> same_but_leaves pml4 A (mem s) (mem s')
     \<and> (\<forall>va. leaf_entry (mem s') pml4 va =
          (if va_path va \<in> va_path ` A then map_option entry_after (leaf_entry (mem s) pml4 va)
           else leaf_entry (mem s) pml4 va))
     \<and> machine_frames s' = machine_frames s -
         (\<Union>a \<in> A. \<Union>e \<in> set_option (leaf_entry (mem s) pml4 a). if present e then freed e else {})"

lemma entry_after_again: "entry_after (entry_after e) = entry_after e"
  using upd_again by (simp add: entry_after_def)

lemma one_page:
  assumes wf: "user_wf pml4 s" and ready: "page_ready pml4 s va"
  obtains s' where "leaf_walk act va levels pml4 s = Some s'" "range_post pml4 {va} s s'"
    "\<And>va'. no_huge_on_path (mem s) pml4 va' \<Longrightarrow> no_huge_on_path (mem s') pml4 va'"
    "\<And>b. is_table (mem s') pml4 b \<longleftrightarrow> is_table (mem s) pml4 b"
proof -
  have inv: "machine_inv s" and pt: "pt_wf (mem s) pml4 (machine_frames s)" using wf by (simp_all add: user_wf_def)
  from ready obtain e where huge: "no_huge_on_path (mem s) pml4 va" and e: "leaf_entry (mem s) pml4 va = Some e"
    and free: "present e \<Longrightarrow> freed e \<subseteq> machine_frames s \<and> (\<forall>a \<in> freed e. \<not> is_table (mem s) pml4 a)"
    by (auto simp: page_ready_def)
  from e obtain t where t: "walk (mem s) pml4 (take 3 (va_path va)) = Some t"
    and et: "e = mem s t (level_index 3 va)" by (auto simp: leaf_entry_def split: option.splits)
  have same: "leaf_entry (mem s) pml4 va' = Some e" if "va_path va' = va_path va" for va'
    using leaf_entry_path [OF that] e by simp
  have run: "leaf_walk act va levels pml4 s = (if present e then act t (level_index 3 va) e s else Some s)"
    using leaf_walk_spec [OF pt huge t, of 0 pml4] et by simp
  show thesis
  proof (cases "present e")
    case False
    have "range_post pml4 {va} s s"
      using wf e False same same_but_leaves_refl by (auto simp: range_post_def entry_after_def)
    with run False show thesis by (intro that) simp_all
  next
    case True
    from act [OF inv True, of t "level_index 3 va"] free [OF True] obtain s' where
      s': "act t (level_index 3 va) e s = Some s'" "mem s' = write_entry (mem s) t (level_index 3 va) (upd e)"
      "machine_inv s'" "machine_frames s' = machine_frames s - freed e" by auto
    have tables: "is_table (mem s') pml4 b \<longleftrightarrow> is_table (mem s) pml4 b" for b
      unfolding s'(2) by (rule is_table_write_leaf [OF pt _ t]) simp_all
    have "pt_wf (mem s') pml4 (machine_frames s)" unfolding s'(2) by (rule pt_wf_write_leaf [OF pt _ t]) simp_all
    then have "pt_wf (mem s') pml4 (machine_frames s - freed e)"
      using free [OF True] tables unfolding pt_wf_def is_table_def by blast
    then have "user_wf pml4 s'" using s' by (simp add: user_wf_def)
    moreover have "leaf_entry (mem s') pml4 va' =
        (if va_path va' = va_path va then Some (upd e) else leaf_entry (mem s) pml4 va')" for va'
      unfolding s'(2) by (rule leaf_entry_write [OF pt t])
    moreover have "same_but_leaves pml4 {va} (mem s) (mem s')" unfolding s'(2) by (rule same_but_leaves_write [OF pt t])
    ultimately have "range_post pml4 {va} s s'"
      using e True s'(4) same by (auto simp: range_post_def entry_after_def)
    moreover have "no_huge_on_path (mem s') pml4 va'" if "no_huge_on_path (mem s) pml4 va'" for va'
      unfolding s'(2) using no_huge_write_leaf [OF pt t that] upd_small no_huge_on_pathD [OF huge _ t] et by simp
    ultimately show thesis using run True s'(1) tables by (intro that [of s']) simp_all
  qed
qed

lemma pages_apart_step:
  assumes apart: "pages_apart pml4 s (insert va A)" and wf: "user_wf pml4 s" and ready: "page_ready pml4 s va"
    and b: "b \<in> A" "page_ready pml4 s b"
    and post: "range_post pml4 {va} s s'"
    and huge: "\<And>va'. no_huge_on_path (mem s) pml4 va' \<Longrightarrow> no_huge_on_path (mem s') pml4 va'"
    and tables: "\<And>b. is_table (mem s') pml4 b \<longleftrightarrow> is_table (mem s) pml4 b"
  shows "page_ready pml4 s' b"
proof -
  from b(2) obtain f where f: "leaf_entry (mem s) pml4 b = Some f"
    "present f \<Longrightarrow> freed f \<subseteq> machine_frames s \<and> (\<forall>a \<in> freed f. \<not> is_table (mem s) pml4 a)"
    and nh: "no_huge_on_path (mem s') pml4 b" using huge by (auto simp: page_ready_def)
  from ready obtain e where e: "leaf_entry (mem s) pml4 va = Some e" by (auto simp: page_ready_def)
  have frames: "machine_frames s' = machine_frames s - (if present e then freed e else {})"
    using post e by (simp add: range_post_def)
  show ?thesis
  proof (cases "va_path b = va_path va")
    case True
    then have "f = e" using f(1) e leaf_entry_path [OF True] by simp
    with True post f(1) have "leaf_entry (mem s') pml4 b = Some (entry_after e)" by (simp add: range_post_def)
    moreover have "freed (entry_after e) = {}" if "present (entry_after e)" 
      using that upd_again by (cases "present e") (simp_all add: entry_after_def)
    ultimately show ?thesis using nh by (simp add: page_ready_def)
  next
    case False
    then have "leaf_entry (mem s') pml4 b = Some f" using post f(1) by (simp add: range_post_def)
    moreover have "freed e \<inter> freed f = {}" if "present e" "present f"
      using apart b(1) False e f(1) that unfolding pages_apart_def by (metis insertCI)
    ultimately show ?thesis using nh f(2) frames tables by (auto simp: page_ready_def)
  qed
qed

lemma pages_apart_after:
  assumes "pages_apart pml4 s A" "range_post pml4 {va} s s'" "B \<subseteq> A"
  shows "pages_apart pml4 s' B"
proof -
  have after: "(\<exists>e'. leaf_entry (mem s) pml4 a = Some e' \<and> present e' \<and> freed e \<subseteq> freed e')"
    if "leaf_entry (mem s') pml4 a = Some e" "present e" for a e
    using that assms(2) upd_again by (auto simp: range_post_def entry_after_def split: if_splits)
  show ?thesis
    unfolding pages_apart_def
  proof (intro ballI allI impI)
    fix a b e f
    assume h: "a \<in> B" "b \<in> B" "va_path a \<noteq> va_path b" "leaf_entry (mem s') pml4 a = Some e"
      "leaf_entry (mem s') pml4 b = Some f" "present e" "present f"
    from after [OF h(4,6)] after [OF h(5,7)] obtain e' f' where
      "leaf_entry (mem s) pml4 a = Some e'" "present e'" "freed e \<subseteq> freed e'"
      "leaf_entry (mem s) pml4 b = Some f'" "present f'" "freed f \<subseteq> freed f'" by blast
    moreover from this h assms(1,3) have "freed e' \<inter> freed f' = {}" unfolding pages_apart_def by (meson subsetD)
    ultimately show "freed e \<inter> freed f = {}" by blast
  qed
qed

text \<open>The frames that the entries of a set of pages give up.\<close>

definition given_up :: "usize \<Rightarrow> machine \<Rightarrow> usize set \<Rightarrow> usize set" where
  "given_up pml4 s A = (\<Union>a \<in> A. \<Union>e \<in> set_option (leaf_entry (mem s) pml4 a). if present e then freed e else {})"

lemma given_up_after:
  assumes post: "range_post pml4 {va} s s1"
  shows "given_up pml4 s {va} \<union> given_up pml4 s1 A = given_up pml4 s (insert va A)"
proof -
  have same: "leaf_entry (mem s1) pml4 a = leaf_entry (mem s) pml4 a" if "va_path a \<noteq> va_path va" for a
    using that post by (simp add: range_post_def)
  have none: "given_up pml4 s1 {a} = {}" if "va_path a = va_path va" for a
    using that post upd_again by (auto simp: given_up_def range_post_def entry_after_def split: if_splits)
  have path: "given_up pml4 s {a} = given_up pml4 s {va}" if "va_path a = va_path va" for a
    using leaf_entry_path [OF that] by (simp add: given_up_def)
  have "given_up pml4 s1 {a} \<union> given_up pml4 s {va} = given_up pml4 s {a} \<union> given_up pml4 s {va}" for a
    using none [of a] path [of a] same [of a] by (cases "va_path a = va_path va") (simp_all add: given_up_def)
  then have pt: "x \<in> given_up pml4 s1 {a} \<or> x \<in> given_up pml4 s {va} \<longleftrightarrow> x \<in> given_up pml4 s {a} \<or> x \<in> given_up pml4 s {va}" for x a
    by blast
  have un: "x \<in> given_up pml4 r B \<longleftrightarrow> (\<exists>a \<in> B. x \<in> given_up pml4 r {a})" for x r B by (simp add: given_up_def)
  show ?thesis
  proof (rule set_eqI)
    fix x
    show "x \<in> given_up pml4 s {va} \<union> given_up pml4 s1 A \<longleftrightarrow> x \<in> given_up pml4 s (insert va A)"
      using pt [of x] un [of x s1 A] un [of x s "insert va A"] by blast
  qed
qed

lemma range_post_frames: "range_post pml4 A s s' \<Longrightarrow> machine_frames s' = machine_frames s - given_up pml4 s A"
  unfolding range_post_def given_up_def by blast

lemma range_post_trans:
  assumes a: "range_post pml4 {va} s s1" and b: "range_post pml4 A s1 s'"
  shows "range_post pml4 (insert va A) s s'"
proof -
  have la: "leaf_entry (mem s1) pml4 va' = (if va_path va' = va_path va
      then map_option entry_after (leaf_entry (mem s) pml4 va') else leaf_entry (mem s) pml4 va')" for va'
    using a by (simp add: range_post_def)
  have lb: "leaf_entry (mem s') pml4 va' = (if va_path va' \<in> va_path ` A
      then map_option entry_after (leaf_entry (mem s1) pml4 va') else leaf_entry (mem s1) pml4 va')" for va'
    using b by (simp add: range_post_def)
  have "leaf_entry (mem s') pml4 va' =
      (if va_path va' \<in> va_path ` insert va A then map_option entry_after (leaf_entry (mem s) pml4 va')
       else leaf_entry (mem s) pml4 va')" for va'
    unfolding lb la by (simp add: option.map_comp comp_def entry_after_again)
  moreover have "machine_frames s1 = machine_frames s - given_up pml4 s {va}"
    "machine_frames s' = machine_frames s1 - given_up pml4 s1 A"
    using range_post_frames [OF a] range_post_frames [OF b] by simp_all
  then have "machine_frames s' = machine_frames s - given_up pml4 s (insert va A)"
    using given_up_after [OF a, of A] by blast
  moreover have "user_wf pml4 s'" using b by (simp add: range_post_def)
  moreover have "same_but_leaves pml4 (insert va A) (mem s) (mem s')"
    using same_but_leaves_trans [of pml4 "{va}" "mem s" "mem s1" A "mem s'"] a b by (simp add: range_post_def)
  ultimately show ?thesis unfolding range_post_def given_up_def by blast
qed

lemma all_pages:
  assumes "user_wf pml4 s" "\<And>va. va \<in> set vas \<Longrightarrow> page_ready pml4 s va" "pages_apart pml4 s (set vas)"
  shows "\<exists>s'. for_each (\<lambda>va. leaf_walk act va levels pml4) vas s = Some s' \<and> range_post pml4 (set vas) s s'"
  using assms
proof (induction vas arbitrary: s)
  case Nil
  then show ?case by (simp add: range_post_def same_but_leaves_refl)
next
  case (Cons va vas)
  have ready: "page_ready pml4 s va" using Cons.prems(2) by simp
  obtain s1 where s1: "leaf_walk act va levels pml4 s = Some s1" "range_post pml4 {va} s s1"
    and keep: "\<And>va'. no_huge_on_path (mem s) pml4 va' \<Longrightarrow> no_huge_on_path (mem s1) pml4 va'"
      "\<And>b. is_table (mem s1) pml4 b \<longleftrightarrow> is_table (mem s) pml4 b"
    by (rule one_page [OF Cons.prems(1) ready]) (rule that)
  have "page_ready pml4 s1 b" if "b \<in> set vas" for b
    using Cons.prems(2,3) that by (intro pages_apart_step [OF _ Cons.prems(1) ready that _ s1(2) keep]) simp_all
  moreover have "pages_apart pml4 s1 (set vas)" by (rule pages_apart_after [OF Cons.prems(3) s1(2)]) auto
  moreover have "user_wf pml4 s1" using s1(2) by (simp add: range_post_def)
  ultimately obtain s' where "for_each (\<lambda>va. leaf_walk act va levels pml4) vas s1 = Some s'" "range_post pml4 (set vas) s1 s'"
    using Cons.IH by blast
  with s1(1) range_post_trans [OF s1(2), of "set vas" s'] show ?case by simp
qed

lemma range_post_cong:
  assumes "va_path ` A = va_path ` B"
  shows "range_post pml4 A s s' = range_post pml4 B s s'"
proof -
  have "leaf_entry (mem s) pml4 = (\<lambda>p. case walk (mem s) pml4 (take 3 p) of None \<Rightarrow> None
      | Some t \<Rightarrow> Some (mem s t (p ! 3))) \<circ> va_path"
    by (simp add: fun_eq_iff leaf_entry_def nth_va_path cong: option.case_cong)
  then obtain g where g: "leaf_entry (mem s) pml4 = g \<circ> va_path" by blast
  have "leaf_entry (mem s) pml4 ` A = leaf_entry (mem s) pml4 ` B" unfolding g image_comp [symmetric] assms ..
  moreover have "given_up pml4 s C = (\<Union>x \<in> leaf_entry (mem s) pml4 ` C. \<Union>e \<in> set_option x. if present e then freed e else {})" for C
    by (simp add: given_up_def)
  ultimately have "given_up pml4 s A = given_up pml4 s B" by (simp only:)
  then show ?thesis
    unfolding range_post_def assms given_up_def same_but_leaves_def leaf_slots_cong [OF assms] by simp
qed

lemma whole_range:
  assumes n: "range_num_pages start size_bytes = Some n" and wf: "user_wf pml4 s"
    and ready: "\<And>a. in_range start size_bytes a \<Longrightarrow> page_ready pml4 s a"
    and apart: "pages_apart pml4 s {a. in_range start size_bytes a}"
  shows "\<exists>s'. leaf_range act pml4 start size_bytes s = Some s'
    \<and> range_post pml4 {a. in_range start size_bytes a} s s'"
proof -
  let ?A = "{a. in_range start size_bytes a}"
  let ?b = "start AND 0x000FFFFFFFFFF000"
  define page where "page i = the (checked_add ?b (push_bit 12 (of_nat i)))" for i
  have page: "checked_add ?b (push_bit 12 (of_nat i)) = Some (page i)"
    "\<exists>a \<in> ?A. va_path (page i) = va_path a \<and> unat a div 4096 = unat start div 4096 + i" if lt: "i < unat n" for i
  proof -
    obtain va where va: "checked_add ?b (push_bit 12 (of_nat i)) = Some va"
      "\<And>a. unat a div 4096 = unat start div 4096 + i \<Longrightarrow> va_path va = va_path a"
      by (rule masked_page_address [OF n lt]) (rule that)
    then show "checked_add ?b (push_bit 12 (of_nat i)) = Some (page i)" by (simp add: page_def)
    obtain a where "start \<le> a" "unat a < unat start + unat size_bytes" "unat a div 4096 = unat start div 4096 + i"
      by (rule range_page_in_range [OF n lt])
    with va show "\<exists>a \<in> ?A. va_path (page i) = va_path a \<and> unat a div 4096 = unat start div 4096 + i"
      by (intro bexI [of _ a]) (simp_all add: page_def in_range_def)
  qed
  have "for_each (leaf_page act pml4 ?b) ps r = for_each (\<lambda>va. leaf_walk act va levels pml4) (map page ps) r"
    if "set ps \<subseteq> {..<unat n}" for ps r
    using that by (induction ps arbitrary: r) (simp_all add: leaf_page_def page cong: Option.bind_cong)
  then have run: "leaf_range act pml4 start size_bytes s =
      for_each (\<lambda>va. leaf_walk act va levels pml4) (map page [0..<unat n]) s"
    by (simp add: leaf_range_def n atLeast0LessThan)
  have paths: "va_path ` set (map page [0..<unat n]) = va_path ` ?A"
  proof (intro equalityI subsetI)
    fix p assume "p \<in> va_path ` ?A"
    then obtain a where a: "in_range start size_bytes a" "p = va_path a" by auto
    then obtain i where i: "i < unat n" "unat a div 4096 = unat start div 4096 + i"
      using range_address_page [OF n] by (metis in_range_def)
    from page(2) [OF i(1)] obtain a' where "va_path (page i) = va_path a'" "unat a' div 4096 = unat a div 4096"
      using i(2) by auto
    then have "va_path (page i) = p" using va_path_page a(2) by metis
    with i(1) show "p \<in> va_path ` set (map page [0..<unat n])" by auto
  next
    fix p assume "p \<in> va_path ` set (map page [0..<unat n])"
    then obtain i where "i < unat n" "p = va_path (page i)" by auto
    with page(2) [of i] show "p \<in> va_path ` ?A" by auto
  qed
  have ready': "page_ready pml4 s va" if "va \<in> set (map page [0..<unat n])" for va
  proof -
    have "va_path va \<in> va_path ` ?A" using that paths by (metis image_eqI)
    then obtain a where a: "in_range start size_bytes a" "va_path va = va_path a" by auto
    from ready [OF a(1)] show ?thesis
      unfolding page_ready_def leaf_entry_path [OF a(2)] no_huge_path [OF a(2)] .
  qed
  have apart': "pages_apart pml4 s (set (map page [0..<unat n]))"
    unfolding pages_apart_def
  proof (intro ballI allI impI)
    fix a b e f
    assume h: "a \<in> set (map page [0..<unat n])" "b \<in> set (map page [0..<unat n])" "va_path a \<noteq> va_path b"
      "leaf_entry (mem s) pml4 a = Some e" "leaf_entry (mem s) pml4 b = Some f" "present e" "present f"
    from h(1,2) paths have "va_path a \<in> va_path ` ?A" "va_path b \<in> va_path ` ?A" by (metis image_eqI)+
    then obtain a' b' where ab: "a' \<in> ?A" "b' \<in> ?A" "va_path a = va_path a'" "va_path b = va_path b'" by auto
    with h(3-7) apart leaf_entry_path [OF ab(3)] leaf_entry_path [OF ab(4)] show "freed e \<inter> freed f = {}"
      unfolding pages_apart_def by metis
  qed
  from all_pages [OF wf ready' apart'] show ?thesis
    unfolding run range_post_cong [OF paths] .
qed

end

subsection \<open>Unmapping a range\<close>

interpretation unmapping: leaf_update unmap_action "\<lambda>_. ENTRY_ZERO" "\<lambda>e. {address e}"
proof unfold_locales
  show "\<exists>s'. unmap_action t i e s = Some s' \<and> mem s' = write_entry (mem s) t i ENTRY_ZERO \<and> machine_inv s'
      \<and> machine_frames s' = machine_frames s - {address e}"
    if "machine_inv s" "{address e} \<subseteq> machine_frames s" for s e t i
    using machine_alloc.release_frame [of s "address e"] that by (auto simp: unmap_action_def)
qed (simp_all add: ENTRY_ZERO_def present_def huge_page_def)

text \<open>
  C27. \<^verbatim>\<open>unmap_mem\<close> of a range whose last-level tables exist never panics: afterwards no address of the range
  is mapped, every other translation is as before, and exactly the frames that were mapped in the
  range are free again. The pages are those that hold a byte of the range, not \<^verbatim>\<open>(size / 4096) + 1\<close> pages,
  as the comment of the function says. Every entry of a parent table stays as it is.
\<close>

theorem unmap_mem_correct:
  assumes wf: "user_wf pml4 s" and range: "size_bytes \<noteq> 0" "unat start + unat size_bytes \<le> 2 ^ 64"
    and tables: "\<forall>a. in_range start size_bytes a \<longrightarrow> no_huge_on_path (mem s) pml4 a \<and> leaf_entry (mem s) pml4 a \<noteq> None"
    and held: "\<forall>a f. in_range start size_bytes a \<longrightarrow> user_translate pml4 s a = Some f \<longrightarrow>
      f \<in> machine_frames s \<and> \<not> is_table (mem s) pml4 f"
    and once: "\<forall>a b f. in_range start size_bytes a \<longrightarrow> in_range start size_bytes b \<longrightarrow>
      user_translate pml4 s a = Some f \<longrightarrow> user_translate pml4 s b = Some f \<longrightarrow> va_path a = va_path b"
  shows "\<exists>s'. unmap_mem pml4 start size_bytes s = Some s' \<and> user_wf pml4 s'
    \<and> (\<forall>va. user_translate pml4 s' va =
         (if \<exists>a. in_range start size_bytes a \<and> a AND 0xFFFFFFFFF000 = va AND 0xFFFFFFFFF000 then None
          else user_translate pml4 s va))
    \<and> machine_frames s' = machine_frames s - {f. \<exists>a. in_range start size_bytes a \<and> user_translate pml4 s a = Some f}
    \<and> (\<forall>va k. k < 3 \<longrightarrow> level_entry (mem s') pml4 va k = level_entry (mem s) pml4 va k)"
proof -
  obtain n where n: "range_num_pages start size_bytes = Some n"
    using range range_num_pages_None [of start size_bytes] by fastforce
  have mapped: "user_translate pml4 s a = Some (address e)" if "leaf_entry (mem s) pml4 a = Some e" "present e" for a e
    using that by (simp add: user_translate_def translate_leaf_entry)
  have ready: "unmapping.page_ready pml4 s a" if "in_range start size_bytes a" for a
    using tables [rule_format, OF that] held [rule_format, OF that] mapped by (auto simp: unmapping.page_ready_def)
  have "unmapping.pages_apart pml4 s {a. in_range start size_bytes a}"
    unfolding unmapping.pages_apart_def using once mapped by (metis disjoint_insert(1) inf_bot_right mem_Collect_eq singletonD)
  from unmapping.whole_range [OF n wf ready this] obtain s' where s': "unmap_mem pml4 start size_bytes s = Some s'"
    "unmapping.range_post pml4 {a. in_range start size_bytes a} s s'" by (auto simp: unmap_mem_def)
  have leaf: "leaf_entry (mem s') pml4 va =
      (if va_path va \<in> va_path ` {a. in_range start size_bytes a}
       then map_option unmapping.entry_after (leaf_entry (mem s) pml4 va) else leaf_entry (mem s) pml4 va)" for va
    using s'(2) by (simp add: unmapping.range_post_def)
  have after: "\<not> present (unmapping.entry_after e)" for e
    unfolding unmapping.entry_after_def by (simp add: ENTRY_ZERO_def)
  have "va_path va \<in> va_path ` {a. in_range start size_bytes a}
      \<longleftrightarrow> (\<exists>a. in_range start size_bytes a \<and> a AND 0xFFFFFFFFF000 = va AND 0xFFFFFFFFF000)" for va
    unfolding va_path_eq_iff [symmetric] by (auto simp: image_iff eq_commute)
  then have "user_translate pml4 s' va =
      (if \<exists>a. in_range start size_bytes a \<and> a AND 0xFFFFFFFFF000 = va AND 0xFFFFFFFFF000 then None
       else user_translate pml4 s va)" for va
    unfolding user_translate_def translate_leaf_entry leaf by (simp add: after split: option.splits)
  moreover have "unmapping.given_up pml4 s {a. in_range start size_bytes a}
      = {f. \<exists>a. in_range start size_bytes a \<and> user_translate pml4 s a = Some f}"
    unfolding unmapping.given_up_def user_translate_def translate_leaf_entry
    by (auto split: option.splits if_splits)
  moreover have same: "user_wf pml4 s'" "same_but_leaves pml4 {a. in_range start size_bytes a} (mem s) (mem s')"
    using s'(2) by (simp_all add: unmapping.range_post_def)
  moreover have "level_entry (mem s') pml4 va k = level_entry (mem s) pml4 va k" if "k < 3" for va k
    using same_but_leaves_parents [OF conjunct2 [OF wf [unfolded user_wf_def]] same(2) that] .
  ultimately show ?thesis using s'(1) unmapping.range_post_frames [OF s'(2)] by simp
qed

lemma mapped_range:
  assumes "in_range 0x400000 0x2000 a"
  obtains "va_path a = va_path 0x400000" | "va_path a = va_path 0x401000"
proof -
  have "unat a div 4096 = 1024 \<or> unat a div 4096 = 1025"
    using assms by (auto simp: in_range_def word_le_nat_alt)
  then show thesis using that va_path_page [of a "0x400000"] va_path_page [of a "0x401000"] by auto
qed

lemma mapped_leaf_entries:
  "leaf_entry (mem mapped_machine) 0x1000 0x400000 = Some 0x5007"
  "leaf_entry (mem mapped_machine) 0x1000 0x401000 = Some 0x6007"
  by (simp_all add: leaf_entry_def mapped_paths mapped_levels small_machine_levels mapped_machine_def
      mapped_memory_def write_entry_def mapped_entries)

lemma small_range: "(0x2000 :: usize) \<noteq> 0" "unat (0x400000 :: usize) + unat (0x2000 :: usize) \<le> 2 ^ 64"
  by simp_all

lemma mapped_range_tables:
  "\<forall>a. in_range 0x400000 0x2000 a \<longrightarrow>
     no_huge_on_path (mem mapped_machine) 0x1000 a \<and> leaf_entry (mem mapped_machine) 0x1000 a \<noteq> None"
proof (intro allI impI)
  fix a assume a: "in_range 0x400000 0x2000 a"
  show "no_huge_on_path (mem mapped_machine) 0x1000 a \<and> leaf_entry (mem mapped_machine) 0x1000 a \<noteq> None"
  proof (cases rule: mapped_range [OF a])
    case 1
    show ?thesis unfolding no_huge_path [OF 1] leaf_entry_path [OF 1] by (simp add: mapped_not_huge mapped_leaf_entries)
  next
    case 2
    show ?thesis unfolding no_huge_path [OF 2] leaf_entry_path [OF 2] by (simp add: mapped_not_huge mapped_leaf_entries)
  qed
qed

theorem unmap_mem_correct_witness:
  "\<exists>s'. unmap_mem 0x1000 0x400000 0x2000 mapped_machine = Some s' \<and> user_wf 0x1000 s'
     \<and> user_translate 0x1000 s' 0x400000 = None \<and> user_translate 0x1000 s' 0x401000 = None
     \<and> machine_frames s' \<subseteq> {0x1000, 0x2000, 0x3000, 0x4000}"
proof -
  let ?s = mapped_machine
  have tr: "user_translate 0x1000 ?s a = Some (if va_path a = va_path 0x400000 then 0x5000 else 0x6000)"
    if "in_range 0x400000 0x2000 a" for a
    using that by (cases rule: mapped_range)
      (use mapped_translations in \<open>simp_all add: user_translate_def translate_def mapped_paths\<close>)
  note tables = mapped_range_tables
  have held: "\<forall>a f. in_range 0x400000 0x2000 a \<longrightarrow> user_translate 0x1000 ?s a = Some f \<longrightarrow>
      f \<in> machine_frames ?s \<and> \<not> is_table (mem ?s) 0x1000 f"
    using tr mapped_not_tables by (simp add: mapped_machine_frames)
  have two: "va_path a = va_path 0x400000 \<or> va_path a = va_path 0x401000" if "in_range 0x400000 0x2000 a" for a
    using that by (cases rule: mapped_range) simp_all
  have once: "\<forall>a b f. in_range 0x400000 0x2000 a \<longrightarrow> in_range 0x400000 0x2000 b \<longrightarrow>
      user_translate 0x1000 ?s a = Some f \<longrightarrow> user_translate 0x1000 ?s b = Some f \<longrightarrow> va_path a = va_path b"
  proof (intro allI impI)
    fix a b f
    assume ab: "in_range 0x400000 0x2000 a" "in_range 0x400000 0x2000 b"
      "user_translate 0x1000 ?s a = Some f" "user_translate 0x1000 ?s b = Some f"
    from tr [OF ab(1)] tr [OF ab(2)] ab(3,4) two [OF ab(1)] two [OF ab(2)] show "va_path a = va_path b"
      by (simp split: if_splits)
  qed
  have r: "in_range 0x400000 0x2000 0x400000" "in_range 0x400000 0x2000 0x401000" by (simp_all add: in_range_def)
  obtain s' where s': "unmap_mem 0x1000 0x400000 0x2000 ?s = Some s'" "user_wf 0x1000 s'"
    and t: "\<forall>va. user_translate 0x1000 s' va =
       (if \<exists>a. in_range 0x400000 0x2000 a \<and> a AND 0xFFFFFFFFF000 = va AND 0xFFFFFFFFF000 then None
        else user_translate 0x1000 ?s va)"
    and f: "machine_frames s' = machine_frames ?s - {f. \<exists>a. in_range 0x400000 0x2000 a \<and> user_translate 0x1000 ?s a = Some f}"
    using unmap_mem_correct [OF mapped_machine_wf small_range tables held once] by (elim exE conjE) (rule that)
  from t r have "user_translate 0x1000 s' 0x400000 = None" "user_translate 0x1000 s' 0x401000 = None" by metis+
  moreover have "{0x5000, 0x6000} \<subseteq> {f. \<exists>a. in_range 0x400000 0x2000 a \<and> user_translate 0x1000 ?s a = Some f}"
    using r mapped_translations by auto
  with f have "machine_frames s' \<subseteq> {0x1000, 0x2000, 0x3000, 0x4000}" by (auto simp: mapped_machine_frames)
  ultimately show ?thesis using s' by blast
qed

subsection \<open>Changing the flags of a range\<close>

text \<open>Rewriting an entry with its own address keeps the frame and can be repeated.\<close>

lemma address_address_or:
  "(\<And>n. 12 \<le> n \<Longrightarrow> n < 52 \<Longrightarrow> \<not> bit f n) \<Longrightarrow> address (address e OR f) = address e"
  by (subst address_or_flags) (auto intro!: bit_word_eqI simp: bit_address min_def)

lemma bit_change_mask: "bit (0x80000000000001FE :: u64) n \<longleftrightarrow> (1 \<le> n \<and> n < 9) \<or> n = 63"
proof -
  have *: "(0x80000000000001FE :: int) = push_bit 1 (mask 8) OR 0x8000000000000000"
    by (simp add: mask_eq_exp_minus_1 push_bit_eq_mult)
  have "bit (0x80000000000001FE :: int) n \<longleftrightarrow> (1 \<le> n \<and> n < 9) \<or> n = 63"
    unfolding * bit_or_iff bit_push_bit_iff bit_mask_iff by auto
  then show ?thesis by auto
qed

lemma bit_small_flags_mask: "bit (0x800000000000017E :: u64) n \<longleftrightarrow> (1 \<le> n \<and> n < 7) \<or> n = 8 \<or> n = 63"
proof -
  have *: "(0x800000000000017E :: int) = push_bit 1 (mask 6) OR 2 ^ 8 OR 2 ^ 63"
    by (simp add: mask_eq_exp_minus_1 push_bit_eq_mult)
  have "bit (0x800000000000017E :: int) n \<longleftrightarrow> (1 \<le> n \<and> n < 7) \<or> n = 8 \<or> n = 63"
    unfolding * bit_or_iff bit_exp_iff bit_push_bit_iff bit_mask_iff by auto
  then show ?thesis by auto
qed

definition set_flags :: "page_table_entry \<Rightarrow> u64" where
  "set_flags flags = (flags AND 0x800000000000017E) OR 1"

lemma bit_set_flags: "bit (set_flags flags) n \<longleftrightarrow> n = 0 \<or> ((1 \<le> n \<and> n < 7) \<or> n = 8 \<or> n = 63) \<and> bit flags n"
  unfolding set_flags_def bit_or_iff bit_and_iff bit_small_flags_mask by (auto simp: bit_1_iff)

lemma set_flags_eq: "\<not> huge_page flags \<Longrightarrow> (flags AND 0x80000000000001FE) OR 1 = set_flags flags"
proof (rule bit_word_eqI)
  fix n :: nat assume "\<not> huge_page flags"
  then have "\<not> bit flags 7" by (simp add: huge_page_def)
  moreover have "1 \<le> n \<and> n < 9 \<longleftrightarrow> (1 \<le> n \<and> n < 7) \<or> n = 7 \<or> n = 8" by auto
  ultimately show "bit ((flags AND 0x80000000000001FE) OR 1) n \<longleftrightarrow> bit (set_flags flags) n"
    unfolding bit_set_flags bit_or_iff bit_and_iff bit_change_mask by (auto simp: bit_1_iff)
qed

lemma set_flags_entry:
  "present (address e OR set_flags flags)" "address (address e OR set_flags flags) = address e"
  "\<not> huge_page (address e OR set_flags flags)"
  by (auto intro!: address_address_or simp: bit_set_flags present_def huge_page_def bit_or_iff bit_address)

interpretation flags: leaf_update "set_flags_action (set_flags flags)" "\<lambda>e. address e OR set_flags flags" "\<lambda>_. {}" for flags
  by unfold_locales (simp_all add: set_flags_action_def set_flags_entry)

text \<open>
  C28. \<^verbatim>\<open>change_flags\<close> of a range whose last-level tables exist never panics and changes no translation and
  no frame: the entry of a mapped page of the range gets exactly the given flags (and present), the
  entry of every other page stays as it is, and so do all entries of parent tables: the permissions
  of the parents are not relaxed, and the pages are those that hold a byte of the range, not \<^verbatim>\<open>(size / 4096) + 1\<close>
  pages, although the comment of the function says both. No other word of memory changes.
\<close>

theorem change_flags_correct:
  assumes wf: "user_wf pml4 s" and range: "size_bytes \<noteq> 0" "unat start + unat size_bytes \<le> 2 ^ 64"
    and tables: "\<forall>a. in_range start size_bytes a \<longrightarrow> no_huge_on_path (mem s) pml4 a \<and> leaf_entry (mem s) pml4 a \<noteq> None"
    and small: "\<not> huge_page flags"
  shows "\<exists>s'. change_flags pml4 start size_bytes flags s = Some s' \<and> user_wf pml4 s'
    \<and> machine_frames s' = machine_frames s
    \<and> (\<forall>va. user_translate pml4 s' va = user_translate pml4 s va)
    \<and> (\<forall>va e. leaf_entry (mem s) pml4 va = Some e \<longrightarrow>
         leaf_entry (mem s') pml4 va =
           Some (if present e \<and> (\<exists>a. in_range start size_bytes a \<and> a AND 0xFFFFFFFFF000 = va AND 0xFFFFFFFFF000)
                 then address e OR (flags AND 0x800000000000017E) OR 1 else e))
    \<and> (\<forall>va k. k < 3 \<longrightarrow> level_entry (mem s') pml4 va k = level_entry (mem s) pml4 va k)
    \<and> (\<forall>t i. mem s' t i = mem s t i
         \<or> (\<exists>a. in_range start size_bytes a \<and> walk (mem s) pml4 (take 3 (va_path a)) = Some t \<and> i = level_index 3 a))"
proof -
  obtain n where n: "range_num_pages start size_bytes = Some n"
    using range range_num_pages_None [of start size_bytes] by fastforce
  have ready: "flags.page_ready pml4 s a" if "in_range start size_bytes a" for a
    using tables [rule_format, OF that] unfolding flags.page_ready_def by auto
  have "flags.pages_apart pml4 s {a. in_range start size_bytes a}" unfolding flags.pages_apart_def by simp
  from flags.whole_range [OF n wf ready this] obtain s' where s': "change_flags pml4 start size_bytes flags s = Some s'"
    and post: "flags.range_post flags pml4 {a. in_range start size_bytes a} s s'"
    by (auto simp: change_flags_def set_flags_eq [OF small])
  have leaf: "leaf_entry (mem s') pml4 va =
      (if va_path va \<in> va_path ` {a. in_range start size_bytes a}
       then map_option (flags.entry_after flags) (leaf_entry (mem s) pml4 va) else leaf_entry (mem s) pml4 va)" for va
    using post unfolding flags.range_post_def by blast
  have path: "va_path va \<in> va_path ` {a. in_range start size_bytes a}
      \<longleftrightarrow> (\<exists>a. in_range start size_bytes a \<and> a AND 0xFFFFFFFFF000 = va AND 0xFFFFFFFFF000)" for va
    unfolding va_path_eq_iff [symmetric] by (auto simp: image_iff eq_commute)
  have after: "flags.entry_after flags e = (if present e then address e OR (flags AND 0x800000000000017E) OR 1 else e)"
    "present (flags.entry_after flags e) = present e" "address (flags.entry_after flags e) = address e" for e
    unfolding flags.entry_after_def using set_flags_entry [of e flags] by (auto simp: set_flags_def or.assoc)
  have "user_translate pml4 s' va = user_translate pml4 s va" for va
    unfolding user_translate_def translate_leaf_entry leaf by (simp add: after(2,3) split: option.splits)
  moreover have "leaf_entry (mem s') pml4 va = Some (if present e \<and>
        (\<exists>a. in_range start size_bytes a \<and> a AND 0xFFFFFFFFF000 = va AND 0xFFFFFFFFF000)
       then address e OR (flags AND 0x800000000000017E) OR 1 else e)" if "leaf_entry (mem s) pml4 va = Some e" for va e
    unfolding leaf path that by (auto simp: after(1))
  moreover have "user_wf pml4 s'" using post unfolding flags.range_post_def by blast
  moreover have "machine_frames s' = machine_frames s"
    using flags.range_post_frames [OF post] unfolding flags.given_up_def by simp
  moreover have same: "same_but_leaves pml4 {a. in_range start size_bytes a} (mem s) (mem s')"
    using post unfolding flags.range_post_def by blast
  then have "mem s' t i = mem s t i
      \<or> (\<exists>a. in_range start size_bytes a \<and> walk (mem s) pml4 (take 3 (va_path a)) = Some t \<and> i = level_index 3 a)" for t i
    unfolding same_but_leaves_def leaf_slots_def by blast
  moreover have "level_entry (mem s') pml4 va k = level_entry (mem s) pml4 va k" if "k < 3" for va k
    using same_but_leaves_parents [OF conjunct2 [OF wf [unfolded user_wf_def]] same that] .
  ultimately show ?thesis using s' by blast
qed

theorem change_flags_correct_witness:
  "\<exists>s'. change_flags 0x1000 0x400000 0x2000 READ mapped_machine = Some s'
     \<and> leaf_entry (mem s') 0x1000 0x401000 = Some (0x6000 OR (READ AND 0x800000000000017E) OR 1)
     \<and> user_translate 0x1000 s' 0x401000 = Some 0x6000"
proof -
  have small: "\<not> huge_page READ" by (simp add: huge_page_def READ_def bit_from_data default_page_table_data_def)
  have "in_range 0x400000 0x2000 0x401000" by (simp add: in_range_def)
  then have r: "\<exists>a. in_range 0x400000 0x2000 a \<and> a AND 0xFFFFFFFFF000 = 0x401000 AND 0xFFFFFFFFF000" by blast
  obtain s' where s': "change_flags 0x1000 0x400000 0x2000 READ mapped_machine = Some s'"
    and t: "\<forall>va. user_translate 0x1000 s' va = user_translate 0x1000 mapped_machine va"
    and l: "\<forall>va e. leaf_entry (mem mapped_machine) 0x1000 va = Some e \<longrightarrow> leaf_entry (mem s') 0x1000 va =
       Some (if present e \<and> (\<exists>a. in_range 0x400000 0x2000 a \<and> a AND 0xFFFFFFFFF000 = va AND 0xFFFFFFFFF000)
             then address e OR (READ AND 0x800000000000017E) OR 1 else e)"
    using change_flags_correct [OF mapped_machine_wf small_range mapped_range_tables small] by (elim exE conjE) (rule that)
  from l [rule_format, OF mapped_leaf_entries(2)] r mapped_entries
  have "leaf_entry (mem s') 0x1000 0x401000 = Some (0x6000 OR (READ AND 0x800000000000017E) OR 1)" by simp
  with s' t mapped_translations show ?thesis by auto
qed

subsection \<open>Relaxing the flags of a range\<close>

definition relaxed_entry :: "page_table_entry \<Rightarrow> page_table_entry \<Rightarrow> page_table_entry" where
  "relaxed_entry flags e =
     (address e OR ((flags AND 0x6) OR 1))
     AND (if flags AND push_bit 63 1 = 0 then NOT (push_bit 63 1) else NOT 0)"

lemma bit_six: "bit (6 :: u64) n \<longleftrightarrow> n = 1 \<or> n = 2"
proof -
  have *: "(6 :: int) = 2 ^ 1 OR 2 ^ 2" by simp
  have "bit (6 :: int) n \<longleftrightarrow> n = 1 \<or> n = 2" unfolding * bit_or_iff bit_exp_iff by auto
  then show ?thesis by auto
qed

lemma bit_relaxed_entry:
  "bit (relaxed_entry flags e) n \<longleftrightarrow>
     n = 0 \<or> (n = 1 \<or> n = 2) \<and> bit flags n \<or> 12 \<le> n \<and> n < 64 \<and> bit e (min n 51) \<and> (n = 63 \<longrightarrow> bit flags 63)"
proof -
  have nx: "(flags AND push_bit 63 1 = 0) \<longleftrightarrow> \<not> bit flags 63"
    unfolding bit_eq_iff [of "flags AND push_bit 63 1"] by (auto simp: bit_simps dest!: spec [of _ 63])
  have m: "bit (if flags AND push_bit 63 1 = 0 then NOT (push_bit 63 1) else NOT 0 :: u64) n
      \<longleftrightarrow> n < 64 \<and> (n = 63 \<longrightarrow> bit flags 63)"
    unfolding nx by (auto simp: bit_simps)
  show ?thesis
    unfolding relaxed_entry_def bit_and_iff bit_or_iff m bit_six bit_address by (auto simp: bit_1_iff)
qed

lemma relaxed_entry_simps:
  "present (relaxed_entry flags e)" "\<not> huge_page (relaxed_entry flags e)"
  "address (relaxed_entry flags e) = address e"
  by (auto simp: present_def huge_page_def bit_relaxed_entry bit_address min_def intro!: bit_word_eqI)

interpretation relaxing: leaf_update
  "relax_flags_action ((flags AND 0x6) OR 1) (if flags AND push_bit 63 1 = 0 then NOT (push_bit 63 1) else NOT 0)"
  "relaxed_entry flags" "\<lambda>_. {}" for flags
proof unfold_locales
  show "relaxed_entry flags (relaxed_entry flags e) = relaxed_entry flags e \<and> {} = {}" for flags e
    by (simp add: relaxed_entry_def [of flags "relaxed_entry flags e"] relaxed_entry_simps)
      (simp add: relaxed_entry_def)
qed (simp_all add: relax_flags_action_def relaxed_entry_simps, simp add: relaxed_entry_def)

text \<open>
  \<^verbatim>\<open>change_flags_relaxing\<close> does not relax permissions but replaces them: a mapped page of the range is
  afterwards writable and accessible to the user exactly when the given flags say so, whatever it was
  before, and it is always executable, even if the flags ask for the contrary.
\<close>

theorem change_flags_relaxing_replaces:
  assumes wf: "user_wf pml4 s" and range: "size_bytes \<noteq> 0" "unat start + unat size_bytes \<le> 2 ^ 64"
    and tables: "\<forall>a. in_range start size_bytes a \<longrightarrow> no_huge_on_path (mem s) pml4 a \<and> leaf_entry (mem s) pml4 a \<noteq> None"
    and a: "in_range start size_bytes a" "leaf_entry (mem s) pml4 a = Some e" "present e" "\<not> bit e 51"
  shows "\<exists>s' e'. change_flags_relaxing pml4 start size_bytes flags s = Some s' \<and> user_wf pml4 s'
    \<and> leaf_entry (mem s') pml4 a = Some e' \<and> present e' \<and> address e' = address e
    \<and> writable e' = writable flags \<and> user_accessable e' = user_accessable flags \<and> \<not> no_execute e'"
proof -
  obtain n where n: "range_num_pages start size_bytes = Some n"
    using range range_num_pages_None [of start size_bytes] by fastforce
  have ready: "relaxing.page_ready pml4 s a" if "in_range start size_bytes a" for a
    using tables [rule_format, OF that] unfolding relaxing.page_ready_def by auto
  have "relaxing.pages_apart pml4 s {a. in_range start size_bytes a}" unfolding relaxing.pages_apart_def by simp
  from relaxing.whole_range [OF n wf ready this] obtain s' where
    s': "change_flags_relaxing pml4 start size_bytes flags s = Some s'"
    and post: "relaxing.range_post flags pml4 {a. in_range start size_bytes a} s s'"
    by (auto simp: change_flags_relaxing_def)
  have "va_path a \<in> va_path ` {a. in_range start size_bytes a}" using a(1) by simp
  then have "leaf_entry (mem s') pml4 a = map_option (relaxing.entry_after flags) (leaf_entry (mem s) pml4 a)"
    using post unfolding relaxing.range_post_def by presburger
  then have "leaf_entry (mem s') pml4 a = Some (relaxed_entry flags e)"
    using a(2,3) by (simp add: relaxing.entry_after_def)
  moreover have "user_wf pml4 s'" using post unfolding relaxing.range_post_def by blast
  moreover have "writable (relaxed_entry flags e) = writable flags"
    "user_accessable (relaxed_entry flags e) = user_accessable flags" "\<not> no_execute (relaxed_entry flags e)"
    using a(4) by (simp_all add: writable_def user_accessable_def no_execute_def bit_relaxed_entry)
  ultimately show ?thesis using s' relaxed_entry_simps by blast
qed

text \<open>Relaxing a writable page with read-only flags takes its write permission away.\<close>

theorem change_flags_relaxing_replaces_witness:
  "\<exists>s' e'. change_flags_relaxing 0x1000 0x400000 0x2000 READ mapped_machine = Some s'
     \<and> leaf_entry (mem mapped_machine) 0x1000 0x400000 = Some 0x5007 \<and> writable 0x5007
     \<and> leaf_entry (mem s') 0x1000 0x400000 = Some e' \<and> \<not> writable e'"
proof -
  have "in_range 0x400000 0x2000 0x400000" by (simp add: in_range_def)
  moreover have "\<not> bit (0x5007 :: u64) 51" "writable 0x5007" by (simp_all add: writable_def)
  moreover have "\<not> writable READ" by (simp add: writable_def READ_def bit_from_data default_page_table_data_def)
  ultimately show ?thesis
    using change_flags_relaxing_replaces [OF mapped_machine_wf small_range mapped_range_tables _ mapped_leaf_entries(1)
        mapped_entries(7), of READ] mapped_leaf_entries(1) by metis
qed

end
