(* ===== verification/Virtual_Page_Mapping.thy ===== *)
theory Virtual_Page_Mapping
  imports Page_Ranges
begin

text \<open>
  The virtual page mapper, \<^verbatim>\<open>src/kernel/src/arch/x86_64/virtual_page_mapping.rs\<close>: the mapper that was in
  use before the user page mapper. Its loops over a range are the ones of the user page mapper, line
  by line, and are modelled by the same functions; its \<^verbatim>\<open>map_mem_copy_from_buffer\<close> differs.
\<close>

subsection \<open>Mapping a buffer\<close>

text \<open>The new parent tables replace whatever the entries held: there is no check for a present entry.\<close>

fun vpm_copy_levels ::
  "u8 list \<Rightarrow> usize \<Rightarrow> nat list \<Rightarrow> usize \<Rightarrow> usize \<Rightarrow> usize \<Rightarrow> machine \<Rightarrow>
   ((reserve_page_error + (usize \<times> usize)) \<times> machine) option" where
  "vpm_copy_levels buffer va [] current start_offset data_written s = Some (Inr (start_offset, data_written), s)"
| "vpm_copy_levels buffer va (i # is) current start_offset data_written s =
     do { let index = level_index i va;
          guard (current \<noteq> 0);
          (r, s) \<leftarrow> find_and_reserve_page s;
          case r of
            Inl err \<Rightarrow> Some (Inl err, s)
          | Inr page \<Rightarrow>
              do { let new_page = owned_page_into_raw page;
                   let m = (if i < 3 then (mem s)(new_page := (\<lambda>_. 0)) else mem s);
                   let stripped_address = new_page AND 0x000FFFFFFFFFF000;
                   let entry = stripped_address OR (if i < 3 then READ_WRITE_EXECUTE else READ);
                   let m = write_entry m current index entry;
                   if i = 3
                   then do { (data_written, m) \<leftarrow> write_page_data buffer start_offset data_written (address entry) m;
                             vpm_copy_levels buffer va is (address entry) 0 data_written (s\<lparr>mem := m\<rparr>) }
                   else vpm_copy_levels buffer va is (address entry) start_offset data_written (s\<lparr>mem := m\<rparr>) } }"

fun vpm_copy_pages ::
  "u8 list \<Rightarrow> usize \<Rightarrow> usize \<Rightarrow> nat list \<Rightarrow> usize \<Rightarrow> usize \<Rightarrow> machine \<Rightarrow>
   ((reserve_page_error + unit) \<times> machine) option" where
  "vpm_copy_pages buffer pml4 start [] start_offset data_written s = Some (Inr (), s)"
| "vpm_copy_pages buffer pml4 start (page_i # pages) start_offset data_written s =
     do { va \<leftarrow> checked_add start (push_bit 12 (of_nat page_i));
          (r, s) \<leftarrow> vpm_copy_levels buffer va levels pml4 start_offset data_written s;
          case r of
            Inl err \<Rightarrow> Some (Inl err, s)
          | Inr (start_offset, data_written) \<Rightarrow> vpm_copy_pages buffer pml4 start pages start_offset data_written s }"

definition vpm_map_mem_copy_from_buffer ::
  "usize \<Rightarrow> usize \<Rightarrow> usize \<Rightarrow> u8 list \<Rightarrow> machine \<Rightarrow> ((reserve_page_error + unit) \<times> machine) option" where
  "vpm_map_mem_copy_from_buffer pml4 virtual_start_address size_bytes buffer s =
     do { num_pages \<leftarrow> range_num_pages virtual_start_address size_bytes;
          vpm_copy_pages buffer pml4 virtual_start_address [0..<unat num_pages]
            (virtual_start_address AND 0xFFF) 0 s }"

subsection \<open>The other operations\<close>

definition vpm_unmap_mem :: "usize \<Rightarrow> usize \<Rightarrow> usize \<Rightarrow> machine \<Rightarrow> machine option" where
  "vpm_unmap_mem pml4 start_address size_bytes s = leaf_range unmap_action pml4 start_address size_bytes s"

definition vpm_change_flags :: "usize \<Rightarrow> usize \<Rightarrow> usize \<Rightarrow> page_table_entry \<Rightarrow> machine \<Rightarrow> machine option" where
  "vpm_change_flags pml4 start_address size_bytes flags s =
     (let actual_flags = (flags AND 0x80000000000001FE) OR 1
      in leaf_range (set_flags_action actual_flags) pml4 start_address size_bytes s)"

definition vpm_change_flags_relaxing :: "usize \<Rightarrow> usize \<Rightarrow> usize \<Rightarrow> page_table_entry \<Rightarrow> machine \<Rightarrow> machine option" where
  "vpm_change_flags_relaxing pml4 start_address size_bytes flags s =
     (let relaxation_flags = (flags AND 0x6) OR 1;
          no_execute_mask = (if flags AND push_bit 63 1 = 0 then NOT (push_bit 63 1) else NOT 0)
      in leaf_range (relax_flags_action relaxation_flags no_execute_mask) pml4 start_address size_bytes s)"

definition vpm_free_page_tree :: "page_table_entry \<Rightarrow> nat \<Rightarrow> machine \<Rightarrow> machine option" where
  "vpm_free_page_tree node level s = free_page_tree_below (3 - level) node s"

definition virtual_page_mapper_drop :: "usize \<Rightarrow> machine \<Rightarrow> machine option" where
  "virtual_page_mapper_drop pml4 s =
     do { s \<leftarrow> for_each (\<lambda>entry s. if present entry then vpm_free_page_tree entry 0 s else Some s)
                 (map (mem s pml4) [0..<256]) s;
          owned_page_drop s pml4 }"

definition virtual_page_mapper_new :: "machine \<Rightarrow> ((reserve_page_error + usize) \<times> machine) option" where
  "virtual_page_mapper_new s =
     do { (r, s) \<leftarrow> find_and_reserve_page s;
          case r of
            Inl err \<Rightarrow> Some (Inl err, s)
          | Inr pml4 \<Rightarrow>
              do { let pml4_table = map (mem s pml4) [0..<512];
                   let lower = replicate 256 ENTRY_ZERO;
                   kernel_root \<leftarrow> page_table_address s;
                   guard (kernel_root \<noteq> 0);
                   let kernel_pml4 = map (mem s kernel_root) [0..<512];
                   upper \<leftarrow> slice_range pml4_table 256 512;
                   upper \<leftarrow> copy_from_slice upper kernel_pml4;
                   Some (Inr pml4, s\<lparr>mem := (mem s)(pml4 := (\<lambda>i. (lower @ upper) ! i))\<rparr>) } }"

subsection \<open>Mapping next to a mapped page\<close>

lemma vpm_levels_reserve:
  assumes "vpm_copy_levels buffer va (i # ls) current off dw s = Some (Inr r, s')"
  obtains a s0 where "find_and_reserve_page s = Some (Inr a, s0)"
  using assms by (auto simp: Let_def bind_eq_Some_conv simp del: split_paired_Ex split: sum.split_asm)

lemma vpm_table_step:
  assumes inv: "machine_inv s" and i: "i < 3"
    and run: "vpm_copy_levels buffer va (i # ls) current off dw s = Some (Inr r, s')"
  obtains a e s1 where "a \<notin> machine_frames s" "a \<noteq> 0" "present e" "address e = a" "machine_inv s1"
    "machine_frames s1 = insert a (machine_frames s)"
    "mem s1 = write_entry ((mem s)(a := (\<lambda>_. 0))) current (level_index i va) e"
    "vpm_copy_levels buffer va ls a off dw s1 = Some (Inr r, s')"
proof -
  from run obtain a s0 where res: "find_and_reserve_page s = Some (Inr a, s0)" by (rule vpm_levels_reserve)
  from machine_alloc.reserve_frame [OF inv res] have a: "a \<notin> machine_frames s" "machine_frames s0 = insert a (machine_frames s)"
    "frame_address a" "a \<noteq> 0" "mem s0 = (mem s)(a := (\<lambda>_. 0))" "machine_inv s0" by auto
  let ?e = "(a AND 0x000FFFFFFFFFF000) OR READ_WRITE_EXECUTE"
  note e = parent_entry [OF a(3)]
  let ?s1 = "s0\<lparr>mem := write_entry ((mem s0)(a := (\<lambda>_. 0))) current (level_index i va) ?e\<rparr>"
  have "vpm_copy_levels buffer va ls a off dw ?s1 = Some (Inr r, s')"
    using run i by (simp add: Let_def bind_eq_Some_conv res owned_page_into_raw_def e(2) guard_def split: if_splits)
  then show thesis using a e by (intro that [of a ?e ?s1]) simp_all
qed

lemma read_entry:
  assumes "frame_address a"
  shows "present ((a AND 0x000FFFFFFFFFF000) OR READ)" "address ((a AND 0x000FFFFFFFFFF000) OR READ) = a"
  by (rule frame_entry [OF assms]; auto simp: READ_def bit_from_data default_page_table_data_def)+

lemma vpm_leaf_step:
  assumes inv: "machine_inv s" and run: "vpm_copy_levels buffer va [3] current off dw s = Some (Inr r, s')"
  obtains a e where "a \<notin> machine_frames s" "present e" "machine_frames s' = insert a (machine_frames s)"
    "\<And>b. b \<noteq> a \<Longrightarrow> mem s' b = write_entry (mem s) current (level_index 3 va) e b"
proof -
  from run obtain a s0 where res: "find_and_reserve_page s = Some (Inr a, s0)" by (rule vpm_levels_reserve)
  from machine_alloc.reserve_frame [OF inv res] have a: "a \<notin> machine_frames s" "frame_address a"
    "mem s0 = (mem s)(a := (\<lambda>_. 0))" "machine_frames s0 = insert a (machine_frames s)" by auto
  let ?e = "(a AND 0x000FFFFFFFFFF000) OR READ"
  note e = read_entry [OF a(2)]
  from run obtain dw' m where w: "write_page_data buffer off dw a (write_entry (mem s0) current (level_index 3 va) ?e) = Some (dw', m)"
    and m: "mem s' = m" "machine_frames s' = machine_frames s0"
    by (auto simp: Let_def bind_eq_Some_conv res owned_page_into_raw_def e(2) split: if_splits)
  from w obtain bs where "m = page_from_bytes (write_entry (mem s0) current (level_index 3 va) ?e) a bs"
    by (auto simp: write_page_data_def Let_def bind_eq_Some_conv)
  then have "mem s' b = write_entry (mem s) current (level_index 3 va) ?e b" if "b \<noteq> a" for b
    using that by (simp add: m a(3) page_from_bytes_def write_entry_def)
  with a(1,4) e m(2) show thesis by (intro that) simp_all
qed

lemma vpm_copy_pages_one:
  "vpm_copy_pages buffer pml4 start [0] off dw s = Some (Inr (), s') \<Longrightarrow>
     \<exists>r. vpm_copy_levels buffer start levels pml4 off dw s = Some (Inr r, s')"
proof -
  have "checked_add start (push_bit 12 (of_nat 0)) = Some start" by (simp add: checked_add_Some)
  moreover assume "vpm_copy_pages buffer pml4 start [0] off dw s = Some (Inr (), s')"
  ultimately show ?thesis
    by (auto simp del: vpm_copy_levels.simps simp: bind_eq_Some_conv split: sum.split_asm prod.split_asm)
      (metis sum.exhaust surj_pair)+
qed

lemma one_page_range:
  assumes "range_num_pages start size_bytes = Some n" "unat (start AND 0xFFF) + unat size_bytes \<le> 4096"
  shows "unat n = 1"
proof -
  have "unat n = (unat start + unat size_bytes - 1) div 4096 - unat start div 4096 + 1" "unat size_bytes > 0"
    using assms(1) by (auto simp: range_num_pages_Some unat_gt_0)
  moreover have "unat start mod 4096 + unat size_bytes \<le> 4096" using assms(2) by (simp add: unat_page_offset_mask)
  then have "unat start + unat size_bytes - 1 < 4096 * (unat start div 4096) + 4096"
    using \<open>unat size_bytes > 0\<close> mult_div_mod_eq [of 4096 "unat start"] by linarith
  then have "(unat start + unat size_bytes - 1) div 4096 < unat start div 4096 + 1"
    by (simp add: div_less_iff_less_mult)
  ultimately show ?thesis by linarith
qed

text \<open>
  Mapping a buffer in one page replaces everything that was mapped in the same 512 GiB: afterwards
  the only page that is mapped under the top-level entry of the address is the new one, and the page
  tables and pages that were there are not freed. The documentation promises to keep existing parents.
\<close>

theorem vpm_map_mem_copy_from_buffer_replaces:
  assumes wf: "user_wf pml4 s" and one: "unat (start AND 0xFFF) + unat size_bytes \<le> 4096"
    and run: "vpm_map_mem_copy_from_buffer pml4 start size_bytes buffer s = Some (Inr (), s')"
    and same: "level_index 0 va = level_index 0 start"
  shows "(user_translate pml4 s' va \<noteq> None \<longleftrightarrow> va_path va = va_path start) \<and> machine_frames s \<subseteq> machine_frames s'"
proof -
  have inv: "machine_inv s" and pt: "pt_wf (mem s) pml4 (machine_frames s)" using wf by (simp_all add: user_wf_def)
  have root: "pml4 \<in> machine_frames s" using pt_wf_held [OF pt, of "[]"] by (simp add: table_path_def)
  from run obtain n where n: "range_num_pages start size_bytes = Some n"
    and pages: "vpm_copy_pages buffer pml4 start [0..<unat n] (start AND 0xFFF) 0 s = Some (Inr (), s')"
    by (auto simp: vpm_map_mem_copy_from_buffer_def bind_eq_Some_conv)
  have "unat n = 1" using n one by (rule one_page_range)
  with pages obtain r where r: "vpm_copy_levels buffer start [0, 1, 2, 3] pml4 (start AND 0xFFF) 0 s = Some (Inr r, s')"
    using vpm_copy_pages_one [unfolded levels_def, of buffer pml4 start "start AND 0xFFF" 0 s s']
    by (auto simp del: vpm_copy_levels.simps vpm_copy_pages.simps)
  obtain a0 e0 s0 where 0: "a0 \<notin> machine_frames s" "a0 \<noteq> 0" "present e0" "address e0 = a0" "machine_inv s0"
    "machine_frames s0 = insert a0 (machine_frames s)"
    "mem s0 = write_entry ((mem s)(a0 := (\<lambda>_. 0))) pml4 (level_index 0 start) e0"
    "vpm_copy_levels buffer start [1, 2, 3] a0 (start AND 0xFFF) 0 s0 = Some (Inr r, s')"
    by (rule vpm_table_step [OF inv _ r]) (simp, rule that)
  obtain a1 e1 s1 where 1: "a1 \<notin> machine_frames s0" "a1 \<noteq> 0" "present e1" "address e1 = a1" "machine_inv s1"
    "machine_frames s1 = insert a1 (machine_frames s0)"
    "mem s1 = write_entry ((mem s0)(a1 := (\<lambda>_. 0))) a0 (level_index 1 start) e1"
    "vpm_copy_levels buffer start [2, 3] a1 (start AND 0xFFF) 0 s1 = Some (Inr r, s')"
    by (rule vpm_table_step [OF 0(5) _ 0(8)]) (simp, rule that)
  obtain a2 e2 s2 where 2: "a2 \<notin> machine_frames s1" "a2 \<noteq> 0" "present e2" "address e2 = a2" "machine_inv s2"
    "machine_frames s2 = insert a2 (machine_frames s1)"
    "mem s2 = write_entry ((mem s1)(a2 := (\<lambda>_. 0))) a1 (level_index 2 start) e2"
    "vpm_copy_levels buffer start [3] a2 (start AND 0xFFF) 0 s2 = Some (Inr r, s')"
    by (rule vpm_table_step [OF 1(5) _ 1(8)]) (simp, rule that)
  obtain a3 e3 where 3: "a3 \<notin> machine_frames s2" "present e3" "machine_frames s' = insert a3 (machine_frames s2)"
    "\<And>b. b \<noteq> a3 \<Longrightarrow> mem s' b = write_entry (mem s2) a2 (level_index 3 start) e3 b"
    by (rule vpm_leaf_step [OF 2(5,8)]) (rule that)
  have d: "pml4 \<noteq> a0" "pml4 \<noteq> a1" "pml4 \<noteq> a2" "pml4 \<noteq> a3" "a0 \<noteq> a1" "a0 \<noteq> a2" "a0 \<noteq> a3" "a1 \<noteq> a2" "a1 \<noteq> a3" "a2 \<noteq> a3"
    using root 0(1,6) 1(1,6) 2(1,6) 3(1) by auto
  have m: "mem s' pml4 (level_index 0 start) = e0" "mem s' a0 = (\<lambda>_. 0)(level_index 1 start := e1)"
    "mem s' a1 = (\<lambda>_. 0)(level_index 2 start := e2)" "mem s' a2 = (\<lambda>_. 0)(level_index 3 start := e3)"
    using d by (simp_all add: 3(4) 2(7) 1(7) 0(7) write_entry_def)
  have "user_translate pml4 s' va \<noteq> None \<longleftrightarrow>
      level_index 1 va = level_index 1 start \<and> level_index 2 va = level_index 2 start \<and> level_index 3 va = level_index 3 start"
    unfolding user_translate_def translate_def va_path_def levels_def
    using 0(3,4) 1(3,4) 2(3,4) 3(2) by (simp add: same m)
  also have "\<dots> \<longleftrightarrow> va_path va = va_path start" using same by (simp add: va_path_def levels_def)
  finally show ?thesis using 0(6) 1(6) 2(6) 3(3) by auto
qed

lemma write_empty_page:
  "page \<noteq> 0 \<Longrightarrow> write_page_data [] 0 0 page m = Some (0, page_from_bytes m page (replicate 4096 0))"
  by (simp add: write_page_data_def checked_sub_def checked_add_def guard_def Let_def slice_range_def
      copy_from_slice_def page_to_bytes_def)

lemma small_machine_vpm:
  "\<exists>s'. vpm_map_mem_copy_from_buffer 0x1000 0x400000 1 [] small_machine = Some (Inr (), s')"
proof -
  note fa = small_frame_addresses [folded frame_address_def]
  have n: "range_num_pages 0x400000 1 = Some 1" by (simp add: range_num_pages_Some)
  have one: "checked_add 0x400000 0 = Some (0x400000 :: usize)" by (simp add: checked_add_Some)
  show ?thesis
    by (simp add: vpm_map_mem_copy_from_buffer_def n one levels_def small_machine_levels find_and_reserve_page_def
        small_machine_def small_allocator_def small_machine_reserve Let_def owned_page_into_raw_def guard_def
        frame_address_def [symmetric] parent_entry [OF fa(2), simplified] parent_entry [OF fa(3), simplified]
        parent_entry [OF fa(4), simplified] read_entry [OF fa(5), simplified] write_empty_page)
qed

theorem vpm_map_mem_copy_from_buffer_replaces_witness:
  "\<exists>s'. vpm_map_mem_copy_from_buffer 0x1000 0x400000 1 [] small_machine = Some (Inr (), s')
     \<and> user_translate 0x1000 s' 0x400000 \<noteq> None \<and> user_translate 0x1000 s' 0x401000 = None"
proof -
  obtain s' where s': "vpm_map_mem_copy_from_buffer 0x1000 0x400000 1 [] small_machine = Some (Inr (), s')"
    using small_machine_vpm by blast
  have l: "level_index 0 0x400000 = level_index 0 0x400000" "level_index 0 0x401000 = level_index 0 0x400000"
    by (simp_all add: mapped_levels small_machine_levels)
  have "unat (0x400000 AND 0xFFF :: usize) + unat (1 :: usize) \<le> 4096" by simp
  note t = vpm_map_mem_copy_from_buffer_replaces [OF small_user_wf this s', THEN conjunct1]
  from t [OF l(1)] t [OF l(2)] s' show ?thesis by (auto simp: mapped_paths)
qed

end
