(* ===== verification/Vma_Nodes.thy ===== *)
theory Vma_Nodes
  imports User_Page_Mapping
begin

text \<open>
  The nodes of the virtual memory area tree and their storage, \<^verbatim>\<open>src/kernel/src/vma.rs\<close>.

  Nodes live in storage pages, each a physical page from the block allocator, and in the field
  \<^verbatim>\<open>temp_node\<close> of the storage list. A \<^verbatim>\<open>NodePtr\<close> is therefore either the page and the index of an entry
  or the pointer to \<^verbatim>\<open>temp_node\<close>; a \<^verbatim>\<open>BranchNodePtr\<close> or \<^verbatim>\<open>LeafNodePtr\<close> is the pointer to the node it is the
  payload of. Reading a node through a pointer of the wrong kind, or one that is not in a storage
  page, is undefined behaviour and gives \<open>None\<close>.
\<close>

subsection \<open>Segments and nodes\<close>

record segment =
  seg_start :: usize
  seg_len :: usize
  seg_flags :: segment_flags

datatype vma_map_error = SegmentAlreadyExists | VmaOutOfMemory | OutOfAddressSpace

datatype vma_unmap_error = SegmentAlreadyUnmapped | SegmentLocked

definition HIGHEST_USER_ADDRESS :: usize where
  "HIGHEST_USER_ADDRESS = 0x00007fffffffffff"

datatype node_color = Red | Black

datatype side = SideLeft | SideRight

fun side_not :: "side \<Rightarrow> side" where
  "side_not SideLeft = SideRight"
| "side_not SideRight = SideLeft"

type_synonym node_flags = u32

definition put_bit :: "nat \<Rightarrow> bool \<Rightarrow> 'a::len word \<Rightarrow> 'a word" where
  "put_bit n b w = (if b then set_bit n w else unset_bit n w)"

definition flags_locked :: "node_flags \<Rightarrow> bool" where
  "flags_locked flags = bit flags 31"

definition set_locked :: "bool \<Rightarrow> node_flags \<Rightarrow> node_flags" where
  "set_locked b flags = put_bit 31 b flags"

definition node_flags_from :: "segment_flags \<Rightarrow> node_flags" where
  "node_flags_from flags =
     put_bit 2 (sf_execute flags) (put_bit 1 (sf_write flags) (put_bit 0 (sf_read flags) 0))"

datatype node_ptr = SlotPtr (slot_page: usize) (slot_index: nat) | TempPtr

datatype leaf_node = EmptyLeaf (empty_size: usize) | UsedLeaf (used_flags: node_flags)

record branch_node =
  packed_fields :: usize
  max_empty_area_size :: usize
  bn_parent :: "node_ptr option"
  bn_left :: node_ptr
  bn_right :: node_ptr

datatype node = Branch branch_node | Leaf leaf_node

definition placeholder :: node where
  "placeholder = Leaf (EmptyLeaf 0)"

definition color_bit :: "node_color \<Rightarrow> usize" where
  "color_bit c = (case c of Red \<Rightarrow> 0 | Black \<Rightarrow> 1)"

definition branch_new :: "usize \<Rightarrow> bool \<Rightarrow> node_color \<Rightarrow> node_ptr option \<Rightarrow> node_ptr \<Rightarrow> node_ptr \<Rightarrow> branch_node" where
  "branch_new pivot is_temp_null color parent left right =
     \<lparr>packed_fields = (pivot AND NOT 3) OR push_bit 1 (of_bool is_temp_null) OR color_bit color,
      max_empty_area_size = 0, bn_parent = parent, bn_left = left, bn_right = right\<rparr>"

definition branch_pivot :: "branch_node \<Rightarrow> usize" where
  "branch_pivot b = packed_fields b AND NOT 3"

definition branch_color :: "branch_node \<Rightarrow> node_color" where
  "branch_color b = (if packed_fields b AND 1 = 0 then Red else Black)"

fun branch_index :: "branch_node \<Rightarrow> side \<Rightarrow> node_ptr" where
  "branch_index b SideLeft = bn_left b"
| "branch_index b SideRight = bn_right b"

fun branch_index_mut :: "side \<Rightarrow> node_ptr \<Rightarrow> branch_node \<Rightarrow> branch_node" where
  "branch_index_mut SideLeft p b = b\<lparr>bn_left := p\<rparr>"
| "branch_index_mut SideRight p b = b\<lparr>bn_right := p\<rparr>"

subsection \<open>Storage pages\<close>

text \<open>
  A node takes 40 bytes: five words of a branch, among which the compiler hides the tag and the leaf.
  The loop of \<^verbatim>\<open>MAX_NODES\<close> lowers the number of entries until the entries and their bitmap fit.
\<close>

definition size_of_node :: nat where
  "size_of_node = 40"

fun max_nodes_loop :: "nat \<Rightarrow> nat \<Rightarrow> nat" where
  "max_nodes_loop max_space 0 = 0"
| "max_nodes_loop max_space (Suc n) =
     (let current_num_entries = Suc n;
          extra_bitmap_len = (if 8 dvd current_num_entries then 0 else 1);
          bitmap_byte_size = current_num_entries div 8 + extra_bitmap_len;
          entries_byte_size = current_num_entries * size_of_node
      in if entries_byte_size + bitmap_byte_size \<le> max_space then current_num_entries
         else max_nodes_loop max_space n)"

definition MAX_NODES :: nat where
  "MAX_NODES = (let max_space = 4096 - 3 * 8 in max_nodes_loop max_space (max_space div size_of_node))"

definition BITMAP_LEN :: nat where
  "BITMAP_LEN = MAX_NODES div 8 + of_bool (MAX_NODES mod 8 > 0)"

definition INITIAL_USAGE_BITMAP :: "u8 list" where
  "INITIAL_USAGE_BITMAP =
     (let last_byte_entries = MAX_NODES mod 8
      in if last_byte_entries = 0 then replicate BITMAP_LEN 0
         else (replicate BITMAP_LEN 0)[BITMAP_LEN - 1 := NOT (drop_bit (last_byte_entries - 1) 0x80 - 1)])"

record node_storage_page =
  entries :: "node list"
  next_page :: "usize option"
  prev_page :: "usize option"
  free_entries :: usize
  usage_bitmap :: "u8 list"

definition new_with_prev_page :: "usize option \<Rightarrow> node_storage_page" where
  "new_with_prev_page prev =
     \<lparr>entries = replicate MAX_NODES placeholder, next_page = None, prev_page = prev,
      free_entries = of_nat MAX_NODES, usage_bitmap = INITIAL_USAGE_BITMAP\<rparr>"

text \<open>The result is the index of the reserved entry; the loop that finds no free bit is \<^verbatim>\<open>unreachable!\<close>.\<close>

definition page_find_and_reserve_node :: "node_storage_page \<Rightarrow> (nat option \<times> node_storage_page) option" where
  "page_find_and_reserve_node page =
     (if free_entries page = 0 then Some (None, page)
      else do { (byte_index, bit_index, bitmap) \<leftarrow> reserve_first_free 0 (usage_bitmap page);
                free \<leftarrow> checked_sub (free_entries page) 1;
                let entry_index = byte_index * 8 + bit_index;
                guard (entry_index < MAX_NODES);
                Some (Some entry_index, page\<lparr>usage_bitmap := bitmap, free_entries := free\<rparr>) })"

subsection \<open>The tree and its storage\<close>

text \<open>
  \<^verbatim>\<open>VMATree\<close> with its \<^verbatim>\<open>NodeStorageList\<close>, beside the storage pages and the machine they are allocated from.
\<close>

record vma_tree =
  vt_root :: node_ptr
  storage_head :: usize
  temp_node :: node
  node_pages :: "usize \<Rightarrow> node_storage_page option"
  vt_machine :: machine

fun node_read :: "vma_tree \<Rightarrow> node_ptr \<Rightarrow> node option" where
  "node_read s (SlotPtr a i) = do { page \<leftarrow> node_pages s a; slice_get (entries page) i }"
| "node_read s TempPtr = Some (temp_node s)"

fun node_write :: "node_ptr \<Rightarrow> node \<Rightarrow> vma_tree \<Rightarrow> vma_tree option" where
  "node_write (SlotPtr a i) n s =
     do { page \<leftarrow> node_pages s a;
          es \<leftarrow> slice_set (entries page) i n;
          Some (s\<lparr>node_pages := (node_pages s)(a \<mapsto> page\<lparr>entries := es\<rparr>)\<rparr>) }"
| "node_write TempPtr n s = Some (s\<lparr>temp_node := n\<rparr>)"

definition is_branch :: "vma_tree \<Rightarrow> node_ptr \<Rightarrow> bool option" where
  "is_branch s p = do { n \<leftarrow> node_read s p; Some (case n of Branch _ \<Rightarrow> True | Leaf _ \<Rightarrow> False) }"

definition is_leaf :: "vma_tree \<Rightarrow> node_ptr \<Rightarrow> bool option" where
  "is_leaf s p = do { n \<leftarrow> node_read s p; Some (case n of Branch _ \<Rightarrow> False | Leaf _ \<Rightarrow> True) }"

definition is_empty_leaf :: "vma_tree \<Rightarrow> node_ptr \<Rightarrow> bool option" where
  "is_empty_leaf s p =
     do { n \<leftarrow> node_read s p;
          Some (case n of Branch _ \<Rightarrow> False | Leaf (EmptyLeaf _) \<Rightarrow> True | Leaf (UsedLeaf _) \<Rightarrow> False) }"

definition is_used_leaf :: "vma_tree \<Rightarrow> node_ptr \<Rightarrow> bool option" where
  "is_used_leaf s p =
     do { n \<leftarrow> node_read s p;
          Some (case n of Branch _ \<Rightarrow> False | Leaf (EmptyLeaf _) \<Rightarrow> False | Leaf (UsedLeaf _) \<Rightarrow> True) }"

definition node_color_of :: "vma_tree \<Rightarrow> node_ptr \<Rightarrow> node_color option" where
  "node_color_of s p =
     do { n \<leftarrow> node_read s p; Some (case n of Branch b \<Rightarrow> branch_color b | Leaf _ \<Rightarrow> Black) }"

text \<open>\<^verbatim>\<open>unwrap_branch\<close> and \<^verbatim>\<open>unwrap_leaf\<close>, which panic on a node of the other kind, and the payload itself.\<close>

definition read_branch :: "vma_tree \<Rightarrow> node_ptr \<Rightarrow> branch_node option" where
  "read_branch s p = do { n \<leftarrow> node_read s p; case n of Branch b \<Rightarrow> Some b | Leaf _ \<Rightarrow> None }"

definition read_leaf :: "vma_tree \<Rightarrow> node_ptr \<Rightarrow> leaf_node option" where
  "read_leaf s p = do { n \<leftarrow> node_read s p; case n of Branch _ \<Rightarrow> None | Leaf l \<Rightarrow> Some l }"

definition update_branch :: "node_ptr \<Rightarrow> (branch_node \<Rightarrow> branch_node) \<Rightarrow> vma_tree \<Rightarrow> vma_tree option" where
  "update_branch p f s = do { b \<leftarrow> read_branch s p; node_write p (Branch (f b)) s }"

definition unwrap_branch :: "vma_tree \<Rightarrow> node_ptr \<Rightarrow> node_ptr option" where
  "unwrap_branch s p = do { _ \<leftarrow> read_branch s p; Some p }"

definition branch_ptr_color :: "vma_tree \<Rightarrow> node_ptr \<Rightarrow> node_color option" where
  "branch_ptr_color s p = map_option branch_color (read_branch s p)"

definition branch_ptr_pivot :: "vma_tree \<Rightarrow> node_ptr \<Rightarrow> usize option" where
  "branch_ptr_pivot s p = map_option branch_pivot (read_branch s p)"

definition is_temp_null :: "vma_tree \<Rightarrow> node_ptr \<Rightarrow> bool option" where
  "is_temp_null s p = do { b \<leftarrow> read_branch s p; Some (packed_fields b AND 2 \<noteq> 0) }"

definition set_pivot :: "node_ptr \<Rightarrow> usize \<Rightarrow> vma_tree \<Rightarrow> vma_tree option" where
  "set_pivot p pivot s =
     update_branch p (\<lambda>b. b\<lparr>packed_fields := (packed_fields b AND 3) OR (pivot AND NOT 3)\<rparr>) s"

definition set_color :: "node_ptr \<Rightarrow> node_color \<Rightarrow> vma_tree \<Rightarrow> vma_tree option" where
  "set_color p color s =
     update_branch p (\<lambda>b. b\<lparr>packed_fields := (packed_fields b AND NOT 1) OR color_bit color\<rparr>) s"

definition set_max_empty_area_size :: "node_ptr \<Rightarrow> usize \<Rightarrow> vma_tree \<Rightarrow> vma_tree option" where
  "set_max_empty_area_size p new_size s = update_branch p (\<lambda>b. b\<lparr>max_empty_area_size := new_size\<rparr>) s"

text \<open>\<^verbatim>\<open>is_left_side\<close> and \<^verbatim>\<open>is_right_side\<close> are \<open>None\<close> in their result for a node without a parent.\<close>

definition is_left_side :: "vma_tree \<Rightarrow> node_ptr \<Rightarrow> bool option option" where
  "is_left_side s p =
     do { b \<leftarrow> read_branch s p;
          case bn_parent b of None \<Rightarrow> Some None
          | Some par \<Rightarrow> do { pb \<leftarrow> read_branch s par; Some (Some (p = bn_left pb)) } }"

definition is_right_side :: "vma_tree \<Rightarrow> node_ptr \<Rightarrow> bool option option" where
  "is_right_side s p =
     do { b \<leftarrow> read_branch s p;
          case bn_parent b of None \<Rightarrow> Some None
          | Some par \<Rightarrow> do { pb \<leftarrow> read_branch s par; Some (Some (p = bn_right pb)) } }"

definition get_parent :: "vma_tree \<Rightarrow> node_ptr \<Rightarrow> node_ptr option" where
  "get_parent s p = do { b \<leftarrow> read_branch s p; bn_parent b }"

definition get_grandparent :: "vma_tree \<Rightarrow> node_ptr \<Rightarrow> node_ptr option" where
  "get_grandparent s p = do { par \<leftarrow> get_parent s p; get_parent s par }"

definition get_sibling :: "vma_tree \<Rightarrow> node_ptr \<Rightarrow> node_ptr option" where
  "get_sibling s p =
     do { par \<leftarrow> get_parent s p;
          pb \<leftarrow> read_branch s par;
          if p = bn_left pb then Some (bn_right pb)
          else if p = bn_right pb then Some (bn_left pb)
          else None }"

definition child_empty_size :: "vma_tree \<Rightarrow> node_ptr \<Rightarrow> usize option" where
  "child_empty_size s p =
     do { n \<leftarrow> node_read s p;
          Some (case n of Branch b \<Rightarrow> max_empty_area_size b | Leaf (UsedLeaf _) \<Rightarrow> 0 | Leaf (EmptyLeaf n) \<Rightarrow> n) }"

definition recalculate_max_empty_area_size :: "node_ptr \<Rightarrow> vma_tree \<Rightarrow> vma_tree option" where
  "recalculate_max_empty_area_size p s =
     do { b \<leftarrow> read_branch s p;
          left_max_size \<leftarrow> child_empty_size s (bn_left b);
          right_max_size \<leftarrow> child_empty_size s (bn_right b);
          update_branch p (\<lambda>b. b\<lparr>max_empty_area_size := max left_max_size right_max_size\<rparr>) s }"

definition unwrap_empty_size :: "vma_tree \<Rightarrow> node_ptr \<Rightarrow> usize option" where
  "unwrap_empty_size s p = do { l \<leftarrow> read_leaf s p; case l of EmptyLeaf n \<Rightarrow> Some n | UsedLeaf _ \<Rightarrow> None }"

definition unwrap_empty_set_size :: "node_ptr \<Rightarrow> usize \<Rightarrow> vma_tree \<Rightarrow> vma_tree option" where
  "unwrap_empty_set_size p new_size s =
     do { _ \<leftarrow> unwrap_empty_size s p; node_write p (Leaf (EmptyLeaf new_size)) s }"

definition unwrap_flags :: "vma_tree \<Rightarrow> node_ptr \<Rightarrow> node_flags option" where
  "unwrap_flags s p = do { l \<leftarrow> read_leaf s p; case l of EmptyLeaf _ \<Rightarrow> None | UsedLeaf flags \<Rightarrow> Some flags }"

definition set_leaf_flags :: "node_ptr \<Rightarrow> (node_flags \<Rightarrow> node_flags) \<Rightarrow> vma_tree \<Rightarrow> vma_tree option" where
  "set_leaf_flags p f s =
     do { flags \<leftarrow> unwrap_flags s p; node_write p (Leaf (UsedLeaf (f flags))) s }"

subsection \<open>Allocating and freeing nodes\<close>

text \<open>\<^verbatim>\<open>PageBox::try_new_in\<close> for a storage page, and dropping such a box.\<close>

definition new_storage_page :: "node_storage_page \<Rightarrow> vma_tree \<Rightarrow> ((alloc_error + usize) \<times> vma_tree) option" where
  "new_storage_page page s =
     do { (r, m) \<leftarrow> block_allocate (vt_machine s) 4080 8;
          Some (case r of
              Inl err \<Rightarrow> (Inl err, s\<lparr>vt_machine := m\<rparr>)
            | Inr a \<Rightarrow> (Inr a, s\<lparr>vt_machine := m, node_pages := (node_pages s)(a \<mapsto> page)\<rparr>)) }"

definition drop_storage_page :: "usize \<Rightarrow> vma_tree \<Rightarrow> vma_tree option" where
  "drop_storage_page a s =
     do { m \<leftarrow> block_deallocate (vt_machine s) a;
          Some (s\<lparr>vt_machine := m, node_pages := (node_pages s)(a := None)\<rparr>) }"

text \<open>The loop over the linked pages; it ends with a reserved node or with the last page.\<close>

partial_function (option) search_storage_pages ::
  "usize \<Rightarrow> vma_tree \<Rightarrow> ((usize + node_ptr) \<times> vma_tree) option" where
  "search_storage_pages current s =
     do { page \<leftarrow> node_pages s current;
          if free_entries page > 0
          then do { (r, page') \<leftarrow> page_find_and_reserve_node page;
                    i \<leftarrow> r;
                    Some (Inr (SlotPtr current i), s\<lparr>node_pages := (node_pages s)(current \<mapsto> page')\<rparr>) }
          else (case next_page page of
                  Some next_ptr \<Rightarrow> search_storage_pages next_ptr s
                | None \<Rightarrow> Some (Inl current, s)) }"

definition find_and_reserve_node ::
  "usize \<Rightarrow> vma_tree \<Rightarrow> ((vma_map_error + node_ptr) \<times> usize \<times> vma_tree) option" where
  "find_and_reserve_node pages_used s =
     do { (r, s) \<leftarrow> search_storage_pages (storage_head s) s;
          case r of
            Inr node \<Rightarrow> Some (Inr node, pages_used, s)
          | Inl last_ptr \<Rightarrow>
              do { pages_used \<leftarrow> checked_add pages_used 1;
                   (r, s) \<leftarrow> new_storage_page (new_with_prev_page (Some last_ptr)) s;
                   case r of
                     Inl _ \<Rightarrow> Some (Inl VmaOutOfMemory, pages_used, s)
                   | Inr a \<Rightarrow>
                       do { page \<leftarrow> node_pages s a;
                            (i, page) \<leftarrow> page_find_and_reserve_node page;
                            i \<leftarrow> i;
                            let s = s\<lparr>node_pages := (node_pages s)(a \<mapsto> page)\<rparr>;
                            last_page \<leftarrow> node_pages s last_ptr;
                            let s = s\<lparr>node_pages := (node_pages s)(last_ptr \<mapsto> last_page\<lparr>next_page := Some a\<rparr>)\<rparr>;
                            Some (Inr (SlotPtr a i), pages_used, s) } } }"

text \<open>A reservation followed by a write, if it succeeds.\<close>

definition new_node ::
  "usize \<Rightarrow> node \<Rightarrow> vma_tree \<Rightarrow> ((vma_map_error + node_ptr) \<times> usize \<times> vma_tree) option" where
  "new_node pages_used n s =
     do { (r, pages_used, s) \<leftarrow> find_and_reserve_node pages_used s;
          case r of
            Inl err \<Rightarrow> Some (Inl err, pages_used, s)
          | Inr p \<Rightarrow> do { s \<leftarrow> node_write p n s; Some (Inr p, pages_used, s) } }"

definition new_empty_leaf ::
  "usize \<Rightarrow> usize \<Rightarrow> vma_tree \<Rightarrow> ((vma_map_error + node_ptr) \<times> usize \<times> vma_tree) option" where
  "new_empty_leaf pages_used size_bytes s = new_node pages_used (Leaf (EmptyLeaf size_bytes)) s"

definition new_used_leaf ::
  "usize \<Rightarrow> node_flags \<Rightarrow> vma_tree \<Rightarrow> ((vma_map_error + node_ptr) \<times> usize \<times> vma_tree) option" where
  "new_used_leaf pages_used flags s = new_node pages_used (Leaf (UsedLeaf flags)) s"

definition new_branch ::
  "usize \<Rightarrow> usize \<Rightarrow> node_ptr option \<Rightarrow> node_ptr \<Rightarrow> node_ptr \<Rightarrow> vma_tree \<Rightarrow>
   ((vma_map_error + node_ptr) \<times> usize \<times> vma_tree) option" where
  "new_branch pages_used pivot parent left right s =
     new_node pages_used (Branch (branch_new pivot False Black parent left right)) s"

text \<open>\<^verbatim>\<open>unreserve_node\<close> of the page at \<open>a\<close>; the result says whether the page unlinked itself.\<close>

definition unreserve_node :: "usize \<Rightarrow> nat \<Rightarrow> vma_tree \<Rightarrow> (bool \<times> vma_tree) option" where
  "unreserve_node a i s =
     do { page \<leftarrow> node_pages s a;
          guard (i < MAX_NODES);
          free \<leftarrow> checked_add (free_entries page) 1;
          case (if free = of_nat MAX_NODES then prev_page page else None) of
            Some prev \<Rightarrow>
              do { s \<leftarrow> (case next_page page of
                     None \<Rightarrow> Some s
                   | Some nxt \<Rightarrow>
                       do { np \<leftarrow> node_pages s nxt;
                            Some (s\<lparr>node_pages := (node_pages s)(nxt \<mapsto> np\<lparr>prev_page := prev_page page\<rparr>)\<rparr>) });
                   pp \<leftarrow> node_pages s prev;
                   Some (True, s\<lparr>node_pages := (node_pages s)(prev \<mapsto> pp\<lparr>next_page := next_page page\<rparr>)\<rparr>) }
          | None \<Rightarrow>
              do { bitmap \<leftarrow> clear_slot (usage_bitmap page) (i div 8) (i mod 8);
                   Some (False, s\<lparr>node_pages := (node_pages s)
                     (a \<mapsto> page\<lparr>usage_bitmap := bitmap, free_entries := free\<rparr>)\<rparr>) } }"

fun node_free :: "node_ptr \<Rightarrow> vma_tree \<Rightarrow> vma_tree option" where
  "node_free (SlotPtr a i) s =
     do { s \<leftarrow> node_write (SlotPtr a i) placeholder s;
          (needs_freeing, s) \<leftarrow> unreserve_node a i s;
          if needs_freeing then drop_storage_page a s else Some s }"
| "node_free TempPtr s = None"

end
