(* ===== verification/Vma_Tree.thy ===== *)
theory Vma_Tree
  imports Vma_Nodes
begin

text \<open>
  The operations of \<^verbatim>\<open>VMATree\<close> in \<^verbatim>\<open>src/kernel/src/vma.rs\<close>: a red-black tree whose branches hold the
  addresses at which segments start or end and whose leaves are the segments and the gaps between
  them. The loops follow pointers, so they are partial functions: the value \<open>None\<close> is a panic,
  undefined behaviour or a loop that does not end.
\<close>

text \<open>The operator \<^verbatim>\<open>?\<close> on a \<^verbatim>\<open>Result\<close>, and \<^verbatim>\<open>inspect_err\<close> with a closure that frees nodes.\<close>

definition try_result ::
  "(('e + 'a) \<times> 'p \<times> 's) option \<Rightarrow> ('a \<Rightarrow> 'p \<Rightarrow> 's \<Rightarrow> (('e + 'b) \<times> 'p \<times> 's) option) \<Rightarrow>
   (('e + 'b) \<times> 'p \<times> 's) option" where
  "try_result m k =
     do { (r, p, s) \<leftarrow> m; case r of Inl err \<Rightarrow> Some (Inl err, p, s) | Inr a \<Rightarrow> k a p s }"

definition inspect_err ::
  "(('e + 'a) \<times> 'p \<times> 's) option \<Rightarrow> ('s \<Rightarrow> 's option) \<Rightarrow> (('e + 'a) \<times> 'p \<times> 's) option" where
  "inspect_err m f =
     do { (r, p, s) \<leftarrow> m;
          case r of Inl err \<Rightarrow> do { s \<leftarrow> f s; Some (Inl err, p, s) } | Inr a \<Rightarrow> Some (Inr a, p, s) }"

subsection \<open>Finding a leaf\<close>

record leaf_info =
  li_leaf :: node_ptr
  li_parent_and_side :: "(node_ptr \<times> side) option"
  li_start :: usize
  li_end :: usize

partial_function (option) leaf_loop ::
  "vma_tree \<Rightarrow> usize \<Rightarrow> node_ptr \<Rightarrow> (node_ptr \<times> side) option \<Rightarrow> usize \<Rightarrow> usize \<Rightarrow> leaf_info option" where
  "leaf_loop s addr current_node current_parent_and_side current_start current_end =
     do { n \<leftarrow> node_read s current_node;
          case n of
            Branch branch \<Rightarrow>
              (if addr < branch_pivot branch
               then do { _ \<leftarrow> guard (branch_pivot branch \<le> current_end);
                         leaf_loop s addr (bn_left branch) (Some (current_node, SideLeft))
                           current_start (branch_pivot branch) }
               else do { _ \<leftarrow> guard (branch_pivot branch \<ge> current_start);
                         leaf_loop s addr (bn_right branch) (Some (current_node, SideRight))
                           (branch_pivot branch) current_end })
          | Leaf _ \<Rightarrow>
              do { e \<leftarrow> checked_sub current_end 1;
                   Some \<lparr>li_leaf = current_node, li_parent_and_side = current_parent_and_side,
                         li_start = current_start, li_end = e\<rparr> } }"

definition get_leaf_containing :: "vma_tree \<Rightarrow> usize \<Rightarrow> leaf_info option" where
  "get_leaf_containing s addr =
     do { guard (addr \<le> HIGHEST_USER_ADDRESS);
          leaf_loop s addr (vt_root s) None 0 (saturating_add HIGHEST_USER_ADDRESS 1) }"

partial_function (option) find_min :: "vma_tree \<Rightarrow> node_ptr \<Rightarrow> node_ptr option" where
  "find_min s p =
     do { b \<leftarrow> read_branch s p;
          br \<leftarrow> is_branch s (bn_left b);
          if br then find_min s (bn_left b) else Some p }"

partial_function (option) min_leaf :: "vma_tree \<Rightarrow> node_ptr \<Rightarrow> node_ptr option" where
  "min_leaf s p =
     do { n \<leftarrow> node_read s p;
          case n of Branch b \<Rightarrow> min_leaf s (bn_left b) | Leaf _ \<Rightarrow> Some p }"

partial_function (option) max_leaf :: "vma_tree \<Rightarrow> node_ptr \<Rightarrow> node_ptr option" where
  "max_leaf s p =
     do { n \<leftarrow> node_read s p;
          case n of Branch b \<Rightarrow> max_leaf s (bn_right b) | Leaf _ \<Rightarrow> Some p }"

partial_function (option) update_max_loop :: "node_ptr option \<Rightarrow> vma_tree \<Rightarrow> vma_tree option" where
  "update_max_loop current s =
     (case current of
        None \<Rightarrow> Some s
      | Some branch_ptr \<Rightarrow>
          do { branch \<leftarrow> read_branch s branch_ptr;
               l \<leftarrow> child_empty_size s (bn_left branch);
               r \<leftarrow> child_empty_size s (bn_right branch);
               s \<leftarrow> set_max_empty_area_size branch_ptr (max (max 0 l) r) s;
               update_max_loop (bn_parent branch) s })"

definition update_max_empty_area_data :: "node_ptr \<Rightarrow> vma_tree \<Rightarrow> vma_tree option" where
  "update_max_empty_area_data lowest_branch s = update_max_loop (Some lowest_branch) s"

subsection \<open>Rotations\<close>

text \<open>The link of the parent, or the root, to the branch \<open>old\<close> now leads to \<open>new_ptr\<close>.\<close>

definition relink_parent :: "node_ptr \<Rightarrow> node_ptr \<Rightarrow> vma_tree \<Rightarrow> vma_tree option" where
  "relink_parent old new_ptr s =
     do { l \<leftarrow> is_left_side s old;
          case l of
            Some True \<Rightarrow> do { par \<leftarrow> get_parent s old; update_branch par (\<lambda>b. b\<lparr>bn_left := new_ptr\<rparr>) s }
          | Some False \<Rightarrow> do { par \<leftarrow> get_parent s old; update_branch par (\<lambda>b. b\<lparr>bn_right := new_ptr\<rparr>) s }
          | None \<Rightarrow> Some (s\<lparr>vt_root := new_ptr\<rparr>) }"

text \<open>\<^verbatim>\<open>if let Node::Branch(branch) = p { branch.parent = q }\<close>\<close>

definition set_parent_if_branch :: "node_ptr \<Rightarrow> node_ptr option \<Rightarrow> vma_tree \<Rightarrow> vma_tree option" where
  "set_parent_if_branch p q s =
     do { n \<leftarrow> node_read s p;
          case n of Branch b \<Rightarrow> node_write p (Branch (b\<lparr>bn_parent := q\<rparr>)) s | Leaf _ \<Rightarrow> Some s }"

definition left_rotate :: "node_ptr \<Rightarrow> vma_tree \<Rightarrow> vma_tree option" where
  "left_rotate node s =
     do { nb \<leftarrow> read_branch s node;
          let right_node = bn_right nb;
          rb \<leftarrow> read_branch s right_node;
          s \<leftarrow> update_branch node (\<lambda>b. b\<lparr>bn_right := bn_left rb\<rparr>) s;
          s \<leftarrow> set_parent_if_branch (bn_left rb) (Some node) s;
          nb \<leftarrow> read_branch s node;
          s \<leftarrow> update_branch right_node (\<lambda>b. b\<lparr>bn_parent := bn_parent nb\<rparr>) s;
          s \<leftarrow> relink_parent node right_node s;
          s \<leftarrow> update_branch right_node (\<lambda>b. b\<lparr>bn_left := node\<rparr>) s;
          s \<leftarrow> update_branch node (\<lambda>b. b\<lparr>bn_parent := Some right_node\<rparr>) s;
          s \<leftarrow> recalculate_max_empty_area_size node s;
          recalculate_max_empty_area_size right_node s }"

definition right_rotate :: "node_ptr \<Rightarrow> vma_tree \<Rightarrow> vma_tree option" where
  "right_rotate node s =
     do { nb \<leftarrow> read_branch s node;
          let left_node = bn_left nb;
          lb \<leftarrow> read_branch s left_node;
          s \<leftarrow> update_branch node (\<lambda>b. b\<lparr>bn_left := bn_right lb\<rparr>) s;
          s \<leftarrow> set_parent_if_branch (bn_right lb) (Some node) s;
          nb \<leftarrow> read_branch s node;
          s \<leftarrow> update_branch left_node (\<lambda>b. b\<lparr>bn_parent := bn_parent nb\<rparr>) s;
          s \<leftarrow> relink_parent node left_node s;
          s \<leftarrow> update_branch left_node (\<lambda>b. b\<lparr>bn_right := node\<rparr>) s;
          s \<leftarrow> update_branch node (\<lambda>b. b\<lparr>bn_parent := Some left_node\<rparr>) s;
          s \<leftarrow> recalculate_max_empty_area_size node s;
          recalculate_max_empty_area_size left_node s }"

subsection \<open>Inserting a branch\<close>

text \<open>The red uncle: recolour, and go on from the grandparent.\<close>

definition fix_insert_recolor :: "node_ptr \<Rightarrow> node_ptr \<Rightarrow> vma_tree \<Rightarrow> (node_ptr \<times> vma_tree) option" where
  "fix_insert_recolor k u s =
     do { s \<leftarrow> set_color u Black s;
          par \<leftarrow> get_parent s k;
          s \<leftarrow> set_color par Black s;
          grand \<leftarrow> get_grandparent s k;
          s \<leftarrow> set_color grand Red s;
          grand \<leftarrow> get_grandparent s k;
          Some (grand, s) }"

text \<open>One iteration of the loop of \<^verbatim>\<open>fix_insert\<close>.\<close>

definition fix_insert_step :: "node_ptr \<Rightarrow> vma_tree \<Rightarrow> (node_ptr \<times> vma_tree) option" where
  "fix_insert_step k s =
     do { par \<leftarrow> get_parent s k;
          right_side \<leftarrow> is_right_side s par;
          right_side \<leftarrow> right_side;
          grand \<leftarrow> get_grandparent s k;
          gb \<leftarrow> read_branch s grand;
          if right_side
          then do { let u = bn_left gb;
                    c \<leftarrow> node_color_of s u;
                    case c of
                      Red \<Rightarrow> fix_insert_recolor k u s
                    | Black \<Rightarrow>
                        do { l \<leftarrow> is_left_side s k;
                             l \<leftarrow> l;
                             (k, s) \<leftarrow> (if l then do { k \<leftarrow> get_parent s k; s \<leftarrow> right_rotate k s; Some (k, s) }
                                        else Some (k, s));
                             par \<leftarrow> get_parent s k;
                             s \<leftarrow> set_color par Black s;
                             grand \<leftarrow> get_grandparent s k;
                             s \<leftarrow> set_color grand Red s;
                             grand \<leftarrow> get_grandparent s k;
                             s \<leftarrow> left_rotate grand s;
                             Some (k, s) } }
          else do { let u = bn_right gb;
                    c \<leftarrow> node_color_of s u;
                    case c of
                      Red \<Rightarrow> fix_insert_recolor k u s
                    | Black \<Rightarrow>
                        do { r \<leftarrow> is_right_side s k;
                             r \<leftarrow> r;
                             (k, s) \<leftarrow> (if r then do { k \<leftarrow> get_parent s k; s \<leftarrow> left_rotate k s; Some (k, s) }
                                        else Some (k, s));
                             par \<leftarrow> get_parent s k;
                             s \<leftarrow> set_color par Black s;
                             grand \<leftarrow> get_grandparent s k;
                             s \<leftarrow> set_color grand Red s;
                             grand \<leftarrow> get_grandparent s k;
                             s \<leftarrow> right_rotate grand s;
                             Some (k, s) } } }"

partial_function (option) fix_insert_loop :: "node_ptr \<Rightarrow> vma_tree \<Rightarrow> vma_tree option" where
  "fix_insert_loop k s =
     do { par \<leftarrow> get_parent s k;
          c \<leftarrow> branch_ptr_color s par;
          if c = Red
          then do { (k, s) \<leftarrow> fix_insert_step k s;
                    if k = vt_root s then Some s else fix_insert_loop k s }
          else Some s }"

definition fix_insert :: "node_ptr \<Rightarrow> vma_tree \<Rightarrow> vma_tree option" where
  "fix_insert node s =
     do { k \<leftarrow> unwrap_branch s node;
          s \<leftarrow> fix_insert_loop k s;
          set_color (vt_root s) Black s }"

definition link_in_branch :: "node_ptr \<Rightarrow> (node_ptr \<times> side) option \<Rightarrow> vma_tree \<Rightarrow> vma_tree option" where
  "link_in_branch new_ptr new_parent_and_side s =
     do { s \<leftarrow> (case new_parent_and_side of
            Some (new_parent, side) \<Rightarrow>
              do { s \<leftarrow> update_branch new_parent (branch_index_mut side new_ptr) s;
                   s \<leftarrow> set_color new_ptr Red s;
                   pb \<leftarrow> read_branch s new_parent;
                   if bn_parent pb \<noteq> None then fix_insert new_ptr s else Some s }
          | None \<Rightarrow> Some (s\<lparr>vt_root := new_ptr\<rparr>));
          b \<leftarrow> unwrap_branch s new_ptr;
          update_max_empty_area_data b s }"

text \<open>The four cases of \<^verbatim>\<open>insert\<close>, by which ends of the gap the segment meets.\<close>

definition insert_whole_gap ::
  "usize \<Rightarrow> node_flags \<Rightarrow> leaf_info \<Rightarrow> vma_tree \<Rightarrow> ((vma_map_error + node_ptr) \<times> usize \<times> vma_tree) option" where
  "insert_whole_gap pages_used flags gap s =
     do { s \<leftarrow> node_write (li_leaf gap) (Leaf (UsedLeaf flags)) s;
          s \<leftarrow> (case li_parent_and_side gap of
            Some (parent, _) \<Rightarrow> update_max_empty_area_data parent s
          | None \<Rightarrow> Some s);
          Some (Inr (li_leaf gap), pages_used, s) }"

definition insert_gap_end ::
  "usize \<Rightarrow> usize \<Rightarrow> node_flags \<Rightarrow> leaf_info \<Rightarrow> vma_tree \<Rightarrow>
   ((vma_map_error + node_ptr) \<times> usize \<times> vma_tree) option" where
  "insert_gap_end pages_used start flags gap s =
     try_result (new_used_leaf pages_used flags s) (\<lambda>used pages_used s.
     try_result (inspect_err
        (new_branch pages_used start (map_option fst (li_parent_and_side gap)) (li_leaf gap) used s)
        (node_free used)) (\<lambda>branch pages_used s.
     do { n \<leftarrow> checked_sub start (li_start gap);
          s \<leftarrow> unwrap_empty_set_size (li_leaf gap) n s;
          s \<leftarrow> link_in_branch branch (li_parent_and_side gap) s;
          Some (Inr used, pages_used, s) }))"

definition insert_gap_start ::
  "usize \<Rightarrow> usize \<Rightarrow> node_flags \<Rightarrow> leaf_info \<Rightarrow> vma_tree \<Rightarrow>
   ((vma_map_error + node_ptr) \<times> usize \<times> vma_tree) option" where
  "insert_gap_start pages_used seg_end flags gap s =
     try_result (new_used_leaf pages_used flags s) (\<lambda>used pages_used s.
     do { pivot \<leftarrow> checked_add seg_end 1;
     try_result (inspect_err
        (new_branch pages_used pivot (map_option fst (li_parent_and_side gap)) used (li_leaf gap) s)
        (node_free used)) (\<lambda>branch pages_used s.
     do { n \<leftarrow> checked_sub (li_end gap) seg_end;
          s \<leftarrow> unwrap_empty_set_size (li_leaf gap) n s;
          s \<leftarrow> link_in_branch branch (li_parent_and_side gap) s;
          Some (Inr used, pages_used, s) }) })"

definition insert_in_gap ::
  "usize \<Rightarrow> usize \<Rightarrow> usize \<Rightarrow> node_flags \<Rightarrow> leaf_info \<Rightarrow> vma_tree \<Rightarrow>
   ((vma_map_error + node_ptr) \<times> usize \<times> vma_tree) option" where
  "insert_in_gap pages_used start seg_end flags gap s =
     try_result (new_used_leaf pages_used flags s) (\<lambda>used pages_used s.
     do { rest \<leftarrow> checked_sub (li_end gap) seg_end;
     try_result (inspect_err (new_empty_leaf pages_used rest s) (node_free used)) (\<lambda>empty pages_used s.
     do { pivot \<leftarrow> checked_add seg_end 1;
     try_result (inspect_err
        (new_branch pages_used pivot (map_option fst (li_parent_and_side gap)) used empty s)
        (\<lambda>s. do { s \<leftarrow> node_free empty s; node_free used s })) (\<lambda>end_branch pages_used s.
     try_result (inspect_err (find_and_reserve_node pages_used s)
        (\<lambda>s. do { s \<leftarrow> node_free end_branch s; s \<leftarrow> node_free empty s; node_free used s }))
        (\<lambda>start_branch pages_used s.
     do { s \<leftarrow> link_in_branch end_branch (li_parent_and_side gap) s;
          info \<leftarrow> get_leaf_containing s start;
          guard (li_end info = seg_end);
          s \<leftarrow> node_write start_branch (Branch (branch_new start False Black
                 (map_option fst (li_parent_and_side info)) (li_leaf gap) (li_leaf info))) s;
          n \<leftarrow> checked_sub start (li_start gap);
          s \<leftarrow> unwrap_empty_set_size (li_leaf gap) n s;
          s \<leftarrow> link_in_branch start_branch (li_parent_and_side info) s;
          Some (Inr (li_leaf info), pages_used, s) })) }) })"

definition vma_insert ::
  "usize \<Rightarrow> usize \<Rightarrow> usize \<Rightarrow> node_flags \<Rightarrow> vma_tree \<Rightarrow>
   ((vma_map_error + node_ptr) \<times> usize \<times> vma_tree) option" where
  "vma_insert pages_used start len flags s =
     do { past_end \<leftarrow> checked_add start len;
          seg_end \<leftarrow> checked_sub past_end 1;
          gap \<leftarrow> get_leaf_containing s start;
          empty \<leftarrow> is_empty_leaf s (li_leaf gap);
          guard empty;
          guard (li_start gap \<le> start);
          guard (seg_end \<le> li_end gap);
          if li_start gap = start \<and> seg_end = li_end gap then insert_whole_gap pages_used flags gap s
          else if li_start gap < start \<and> seg_end = li_end gap then insert_gap_end pages_used start flags gap s
          else if li_start gap = start \<and> seg_end < li_end gap then insert_gap_start pages_used seg_end flags gap s
          else if li_start gap < start \<and> seg_end < li_end gap then insert_in_gap pages_used start seg_end flags gap s
          else None }"

subsection \<open>Deleting a branch\<close>

definition replace_node :: "node_ptr \<Rightarrow> node_ptr \<Rightarrow> vma_tree \<Rightarrow> vma_tree option" where
  "replace_node old_branch new_ptr s =
     do { s \<leftarrow> relink_parent old_branch new_ptr s;
          br \<leftarrow> is_branch s new_ptr;
          if br then do { ob \<leftarrow> read_branch s old_branch;
                          update_branch new_ptr (\<lambda>b. b\<lparr>bn_parent := bn_parent ob\<rparr>) s }
          else Some s }"

definition handle_red_sibling :: "node_ptr \<Rightarrow> node_ptr \<Rightarrow> vma_tree \<Rightarrow> vma_tree option" where
  "handle_red_sibling node sibling s =
     do { s \<leftarrow> set_color sibling Black s;
          par \<leftarrow> get_parent s node;
          s \<leftarrow> set_color par Red s;
          l \<leftarrow> is_left_side s node;
          l \<leftarrow> l;
          if l then do { par \<leftarrow> get_parent s node; left_rotate par s }
          else do { r \<leftarrow> is_right_side s node;
                    r \<leftarrow> r;
                    guard r;
                    par \<leftarrow> get_parent s node;
                    right_rotate par s } }"

text \<open>The red nephew on the far side is made sure of first, then the parent is rotated.\<close>

definition straighten_sibling :: "bool \<Rightarrow> node_ptr \<Rightarrow> node_ptr \<Rightarrow> vma_tree \<Rightarrow> (node_ptr \<times> vma_tree) option" where
  "straighten_sibling is_left node sibling s =
     do { sb \<leftarrow> read_branch s sibling;
          lc \<leftarrow> node_color_of s (bn_left sb);
          rc \<leftarrow> node_color_of s (bn_right sb);
          if is_left \<and> rc = Black
          then do { s \<leftarrow> set_color (bn_left sb) Black s;
                    s \<leftarrow> set_color sibling Red s;
                    s \<leftarrow> right_rotate sibling s;
                    par \<leftarrow> get_parent s node;
                    pb \<leftarrow> read_branch s par;
                    sibling \<leftarrow> unwrap_branch s (bn_right pb);
                    Some (sibling, s) }
          else if \<not> is_left \<and> lc = Black
          then do { s \<leftarrow> set_color (bn_right sb) Black s;
                    s \<leftarrow> set_color sibling Red s;
                    s \<leftarrow> left_rotate sibling s;
                    par \<leftarrow> get_parent s node;
                    pb \<leftarrow> read_branch s par;
                    sibling \<leftarrow> unwrap_branch s (bn_left pb);
                    Some (sibling, s) }
          else Some (sibling, s) }"

definition handle_black_sibling_at_least_one_red_child ::
  "node_ptr \<Rightarrow> node_ptr \<Rightarrow> vma_tree \<Rightarrow> vma_tree option" where
  "handle_black_sibling_at_least_one_red_child node sibling s =
     do { is_left \<leftarrow> is_left_side s node;
          is_left \<leftarrow> is_left;
          (sibling, s) \<leftarrow> straighten_sibling is_left node sibling s;
          par \<leftarrow> get_parent s node;
          c \<leftarrow> branch_ptr_color s par;
          s \<leftarrow> set_color sibling c s;
          s \<leftarrow> set_color par Black s;
          sb \<leftarrow> read_branch s sibling;
          if is_left
          then do { s \<leftarrow> set_color (bn_right sb) Black s; par \<leftarrow> get_parent s node; left_rotate par s }
          else do { s \<leftarrow> set_color (bn_left sb) Black s; par \<leftarrow> get_parent s node; right_rotate par s } }"

partial_function (option) fix_delete_loop :: "node_ptr \<Rightarrow> vma_tree \<Rightarrow> (node_ptr \<times> vma_tree) option" where
  "fix_delete_loop node s =
     (if node = vt_root s then Some (node, s)
      else do { sibling \<leftarrow> get_sibling s node;
                sibling \<leftarrow> unwrap_branch s sibling;
                c \<leftarrow> branch_ptr_color s sibling;
                (sibling, s) \<leftarrow> (if c = Red
                   then do { s \<leftarrow> handle_red_sibling node sibling s;
                             sibling \<leftarrow> get_sibling s node;
                             sibling \<leftarrow> unwrap_branch s sibling;
                             Some (sibling, s) }
                   else Some (sibling, s));
                sb \<leftarrow> read_branch s sibling;
                lc \<leftarrow> node_color_of s (bn_left sb);
                rc \<leftarrow> node_color_of s (bn_right sb);
                if lc = Black \<and> rc = Black
                then do { s \<leftarrow> set_color sibling Red s;
                          par \<leftarrow> get_parent s node;
                          pc \<leftarrow> branch_ptr_color s par;
                          if pc = Red then do { s \<leftarrow> set_color par Black s; Some (node, s) }
                          else fix_delete_loop par s }
                else do { s \<leftarrow> handle_black_sibling_at_least_one_red_child node sibling s;
                          Some (node, s) } })"

definition fix_delete :: "node_ptr \<Rightarrow> vma_tree \<Rightarrow> vma_tree option" where
  "fix_delete node s =
     do { (node, s) \<leftarrow> fix_delete_loop node s;
          if node = vt_root s then set_color node Black s else Some s }"

text \<open>A failed \<^verbatim>\<open>debug_assert!(!p.is_used_leaf())\<close> panics.\<close>

definition assert_not_used :: "vma_tree \<Rightarrow> node_ptr \<Rightarrow> unit option" where
  "assert_not_used s p = do { u \<leftarrow> is_used_leaf s p; guard (\<not> u) }"

definition delete_node_with_zero_or_one_child ::
  "node_ptr \<Rightarrow> vma_tree \<Rightarrow> ((node_ptr \<times> node_ptr option) \<times> vma_tree) option" where
  "delete_node_with_zero_or_one_child node s =
     do { nb \<leftarrow> read_branch s node;
          let parent = bn_parent nb;
          lbr \<leftarrow> is_branch s (bn_left nb);
          rbr \<leftarrow> is_branch s (bn_right nb);
          if lbr
          then do { s \<leftarrow> replace_node node (bn_left nb) s;
                    assert_not_used s (bn_right nb);
                    s \<leftarrow> node_free (bn_right nb) s;
                    Some ((bn_left nb, parent), s) }
          else if rbr
          then do { s \<leftarrow> replace_node node (bn_right nb) s;
                    assert_not_used s (bn_left nb);
                    s \<leftarrow> node_free (bn_left nb) s;
                    Some ((bn_right nb, parent), s) }
          else do { (new_child, s) \<leftarrow>
                      (case branch_color nb of
                         Black \<Rightarrow>
                           do { s \<leftarrow> node_write TempPtr
                                  (Branch (branch_new 0 True Black None (bn_left nb) (bn_right nb))) s;
                                Some (TempPtr, s) }
                       | Red \<Rightarrow>
                           do { lu \<leftarrow> is_used_leaf s (bn_left nb);
                                if lu
                                then do { assert_not_used s (bn_right nb);
                                          s \<leftarrow> node_free (bn_right nb) s;
                                          Some (bn_left nb, s) }
                                else do { assert_not_used s (bn_left nb);
                                          s \<leftarrow> node_free (bn_left nb) s;
                                          Some (bn_right nb, s) } });
                    s \<leftarrow> replace_node node new_child s;
                    Some ((new_child, parent), s) } }"

text \<open>What becomes of the temporary branch: the used one of its leaves takes its place.\<close>

definition resolve_temp_null :: "node_ptr \<Rightarrow> vma_tree \<Rightarrow> vma_tree option" where
  "resolve_temp_null moved_up s =
     do { mb \<leftarrow> read_branch s moved_up;
          let left_child = bn_left mb;
          let right_child = bn_right mb;
          lu \<leftarrow> is_used_leaf s left_child;
          if lu
          then do { assert_not_used s right_child;
                    n \<leftarrow> node_read s left_child;
                    s \<leftarrow> node_write moved_up n s;
                    s \<leftarrow> node_free left_child s;
                    node_free right_child s }
          else do { n \<leftarrow> node_read s right_child;
                    s \<leftarrow> node_write moved_up n s;
                    s \<leftarrow> node_free left_child s;
                    node_free right_child s } }"

text \<open>
  The first half of \<^verbatim>\<open>delete_branch\<close>: take the branch, or its successor, out of the tree. The result is
  the node that moved up, its parent and the colour of the branch that went away.
\<close>

definition take_out_branch ::
  "node_ptr \<Rightarrow> vma_tree \<Rightarrow> ((node_ptr \<times> node_ptr option) \<times> node_color \<times> vma_tree) option" where
  "take_out_branch branch s =
     do { db \<leftarrow> read_branch s branch;
          ll \<leftarrow> is_leaf s (bn_left db);
          rl \<leftarrow> is_leaf s (bn_right db);
          if ll \<or> rl
          then do { (moved, s) \<leftarrow> delete_node_with_zero_or_one_child branch s;
                    color \<leftarrow> branch_ptr_color s branch;
                    s \<leftarrow> node_free branch s;
                    Some (moved, color, s) }
          else do { r \<leftarrow> unwrap_branch s (bn_right db);
                    successor \<leftarrow> find_min s r;
                    pivot \<leftarrow> branch_ptr_pivot s successor;
                    s \<leftarrow> set_pivot branch pivot s;
                    sb \<leftarrow> read_branch s successor;
                    s \<leftarrow> set_max_empty_area_size branch (max_empty_area_size sb) s;
                    (moved, s) \<leftarrow> delete_node_with_zero_or_one_child successor s;
                    color \<leftarrow> branch_ptr_color s successor;
                    s \<leftarrow> node_free successor s;
                    Some (moved, color, s) } }"

definition delete_branch :: "node_ptr \<Rightarrow> vma_tree \<Rightarrow> vma_tree option" where
  "delete_branch branch s =
     do { ((moved_up_node, moved_up_node_parent), delete_node_color, s) \<leftarrow> take_out_branch branch s;
          s \<leftarrow> (if delete_node_color = Black
                then do { moved_up_branch \<leftarrow> unwrap_branch s moved_up_node;
                          s \<leftarrow> fix_delete moved_up_branch s;
                          temp \<leftarrow> is_temp_null s moved_up_branch;
                          if temp then resolve_temp_null moved_up_node s else Some s }
                else Some s);
          case moved_up_node_parent of
            Some parent \<Rightarrow> update_max_empty_area_data parent s
          | None \<Rightarrow> Some s }"

text \<open>Both of two neighbouring empty leaves get the size of the two together.\<close>

definition combine_sizes :: "node_ptr \<Rightarrow> node_ptr \<Rightarrow> vma_tree \<Rightarrow> vma_tree option" where
  "combine_sizes p q s =
     do { n \<leftarrow> unwrap_empty_size s p;
          m \<leftarrow> unwrap_empty_size s q;
          combined_size \<leftarrow> checked_add n m;
          s \<leftarrow> unwrap_empty_set_size p combined_size s;
          unwrap_empty_set_size q combined_size s }"

text \<open>The walk from a branch to the root, up to the first pivot that separates two empty leaves.\<close>

partial_function (option) useless_pivot :: "vma_tree \<Rightarrow> node_ptr option \<Rightarrow> (node_ptr \<times> node_ptr \<times> node_ptr) option option" where
  "useless_pivot s current =
     (case current of
        None \<Rightarrow> Some None
      | Some branch \<Rightarrow>
          do { b \<leftarrow> read_branch s branch;
               left_max \<leftarrow> max_leaf s (bn_left b);
               right_min \<leftarrow> min_leaf s (bn_right b);
               le \<leftarrow> is_empty_leaf s left_max;
               re \<leftarrow> is_empty_leaf s right_min;
               if le \<and> re then Some (Some (branch, left_max, right_min))
               else useless_pivot s (bn_parent b) })"

partial_function (option) gap_join_loop :: "usize \<Rightarrow> vma_tree \<Rightarrow> vma_tree option" where
  "gap_join_loop addr s =
     do { info \<leftarrow> get_leaf_containing s addr;
          s \<leftarrow> (case li_parent_and_side info of
                  Some (parent, _) \<Rightarrow> update_max_empty_area_data parent s
                | None \<Rightarrow> Some s);
          found \<leftarrow> useless_pivot s (map_option fst (li_parent_and_side info));
          case found of
            None \<Rightarrow> Some s
          | Some (branch, left_max, right_min) \<Rightarrow>
              do { s \<leftarrow> combine_sizes left_max right_min s;
                   s \<leftarrow> delete_branch branch s;
                   gap_join_loop addr s } }"

definition vma_delete :: "usize \<Rightarrow> vma_tree \<Rightarrow> vma_tree option" where
  "vma_delete addr s =
     do { info \<leftarrow> get_leaf_containing s addr;
          let leaf = li_leaf info;
          used \<leftarrow> is_used_leaf s leaf;
          guard used;
          past_end \<leftarrow> checked_add (li_end info) 1;
          n \<leftarrow> checked_sub past_end (li_start info);
          s \<leftarrow> node_write leaf (Leaf (EmptyLeaf n)) s;
          case li_parent_and_side info of
            None \<Rightarrow> Some s
          | Some (parent, side) \<Rightarrow>
              do { pb \<leftarrow> read_branch s parent;
                   let sibling = branch_index pb (side_not side);
                   e \<leftarrow> is_empty_leaf s sibling;
                   s \<leftarrow> (if e then do { s \<leftarrow> combine_sizes leaf sibling s; delete_branch parent s }
                         else Some s);
                   gap_join_loop addr s } }"

subsection \<open>Creation and teardown\<close>

definition vma_tree_new :: "usize \<Rightarrow> machine \<Rightarrow> ((alloc_error + vma_tree) \<times> usize \<times> machine) option" where
  "vma_tree_new pages_used m =
     do { let s = \<lparr>vt_root = TempPtr, storage_head = 0, temp_node = placeholder, node_pages = (\<lambda>_. None), vt_machine = m\<rparr>;
          (r, s) \<leftarrow> new_storage_page (new_with_prev_page None) s;
          case r of
            Inl err \<Rightarrow> Some (Inl err, pages_used, vt_machine s)
          | Inr head \<Rightarrow>
              do { (r, pages_used, s) \<leftarrow> new_empty_leaf pages_used HIGHEST_USER_ADDRESS (s\<lparr>storage_head := head\<rparr>);
                   case r of
                     Inl _ \<Rightarrow> None
                   | Inr root \<Rightarrow> Some (Inr (s\<lparr>vt_root := root\<rparr>), pages_used, vt_machine s) } }"

partial_function (option) drop_subtree :: "node_ptr \<Rightarrow> vma_tree \<Rightarrow> vma_tree option" where
  "drop_subtree p s =
     do { n \<leftarrow> node_read s p;
          s \<leftarrow> (case n of
                  Branch b \<Rightarrow> do { s \<leftarrow> drop_subtree (bn_left b) s;
                                   b \<leftarrow> read_branch s p;
                                   drop_subtree (bn_right b) s }
                | Leaf _ \<Rightarrow> Some s);
          node_free p s }"

definition vma_tree_drop :: "vma_tree \<Rightarrow> vma_tree option" where
  "vma_tree_drop s = drop_subtree (vt_root s) s"

end
