(* ===== verification/Vma_Allocator.thy ===== *)
theory Vma_Allocator
  imports Vma_Tree
begin

text \<open>
  \<^verbatim>\<open>VMAAllocator\<close>, \<^verbatim>\<open>MapTask\<close> and \<^verbatim>\<open>UnmapTask\<close> of \<^verbatim>\<open>src/kernel/src/vma.rs\<close>: the tree of segments of an address
  space beside its page mapper. The page mapper works on the machine that the tree allocates from.
  The lock around the tree is taken and released within each call and has no state of its own here.
\<close>

record vma_allocator =
  va_page_mapper :: usize
  va_tree :: vma_tree

record map_task =
  mt_map_mem_task :: map_mem_task

record unmap_task =
  ut_start_address :: usize
  ut_unmap_mem_task :: unmap_mem_task

definition vma_allocator_new ::
  "usize \<Rightarrow> usize \<Rightarrow> machine \<Rightarrow> ((alloc_error + vma_allocator) \<times> usize \<times> machine) option" where
  "vma_allocator_new page_mapper pages_used m =
     do { (r, pages_used, m) \<leftarrow> vma_tree_new pages_used m;
          Some (map_sum id (\<lambda>tree. \<lparr>va_page_mapper = page_mapper, va_tree = tree\<rparr>) r, pages_used, m) }"

definition start_unmap :: "vma_allocator \<Rightarrow> usize \<Rightarrow> ((vma_unmap_error + unmap_task) \<times> vma_allocator) option" where
  "start_unmap a segment_address =
     do { let tree = va_tree a;
          info \<leftarrow> get_leaf_containing tree segment_address;
          leaf \<leftarrow> read_leaf tree (li_leaf info);
          case leaf of
            EmptyLeaf _ \<Rightarrow> Some (Inl SegmentAlreadyUnmapped, a)
          | UsedLeaf flags \<Rightarrow>
              if flags_locked flags then Some (Inl SegmentLocked, a)
              else do { tree \<leftarrow> set_leaf_flags (li_leaf info) (set_locked True) tree;
                        past_end \<leftarrow> checked_add (li_end info) 1;
                        n \<leftarrow> checked_sub past_end (li_start info);
                        Some (Inr \<lparr>ut_start_address = li_start info,
                                   ut_unmap_mem_task = unmap_mem_task_new (li_start info) (n div PAGE_SIZE)\<rparr>,
                              a\<lparr>va_tree := tree\<rparr>) } }"

definition start_try_map_at ::
  "usize \<Rightarrow> segment \<Rightarrow> vma_allocator \<Rightarrow> ((vma_map_error + map_task) \<times> usize \<times> vma_allocator) option" where
  "start_try_map_at pages_used new_segment a =
     do { guard (seg_start new_segment mod PAGE_SIZE = 0);
          guard (seg_len new_segment mod PAGE_SIZE = 0);
          let tree = va_tree a;
          past_end \<leftarrow> checked_add (seg_start new_segment) (seg_len new_segment);
          new_segment_end \<leftarrow> checked_sub past_end 1;
          guard (new_segment_end \<le> HIGHEST_USER_ADDRESS);
          info \<leftarrow> get_leaf_containing tree (seg_start new_segment);
          if li_end info < new_segment_end then Some (Inl SegmentAlreadyExists, pages_used, a)
          else do { leaf \<leftarrow> read_leaf tree (li_leaf info);
                    case leaf of
                      EmptyLeaf _ \<Rightarrow>
                        do { (r, pages_used, tree) \<leftarrow> vma_insert pages_used (seg_start new_segment)
                               (seg_len new_segment) (node_flags_from (seg_flags new_segment)) tree;
                             let a = a\<lparr>va_tree := tree\<rparr>;
                             case r of
                               Inl err \<Rightarrow> Some (Inl err, pages_used, a)
                             | Inr new_leaf \<Rightarrow>
                                 do { tree \<leftarrow> set_leaf_flags new_leaf (set_locked True) tree;
                                      Some (Inr \<lparr>mt_map_mem_task = map_mem_task_new (seg_start new_segment)
                                                   (seg_len new_segment div PAGE_SIZE) (seg_flags new_segment)\<rparr>,
                                            pages_used, a\<lparr>va_tree := tree\<rparr>) } }
                    | UsedLeaf _ \<Rightarrow> Some (Inl SegmentAlreadyExists, pages_used, a) } }"

text \<open>
  \<^verbatim>\<open>MapTask::run\<close> and \<^verbatim>\<open>UnmapTask::run\<close>: the list holds the answers of \<^verbatim>\<open>should_suspend\<close>; the polled value is
  \<open>None\<close> when the answers do not end the call.
\<close>

definition map_task_run ::
  "bool list \<Rightarrow> map_task \<Rightarrow> vma_allocator \<Rightarrow>
   ((map_mem_error + usize) poll option \<times> map_task \<times> vma_allocator) option" where
  "map_task_run answers task a =
     do { (r, mem_task, m) \<leftarrow> map_mem_task_run answers (va_page_mapper a) (mt_map_mem_task task) (vt_machine (va_tree a));
          let task = task\<lparr>mt_map_mem_task := mem_task\<rparr>;
          let tree = (va_tree a)\<lparr>vt_machine := m\<rparr>;
          case r of
            Some (Ready (Inr pages_allocated)) \<Rightarrow>
              do { let start_address = mm_start_address mem_task;
                   info \<leftarrow> get_leaf_containing tree start_address;
                   flags \<leftarrow> unwrap_flags tree (li_leaf info);
                   guard (flags_locked flags);
                   tree \<leftarrow> set_leaf_flags (li_leaf info) (set_locked False) tree;
                   tree \<leftarrow> vma_delete start_address tree;
                   Some (Some (Ready (Inr pages_allocated)), task, a\<lparr>va_tree := tree\<rparr>) }
          | other \<Rightarrow> Some (other, task, a\<lparr>va_tree := tree\<rparr>) }"

definition unmap_task_run ::
  "bool list \<Rightarrow> unmap_task \<Rightarrow> vma_allocator \<Rightarrow> (usize poll option \<times> unmap_task \<times> vma_allocator) option" where
  "unmap_task_run answers task a =
     do { (r, mem_task, m) \<leftarrow> unmap_mem_task_run answers (va_page_mapper a) (ut_unmap_mem_task task) (vt_machine (va_tree a));
          let task = task\<lparr>ut_unmap_mem_task := mem_task\<rparr>;
          let tree = (va_tree a)\<lparr>vt_machine := m\<rparr>;
          case r of
            Some (Ready pages_freed) \<Rightarrow>
              do { tree \<leftarrow> vma_delete (ut_start_address task) tree;
                   Some (Some (Ready pages_freed), task, a\<lparr>va_tree := tree\<rparr>) }
          | other \<Rightarrow> Some (other, task, a\<lparr>va_tree := tree\<rparr>) }"

end
