(* ===== verification/Vma_Shape.thy ===== *)
theory Vma_Shape
  imports Vma_Allocator "HOL-Library.Multiset"
begin

text \<open>
  The abstraction of the tree of segments: the binary tree that a state represents, what a lookup in
  it finds, and the position of a node in it. Loops that walk down or up are proved here.
\<close>

subsection \<open>Reading and writing nodes\<close>

definition put_node :: "node_ptr \<Rightarrow> node \<Rightarrow> vma_tree \<Rightarrow> vma_tree" where
  "put_node p n s = the (node_write p n s)"

lemma node_write_put: "node_read s p \<noteq> None \<Longrightarrow> node_write p n s = Some (put_node p n s)"
  by (cases p) (auto simp: put_node_def slice_get_def slice_set_def bind_eq_Some_conv split: if_splits)

lemma node_read_put:
  "node_read s p \<noteq> None \<Longrightarrow> node_read (put_node p n s) q = (if q = p then Some n else node_read s q)"
  by (cases p; cases q)
    (auto simp: put_node_def slice_get_def slice_set_def bind_eq_Some_conv split: if_splits)

lemma put_node_root [simp]: "node_read s p \<noteq> None \<Longrightarrow> vt_root (put_node p n s) = vt_root s"
  by (cases p) (auto simp: put_node_def slice_get_def slice_set_def bind_eq_Some_conv split: if_splits)

lemma node_read_root_update [simp]: "node_read (s\<lparr>vt_root := q\<rparr>) p = node_read s p"
  by (cases p) simp_all

text \<open>What a change of nodes leaves alone: the storage around the nodes.\<close>

definition same_storage :: "vma_tree \<Rightarrow> vma_tree \<Rightarrow> bool" where
  "same_storage s s' \<longleftrightarrow> storage_head s' = storage_head s \<and> vt_machine s' = vt_machine s
     \<and> (\<forall>a. map_option (\<lambda>page. page\<lparr>entries := []\<rparr>) (node_pages s' a) = map_option (\<lambda>page. page\<lparr>entries := []\<rparr>) (node_pages s a))
     \<and> (\<forall>a. map_option (length \<circ> entries) (node_pages s' a) = map_option (length \<circ> entries) (node_pages s a))"

lemma same_storage_refl [simp]: "same_storage s s"
  by (simp add: same_storage_def)

lemma same_storage_trans: "same_storage s s1 \<Longrightarrow> same_storage s1 s2 \<Longrightarrow> same_storage s s2"
  by (simp add: same_storage_def)

lemma same_storage_sym: "same_storage s s' \<Longrightarrow> same_storage s' s"
  by (simp add: same_storage_def)

lemma same_storage_put: "node_read s p \<noteq> None \<Longrightarrow> same_storage s (put_node p n s)"
  by (cases p) (auto simp: same_storage_def put_node_def slice_get_def slice_set_def bind_eq_Some_conv split: if_splits)

lemma same_storage_put_iff [simp]:
  "node_read s' p \<noteq> None \<Longrightarrow> same_storage s (put_node p n s') = same_storage s s'"
  using same_storage_put [of s' p n] same_storage_trans same_storage_sym by blast

lemma same_storage_root [simp]: "same_storage s (s'\<lparr>vt_root := q\<rparr>) = same_storage s s'"
  by (simp add: same_storage_def)

subsection \<open>The represented tree\<close>

text \<open>A tree with the pointers, packed fields and sizes of its nodes.\<close>

datatype vtree =
    VLeaf node_ptr leaf_node
  | VBranch node_ptr usize usize vtree vtree

fun tptr :: "vtree \<Rightarrow> node_ptr" where
  "tptr (VLeaf p _) = p"
| "tptr (VBranch p _ _ _ _) = p"

fun ptrs :: "vtree \<Rightarrow> node_ptr list" where
  "ptrs (VLeaf p _) = [p]"
| "ptrs (VBranch p _ _ l r) = p # ptrs l @ ptrs r"

fun rep :: "vma_tree \<Rightarrow> node_ptr option \<Rightarrow> vtree \<Rightarrow> bool" where
  "rep s par (VLeaf p l) \<longleftrightarrow> node_read s p = Some (Leaf l)"
| "rep s par (VBranch p pk mx l r) \<longleftrightarrow>
     node_read s p = Some (Branch \<lparr>packed_fields = pk, max_empty_area_size = mx, bn_parent = par,
       bn_left = tptr l, bn_right = tptr r\<rparr>)
     \<and> rep s (Some p) l \<and> rep s (Some p) r"

definition pivot_of :: "usize \<Rightarrow> usize" where
  "pivot_of pk = pk AND NOT 3"

lemma branch_pivot_eq: "branch_pivot b = pivot_of (packed_fields b)"
  by (simp add: branch_pivot_def pivot_of_def)

text \<open>The leaf that a lookup meets with the interval it covers, and the pivots in order between two bounds.\<close>

fun area_at :: "usize \<Rightarrow> usize \<Rightarrow> vtree \<Rightarrow> usize \<Rightarrow> node_ptr \<times> leaf_node \<times> usize \<times> usize" where
  "area_at lo hi (VLeaf p l) a = (p, l, lo, hi)"
| "area_at lo hi (VBranch _ pk _ l r) a =
     (if a < pivot_of pk then area_at lo (pivot_of pk) l a else area_at (pivot_of pk) hi r a)"

abbreviation top_area :: "vtree \<Rightarrow> usize \<Rightarrow> node_ptr \<times> leaf_node \<times> usize \<times> usize" where
  "top_area t a \<equiv> area_at 0 (HIGHEST_USER_ADDRESS + 1) t a"

fun ordered :: "usize \<Rightarrow> usize \<Rightarrow> vtree \<Rightarrow> bool" where
  "ordered lo hi (VLeaf _ _) \<longleftrightarrow> lo < hi"
| "ordered lo hi (VBranch _ pk _ l r) \<longleftrightarrow>
     lo < pivot_of pk \<and> pivot_of pk < hi \<and> ordered lo (pivot_of pk) l \<and> ordered (pivot_of pk) hi r"

lemma rep_frame:
  "(\<And>p. p \<in> set (ptrs t) \<Longrightarrow> node_read s' p = node_read s p) \<Longrightarrow> rep s' par t = rep s par t"
  by (induction t arbitrary: par) auto

lemma tptr_in_ptrs [simp]: "tptr t \<in> set (ptrs t)"
  by (cases t) simp_all

lemma rep_read: "rep s par t \<Longrightarrow> p \<in> set (ptrs t) \<Longrightarrow> node_read s p \<noteq> None"
  by (induction t arbitrary: par) auto

text \<open>Branches seen from one of their sides: \<open>x\<close> is the child on the side \<open>sd\<close>.\<close>

fun mk_branch :: "side \<Rightarrow> usize \<Rightarrow> usize \<Rightarrow> node_ptr option \<Rightarrow> node_ptr \<Rightarrow> node_ptr \<Rightarrow> branch_node" where
  "mk_branch SideLeft pk mx par x y = \<lparr>packed_fields = pk, max_empty_area_size = mx, bn_parent = par, bn_left = x, bn_right = y\<rparr>"
| "mk_branch SideRight pk mx par x y = \<lparr>packed_fields = pk, max_empty_area_size = mx, bn_parent = par, bn_left = y, bn_right = x\<rparr>"

fun vbranch :: "side \<Rightarrow> node_ptr \<Rightarrow> usize \<Rightarrow> usize \<Rightarrow> vtree \<Rightarrow> vtree \<Rightarrow> vtree" where
  "vbranch SideLeft p pk mx x y = VBranch p pk mx x y"
| "vbranch SideRight p pk mx x y = VBranch p pk mx y x"

lemma mk_branch_simps [simp]:
  "packed_fields (mk_branch sd pk mx par x y) = pk" "max_empty_area_size (mk_branch sd pk mx par x y) = mx"
  "bn_parent (mk_branch sd pk mx par x y) = par"
  "branch_index (mk_branch sd pk mx par x y) sd = x" "branch_index (mk_branch sd pk mx par x y) (side_not sd) = y"
  "branch_index_mut sd z (mk_branch sd pk mx par x y) = mk_branch sd pk mx par z y"
  "branch_index_mut (side_not sd) z (mk_branch sd pk mx par x y) = mk_branch sd pk mx par x z"
  "(mk_branch sd pk mx par x y)\<lparr>bn_parent := q\<rparr> = mk_branch sd pk mx q x y"
  "(mk_branch sd pk mx par x y)\<lparr>max_empty_area_size := m\<rparr> = mk_branch sd pk m par x y"
  "(mk_branch sd pk mx par x y)\<lparr>packed_fields := w\<rparr> = mk_branch sd w mx par x y"
  by (cases sd; simp)+

lemma vbranch_simps [simp]:
  "tptr (vbranch sd p pk mx x y) = p"
  "rep s par (vbranch sd p pk mx x y) \<longleftrightarrow>
     node_read s p = Some (Branch (mk_branch sd pk mx par (tptr x) (tptr y))) \<and> rep s (Some p) x \<and> rep s (Some p) y"
  by (cases sd; auto)+

lemma mset_ptrs_vbranch: "mset (ptrs (vbranch sd p pk mx x y)) = add_mset p (mset (ptrs x) + mset (ptrs y))"
  by (cases sd) simp_all

lemma set_ptrs_vbranch [simp]: "set (ptrs (vbranch sd p pk mx x y)) = insert p (set (ptrs x) \<union> set (ptrs y))"
  by (cases sd) auto

lemma distinct_ptrs_vbranch [simp]:
  "distinct (ptrs (vbranch sd p pk mx x y)) \<longleftrightarrow>
     p \<notin> set (ptrs x) \<and> p \<notin> set (ptrs y) \<and> distinct (ptrs x) \<and> distinct (ptrs y) \<and> set (ptrs x) \<inter> set (ptrs y) = {}"
  by (cases sd) auto

text \<open>A position in a tree: the branches above it, from the inside out, with the side of the position.\<close>

datatype crumb = Crumb (cside: side) (cptr: node_ptr) (cpk: usize) (cmx: usize) (csib: vtree)

type_synonym context_path = "crumb list"

fun cparent :: "context_path \<Rightarrow> node_ptr option" where
  "cparent [] = None"
| "cparent (c # _) = Some (cptr c)"

fun plug1 :: "crumb \<Rightarrow> vtree \<Rightarrow> vtree" where
  "plug1 (Crumb sd q pk mx sib) t = vbranch sd q pk mx t sib"

fun plug :: "context_path \<Rightarrow> vtree \<Rightarrow> vtree" where
  "plug [] t = t"
| "plug (c # cs) t = plug cs (plug1 c t)"

fun cptrs :: "context_path \<Rightarrow> node_ptr list" where
  "cptrs [] = []"
| "cptrs (c # cs) = cptr c # ptrs (csib c) @ cptrs cs"

definition cbranch :: "crumb \<Rightarrow> node_ptr option \<Rightarrow> node_ptr \<Rightarrow> branch_node" where
  "cbranch c par p = mk_branch (cside c) (cpk c) (cmx c) par p (tptr (csib c))"

fun rep_ctx :: "vma_tree \<Rightarrow> context_path \<Rightarrow> node_ptr \<Rightarrow> bool" where
  "rep_ctx s [] p \<longleftrightarrow> vt_root s = p"
| "rep_ctx s (c # cs) p \<longleftrightarrow>
     node_read s (cptr c) = Some (Branch (cbranch c (cparent cs) p))
     \<and> rep s (Some (cptr c)) (csib c) \<and> rep_ctx s cs (cptr c)"

lemma tptr_plug1 [simp]: "tptr (plug1 c t) = cptr c"
  by (cases c) simp_all

lemma rep_plug1:
  "rep s par (plug1 c t) \<longleftrightarrow>
     node_read s (cptr c) = Some (Branch (cbranch c par (tptr t))) \<and> rep s (Some (cptr c)) (csib c)
     \<and> rep s (Some (cptr c)) t"
  by (cases c) (auto simp: cbranch_def)

lemma rep_plug: "rep s None (plug cs t) \<and> vt_root s = tptr (plug cs t) \<longleftrightarrow> rep s (cparent cs) t \<and> rep_ctx s cs (tptr t)"
proof (induction cs arbitrary: t)
  case (Cons c cs)
  then show ?case by (auto simp: rep_plug1)
qed auto

lemma mset_ptrs_plug1: "mset (ptrs (plug1 c t)) = add_mset (cptr c) (mset (ptrs t) + mset (ptrs (csib c)))"
  by (cases c) (simp add: mset_ptrs_vbranch)

lemma mset_ptrs_plug: "mset (ptrs (plug cs t)) = mset (ptrs t) + mset (cptrs cs)"
  by (induction cs arbitrary: t) (simp_all add: mset_ptrs_plug1)

lemma set_ptrs_plug [simp]: "set (ptrs (plug cs t)) = set (ptrs t) \<union> set (cptrs cs)"
  using arg_cong [OF mset_ptrs_plug, of set_mset] by simp

lemma distinct_ptrs_plug: "distinct (ptrs (plug cs t)) \<longleftrightarrow> distinct (ptrs t @ cptrs cs)"
  by (metis mset_append mset_eq_imp_distinct_iff mset_ptrs_plug)

lemma rep_ctx_frame:
  "(\<And>q. q \<in> set (cptrs cs) \<Longrightarrow> node_read s' q = node_read s q) \<Longrightarrow> vt_root s' = vt_root s \<Longrightarrow>
     rep_ctx s' cs p = rep_ctx s cs p"
proof (induction cs arbitrary: p)
  case (Cons c cs)
  moreover have "rep s' (Some (cptr c)) (csib c) = rep s (Some (cptr c)) (csib c)"
    using Cons.prems(1) by (intro rep_frame) simp
  ultimately show ?case by simp
qed simp

definition tree_ok :: "vma_tree \<Rightarrow> vtree \<Rightarrow> bool" where
  "tree_ok s t \<longleftrightarrow> vt_root s = tptr t \<and> rep s None t \<and> distinct (ptrs t)"

lemma tree_ok_plug:
  "tree_ok s (plug cs t) \<longleftrightarrow> rep s (cparent cs) t \<and> rep_ctx s cs (tptr t) \<and> distinct (ptrs t @ cptrs cs)"
  using rep_plug [of s cs t] by (auto simp: tree_ok_def distinct_ptrs_plug)

subsection \<open>Walking down\<close>

fun descend :: "context_path \<Rightarrow> vtree \<Rightarrow> usize \<Rightarrow> context_path \<times> vtree" where
  "descend cs (VLeaf p l) a = (cs, VLeaf p l)"
| "descend cs (VBranch p pk mx l r) a =
     (if a < pivot_of pk then descend (Crumb SideLeft p pk mx r # cs) l a
      else descend (Crumb SideRight p pk mx l # cs) r a)"

text \<open>The first address of a position and the first one after it.\<close>

fun clo :: "context_path \<Rightarrow> usize" where
  "clo [] = 0"
| "clo (Crumb SideLeft _ _ _ _ # cs) = clo cs"
| "clo (Crumb SideRight _ pk _ _ # cs) = pivot_of pk"

fun chi :: "context_path \<Rightarrow> usize" where
  "chi [] = HIGHEST_USER_ADDRESS + 1"
| "chi (Crumb SideLeft _ pk _ _ # cs) = pivot_of pk"
| "chi (Crumb SideRight _ _ _ _ # cs) = chi cs"

fun cps :: "context_path \<Rightarrow> (node_ptr \<times> side) option" where
  "cps [] = None"
| "cps (c # cs) = Some (cptr c, cside c)"

lemma cps_parent: "map_option fst (cps cs) = cparent cs"
  by (cases cs) simp_all

lemma descend_plug: "descend cs t a = (cs', t') \<Longrightarrow> plug cs' t' = plug cs t"
  by (induction cs t a rule: descend.induct) (auto split: if_splits)

lemma descend_area:
  "descend cs t a = (cs', t') \<Longrightarrow> \<exists>p l. t' = VLeaf p l \<and> area_at (clo cs) (chi cs) t a = (p, l, clo cs', chi cs')"
  by (induction cs t a rule: descend.induct) (auto split: if_splits)

lemma descend_bounds:
  "descend cs t a = (cs', t') \<Longrightarrow> clo cs \<le> a \<Longrightarrow> a < chi cs \<Longrightarrow> clo cs' \<le> a \<and> a < chi cs'"
  by (induction cs t a rule: descend.induct) (auto split: if_splits)

lemma descend_ordered:
  "descend cs t a = (cs', t') \<Longrightarrow> ordered (clo cs) (chi cs) t \<Longrightarrow> ordered (clo cs') (chi cs') t'"
  by (induction cs t a rule: descend.induct) (auto split: if_splits)

lemma leaf_loop_descend:
  "rep s (cparent cs) t \<Longrightarrow> ordered (clo cs) (chi cs) t \<Longrightarrow> descend cs t a = (cs', t') \<Longrightarrow>
     leaf_loop s a (tptr t) (cps cs) (clo cs) (chi cs) =
       Some \<lparr>li_leaf = tptr t', li_parent_and_side = cps cs', li_start = clo cs', li_end = chi cs' - 1\<rparr>"
proof (induction cs t a rule: descend.induct)
  case (1 cs p l a)
  then have "1 \<le> chi cs" by (auto simp: word_le_nat_alt word_less_nat_alt)
  with 1 show ?case by (subst leaf_loop.simps) (auto simp: checked_sub_def)
next
  case (2 cs p pk mx l r a)
  show ?case
  proof (cases "a < pivot_of pk")
    case True
    with 2(1) [OF True] "2.prems" show ?thesis
      by (subst leaf_loop.simps) (simp add: branch_pivot_eq guard_def less_imp_le)
  next
    case False
    with 2(2) [OF False] "2.prems" show ?thesis
      by (subst leaf_loop.simps) (simp add: branch_pivot_eq guard_def less_imp_le)
  qed
qed

lemma top_bound: "saturating_add HIGHEST_USER_ADDRESS 1 = HIGHEST_USER_ADDRESS + 1"
  by (simp add: saturating_add_def HIGHEST_USER_ADDRESS_def)

lemma le_highest_iff: "a \<le> HIGHEST_USER_ADDRESS \<longleftrightarrow> a < HIGHEST_USER_ADDRESS + 1"
  unfolding word_le_nat_alt word_less_nat_alt by (auto simp: HIGHEST_USER_ADDRESS_def)

lemma get_leaf_containing_descend:
  assumes "tree_ok s t" "ordered 0 (HIGHEST_USER_ADDRESS + 1) t" "a \<le> HIGHEST_USER_ADDRESS" "descend [] t a = (cs, t')"
  shows "get_leaf_containing s a =
    Some \<lparr>li_leaf = tptr t', li_parent_and_side = cps cs, li_start = clo cs, li_end = chi cs - 1\<rparr>"
  using leaf_loop_descend [of s "[]" t a cs t'] assms
  by (simp add: get_leaf_containing_def tree_ok_def top_bound guard_def)

text \<open>The order of the pivots, seen from a position.\<close>

fun ordered_ctx :: "context_path \<Rightarrow> bool" where
  "ordered_ctx [] \<longleftrightarrow> True"
| "ordered_ctx (Crumb SideLeft _ pk _ r # cs) \<longleftrightarrow>
     clo cs < pivot_of pk \<and> pivot_of pk < chi cs \<and> ordered (pivot_of pk) (chi cs) r \<and> ordered_ctx cs"
| "ordered_ctx (Crumb SideRight _ pk _ l # cs) \<longleftrightarrow>
     clo cs < pivot_of pk \<and> pivot_of pk < chi cs \<and> ordered (clo cs) (pivot_of pk) l \<and> ordered_ctx cs"

lemma ordered_plug: "ordered 0 (HIGHEST_USER_ADDRESS + 1) (plug cs t) \<longleftrightarrow> ordered_ctx cs \<and> ordered (clo cs) (chi cs) t"
proof (induction cs arbitrary: t)
  case (Cons c cs)
  show ?case by (cases c; cases "cside c") (auto simp: Cons.IH)
qed simp

text \<open>Every address of the interval of a position meets the tree there, every other one does not.\<close>

lemma area_plug:
  "ordered_ctx cs \<Longrightarrow> clo cs \<le> a \<Longrightarrow> a < chi cs \<Longrightarrow> top_area (plug cs t) a = area_at (clo cs) (chi cs) t a"
proof (induction cs arbitrary: t)
  case (Cons c cs)
  then show ?case by (cases c; cases "cside c") (auto simp: Cons.IH)
qed simp

lemma area_plug_other:
  "ordered_ctx cs \<Longrightarrow> a \<le> HIGHEST_USER_ADDRESS \<Longrightarrow> \<not> (clo cs \<le> a \<and> a < chi cs) \<Longrightarrow>
     top_area (plug cs t) a = top_area (plug cs t') a"
proof (induction cs arbitrary: t t')
  case (Cons c cs)
  show ?case
  proof (cases "clo cs \<le> a \<and> a < chi cs")
    case True
    with Cons.prems show ?thesis by (cases c; cases "cside c") (auto simp: area_plug)
  next
    case False
    with Cons.prems Cons.IH show ?thesis by (cases c; cases "cside c") auto
  qed
qed (simp add: le_highest_iff)

lemma area_ordered_same:
  assumes "ordered_ctx cs" "a \<le> HIGHEST_USER_ADDRESS"
  shows "top_area (plug cs t) a =
    (if clo cs \<le> a \<and> a < chi cs then area_at (clo cs) (chi cs) t a else top_area (plug cs t') a)"
  using area_plug [OF assms(1)] area_plug_other [OF assms] by auto

text \<open>What \<^verbatim>\<open>get_leaf_containing\<close> returns is the area of the address, and its place in the tree.\<close>

lemma get_leaf_containing_area:
  assumes ok: "tree_ok s t" "ordered 0 (HIGHEST_USER_ADDRESS + 1) t" "a \<le> HIGHEST_USER_ADDRESS"
    and area: "top_area t a = (p, l, lo, hi)"
  obtains cs where "t = plug cs (VLeaf p l)" "clo cs = lo" "chi cs = hi" "lo \<le> a" "a < hi"
    "get_leaf_containing s a = Some \<lparr>li_leaf = p, li_parent_and_side = cps cs, li_start = lo, li_end = hi - 1\<rparr>"
proof -
  obtain cs t' where d: "descend [] t a = (cs, t')" by fastforce
  have t': "t' = VLeaf p l" "clo cs = lo" "chi cs = hi" using descend_area [OF d] area by auto
  show ?thesis
  proof (rule that)
    show "t = plug cs (VLeaf p l)" using descend_plug [OF d] t' by simp
    show "clo cs = lo" "chi cs = hi" by (rule t')+
    show "lo \<le> a" "a < hi" using descend_bounds [OF d] t' ok(3) by (simp_all add: le_highest_iff)
    show "get_leaf_containing s a = Some \<lparr>li_leaf = p, li_parent_and_side = cps cs, li_start = lo, li_end = hi - 1\<rparr>"
      using get_leaf_containing_descend [OF ok d] t' by simp
  qed
qed

end
