(* ===== verification/Vma_Rotate.thy ===== *)
theory Vma_Rotate
  imports Vma_Shape
begin

text \<open>
  The operations of the tree of segments that change single nodes, recolour, rotate or refresh sizes
  along a path, as operations on the represented tree.
\<close>

subsection \<open>Single nodes\<close>

lemma read_branch_eq: "node_read s p = Some (Branch b) \<Longrightarrow> read_branch s p = Some b"
  by (simp add: read_branch_def)

lemma update_branch_put:
  "node_read s p = Some (Branch b) \<Longrightarrow> update_branch p f s = Some (put_node p (Branch (f b)) s)"
  by (simp add: update_branch_def read_branch_def node_write_put)

lemma child_empty_size_eq:
  "node_read s p = Some n \<Longrightarrow> child_empty_size s p =
     Some (case n of Branch b \<Rightarrow> max_empty_area_size b | Leaf (UsedLeaf _) \<Rightarrow> 0 | Leaf (EmptyLeaf n) \<Rightarrow> n)"
  by (simp add: child_empty_size_def)

fun node_size :: "node \<Rightarrow> usize" where
  "node_size (Branch b) = max_empty_area_size b"
| "node_size (Leaf (UsedLeaf _)) = 0"
| "node_size (Leaf (EmptyLeaf n)) = n"

lemma child_empty_size_node: "node_read s p = Some n \<Longrightarrow> child_empty_size s p = Some (node_size n)"
  by (cases n rule: node_size.cases) (simp_all add: child_empty_size_def)

fun esize :: "vtree \<Rightarrow> usize" where
  "esize (VLeaf _ (UsedLeaf _)) = 0"
| "esize (VLeaf _ (EmptyLeaf n)) = n"
| "esize (VBranch _ _ mx _ _) = mx"

lemma rep_esize: "rep s par t \<Longrightarrow> \<exists>n. node_read s (tptr t) = Some n \<and> node_size n = esize t"
  by (cases t rule: esize.cases) auto

lemma recalculate_put:
  assumes "node_read s p = Some (Branch (mk_branch sd pk mx par x y))" "node_read s x = Some xn" "node_read s y = Some yn"
  shows "recalculate_max_empty_area_size p s =
    Some (put_node p (Branch (mk_branch sd pk (max (node_size xn) (node_size yn)) par x y)) s)"
  using assms by (cases sd)
    (simp_all add: recalculate_max_empty_area_size_def read_branch_eq child_empty_size_node update_branch_put max.commute)

subsection \<open>Rotations\<close>

text \<open>How a rotation changes the reads: the parent \<open>q\<close> of the rotated branch, if there is one, is relinked.\<close>

fun reparent :: "node_ptr option \<Rightarrow> node \<Rightarrow> node" where
  "reparent q (Branch b) = Branch (b\<lparr>bn_parent := q\<rparr>)"
| "reparent q (Leaf l) = Leaf l"

lemma node_size_reparent [simp]: "node_size (reparent q n) = node_size n"
  by (cases n) simp_all

definition relinked :: "node_ptr \<Rightarrow> node_ptr \<Rightarrow> branch_node \<Rightarrow> branch_node" where
  "relinked old new b = (if bn_left b = old then b\<lparr>bn_left := new\<rparr> else b\<lparr>bn_right := new\<rparr>)"

lemma set_parent_if_branch_put:
  "node_read s p = Some n \<Longrightarrow>
     \<exists>s'. set_parent_if_branch p q s = Some s' \<and> vt_root s' = vt_root s \<and> same_storage s s'
       \<and> node_read s' = (node_read s)(p := Some (reparent q n))"
  by (cases n) (auto simp: set_parent_if_branch_def node_write_put node_read_put same_storage_put fun_eq_iff)

lemma relink_parent_put:
  assumes "node_read s old = Some (Branch b)"
    and "\<And>q. bn_parent b = Some q \<Longrightarrow> node_read s q = Some (Branch (qb q)) \<and> q \<noteq> old"
  shows "\<exists>s'. relink_parent old new s = Some s' \<and> same_storage s s'
    \<and> vt_root s' = (if bn_parent b = None then new else vt_root s)
    \<and> node_read s' = (case bn_parent b of None \<Rightarrow> node_read s
        | Some q \<Rightarrow> (node_read s)(q := Some (Branch (relinked old new (qb q)))))"
proof (cases "bn_parent b")
  case None
  then show ?thesis
    using assms(1) by (simp add: relink_parent_def is_left_side_def read_branch_eq fun_eq_iff)
next
  case (Some q)
  with assms(2) have q: "node_read s q = Some (Branch (qb q))" by simp
  show ?thesis
    using assms(1) Some q
    by (auto simp: relink_parent_def is_left_side_def read_branch_eq get_parent_def update_branch_put
        relinked_def node_read_put same_storage_put fun_eq_iff eq_commute [of old])
qed

text \<open>Both rotations at once: the child on the side that is not \<open>sd\<close> moves up.\<close>

definition rotate :: "side \<Rightarrow> node_ptr \<Rightarrow> vma_tree \<Rightarrow> vma_tree option" where
  "rotate sd node s =
     do { nb \<leftarrow> read_branch s node;
          let up = branch_index nb (side_not sd);
          ub \<leftarrow> read_branch s up;
          s \<leftarrow> update_branch node (branch_index_mut (side_not sd) (branch_index ub sd)) s;
          s \<leftarrow> set_parent_if_branch (branch_index ub sd) (Some node) s;
          nb \<leftarrow> read_branch s node;
          s \<leftarrow> update_branch up (\<lambda>b. b\<lparr>bn_parent := bn_parent nb\<rparr>) s;
          s \<leftarrow> relink_parent node up s;
          s \<leftarrow> update_branch up (branch_index_mut sd node) s;
          s \<leftarrow> update_branch node (\<lambda>b. b\<lparr>bn_parent := Some up\<rparr>) s;
          s \<leftarrow> recalculate_max_empty_area_size node s;
          recalculate_max_empty_area_size up s }"

lemma branch_index_mut_fun:
  "branch_index_mut SideLeft p = (\<lambda>b. b\<lparr>bn_left := p\<rparr>)" "branch_index_mut SideRight p = (\<lambda>b. b\<lparr>bn_right := p\<rparr>)"
  by (simp_all add: fun_eq_iff)

lemma left_rotate_side: "left_rotate = rotate SideLeft"
  by (simp add: fun_eq_iff left_rotate_def rotate_def branch_index_mut_fun)

lemma right_rotate_side: "right_rotate = rotate SideRight"
  by (simp add: fun_eq_iff right_rotate_def rotate_def branch_index_mut_fun)

lemma rotate_mem:
  assumes n: "node_read s n = Some (Branch (mk_branch sd pkn mxn par a r))"
    and r: "node_read s r = Some (Branch (mk_branch sd pkr mxr (Some n) c d))"
    and o: "node_read s a = Some an" "node_read s c = Some cn" "node_read s d = Some dn"
    and q: "\<And>q. par = Some q \<Longrightarrow> node_read s q = Some (Branch (qb q)) \<and> q \<notin> {n, r, a, c, d}"
    and dist0: "distinct [n, r, a, c, d]"
  shows "\<exists>s'. rotate sd n s = Some s' \<and> same_storage s s'
    \<and> vt_root s' = (if par = None then r else vt_root s)
    \<and> node_read s' = (let m1 = max (node_size an) (node_size cn) in
        (case par of None \<Rightarrow> node_read s | Some q \<Rightarrow> (node_read s)(q := Some (Branch (relinked n r (qb q)))))
        (c := Some (reparent (Some n) cn),
         n := Some (Branch (mk_branch sd pkn m1 (Some r) a c)),
         r := Some (Branch (mk_branch sd pkr (max m1 (node_size dn)) par n d))))"
proof -
  have dist: "n \<noteq> r" "r \<noteq> n" "n \<noteq> a" "a \<noteq> n" "n \<noteq> c" "c \<noteq> n" "n \<noteq> d" "d \<noteq> n" "r \<noteq> a" "a \<noteq> r" "r \<noteq> c" "c \<noteq> r"
    "r \<noteq> d" "d \<noteq> r" "a \<noteq> c" "c \<noteq> a" "a \<noteq> d" "d \<noteq> a" "c \<noteq> d" "d \<noteq> c" using dist0 by auto
  let ?m1 = "max (node_size an) (node_size cn)"
  let ?s1 = "put_node n (Branch (mk_branch sd pkn mxn par a c)) s"
  have s1: "update_branch n (branch_index_mut (side_not sd) c) s = Some ?s1" "same_storage s ?s1" "vt_root ?s1 = vt_root s"
    "node_read ?s1 = (node_read s)(n := Some (Branch (mk_branch sd pkn mxn par a c)))"
    using n by (simp_all add: update_branch_put node_read_put fun_eq_iff)
  have "node_read ?s1 c = Some cn" using s1(4) o dist by simp
  from set_parent_if_branch_put [OF this, of "Some n"] obtain s2 where
    s2: "set_parent_if_branch c (Some n) ?s1 = Some s2" "vt_root s2 = vt_root s" "same_storage ?s1 s2"
    "node_read s2 = (node_read s)(n := Some (Branch (mk_branch sd pkn mxn par a c)), c := Some (reparent (Some n) cn))"
    using s1 by auto
  have r2: "node_read s2 r = Some (Branch (mk_branch sd pkr mxr (Some n) c d))"
    "node_read s2 n = Some (Branch (mk_branch sd pkn mxn par a c))"
    using s2(4) r dist by simp_all
  let ?s3 = "put_node r (Branch (mk_branch sd pkr mxr par c d)) s2"
  have s3: "update_branch r (\<lambda>b. b\<lparr>bn_parent := par\<rparr>) s2 = Some ?s3" "same_storage s2 ?s3" "vt_root ?s3 = vt_root s"
    "node_read ?s3 = (node_read s2)(r := Some (Branch (mk_branch sd pkr mxr par c d)))"
    using r2 s2(2) by (simp_all add: update_branch_put node_read_put fun_eq_iff)
  have n3: "node_read ?s3 n = Some (Branch (mk_branch sd pkn mxn par a c))" using s3(4) r2(2) dist by simp
  have q3: "node_read ?s3 q = Some (Branch (qb q)) \<and> q \<noteq> n" if "bn_parent (mk_branch sd pkn mxn par a c) = Some q" for q
    using q [of q] that s3(4) s2(4) by simp
  from relink_parent_put [OF n3, of qb, OF q3, of r] obtain s4 where
    s4: "relink_parent n r ?s3 = Some s4" "same_storage ?s3 s4" "vt_root s4 = (if par = None then r else vt_root s)"
    "node_read s4 = (case par of None \<Rightarrow> node_read ?s3 | Some q \<Rightarrow> (node_read ?s3)(q := Some (Branch (relinked n r (qb q)))))"
    using s3(3) by auto
  have r4: "node_read s4 r = Some (Branch (mk_branch sd pkr mxr par c d))"
    "node_read s4 n = Some (Branch (mk_branch sd pkn mxn par a c))"
    using s4(4) s3(4) n3 q dist by (auto split: option.splits)
  let ?s5 = "put_node r (Branch (mk_branch sd pkr mxr par n d)) s4"
  let ?s6 = "put_node n (Branch (mk_branch sd pkn mxn (Some r) a c)) ?s5"
  have s5: "update_branch r (branch_index_mut sd n) s4 = Some ?s5" using r4 by (simp add: update_branch_put)
  have n5: "node_read ?s5 n = Some (Branch (mk_branch sd pkn mxn par a c))" using r4 dist by (simp add: node_read_put)
  have s6: "update_branch n (\<lambda>b. b\<lparr>bn_parent := Some r\<rparr>) ?s5 = Some ?s6" using n5 by (simp add: update_branch_put)
  have rd6: "node_read ?s6 = (node_read s4)(r := Some (Branch (mk_branch sd pkr mxr par n d)),
      n := Some (Branch (mk_branch sd pkn mxn (Some r) a c)))"
    using r4 n5 by (auto simp: node_read_put fun_eq_iff)
  have o6: "node_read ?s6 a = Some an" "node_read ?s6 c = Some (reparent (Some n) cn)" "node_read ?s6 d = Some dn"
    using rd6 s4(4) s3(4) s2(4) o q dist by (auto split: option.splits)
  let ?s7 = "put_node n (Branch (mk_branch sd pkn ?m1 (Some r) a c)) ?s6"
  have n6: "node_read ?s6 n = Some (Branch (mk_branch sd pkn mxn (Some r) a c))" using rd6 by simp
  have s7: "recalculate_max_empty_area_size n ?s6 = Some ?s7" using recalculate_put [OF n6 o6(1,2)] by simp
  have rd7: "node_read ?s7 = (node_read ?s6)(n := Some (Branch (mk_branch sd pkn ?m1 (Some r) a c)))"
    using n6 by (simp add: node_read_put fun_eq_iff)
  let ?s8 = "put_node r (Branch (mk_branch sd pkr (max ?m1 (node_size dn)) par n d)) ?s7"
  have r7: "node_read ?s7 r = Some (Branch (mk_branch sd pkr mxr par n d))" using rd7 rd6 dist by simp
  have s8: "recalculate_max_empty_area_size r ?s7 = Some ?s8"
    using recalculate_put [OF r7, of "Branch (mk_branch sd pkn ?m1 (Some r) a c)" dn] rd7 o6(3) dist by simp
  have rd8: "node_read ?s8 = (node_read ?s7)(r := Some (Branch (mk_branch sd pkr (max ?m1 (node_size dn)) par n d)))"
    using r7 by (simp add: node_read_put fun_eq_iff)
  have "rotate sd n s = Some ?s8"
    using n r by (simp add: rotate_def Let_def read_branch_eq r2 s1(1) s2(1) s3(1) s4(1) s5 s6 s7 s8)
  moreover have "same_storage s s4" by (rule same_storage_trans [OF same_storage_trans [OF s1(2) s2(3)] same_storage_trans [OF s3(2) s4(2)]])
  then have "same_storage s ?s8" using r4 n5 n6 r7 by simp
  moreover have "vt_root ?s8 = (if par = None then r else vt_root s)"
    using r4 n5 n6 r7 s4(3) by simp
  moreover have "node_read ?s8 = (let m1 = ?m1 in
        (case par of None \<Rightarrow> node_read s | Some q \<Rightarrow> (node_read s)(q := Some (Branch (relinked n r (qb q)))))
        (c := Some (reparent (Some n) cn),
         n := Some (Branch (mk_branch sd pkn m1 (Some r) a c)),
         r := Some (Branch (mk_branch sd pkr (max m1 (node_size dn)) par n d))))"
    unfolding rd8 rd7 rd6 s4(4) s3(4) s2(4) Let_def using dist q by (auto simp: fun_eq_iff split: option.splits)
  ultimately show ?thesis by blast
qed

text \<open>Only the nodes at \<open>P\<close> change.\<close>

definition changes_only :: "node_ptr set \<Rightarrow> vma_tree \<Rightarrow> vma_tree \<Rightarrow> bool" where
  "changes_only P s s' \<longleftrightarrow> same_storage s s' \<and> (\<forall>p. p \<notin> P \<longrightarrow> node_read s' p = node_read s p)"

lemma changes_only_refl [simp]: "changes_only P s s"
  by (simp add: changes_only_def)

lemma changes_only_trans: "changes_only P s s1 \<Longrightarrow> changes_only P s1 s2 \<Longrightarrow> changes_only P s s2"
  unfolding changes_only_def using same_storage_trans by metis

lemma changes_only_mono: "changes_only P s s' \<Longrightarrow> P \<subseteq> Q \<Longrightarrow> changes_only Q s s'"
  by (auto simp: changes_only_def)

lemma rep_reparented:
  assumes "rep s par t" "distinct (ptrs t)" "node_read s (tptr t) = Some n" "node_read s' (tptr t) = Some (reparent q n)"
    "\<And>p. p \<in> set (ptrs t) \<Longrightarrow> p \<noteq> tptr t \<Longrightarrow> node_read s' p = node_read s p"
  shows "rep s' q t"
proof (cases t)
  case (VBranch p pk mx l r)
  have "rep s' (Some p) l = rep s (Some p) l" "rep s' (Some p) r = rep s (Some p) r"
    using assms(2,5) by (auto simp: VBranch intro!: rep_frame)
  with assms VBranch show ?thesis by auto
qed (use assms in auto)

lemma tptr_disjoint: "set (ptrs t) \<inter> set (ptrs u) = {} \<Longrightarrow> tptr t \<noteq> tptr u"
  by (metis disjoint_iff tptr_in_ptrs)

lemma relinked_cbranch: "tptr (csib c) \<noteq> old \<Longrightarrow> relinked old new (cbranch c par old) = cbranch c par new"
  by (cases c; cases "cside c") (auto simp: relinked_def cbranch_def)

lemma rep_ctx_relinked:
  assumes "rep_ctx s cs old" "distinct (cptrs cs)" "old \<notin> set (cptrs cs)"
    "vt_root s' = (if cs = [] then new else vt_root s)"
    "\<And>c cs'. cs = c # cs' \<Longrightarrow> node_read s' (cptr c) = Some (Branch (relinked old new (cbranch c (cparent cs') old)))"
    "\<And>p. p \<in> set (cptrs cs) \<Longrightarrow> cparent cs \<noteq> Some p \<Longrightarrow> node_read s' p = node_read s p"
  shows "rep_ctx s' cs new"
proof (cases cs)
  case (Cons c cs')
  have "old \<noteq> tptr (csib c)" using assms(3) tptr_in_ptrs [of "csib c"] by (auto simp: Cons)
  moreover have "rep s' (Some (cptr c)) (csib c) = rep s (Some (cptr c)) (csib c)"
    using assms(2,6) by (intro rep_frame) (auto simp: Cons)
  moreover have "rep_ctx s' cs' (cptr c) = rep_ctx s cs' (cptr c)"
    using assms(2,4,6) by (intro rep_ctx_frame) (auto simp: Cons)
  ultimately show ?thesis using assms(1,5) by (simp add: Cons relinked_cbranch)
qed (use assms in simp)

lemma rotate_tree:
  assumes "tree_ok s (plug cs (vbranch sd n pkn mxn a (vbranch sd r pkr mxr b d)))"
  defines "m1 \<equiv> max (esize a) (esize b)"
  shows "\<exists>s'. rotate sd n s = Some s'
    \<and> tree_ok s' (plug cs (vbranch sd r pkr (max m1 (esize d)) (vbranch sd n pkn m1 a b) d))
    \<and> changes_only (insert n (insert r (insert (tptr b) (set_option (cparent cs))))) s s'"
proof -
  let ?t = "vbranch sd n pkn mxn a (vbranch sd r pkr mxr b d)"
  have R: "rep s (cparent cs) ?t" and C: "rep_ctx s cs n" and D: "distinct (ptrs ?t @ cptrs cs)"
    using assms(1) by (simp_all add: tree_ok_plug)
  obtain an cn dn where o: "node_read s (tptr a) = Some an" "node_size an = esize a"
    "node_read s (tptr b) = Some cn" "node_size cn = esize b" "node_read s (tptr d) = Some dn" "node_size dn = esize d"
    using R rep_esize by (metis vbranch_simps(2))
  have dj: "set (ptrs a) \<inter> set (ptrs b) = {}" "set (ptrs a) \<inter> set (ptrs d) = {}" "set (ptrs b) \<inter> set (ptrs d) = {}"
    using D by auto
  have dist: "distinct [n, r, tptr a, tptr b, tptr d]" using D dj [THEN tptr_disjoint] by auto
  have far: "p \<noteq> tptr a \<and> p \<noteq> tptr b \<and> p \<noteq> tptr d \<and> p \<noteq> n \<and> p \<noteq> r" if "p \<in> set (cptrs cs)" for p
    using that D tptr_in_ptrs [of a] tptr_in_ptrs [of b] tptr_in_ptrs [of d] by (auto simp del: tptr_in_ptrs)
  define qb where "qb q = cbranch (hd cs) (cparent (tl cs)) n" for q :: node_ptr
  have q: "node_read s q = Some (Branch (qb q)) \<and> q \<notin> {n, r, tptr a, tptr b, tptr d}" if "cparent cs = Some q" for q
    using that C far [of q] by (cases cs) (auto simp: qb_def)
  have "node_read s n = Some (Branch (mk_branch sd pkn mxn (cparent cs) (tptr a) r))"
    "node_read s r = Some (Branch (mk_branch sd pkr mxr (Some n) (tptr b) (tptr d)))" using R by simp_all
  from rotate_mem [OF this o(1,3,5) q dist] obtain s' where s': "rotate sd n s = Some s'" "same_storage s s'"
    "vt_root s' = (if cparent cs = None then r else vt_root s)"
    and rd: "node_read s' =
        (case cparent cs of None \<Rightarrow> node_read s | Some q \<Rightarrow> (node_read s)(q := Some (Branch (relinked n r (qb q)))))
        (tptr b := Some (reparent (Some n) cn),
         n := Some (Branch (mk_branch sd pkn m1 (Some r) (tptr a) (tptr b))),
         r := Some (Branch (mk_branch sd pkr (max m1 (esize d)) (cparent cs) n (tptr d))))"
    by (auto simp: Let_def m1_def o)
  have keep: "node_read s' p = node_read s p" if "p \<notin> {n, r, tptr b}" "cparent cs \<noteq> Some p" for p
    using that by (auto simp: rd split: option.splits)
  have inner: "cparent cs \<noteq> Some p" if "p \<in> set (ptrs a) \<union> set (ptrs b) \<union> set (ptrs d)" for p
    using that D by (cases cs) auto
  have "rep s' (Some n) a = rep s (Some n) a" "rep s' (Some r) d = rep s (Some r) d"
    using D dj inner tptr_in_ptrs [of b] by (auto intro!: rep_frame keep simp del: tptr_in_ptrs)
  moreover have "rep s' (Some n) b"
  proof (rule rep_reparented [OF _ _ o(3)])
    show "rep s (Some r) b" "distinct (ptrs b)" using R D by auto
    show "node_read s' (tptr b) = Some (reparent (Some n) cn)" using dist by (auto simp: rd)
    show "node_read s' p = node_read s p" if "p \<in> set (ptrs b)" "p \<noteq> tptr b" for p
      using that D inner by (intro keep) auto
  qed
  ultimately have R': "rep s' (cparent cs) (vbranch sd r pkr (max m1 (esize d)) (vbranch sd n pkn m1 a b) d)"
    using R dist by (auto simp: rd)
  have "rep_ctx s' cs r"
  proof (rule rep_ctx_relinked [OF C])
    show "distinct (cptrs cs)" "n \<notin> set (cptrs cs)" using D by auto
    show "vt_root s' = (if cs = [] then r else vt_root s)" using s'(3) by (cases cs) simp_all
    show "node_read s' (cptr c) = Some (Branch (relinked n r (cbranch c (cparent cs') n)))" if "cs = c # cs'" for c cs'
      using that q [of "cptr c"] by (simp add: rd qb_def)
    show "node_read s' p = node_read s p" if "p \<in> set (cptrs cs)" "cparent cs \<noteq> Some p" for p
      using that far by (intro keep) auto
  qed
  moreover have "distinct (ptrs (vbranch sd r pkr (max m1 (esize d)) (vbranch sd n pkn m1 a b) d) @ cptrs cs)"
    using D by auto
  ultimately have "tree_ok s' (plug cs (vbranch sd r pkr (max m1 (esize d)) (vbranch sd n pkn m1 a b) d))"
    using R' by (simp add: tree_ok_plug)
  moreover have "changes_only (insert n (insert r (insert (tptr b) (set_option (cparent cs))))) s s'"
    unfolding changes_only_def using s'(2) keep by (auto simp: elem_set)
  ultimately show ?thesis using s'(1) by blast
qed

subsection \<open>Refreshing sizes\<close>

text \<open>The crumbs after the sizes of the branches of a path were computed anew.\<close>

fun refresh :: "context_path \<Rightarrow> vtree \<Rightarrow> context_path" where
  "refresh [] t = []"
| "refresh (c # cs) t =
     (let c' = Crumb (cside c) (cptr c) (cpk c) (max (esize t) (esize (csib c))) (csib c)
      in c' # refresh cs (plug1 c' t))"

lemma refresh_simps [simp]:
  "cparent (refresh cs t) = cparent cs" "cptrs (refresh cs t) = cptrs cs" "clo (refresh cs t) = clo cs"
  "chi (refresh cs t) = chi cs" "ordered_ctx (refresh cs t) = ordered_ctx cs"
proof -
  show p: "cparent (refresh cs t) = cparent cs" for cs t by (cases cs) (simp_all add: Let_def)
  show "cptrs (refresh cs t) = cptrs cs" by (induction cs t rule: refresh.induct) (simp_all add: Let_def)
  show l: "clo (refresh cs t) = clo cs" for cs t
  proof (induction cs t rule: refresh.induct)
    case (2 c cs t)
    then show ?case by (cases c; cases "cside c") (simp_all add: Let_def)
  qed simp
  show h: "chi (refresh cs t) = chi cs" for cs t
  proof (induction cs t rule: refresh.induct)
    case (2 c cs t)
    then show ?case by (cases c; cases "cside c") (simp_all add: Let_def)
  qed simp
  show "ordered_ctx (refresh cs t) = ordered_ctx cs"
  proof (induction cs t rule: refresh.induct)
    case (2 c cs t)
    then show ?case by (cases c; cases "cside c") (simp_all add: Let_def l h)
  qed simp
qed

lemma update_max_loop_refresh:
  "tree_ok s (plug cs t) \<Longrightarrow>
     \<exists>s'. update_max_loop (cparent cs) s = Some s' \<and> tree_ok s' (plug (refresh cs t) t)
       \<and> changes_only (set (cptrs cs)) s s'"
proof (induction cs arbitrary: s t)
  case Nil
  then show ?case by (subst update_max_loop.simps) simp
next
  case (Cons c cs)
  obtain sd q pk mx sib where c: "c = Crumb sd q pk mx sib" by (cases c)
  let ?m = "max (esize t) (esize sib)"
  let ?t' = "vbranch sd q pk ?m t sib"
  have R: "rep s (cparent cs) (vbranch sd q pk mx t sib)" and C: "rep_ctx s cs q"
    and D: "distinct (ptrs (vbranch sd q pk mx t sib) @ cptrs cs)"
    using Cons.prems by (simp_all add: c tree_ok_plug)
  have qr: "node_read s q = Some (Branch (mk_branch sd pk mx (cparent cs) (tptr t) (tptr sib)))" using R by simp
  obtain tn sn where o: "node_read s (tptr t) = Some tn" "node_size tn = esize t"
    "node_read s (tptr sib) = Some sn" "node_size sn = esize sib"
    using R rep_esize by (metis vbranch_simps(2))
  let ?s1 = "put_node q (Branch (mk_branch sd pk ?m (cparent cs) (tptr t) (tptr sib))) s"
  have step: "update_max_loop (cparent (c # cs)) s = update_max_loop (cparent cs) ?s1"
    using qr o by (subst update_max_loop.simps, cases sd)
      (simp_all add: c read_branch_eq child_empty_size_node set_max_empty_area_size_def update_branch_put max.commute)
  have rd: "node_read ?s1 p = (if p = q then Some (Branch (mk_branch sd pk ?m (cparent cs) (tptr t) (tptr sib))) else node_read s p)" for p
    using qr by (simp add: node_read_put)
  have "rep ?s1 (Some q) t = rep s (Some q) t" "rep ?s1 (Some q) sib = rep s (Some q) sib"
    using D by (auto intro!: rep_frame simp: rd)
  then have "rep ?s1 (cparent cs) ?t'" using R by (simp add: rd)
  moreover have "rep_ctx ?s1 cs q = rep_ctx s cs q" using D qr by (intro rep_ctx_frame) (auto simp: rd)
  ultimately have "tree_ok ?s1 (plug cs ?t')" using C D by (simp add: tree_ok_plug)
  from Cons.IH [OF this] obtain s' where s': "update_max_loop (cparent cs) ?s1 = Some s'"
    "tree_ok s' (plug (refresh cs ?t') ?t')" "changes_only (set (cptrs cs)) ?s1 s'" by blast
  have "changes_only (set (cptrs (c # cs))) s ?s1" using qr by (auto simp: changes_only_def rd c)
  moreover have "changes_only (set (cptrs (c # cs))) ?s1 s'" using s'(3) by (auto simp: changes_only_def)
  ultimately have "changes_only (set (cptrs (c # cs))) s s'" by (rule changes_only_trans)
  then show ?case using step s'(1,2) by (simp add: c Let_def)
qed

end
