(* ===== verification/Vma_Fix.thy ===== *)
theory Vma_Fix
  imports Vma_Rotate
begin

text \<open>
  Rebalancing after an insertion: \<^verbatim>\<open>fix_insert\<close> only recolours branches and rotates, so it keeps what a
  lookup finds, and it restores the two conditions on the colours of a red-black tree.
\<close>

subsection \<open>Colours\<close>

definition paint :: "node_color \<Rightarrow> usize \<Rightarrow> usize" where
  "paint c pk = (pk AND NOT 1) OR color_bit c"

definition color_of :: "usize \<Rightarrow> node_color" where
  "color_of pk = (if pk AND 1 = 0 then Red else Black)"

lemma bit_paint: "bit (paint c pk) n \<longleftrightarrow> (if n = 0 then c = Black else bit pk n)"
  by (cases c) (auto simp: paint_def color_bit_def bit_simps bit_1_iff dest: bit_imp_le_length)

lemma pivot_of_paint [simp]: "pivot_of (paint c pk) = pivot_of pk"
proof (rule bit_word_eqI)
  fix n assume "n < LENGTH(64)"
  have "bit (NOT 3 :: usize) 0 = False" by (simp add: bit_not_iff)
  then show "bit (pivot_of (paint c pk)) n = bit (pivot_of pk) n"
    unfolding pivot_of_def bit_and_iff bit_paint by (cases "n = 0") auto
qed

lemma color_of_paint [simp]: "color_of (paint c pk) = c"
proof -
  have "paint c pk AND 1 = 0 \<longleftrightarrow> \<not> bit (paint c pk) 0"
    by (simp add: bit_0 and_one_eq odd_iff_mod_2_eq_one even_iff_mod_2_eq_zero)
  then show ?thesis by (cases c) (simp_all add: color_of_def bit_paint)
qed

lemma branch_color_mk [simp]: "branch_color (mk_branch sd pk mx par x y) = color_of pk"
  by (simp add: branch_color_def color_of_def)

fun tcolor :: "vtree \<Rightarrow> node_color" where
  "tcolor (VLeaf _ _) = Black"
| "tcolor (VBranch _ pk _ _ _) = color_of pk"

lemma tcolor_vbranch [simp]: "tcolor (vbranch sd p pk mx x y) = color_of pk"
  by (cases sd) simp_all

lemma node_color_of_rep: "rep s par t \<Longrightarrow> node_color_of s (tptr t) = Some (tcolor t)"
  by (cases t) (simp_all add: node_color_of_def branch_color_def color_of_def)

subsection \<open>Writing the payload of a branch\<close>

lemma put_branch_tree:
  fixes pk' mx' :: usize
  assumes "tree_ok s (plug cs (vbranch sd p pk mx x y))"
  defines "s' \<equiv> put_node p (Branch (mk_branch sd pk' mx' (cparent cs) (tptr x) (tptr y))) s"
  shows "tree_ok s' (plug cs (vbranch sd p pk' mx' x y))" "changes_only {p} s s'"
proof -
  have R: "rep s (cparent cs) (vbranch sd p pk mx x y)" and C: "rep_ctx s cs p"
    and D: "distinct (ptrs (vbranch sd p pk mx x y) @ cptrs cs)" using assms(1) by (simp_all add: tree_ok_plug)
  then have valid: "node_read s p \<noteq> None" by simp
  note rd = node_read_put [OF valid]
  have "rep s' (Some p) x = rep s (Some p) x" "rep s' (Some p) y = rep s (Some p) y"
    using D by (auto intro!: rep_frame simp: s'_def rd)
  moreover have "rep_ctx s' cs p = rep_ctx s cs p"
    using D valid by (intro rep_ctx_frame) (auto simp: s'_def rd)
  moreover have "node_read s' p = Some (Branch (mk_branch sd pk' mx' (cparent cs) (tptr x) (tptr y)))"
    by (simp add: s'_def rd)
  ultimately show "tree_ok s' (plug cs (vbranch sd p pk' mx' x y))"
    using R C D unfolding tree_ok_plug vbranch_simps by simp
  show "changes_only {p} s s'" using valid by (simp add: changes_only_def s'_def rd)
qed

lemma read_branch_tree:
  "tree_ok s (plug cs (vbranch sd p pk mx x y)) \<Longrightarrow>
     node_read s p = Some (Branch (mk_branch sd pk mx (cparent cs) (tptr x) (tptr y)))"
  by (simp add: tree_ok_plug)

lemma set_color_tree:
  assumes "tree_ok s (plug cs (vbranch sd p pk mx x y))"
  shows "\<exists>s'. set_color p c s = Some s' \<and> tree_ok s' (plug cs (vbranch sd p (paint c pk) mx x y)) \<and> changes_only {p} s s'"
  using put_branch_tree [OF assms, of "paint c pk" mx] update_branch_put [OF read_branch_tree [OF assms]]
  by (simp add: set_color_def paint_def)

subsection \<open>Reading around a position\<close>

lemma position_reads:
  assumes "tree_ok s (plug (Crumb sd q pk mx sib # cs) t)" "t = vbranch sk k pkk mxk x y"
  shows "get_parent s k = Some q" "is_left_side s k = Some (Some (sd = SideLeft))"
    "is_right_side s k = Some (Some (sd = SideRight))" "get_grandparent s k = cparent cs"
    "branch_ptr_color s q = Some (color_of pk)"
proof -
  have t: "node_read s k = Some (Branch (mk_branch sk pkk mxk (Some q) (tptr x) (tptr y)))"
    using assms by (simp add: tree_ok_plug)
  have q: "node_read s q = Some (Branch (mk_branch sd pk mx (cparent cs) k (tptr sib)))"
    using assms by (simp add: tree_ok_plug cbranch_def)
  have "set (ptrs t) \<inter> set (ptrs sib) = {}" using assms(1) by (auto simp: tree_ok_plug)
  from tptr_disjoint [OF this] have ne: "k \<noteq> tptr sib" using assms(2) by simp
  show "get_parent s k = Some q" "get_grandparent s k = cparent cs" "branch_ptr_color s q = Some (color_of pk)"
    using t q by (simp_all add: get_parent_def get_grandparent_def read_branch_eq branch_ptr_color_def)
  show "is_left_side s k = Some (Some (sd = SideLeft))" "is_right_side s k = Some (Some (sd = SideRight))"
    using t q ne by (cases sd; simp add: is_left_side_def is_right_side_def read_branch_eq)+
qed

subsection \<open>Moves\<close>

text \<open>
  The two ways in which rebalancing changes the tree: a branch gets another colour, or a subtree that
  holds the inserted branch \<open>q\<close> is rotated and its sizes are computed anew.
\<close>

inductive tree_move :: "node_ptr \<Rightarrow> vtree \<Rightarrow> vtree \<Rightarrow> bool" for q where
  recolor: "tree_move q (plug cs (vbranch sd p pk mx x y)) (plug cs (vbranch sd p (paint c pk) mx x y))"
| rotation: "q \<in> set (ptrs (vbranch sd n pkn mxn a (vbranch sd r pkr mxr b d))) \<Longrightarrow>
    tree_move q (plug cs (vbranch sd n pkn mxn a (vbranch sd r pkr mxr b d)))
      (plug cs (vbranch sd r pkr (max (max (esize a) (esize b)) (esize d)) (vbranch sd n pkn (max (esize a) (esize b)) a b) d))"

text \<open>Sizes are right, except on the way from the root to \<open>q\<close>.\<close>

fun sized_off :: "node_ptr set \<Rightarrow> vtree \<Rightarrow> bool" where
  "sized_off Q (VLeaf _ _) \<longleftrightarrow> True"
| "sized_off Q (VBranch p _ mx l r) \<longleftrightarrow>
     (mx = max (esize l) (esize r) \<or> Q \<inter> insert p (set (ptrs l) \<union> set (ptrs r)) \<noteq> {}) \<and> sized_off Q l \<and> sized_off Q r"

abbreviation sized :: "vtree \<Rightarrow> bool" where
  "sized t \<equiv> sized_off {} t"

lemma sized_off_vbranch [simp]:
  "sized_off Q (vbranch sd p pk mx x y) \<longleftrightarrow>
     (mx = max (esize x) (esize y) \<or> Q \<inter> insert p (set (ptrs x) \<union> set (ptrs y)) \<noteq> {}) \<and> sized_off Q x \<and> sized_off Q y"
  by (cases sd) (auto simp: max.commute)

lemma esize_vbranch [simp]: "esize (vbranch sd p pk mx x y) = mx"
  by (cases sd) simp_all

text \<open>What lies above a subtree that holds \<open>q\<close> does not constrain it.\<close>

fun sized_off_ctx :: "node_ptr set \<Rightarrow> context_path \<Rightarrow> bool" where
  "sized_off_ctx Q [] \<longleftrightarrow> True"
| "sized_off_ctx Q (c # cs) \<longleftrightarrow> sized_off Q (csib c) \<and> sized_off_ctx Q cs"

lemma sized_off_plug: "q \<in> set (ptrs t) \<Longrightarrow> sized_off {q} (plug cs t) \<longleftrightarrow> sized_off {q} t \<and> sized_off_ctx {q} cs"
proof (induction cs arbitrary: t)
  case (Cons c cs)
  then have "q \<in> set (ptrs (plug1 c t))" by (cases c) simp
  from Cons.IH [OF this] Cons.prems show ?case by (cases c) simp
qed simp

lemma sized_off_same:
  "esize t' = esize t \<Longrightarrow> set (ptrs t') = set (ptrs t) \<Longrightarrow> sized_off Q t' = sized_off Q t \<Longrightarrow>
     sized_off Q (plug cs t') = sized_off Q (plug cs t)"
proof (induction cs arbitrary: t t')
  case (Cons c cs)
  have "esize (plug1 c t') = esize (plug1 c t)" "set (ptrs (plug1 c t')) = set (ptrs (plug1 c t))"
    "sized_off Q (plug1 c t') = sized_off Q (plug1 c t)" using Cons.prems by (cases c; simp)+
  from Cons.IH [OF this] show ?case by simp
qed simp

lemma tree_move_ptrs: "tree_move q t t' \<Longrightarrow> mset (ptrs t') = mset (ptrs t)"
  by (induction rule: tree_move.induct) (simp_all add: mset_ptrs_plug mset_ptrs_vbranch)

lemma tree_move_sized: "tree_move q t t' \<Longrightarrow> sized_off {q} t \<Longrightarrow> sized_off {q} t'"
proof (induction rule: tree_move.induct)
  case (recolor cs sd p pk mx x y c)
  then show ?case by (subst (asm) sized_off_same [symmetric, where t' = "vbranch sd p (paint c pk) mx x y"]) auto
next
  case (rotation sd n pkn mxn a r pkr mxr b d cs)
  from rotation.prems have "sized_off {q} (vbranch sd n pkn mxn a (vbranch sd r pkr mxr b d))" "sized_off_ctx {q} cs"
    unfolding sized_off_plug [OF rotation.hyps] by simp_all
  moreover have "q \<in> set (ptrs (vbranch sd r pkr (max (max (esize a) (esize b)) (esize d))
      (vbranch sd n pkn (max (esize a) (esize b)) a b) d))" using rotation.hyps by auto
  ultimately show ?case by (subst sized_off_plug) auto
qed

lemma ordered_vbranch:
  "ordered lo hi (vbranch sd p pk mx x y) \<longleftrightarrow> lo < pivot_of pk \<and> pivot_of pk < hi
     \<and> (case sd of SideLeft \<Rightarrow> ordered lo (pivot_of pk) x \<and> ordered (pivot_of pk) hi y
        | SideRight \<Rightarrow> ordered lo (pivot_of pk) y \<and> ordered (pivot_of pk) hi x)"
  by (cases sd) auto

lemma area_at_vbranch:
  "area_at lo hi (vbranch sd p pk mx x y) a =
     (if a < pivot_of pk then area_at lo (pivot_of pk) (case sd of SideLeft \<Rightarrow> x | SideRight \<Rightarrow> y) a
      else area_at (pivot_of pk) hi (case sd of SideLeft \<Rightarrow> y | SideRight \<Rightarrow> x) a)"
  by (cases sd) auto

lemma ordered_bounds: "ordered lo hi t \<Longrightarrow> lo < hi"
  by (induction t arbitrary: lo hi) (auto dest: less_trans)

lemma area_plug_cong:
  "(\<And>a. area_at (clo cs) (chi cs) t' a = area_at (clo cs) (chi cs) t a) \<Longrightarrow> top_area (plug cs t') a = top_area (plug cs t) a"
proof (induction cs arbitrary: t t')
  case (Cons c cs)
  have "area_at (clo cs) (chi cs) (plug1 c t') a = area_at (clo cs) (chi cs) (plug1 c t) a" for a
    using Cons.prems [of a] by (cases c; cases "cside c") simp_all
  from Cons.IH [OF this] show ?case by simp
qed simp

abbreviation top_ordered :: "vtree \<Rightarrow> bool" where
  "top_ordered t \<equiv> ordered 0 (HIGHEST_USER_ADDRESS + 1) t"

lemma tree_move_lookup:
  "tree_move q t t' \<Longrightarrow> top_ordered t \<Longrightarrow> top_ordered t' \<and> (\<forall>a. top_area t' a = top_area t a)"
proof (induction rule: tree_move.induct)
  case (recolor cs sd p pk mx x y c)
  then show ?case by (auto simp: ordered_plug ordered_vbranch area_at_vbranch intro!: area_plug_cong split: side.splits)
next
  case (rotation sd n pkn mxn a r pkr mxr b d cs)
  let ?t = "vbranch sd n pkn mxn a (vbranch sd r pkr mxr b d)"
  let ?t' = "vbranch sd r pkr (max (max (esize a) (esize b)) (esize d)) (vbranch sd n pkn (max (esize a) (esize b)) a b) d"
  have O: "ordered_ctx cs" "ordered (clo cs) (chi cs) ?t" using rotation.prems by (simp_all add: ordered_plug)
  then have "ordered (clo cs) (chi cs) ?t'"
    by (cases sd) (auto simp: ordered_vbranch dest: ordered_bounds less_trans)
  moreover have "area_at (clo cs) (chi cs) ?t' v = area_at (clo cs) (chi cs) ?t v" for v
    using O(2) by (cases sd) (auto simp: ordered_vbranch area_at_vbranch dest: less_trans)
  ultimately show ?case using O(1) area_plug_cong [of cs ?t' ?t] by (auto simp: ordered_plug)
qed

lemma tree_moves:
  assumes "(tree_move q)\<^sup>*\<^sup>* t t'"
  shows "mset (ptrs t') = mset (ptrs t)" "sized_off {q} t \<Longrightarrow> sized_off {q} t'"
    "top_ordered t \<Longrightarrow> top_ordered t' \<and> (\<forall>a. top_area t' a = top_area t a)"
  using assms
proof (induction rule: rtranclp_induct)
  case (step u v)
  {
    case 1
    then show ?case using step tree_move_ptrs by metis
  next
    case 2
    then show ?case using step tree_move_sized by metis
  next
    case 3
    then show ?case using step tree_move_lookup by metis
  }
qed simp_all

subsection \<open>One iteration of the repair\<close>

lemma vbranch_swap [simp]: "vbranch (side_not sd) p pk mx x y = vbranch sd p pk mx y x"
  by (cases sd) simp_all

lemma side_not_not [simp]: "side_not (side_not sd) = sd"
  by (cases sd) simp_all

lemma side_not_neq [simp]: "side_not sd \<noteq> sd" "sd \<noteq> side_not sd"
  by (cases sd; simp)+

lemma side_neq_iff: "sd \<noteq> sd' \<longleftrightarrow> sd' = side_not sd"
  by (cases sd; cases sd') simp_all

fun tpaint :: "node_color \<Rightarrow> vtree \<Rightarrow> vtree" where
  "tpaint c (VLeaf p l) = VLeaf p l"
| "tpaint c (VBranch p pk mx l r) = VBranch p (paint c pk) mx l r"

lemma tptr_tpaint [simp]: "tptr (tpaint c t) = tptr t"
  by (cases t) simp_all

lemma ptrs_tpaint [simp]: "ptrs (tpaint c t) = ptrs t"
  by (cases t) simp_all

lemma Red_branch: "tcolor t = Red \<Longrightarrow> \<exists>p pk mx l r. t = vbranch SideLeft p pk mx l r"
  by (cases t) simp_all

lemma fix_step_recolor:
  fixes cs sk p pkp mxp sib sp g pkg mxg u kt
  defines "T \<equiv> \<lambda>cp cg u'. plug cs (vbranch sp g cg mxg (vbranch sk p cp mxp kt sib) u')"
  assumes ok: "tree_ok s (T pkp pkg u)" and kt: "kt = vbranch sd k pkk mxk x y" and u: "tcolor u = Red"
  shows "\<exists>s'. fix_insert_recolor k (tptr u) s = Some (g, s') \<and> tree_ok s' (T (paint Black pkp) (paint Red pkg) (tpaint Black u))
    \<and> (tree_move q)\<^sup>*\<^sup>* (T pkp pkg u) (T (paint Black pkp) (paint Red pkg) (tpaint Black u))
    \<and> changes_only {p, g, tptr u} s s'"
proof -
  let ?P = "\<lambda>cp. vbranch sk p cp mxp kt sib"
  obtain pu pku mxu ul ur where ub: "u = vbranch SideLeft pu pku mxu ul ur" using Red_branch [OF u] by blast
  have uf: "T cp cg (vbranch SideLeft pu c mxu ul ur) = plug (Crumb (side_not sp) g cg mxg (?P cp) # cs) (vbranch SideLeft pu c mxu ul ur)"
    for cp cg c by (simp add: T_def)
  have pf: "T cp cg u' = plug (Crumb sp g cg mxg u' # cs) (?P cp)" for cp cg u' by (simp add: T_def)
  have kf: "T cp cg u' = plug (Crumb sk p cp mxp sib # Crumb sp g cg mxg u' # cs) (vbranch sd k pkk mxk x y)" for cp cg u'
    by (simp add: T_def kt)
  let ?u' = "tpaint Black u"
  have u': "?u' = vbranch SideLeft pu (paint Black pku) mxu ul ur" by (simp add: ub)
  from set_color_tree [OF ok [unfolded ub uf], of Black] obtain s1 where s1: "set_color pu Black s = Some s1"
    "tree_ok s1 (T pkp pkg ?u')" "changes_only {pu} s s1" by (auto simp: u' uf T_def)
  from set_color_tree [OF s1(2) [unfolded pf], of Black] obtain s2 where s2: "set_color p Black s1 = Some s2"
    "tree_ok s2 (T (paint Black pkp) pkg ?u')" "changes_only {p} s1 s2" by (auto simp: pf)
  from set_color_tree [OF s2(2) [unfolded T_def], of Red] obtain s3 where s3: "set_color g Red s2 = Some s3"
    "tree_ok s3 (T (paint Black pkp) (paint Red pkg) ?u')" "changes_only {g} s2 s3" by (auto simp: T_def)
  have par: "get_parent s1 k = Some p" and gr: "get_grandparent s2 k = Some g" "get_grandparent s3 k = Some g"
    using position_reads(1) [OF s1(2) [unfolded kf]] position_reads(4) [OF s2(2) [unfolded kf]]
      position_reads(4) [OF s3(2) [unfolded kf]] by simp_all
  have "fix_insert_recolor k (tptr u) s = Some (g, s3)"
    by (simp add: fix_insert_recolor_def ub s1(1) s2(1) s3(1) par gr)
  moreover have "changes_only {p, g, tptr u} s s3"
    by (rule changes_only_trans [OF changes_only_mono [OF s1(3)]
          changes_only_trans [OF changes_only_mono [OF s2(3)] changes_only_mono [OF s3(3)]]]) (auto simp: ub)
  moreover have "tree_move q (T pkp pkg u) (T pkp pkg ?u')"
    unfolding ub u' [unfolded ub] uf by (rule tree_move.recolor)
  moreover have "tree_move q (T pkp pkg ?u') (T (paint Black pkp) pkg ?u')"
    unfolding pf by (rule tree_move.recolor)
  moreover have "tree_move q (T (paint Black pkp) pkg ?u') (T (paint Black pkp) (paint Red pkg) ?u')"
    unfolding T_def by (rule tree_move.recolor)
  ultimately show ?thesis using s3(2) by (meson rtranclp.rtrancl_into_rtrancl rtranclp.rtrancl_refl)
qed

text \<open>The end of the case of a black uncle: recolour parent and grandparent and rotate the latter.\<close>

definition fix_insert_rotate :: "side \<Rightarrow> node_ptr \<Rightarrow> vma_tree \<Rightarrow> (node_ptr \<times> vma_tree) option" where
  "fix_insert_rotate sd k s =
     do { par \<leftarrow> get_parent s k;
          s \<leftarrow> set_color par Black s;
          grand \<leftarrow> get_grandparent s k;
          s \<leftarrow> set_color grand Red s;
          grand \<leftarrow> get_grandparent s k;
          s \<leftarrow> rotate sd grand s;
          Some (k, s) }"

lemma fix_insert_rotate_tree:
  fixes cs sp g pkg mxg p pkp mxp kt sib u
  assumes ok: "tree_ok s (plug cs (vbranch sp g pkg mxg (vbranch sp p pkp mxp kt sib) u))"
    and kt: "kt = vbranch sd k pkk mxk x y" and q: "q \<in> set (ptrs (vbranch sp p pkp mxp kt sib))"
  defines "m1 \<equiv> max (esize u) (esize sib)"
  defines "t' \<equiv> vbranch sp p (paint Black pkp) (max m1 (esize kt)) kt (vbranch sp g (paint Red pkg) m1 sib u)"
  shows "\<exists>s'. fix_insert_rotate (side_not sp) k s = Some (k, s') \<and> tree_ok s' (plug cs t')
    \<and> (tree_move q)\<^sup>*\<^sup>* (plug cs (vbranch sp g pkg mxg (vbranch sp p pkp mxp kt sib) u)) (plug cs t')
    \<and> changes_only (insert p (insert g (insert (tptr sib) (set_option (cparent cs))))) s s'"
proof -
  let ?T = "\<lambda>cp cg. plug cs (vbranch sp g cg mxg (vbranch sp p cp mxp kt sib) u)"
  have pf: "?T cp cg = plug (Crumb sp g cg mxg u # cs) (vbranch sp p cp mxp kt sib)" for cp cg by simp
  have kf: "?T cp cg = plug (Crumb sp p cp mxp sib # Crumb sp g cg mxg u # cs) (vbranch sd k pkk mxk x y)" for cp cg
    by (simp add: kt)
  have gf: "?T cp cg = plug cs (vbranch (side_not sp) g cg mxg u (vbranch (side_not sp) p cp mxp sib kt))" for cp cg by simp
  from set_color_tree [OF ok [unfolded pf], of Black] obtain s1 where s1: "set_color p Black s = Some s1"
    "tree_ok s1 (?T (paint Black pkp) pkg)" "changes_only {p} s s1" by auto
  from set_color_tree [OF s1(2), of Red] obtain s2 where s2: "set_color g Red s1 = Some s2"
    "tree_ok s2 (?T (paint Black pkp) (paint Red pkg))" "changes_only {g} s1 s2" by auto
  from rotate_tree [OF s2(2) [unfolded gf]] obtain s3 where s3: "rotate (side_not sp) g s2 = Some s3" "tree_ok s3 (plug cs t')"
    "changes_only (insert g (insert p (insert (tptr sib) (set_option (cparent cs))))) s2 s3" by (auto simp: t'_def m1_def)
  have par: "get_parent s k = Some p" and gr: "get_grandparent s1 k = Some g" "get_grandparent s2 k = Some g"
    using position_reads(1) [OF ok [unfolded kf]] position_reads(4) [OF s1(2) [unfolded kf]]
      position_reads(4) [OF s2(2) [unfolded kf]] by simp_all
  have "fix_insert_rotate (side_not sp) k s = Some (k, s3)"
    by (simp add: fix_insert_rotate_def s1(1) s2(1) s3(1) par gr)
  moreover have "changes_only (insert p (insert g (insert (tptr sib) (set_option (cparent cs))))) s s3"
    by (rule changes_only_trans [OF changes_only_mono [OF s1(3)]
          changes_only_trans [OF changes_only_mono [OF s2(3)] changes_only_mono [OF s3(3)]]]) auto
  moreover have "tree_move q (?T pkp pkg) (?T (paint Black pkp) pkg)" unfolding pf by (rule tree_move.recolor)
  moreover have "tree_move q (?T (paint Black pkp) pkg) (?T (paint Black pkp) (paint Red pkg))" by (rule tree_move.recolor)
  moreover have "tree_move q (?T (paint Black pkp) (paint Red pkg)) (plug cs t')"
    using tree_move.rotation [of q "side_not sp" g "paint Red pkg" mxg u p "paint Black pkp" mxp sib kt cs] q
    by (auto simp: t'_def m1_def)
  ultimately show ?thesis using s3(2) by (meson rtranclp.rtrancl_into_rtrancl rtranclp.rtrancl_refl)
qed

lemma fix_insert_step_sides:
  assumes "get_parent s k = Some par" "is_right_side s par = Some (Some (sp = SideRight))"
    "get_grandparent s k = Some g" "read_branch s g = Some gb" "branch_index gb (side_not sp) = u"
    "node_color_of s u = Some c" "is_left_side s k = Some (Some (sk = SideLeft))" "is_right_side s k = Some (Some (sk = SideRight))"
  shows "fix_insert_step k s =
    (case c of
       Red \<Rightarrow> fix_insert_recolor k u s
     | Black \<Rightarrow> if sk \<noteq> sp then do { s \<leftarrow> rotate sp par s; fix_insert_rotate (side_not sp) par s }
                else fix_insert_rotate (side_not sp) k s)"
  using assms by (cases sp; cases sk; cases c)
    (simp_all add: fix_insert_step_def fix_insert_rotate_def [abs_def] left_rotate_side right_rotate_side)

end
