(* ===== verification/Vma_Balance.thy ===== *)
theory Vma_Balance
  imports Vma_Fix
begin

text \<open>
  The loop of \<^verbatim>\<open>fix_insert\<close> ends and restores the conditions of a red-black tree: no red branch has a red
  child, and every way down passes the same number of black branches.
\<close>

subsection \<open>Red-black trees\<close>

fun bh :: "vtree \<Rightarrow> nat" where
  "bh (VLeaf _ _) = 0"
| "bh (VBranch _ pk _ l r) = bh l + (if color_of pk = Black then 1 else 0)"

fun rb :: "vtree \<Rightarrow> bool" where
  "rb (VLeaf _ _) \<longleftrightarrow> True"
| "rb (VBranch _ pk _ l r) \<longleftrightarrow>
     (color_of pk = Red \<longrightarrow> tcolor l = Black \<and> tcolor r = Black) \<and> bh l = bh r \<and> rb l \<and> rb r"

lemma rb_vbranch [simp]:
  "rb (vbranch sd p pk mx x y) \<longleftrightarrow>
     (color_of pk = Red \<longrightarrow> tcolor x = Black \<and> tcolor y = Black) \<and> bh x = bh y \<and> rb x \<and> rb y"
  by (cases sd) auto

lemma bh_vbranch: "bh x = bh y \<Longrightarrow> bh (vbranch sd p pk mx x y) = bh y + (if color_of pk = Black then 1 else 0)"
  by (cases sd) auto

text \<open>What the path above a subtree asks of it, given its colour and its black height.\<close>

fun rb_ctx :: "context_path \<Rightarrow> node_color \<Rightarrow> nat \<Rightarrow> bool" where
  "rb_ctx [] c n \<longleftrightarrow> True"
| "rb_ctx (Crumb sd p pk mx sib # cs) c n \<longleftrightarrow>
     rb sib \<and> bh sib = n \<and> (color_of pk = Red \<longrightarrow> c = Black \<and> tcolor sib = Black)
     \<and> rb_ctx cs (color_of pk) (n + (if color_of pk = Black then 1 else 0))"

lemma rb_plug: "rb (plug cs t) \<longleftrightarrow> rb t \<and> rb_ctx cs (tcolor t) (bh t)"
proof (induction cs arbitrary: t)
  case (Cons c cs)
  obtain sd p pk mx sib where c: "c = Crumb sd p pk mx sib" by (cases c)
  have "rb (plug (c # cs) t) \<longleftrightarrow> rb (plug1 c t) \<and> rb_ctx cs (tcolor (plug1 c t)) (bh (plug1 c t))"
    using Cons.IH by simp
  also have "\<dots> \<longleftrightarrow> rb t \<and> rb_ctx (c # cs) (tcolor t) (bh t)"
    by (cases "bh sib = bh t") (auto simp: c bh_vbranch)
  finally show ?case .
qed simp

lemma rb_ctx_Red: "rb_ctx cs Black n \<Longrightarrow> (case cs of [] \<Rightarrow> True | c # _ \<Rightarrow> color_of (cpk c) = Black) \<Longrightarrow> rb_ctx cs d n"
  by (cases "(cs, d, n)" rule: rb_ctx.cases) simp_all

lemma rb_tpaint: "rb t \<Longrightarrow> rb (tpaint Black t)"
  by (cases t) simp_all

lemma bh_tpaint_Red: "tcolor t = Red \<Longrightarrow> bh (tpaint Black t) = bh t + 1"
  by (cases t) simp_all

lemma tcolor_tpaint [simp]: "tcolor (tpaint Black t) = Black"
  by (cases t) simp_all

subsection \<open>An iteration with a black uncle\<close>

text \<open>The loop of \<^verbatim>\<open>fix_insert\<close> stops at a branch whose parent is black.\<close>

definition stops :: "node_ptr \<Rightarrow> vma_tree \<Rightarrow> bool" where
  "stops k s \<longleftrightarrow> k \<noteq> vt_root s \<and> (\<exists>par. get_parent s k = Some par \<and> branch_ptr_color s par = Some Black)"

lemma stops_loop: "stops k s \<Longrightarrow> fix_insert_loop k s = Some s"
  by (subst fix_insert_loop.simps) (auto simp: stops_def)

lemma tptr_plug: "tptr (plug (c # cs) t) \<in> set (cptrs (c # cs))"
proof (induction cs arbitrary: c t)
  case (Cons d cs)
  then show ?case using Cons.IH [of d "plug1 c t"] by auto
qed simp

lemma cparent_cptrs: "set_option (cparent cs) \<subseteq> set (cptrs cs)"
  by (cases cs) auto

lemma root_plug:
  assumes "tree_ok s (plug (c # cs) t)"
  shows "vt_root s \<noteq> tptr t"
proof -
  have "set (ptrs t) \<inter> set (cptrs (c # cs)) = {}" using assms unfolding tree_ok_plug by (simp del: cptrs.simps)
  moreover have "vt_root s = tptr (plug (c # cs) t)" using assms unfolding tree_ok_def by simp
  ultimately show ?thesis using tptr_plug [of c cs t] tptr_in_ptrs [of t] by (metis disjoint_iff)
qed

lemma root_plug_iff: "tree_ok s (plug cs t) \<Longrightarrow> tptr t = vt_root s \<longleftrightarrow> cs = []"
  using root_plug [of s _ _ t] by (cases cs) (fastforce simp: tree_ok_def)+

lemma stops_plug:
  assumes "tree_ok s (plug (Crumb sd q pk mx sib # cs) t)" "t = vbranch sk k pkk mxk x y" "color_of pk = Black"
  shows "stops k s"
  using position_reads(1,5) [OF assms(1,2)] root_plug [OF assms(1)] assms(2,3) by (simp add: stops_def)

lemma fix_insert_step_at:
  fixes cs sk p pkp mxp sib sp g pkg mxg u kt
  defines "T \<equiv> plug cs (vbranch sp g pkg mxg (vbranch sk p pkp mxp kt sib) u)"
  assumes ok: "tree_ok s T" and kt: "kt = vbranch sd k pkk mxk x y"
  shows "fix_insert_step k s =
    (case tcolor u of
       Red \<Rightarrow> fix_insert_recolor k (tptr u) s
     | Black \<Rightarrow> if sk \<noteq> sp then do { s \<leftarrow> rotate sp p s; fix_insert_rotate (side_not sp) p s }
                else fix_insert_rotate (side_not sp) k s)"
proof -
  have kf: "T = plug (Crumb sk p pkp mxp sib # Crumb sp g pkg mxg u # cs) (vbranch sd k pkk mxk x y)"
    by (simp add: T_def kt)
  have pf: "T = plug (Crumb sp g pkg mxg u # cs) (vbranch sk p pkp mxp kt sib)" by (simp add: T_def)
  have gf: "T = plug cs (vbranch sp g pkg mxg (vbranch sk p pkp mxp kt sib) u)" by (simp add: T_def)
  have gb: "read_branch s g = Some (mk_branch sp pkg mxg (cparent cs) p (tptr u))"
    using read_branch_tree [OF ok [unfolded gf]] by (simp add: read_branch_eq)
  have uc: "node_color_of s (tptr u) = Some (tcolor u)"
    using ok by (auto simp: gf tree_ok_plug dest!: node_color_of_rep)
  have uside: "branch_index (mk_branch sp pkg mxg (cparent cs) p (tptr u)) (side_not sp) = tptr u" by (cases sp) simp_all
  have "is_right_side s p = Some (Some (sp = SideRight))" using position_reads(3) [OF ok [unfolded pf] refl] .
  moreover have "get_grandparent s k = Some g" using position_reads(4) [OF ok [unfolded kf] refl] by simp
  ultimately show ?thesis
    using fix_insert_step_sides [OF position_reads(1) [OF ok [unfolded kf] refl] _ _ gb uside uc
        position_reads(2,3) [OF ok [unfolded kf] refl]] by simp
qed

lemma fix_step_black:
  fixes cs sk p pkp mxp sib sp g pkg mxg u kt
  defines "T \<equiv> plug cs (vbranch sp g pkg mxg (vbranch sk p pkp mxp kt sib) u)"
  assumes ok: "tree_ok s T" and kt: "kt = vbranch sd k pkk mxk x y" and u: "tcolor u = Black"
    and col: "color_of pkk = Red" "color_of pkp = Red" "color_of pkg = Black"
    and q: "q \<in> set (ptrs kt)" and rb: "rb kt" "rb_ctx (Crumb sk p pkp mxp sib # Crumb sp g pkg mxg u # cs) Black (bh kt)"
  shows "\<exists>k' s' t'. fix_insert_step k s = Some (k', s') \<and> tree_ok s' t' \<and> (tree_move q)\<^sup>*\<^sup>* T t'
    \<and> changes_only (set (ptrs T)) s s' \<and> rb t' \<and> stops k' s'"
proof -
  have gf: "T = plug cs (vbranch sp g pkg mxg (vbranch sk p pkp mxp kt sib) u)" by (simp add: T_def)
  note step = fix_insert_step_at [OF ok [unfolded gf] kt, unfolded u node_color.case]
  show ?thesis
  proof (cases "sk = sp")
    case True
    let ?m1 = "max (esize u) (esize sib)"
    let ?t' = "vbranch sp p (paint Black pkp) (max ?m1 (esize kt)) kt (vbranch sp g (paint Red pkg) ?m1 sib u)"
    from fix_insert_rotate_tree [OF ok [unfolded gf True] kt, of q] q obtain s' where s':
      "fix_insert_rotate (side_not sp) k s = Some (k, s')" "tree_ok s' (plug cs ?t')" "(tree_move q)\<^sup>*\<^sup>* T (plug cs ?t')"
      "changes_only (insert p (insert g (insert (tptr sib) (set_option (cparent cs))))) s s'"
      unfolding gf True by auto
    have "rb (plug cs ?t')" using rb col u kt by (auto simp: rb_plug bh_vbranch)
    moreover have "stops k s'" using s'(2) kt
      by (intro stops_plug [of s' sp p "paint Black pkp" _ "vbranch sp g (paint Red pkg) ?m1 sib u" cs kt]) auto
    moreover have "changes_only (set (ptrs T)) s s'"
      by (rule changes_only_mono [OF s'(4)]) (use cparent_cptrs [of cs] in \<open>auto simp: gf\<close>)
    ultimately show ?thesis using step s'(1-3) True by auto
  next
    case False
    then have sk: "sk = side_not sp" by (simp add: side_neq_iff)
    obtain a b where kt': "kt = vbranch sp k pkk mxk a b" using kt by (cases sd; cases sp) auto
    have pf': "T = plug (Crumb sp g pkg mxg u # cs) (vbranch sp p pkp mxp sib (vbranch sp k pkk mxk a b))"
      by (simp add: T_def sk kt')
    let ?m0 = "max (esize sib) (esize a)"
    let ?kt = "vbranch sp p pkp ?m0 sib a"
    let ?T1 = "plug cs (vbranch sp g pkg mxg (vbranch sp k pkk (max ?m0 (esize b)) ?kt b) u)"
    from rotate_tree [OF ok [unfolded pf']] obtain s1 where s1: "rotate sp p s = Some s1" "tree_ok s1 ?T1"
      "changes_only (insert p (insert k (insert (tptr a) {g}))) s s1" by auto
    have q1: "q \<in> set (ptrs (vbranch sp k pkk (max ?m0 (esize b)) ?kt b))" using q kt' by auto
    have move: "tree_move q T ?T1"
      using tree_move.rotation [of q sp p pkp mxp sib k pkk mxk a b "Crumb sp g pkg mxg u # cs"] q1 by (auto simp: pf')
    let ?m1 = "max (esize u) (esize b)"
    let ?t' = "vbranch sp k (paint Black pkk) (max ?m1 ?m0) ?kt (vbranch sp g (paint Red pkg) ?m1 b u)"
    from fix_insert_rotate_tree [OF s1(2) refl q1] obtain s' where s':
      "fix_insert_rotate (side_not sp) p s1 = Some (p, s')" "tree_ok s' (plug cs ?t')" "(tree_move q)\<^sup>*\<^sup>* ?T1 (plug cs ?t')"
      "changes_only (insert k (insert g (insert (tptr b) (set_option (cparent cs))))) s1 s'"
      unfolding esize_vbranch by blast
    have "rb (plug cs ?t')" using rb col u kt' by (auto simp: rb_plug bh_vbranch)
    moreover have "stops p s'" using s'(2)
      by (intro stops_plug [of s' sp k "paint Black pkk" _ "vbranch sp g (paint Red pkg) ?m1 b u" cs ?kt]) auto
    moreover have "changes_only (set (ptrs T)) s s'"
      by (rule changes_only_trans [OF changes_only_mono [OF s1(3)] changes_only_mono [OF s'(4)]])
        (use cparent_cptrs [of cs] in \<open>auto simp: gf kt'\<close>)
    moreover have "(tree_move q)\<^sup>*\<^sup>* T (plug cs ?t')" using move s'(3) by (rule converse_rtranclp_into_rtranclp)
    ultimately show ?thesis using step s1(1) s'(1,2) False by auto
  qed
qed

subsection \<open>The loop\<close>

lemma fix_insert_loop_tree:
  assumes "tree_ok s (plug cs kt)" "kt = vbranch sd k pkk mxk x y" "color_of pkk = Red" "q \<in> set (ptrs kt)" "rb kt"
    "cs \<noteq> []" "color_of (cpk (last cs)) = Black" "rb_ctx cs Black (bh kt)"
  shows "\<exists>s' t'. fix_insert_loop k s = Some s' \<and> tree_ok s' t' \<and> (tree_move q)\<^sup>*\<^sup>* (plug cs kt) t'
    \<and> changes_only (set (ptrs (plug cs kt))) s s' \<and> rb (tpaint Black t')"
  using assms
proof (induction "length cs" arbitrary: s cs kt sd k pkk mxk x y rule: less_induct)
  case less
  note ok = less.prems(1) and kt = less.prems(2) and red = less.prems(3)
  obtain sk p pkp mxp sib cs1 where cs: "cs = Crumb sk p pkp mxp sib # cs1"
    using less.prems(6) by (metis crumb.exhaust neq_Nil_conv)
  have par: "get_parent s k = Some p" "branch_ptr_color s p = Some (color_of pkp)"
    using position_reads(1,5) [OF ok [unfolded cs] kt] by simp_all
  show ?case
  proof (cases "color_of pkp")
    case Black
    then have "rb (plug cs kt)" using less.prems(5,8) unfolding rb_plug by (simp add: cs)
    then have "rb (tpaint Black (plug cs kt))" by (rule rb_tpaint)
    moreover have "fix_insert_loop k s = Some s" using par Black by (subst fix_insert_loop.simps) simp
    ultimately show ?thesis using ok by (intro exI [of _ s] exI [of _ "plug cs kt"]) simp
  next
    case Red
    with less.prems(7) have "cs1 \<noteq> []" by (auto simp: cs)
    then obtain sp g pkg mxg u cs2 where cs1: "cs1 = Crumb sp g pkg mxg u # cs2" by (metis crumb.exhaust neq_Nil_conv)
    have T: "plug cs kt = plug cs2 (vbranch sp g pkg mxg (vbranch sk p pkp mxp kt sib) u)" by (simp add: cs cs1)
    have g: "color_of pkg = Black" using less.prems(8) Red by (cases "color_of pkg") (auto simp: cs cs1)
    have loop: "fix_insert_loop k s = do { (k, s) \<leftarrow> fix_insert_step k s; if k = vt_root s then Some s else fix_insert_loop k s }"
      using par Red by (subst fix_insert_loop.simps) simp
    show ?thesis
    proof (cases "tcolor u")
      case Black
      from fix_step_black [OF ok [unfolded T] kt Black red Red g less.prems(4,5) less.prems(8) [unfolded cs cs1]]
      obtain k' s' t' where s': "fix_insert_step k s = Some (k', s')" "tree_ok s' t'" "(tree_move q)\<^sup>*\<^sup>* (plug cs kt) t'"
        "changes_only (set (ptrs (plug cs kt))) s s'" "rb t'" "stops k' s'" unfolding T by blast
      then have "fix_insert_loop k s = Some s'" using stops_loop [OF s'(6)] by (simp add: loop)
      then show ?thesis using s' rb_tpaint by blast
    next
      case unc: Red
      let ?kt = "vbranch sp g (paint Red pkg) mxg (vbranch sk p (paint Black pkp) mxp kt sib) (tpaint Black u)"
      note step = fix_insert_step_at [OF ok [unfolded T] kt, unfolded unc node_color.case]
      from fix_step_recolor [OF ok [unfolded T] kt unc, of q] obtain s1 where s1:
        "fix_insert_step k s = Some (g, s1)" "tree_ok s1 (plug cs2 ?kt)" "(tree_move q)\<^sup>*\<^sup>* (plug cs kt) (plug cs2 ?kt)"
        "changes_only {p, g, tptr u} s s1" unfolding step T by blast
      have ch: "changes_only (set (ptrs (plug cs kt))) s s1" by (rule changes_only_mono [OF s1(4)]) (auto simp: T)
      have rbk: "rb ?kt" "bh ?kt = Suc (bh kt)" "rb_ctx cs2 Black (Suc (bh kt))"
        using less.prems(5,8) Red g unc by (auto simp: cs cs1 bh_vbranch bh_tpaint_Red intro!: rb_tpaint)
      show ?thesis
      proof (cases "cs2 = []")
        case True
        then have "fix_insert_loop k s = Some s1" using s1(1) root_plug_iff [OF s1(2)] by (simp add: loop)
        moreover have "rb (tpaint Black (plug cs2 ?kt))" using rb_tpaint [OF rbk(1)] by (simp add: True)
        ultimately show ?thesis using s1(2,3) ch by blast
      next
        case False
        have "\<exists>s' t'. fix_insert_loop g s1 = Some s' \<and> tree_ok s' t' \<and> (tree_move q)\<^sup>*\<^sup>* (plug cs2 ?kt) t'
          \<and> changes_only (set (ptrs (plug cs2 ?kt))) s1 s' \<and> rb (tpaint Black t')"
          using less.prems(4,7) False rbk
          by (intro less.hyps [OF _ s1(2) refl]) (auto simp: cs cs1)
        then obtain s' t' where s': "fix_insert_loop g s1 = Some s'" "tree_ok s' t'" "(tree_move q)\<^sup>*\<^sup>* (plug cs2 ?kt) t'"
          "changes_only (set (ptrs (plug cs2 ?kt))) s1 s'" "rb (tpaint Black t')" by blast
        have "fix_insert_loop k s = Some s'" using s1(1) s'(1) root_plug_iff [OF s1(2)] False by (simp add: loop)
        moreover have "changes_only (set (ptrs (plug cs kt))) s s'"
          by (rule changes_only_trans [OF ch changes_only_mono [OF s'(4)]]) (auto simp: T)
        moreover have "(tree_move q)\<^sup>*\<^sup>* (plug cs kt) t'" using s1(3) s'(3) by (rule rtranclp_trans)
        ultimately show ?thesis using s'(2,5) by blast
      qed
    qed
  qed
qed

text \<open>The repair as a whole: the tree that \<^verbatim>\<open>fix_insert\<close> leaves is a red-black tree with a black root.\<close>

lemma fix_insert_tree:
  assumes "tree_ok s (plug cs kt)" "kt = vbranch sd k pkk mxk x y" "color_of pkk = Red" "q \<in> set (ptrs kt)" "rb kt"
    "cs \<noteq> []" "color_of (cpk (last cs)) = Black" "rb_ctx cs Black (bh kt)"
  shows "\<exists>s' t'. fix_insert k s = Some s' \<and> tree_ok s' t' \<and> (tree_move q)\<^sup>*\<^sup>* (plug cs kt) t'
    \<and> changes_only (set (ptrs (plug cs kt))) s s' \<and> rb t' \<and> tcolor t' = Black"
proof -
  from fix_insert_loop_tree [OF assms] obtain s1 t1 where s1: "fix_insert_loop k s = Some s1" "tree_ok s1 t1"
    "(tree_move q)\<^sup>*\<^sup>* (plug cs kt) t1" "changes_only (set (ptrs (plug cs kt))) s s1" "rb (tpaint Black t1)" by blast
  have ms: "mset (ptrs t1) = mset (ptrs (plug cs kt))" by (rule tree_moves(1) [OF s1(3)])
  have "ptrs x \<noteq> []" using tptr_in_ptrs [of x] by force
  then have "mset (ptrs t1) \<noteq> {#a#}" for a unfolding ms assms(2) by (simp add: mset_ptrs_plug mset_ptrs_vbranch)
  then obtain p pk mx l r where t1: "t1 = vbranch SideLeft p pk mx l r" by (cases t1) auto
  have root: "vt_root s1 = p" using s1(2) by (simp add: tree_ok_def t1)
  have "tree_ok s1 (plug [] (vbranch SideLeft p pk mx l r))" using s1(2) by (simp add: t1)
  from set_color_tree [OF this, of Black] obtain s2 where s2:
    "set_color (vt_root s1) Black s1 = Some s2" "tree_ok s2 (tpaint Black t1)" "changes_only {p} s1 s2"
    unfolding root by (auto simp: t1)
  have "unwrap_branch s k = Some k"
    using read_branch_tree [OF assms(1) [unfolded assms(2)]] by (simp add: unwrap_branch_def read_branch_eq)
  then have "fix_insert k s = Some s2" using s1(1) s2(1) by (simp add: fix_insert_def)
  moreover have "tree_move q t1 (tpaint Black t1)"
    using tree_move.recolor [of q "[]" SideLeft p pk mx l r Black] by (simp add: t1)
  with s1(3) have "(tree_move q)\<^sup>*\<^sup>* (plug cs kt) (tpaint Black t1)" by (rule rtranclp.rtrancl_into_rtrancl)
  moreover have "p \<in> set (ptrs (plug cs kt))" using mset_eq_setD [OF ms] by (auto simp: t1)
  then have "changes_only (set (ptrs (plug cs kt))) s s2"
    by (intro changes_only_trans [OF s1(4) changes_only_mono [OF s2(3)]]) simp
  ultimately show ?thesis using s2(2) s1(5) tcolor_tpaint by blast
qed

end
