(* ===== verification/Vma_Link.thy ===== *)
theory Vma_Link
  imports Vma_Balance
begin

text \<open>
  Linking a new branch into the tree, \<^verbatim>\<open>link_in_branch\<close>: the colours are repaired, the sizes of the empty areas are
  computed anew on the way from the branch to the root, and a lookup finds what the branch brought.
\<close>

subsection \<open>Trees up to sizes\<close>

fun strip :: "vtree \<Rightarrow> vtree" where
  "strip (VLeaf p l) = VLeaf p l"
| "strip (VBranch p pk mx l r) = VBranch p pk 0 (strip l) (strip r)"

lemma strip_vbranch [simp]: "strip (vbranch sd p pk mx x y) = vbranch sd p pk 0 (strip x) (strip y)"
  by (cases sd) simp_all

lemma strip_same:
  "tptr (strip t) = tptr t" "ptrs (strip t) = ptrs t" "tcolor (strip t) = tcolor t" "bh (strip t) = bh t"
  by (induction t) simp_all

lemma strip_area: "area_at lo hi (strip t) a = area_at lo hi t a"
  by (induction t arbitrary: lo hi) simp_all

lemma strip_ordered: "ordered lo hi (strip t) = ordered lo hi t"
  by (induction t arbitrary: lo hi) simp_all

lemma strip_rb: "rb (strip t) = rb t"
  by (induction t) (simp_all add: strip_same)

lemma strip_eqD:
  assumes "strip t' = strip t"
  shows "tptr t' = tptr t" "ptrs t' = ptrs t" "tcolor t' = tcolor t" "area_at lo hi t' a = area_at lo hi t a"
    "ordered lo hi t' = ordered lo hi t" "rb t' = rb t"
  by (metis assms strip_same strip_area strip_ordered strip_rb)+

lemma strip_plug1: "strip t' = strip t \<Longrightarrow> strip (plug1 (Crumb sd p pk mx' sib) t') = strip (plug1 (Crumb sd p pk mx sib) t)"
  by simp

lemma strip_refresh: "strip t' = strip t \<Longrightarrow> strip (plug (refresh cs u) t') = strip (plug cs t)"
proof (induction cs u arbitrary: t t' rule: refresh.induct)
  case (2 c cs u)
  show ?case
    unfolding refresh.simps plug.simps Let_def
    by (rule "2.IH" [OF refl]) (cases c, simp add: "2.prems")
qed simp

lemma sized_refresh: "sized t \<Longrightarrow> sized_off_ctx {} cs \<Longrightarrow> sized (plug (refresh cs t) t)"
proof (induction cs t rule: refresh.induct)
  case (2 c cs t)
  show ?case unfolding refresh.simps plug.simps Let_def using 2 by (cases c) simp
qed simp

subsection \<open>Positions\<close>

lemma plug_append: "plug (cs @ ds) t = plug ds (plug cs t)"
  by (induction cs arbitrary: t) simp_all

lemma position: "p \<in> set (ptrs t) \<Longrightarrow> \<exists>cs t'. t = plug cs t' \<and> tptr t' = p"
proof (induction t)
  case (VLeaf q l)
  then show ?case by (intro exI [of _ "[]"] exI [of _ "VLeaf q l"]) simp
next
  case (VBranch q pk mx l r)
  then consider "p = q" | "p \<in> set (ptrs l)" | "p \<in> set (ptrs r)" by auto
  then show ?case
  proof cases
    case 1
    then show ?thesis by (intro exI [of _ "[]"] exI [of _ "VBranch q pk mx l r"]) simp
  next
    case 2
    with VBranch.IH(1) obtain cs t' where "l = plug cs t'" "tptr t' = p" by blast
    then show ?thesis by (intro exI [of _ "cs @ [Crumb SideLeft q pk mx r]"] exI [of _ t']) (simp add: plug_append)
  next
    case 3
    with VBranch.IH(2) obtain cs t' where "r = plug cs t'" "tptr t' = p" by blast
    then show ?thesis by (intro exI [of _ "cs @ [Crumb SideRight q pk mx l]"] exI [of _ t']) (simp add: plug_append)
  qed
qed

lemma sized_off_fresh: "q \<notin> set (ptrs t) \<Longrightarrow> sized_off {q} t = sized t"
  by (induction t) auto

lemma sized_off_ctx_fresh: "q \<notin> set (cptrs cs) \<Longrightarrow> sized_off_ctx {q} cs = sized_off_ctx {} cs"
  by (induction cs) (auto simp: sized_off_fresh)

lemma update_max_tree:
  assumes ok: "tree_ok s t" and b: "b \<in> set (ptrs t)" "node_read s b = Some (Branch bb)" and sized: "sized_off {b} t"
  shows "\<exists>s' t'. update_max_empty_area_data b s = Some s' \<and> tree_ok s' t' \<and> strip t' = strip t \<and> sized t'
    \<and> changes_only (set (ptrs t)) s s'"
proof -
  from position [OF b(1)] obtain cs u where t: "t = plug cs u" "tptr u = b" by blast
  have "rep s (cparent cs) u" using ok by (simp add: t tree_ok_plug)
  with b(2) t(2) obtain pk mx x y where u: "u = vbranch SideLeft b pk mx x y" by (cases u) auto
  let ?cs = "Crumb SideLeft b pk mx y # cs"
  have tx: "t = plug ?cs x" by (simp add: t u)
  from update_max_loop_refresh [of s ?cs x] ok obtain s' where s': "update_max_loop (Some b) s = Some s'"
    "tree_ok s' (plug (refresh ?cs x) x)" "changes_only (set (cptrs ?cs)) s s'" unfolding tx by auto
  have fresh: "b \<notin> set (ptrs x)" "b \<notin> set (ptrs y)" "b \<notin> set (cptrs cs)"
    using ok by (auto simp: t u tree_ok_plug)
  have "sized_off {b} u" "sized_off_ctx {b} cs"
    using sized sized_off_plug [of b u cs] by (simp_all add: t u)
  then have "sized x" "sized_off_ctx {} ?cs" using fresh by (simp_all add: u sized_off_fresh sized_off_ctx_fresh)
  then have "sized (plug (refresh ?cs x) x)" by (rule sized_refresh)
  moreover have "strip (plug (refresh ?cs x) x) = strip t" unfolding tx by (rule strip_refresh [OF refl])
  moreover have "changes_only (set (ptrs t)) s s'"
    by (rule changes_only_mono [OF s'(3)]) (simp only: tx set_ptrs_plug, blast)
  ultimately show ?thesis using s'(1,2) by (auto simp: update_max_empty_area_data_def)
qed

text \<open>Moves keep the branches.\<close>

fun bptrs :: "vtree \<Rightarrow> node_ptr set" where
  "bptrs (VLeaf _ _) = {}"
| "bptrs (VBranch p _ _ l r) = insert p (bptrs l \<union> bptrs r)"

lemma bptrs_vbranch [simp]: "bptrs (vbranch sd p pk mx x y) = insert p (bptrs x \<union> bptrs y)"
  by (cases sd) auto

lemma bptrs_plug_cong: "bptrs t' = bptrs t \<Longrightarrow> bptrs (plug cs t') = bptrs (plug cs t)"
proof (induction cs arbitrary: t t')
  case (Cons c cs)
  then show ?case by (cases c) simp
qed simp

lemma bptrs_plug_mono: "p \<in> bptrs t \<Longrightarrow> p \<in> bptrs (plug cs t)"
proof (induction cs arbitrary: t)
  case (Cons c cs)
  then show ?case by (cases c) simp
qed simp

lemma bptrs_moves: "(tree_move q)\<^sup>*\<^sup>* t t' \<Longrightarrow> bptrs t' = bptrs t"
proof (induction rule: rtranclp_induct)
  case (step u v)
  from step.hyps(2) have "bptrs v = bptrs u"
    by (induction rule: tree_move.induct) (rule bptrs_plug_cong; auto)+
  with step.IH show ?case by simp
qed simp

lemma bptrs_read: "rep s par t \<Longrightarrow> p \<in> bptrs t \<Longrightarrow> \<exists>b. node_read s p = Some (Branch b)"
  by (induction t arbitrary: par) auto

subsection \<open>Linking in a branch\<close>

text \<open>The tree as the storage holds it, its pivots in order, its sizes right and its colours balanced.\<close>

definition tree_inv :: "vma_tree \<Rightarrow> vtree \<Rightarrow> bool" where
  "tree_inv s t \<longleftrightarrow> tree_ok s t \<and> top_ordered t \<and> sized t \<and> rb t \<and> tcolor t = Black"

text \<open>What a position asks of the leaf, or the branch over two leaves, that is put there.\<close>

definition ctx_inv :: "context_path \<Rightarrow> bool" where
  "ctx_inv cs \<longleftrightarrow> sized_off_ctx {} cs \<and> rb_ctx cs Black 0 \<and> (cs \<noteq> [] \<longrightarrow> color_of (cpk (last cs)) = Black)"

lemma tcolor_plug: "cs \<noteq> [] \<Longrightarrow> tcolor (plug cs t) = color_of (cpk (last cs))"
proof (induction cs arbitrary: t)
  case (Cons c cs)
  then show ?case by (cases "cs = []"; cases c) simp_all
qed simp

lemma sized_ctx: "sized (plug cs t) \<Longrightarrow> sized_off_ctx {} cs"
proof (induction cs arbitrary: t)
  case (Cons c cs)
  then have "sized_off_ctx {} cs" "sized (plug cs (plug1 c t))" by auto
  moreover have "sized (plug cs u) \<Longrightarrow> sized u" for cs u
    by (induction cs arbitrary: u) (simp, metis crumb.exhaust plug.simps(2) plug1.simps sized_off_vbranch)
  ultimately show ?case by (metis crumb.exhaust crumb.sel(5) plug1.simps sized_off_ctx.simps(2) sized_off_vbranch)
qed simp

lemma ctx_inv_leaf: "sized (plug cs (VLeaf p l)) \<Longrightarrow> rb (plug cs (VLeaf p l)) \<Longrightarrow> tcolor (plug cs (VLeaf p l)) = Black \<Longrightarrow> ctx_inv cs"
  by (cases "cs = []") (auto simp: ctx_inv_def rb_plug tcolor_plug dest: sized_ctx)

text \<open>The parent of the position, or the root, is made to point to the new branch.\<close>

lemma point_to_new:
  assumes C: "rep_ctx s (c # cs) p" and R: "rep s (Some (cptr c)) t" and D: "distinct (ptrs t @ cptrs (c # cs))"
  shows "\<exists>s'. update_branch (cptr c) (branch_index_mut (cside c) (tptr t)) s = Some s' \<and> tree_ok s' (plug (c # cs) t)
    \<and> changes_only {cptr c} s s'"
proof -
  let ?s' = "put_node (cptr c) (Branch (cbranch c (cparent cs) (tptr t))) s"
  have q: "node_read s (cptr c) = Some (Branch (cbranch c (cparent cs) p))" using C by simp
  then have valid: "node_read s (cptr c) \<noteq> None" by simp
  note rd = node_read_put [OF valid]
  have "update_branch (cptr c) (branch_index_mut (cside c) (tptr t)) s = Some ?s'"
    by (simp add: update_branch_put [OF q]) (simp add: cbranch_def)
  moreover have "rep ?s' (Some (cptr c)) t" "rep ?s' (Some (cptr c)) (csib c)"
    using R C D by (subst rep_frame; auto simp: rd)+
  moreover have "rep_ctx ?s' cs (cptr c)"
    using C D valid by (subst rep_ctx_frame [of cs ?s' s]) (auto simp: rd)
  ultimately show ?thesis using D valid
    by (intro exI [of _ ?s']) (simp add: tree_ok_plug rd changes_only_def del: plug.simps)
qed

lemma link_in_branch_tree:
  assumes C: "rep_ctx s cs p" and R: "rep s (cparent cs) nt" and D: "distinct (ptrs nt @ cptrs cs)"
    and nt: "nt = VBranch b pk mx (VLeaf q1 l1) (VLeaf q2 l2)" "color_of pk = Black" and inv: "ctx_inv cs"
    and ord: "top_ordered (plug cs nt)"
  shows "\<exists>s' t'. link_in_branch b (cps cs) s = Some s' \<and> tree_inv s' t' \<and> mset (ptrs t') = mset (ptrs (plug cs nt))
    \<and> (\<forall>a. top_area t' a = top_area (plug cs nt) a) \<and> changes_only (set (ptrs (plug cs nt))) s s'"
proof -
  have *: "\<exists>s1 t1. (case cps cs of
            Some (new_parent, side) \<Rightarrow>
              do { s \<leftarrow> update_branch new_parent (branch_index_mut side b) s;
                   s \<leftarrow> set_color b Red s;
                   pb \<leftarrow> read_branch s new_parent;
                   if bn_parent pb \<noteq> None then fix_insert b s else Some s }
          | None \<Rightarrow> Some (s\<lparr>vt_root := b\<rparr>)) = Some s1
      \<and> tree_ok s1 t1 \<and> rb t1 \<and> tcolor t1 = Black \<and> (tree_move b)\<^sup>*\<^sup>* (plug cs nt) t1
      \<and> changes_only (set (ptrs (plug cs nt))) s s1"
  proof (cases cs)
    case Nil
    have "tree_ok (s\<lparr>vt_root := b\<rparr>) nt" using R D by (simp add: tree_ok_def Nil nt)
    moreover have "rb nt" "tcolor nt = Black" using nt by simp_all
    ultimately show ?thesis using nt by (auto simp: Nil changes_only_def)
  next
    case (Cons c cs')
    from point_to_new [OF C [unfolded Cons], of nt] R D obtain s1 where s1:
      "update_branch (cptr c) (branch_index_mut (cside c) b) s = Some s1" "tree_ok s1 (plug cs nt)" "changes_only {cptr c} s s1"
      by (auto simp: Cons nt)
    let ?nt = "vbranch SideLeft b (paint Red pk) mx (VLeaf q1 l1) (VLeaf q2 l2)"
    have "tree_ok s1 (plug cs (vbranch SideLeft b pk mx (VLeaf q1 l1) (VLeaf q2 l2)))" using s1(2) by (simp add: nt)
    from set_color_tree [OF this, of Red] obtain s2 where s2: "set_color b Red s1 = Some s2" "tree_ok s2 (plug cs ?nt)"
      "changes_only {b} s1 s2" by blast
    have cin: "cptr c \<in> set (cptrs cs)" by (simp add: Cons)
    have ch: "changes_only (set (ptrs (plug cs nt))) s s2"
      by (rule changes_only_trans [OF changes_only_mono [OF s1(3)] changes_only_mono [OF s2(3)]]) (auto simp: cin nt)
    have mv: "tree_move b (plug cs nt) (plug cs ?nt)"
      using tree_move.recolor [of b cs SideLeft b pk mx "VLeaf q1 l1" "VLeaf q2 l2" Red] by (simp add: nt)
    have pb: "read_branch s2 (cptr c) = Some (cbranch c (cparent cs') b)"
      using s2(2) unfolding tree_ok_plug by (simp add: Cons read_branch_eq)
    have rbc: "rb_ctx cs Black 0" "color_of (cpk (last cs)) = Black" using inv by (simp_all add: ctx_inv_def Cons)
    show ?thesis
    proof (cases cs')
      case Nil
      then have "rb (plug cs ?nt)" "tcolor (plug cs ?nt) = Black"
        using rbc Cons unfolding rb_plug by (cases c; simp add: tcolor_plug)+
      then show ?thesis using s1(1) s2(1,2) pb mv ch by (auto simp: Cons Nil cbranch_def)
    next
      case (Cons c' cs'')
      have "\<exists>s' t'. fix_insert b s2 = Some s' \<and> tree_ok s' t' \<and> (tree_move b)\<^sup>*\<^sup>* (plug cs ?nt) t'
        \<and> changes_only (set (ptrs (plug cs ?nt))) s2 s' \<and> rb t' \<and> tcolor t' = Black"
        using rbc \<open>cs = c # cs'\<close> by (intro fix_insert_tree [OF s2(2) refl]) simp_all
      then obtain s' t' where s': "fix_insert b s2 = Some s'" "tree_ok s' t'" "(tree_move b)\<^sup>*\<^sup>* (plug cs ?nt) t'"
        "changes_only (set (ptrs (plug cs ?nt))) s2 s'" "rb t'" "tcolor t' = Black" by blast
      have "changes_only (set (ptrs (plug cs nt))) s s'"
        by (rule changes_only_trans [OF ch changes_only_mono [OF s'(4)]]) (simp add: nt)
      moreover have "(tree_move b)\<^sup>*\<^sup>* (plug cs nt) t'" using mv s'(3) by (rule converse_rtranclp_into_rtranclp)
      ultimately show ?thesis using s1(1) s2(1) pb s'(1,2,5,6) by (auto simp: \<open>cs = c # cs'\<close> Cons cbranch_def)
    qed
  qed
  then obtain s1 t1 where s1: "link_in_branch b (cps cs) s = do { b \<leftarrow> unwrap_branch s1 b; update_max_empty_area_data b s1 }"
    "tree_ok s1 t1" "rb t1" "tcolor t1 = Black" "(tree_move b)\<^sup>*\<^sup>* (plug cs nt) t1"
    "changes_only (set (ptrs (plug cs nt))) s s1" by (auto simp: link_in_branch_def)
  have ms: "mset (ptrs t1) = mset (ptrs (plug cs nt))" by (rule tree_moves(1) [OF s1(5)])
  then have bt: "b \<in> set (ptrs t1)" using mset_eq_setD [OF ms] by (simp add: nt)
  have "sized_off {b} (plug cs nt)" using inv D by (subst sized_off_plug) (simp_all add: nt ctx_inv_def sized_off_ctx_fresh)
  then have sz: "sized_off {b} t1" by (rule tree_moves(2) [OF s1(5)])
  have lk: "top_ordered t1" "\<forall>a. top_area t1 a = top_area (plug cs nt) a" using tree_moves(3) [OF s1(5) ord] by simp_all
  have "b \<in> bptrs (plug cs nt)" by (rule bptrs_plug_mono) (simp add: nt)
  then have "b \<in> bptrs t1" using bptrs_moves [OF s1(5)] by simp
  then obtain bb where bb: "node_read s1 b = Some (Branch bb)" using bptrs_read s1(2) unfolding tree_ok_def by blast
  from update_max_tree [OF s1(2) bt bb sz] obtain s2 t2 where s2: "update_max_empty_area_data b s1 = Some s2" "tree_ok s2 t2"
    "strip t2 = strip t1" "sized t2" "changes_only (set (ptrs t1)) s1 s2" by blast
  note st = strip_eqD [OF s2(3)]
  have "link_in_branch b (cps cs) s = Some s2" using s1(1) s2(1) bb by (simp add: unwrap_branch_def read_branch_eq)
  moreover have "tree_inv s2 t2" using s2(2,4) lk(1) s1(3,4) by (simp add: tree_inv_def st)
  moreover have "changes_only (set (ptrs (plug cs nt))) s s2"
    using changes_only_trans [OF s1(6)] s2(5) mset_eq_setD [OF ms] by simp
  ultimately show ?thesis using lk(2) ms by (intro exI [of _ s2] exI [of _ t2]) (simp add: st)
qed

end
