(* ===== verification/Vma_Storage.thy ===== *)
theory Vma_Storage
  imports Vma_Link
begin

text \<open>
  Reserving nodes in the storage pages of the virtual memory area tree. The bitmap of a new page has the bits of the
  five last nodes set and those of the three slots behind the page clear, so of its 101 nodes only the first
  96 can be handed out; the count of free entries does not know of this, and the next reservation panics.
\<close>

subsection \<open>One page\<close>

lemma storage_constants [simp]: "MAX_NODES = 101" "BITMAP_LEN = 13"
proof -
  have "max_nodes_loop 4072 (4072 div size_of_node) = 101" by code_simp
  then show m: "MAX_NODES = 101" by (simp add: MAX_NODES_def)
  show "BITMAP_LEN = 13" by (simp add: BITMAP_LEN_def m)
qed

abbreviation node_slots :: "node_storage_page \<Rightarrow> nat set" where
  "node_slots page \<equiv> used_slots (usage_bitmap page) \<inter> {..<96}"

definition node_page_ok :: "node_storage_page \<Rightarrow> bool" where
  "node_page_ok page \<longleftrightarrow> length (entries page) = 101 \<and> length (usage_bitmap page) = 13
     \<and> used_slots (usage_bitmap page) - {..<96} = {96..<101}
     \<and> unat (free_entries page) + card (node_slots page) = 101"

lemma initial_bitmap: "INITIAL_USAGE_BITMAP = replicate 12 0 @ [0xF8]"
proof -
  have "replicate 13 (0 :: u8) = replicate 12 0 @ [0]" by code_simp
  then show ?thesis by (simp add: INITIAL_USAGE_BITMAP_def list_update_append)
qed

lemma initial_slots: "used_slots INITIAL_USAGE_BITMAP = {96..<101}"
proof -
  have "slot_bit INITIAL_USAGE_BITMAP n \<longleftrightarrow> 96 \<le> n \<and> n < 101" if n: "n < 104" for n
  proof (cases "n < 96")
    case True
    then have "n div 8 < 12" by auto
    then show ?thesis using True by (simp add: slot_bit_def initial_bitmap nth_append)
  next
    case False
    then consider "n = 96" | "n = 97" | "n = 98" | "n = 99" | "n = 100" | "n = 101" | "n = 102" | "n = 103" using n by linarith
    then show ?thesis by cases (simp_all add: slot_bit_def initial_bitmap nth_append)
  qed
  then show ?thesis by (auto simp: used_slots_def) (simp_all add: initial_bitmap)
qed

lemma new_node_page_ok: "node_page_ok (new_with_prev_page prev)" "node_slots (new_with_prev_page prev) = {}"
  by (auto simp: node_page_ok_def new_with_prev_page_def initial_slots) (simp add: initial_bitmap)

lemma page_free_pos:
  assumes "node_page_ok page"
  shows "free_entries page \<noteq> 0" "5 \<le> unat (free_entries page)"
proof -
  have "card (node_slots page) \<le> card {..<96 :: nat}" by (rule card_mono) auto
  with assms show "5 \<le> unat (free_entries page)" by (simp add: node_page_ok_def)
  then show "free_entries page \<noteq> 0" by auto
qed

lemma page_reserve_first:
  assumes ok: "node_page_ok page"
  obtains i j bm where "reserve_first_free 0 (usage_bitmap page) = Some (i, j, bm)" "i * 8 + j < 104"
    "i * 8 + j \<notin> used_slots (usage_bitmap page)" "\<forall>m < i * 8 + j. m \<in> used_slots (usage_bitmap page)"
    "used_slots bm = insert (i * 8 + j) (used_slots (usage_bitmap page))" "length bm = 13"
proof -
  have len: "length (usage_bitmap page) = 13" and hi: "used_slots (usage_bitmap page) - {..<96} = {96..<101}"
    using ok by (simp_all add: node_page_ok_def)
  have "101 \<notin> used_slots (usage_bitmap page)" using hi by auto
  moreover have "(101 :: nat) \<in> {..<8 * length (usage_bitmap page)}" by (simp add: len)
  ultimately have "reserve_first_free 0 (usage_bitmap page) \<noteq> None" unfolding reserve_first_free_None all_FF_used by blast
  then obtain i j bm where r: "reserve_first_free 0 (usage_bitmap page) = Some (i, j, bm)" by (metis not_None_eq prod_cases3)
  from reserve_first_free_Some [OF this] have *: "i < 13" "j < 8" "\<not> slot_bit (usage_bitmap page) (8 * i + j)"
    "\<forall>m < 8 * i + j. slot_bit (usage_bitmap page) m"
    "bm = (usage_bitmap page)[i := (usage_bitmap page ! i) OR drop_bit j 0x80]" by (auto simp: len)
  have "used_slots bm = insert (i * 8 + j) (used_slots (usage_bitmap page))"
    unfolding *(5) using used_slots_set [of i "usage_bitmap page" j] *(1,2) by (simp add: len mult.commute)
  moreover have "i * 8 + j \<notin> used_slots (usage_bitmap page)" "\<forall>m < i * 8 + j. m \<in> used_slots (usage_bitmap page)"
    using * by (simp_all add: used_slots_def len mult.commute)
  ultimately show ?thesis using *(1,2,5) len by (intro that [OF r]) simp_all
qed

lemma page_reserve:
  assumes ok: "node_page_ok page" and free: "node_slots page \<noteq> {..<96}"
  obtains i page' where "page_find_and_reserve_node page = Some (Some i, page')" "i < 96" "i \<notin> node_slots page"
    "\<forall>m < i. m \<in> node_slots page" "node_slots page' = insert i (node_slots page)" "node_page_ok page'" "entries page' = entries page"
proof -
  from page_reserve_first [OF ok] obtain i j bm where r: "reserve_first_free 0 (usage_bitmap page) = Some (i, j, bm)"
    "i * 8 + j < 104" "i * 8 + j \<notin> used_slots (usage_bitmap page)" "\<forall>m < i * 8 + j. m \<in> used_slots (usage_bitmap page)"
    "used_slots bm = insert (i * 8 + j) (used_slots (usage_bitmap page))" "length bm = 13" by blast
  let ?n = "i * 8 + j"
  let ?page' = "page\<lparr>usage_bitmap := bm, free_entries := free_entries page - 1\<rparr>"
  have n: "?n < 96"
  proof (rule ccontr)
    assume "\<not> ?n < 96"
    with r(4) have "{..<96} \<subseteq> used_slots (usage_bitmap page)" by auto
    with free show False by auto
  qed
  have "1 \<le> free_entries page" using page_free_pos [OF ok] by (simp add: word_le_nat_alt)
  then have "page_find_and_reserve_node page = Some (Some ?n, ?page')"
    using r(1) n page_free_pos [OF ok] by (simp add: page_find_and_reserve_node_def checked_sub_def guard_def)
  moreover have sl: "node_slots ?page' = insert ?n (node_slots page)" using r(5) n by auto
  moreover have "node_page_ok ?page'"
  proof -
    have "used_slots bm - {..<96} = {96..<101}" using ok n by (auto simp: r(5) node_page_ok_def)
    moreover have "card (insert ?n (node_slots page)) = Suc (card (node_slots page))" using r(3) by simp
    moreover have "unat (free_entries page - 1) = unat (free_entries page) - 1"
      using \<open>1 \<le> free_entries page\<close> by (simp add: unat_sub)
    ultimately show ?thesis using ok page_free_pos(2) [OF ok] r(6) sl by (simp add: node_page_ok_def)
  qed
  moreover have "?n \<notin> node_slots page" "\<forall>m < ?n. m \<in> node_slots page" using n r(3,4) by auto
  ultimately show ?thesis using n by (intro that [of ?n ?page']) simp_all
qed

lemma page_reserve_full:
  assumes ok: "node_page_ok page" and full: "node_slots page = {..<96}"
  shows "page_find_and_reserve_node page = None"
proof -
  obtain i j bm where r: "reserve_first_free 0 (usage_bitmap page) = Some (i, j, bm)"
    "i * 8 + j \<notin> used_slots (usage_bitmap page)" by (rule page_reserve_first [OF ok])
  have "{..<96} \<subseteq> used_slots (usage_bitmap page)" using full by blast
  moreover have "{96..<101} \<subseteq> used_slots (usage_bitmap page)" using ok unfolding node_page_ok_def by blast
  ultimately have "\<not> i * 8 + j < 101" using r(2) by (metis atLeastLessThan_iff lessThan_iff not_le subsetD)
  then show ?thesis using r(1) page_free_pos [OF ok]
    by (simp add: page_find_and_reserve_node_def guard_def checked_sub_def)
qed

subsection \<open>The first page of the list\<close>

definition head_page :: "vma_tree \<Rightarrow> node_storage_page option" where
  "head_page s = node_pages s (storage_head s)"

definition head_ok :: "vma_tree \<Rightarrow> bool" where
  "head_ok s \<longleftrightarrow> (case head_page s of None \<Rightarrow> False | Some page \<Rightarrow> node_page_ok page \<and> prev_page page = None)"

definition head_slots :: "vma_tree \<Rightarrow> nat set" where
  "head_slots s = (case head_page s of None \<Rightarrow> {} | Some page \<Rightarrow> node_slots page)"

definition reserved :: "vma_tree \<Rightarrow> node_ptr set" where
  "reserved s = SlotPtr (storage_head s) ` head_slots s"

definition head_reserve :: "vma_tree \<Rightarrow> (nat \<times> vma_tree) option" where
  "head_reserve s = (case find_and_reserve_node 0 s of Some (Inr (SlotPtr a i), _, s') \<Rightarrow> Some (i, s') | _ \<Rightarrow> None)"

definition head_release :: "nat \<Rightarrow> vma_tree \<Rightarrow> vma_tree option" where
  "head_release i s = node_free (SlotPtr (storage_head s) i) s"

lemma head_slots_bound: "head_slots s \<subseteq> {..<96}"
  by (auto simp: head_slots_def split: option.splits)

lemma finite_reserved [simp]: "finite (reserved s)"
  unfolding reserved_def using head_slots_bound finite_subset by blast

lemma card_reserved: "card (reserved s) = card (head_slots s)"
  unfolding reserved_def by (rule card_image) (simp add: inj_on_def)

lemma reserve_in_head:
  assumes ok: "head_ok s" and free: "head_slots s \<noteq> {..<96}"
  obtains i s' where "find_and_reserve_node pages_used s = Some (Inr (SlotPtr (storage_head s) i), pages_used, s')"
    "i < 96" "i \<notin> head_slots s" "\<forall>m < i. m \<in> head_slots s" "head_slots s' = insert i (head_slots s)" "head_ok s'"
    "vt_root s' = vt_root s" "storage_head s' = storage_head s" "node_read s' = node_read s"
    "node_read s (SlotPtr (storage_head s) i) \<noteq> None" "vt_machine s' = vt_machine s"
proof -
  from ok obtain page where page: "node_pages s (storage_head s) = Some page" "node_page_ok page" "prev_page page = None"
    by (auto simp: head_ok_def head_page_def split: option.splits)
  have "node_slots page \<noteq> {..<96}" using free page(1) by (simp add: head_slots_def head_page_def)
  then obtain i page' where r: "page_find_and_reserve_node page = Some (Some i, page')" "i < 96" "i \<notin> node_slots page"
    "\<forall>m < i. m \<in> node_slots page" "node_slots page' = insert i (node_slots page)" "node_page_ok page'" "entries page' = entries page"
    by (rule page_reserve [OF page(2)])
  have prev: "prev_page page' = None" using r(1) page(3)
    by (auto simp: page_find_and_reserve_node_def bind_eq_Some_conv Let_def split: if_splits)
  let ?s' = "s\<lparr>node_pages := (node_pages s)(storage_head s \<mapsto> page')\<rparr>"
  have "0 < free_entries page" using page_free_pos(1) [OF page(2)] by (simp add: word_gt_0)
  then have "search_storage_pages (storage_head s) s = Some (Inr (SlotPtr (storage_head s) i), ?s')"
    using page(1) r(1) by (subst search_storage_pages.simps) simp
  then have "find_and_reserve_node pages_used s = Some (Inr (SlotPtr (storage_head s) i), pages_used, ?s')"
    by (simp add: find_and_reserve_node_def)
  moreover have "node_read ?s' = node_read s"
  proof
    fix p show "node_read ?s' p = node_read s p" using page(1) r(7) by (cases p) simp_all
  qed
  moreover have "node_read s (SlotPtr (storage_head s) i) \<noteq> None"
    using page(1,2) r(2) by (simp add: node_page_ok_def slice_get_def)
  moreover have "head_slots ?s' = insert i (head_slots s)" "i \<notin> head_slots s" "\<forall>m < i. m \<in> head_slots s"
    using r(3-5) page(1) by (simp_all add: head_slots_def head_page_def)
  moreover have "head_ok ?s'" using r(6) prev by (simp add: head_ok_def head_page_def)
  ultimately show ?thesis using r(2) by (intro that [of i ?s']) simp_all
qed

lemma reserve_full_head:
  assumes ok: "head_ok s" and full: "head_slots s = {..<96}"
  shows "find_and_reserve_node pages_used s = None"
proof -
  from ok obtain page where page: "node_pages s (storage_head s) = Some page" "node_page_ok page"
    by (auto simp: head_ok_def head_page_def split: option.splits)
  have "page_find_and_reserve_node page = None"
    by (rule page_reserve_full [OF page(2)]) (use full page(1) in \<open>simp add: head_slots_def head_page_def\<close>)
  moreover have "0 < free_entries page" using page_free_pos(1) [OF page(2)] by (simp add: word_gt_0)
  ultimately show ?thesis using page(1)
    by (simp add: find_and_reserve_node_def search_storage_pages.simps [of "storage_head s"])
qed

lemma release_head:
  assumes ok: "head_ok s" and i: "i \<in> head_slots s"
  shows "\<exists>s'. head_release i s = Some s' \<and> head_slots s' = head_slots s - {i} \<and> head_ok s'
    \<and> node_read s' = (node_read s)(SlotPtr (storage_head s) i := Some placeholder)
    \<and> vt_root s' = vt_root s \<and> storage_head s' = storage_head s"
proof -
  from ok obtain page where page: "node_pages s (storage_head s) = Some page" "node_page_ok page" "prev_page page = None"
    by (auto simp: head_ok_def head_page_def split: option.splits)
  have used: "i \<in> used_slots (usage_bitmap page)" "i < 96" using i page(1) by (auto simp: head_slots_def head_page_def)
  have len: "length (usage_bitmap page) = 13" "length (entries page) = 101" using page(2) by (simp_all add: node_page_ok_def)
  obtain bm where bm: "clear_slot (usage_bitmap page) (i div 8) (i mod 8) = Some bm" "length bm = 13"
    "used_slots bm = used_slots (usage_bitmap page) - {i}"
    using used(2) len used_slots_clear [of "i div 8" "usage_bitmap page" "i mod 8"] by (simp add: clear_slot_Some)
  have cnt: "unat (free_entries page) + card (node_slots page) = 101" "card (node_slots page) \<ge> 1"
    using page(2) used by (auto simp: node_page_ok_def Suc_le_eq card_gt_0_iff)
  then have add: "checked_add (free_entries page) 1 = Some (free_entries page + 1)" "unat (free_entries page + 1) = unat (free_entries page) + 1"
    by (simp_all add: checked_add_def unat_word_ariths)
  let ?page' = "page\<lparr>entries := (entries page)[i := placeholder], usage_bitmap := bm, free_entries := free_entries page + 1\<rparr>"
  let ?s' = "s\<lparr>node_pages := (node_pages s)(storage_head s \<mapsto> ?page')\<rparr>"
  have "head_release i s = Some ?s'"
    using page(1,3) used(2) len add(1) bm(1) by (simp add: head_release_def unreserve_node_def slice_set_def guard_def)
  moreover have sl: "node_slots ?page' = node_slots page - {i}" using bm(3) by auto
  moreover have "node_page_ok ?page'"
  proof -
    have "used_slots bm - {..<96} = {96..<101}" using page(2) used(2) by (auto simp: bm(3) node_page_ok_def)
    moreover have "card (node_slots page - {i}) = card (node_slots page) - 1" using used by simp
    ultimately show ?thesis using len bm(2) cnt add(2) sl by (simp add: node_page_ok_def)
  qed
  moreover have "node_read ?s' = (node_read s)(SlotPtr (storage_head s) i := Some placeholder)"
  proof
    fix p show "node_read ?s' p = ((node_read s)(SlotPtr (storage_head s) i := Some placeholder)) p"
      using page(1) len used(2) by (cases p) (auto simp: slice_get_def)
  qed
  ultimately show ?thesis using page by (intro exI [of _ ?s']) (simp add: head_slots_def head_page_def head_ok_def)
qed

lemma node_free_head:
  assumes "head_ok s" "p \<in> reserved s"
  obtains s' where "node_free p s = Some s'" "reserved s' = reserved s - {p}" "head_ok s'"
    "node_read s' = (node_read s)(p := Some placeholder)" "vt_root s' = vt_root s"
proof -
  from assms(2) obtain i where i: "p = SlotPtr (storage_head s) i" "i \<in> head_slots s" by (auto simp: reserved_def)
  from release_head [OF assms(1) i(2)] obtain s' where "node_free p s = Some s'" "head_slots s' = head_slots s - {i}" "head_ok s'"
    "node_read s' = (node_read s)(p := Some placeholder)" "vt_root s' = vt_root s" "storage_head s' = storage_head s"
    unfolding head_release_def i(1) by blast
  moreover from this(2,6) have "reserved s' = reserved s - {p}" by (auto simp: reserved_def i(1))
  ultimately show ?thesis by (intro that)
qed

text \<open>The first page is a slot allocator like the bitmap of the physical pages.\<close>

interpretation head_nodes: slot_allocator head_ok "\<lambda>_. {..<96}" head_slots head_reserve head_release
proof unfold_locales
  fix s n s' m
  assume ok: "head_ok s" and r: "head_reserve s = Some (n, s')"
  have "head_slots s \<noteq> {..<96}"
  proof
    assume "head_slots s = {..<96}"
    from reserve_full_head [OF ok this, of 0] r show False by (simp add: head_reserve_def)
  qed
  then obtain i s1 where "find_and_reserve_node 0 s = Some (Inr (SlotPtr (storage_head s) i), 0, s1)"
    "i < 96" "i \<notin> head_slots s" "\<forall>m < i. m \<in> head_slots s" "head_slots s1 = insert i (head_slots s)" "head_ok s1"
    by (rule reserve_in_head [OF ok])
  moreover from this(1) r have "n = i" "s' = s1" by (simp_all add: head_reserve_def)
  ultimately show "n \<in> {..<96} - head_slots s \<and> head_slots s' = insert n (head_slots s) \<and> {..<96} = {..<96} \<and> head_ok s'"
    "m < n \<Longrightarrow> m \<in> head_slots s" by simp_all
next
  fix s assume ok: "head_ok s" and r: "head_reserve s = None"
  show "head_slots s = {..<96}"
  proof (rule ccontr)
    assume "head_slots s \<noteq> {..<96}"
    then obtain i s1 where "find_and_reserve_node 0 s = Some (Inr (SlotPtr (storage_head s) i), 0, s1)"
      by (rule reserve_in_head [OF ok])
    with r show False by (simp add: head_reserve_def)
  qed
next
  fix s n assume "head_ok s" "n \<in> head_slots s"
  then show "\<exists>s'. head_release n s = Some s' \<and> head_slots s' = head_slots s - {n} \<and> {..<96} = {..<96} \<and> head_ok s'"
    using release_head [of s n] by auto
qed (use head_slots_bound in auto)

text \<open>What writing nodes keeps, and what a new node brings.\<close>

lemma same_storage_head:
  assumes "same_storage s s'"
  shows "head_ok s' = head_ok s" "head_slots s' = head_slots s" "storage_head s' = storage_head s" "reserved s' = reserved s"
proof -
  have h: "storage_head s' = storage_head s" using assms by (simp add: same_storage_def)
  have 1: "map_option (\<lambda>page. page\<lparr>entries := []\<rparr>) (head_page s') = map_option (\<lambda>page. page\<lparr>entries := []\<rparr>) (head_page s)"
    and 2: "map_option (length \<circ> entries) (head_page s') = map_option (length \<circ> entries) (head_page s)"
    using assms by (simp_all add: same_storage_def head_page_def h)
  have "head_ok s' = head_ok s \<and> head_slots s' = head_slots s"
  proof (cases "head_page s")
    case None
    then show ?thesis using 1 by (simp add: head_ok_def head_slots_def)
  next
    case (Some page)
    then obtain page' where p': "head_page s' = Some page'" "page'\<lparr>entries := []\<rparr> = page\<lparr>entries := []\<rparr>"
      "length (entries page') = length (entries page)" using 1 2 by auto
    then have "usage_bitmap page' = usage_bitmap page" "free_entries page' = free_entries page" "prev_page page' = prev_page page"
      by (cases page; cases page'; simp)+
    then show ?thesis using Some p'(1,3) by (simp add: head_ok_def head_slots_def node_page_ok_def)
  qed
  then show "head_ok s' = head_ok s" "head_slots s' = head_slots s" "storage_head s' = storage_head s" "reserved s' = reserved s"
    using h by (simp_all add: reserved_def)
qed

lemma reserve_node_head:
  assumes ok: "head_ok s" and free: "card (reserved s) < 96"
  obtains p s' where "find_and_reserve_node pages_used s = Some (Inr p, pages_used, s')" "p \<notin> reserved s"
    "reserved s' = insert p (reserved s)" "head_ok s'" "vt_root s' = vt_root s" "node_read s' = node_read s" "node_read s p \<noteq> None"
    "vt_machine s' = vt_machine s"
proof -
  have "head_slots s \<noteq> {..<96}"
  proof
    assume "head_slots s = {..<96}"
    with free show False by (simp add: card_reserved)
  qed
  then obtain i s1 where r: "find_and_reserve_node pages_used s = Some (Inr (SlotPtr (storage_head s) i), pages_used, s1)"
    "i \<notin> head_slots s" "head_slots s1 = insert i (head_slots s)" "head_ok s1" "vt_root s1 = vt_root s"
    "storage_head s1 = storage_head s" "node_read s1 = node_read s" "node_read s (SlotPtr (storage_head s) i) \<noteq> None" "vt_machine s1 = vt_machine s"
    by (rule reserve_in_head [OF ok, of pages_used])
  moreover have "reserved s1 = insert (SlotPtr (storage_head s) i) (reserved s)" "SlotPtr (storage_head s) i \<notin> reserved s"
    using r(2,3,6) by (auto simp: reserved_def)
  ultimately show ?thesis by (intro that [of "SlotPtr (storage_head s) i" s1]) simp_all
qed

lemma new_node_head:
  assumes ok: "head_ok s" and free: "card (reserved s) < 96"
  obtains p s' where "new_node pages_used n s = Some (Inr p, pages_used, s')" "p \<notin> reserved s" "reserved s' = insert p (reserved s)"
    "head_ok s'" "vt_root s' = vt_root s" "node_read s' = (node_read s)(p := Some n)" "vt_machine s' = vt_machine s"
proof -
  obtain p s1 where r: "find_and_reserve_node pages_used s = Some (Inr p, pages_used, s1)" "p \<notin> reserved s"
    "reserved s1 = insert p (reserved s)" "head_ok s1" "vt_root s1 = vt_root s" "node_read s1 = node_read s" "node_read s p \<noteq> None"
    "vt_machine s1 = vt_machine s" by (rule reserve_node_head [OF ok free, of pages_used])
  have valid: "node_read s1 p \<noteq> None" using r(6,7) by simp
  show ?thesis
  proof (rule that)
    show "new_node pages_used n s = Some (Inr p, pages_used, put_node p n s1)"
      by (simp add: new_node_def r(1) node_write_put [OF valid])
    show "p \<notin> reserved s" by (rule r)
    show "reserved (put_node p n s1) = insert p (reserved s)" "head_ok (put_node p n s1)"
      using same_storage_head [OF same_storage_put [OF valid]] r(3,4) by simp_all
    show "vt_root (put_node p n s1) = vt_root s" using valid r(5) by simp
    show "node_read (put_node p n s1) = (node_read s)(p := Some n)" using r(6) by (simp add: fun_eq_iff node_read_put [OF valid])
    show "vt_machine (put_node p n s1) = vt_machine s" using same_storage_put [OF valid, of n] r(8) by (simp add: same_storage_def)
  qed
qed

subsection \<open>How many nodes there are\<close>



end
