(* ===== verification/Vma_Insert.thy ===== *)
theory Vma_Insert
  imports Vma_Storage
begin

text \<open>
  Inserting a segment into the virtual memory area tree, \<^verbatim>\<open>VMATree::insert\<close>: wherever in a gap the segment lies,
  a lookup afterwards finds the segment in its place, the rest of the gap around it and every other area as before.
\<close>

subsection \<open>The invariant of the allocator\<close>

definition vma_ok :: "vma_tree \<Rightarrow> vtree \<Rightarrow> bool" where
  "vma_ok s t \<longleftrightarrow> tree_inv s t \<and> head_ok s \<and> set (ptrs t) \<subseteq> reserved s"

definition pack :: "usize \<Rightarrow> usize" where
  "pack pivot = (pivot AND NOT 3) OR 1"

lemma branch_new_mk: "branch_new pivot False Black par l r = mk_branch SideLeft (pack pivot) 0 par l r"
  by (simp add: branch_new_def color_bit_def pack_def)

lemma color_of_pack [simp]: "color_of (pack pivot) = Black"
proof -
  have "bit (pack pivot) 0" by (simp add: pack_def bit_or_iff bit_1_iff)
  then have "pack pivot AND 1 \<noteq> 0"
    by (simp add: bit_0 and_one_eq odd_iff_mod_2_eq_one even_iff_mod_2_eq_zero)
  then show ?thesis by (simp add: color_of_def)
qed

lemma pivot_of_pack: "pivot AND 3 = 0 \<Longrightarrow> pivot_of (pack pivot) = pivot"
proof (rule bit_word_eqI)
  fix n assume "pivot AND 3 = 0"
  then have "\<not> (bit pivot n \<and> bit (3 :: usize) n)" by (metis bit_and_iff bit_0_eq bot_apply bot_bool_def)
  moreover have "bit (1 :: usize) n \<Longrightarrow> bit (3 :: usize) n" by (cases n) (simp_all add: bit_1_iff)
  ultimately show "bit (pivot_of (pack pivot)) n = bit pivot n" if "n < LENGTH(64)"
    using that by (auto simp: pivot_of_def pack_def bit_simps)
qed

text \<open>
  A branch over two leaves, written to the storage but not yet linked, takes the place of the leaf \<open>p\<close>
  at the position \<open>cs\<close>.
\<close>

lemma link_leaf_pair:
  assumes C: "rep_ctx s cs p" and ctx: "ctx_inv cs" "ordered_ctx cs" "distinct (cptrs cs)"
    and b: "node_read s b = Some (Branch (branch_new pivot False Black (cparent cs) q1 q2))"
    and q: "node_read s q1 = Some (Leaf l1)" "node_read s q2 = Some (Leaf l2)"
    and dist: "distinct [b, q1, q2]" "{b, q1, q2} \<inter> set (cptrs cs) = {}"
    and res: "head_ok s" "{b, q1, q2} \<union> set (cptrs cs) \<subseteq> reserved s"
    and piv: "pivot AND 3 = 0" "clo cs < pivot" "pivot < chi cs"
  obtains s' t' where "link_in_branch b (cps cs) s = Some s'" "vma_ok s' t'" "reserved s' = reserved s"
    "set (ptrs t') = {b, q1, q2} \<union> set (cptrs cs)"
    "\<And>a t. a \<le> HIGHEST_USER_ADDRESS \<Longrightarrow> top_area t' a =
       (if clo cs \<le> a \<and> a < pivot then (q1, l1, clo cs, pivot)
        else if pivot \<le> a \<and> a < chi cs then (q2, l2, pivot, chi cs) else top_area (plug cs t) a)"
    "changes_only ({b, q1, q2} \<union> set (cptrs cs)) s s'"
proof -
  let ?nt = "VBranch b (pack pivot) 0 (VLeaf q1 l1) (VLeaf q2 l2)"
  have R: "rep s (cparent cs) ?nt" using b q by (simp add: branch_new_mk)
  have D: "distinct (ptrs ?nt @ cptrs cs)" using dist ctx(3) by auto
  have O: "top_ordered (plug cs ?nt)" using ctx(2) piv by (simp add: ordered_plug pivot_of_pack)
  from link_in_branch_tree [OF C R D refl color_of_pack ctx(1) O] obtain s' t' where s': "link_in_branch b (cps cs) s = Some s'"
    "tree_inv s' t'" "mset (ptrs t') = mset (ptrs (plug cs ?nt))" "\<forall>a. top_area t' a = top_area (plug cs ?nt) a"
    "changes_only (set (ptrs (plug cs ?nt))) s s'" by blast
  have set: "set (ptrs t') = {b, q1, q2} \<union> set (cptrs cs)" using mset_eq_setD [OF s'(3)] by auto
  have "same_storage s s'" using s'(5) by (simp add: changes_only_def)
  note same = same_storage_head [OF this]
  show ?thesis
  proof (rule that)
    show "link_in_branch b (cps cs) s = Some s'" by (rule s')
    show "vma_ok s' t'" using s'(2) res same set by (simp add: vma_ok_def)
    show "reserved s' = reserved s" by (rule same)
    show "set (ptrs t') = {b, q1, q2} \<union> set (cptrs cs)" by (rule set)
    show "changes_only ({b, q1, q2} \<union> set (cptrs cs)) s s'" using s'(5) by (simp add: insert_commute)
    fix a t assume a: "a \<le> HIGHEST_USER_ADDRESS"
    show "top_area t' a =
       (if clo cs \<le> a \<and> a < pivot then (q1, l1, clo cs, pivot)
        else if pivot \<le> a \<and> a < chi cs then (q2, l2, pivot, chi cs) else top_area (plug cs t) a)"
      using area_ordered_same [OF ctx(2) a, of ?nt t] s'(4) piv by (auto simp: pivot_of_pack)
  qed
qed

lemma descend_position:
  "ordered_ctx cs \<Longrightarrow> clo cs \<le> a \<Longrightarrow> a < chi cs \<Longrightarrow> descend [] (plug cs t) a = descend cs t a"
proof (induction cs arbitrary: t)
  case (Cons c cs)
  then show ?case by (cases c; cases "cside c") (auto simp: Cons.IH)
qed simp

lemma chi_top: "ordered_ctx cs \<Longrightarrow> chi cs \<le> HIGHEST_USER_ADDRESS + 1"
proof (induction cs)
  case (Cons c cs)
  then show ?case by (cases c; cases "cside c") auto
qed simp

subsection \<open>A gap\<close>

text \<open>What is known of the leaf that covers an address.\<close>

lemma gap_position:
  assumes ok: "vma_ok s t" and a: "a \<le> HIGHEST_USER_ADDRESS" and area: "top_area t a = (p, l, lo, hi)"
  obtains cs where "t = plug cs (VLeaf p l)" "clo cs = lo" "chi cs = hi" "lo \<le> a" "a < hi"
    "get_leaf_containing s a = Some \<lparr>li_leaf = p, li_parent_and_side = cps cs, li_start = lo, li_end = hi - 1\<rparr>"
    "node_read s p = Some (Leaf l)" "rep_ctx s cs p" "ctx_inv cs" "ordered_ctx cs" "distinct (p # cptrs cs)"
    "insert p (set (cptrs cs)) \<subseteq> reserved s"
proof -
  have T: "tree_ok s t" "top_ordered t" "sized t" "rb t" "tcolor t = Black" "set (ptrs t) \<subseteq> reserved s"
    using ok by (simp_all add: vma_ok_def tree_inv_def)
  obtain cs where cs: "t = plug cs (VLeaf p l)" "clo cs = lo" "chi cs = hi" "lo \<le> a" "a < hi"
    "get_leaf_containing s a = Some \<lparr>li_leaf = p, li_parent_and_side = cps cs, li_start = lo, li_end = hi - 1\<rparr>"
    by (rule get_leaf_containing_area [OF T(1,2) a area])
  show ?thesis
    using T cs ctx_inv_leaf [of cs p l] by (intro that [of cs]) (simp_all add: tree_ok_plug ordered_plug)
qed

lemma put_leaf_tree:
  assumes "tree_ok s (plug cs (VLeaf p l))"
  shows "tree_ok (put_node p (Leaf l') s) (plug cs (VLeaf p l'))" "changes_only {p} s (put_node p (Leaf l') s)"
proof -
  have p: "node_read s p \<noteq> None" "p \<notin> set (cptrs cs)" "rep_ctx s cs p" "distinct (cptrs cs)"
    using assms by (simp_all add: tree_ok_plug)
  have "rep_ctx (put_node p (Leaf l') s) cs p = rep_ctx s cs p"
    using p by (intro rep_ctx_frame) (auto simp: node_read_put)
  then show "tree_ok (put_node p (Leaf l') s) (plug cs (VLeaf p l'))" using p by (simp add: tree_ok_plug node_read_put)
  show "changes_only {p} s (put_node p (Leaf l') s)" using p(1) by (simp add: changes_only_def node_read_put)
qed

text \<open>The areas of a gap from \<open>lo\<close> to before \<open>hi\<close> once the segment from \<open>start\<close> to before \<open>past\<close> is in it.\<close>

definition split_gap :: "usize \<Rightarrow> usize \<Rightarrow> node_flags \<Rightarrow> usize \<Rightarrow> usize \<Rightarrow> usize \<Rightarrow> leaf_node \<times> usize \<times> usize" where
  "split_gap start past flags lo hi a =
     (if a < start then (EmptyLeaf (start - lo), lo, start)
      else if a < past then (UsedLeaf flags, start, past)
      else (EmptyLeaf (hi - past), past, hi))"

definition gap_filled :: "usize \<Rightarrow> usize \<Rightarrow> node_flags \<Rightarrow> usize \<Rightarrow> usize \<Rightarrow> vtree \<Rightarrow> vtree \<Rightarrow> bool" where
  "gap_filled start past flags lo hi t t' \<longleftrightarrow>
     (\<forall>a \<le> HIGHEST_USER_ADDRESS. snd (top_area t' a) =
        (if lo \<le> a \<and> a < hi then split_gap start past flags lo hi a else snd (top_area t a)))"

lemma insert_whole_gap_tree:
  assumes ok: "vma_ok s t" and a: "start \<le> HIGHEST_USER_ADDRESS" and area: "top_area t start = (p, l, start, hi)"
    and gap: "get_leaf_containing s start = Some gap"
  obtains s' t' where "insert_whole_gap pages_used flags gap s = Some (Inr p, pages_used, s')" "vma_ok s' t'"
    "reserved s' = reserved s" "gap_filled start hi flags start hi t t'" "fst (top_area t' start) = p"
proof -
  obtain cs where lohi: "start < hi" and cs: "t = plug cs (VLeaf p l)" "clo cs = start" "chi cs = hi"
    "get_leaf_containing s start = Some \<lparr>li_leaf = p, li_parent_and_side = cps cs, li_start = start, li_end = hi - 1\<rparr>"
    "node_read s p = Some (Leaf l)" "ctx_inv cs" "ordered_ctx cs" "distinct (p # cptrs cs)"
    by (rule gap_position [OF ok a area])
  let ?l = "UsedLeaf flags"
  let ?s1 = "put_node p (Leaf ?l) s"
  have "tree_ok s (plug cs (VLeaf p l))" using ok by (simp add: vma_ok_def tree_inv_def cs(1))
  note put = put_leaf_tree [OF this, of ?l]
  from update_max_loop_refresh [OF put(1)] obtain s' where s': "update_max_loop (cparent cs) ?s1 = Some s'"
    "tree_ok s' (plug (refresh cs (VLeaf p ?l)) (VLeaf p ?l))" "changes_only (set (cptrs cs)) ?s1 s'" by blast
  let ?t' = "plug (refresh cs (VLeaf p ?l)) (VLeaf p ?l)"
  note st = strip_eqD [OF strip_refresh [OF refl, of cs "VLeaf p ?l" "VLeaf p ?l"]]
  have "(case cps cs of None \<Rightarrow> Some ?s1 | Some (parent, _) \<Rightarrow> update_max_empty_area_data parent ?s1) = Some s'"
    using s'(1) by (cases cs) (simp_all add: update_max_empty_area_data_def update_max_loop.simps [of None])
  then have run: "insert_whole_gap pages_used flags gap s = Some (Inr p, pages_used, s')"
    using gap cs(4) node_write_put [of s p] cs(5) by (auto simp: insert_whole_gap_def)
  have same: "same_storage s s'" using put(2) s'(3) same_storage_trans by (auto simp: changes_only_def)
  have "sized ?t'" using cs(6) by (intro sized_refresh) (simp_all add: ctx_inv_def)
  moreover have "rb ?t'" unfolding st(6) using cs(6) by (simp add: rb_plug ctx_inv_def)
  moreover have "tcolor ?t' = Black" unfolding st(3) using cs(6) by (cases "cs = []") (simp_all add: tcolor_plug ctx_inv_def)
  moreover have "top_ordered ?t'" unfolding st(5) using ok by (simp add: vma_ok_def tree_inv_def cs(1) ordered_plug)
  ultimately have "tree_inv s' ?t'" using s'(2) by (simp add: tree_inv_def)
  then have "vma_ok s' ?t'"
    using same_storage_head [OF same] ok by (simp add: vma_ok_def st(2) cs(1))
  moreover have "gap_filled start hi flags start hi t ?t'"
    unfolding gap_filled_def st(4) split_gap_def using area_ordered_same [OF cs(7), of _ "VLeaf p ?l" "VLeaf p l"] cs(1-3) by auto
  moreover have "fst (top_area ?t' start) = p"
    unfolding st(4) using area_plug [OF cs(7), of start "VLeaf p ?l"] cs(2,3) lohi by simp
  ultimately show ?thesis using run same_storage_head(4) [OF same] by (intro that)
qed

lemma split_leaf:
  assumes ok: "vma_ok s t" and a: "start \<le> HIGHEST_USER_ADDRESS" and area: "top_area t start = (p, EmptyLeaf n, lo, hi)"
    and room: "card (reserved s) \<le> 94" and piv: "pivot AND 3 = 0" "lo < pivot" "pivot < hi"
  obtains cs u s1 b s2 s3 s' t' where
    "get_leaf_containing s start = Some \<lparr>li_leaf = p, li_parent_and_side = cps cs, li_start = lo, li_end = hi - 1\<rparr>"
    "new_used_leaf pages_used flags s = Some (Inr u, pages_used, s1)"
    "new_branch pages_used pivot (cparent cs) (if new_left then u else p) (if new_left then p else u) s1 = Some (Inr b, pages_used, s2)"
    "unwrap_empty_set_size p m s2 = Some s3" "link_in_branch b (cps cs) s3 = Some s'"
    "vma_ok s' t'" "reserved s' = {b, u} \<union> reserved s"
    "\<And>a. a \<le> HIGHEST_USER_ADDRESS \<Longrightarrow> top_area t' a =
       (if lo \<le> a \<and> a < pivot then (if new_left then (u, UsedLeaf flags, lo, pivot) else (p, EmptyLeaf m, lo, pivot))
        else if pivot \<le> a \<and> a < hi then (if new_left then (p, EmptyLeaf m, pivot, hi) else (u, UsedLeaf flags, pivot, hi))
        else top_area t a)"
proof -
  obtain cs where cs: "t = plug cs (VLeaf p (EmptyLeaf n))" "clo cs = lo" "chi cs = hi"
    "get_leaf_containing s start = Some \<lparr>li_leaf = p, li_parent_and_side = cps cs, li_start = lo, li_end = hi - 1\<rparr>"
    "node_read s p = Some (Leaf (EmptyLeaf n))" "rep_ctx s cs p" "ctx_inv cs" "ordered_ctx cs" "distinct (p # cptrs cs)"
    "insert p (set (cptrs cs)) \<subseteq> reserved s"
    by (rule gap_position [OF ok a area])
  have h0: "head_ok s" using ok by (simp add: vma_ok_def)
  obtain u s1 where u: "new_node pages_used (Leaf (UsedLeaf flags)) s = Some (Inr u, pages_used, s1)" "u \<notin> reserved s"
    "reserved s1 = insert u (reserved s)" "head_ok s1" "vt_root s1 = vt_root s" "node_read s1 = (node_read s)(u := Some (Leaf (UsedLeaf flags)))"
    by (rule new_node_head [OF h0, of pages_used "Leaf (UsedLeaf flags)"]) (use room in auto)
  let ?q1 = "if new_left then u else p" and ?q2 = "if new_left then p else u"
  let ?b = "Branch (branch_new pivot False Black (cparent cs) ?q1 ?q2)"
  have "card (reserved s1) < 96" using room u(2,3) by simp
  then obtain b s2 where b: "new_node pages_used ?b s1 = Some (Inr b, pages_used, s2)" "b \<notin> reserved s1"
    "reserved s2 = insert b (reserved s1)" "head_ok s2" "vt_root s2 = vt_root s1" "node_read s2 = (node_read s1)(b := Some ?b)"
    by (rule new_node_head [OF u(4), of pages_used ?b])
  have new: "u \<noteq> p" "b \<noteq> p" "b \<noteq> u" "u \<notin> set (cptrs cs)" "b \<notin> set (cptrs cs)" using cs(10) u(2,3) b(2) by auto
  have p2: "node_read s2 p = Some (Leaf (EmptyLeaf n))" using cs(5) new by (simp add: b(6) u(6))
  let ?s3 = "put_node p (Leaf (EmptyLeaf m)) s2"
  have rd3: "node_read ?s3 = (node_read s)(u := Some (Leaf (UsedLeaf flags)), b := Some ?b, p := Some (Leaf (EmptyLeaf m)))"
    using p2 by (auto simp: fun_eq_iff node_read_put b(6) u(6))
  have s3: "unwrap_empty_set_size p m s2 = Some ?s3" "vt_root ?s3 = vt_root s"
    using p2 b(5) u(5) by (simp_all add: unwrap_empty_set_size_def unwrap_empty_size_def read_leaf_def node_write_put)
  have res3: "head_ok ?s3" "reserved ?s3 = {b, u} \<union> reserved s"
    using same_storage_head [OF same_storage_put, of s2 p] p2 b(3,4) u(3) by simp_all
  have C3: "rep_ctx ?s3 cs p" using cs(6,9) new s3(2) rd3 by (subst rep_ctx_frame [of cs ?s3 s]) auto
  have ctx3: "ctx_inv cs" "ordered_ctx cs" "distinct (cptrs cs)" using cs(7-9) by simp_all
  obtain s' t' where s': "link_in_branch b (cps cs) ?s3 = Some s'" "vma_ok s' t'" "reserved s' = reserved ?s3"
    "\<And>a t. a \<le> HIGHEST_USER_ADDRESS \<Longrightarrow> top_area t' a =
       (if clo cs \<le> a \<and> a < pivot then (?q1, if new_left then UsedLeaf flags else EmptyLeaf m, clo cs, pivot)
        else if pivot \<le> a \<and> a < chi cs then (?q2, if new_left then EmptyLeaf m else UsedLeaf flags, pivot, chi cs)
        else top_area (plug cs t) a)"
    by (rule link_leaf_pair [OF C3 ctx3, of b pivot ?q1 ?q2 "if new_left then UsedLeaf flags else EmptyLeaf m"
          "if new_left then EmptyLeaf m else UsedLeaf flags"])
      (use rd3 new cs(2,3,9,10) piv res3 in \<open>auto split: if_splits\<close>)
  show ?thesis
  proof (rule that [OF cs(4)])
    show "new_used_leaf pages_used flags s = Some (Inr u, pages_used, s1)" using u(1) by (simp add: new_used_leaf_def)
    show "new_branch pages_used pivot (cparent cs) ?q1 ?q2 s1 = Some (Inr b, pages_used, s2)"
      using b(1) by (simp add: new_branch_def)
    show "unwrap_empty_set_size p m s2 = Some ?s3" by (rule s3)
    show "link_in_branch b (cps cs) ?s3 = Some s'" "vma_ok s' t'" by (rule s')+
    show "reserved s' = {b, u} \<union> reserved s" using s'(3) res3(2) by simp
  next
    fix a assume "a \<le> HIGHEST_USER_ADDRESS"
    from s'(4) [OF this, of "VLeaf p (EmptyLeaf n)"] show "top_area t' a =
       (if lo \<le> a \<and> a < pivot then (if new_left then (u, UsedLeaf flags, lo, pivot) else (p, EmptyLeaf m, lo, pivot))
        else if pivot \<le> a \<and> a < hi then (if new_left then (p, EmptyLeaf m, pivot, hi) else (u, UsedLeaf flags, pivot, hi))
        else top_area t a)" by (simp add: cs(1-3))
  qed
qed

lemma unat_pred: "(x :: usize) < y \<Longrightarrow> unat (y - 1) = unat y - 1"
  by (rule unat_minus_one) auto

lemma checked_add_pred: "(x :: usize) < y \<Longrightarrow> checked_add (y - 1) 1 = Some y"
  using unat_pred [of x y] unsigned_less [of y] by (auto simp: checked_add_def word_less_nat_alt)

lemma checked_sub_pred: "(x :: usize) < y \<Longrightarrow> y < z \<Longrightarrow> checked_sub (z - 1) (y - 1) = Some (z - y)"
  using unat_pred [of x y] unat_pred [of y z] by (auto simp: checked_sub_def word_le_nat_alt word_less_nat_alt)

lemmas result_simps = try_result_def inspect_err_def

lemma insert_gap_end_tree:
  assumes ok: "vma_ok s t" and a: "start \<le> HIGHEST_USER_ADDRESS" and area: "top_area t start = (p, EmptyLeaf n, lo, hi)"
    and room: "card (reserved s) \<le> 94" and piv: "start AND 3 = 0" "lo < start" "start < hi"
    and gap: "get_leaf_containing s start = Some gap"
  obtains r s' t' where "insert_gap_end pages_used start flags gap s = Some (Inr r, pages_used, s')" "vma_ok s' t'"
    "card (reserved s') \<le> card (reserved s) + 2" "gap_filled start hi flags lo hi t t'" "fst (top_area t' start) = r"
proof -
  obtain cs u s1 b s2 s3 s' t' where *:
    "get_leaf_containing s start = Some \<lparr>li_leaf = p, li_parent_and_side = cps cs, li_start = lo, li_end = hi - 1\<rparr>"
    "new_used_leaf pages_used flags s = Some (Inr u, pages_used, s1)"
    "new_branch pages_used start (cparent cs) (if False then u else p) (if False then p else u) s1 = Some (Inr b, pages_used, s2)"
    "unwrap_empty_set_size p (start - lo) s2 = Some s3" "link_in_branch b (cps cs) s3 = Some s'"
    "vma_ok s' t'" "reserved s' = {b, u} \<union> reserved s"
    "\<And>a. a \<le> HIGHEST_USER_ADDRESS \<Longrightarrow> top_area t' a =
       (if lo \<le> a \<and> a < start then (if False then (u, UsedLeaf flags, lo, start) else (p, EmptyLeaf (start - lo), lo, start))
        else if start \<le> a \<and> a < hi then (if False then (p, EmptyLeaf (start - lo), start, hi) else (u, UsedLeaf flags, start, hi))
        else top_area t a)"
    by (rule split_leaf [OF ok a area room piv, of pages_used flags False "start - lo"]) (rule that)
  have "insert_gap_end pages_used start flags gap s = Some (Inr u, pages_used, s')"
    using *(1-5) gap piv by (simp add: insert_gap_end_def result_simps cps_parent checked_sub_def)
  moreover have "gap_filled start hi flags lo hi t t'"
    unfolding gap_filled_def split_gap_def using *(8) piv by auto
  moreover have "card (reserved s') \<le> card (reserved s) + 2" unfolding *(7) by (simp add: card_insert_if)
  moreover have "fst (top_area t' start) = u" using *(8) [OF a] piv by simp
  ultimately show ?thesis using *(6) by (intro that)
qed

lemma insert_gap_start_tree:
  assumes ok: "vma_ok s t" and a: "start \<le> HIGHEST_USER_ADDRESS" and area: "top_area t start = (p, EmptyLeaf n, start, hi)"
    and room: "card (reserved s) \<le> 94" and piv: "past AND 3 = 0" "start < past" "past < hi"
    and gap: "get_leaf_containing s start = Some gap"
  obtains r s' t' where "insert_gap_start pages_used (past - 1) flags gap s = Some (Inr r, pages_used, s')" "vma_ok s' t'"
    "card (reserved s') \<le> card (reserved s) + 2" "gap_filled start past flags start hi t t'" "fst (top_area t' start) = r"
proof -
  obtain cs u s1 b s2 s3 s' t' where *:
    "get_leaf_containing s start = Some \<lparr>li_leaf = p, li_parent_and_side = cps cs, li_start = start, li_end = hi - 1\<rparr>"
    "new_used_leaf pages_used flags s = Some (Inr u, pages_used, s1)"
    "new_branch pages_used past (cparent cs) (if True then u else p) (if True then p else u) s1 = Some (Inr b, pages_used, s2)"
    "unwrap_empty_set_size p (hi - past) s2 = Some s3" "link_in_branch b (cps cs) s3 = Some s'"
    "vma_ok s' t'" "reserved s' = {b, u} \<union> reserved s"
    "\<And>a. a \<le> HIGHEST_USER_ADDRESS \<Longrightarrow> top_area t' a =
       (if start \<le> a \<and> a < past then (if True then (u, UsedLeaf flags, start, past) else (p, EmptyLeaf (hi - past), start, past))
        else if past \<le> a \<and> a < hi then (if True then (p, EmptyLeaf (hi - past), past, hi) else (u, UsedLeaf flags, past, hi))
        else top_area t a)"
    by (rule split_leaf [OF ok a area room piv, of pages_used flags True "hi - past"]) (rule that)
  have ends: "checked_add (past - 1) 1 = Some past" "checked_sub (hi - 1) (past - 1) = Some (hi - past)"
    using checked_add_pred checked_sub_pred piv(2,3) by blast+
  have "insert_gap_start pages_used (past - 1) flags gap s = Some (Inr u, pages_used, s')"
    using *(1-5) gap ends by (simp add: insert_gap_start_def result_simps cps_parent)
  moreover have "gap_filled start past flags start hi t t'"
    unfolding gap_filled_def split_gap_def using *(8) piv by auto
  moreover have "card (reserved s') \<le> card (reserved s) + 2" unfolding *(7) by (simp add: card_insert_if)
  moreover have "fst (top_area t' start) = u" using *(8) [OF a] piv by simp
  ultimately show ?thesis using *(6) by (intro that)
qed

text \<open>
  A segment with room on both sides: the branch after the segment is linked in first, then the one before it
  at the place where the first one went.
\<close>

lemma insert_in_gap_tree:
  assumes ok: "vma_ok s t" and a: "start \<le> HIGHEST_USER_ADDRESS" and area: "top_area t start = (p, EmptyLeaf n, lo, hi)"
    and room: "card (reserved s) \<le> 92" and al: "start AND 3 = 0" "past AND 3 = 0"
    and ord: "lo < start" "start < past" "past < hi"
    and gap: "get_leaf_containing s start = Some gap"
  obtains r s' t' where "insert_in_gap pages_used start (past - 1) flags gap s = Some (Inr r, pages_used, s')" "vma_ok s' t'"
    "card (reserved s') \<le> card (reserved s) + 4" "gap_filled start past flags lo hi t t'" "fst (top_area t' start) = r"
proof -
  obtain cs where cs: "t = plug cs (VLeaf p (EmptyLeaf n))" "clo cs = lo" "chi cs = hi"
    "get_leaf_containing s start = Some \<lparr>li_leaf = p, li_parent_and_side = cps cs, li_start = lo, li_end = hi - 1\<rparr>"
    "node_read s p = Some (Leaf (EmptyLeaf n))" "rep_ctx s cs p" "ctx_inv cs" "ordered_ctx cs" "distinct (p # cptrs cs)"
    "insert p (set (cptrs cs)) \<subseteq> reserved s"
    by (rule gap_position [OF ok a area])
  have h0: "head_ok s" using ok by (simp add: vma_ok_def)
  let ?u = "Leaf (UsedLeaf flags)" and ?e = "Leaf (EmptyLeaf (hi - past))"
  obtain u s1 where u: "new_node pages_used ?u s = Some (Inr u, pages_used, s1)" "u \<notin> reserved s"
    "reserved s1 = insert u (reserved s)" "head_ok s1" "vt_root s1 = vt_root s" "node_read s1 = (node_read s)(u := Some ?u)"
    by (rule new_node_head [OF h0, of pages_used ?u]) (use room in auto)
  have "card (reserved s1) < 96" using room u(2,3) by simp
  then obtain e s2 where e: "new_node pages_used ?e s1 = Some (Inr e, pages_used, s2)" "e \<notin> reserved s1"
    "reserved s2 = insert e (reserved s1)" "head_ok s2" "vt_root s2 = vt_root s1" "node_read s2 = (node_read s1)(e := Some ?e)"
    by (rule new_node_head [OF u(4), of pages_used ?e])
  let ?eb = "Branch (branch_new past False Black (cparent cs) u e)"
  have "card (reserved s2) < 96" using room u(2,3) e(2,3) by simp
  then obtain eb s3 where eb: "new_node pages_used ?eb s2 = Some (Inr eb, pages_used, s3)" "eb \<notin> reserved s2"
    "reserved s3 = insert eb (reserved s2)" "head_ok s3" "vt_root s3 = vt_root s2" "node_read s3 = (node_read s2)(eb := Some ?eb)"
    by (rule new_node_head [OF e(4), of pages_used ?eb])
  have c3: "card (reserved s3) = card (reserved s) + 3" using u(2,3) e(2,3) eb(2,3) by simp
  then have "card (reserved s3) < 96" using room by simp
  then obtain sb s4 where sb: "find_and_reserve_node pages_used s3 = Some (Inr sb, pages_used, s4)" "sb \<notin> reserved s3"
    "reserved s4 = insert sb (reserved s3)" "head_ok s4" "vt_root s4 = vt_root s3" "node_read s4 = node_read s3" "node_read s3 sb \<noteq> None"
    by (rule reserve_node_head [OF eb(4), of pages_used])
  have new: "distinct [sb, eb, u, e, p]" "{sb, eb, u, e, p} \<inter> set (cptrs cs) = {}"
    using cs(9,10) u(2,3) e(2,3) eb(2,3) sb(2) by auto
  have rd4: "node_read s4 = (node_read s)(u := Some ?u, e := Some ?e, eb := Some ?eb)" by (simp add: u(6) e(6) eb(6) sb(6))
  have res4: "reserved s4 = {sb, eb, u, e} \<union> reserved s" using u(3) e(3) eb(3) sb(3) by auto
  have C4: "rep_ctx s4 cs p"
    using cs(6) new rd4 u(5) e(5) eb(5) sb(5) by (subst rep_ctx_frame [of cs s4 s]) auto
  have ctx: "ctx_inv cs" "ordered_ctx cs" "distinct (cptrs cs)" using cs(7-9) by simp_all
  obtain s5 t5 where s5: "link_in_branch eb (cps cs) s4 = Some s5" "vma_ok s5 t5" "reserved s5 = reserved s4"
    "set (ptrs t5) = {eb, u, e} \<union> set (cptrs cs)"
    "\<And>a t. a \<le> HIGHEST_USER_ADDRESS \<Longrightarrow> top_area t5 a =
       (if clo cs \<le> a \<and> a < past then (u, UsedLeaf flags, clo cs, past)
        else if past \<le> a \<and> a < chi cs then (e, EmptyLeaf (hi - past), past, chi cs) else top_area (plug cs t) a)"
    "changes_only ({eb, u, e} \<union> set (cptrs cs)) s4 s5"
    by (rule link_leaf_pair [OF C4 ctx, of eb past u e "UsedLeaf flags" "EmptyLeaf (hi - past)"])
      (use rd4 new cs(2,3,10) al(2) ord res4 sb(4) in auto)
  have area5: "top_area t5 start = (u, UsedLeaf flags, lo, past)" using s5(5) [OF a, of t] ord cs(2) by (simp add: less_imp_le)
  obtain cs' where cs': "t5 = plug cs' (VLeaf u (UsedLeaf flags))" "clo cs' = lo" "chi cs' = past"
    "get_leaf_containing s5 start = Some \<lparr>li_leaf = u, li_parent_and_side = cps cs', li_start = lo, li_end = past - 1\<rparr>"
    "node_read s5 u = Some (Leaf (UsedLeaf flags))" "rep_ctx s5 cs' u" "ctx_inv cs'" "ordered_ctx cs'" "distinct (u # cptrs cs')"
    "insert u (set (cptrs cs')) \<subseteq> reserved s5"
    by (rule gap_position [OF s5(2) a area5])
  let ?sb = "Branch (branch_new start False Black (cparent cs') p u)"
  have "set (cptrs cs') \<subseteq> {eb, u, e} \<union> set (cptrs cs)" using s5(4) cs'(1) by auto
  then have new': "sb \<notin> set (cptrs cs')" "p \<notin> set (cptrs cs')" using new by auto
  have rd5: "node_read s5 sb \<noteq> None" "node_read s5 p = Some (Leaf (EmptyLeaf n))"
    using s5(6) new sb(7) cs(5) rd4 sb(6) by (auto simp: changes_only_def)
  let ?s6 = "put_node sb ?sb s5"
  let ?s7 = "put_node p (Leaf (EmptyLeaf (start - lo))) ?s6"
  have p6: "node_read ?s6 p = Some (Leaf (EmptyLeaf n))" using rd5 new by (auto simp: node_read_put)
  have rd7: "node_read ?s7 = (node_read s5)(sb := Some ?sb, p := Some (Leaf (EmptyLeaf (start - lo))))"
    using p6 rd5(1) by (auto simp: fun_eq_iff node_read_put)
  have root7: "vt_root ?s7 = vt_root s5" using p6 rd5(1) by simp
  have "same_storage s5 ?s7" using p6 rd5(1) by simp
  note same7 = same_storage_head [OF this]
  have h7: "head_ok ?s7" using s5(2) same7(1) by (simp add: vma_ok_def)
  have C7: "rep_ctx ?s7 cs' u" using cs'(6) new' rd7 root7 by (subst rep_ctx_frame [of cs' ?s7 s5]) auto
  have ctx': "ctx_inv cs'" "ordered_ctx cs'" "distinct (cptrs cs')" using cs'(7-9) by simp_all
  obtain s' t' where s': "link_in_branch sb (cps cs') ?s7 = Some s'" "vma_ok s' t'" "reserved s' = reserved ?s7"
    "\<And>a t. a \<le> HIGHEST_USER_ADDRESS \<Longrightarrow> top_area t' a =
       (if clo cs' \<le> a \<and> a < start then (p, EmptyLeaf (start - lo), clo cs', start)
        else if start \<le> a \<and> a < chi cs' then (u, UsedLeaf flags, start, chi cs') else top_area (plug cs' t) a)"
    by (rule link_leaf_pair [OF C7 ctx', of sb start p u "EmptyLeaf (start - lo)" "UsedLeaf flags"])
      (use rd7 new new' cs'(2,3,5,9,10) al(1) ord res4 h7 same7(4) s5(3) cs(10) in auto)
  have g: "gap = \<lparr>li_leaf = p, li_parent_and_side = cps cs, li_start = lo, li_end = hi - 1\<rparr>" using gap cs(4) by simp
  have "checked_sub start lo = Some (start - lo)" using ord(1) by (simp add: checked_sub_def)
  then have run: "insert_in_gap pages_used start (past - 1) flags gap s = Some (Inr u, pages_used, s')"
    using u(1) e(1) eb(1) sb(1) s5(1) cs'(4) s'(1) checked_add_pred [OF ord(2)] checked_sub_pred [OF ord(2,3)] p6
      node_write_put [OF rd5(1)] node_write_put [of ?s6 p]
    by (simp add: insert_in_gap_def result_simps new_used_leaf_def new_empty_leaf_def new_branch_def cps_parent guard_def
        unwrap_empty_set_size_def unwrap_empty_size_def read_leaf_def g)
  have fill: "gap_filled start past flags lo hi t t'"
    unfolding gap_filled_def split_gap_def
    using s'(4) [of _ "VLeaf u (UsedLeaf flags)"] s5(5) [of _ "VLeaf p (EmptyLeaf n)"] ord cs(1-3) cs'(1-3) by auto
  have "card (reserved s') \<le> card (reserved s) + 4"
    using s'(3) same7(4) s5(3) sb(2,3) c3 by simp
  moreover have "fst (top_area t' start) = u" using s'(4) [OF a, of t] cs'(2,3) ord by simp
  ultimately show ?thesis using run s'(2) fill by (intro that) simp_all
qed

subsection \<open>Looking up and inserting\<close>

definition vma_inv :: "vma_tree \<Rightarrow> bool" where
  "vma_inv s \<longleftrightarrow> (\<exists>t. vma_ok s t)"

text \<open>The area around an address: its leaf, its first and its last address.\<close>

definition vma_area :: "vma_tree \<Rightarrow> usize \<Rightarrow> (leaf_node \<times> usize \<times> usize) option" where
  "vma_area s a =
     do { info \<leftarrow> get_leaf_containing s a;
          leaf \<leftarrow> read_leaf s (li_leaf info);
          Some (leaf, li_start info, li_end info) }"

lemma vma_area_tree:
  assumes "vma_ok s t" "a \<le> HIGHEST_USER_ADDRESS"
  shows "vma_area s a = (case top_area t a of (p, l, lo, hi) \<Rightarrow> Some (l, lo, hi - 1))"
proof -
  obtain p l lo hi where area: "top_area t a = (p, l, lo, hi)" by (cases "top_area t a")
  obtain cs where "get_leaf_containing s a = Some \<lparr>li_leaf = p, li_parent_and_side = cps cs, li_start = lo, li_end = hi - 1\<rparr>"
    "node_read s p = Some (Leaf l)"
    by (rule gap_position [OF assms area])
  then show ?thesis by (simp add: vma_area_def read_leaf_def area)
qed

lemma vma_area_top:
  assumes "vma_ok s t" "a \<le> HIGHEST_USER_ADDRESS" "vma_area s a = Some (l, lo, last_a)"
  obtains p where "top_area t a = (p, l, lo, last_a + 1)" "a < last_a + 1" "unat (last_a + 1) = unat last_a + 1"
proof -
  obtain p l' lo' hi where area: "top_area t a = (p, l', lo', hi)" by (cases "top_area t a")
  obtain cs where "a < hi" by (rule gap_position [OF assms(1,2) area])
  moreover from this have "unat (hi - 1) = unat hi - 1" "unat a < unat hi" by (auto simp: unat_pred word_less_nat_alt)
  moreover have "l' = l" "lo' = lo" "last_a = hi - 1" using assms(3) vma_area_tree [OF assms(1,2)] area by auto
  ultimately show ?thesis using area by (intro that [of p]) simp_all
qed

lemma vma_insert_cases:
  assumes ok: "vma_ok s t" and room: "card (reserved s) \<le> 92" and al: "start AND 3 = 0" "past AND 3 = 0"
    and a: "start \<le> HIGHEST_USER_ADDRESS" and area: "top_area t start = (p, EmptyLeaf n, lo, hi)"
    and len: "start < past" "past \<le> hi" "len = past - start"
  obtains r s' t' where "vma_insert pages_used start len flags s = Some (Inr r, pages_used, s')" "vma_ok s' t'"
    "card (reserved s') \<le> card (reserved s) + 4" "gap_filled start past flags lo hi t t'" "fst (top_area t' start) = r"
proof -
  obtain cs where cs: "lo \<le> start" "start < hi"
    "get_leaf_containing s start = Some \<lparr>li_leaf = p, li_parent_and_side = cps cs, li_start = lo, li_end = hi - 1\<rparr>"
    "node_read s p = Some (Leaf (EmptyLeaf n))"
    by (rule gap_position [OF ok a area])
  let ?gap = "\<lparr>li_leaf = p, li_parent_and_side = cps cs, li_start = lo, li_end = hi - 1\<rparr>"
  have past: "checked_add start len = Some past" "checked_sub past 1 = Some (past - 1)"
    "past - 1 \<le> hi - 1" "past - 1 = hi - 1 \<longleftrightarrow> past = hi" "past - 1 < hi - 1 \<longleftrightarrow> past < hi"
    using len unat_pred [of start past] unat_pred [of start hi] cs(2) unsigned_less [of past]
    by (auto simp: checked_add_def checked_sub_def word_le_nat_alt word_less_nat_alt unat_sub)
  have run: "vma_insert pages_used start len flags s =
      (if lo = start \<and> past = hi then insert_whole_gap pages_used flags ?gap s
       else if lo < start \<and> past = hi then insert_gap_end pages_used start flags ?gap s
       else if lo = start \<and> past < hi then insert_gap_start pages_used (past - 1) flags ?gap s
       else if lo < start \<and> past < hi then insert_in_gap pages_used start (past - 1) flags ?gap s
       else None)"
    using past cs by (simp add: vma_insert_def is_empty_leaf_def guard_def)
  consider "lo = start" "past = hi" | "lo < start" "past = hi" | "lo = start" "past < hi" | "lo < start" "past < hi"
    using cs(1) len(2) by fastforce
  then show ?thesis
  proof cases
    case 1
    note area' = area [unfolded 1(1)]
    obtain s' t' where "insert_whole_gap pages_used flags ?gap s = Some (Inr p, pages_used, s')" "vma_ok s' t'"
      "reserved s' = reserved s" "gap_filled start hi flags start hi t t'" "fst (top_area t' start) = p"
      by (rule insert_whole_gap_tree [OF ok a area' cs(3), of pages_used flags])
    then show ?thesis using run 1 by (intro that [of p s' t']) simp_all
  next
    case 2
    have "card (reserved s) \<le> 94" using room by simp
    then obtain r s' t' where "insert_gap_end pages_used start flags ?gap s = Some (Inr r, pages_used, s')" "vma_ok s' t'"
      "card (reserved s') \<le> card (reserved s) + 2" "gap_filled start hi flags lo hi t t'" "fst (top_area t' start) = r"
      by (rule insert_gap_end_tree [OF ok a area _ al(1) 2(1) cs(2,3), of pages_used flags])
    then show ?thesis using run 2 by (intro that [of r s' t']) auto
  next
    case 3
    have "card (reserved s) \<le> 94" using room by simp
    note area' = area [unfolded 3(1)]
    obtain r s' t' where "insert_gap_start pages_used (past - 1) flags ?gap s = Some (Inr r, pages_used, s')" "vma_ok s' t'"
      "card (reserved s') \<le> card (reserved s) + 2" "gap_filled start past flags start hi t t'" "fst (top_area t' start) = r"
      by (rule insert_gap_start_tree [OF ok a area' \<open>card (reserved s) \<le> 94\<close> al(2) len(1) 3(2) cs(3), of pages_used flags])
    then show ?thesis using run 3 by (intro that [of r s' t']) auto
  next
    case 4
    obtain r s' t' where "insert_in_gap pages_used start (past - 1) flags ?gap s = Some (Inr r, pages_used, s')" "vma_ok s' t'"
      "card (reserved s') \<le> card (reserved s) + 4" "gap_filled start past flags lo hi t t'" "fst (top_area t' start) = r"
      by (rule insert_in_gap_tree [OF ok a area room al 4(1) len(1) 4(2) cs(3), of pages_used flags])
    then show ?thesis using run 4 by (intro that [of r s' t']) auto
  qed
qed

text \<open>A new tree: one gap over all user addresses.\<close>

lemma vma_tree_new_ok:
  assumes "block_allocate m 4080 8 = Some (Inr head, m')"
  obtains s where "vma_tree_new pages_used m = Some (Inr s, pages_used, m')" "vma_ok s (VLeaf (vt_root s) (EmptyLeaf HIGHEST_USER_ADDRESS))"
    "card (reserved s) = 1"
proof -
  let ?s0 = "\<lparr>vt_root = TempPtr, storage_head = head, temp_node = placeholder, node_pages = [head \<mapsto> new_with_prev_page None], vt_machine = m'\<rparr>"
  have h0: "head_ok ?s0" "reserved ?s0 = {}"
    using new_node_page_ok [of None] by (simp_all add: head_ok_def head_page_def reserved_def head_slots_def) (simp add: new_with_prev_page_def)
  then have "card (reserved ?s0) < 96" by simp
  then obtain p s1 where s1: "new_node pages_used (Leaf (EmptyLeaf HIGHEST_USER_ADDRESS)) ?s0 = Some (Inr p, pages_used, s1)"
    "reserved s1 = insert p (reserved ?s0)" "head_ok s1" "node_read s1 = (node_read ?s0)(p := Some (Leaf (EmptyLeaf HIGHEST_USER_ADDRESS)))"
    "vt_machine s1 = vt_machine ?s0"
    by (rule new_node_head [OF h0(1), of pages_used "Leaf (EmptyLeaf HIGHEST_USER_ADDRESS)"])
  have m: "vt_machine s1 = m'" using s1(5) by simp
  let ?s = "s1\<lparr>vt_root := p\<rparr>"
  have same: "same_storage s1 ?s" by simp
  have "vma_tree_new pages_used m = Some (Inr ?s, pages_used, m')"
    using assms s1(1) m by (simp add: vma_tree_new_def new_storage_page_def new_empty_leaf_def)
  moreover have "vma_ok ?s (VLeaf (vt_root ?s) (EmptyLeaf HIGHEST_USER_ADDRESS))"
    using s1 same_storage_head [OF same]
    by (simp add: vma_ok_def tree_inv_def tree_ok_def) (simp add: HIGHEST_USER_ADDRESS_def)
  moreover have "card (reserved ?s) = 1" using s1(2) h0(2) same_storage_head(4) [OF same] by simp
  ultimately show ?thesis by (rule that)
qed

text \<open>What an insertion does, for one call and for sequences of calls.\<close>

lemma vma_insert_effect:
  assumes "vma_inv s" "card (reserved s) \<le> 92" "start \<le> HIGHEST_USER_ADDRESS" "0 < len" "start AND 3 = 0" "(start + len) AND 3 = 0"
    and "vma_area s start = Some (EmptyLeaf n, lo, last_address)" "unat start + unat len \<le> unat last_address + 1"
  shows "\<exists>leaf s'. vma_insert pages_used start len flags s = Some (Inr leaf, pages_used, s') \<and> vma_inv s'
    \<and> map_option li_leaf (get_leaf_containing s' start) = Some leaf
    \<and> card (reserved s') \<le> card (reserved s) + 4
    \<and> (\<forall>a \<le> HIGHEST_USER_ADDRESS. vma_area s' a =
         (if lo \<le> a \<and> a < start then Some (EmptyLeaf (start - lo), lo, start - 1)
          else if start \<le> a \<and> a < start + len then Some (UsedLeaf flags, start, start + len - 1)
          else if start + len \<le> a \<and> a \<le> last_address then Some (EmptyLeaf (last_address + 1 - (start + len)), start + len, last_address)
          else vma_area s a))"
proof -
  obtain t where t: "vma_ok s t" using assms(1) by (auto simp: vma_inv_def)
  let ?past = "start + len" and ?hi = "last_address + 1"
  obtain p where p: "top_area t start = (p, EmptyLeaf n, lo, ?hi)" "start < ?hi" "unat ?hi = unat last_address + 1"
    by (rule vma_area_top [OF t assms(3,7)])
  have past: "unat ?past = unat start + unat len" using assms(8) p(3) unsigned_less [of ?hi] by (simp add: unat_word_ariths)
  have "start < ?past" "?past \<le> ?hi" "len = ?past - start"
    using assms(4,8) p(3) past by (simp_all add: word_less_nat_alt word_le_nat_alt)
  with t assms(2) assms(5,6,3) p(1) obtain leaf s' t' where s': "vma_insert pages_used start len flags s = Some (Inr leaf, pages_used, s')"
    "vma_ok s' t'" "card (reserved s') \<le> card (reserved s) + 4" "gap_filled start ?past flags lo ?hi t t'" "fst (top_area t' start) = leaf"
    by (rule vma_insert_cases [of s t start ?past p n lo ?hi len pages_used flags])
  have le: "a \<le> last_address \<longleftrightarrow> a < ?hi" for a using p(3) by (auto simp: word_less_nat_alt word_le_nat_alt)
  have lo: "lo \<le> start" by (rule gap_position [OF t assms(3) p(1)])
  have "vma_area s' a =
         (if lo \<le> a \<and> a < start then Some (EmptyLeaf (start - lo), lo, start - 1)
          else if start \<le> a \<and> a < start + len then Some (UsedLeaf flags, start, start + len - 1)
          else if start + len \<le> a \<and> a \<le> last_address then Some (EmptyLeaf (last_address + 1 - (start + len)), start + len, last_address)
          else vma_area s a)" if a: "a \<le> HIGHEST_USER_ADDRESS" for a
  proof -
    have "snd (top_area t' a) = (if lo \<le> a \<and> a < ?hi then split_gap start ?past flags lo ?hi a else snd (top_area t a))"
      using s'(4) a unfolding gap_filled_def by blast
    then show ?thesis
      using vma_area_tree [OF s'(2) a] vma_area_tree [OF t a] lo \<open>start < ?past\<close> \<open>?past \<le> ?hi\<close>
      by (auto simp: split_gap_def le split: prod.splits)
  qed
  moreover have "map_option li_leaf (get_leaf_containing s' start) = Some leaf"
  proof -
    obtain l lo' hi' where area: "top_area t' start = (leaf, l, lo', hi')" using s'(5) by (cases "top_area t' start") simp
    obtain cs where "get_leaf_containing s' start = Some \<lparr>li_leaf = leaf, li_parent_and_side = cps cs, li_start = lo', li_end = hi' - 1\<rparr>"
      by (rule gap_position [OF s'(2) assms(3) area])
    then show ?thesis by simp
  qed
  ultimately show ?thesis using s'(1-3) by (auto simp: vma_inv_def)
qed

text \<open>
  C1. \<^verbatim>\<open>VMATree::insert\<close> puts a segment into a gap. If the first and the one past the last address of the
  segment are multiples of four and it lies in the gap that the lookup finds, and the first storage page has four nodes to
  hand out, the call succeeds: a lookup in the segment finds it with its flags and its bounds, a lookup in what remains of
  the gap finds a gap with the right bounds and size, and every other lookup is as before. The order of the
  pivots, the sizes of the empty areas and the colours of the tree remain right.
\<close>

theorem vma_insert_correct:
  assumes "vma_inv s" "card (reserved s) \<le> 92" "start \<le> HIGHEST_USER_ADDRESS" "0 < len" "start AND 3 = 0" "(start + len) AND 3 = 0"
    and "vma_area s start = Some (EmptyLeaf n, lo, last_address)" "unat start + unat len \<le> unat last_address + 1"
  shows "\<exists>leaf s'. vma_insert pages_used start len flags s = Some (Inr leaf, pages_used, s') \<and> vma_inv s'
    \<and> map_option li_leaf (get_leaf_containing s' start) = Some leaf
    \<and> card (reserved s') \<le> card (reserved s) + 4
    \<and> (\<forall>a \<le> HIGHEST_USER_ADDRESS. vma_area s' a =
         (if lo \<le> a \<and> a < start then Some (EmptyLeaf (start - lo), lo, start - 1)
          else if start \<le> a \<and> a < start + len then Some (UsedLeaf flags, start, start + len - 1)
          else if start + len \<le> a \<and> a \<le> last_address then Some (EmptyLeaf (last_address + 1 - (start + len)), start + len, last_address)
          else vma_area s a))"
  by (rule vma_insert_effect [OF assms])

text \<open>A tree on the small machine: its storage page is the page at \<^verbatim>\<open>0x2000\<close>.\<close>

lemma small_tree:
  obtains s m where "vma_tree_new 0 small_machine = Some (Inr s, 0, m)" "vma_inv s" "card (reserved s) = 1"
    "\<forall>a \<le> HIGHEST_USER_ADDRESS. vma_area s a = Some (EmptyLeaf HIGHEST_USER_ADDRESS, 0, HIGHEST_USER_ADDRESS)"
proof -
  obtain m where "block_allocate small_machine 4080 8 = Some (Inr 0x2000, m)"
    by (simp add: block_allocate_def small_machine_reserves owned_page_into_raw_def guard_def PAGE_SIZE_def)
  then obtain s where s: "vma_tree_new 0 small_machine = Some (Inr s, 0, m)"
    "vma_ok s (VLeaf (vt_root s) (EmptyLeaf HIGHEST_USER_ADDRESS))" "card (reserved s) = 1"
    by (rule vma_tree_new_ok)
  show ?thesis using s vma_area_tree [OF s(2)] by (intro that [OF s(1) _ s(3)]) (auto simp: vma_inv_def)
qed

theorem vma_insert_correct_witness:
  "\<exists>s m leaf s'. vma_tree_new 0 small_machine = Some (Inr s, 0, m) \<and> vma_insert 0 0x1000 0x2000 5 s = Some (Inr leaf, 0, s')
     \<and> vma_area s' 0x800 = Some (EmptyLeaf 0x1000, 0, 0xFFF) \<and> vma_area s' 0x2800 = Some (UsedLeaf 5, 0x1000, 0x2FFF)
     \<and> vma_area s' 0x3000 = Some (EmptyLeaf 0x7FFFFFFFD000, 0x3000, 0x7FFFFFFFFFFF)"
proof -
  obtain s m where s: "vma_tree_new 0 small_machine = Some (Inr s, 0, m)" "vma_inv s" "card (reserved s) = 1"
    "\<forall>a \<le> HIGHEST_USER_ADDRESS. vma_area s a = Some (EmptyLeaf HIGHEST_USER_ADDRESS, 0, HIGHEST_USER_ADDRESS)"
    by (rule small_tree)
  have "vma_area s 0x1000 = Some (EmptyLeaf HIGHEST_USER_ADDRESS, 0, HIGHEST_USER_ADDRESS)" using s(4) by (simp add: HIGHEST_USER_ADDRESS_def)
  from vma_insert_correct [of s "0x1000" "0x2000", OF s(2) _ _ _ _ _ this, of 0 5] s(3) obtain leaf s' where
    "vma_insert 0 0x1000 0x2000 5 s = Some (Inr leaf, 0, s')"
    "\<forall>a \<le> HIGHEST_USER_ADDRESS. vma_area s' a =
         (if 0 \<le> a \<and> a < 0x1000 then Some (EmptyLeaf (0x1000 - 0), 0, 0x1000 - 1)
          else if 0x1000 \<le> a \<and> a < 0x1000 + 0x2000 then Some (UsedLeaf 5, 0x1000, 0x1000 + 0x2000 - 1)
          else if 0x1000 + 0x2000 \<le> a \<and> a \<le> HIGHEST_USER_ADDRESS
          then Some (EmptyLeaf (HIGHEST_USER_ADDRESS + 1 - (0x1000 + 0x2000)), 0x1000 + 0x2000, HIGHEST_USER_ADDRESS)
          else vma_area s a)"
    by (auto simp: HIGHEST_USER_ADDRESS_def)
  then show ?thesis using s(1)
    by (intro exI [of _ s] exI [of _ m] exI [of _ leaf] exI [of _ s']) (simp add: HIGHEST_USER_ADDRESS_def)
qed

text \<open>
  \<^verbatim>\<open>VMATree::new\<close>: with a page for its nodes the tree is created and satisfies the invariant, with one of the
  96 usable nodes taken, and every user address lies in one gap from address 0 to \<^verbatim>\<open>HIGHEST_USER_ADDRESS\<close>. The
  gap is recorded with a size that is one less than the number of its addresses.
\<close>

theorem vma_tree_new_correct:
  assumes "block_allocate m 4080 8 = Some (Inr head, m')"
  shows "\<exists>s. vma_tree_new pages_used m = Some (Inr s, pages_used, m') \<and> vma_inv s \<and> card (reserved s) = 1
    \<and> (\<forall>a \<le> HIGHEST_USER_ADDRESS. vma_area s a = Some (EmptyLeaf HIGHEST_USER_ADDRESS, 0, HIGHEST_USER_ADDRESS))"
proof -
  obtain s where s: "vma_tree_new pages_used m = Some (Inr s, pages_used, m')"
    "vma_ok s (VLeaf (vt_root s) (EmptyLeaf HIGHEST_USER_ADDRESS))" "card (reserved s) = 1"
    using assms by (rule vma_tree_new_ok)
  then show ?thesis using vma_area_tree [OF s(2)] by (auto simp: vma_inv_def)
qed

theorem vma_tree_new_correct_witness:
  "\<exists>s m. vma_tree_new 7 small_machine = Some (Inr s, 7, m) \<and> vma_area s 0x1234 = Some (EmptyLeaf HIGHEST_USER_ADDRESS, 0, HIGHEST_USER_ADDRESS)"
proof -
  obtain m where "block_allocate small_machine 4080 8 = Some (Inr 0x2000, m)"
    by (simp add: block_allocate_def small_machine_reserves owned_page_into_raw_def guard_def PAGE_SIZE_def)
  from vma_tree_new_correct [OF this, of 7] show ?thesis by (auto simp: HIGHEST_USER_ADDRESS_def)
qed

text \<open>
  C22. A lookup always ends: for every user address the loop of \<^verbatim>\<open>get_leaf_containing\<close> reaches a leaf, whose
  bounds contain the address, and every address within the bounds is in the same area. So the areas
  partition the user addresses.
\<close>

theorem get_leaf_containing_partitions:
  assumes "vma_inv s" "a \<le> HIGHEST_USER_ADDRESS"
  shows "\<exists>info leaf. get_leaf_containing s a = Some info \<and> read_leaf s (li_leaf info) = Some leaf
    \<and> li_start info \<le> a \<and> a \<le> li_end info
    \<and> (\<forall>b. li_start info \<le> b \<and> b \<le> li_end info \<longrightarrow> get_leaf_containing s b = Some info)"
proof -
  obtain t where t: "vma_ok s t" using assms(1) by (auto simp: vma_inv_def)
  obtain p l lo hi where area: "top_area t a = (p, l, lo, hi)" by (cases "top_area t a")
  obtain cs where cs: "t = plug cs (VLeaf p l)" "clo cs = lo" "chi cs = hi" "lo \<le> a" "a < hi"
    "get_leaf_containing s a = Some \<lparr>li_leaf = p, li_parent_and_side = cps cs, li_start = lo, li_end = hi - 1\<rparr>"
    "node_read s p = Some (Leaf l)" "ordered_ctx cs"
    by (rule gap_position [OF t assms(2) area])
  have "get_leaf_containing s b = get_leaf_containing s a" if b: "lo \<le> b" "b \<le> hi - 1" for b
  proof -
    have "b < hi" using b(2) cs(5) unat_pred [OF cs(5)] by (simp add: word_le_nat_alt word_less_nat_alt)
    then have "descend [] t b = (cs, VLeaf p l)" using descend_position [OF cs(8), of b "VLeaf p l"] b(1) cs(1-3) by simp
    moreover have "b \<le> HIGHEST_USER_ADDRESS" using \<open>b < hi\<close> chi_top [OF cs(8)] cs(3) by (simp add: le_highest_iff)
    ultimately show ?thesis
      using get_leaf_containing_descend [of s t b cs "VLeaf p l"] t cs(2,3,6) by (simp add: vma_ok_def tree_inv_def)
  qed
  moreover have "a \<le> hi - 1" using cs(5) unat_pred [OF cs(5)] by (simp add: word_le_nat_alt word_less_nat_alt)
  ultimately show ?thesis using cs(4,6,7) by (simp add: read_leaf_def)
qed

theorem get_leaf_containing_partitions_witness:
  "\<exists>s m info leaf. vma_tree_new 0 small_machine = Some (Inr s, 0, m) \<and> get_leaf_containing s 0x5000 = Some info
     \<and> read_leaf s (li_leaf info) = Some leaf"
proof -
  obtain s m where s: "vma_tree_new 0 small_machine = Some (Inr s, 0, m)" "vma_inv s" by (rule small_tree)
  from get_leaf_containing_partitions [OF s(2), of "0x5000"] s(1) show ?thesis by (auto simp: HIGHEST_USER_ADDRESS_def)
qed

end
