(* ===== verification/Vma_Segments.thy ===== *)
theory Vma_Segments
  imports Vma_Insert
begin

text \<open>
  Starting to map and to unmap segments, \<^verbatim>\<open>VMAAllocator::start_try_map_at\<close> and \<^verbatim>\<open>VMAAllocator::start_unmap\<close>: which requests
  are refused, and that a segment stays locked while a task works on it.
\<close>

subsection \<open>Changing the flags of a segment\<close>

lemma usize_bound: "unat (w :: usize) < 2 ^ 64"
  using unsigned_less [of w, where ?'a = nat] by simp

lemma esize_used [simp]: "esize (VLeaf p (UsedLeaf f)) = 0"
  by simp

lemma sized_plug_used: "sized (plug cs (VLeaf p (UsedLeaf f))) = sized (plug cs (VLeaf p (UsedLeaf g)))"
  by (rule sized_off_same) simp_all

lemma set_leaf_flags_tree:
  assumes ok: "vma_ok s t" and a: "a \<le> HIGHEST_USER_ADDRESS" and area: "top_area t a = (p, UsedLeaf f, lo, hi)"
  obtains s' t' where "set_leaf_flags p g s = Some s'" "vma_ok s' t'" "reserved s' = reserved s"
    "\<And>x. x \<le> HIGHEST_USER_ADDRESS \<Longrightarrow> top_area t' x = (if lo \<le> x \<and> x < hi then (p, UsedLeaf (g f), lo, hi) else top_area t x)"
proof -
  obtain cs where cs: "t = plug cs (VLeaf p (UsedLeaf f))" "clo cs = lo" "chi cs = hi" "node_read s p = Some (Leaf (UsedLeaf f))"
    "ctx_inv cs" "ordered_ctx cs" by (rule gap_position [OF ok a area])
  let ?s' = "put_node p (Leaf (UsedLeaf (g f))) s" and ?t' = "plug cs (VLeaf p (UsedLeaf (g f)))"
  have T: "tree_ok s (plug cs (VLeaf p (UsedLeaf f)))" "top_ordered t" "sized t" "rb t" "tcolor t = Black"
    using ok by (simp_all add: vma_ok_def tree_inv_def cs(1))
  note put = put_leaf_tree [OF T(1), of "UsedLeaf (g f)"]
  note same = same_storage_head [OF put(2) [unfolded changes_only_def, THEN conjunct1]]
  have "sized ?t'" using T(3) sized_plug_used [of cs p f "g f"] by (simp add: cs(1))
  moreover have "rb ?t'" using T(4) by (simp add: cs(1) rb_plug)
  moreover have "top_ordered ?t'" using T(2) by (simp add: cs(1) ordered_plug)
  moreover have "tcolor ?t' = Black" using T(5) by (cases "cs = []") (simp_all add: cs(1) tcolor_plug)
  ultimately have "vma_ok ?s' ?t'" using put(1) ok same by (simp add: vma_ok_def tree_inv_def cs(1))
  moreover have "set_leaf_flags p g s = Some ?s'"
    using cs(4) node_write_put [of s p] by (simp add: set_leaf_flags_def unwrap_flags_def read_leaf_def)
  moreover have "top_area ?t' x = (if lo \<le> x \<and> x < hi then (p, UsedLeaf (g f), lo, hi) else top_area t x)"
    if "x \<le> HIGHEST_USER_ADDRESS" for x
    using area_ordered_same [OF cs(6) that, of "VLeaf p (UsedLeaf (g f))" "VLeaf p (UsedLeaf f)"] cs(1-3) by simp
  ultimately show ?thesis using same(4) by (intro that)
qed

lemma locked_set_locked: "flags_locked (set_locked True f)" "\<not> flags_locked (set_locked False f)"
  by (simp_all add: flags_locked_def set_locked_def put_bit_def bit_set_bit_iff bit_unset_bit_iff)

subsection \<open>Starting to unmap\<close>

text \<open>
  C16. \<^verbatim>\<open>VMAAllocator::start_unmap\<close> refuses an address in a gap and a locked segment, and then changes nothing.
  Otherwise the task covers the whole segment, the segment is locked, every other area is as before, and
  a second call for an address of the segment is refused.
\<close>

theorem start_unmap_correct:
  assumes "vma_inv (va_tree a)" "x \<le> HIGHEST_USER_ADDRESS" "vma_area (va_tree a) x = Some (leaf, lo, last_address)"
  shows "case leaf of
      EmptyLeaf _ \<Rightarrow> start_unmap a x = Some (Inl SegmentAlreadyUnmapped, a)
    | UsedLeaf flags \<Rightarrow>
        if flags_locked flags then start_unmap a x = Some (Inl SegmentLocked, a)
        else \<exists>a'. start_unmap a x = Some (Inr \<lparr>ut_start_address = lo,
                 ut_unmap_mem_task = unmap_mem_task_new lo ((last_address + 1 - lo) div PAGE_SIZE)\<rparr>, a')
           \<and> vma_inv (va_tree a')
           \<and> (\<forall>y \<le> HIGHEST_USER_ADDRESS. vma_area (va_tree a') y =
                (if lo \<le> y \<and> y \<le> last_address then Some (UsedLeaf (set_locked True flags), lo, last_address) else vma_area (va_tree a) y))
           \<and> (\<forall>y. lo \<le> y \<and> y \<le> last_address \<longrightarrow> start_unmap a' y = Some (Inl SegmentLocked, a'))"
proof -
  obtain t where t: "vma_ok (va_tree a) t" using assms(1) by (auto simp: vma_inv_def)
  obtain p where p: "top_area t x = (p, leaf, lo, last_address + 1)" "unat (last_address + 1) = unat last_address + 1"
    by (rule vma_area_top [OF t assms(2,3)])
  obtain cs where cs: "chi cs = last_address + 1" "lo \<le> x" "x < last_address + 1"
    "get_leaf_containing (va_tree a) x = Some \<lparr>li_leaf = p, li_parent_and_side = cps cs, li_start = lo, li_end = last_address + 1 - 1\<rparr>"
    "node_read (va_tree a) p = Some (Leaf leaf)" "ordered_ctx cs"
    by (rule gap_position [OF t assms(2) p(1)])
  have le: "y \<le> last_address \<longleftrightarrow> y < last_address + 1" for y using p(2) by (auto simp: word_less_nat_alt word_le_nat_alt)
  show ?thesis
  proof (cases leaf)
    case (EmptyLeaf n)
    then show ?thesis using cs(4,5) by (simp add: start_unmap_def read_leaf_def)
  next
    case (UsedLeaf f)
    note area = p(1) [unfolded UsedLeaf]
    obtain s' t' where s': "set_leaf_flags p (set_locked True) (va_tree a) = Some s'" "vma_ok s' t'"
      "\<And>y. y \<le> HIGHEST_USER_ADDRESS \<Longrightarrow> top_area t' y =
         (if lo \<le> y \<and> y < last_address + 1 then (p, UsedLeaf (set_locked True f), lo, last_address + 1) else top_area t y)"
      by (rule set_leaf_flags_tree [OF t assms(2) area, of "set_locked True"]) (rule that)
    let ?a' = "a\<lparr>va_tree := s'\<rparr>"
    have "checked_add last_address 1 = Some (last_address + 1)" using p(2) usize_bound [of "last_address + 1"]
      by (simp add: checked_add_def)
    moreover have "lo \<le> last_address + 1" using cs(2,3) by (simp add: less_imp_le order.trans [OF cs(2)])
    ultimately have "\<not> flags_locked f \<Longrightarrow> start_unmap a x = Some (Inr \<lparr>ut_start_address = lo,
                 ut_unmap_mem_task = unmap_mem_task_new lo ((last_address + 1 - lo) div PAGE_SIZE)\<rparr>, ?a')"
      using cs(4,5) s'(1) UsedLeaf by (simp add: start_unmap_def read_leaf_def checked_sub_def)
    moreover have "flags_locked f \<Longrightarrow> start_unmap a x = Some (Inl SegmentLocked, a)"
      using cs(4,5) UsedLeaf by (simp add: start_unmap_def read_leaf_def)
    moreover have "vma_area s' y =
        (if lo \<le> y \<and> y \<le> last_address then Some (UsedLeaf (set_locked True f), lo, last_address) else vma_area (va_tree a) y)"
      if y: "y \<le> HIGHEST_USER_ADDRESS" for y
      using vma_area_tree [OF s'(2) y] vma_area_tree [OF t y] s'(3) [OF y] by (simp add: le)
    moreover have "start_unmap ?a' y = Some (Inl SegmentLocked, ?a')" if y: "lo \<le> y" "y \<le> last_address" for y
    proof -
      have yh: "y \<le> HIGHEST_USER_ADDRESS"
        unfolding le_highest_iff using y(2) chi_top [OF cs(6)] cs(1) le by (metis less_le_trans)
      then have "top_area t' y = (p, UsedLeaf (set_locked True f), lo, last_address + 1)" using s'(3) y by (simp add: le)
      then obtain cs' where "get_leaf_containing s' y =
          Some \<lparr>li_leaf = p, li_parent_and_side = cps cs', li_start = lo, li_end = last_address + 1 - 1\<rparr>"
        "node_read s' p = Some (Leaf (UsedLeaf (set_locked True f)))" by (rule gap_position [OF s'(2) yh])
      then show ?thesis by (simp add: start_unmap_def read_leaf_def locked_set_locked)
    qed
    moreover have "vma_inv s'" using s'(2) by (auto simp: vma_inv_def)
    ultimately show ?thesis using UsedLeaf by auto
  qed
qed

theorem start_unmap_correct_witness:
  "\<exists>s m. vma_tree_new 0 small_machine = Some (Inr s, 0, m)
     \<and> start_unmap \<lparr>va_page_mapper = 0x1000, va_tree = s\<rparr> 0x4000 =
         Some (Inl SegmentAlreadyUnmapped, \<lparr>va_page_mapper = 0x1000, va_tree = s\<rparr>)"
proof -
  obtain s m where s: "vma_tree_new 0 small_machine = Some (Inr s, 0, m)" "vma_inv s"
    "\<forall>a \<le> HIGHEST_USER_ADDRESS. vma_area s a = Some (EmptyLeaf HIGHEST_USER_ADDRESS, 0, HIGHEST_USER_ADDRESS)"
    by (rule small_tree)
  have "vma_area s 0x4000 = Some (EmptyLeaf HIGHEST_USER_ADDRESS, 0, HIGHEST_USER_ADDRESS)"
    using s(3) by (simp add: HIGHEST_USER_ADDRESS_def)
  from start_unmap_correct [of "\<lparr>va_page_mapper = 0x1000, va_tree = s\<rparr>" "0x4000", simplified, OF s(2) _ this] s(1)
  show ?thesis by (auto simp: HIGHEST_USER_ADDRESS_def)
qed

subsection \<open>Starting to map\<close>

lemma unat_and_3: "unat ((w :: usize) AND 3) = unat w mod 4"
proof -
  have "w AND 3 = w AND mask 2" by (simp add: mask_eq_exp_minus_1)
  also have "\<dots> = take_bit 2 w" by (simp add: take_bit_eq_mask)
  finally show ?thesis by (simp add: take_bit_eq_mod unat_mod)
qed

lemma page_aligned: "(w :: usize) mod PAGE_SIZE = 0 \<longleftrightarrow> 4096 dvd unat w"
proof -
  have "w mod PAGE_SIZE = 0 \<longleftrightarrow> unat (w mod PAGE_SIZE) = 0" by (simp only: unat_eq_0)
  also have "\<dots> \<longleftrightarrow> 4096 dvd unat w" by (simp add: PAGE_SIZE_def unat_mod dvd_eq_mod_eq_0)
  finally show ?thesis .
qed

lemma aligned_and_3: "4096 dvd unat (w :: usize) \<Longrightarrow> w AND 3 = 0"
proof -
  assume "4096 dvd unat w"
  then have "unat w mod 4 = 0" by (auto simp: dvd_def)
  then have "unat (w AND 3) = 0" by (simp add: unat_and_3)
  then show ?thesis by (simp only: unat_eq_0)
qed

text \<open>
  C3. \<^verbatim>\<open>VMAAllocator::start_try_map_at\<close> for a page-aligned segment of user addresses, while at most 92 nodes of the first storage page are in use: it is refused, without any
  change, exactly when its first address lies in a segment or it does not fit into the gap around it. Otherwise
  the segment is in the tree with its flags and the lock, what remains of the gap surrounds it, every other
  area is as before, and the task covers its pages.
\<close>

theorem start_try_map_at_correct:
  fixes seg :: segment and a :: vma_allocator
  defines "start \<equiv> seg_start seg" and "past \<equiv> seg_start seg + seg_len seg"
  assumes "vma_inv (va_tree a)" "card (reserved (va_tree a)) \<le> 92"
    and "start mod PAGE_SIZE = 0" "seg_len seg mod PAGE_SIZE = 0" "0 < seg_len seg"
    and "unat start + unat (seg_len seg) \<le> unat HIGHEST_USER_ADDRESS + 1"
    and "vma_area (va_tree a) start = Some (leaf, lo, last_address)"
  shows "case leaf of
      UsedLeaf _ \<Rightarrow> start_try_map_at pages_used seg a = Some (Inl SegmentAlreadyExists, pages_used, a)
    | EmptyLeaf _ \<Rightarrow>
        if last_address < past - 1 then start_try_map_at pages_used seg a = Some (Inl SegmentAlreadyExists, pages_used, a)
        else \<exists>a'. start_try_map_at pages_used seg a = Some (Inr \<lparr>mt_map_mem_task = map_mem_task_new start
                 (seg_len seg div PAGE_SIZE) (seg_flags seg)\<rparr>, pages_used, a')
           \<and> vma_inv (va_tree a')
           \<and> (\<forall>x \<le> HIGHEST_USER_ADDRESS. vma_area (va_tree a') x =
                (if lo \<le> x \<and> x < start then Some (EmptyLeaf (start - lo), lo, start - 1)
                 else if start \<le> x \<and> x < past then Some (UsedLeaf (set_locked True (node_flags_from (seg_flags seg))), start, past - 1)
                 else if past \<le> x \<and> x \<le> last_address then Some (EmptyLeaf (last_address + 1 - past), past, last_address)
                 else vma_area (va_tree a) x))"
proof -
  let ?s = "va_tree a"
  obtain t where t: "vma_ok ?s t" using assms(3) by (auto simp: vma_inv_def)
  have len: "unat start + unat (seg_len seg) \<le> 0x800000000000" "0 < unat (seg_len seg)"
    using assms(7,8) by (simp_all add: HIGHEST_USER_ADDRESS_def word_less_nat_alt)
  then have past: "unat past = unat start + unat (seg_len seg)" unfolding past_def start_def by (simp add: unat_word_ariths)
  have ends: "start \<le> HIGHEST_USER_ADDRESS" "start < past" "past - 1 \<le> HIGHEST_USER_ADDRESS" "checked_add start (seg_len seg) = Some past"
    "checked_sub past 1 = Some (past - 1)"
    using len past unat_pred [of start past]
    by (auto simp: word_le_nat_alt word_less_nat_alt HIGHEST_USER_ADDRESS_def checked_add_def checked_sub_def past_def start_def)
  obtain p where p: "top_area t start = (p, leaf, lo, last_address + 1)" "start < last_address + 1" "unat (last_address + 1) = unat last_address + 1"
    by (rule vma_area_top [OF t ends(1) assms(9)])
  obtain cs where cs: "lo \<le> start"
    "get_leaf_containing ?s start = Some \<lparr>li_leaf = p, li_parent_and_side = cps cs, li_start = lo, li_end = last_address + 1 - 1\<rparr>"
    "node_read ?s p = Some (Leaf leaf)"
    by (rule gap_position [OF t ends(1) p(1)])
  have run: "start_try_map_at pages_used seg a =
      (if last_address < past - 1 then Some (Inl SegmentAlreadyExists, pages_used, a)
       else case leaf of
         EmptyLeaf _ \<Rightarrow>
           do { (r, pages_used, tree) \<leftarrow> vma_insert pages_used start (seg_len seg) (node_flags_from (seg_flags seg)) ?s;
                let a = a\<lparr>va_tree := tree\<rparr>;
                case r of
                  Inl err \<Rightarrow> Some (Inl err, pages_used, a)
                | Inr new_leaf \<Rightarrow>
                    do { tree \<leftarrow> set_leaf_flags new_leaf (set_locked True) tree;
                         Some (Inr \<lparr>mt_map_mem_task = map_mem_task_new start (seg_len seg div PAGE_SIZE) (seg_flags seg)\<rparr>,
                               pages_used, a\<lparr>va_tree := tree\<rparr>) } }
       | UsedLeaf _ \<Rightarrow> Some (Inl SegmentAlreadyExists, pages_used, a))"
    using assms(5,6) ends(3-5) cs(2,3) unfolding start_def by (simp add: start_try_map_at_def guard_def read_leaf_def)
  show ?thesis
  proof (cases leaf)
    case (UsedLeaf f)
    then show ?thesis using run by simp
  next
    case (EmptyLeaf n)
    show ?thesis
    proof (cases "last_address < past - 1")
      case True
      then show ?thesis using run EmptyLeaf by simp
    next
      case False
      let ?f = "node_flags_from (seg_flags seg)" and ?hi = "last_address + 1"
      have fit: "past \<le> ?hi" using False p(3) unat_pred [OF ends(2)] ends(2) by (auto simp: word_le_nat_alt word_less_nat_alt not_less)
      have al: "start AND 3 = 0" "past AND 3 = 0"
        using assms(5,6) past by (auto simp: page_aligned intro!: aligned_and_3)
      have "seg_len seg = past - start" by (simp add: past_def start_def)
      with t assms(4) al ends(1) p(1) [unfolded EmptyLeaf] ends(2) fit obtain new_leaf s1 t1 where
        s1: "vma_insert pages_used start (seg_len seg) ?f ?s = Some (Inr new_leaf, pages_used, s1)" "vma_ok s1 t1"
          "gap_filled start past ?f lo ?hi t t1" "fst (top_area t1 start) = new_leaf"
        by (rule vma_insert_cases [of ?s t start past p n lo ?hi "seg_len seg" pages_used ?f])
      have area1: "top_area t1 start = (new_leaf, UsedLeaf ?f, start, past)"
        using s1(3,4) ends(1,2) cs(1) p(2) by (auto simp: gap_filled_def split_gap_def prod_eq_iff)
      obtain s' t' where s': "set_leaf_flags new_leaf (set_locked True) s1 = Some s'" "vma_ok s' t'"
        "\<And>x. x \<le> HIGHEST_USER_ADDRESS \<Longrightarrow> top_area t' x =
           (if start \<le> x \<and> x < past then (new_leaf, UsedLeaf (set_locked True ?f), start, past) else top_area t1 x)"
        by (rule set_leaf_flags_tree [OF s1(2) ends(1) area1, of "set_locked True"]) (rule that)
      have le: "x \<le> last_address \<longleftrightarrow> x < ?hi" for x using p(3) by (auto simp: word_less_nat_alt word_le_nat_alt)
      have "vma_area s' x =
                (if lo \<le> x \<and> x < start then Some (EmptyLeaf (start - lo), lo, start - 1)
                 else if start \<le> x \<and> x < past then Some (UsedLeaf (set_locked True ?f), start, past - 1)
                 else if past \<le> x \<and> x \<le> last_address then Some (EmptyLeaf (last_address + 1 - past), past, last_address)
                 else vma_area ?s x)" if x: "x \<le> HIGHEST_USER_ADDRESS" for x
      proof -
        have "snd (top_area t1 x) = (if lo \<le> x \<and> x < ?hi then split_gap start past ?f lo ?hi x else snd (top_area t x))"
          using s1(3) x unfolding gap_filled_def by blast
        then show ?thesis
          using vma_area_tree [OF s'(2) x] s'(3) [OF x] vma_area_tree [OF t x] cs(1) ends(2) fit
          by (auto simp: split_gap_def le split: prod.splits if_splits)
      qed
      moreover have "vma_inv s'" using s'(2) by (auto simp: vma_inv_def)
      ultimately show ?thesis using run s1(1) s'(1) EmptyLeaf False by simp
    qed
  qed
qed

theorem start_try_map_at_correct_witness:
  "\<exists>s m task a'. vma_tree_new 0 small_machine = Some (Inr s, 0, m)
     \<and> start_try_map_at 0 \<lparr>seg_start = 0x400000, seg_len = 0x3000, seg_flags = \<lparr>sf_read = True, sf_write = False, sf_execute = True\<rparr>\<rparr>
          \<lparr>va_page_mapper = 0x1000, va_tree = s\<rparr> = Some (Inr task, 0, a')
     \<and> vma_area (va_tree a') 0x402000 = Some (UsedLeaf 0x80000005, 0x400000, 0x402FFF)"
proof -
  obtain s m where s: "vma_tree_new 0 small_machine = Some (Inr s, 0, m)" "vma_inv s" "card (reserved s) = 1"
    "\<forall>a \<le> HIGHEST_USER_ADDRESS. vma_area s a = Some (EmptyLeaf HIGHEST_USER_ADDRESS, 0, HIGHEST_USER_ADDRESS)"
    by (rule small_tree)
  let ?seg = "\<lparr>seg_start = 0x400000, seg_len = 0x3000, seg_flags = \<lparr>sf_read = True, sf_write = False, sf_execute = True\<rparr>\<rparr>"
  have "vma_area s 0x400000 = Some (EmptyLeaf HIGHEST_USER_ADDRESS, 0, HIGHEST_USER_ADDRESS)"
    using s(4) by (simp add: HIGHEST_USER_ADDRESS_def)
  moreover have "set_locked True (node_flags_from (seg_flags ?seg)) = 0x80000005"
    by (simp add: node_flags_from_def) code_simp
  ultimately show ?thesis
    using start_try_map_at_correct [of "\<lparr>va_page_mapper = 0x1000, va_tree = s\<rparr>" ?seg
        "EmptyLeaf HIGHEST_USER_ADDRESS" 0 HIGHEST_USER_ADDRESS 0] s(1-3)
    by (auto simp: HIGHEST_USER_ADDRESS_def PAGE_SIZE_def)
qed

end
