(* ===== verification/Vma_Build.thy ===== *)
theory Vma_Build
  imports Vma_Insert
begin

text \<open>
  A virtual memory area tree built by a sequence of insertions into a new tree: it records exactly the segments that
  were inserted, the gaps are what lies between them, and the tree is balanced.
\<close>

subsection \<open>The depth of the tree\<close>

fun depth :: "vtree \<Rightarrow> nat" where
  "depth (VLeaf _ _) = 0"
| "depth (VBranch _ _ _ l r) = Suc (max (depth l) (depth r))"

fun leaves :: "vtree \<Rightarrow> nat" where
  "leaves (VLeaf _ _) = 1"
| "leaves (VBranch _ _ _ l r) = leaves l + leaves r"

lemma length_ptrs: "Suc (length (ptrs t)) = 2 * leaves t"
  by (induction t) auto

lemma rb_depth: "rb t \<Longrightarrow> depth t \<le> 2 * bh t + (if tcolor t = Red then 1 else 0)"
proof (induction t)
  case (VBranch p pk mx l r)
  then show ?case by (cases "color_of pk"; cases "tcolor l"; cases "tcolor r") auto
qed simp

lemma rb_leaves: "rb t \<Longrightarrow> 2 ^ bh t \<le> leaves t"
  by (induction t) auto

text \<open>The lookup from a node reaches a leaf after at most \<open>n\<close> branches.\<close>

fun lookup_within :: "nat \<Rightarrow> vma_tree \<Rightarrow> usize \<Rightarrow> node_ptr \<Rightarrow> bool" where
  "lookup_within n s addr p =
     (case node_read s p of
        None \<Rightarrow> False
      | Some (Leaf _) \<Rightarrow> True
      | Some (Branch branch) \<Rightarrow>
          (case n of
             0 \<Rightarrow> False
           | Suc m \<Rightarrow> lookup_within m s addr (if addr < branch_pivot branch then bn_left branch else bn_right branch)))"

declare lookup_within.simps [simp del]

lemma lookup_within_depth: "rep s par t \<Longrightarrow> depth t \<le> n \<Longrightarrow> lookup_within n s addr (tptr t)"
proof (induction t arbitrary: par n)
  case (VBranch p pk mx l r)
  then obtain m where "n = Suc m" "depth l \<le> m" "depth r \<le> m" by (cases n) auto
  with VBranch show ?case by (auto simp: lookup_within.simps [of "Suc m"])
qed (simp add: lookup_within.simps)

text \<open>A red-black tree in the 96 slots that the storage page hands out.\<close>

lemma vma_inv_depth:
  assumes "vma_inv s"
  shows "lookup_within 10 s addr (vt_root s)"
proof -
  obtain t where t: "vma_ok s t" using assms by (auto simp: vma_inv_def)
  then have T: "vt_root s = tptr t" "rep s None t" "rb t" "tcolor t = Black" "set (ptrs t) \<subseteq> reserved s" "distinct (ptrs t)"
    by (simp_all add: vma_ok_def tree_inv_def tree_ok_def)
  have "length (ptrs t) = card (set (ptrs t))" using distinct_card [OF T(6)] by simp
  also have "\<dots> \<le> card (reserved s)" using T(5) by (intro card_mono) simp_all
  also have "\<dots> \<le> card {..<96 :: nat}" unfolding card_reserved using head_slots_bound by (intro card_mono) simp_all
  finally have "2 ^ bh t \<le> (48 :: nat)" using rb_leaves [OF T(3)] length_ptrs [of t] by simp
  then have "bh t < 6" using power_increasing [of 6 "bh t" "2 :: nat"] by (cases "bh t < 6") simp_all
  then have "depth t \<le> 10" using rb_depth [OF T(3)] T(4) by simp
  with T(1,2) show ?thesis by (simp add: lookup_within_depth)
qed

subsection \<open>Gaps between segments\<close>

text \<open>A gap is a maximal interval of addresses up to \<open>last_a\<close> that are not covered.\<close>

definition gap_of :: "nat set \<Rightarrow> nat \<Rightarrow> nat \<Rightarrow> nat \<Rightarrow> bool" where
  "gap_of C last_a lo hi \<longleftrightarrow> lo \<le> hi \<and> hi \<le> last_a \<and> (\<forall>x. lo \<le> x \<and> x \<le> hi \<longrightarrow> x \<notin> C) \<and> (lo = 0 \<or> lo - 1 \<in> C) \<and> (hi = last_a \<or> Suc hi \<in> C)"

lemma gap_of_unique:
  assumes a: "gap_of C last_a lo hi" and b: "gap_of C last_a lo' hi'" and x: "x \<in> {lo..hi}" "x \<in> {lo'..hi'}"
  shows "lo' = lo \<and> hi' = hi"
proof -
  have free: "y \<notin> C" if "y \<in> {lo..hi} \<or> y \<in> {lo'..hi'}" for y using a b that by (auto simp: gap_of_def)
  have "\<not> lo < lo'" using free [of "lo' - 1"] b x by (cases lo') (auto simp: gap_of_def)
  moreover have "\<not> lo' < lo" using free [of "lo - 1"] a x by (cases lo) (auto simp: gap_of_def)
  moreover have "\<not> hi < hi'" using free [of "Suc hi"] a b x by (auto simp: gap_of_def)
  moreover have "\<not> hi' < hi" using free [of "Suc hi'"] a b x by (auto simp: gap_of_def)
  ultimately show ?thesis by simp
qed

text \<open>What becomes of the gaps when an interval within one of them is covered.\<close>

lemma gap_of_below:
  "gap_of C last_a lo hi \<Longrightarrow> lo < st \<Longrightarrow> st < past \<Longrightarrow> past \<le> Suc hi \<Longrightarrow> gap_of (C \<union> {st..<past}) last_a lo (st - 1)"
  by (auto simp: gap_of_def)

lemma gap_of_above:
  "gap_of C last_a lo hi \<Longrightarrow> lo \<le> st \<Longrightarrow> st < past \<Longrightarrow> past \<le> hi \<Longrightarrow> gap_of (C \<union> {st..<past}) last_a past hi"
  by (auto simp: gap_of_def)

lemma gap_of_elsewhere:
  assumes a: "gap_of C last_a lo hi" "lo \<le> st" "past \<le> Suc hi" and b: "gap_of C last_a lo' hi'"
    and x: "x \<in> {lo'..hi'}" "x \<notin> {lo..hi}"
  shows "gap_of (C \<union> {st..<past}) last_a lo' hi'"
proof -
  have "{lo'..hi'} \<inter> {lo..hi} = {}"
  proof (rule ccontr)
    assume "{lo'..hi'} \<inter> {lo..hi} \<noteq> {}"
    then obtain y where "y \<in> {lo'..hi'}" "y \<in> {lo..hi}" by blast
    from gap_of_unique [OF a(1) b this(2,1)] x show False by simp
  qed
  moreover have "{st..<past} \<subseteq> {lo..hi}" using a(2,3) by auto
  ultimately have "{lo'..hi'} \<inter> {st..<past} = {}" by blast
  with b show ?thesis by (auto simp: gap_of_def)
qed

subsection \<open>Sequences of insertions\<close>

type_synonym segment = "usize \<times> usize \<times> node_flags"

fun insert_segments :: "usize \<Rightarrow> segment list \<Rightarrow> vma_tree \<Rightarrow> vma_tree option" where
  "insert_segments pages_used [] s = Some s"
| "insert_segments pages_used ((start, len, flags) # segs) s =
     do { (r, pages_used, s) \<leftarrow> vma_insert pages_used start len flags s;
          case r of Inl _ \<Rightarrow> None | Inr _ \<Rightarrow> insert_segments pages_used segs s }"

fun addresses_of :: "segment \<Rightarrow> nat set" where
  "addresses_of (start, len, flags) = {unat start..<unat start + unat len}"

definition covered :: "segment list \<Rightarrow> nat set" where
  "covered segs = (\<Union>g \<in> set segs. addresses_of g)"

fun segment_ok :: "segment \<Rightarrow> bool" where
  "segment_ok (start, len, flags) \<longleftrightarrow>
     0 < len \<and> start AND 3 = 0 \<and> (start + len) AND 3 = 0 \<and> unat start + unat len \<le> unat HIGHEST_USER_ADDRESS + 1"

fun disjoint_segments :: "segment list \<Rightarrow> bool" where
  "disjoint_segments [] \<longleftrightarrow> True"
| "disjoint_segments (g # segs) \<longleftrightarrow> addresses_of g \<inter> covered segs = {} \<and> disjoint_segments segs"

text \<open>The areas of a tree that records a list of segments.\<close>

definition records :: "segment list \<Rightarrow> vma_tree \<Rightarrow> bool" where
  "records segs s \<longleftrightarrow>
     (\<forall>start len flags. (start, len, flags) \<in> set segs \<longrightarrow>
        (\<forall>a. start \<le> a \<and> unat a < unat start + unat len \<longrightarrow> vma_area s a = Some (UsedLeaf flags, start, start + len - 1)))
     \<and> (\<forall>a \<le> HIGHEST_USER_ADDRESS. unat a \<notin> covered segs \<longrightarrow>
          (\<exists>n lo hi. vma_area s a = Some (EmptyLeaf n, lo, hi) \<and> lo \<le> a \<and> a \<le> hi
             \<and> gap_of (covered segs) (unat HIGHEST_USER_ADDRESS) (unat lo) (unat hi) \<and> (segs \<noteq> [] \<longrightarrow> n = hi + 1 - lo)))"

lemma covered_Cons: "covered (g # segs) = covered segs \<union> addresses_of g"
  by (auto simp: covered_def)

lemma vma_area_user: "vma_area s a = Some r \<Longrightarrow> a \<le> HIGHEST_USER_ADDRESS"
  by (auto simp: vma_area_def get_leaf_containing_def guard_def bind_eq_Some_conv split: if_splits)

text \<open>The gap at the start of a further segment holds all of it.\<close>

lemma records_gap:
  assumes rec: "records segs s" and ok: "segment_ok (start, len, flags)"
    and apart: "addresses_of (start, len, flags) \<inter> covered segs = {}"
  obtains n lo hi where "start \<le> HIGHEST_USER_ADDRESS" "vma_area s start = Some (EmptyLeaf n, lo, hi)" "lo \<le> start"
    "gap_of (covered segs) (unat HIGHEST_USER_ADDRESS) (unat lo) (unat hi)" "unat start + unat len \<le> unat hi + 1"
proof -
  have pos: "0 < unat len" using ok by (simp add: unat_gt_0 word_neq_0_conv)
  then have top: "start \<le> HIGHEST_USER_ADDRESS" using ok by (simp add: word_le_nat_alt)
  have "unat start \<in> addresses_of (start, len, flags)" using pos by simp
  then have "unat start \<notin> covered segs" using apart by blast
  with rec top obtain n lo hi where gap: "vma_area s start = Some (EmptyLeaf n, lo, hi)" "lo \<le> start" "start \<le> hi"
    "gap_of (covered segs) (unat HIGHEST_USER_ADDRESS) (unat lo) (unat hi)" by (auto simp: records_def)
  have "unat start + unat len \<le> unat hi + 1"
  proof (rule ccontr)
    assume c: "\<not> ?thesis"
    then have "Suc (unat hi) \<in> covered segs" using gap(4) ok by (auto simp: gap_of_def)
    moreover have "Suc (unat hi) \<in> addresses_of (start, len, flags)" using c gap(3) by (simp add: word_le_nat_alt)
    ultimately show False using apart by blast
  qed
  with top gap show thesis by (intro that)
qed

lemma insert_records:
  assumes inv: "vma_inv s" and room: "card (reserved s) \<le> 92" and rec: "records segs s"
    and ok: "segment_ok (start, len, flags)" and apart: "addresses_of (start, len, flags) \<inter> covered segs = {}"
  obtains leaf s' where "vma_insert pages_used start len flags s = Some (Inr leaf, pages_used, s')" "vma_inv s'"
    "card (reserved s') \<le> card (reserved s) + 4" "records ((start, len, flags) # segs) s'"
proof -
  let ?g = "(start, len, flags)" and ?top = "unat HIGHEST_USER_ADDRESS" and ?past = "start + len"
  obtain n lo hi where top: "start \<le> HIGHEST_USER_ADDRESS" and gap: "vma_area s start = Some (EmptyLeaf n, lo, hi)" "lo \<le> start"
    "gap_of (covered segs) ?top (unat lo) (unat hi)" "unat start + unat len \<le> unat hi + 1"
    by (rule records_gap [OF rec ok apart])
  have pos: "0 < unat len" using ok by (simp add: unat_gt_0 word_neq_0_conv)
  have hi: "unat hi \<le> ?top" using gap(3) by (simp add: gap_of_def)
  have past: "unat ?past = unat start + unat len"
    using ok by (simp add: unat_word_ariths HIGHEST_USER_ADDRESS_def)
  have le: "a < ?past \<longleftrightarrow> unat a < unat start + unat len" "?past \<le> a \<longleftrightarrow> unat start + unat len \<le> unat a" for a
    by (simp_all add: word_le_nat_alt word_less_nat_alt past)
  obtain leaf s' where s': "vma_insert pages_used start len flags s = Some (Inr leaf, pages_used, s')" "vma_inv s'"
    "card (reserved s') \<le> card (reserved s) + 4"
    and area: "\<forall>a \<le> HIGHEST_USER_ADDRESS. vma_area s' a =
         (if lo \<le> a \<and> a < start then Some (EmptyLeaf (start - lo), lo, start - 1)
          else if start \<le> a \<and> a < ?past then Some (UsedLeaf flags, start, ?past - 1)
          else if ?past \<le> a \<and> a \<le> hi then Some (EmptyLeaf (hi + 1 - ?past), ?past, hi)
          else vma_area s a)"
    using vma_insert_effect [OF inv room top _ _ _ gap(1,4), of pages_used flags] ok by auto
  have elsewhere: "vma_area s' a = vma_area s a" if "a \<le> HIGHEST_USER_ADDRESS" "\<not> (lo \<le> a \<and> a \<le> hi)" for a
  proof -
    have "\<not> (lo \<le> a \<and> a < start)" "\<not> (start \<le> a \<and> a < ?past)" "\<not> (?past \<le> a \<and> a \<le> hi)"
      using that(2) gap(2,4) past unfolding word_le_nat_alt word_less_nat_alt by linarith+
    then show ?thesis using area [rule_format, OF that(1)] by presburger
  qed
  have used: "vma_area s' a = Some (UsedLeaf fl, st, st + ln - 1)"
    if g: "(st, ln, fl) \<in> set (?g # segs)" and a: "st \<le> a" "unat a < unat st + unat ln" for st ln fl a
  proof (cases "(st, ln, fl) = ?g")
    case True
    moreover have "a \<le> HIGHEST_USER_ADDRESS" using True a ok by (simp add: word_le_nat_alt)
    ultimately show ?thesis using a area by (auto simp: le)
  next
    case False
    then have c: "unat a \<in> covered segs" using g a by (force simp: covered_def word_le_nat_alt)
    then have "\<not> (lo \<le> a \<and> a \<le> hi)" using gap(3) by (auto simp: gap_of_def word_le_nat_alt)
    moreover have old: "vma_area s a = Some (UsedLeaf fl, st, st + ln - 1)" using rec g False a by (auto simp: records_def)
    moreover from old have "a \<le> HIGHEST_USER_ADDRESS" by (rule vma_area_user)
    ultimately show ?thesis using elsewhere [of a] by simp
  qed
  have free: "\<exists>n' lo' hi'. vma_area s' a = Some (EmptyLeaf n', lo', hi') \<and> lo' \<le> a \<and> a \<le> hi'
      \<and> gap_of (covered (?g # segs)) ?top (unat lo') (unat hi') \<and> n' = hi' + 1 - lo'"
    if a: "a \<le> HIGHEST_USER_ADDRESS" "unat a \<notin> covered (?g # segs)" for a
  proof -
    have out: "\<not> (start \<le> a \<and> a < ?past)" using a(2) by (auto simp: covered_Cons le word_le_nat_alt)
    consider "lo \<le> a" "a < start" | "?past \<le> a" "a \<le> hi" | "\<not> (lo \<le> a \<and> a \<le> hi)"
      using out by (meson not_le)
    then show ?thesis
    proof cases
      case 1
      then have "unat (start - 1) = unat start - 1" "a \<le> start - 1"
        using unat_pred [OF 1(2)] by (simp_all add: word_le_nat_alt word_less_nat_alt)
      moreover have "gap_of (covered (?g # segs)) ?top (unat lo) (unat start - 1)"
        using gap_of_below [OF gap(3), of "unat start" "unat start + unat len"] 1 pos gap(4)
        by (simp add: covered_Cons word_less_nat_alt word_le_nat_alt)
      ultimately show ?thesis using area a(1) 1 by simp
    next
      case 2
      then have "gap_of (covered (?g # segs)) ?top (unat ?past) (unat hi)"
        using gap_of_above [OF gap(3), of "unat start" "unat start + unat len"] pos gap(2)
        by (simp add: covered_Cons le past word_le_nat_alt)
      moreover have "\<not> a < start" using 2 by (simp add: le word_less_nat_alt)
      ultimately show ?thesis using area a(1) 2 out by simp
    next
      case 3
      obtain n' lo' hi' where old: "vma_area s a = Some (EmptyLeaf n', lo', hi')" "lo' \<le> a" "a \<le> hi'"
        "gap_of (covered segs) ?top (unat lo') (unat hi')" "segs \<noteq> [] \<longrightarrow> n' = hi' + 1 - lo'"
        using rec a by (auto simp: records_def covered_Cons)
      have "segs \<noteq> []" using 3 gap(3) a(1) by (auto simp: covered_def gap_of_def word_le_nat_alt)
      moreover have "gap_of (covered (?g # segs)) ?top (unat lo') (unat hi')"
        using gap_of_elsewhere [OF gap(3) _ _ old(4), of "unat start" "unat start + unat len" "unat a"] old(2,3) 3 gap(2,4)
        by (simp add: covered_Cons word_le_nat_alt)
      moreover have "vma_area s' a = vma_area s a" using elsewhere a(1) 3 by blast
      ultimately show ?thesis using old by auto
    qed
  qed
  from s' show thesis by (rule that) (use used free in \<open>auto simp: records_def\<close>)
qed

lemma insert_segments_records:
  assumes "vma_inv s" "card (reserved s) + 4 * length segs \<le> 96" "records done_segs s"
    and "\<forall>g \<in> set segs. segment_ok g" "disjoint_segments segs" "covered segs \<inter> covered done_segs = {}"
  shows "\<exists>s'. insert_segments pages_used segs s = Some s' \<and> vma_inv s' \<and> records (rev segs @ done_segs) s'"
  using assms
proof (induction segs arbitrary: s done_segs)
  case (Cons g segs)
  obtain start len flags where g: "g = (start, len, flags)" by (cases g)
  have new: "segment_ok (start, len, flags)" "addresses_of (start, len, flags) \<inter> covered done_segs = {}"
    using Cons.prems(4,6) by (auto simp: g covered_Cons)
  have room: "card (reserved s) \<le> 92" using Cons.prems(2) by simp
  obtain leaf s1 where s1: "vma_insert pages_used start len flags s = Some (Inr leaf, pages_used, s1)" "vma_inv s1"
    "card (reserved s1) \<le> card (reserved s) + 4" "records ((start, len, flags) # done_segs) s1"
    by (rule insert_records [OF Cons.prems(1) room Cons.prems(3) new])
  have "\<exists>s'. insert_segments pages_used segs s1 = Some s' \<and> vma_inv s' \<and> records (rev segs @ (g # done_segs)) s'"
  proof (rule Cons.IH [OF s1(2)])
    show "card (reserved s1) + 4 * length segs \<le> 96" using s1(3) Cons.prems(2) by simp
    show "covered segs \<inter> covered (g # done_segs) = {}" using Cons.prems(5,6) by (auto simp: covered_Cons)
  qed (use s1(4) Cons.prems(4,5) g in simp_all)
  then show ?case using s1(1) by (simp add: g)
qed simp

text \<open>
  C23. The tree that \<^verbatim>\<open>VMATree::new\<close> and up to 23 insertions of disjoint segments build (segments of user addresses
  whose first and one past the last address are multiples of four; 23 insertions fit in the first storage page):
  no insertion fails or panics; a lookup in a segment finds it with its flags and bounds; a lookup anywhere else finds
  the maximal gap around the address, with its size once something was inserted; and the tree is balanced: every lookup passes at
  most ten branches.
\<close>

theorem vma_tree_built:
  assumes page: "block_allocate m 4080 8 = Some (Inr head, m')"
    and segs: "\<forall>g \<in> set segs. segment_ok g" "disjoint_segments segs" "length segs \<le> 23"
  shows "\<exists>s s'. vma_tree_new pages_used m = Some (Inr s, pages_used, m') \<and> insert_segments pages_used segs s = Some s'
    \<and> vma_inv s'
    \<and> (\<forall>start len flags a. (start, len, flags) \<in> set segs \<longrightarrow> start \<le> a \<and> unat a < unat start + unat len \<longrightarrow>
         vma_area s' a = Some (UsedLeaf flags, start, start + len - 1))
    \<and> (\<forall>a \<le> HIGHEST_USER_ADDRESS. unat a \<notin> covered segs \<longrightarrow>
         (\<exists>n lo hi. vma_area s' a = Some (EmptyLeaf n, lo, hi) \<and> lo \<le> a \<and> a \<le> hi
            \<and> gap_of (covered segs) (unat HIGHEST_USER_ADDRESS) (unat lo) (unat hi) \<and> (segs \<noteq> [] \<longrightarrow> n = hi + 1 - lo)))
    \<and> (\<forall>a. lookup_within 10 s' a (vt_root s'))"
proof -
  obtain s where s: "vma_tree_new pages_used m = Some (Inr s, pages_used, m')"
    "vma_ok s (VLeaf (vt_root s) (EmptyLeaf HIGHEST_USER_ADDRESS))" "card (reserved s) = 1"
    by (rule vma_tree_new_ok [OF page])
  have "records [] s" using vma_area_tree [OF s(2)] by (auto simp: records_def covered_def gap_of_def word_le_nat_alt)
  moreover have "vma_inv s" using s(2) by (auto simp: vma_inv_def)
  ultimately obtain s' where s': "insert_segments pages_used segs s = Some s'" "vma_inv s'" "records (rev segs) s'"
    using insert_segments_records [of s segs "[]" pages_used] segs s(3) by (auto simp: covered_def)
  have "covered (rev segs) = covered segs" by (simp add: covered_def)
  with s(1) s' vma_inv_depth [OF s'(2)] show ?thesis
    by (intro exI [of _ s] exI [of _ s']) (simp add: records_def)
qed

text \<open>Three segments, the second of them directly behind the first.\<close>

theorem vma_tree_built_witness:
  "\<exists>s s' m. vma_tree_new 0 small_machine = Some (Inr s, 0, m)
     \<and> insert_segments 0 [(0x1000, 0x2000, 5), (0x3000, 0x1000, 3), (0x8000, 0x1000, 1)] s = Some s'
     \<and> vma_area s' 0x3800 = Some (UsedLeaf 3, 0x3000, 0x3FFF)
     \<and> lookup_within 10 s' 0x3800 (vt_root s')"
proof -
  let ?segs = "[(0x1000, 0x2000, 5), (0x3000, 0x1000, 3), (0x8000, 0x1000, 1)] :: segment list"
  obtain m where m: "block_allocate small_machine 4080 8 = Some (Inr 0x2000, m)"
    by (simp add: block_allocate_def small_machine_reserves owned_page_into_raw_def guard_def PAGE_SIZE_def)
  have segs: "\<forall>g \<in> set ?segs. segment_ok g" "disjoint_segments ?segs" "length ?segs \<le> 23"
    by (simp_all add: HIGHEST_USER_ADDRESS_def covered_def Int_Un_distrib)
  from vma_tree_built [OF m segs, of 0] obtain s s' where s: "vma_tree_new 0 small_machine = Some (Inr s, 0, m)"
    "insert_segments 0 ?segs s = Some s'" "lookup_within 10 s' 0x3800 (vt_root s')"
    and area: "\<forall>start len flags a. (start, len, flags) \<in> set ?segs \<longrightarrow> start \<le> a \<and> unat a < unat start + unat len \<longrightarrow>
         vma_area s' a = Some (UsedLeaf flags, start, start + len - 1)"
    by blast
  have "vma_area s' 0x3800 = Some (UsedLeaf 3, 0x3000, 0x3000 + 0x1000 - 1)"
    using area [rule_format, of "0x3000" "0x1000" 3 "0x3800"] by simp
  with s show ?thesis by auto
qed

end
