(* ===== verification/Vma_Delete.thy ===== *)
theory Vma_Delete
  imports Vma_Insert
begin

text \<open>
  Deleting a segment from the virtual memory area tree, \<^verbatim>\<open>VMATree::delete\<close>, where the tree has a single branch: the two
  leaves become one gap, and this gap stays in the temporary node of the storage list.
\<close>

lemma reserved_not_temp: "p \<in> reserved s \<Longrightarrow> p \<noteq> TempPtr"
  by (auto simp: reserved_def)

lemma node_read_temp: "node_read (s\<lparr>temp_node := n\<rparr>) p = (if p = TempPtr then Some n else node_read s p)"
  by (cases p) simp_all

lemma same_storage_temp [simp]: "same_storage s (s'\<lparr>temp_node := n\<rparr>) = same_storage s s'"
  by (simp add: same_storage_def)

lemma take_out_only_branch:
  assumes b: "node_read s b = Some (Branch (mk_branch SideLeft pk mx None p q))" "color_of pk = Black"
    and lv: "node_read s p = Some (Leaf l1)" "node_read s q = Some (Leaf l2)"
    and res: "head_ok s" "{b, p, q} \<subseteq> reserved s" "distinct [b, p, q]"
  obtains s' where "take_out_branch b s = Some ((TempPtr, None), Black, s')" "vt_root s' = TempPtr"
    "node_read s' TempPtr = Some (Branch (branch_new 0 True Black None p q))"
    "node_read s' p = Some (Leaf l1)" "node_read s' q = Some (Leaf l2)" "head_ok s'" "reserved s' = reserved s - {b}"
proof -
  let ?t = "Branch (branch_new 0 True Black None p q)"
  have ne: "b \<noteq> TempPtr" "p \<noteq> TempPtr" "q \<noteq> TempPtr" "p \<noteq> b" "q \<noteq> b" "q \<noteq> p" using res(2,3) reserved_not_temp by auto
  let ?s1 = "s\<lparr>temp_node := ?t\<rparr>" and ?s2 = "s\<lparr>vt_root := TempPtr, temp_node := ?t\<rparr>"
  have rd2: "node_read ?s2 r = (if r = TempPtr then Some ?t else node_read s r)" for r
    by (simp add: node_read_temp)
  have "same_storage s ?s2" by simp
  note same = same_storage_head [OF this]
  have "replace_node b TempPtr ?s1 = Some ?s2"
    using b ne by (simp add: replace_node_def relink_parent_def is_left_side_def read_branch_def node_read_temp is_branch_def
        update_branch_def branch_new_def)
  then have del: "delete_node_with_zero_or_one_child b s = Some ((TempPtr, None), ?s2)"
    using b lv by (simp add: delete_node_with_zero_or_one_child_def read_branch_def is_branch_def branch_color_def color_of_def)
  have "head_ok ?s2" "b \<in> reserved ?s2" using res same by simp_all
  then obtain s' where s': "node_free b ?s2 = Some s'" "reserved s' = reserved ?s2 - {b}" "head_ok s'"
    "node_read s' = (node_read ?s2)(b := Some placeholder)" "vt_root s' = vt_root ?s2" by (rule node_free_head)
  have "take_out_branch b s = Some ((TempPtr, None), Black, s')"
    using b lv ne del s'(1) by (simp add: take_out_branch_def read_branch_def is_leaf_def branch_ptr_color_def rd2 branch_color_def color_of_def)
  then show ?thesis using s' same ne res(3) lv by (intro that) (auto simp: rd2)
qed

lemma delete_only_branch:
  assumes b: "node_read s b = Some (Branch (mk_branch SideLeft pk mx None p q))" "color_of pk = Black"
    and lv: "node_read s p = Some (Leaf (EmptyLeaf n))" "node_read s q = Some (Leaf (EmptyLeaf n))"
    and res: "head_ok s" "{b, p, q} \<subseteq> reserved s" "distinct [b, p, q]"
  obtains s' where "delete_branch b s = Some s'" "vt_root s' = TempPtr" "node_read s' TempPtr = Some (Leaf (EmptyLeaf n))"
    "head_ok s'" "reserved s' = reserved s - {b, p, q}"
proof -
  let ?t = "Branch (branch_new 0 True Black None p q)"
  have ne: "b \<noteq> TempPtr" "p \<noteq> TempPtr" "q \<noteq> TempPtr" "p \<noteq> b" "q \<noteq> b" "q \<noteq> p" using res(2,3) reserved_not_temp by auto
  obtain s1 where s1: "take_out_branch b s = Some ((TempPtr, None), Black, s1)" "vt_root s1 = TempPtr"
    "node_read s1 TempPtr = Some ?t" "node_read s1 p = Some (Leaf (EmptyLeaf n))" "node_read s1 q = Some (Leaf (EmptyLeaf n))"
    "head_ok s1" "reserved s1 = reserved s - {b}"
    by (rule take_out_only_branch [OF b lv res])
  have "fix_delete TempPtr s1 = Some (s1\<lparr>temp_node := ?t\<rparr>)"
    using s1(2,3) by (simp add: fix_delete_def fix_delete_loop.simps [of TempPtr s1] set_color_def update_branch_def read_branch_def
        branch_new_def color_bit_def)
  moreover have "s1\<lparr>temp_node := ?t\<rparr> = s1" using s1(3) by simp
  ultimately have fd: "fix_delete TempPtr s1 = Some s1" by simp
  let ?s2 = "s1\<lparr>temp_node := Leaf (EmptyLeaf n)\<rparr>"
  have "same_storage s1 ?s2" by simp
  note same = same_storage_head [OF this]
  have "head_ok ?s2" "p \<in> reserved ?s2" using s1(6,7) res(2) ne same by simp_all
  then obtain s3 where s3: "node_free p ?s2 = Some s3" "reserved s3 = reserved ?s2 - {p}" "head_ok s3"
    "node_read s3 = (node_read ?s2)(p := Some placeholder)" "vt_root s3 = vt_root ?s2" by (rule node_free_head)
  have "q \<in> reserved s3" using s3(2) s1(7) res(2) ne same by simp
  with s3(3) obtain s4 where s4: "node_free q s3 = Some s4" "reserved s4 = reserved s3 - {q}" "head_ok s4"
    "node_read s4 = (node_read s3)(q := Some placeholder)" "vt_root s4 = vt_root s3" by (rule node_free_head)
  have "resolve_temp_null TempPtr s1 = Some s4"
    using s1(3-5) s3(1) s4(1) by (simp add: resolve_temp_null_def read_branch_def is_used_leaf_def branch_new_def)
  moreover have "is_temp_null s1 TempPtr = Some True" "unwrap_branch s1 TempPtr = Some TempPtr"
    using s1(3) by (simp_all add: is_temp_null_def unwrap_branch_def read_branch_def branch_new_def color_bit_def)
  ultimately have "delete_branch b s = Some s4" using s1(1) fd by (simp add: delete_branch_def)
  moreover have "vt_root s4 = TempPtr" using s4(5) s3(5) s1(2) by simp
  moreover have "node_read s4 TempPtr = Some (Leaf (EmptyLeaf n))" using s4(4) s3(4) ne by (simp add: node_read_temp)
  moreover have "reserved s4 = reserved s - {b, p, q}" using s4(2) s3(2) s1(7) same by auto
  ultimately show ?thesis using s4(3) by (intro that)
qed

text \<open>The leaf of the segment on either side of the branch.\<close>

lemma delete_only_leaf:
  assumes b: "node_read s b = Some (Branch (mk_branch SideLeft pk mx None l r))" "color_of pk = Black"
    and sides: "(l, r) = (p, q) \<and> side = SideLeft \<or> (l, r) = (q, p) \<and> side = SideRight"
    and lv: "node_read s p = Some (Leaf (UsedLeaf flags))" "node_read s q = Some (Leaf (EmptyLeaf n))"
    and res: "head_ok s" "{b, p, q} \<subseteq> reserved s" "distinct [b, p, q]"
    and info: "get_leaf_containing s a = Some \<lparr>li_leaf = p, li_parent_and_side = Some (b, side), li_start = lo, li_end = hi\<rparr>"
    and seg: "checked_add hi 1 = Some past" "checked_sub past lo = Some k" "unat k + unat n < 2 ^ 64"
    and a: "a \<le> HIGHEST_USER_ADDRESS"
  obtains s' where "vma_delete a s = Some s'" "vt_root s' = TempPtr" "temp_node s' = Leaf (EmptyLeaf (k + n))"
    "reserved s' = reserved s - {b, p, q}"
    "\<forall>x \<le> HIGHEST_USER_ADDRESS. vma_area s' x = Some (EmptyLeaf (k + n), 0, HIGHEST_USER_ADDRESS)"
proof -
  let ?m = "k + n"
  let ?s1 = "put_node p (Leaf (EmptyLeaf k)) s"
  let ?s2 = "put_node p (Leaf (EmptyLeaf ?m)) ?s1"
  let ?s3 = "put_node q (Leaf (EmptyLeaf ?m)) ?s2"
  have ne: "p \<noteq> b" "q \<noteq> b" "q \<noteq> p" using res(3) by auto
  have v: "node_read s p \<noteq> None" "node_read ?s1 p \<noteq> None" "node_read ?s2 q \<noteq> None" using lv by (simp_all add: node_read_put)
  have rd1: "node_read ?s1 = (node_read s)(p := Some (Leaf (EmptyLeaf k)))"
    by (simp add: fun_eq_iff node_read_put [OF v(1)])
  have rd2: "node_read ?s2 = (node_read s)(p := Some (Leaf (EmptyLeaf ?m)))"
    by (simp add: fun_eq_iff node_read_put [OF v(2)] rd1)
  have rd3: "node_read ?s3 = (node_read s)(p := Some (Leaf (EmptyLeaf ?m)), q := Some (Leaf (EmptyLeaf ?m)))"
    by (simp add: fun_eq_iff node_read_put [OF v(3)] rd2)
  have comb: "combine_sizes p q ?s1 = Some ?s3"
    using lv ne seg(3) rd1 rd2 node_write_put [OF v(2)] node_write_put [OF v(3)]
    by (simp add: combine_sizes_def unwrap_empty_size_def unwrap_empty_set_size_def read_leaf_def checked_add_def)
  have "same_storage s ?s3" using v by simp
  note same = same_storage_head [OF this]
  have lr: "{l, r} = {p, q}" "{b, l, r} = {b, p, q}" "l \<in> {p, q}" "r \<in> {p, q}" "distinct [b, l, r]" using sides ne by auto
  obtain s' where s': "delete_branch b ?s3 = Some s'" "vt_root s' = TempPtr" "node_read s' TempPtr = Some (Leaf (EmptyLeaf ?m))"
    "head_ok s'" "reserved s' = reserved ?s3 - {b, l, r}"
    by (rule delete_only_branch [of ?s3 b pk mx l r ?m]) (use b res lr rd3 same ne in auto)
  have look: "get_leaf_containing s' x = Some \<lparr>li_leaf = TempPtr, li_parent_and_side = None, li_start = 0, li_end = HIGHEST_USER_ADDRESS\<rparr>"
    if "x \<le> HIGHEST_USER_ADDRESS" for x
    using get_leaf_containing_descend [of s' "VLeaf TempPtr (EmptyLeaf ?m)" x "[]" "VLeaf TempPtr (EmptyLeaf ?m)"] s'(2,3) that
    by (simp add: tree_ok_def) (simp add: HIGHEST_USER_ADDRESS_def)
  then have join: "gap_join_loop a s' = Some s'" using a
    by (subst gap_join_loop.simps) (simp add: useless_pivot.simps [of s' None])
  have b1: "read_branch ?s1 b = Some (mk_branch SideLeft pk mx None l r)" and q1: "is_empty_leaf ?s1 q = Some True"
    and used: "is_used_leaf s p = Some True"
    using b(1) lv ne by (simp_all add: rd1 read_branch_def is_empty_leaf_def is_used_leaf_def)
  have sib: "branch_index (mk_branch SideLeft pk mx None l r) (side_not side) = q" using sides by auto
  have "vma_delete a s = Some s'"
    using info used seg(1,2) node_write_put [OF v(1)] b1 sib q1 comb s'(1) join by (simp add: vma_delete_def guard_def)
  moreover have "vma_area s' x = Some (EmptyLeaf ?m, 0, HIGHEST_USER_ADDRESS)" if "x \<le> HIGHEST_USER_ADDRESS" for x
    using look [OF that] s'(3) by (simp add: vma_area_def read_leaf_def)
  moreover have "reserved s' = reserved s - {b, p, q}" "temp_node s' = Leaf (EmptyLeaf ?m)"
    using s'(3,5) same(4) lr(2) by simp_all
  ultimately show thesis using s'(2) by (intro that) blast+
qed

text \<open>
  C39. Deleting the segment of a tree with one branch, the segment on either side of the gap, joins the two: every lookup
  afterwards finds one gap over all user addresses. Its leaf is not a node of a storage page but the temporary node
  of the storage list, to which the root of the tree now points, and which the next deletion of a black branch
  overwrites; all three nodes of the tree are given back.
\<close>

theorem vma_delete_only_segment:
  assumes ok: "vma_ok s (VBranch b pk mx l r)" and leaves: "{l, r} = {VLeaf p (UsedLeaf flags), VLeaf q (EmptyLeaf n)}"
    and a: "a \<le> HIGHEST_USER_ADDRESS" and area: "vma_area s a = Some (UsedLeaf flags, lo, hi)"
    and size: "unat (hi + 1 - lo) + unat n < 2 ^ 64"
  shows "\<exists>s'. vma_delete a s = Some s' \<and> vt_root s' = TempPtr \<and> temp_node s' = Leaf (EmptyLeaf (hi + 1 - lo + n))
    \<and> reserved s' = reserved s - {b, p, q}
    \<and> (\<forall>x \<le> HIGHEST_USER_ADDRESS. vma_area s' x = Some (EmptyLeaf (hi + 1 - lo + n), 0, HIGHEST_USER_ADDRESS))"
proof -
  obtain side where sides: "(l, r) = (VLeaf p (UsedLeaf flags), VLeaf q (EmptyLeaf n)) \<and> side = SideLeft
      \<or> (l, r) = (VLeaf q (EmptyLeaf n), VLeaf p (UsedLeaf flags)) \<and> side = SideRight"
    using leaves by (auto simp: doubleton_eq_iff)
  then have ptrs: "(tptr l, tptr r) = (p, q) \<and> side = SideLeft \<or> (tptr l, tptr r) = (q, p) \<and> side = SideRight" by auto
  have T: "node_read s b = Some (Branch (mk_branch SideLeft pk mx None (tptr l) (tptr r)))" "color_of pk = Black"
    "node_read s p = Some (Leaf (UsedLeaf flags))" "node_read s q = Some (Leaf (EmptyLeaf n))"
    "head_ok s" "{b, p, q} \<subseteq> reserved s" "distinct [b, p, q]"
    "tree_ok s (VBranch b pk mx l r)" "top_ordered (VBranch b pk mx l r)"
    using ok sides by (auto simp: vma_ok_def tree_inv_def tree_ok_def)
  obtain u where top: "top_area (VBranch b pk mx l r) a = (u, UsedLeaf flags, lo, hi + 1)" "a < hi + 1" "unat (hi + 1) = unat hi + 1"
    by (rule vma_area_top [OF ok a area])
  have "get_leaf_containing s a = Some \<lparr>li_leaf = p, li_parent_and_side = Some (b, side), li_start = lo, li_end = hi\<rparr>"
    using get_leaf_containing_descend [OF T(8,9) a] sides top(1) by (auto split: if_splits)
  moreover have hi: "unat (hi + 1) < 2 ^ LENGTH(64)" by (rule unsigned_less)
  have "lo \<le> hi + 1" using top(1,2) sides T(9) by (auto split: if_splits)
  then have "checked_add hi 1 = Some (hi + 1)" "checked_sub (hi + 1) lo = Some (hi + 1 - lo)"
    using top(3) hi by (simp_all add: checked_add_def checked_sub_def)
  ultimately obtain s' where "vma_delete a s = Some s'" "vt_root s' = TempPtr" "temp_node s' = Leaf (EmptyLeaf (hi + 1 - lo + n))"
    "reserved s' = reserved s - {b, p, q}"
    "\<forall>x \<le> HIGHEST_USER_ADDRESS. vma_area s' x = Some (EmptyLeaf (hi + 1 - lo + n), 0, HIGHEST_USER_ADDRESS)"
    by (rule delete_only_leaf [OF T(1,2) ptrs T(3-7) _ _ _ size a])
  then show ?thesis by blast
qed

text \<open>Such a tree: a segment in the first page of the address space and the gap behind it.\<close>

lemma one_segment_tree:
  obtains s b p q where "vma_ok s (VBranch b (pack 0x1000) 0x7FFFFFFFF000 (VLeaf p (UsedLeaf 3)) (VLeaf q (EmptyLeaf 0x7FFFFFFFF000)))"
proof -
  let ?s0 = "\<lparr>vt_root = TempPtr, storage_head = 0x2000, temp_node = placeholder, node_pages = [0x2000 \<mapsto> new_with_prev_page None],
      vt_machine = small_machine\<rparr>"
  have h0: "head_ok ?s0" "reserved ?s0 = {}"
    using new_node_page_ok [of None] by (simp_all add: head_ok_def head_page_def reserved_def head_slots_def) (simp add: new_with_prev_page_def)
  have "card (reserved ?s0) < 96" using h0(2) by simp
  with h0(1) obtain p s1 where p: "reserved s1 = insert p (reserved ?s0)" "head_ok s1"
    "node_read s1 = (node_read ?s0)(p := Some (Leaf (UsedLeaf 3)))" by (rule new_node_head [of ?s0 0 "Leaf (UsedLeaf 3)"])
  have "card (reserved s1) < 96" using h0(2) p(1) by simp
  with p(2) obtain q s2 where q: "q \<notin> reserved s1" "reserved s2 = insert q (reserved s1)" "head_ok s2"
    "node_read s2 = (node_read s1)(q := Some (Leaf (EmptyLeaf 0x7FFFFFFFF000)))"
    by (rule new_node_head [of s1 0 "Leaf (EmptyLeaf 0x7FFFFFFFF000)"])
  let ?b = "Branch (mk_branch SideLeft (pack 0x1000) 0x7FFFFFFFF000 None p q)"
  have "card (reserved s2) < 96" using h0(2) p(1) q(2) by (simp add: card_insert_if)
  with q(3) obtain b s3 where b: "b \<notin> reserved s2" "reserved s3 = insert b (reserved s2)" "head_ok s3" "node_read s3 = (node_read s2)(b := Some ?b)"
    by (rule new_node_head [of s2 0 ?b])
  let ?s = "s3\<lparr>vt_root := b\<rparr>"
  have "same_storage s3 ?s" by simp
  note same = same_storage_head [OF this]
  have "p \<noteq> q" "b \<noteq> p" "b \<noteq> q" using h0(2) p(1) q(1,2) b(1) by auto
  then have "vma_ok ?s (VBranch b (pack 0x1000) 0x7FFFFFFFF000 (VLeaf p (UsedLeaf 3)) (VLeaf q (EmptyLeaf 0x7FFFFFFFF000)))"
    using b q p same h0(2) by (simp add: vma_ok_def tree_inv_def tree_ok_def pivot_of_pack) (simp add: HIGHEST_USER_ADDRESS_def)
  then show ?thesis by (rule that)
qed

theorem vma_delete_only_segment_witness:
  "\<exists>s s'. vma_area s 0x800 = Some (UsedLeaf 3, 0, 0xFFF) \<and> vma_delete 0x800 s = Some s' \<and> vt_root s' = TempPtr
     \<and> vma_area s' 0x800 = Some (EmptyLeaf 0x800000000000, 0, HIGHEST_USER_ADDRESS)"
proof -
  obtain s b p q where s: "vma_ok s (VBranch b (pack 0x1000) 0x7FFFFFFFF000 (VLeaf p (UsedLeaf 3)) (VLeaf q (EmptyLeaf 0x7FFFFFFFF000)))"
    by (rule one_segment_tree)
  have a: "(0x800 :: usize) \<le> HIGHEST_USER_ADDRESS" by (simp add: HIGHEST_USER_ADDRESS_def)
  have area: "vma_area s 0x800 = Some (UsedLeaf 3, 0, 0xFFF)" using vma_area_tree [OF s a] by (simp add: pivot_of_pack)
  from vma_delete_only_segment [OF s refl a area] area show ?thesis by (auto simp: HIGHEST_USER_ADDRESS_def)
qed

end
