(* ===== verification/Graphics.thy ===== *)
theory Graphics
  imports Prelude
begin

text \<open>
  The framebuffer, \<^verbatim>\<open>src/kernel/src/core_graphics.rs\<close>: a slice of pixels addressed by the column, the line and the
  length of a scanline, with the 32-bit arithmetic of the source.
\<close>

record color_bitmask =
  red_mask :: u32
  green_mask :: u32
  blue_mask :: u32
  reserved_mask :: u32

datatype color_format = Rgbr8 | Bgrr8 | Bitmask color_bitmask

record framebuffer =
  fb_buffer :: "u32 list"
  fb_width :: u32
  fb_height :: u32
  scanline_length :: u32
  color_format :: color_format

definition fb_clear :: "framebuffer \<Rightarrow> framebuffer" where
  "fb_clear fb = fb\<lparr>fb_buffer := replicate (length (fb_buffer fb)) 0\<rparr>"

definition pixel_index :: "framebuffer \<Rightarrow> u32 \<times> u32 \<Rightarrow> nat option" where
  "pixel_index fb pos =
     do { row \<leftarrow> checked_mul (snd pos) (scanline_length fb);
          i \<leftarrow> checked_add row (fst pos);
          Some (unat i) }"

definition fb_get :: "framebuffer \<Rightarrow> u32 \<times> u32 \<Rightarrow> u32 option" where
  "fb_get fb pos = do { i \<leftarrow> pixel_index fb pos; slice_get (fb_buffer fb) i }"

definition fb_set :: "u32 \<times> u32 \<Rightarrow> u32 \<Rightarrow> framebuffer \<Rightarrow> framebuffer option" where
  "fb_set pos color fb =
     do { i \<leftarrow> pixel_index fb pos;
          buffer \<leftarrow> slice_set (fb_buffer fb) i color;
          Some (fb\<lparr>fb_buffer := buffer\<rparr>) }"

text \<open>The range \<^verbatim>\<open>a..b\<close> of \<^verbatim>\<open>u32\<close>s.\<close>

definition u32_range :: "u32 \<Rightarrow> u32 \<Rightarrow> u32 list" where
  "u32_range a b = map of_nat [unat a..<unat b]"

definition fill_box :: "u32 \<times> u32 \<Rightarrow> u32 \<times> u32 \<Rightarrow> u32 \<Rightarrow> framebuffer \<Rightarrow> framebuffer option" where
  "fill_box start_pos dims color fb =
     do { y_end \<leftarrow> checked_add (snd start_pos) (snd dims);
          for_each (\<lambda>y fb.
            do { x_end \<leftarrow> checked_add (fst start_pos) (fst dims);
                 for_each (\<lambda>x fb. fb_set (x, y) color fb) (u32_range (fst start_pos) x_end) fb })
            (u32_range (snd start_pos) y_end) fb }"

subsection \<open>Pixels on the screen\<close>

text \<open>The buffer holds every pixel, and the index of each of them is a 32-bit number.\<close>

definition fb_ok :: "framebuffer \<Rightarrow> bool" where
  "fb_ok fb \<longleftrightarrow> fb_width fb \<le> scanline_length fb
     \<and> unat (fb_height fb) * unat (scanline_length fb) \<le> length (fb_buffer fb)
     \<and> unat (fb_height fb) * unat (scanline_length fb) < 2 ^ 32"

definition on_screen :: "framebuffer \<Rightarrow> u32 \<times> u32 \<Rightarrow> bool" where
  "on_screen fb pos \<longleftrightarrow> fst pos < fb_width fb \<and> snd pos < fb_height fb"

text \<open>What drawing keeps.\<close>

definition same_screen :: "framebuffer \<Rightarrow> framebuffer \<Rightarrow> bool" where
  "same_screen fb fb' \<longleftrightarrow> fb_width fb' = fb_width fb \<and> fb_height fb' = fb_height fb
     \<and> scanline_length fb' = scanline_length fb \<and> length (fb_buffer fb') = length (fb_buffer fb)"

lemma same_screen_refl [simp]: "same_screen fb fb"
  by (simp add: same_screen_def)

lemma same_screen_trans: "same_screen fb fb1 \<Longrightarrow> same_screen fb1 fb2 \<Longrightarrow> same_screen fb fb2"
  by (simp add: same_screen_def)

lemma same_screen_ok: "same_screen fb fb' \<Longrightarrow> fb_ok fb' = fb_ok fb" "same_screen fb fb' \<Longrightarrow> on_screen fb' pos = on_screen fb pos"
  by (simp_all add: same_screen_def fb_ok_def on_screen_def)

lemma pixel_index_on_screen:
  assumes "fb_ok fb" "on_screen fb (x, y)"
  shows "pixel_index fb (x, y) = Some (unat y * unat (scanline_length fb) + unat x)"
    "unat y * unat (scanline_length fb) + unat x < length (fb_buffer fb)"
proof -
  let ?w = "unat (scanline_length fb)"
  have x: "unat x < ?w" and y: "Suc (unat y) \<le> unat (fb_height fb)"
    using assms by (auto simp: fb_ok_def on_screen_def word_less_nat_alt word_le_nat_alt)
  have "Suc (unat y) * ?w \<le> unat (fb_height fb) * ?w" using y by (rule mult_le_mono1)
  then have b: "unat y * ?w + unat x < unat (fb_height fb) * ?w" using x by simp
  have lt: "unat (fb_height fb) * ?w < 2 ^ 32" "unat (fb_height fb) * ?w \<le> length (fb_buffer fb)"
    using assms(1) by (simp_all add: fb_ok_def)
  show "unat y * ?w + unat x < length (fb_buffer fb)" using b lt by simp
  have "unat y * ?w < 2 ^ 32" "unat y * ?w + unat x < 2 ^ 32" using b lt by simp_all
  then show "pixel_index fb (x, y) = Some (unat y * ?w + unat x)"
    by (simp add: pixel_index_def checked_mul_def checked_add_def unat_word_ariths)
qed

lemma pixel_index_inj:
  assumes "fb_ok fb" "on_screen fb (x, y)" "on_screen fb (x', y')"
    and "unat y * unat (scanline_length fb) + unat x = unat y' * unat (scanline_length fb) + unat x'"
  shows "x = x' \<and> y = y'"
proof -
  let ?w = "unat (scanline_length fb)"
  have x: "unat x < ?w" "unat x' < ?w"
    using assms(1-3) by (auto simp: fb_ok_def on_screen_def word_less_nat_alt word_le_nat_alt)
  then have "(unat y * ?w + unat x) div ?w = unat y" "(unat y' * ?w + unat x') div ?w = unat y'" by simp_all
  with assms(4) have "unat y = unat y'" by simp
  with assms(4) show ?thesis by (simp add: word_unat_eq_iff)
qed

text \<open>Drawing gives the pixels of a region the colours of a picture and keeps all others.\<close>

definition paints :: "(u32 \<times> u32) set \<Rightarrow> (u32 \<times> u32 \<Rightarrow> u32) \<Rightarrow> framebuffer \<Rightarrow> framebuffer \<Rightarrow> bool" where
  "paints R g fb fb' \<longleftrightarrow> same_screen fb fb'
     \<and> (\<forall>p. on_screen fb p \<longrightarrow> fb_get fb' p = (if p \<in> R then Some (g p) else fb_get fb p))"

lemma paints_refl: "paints {} g fb fb"
  by (simp add: paints_def)

lemma paints_trans: "paints R g fb fb1 \<Longrightarrow> paints S g fb1 fb2 \<Longrightarrow> paints (R \<union> S) g fb fb2"
proof -
  assume 1: "paints R g fb fb1" and 2: "paints S g fb1 fb2"
  then have "same_screen fb fb1" "same_screen fb1 fb2" by (simp_all add: paints_def)
  with 1 2 show ?thesis using same_screen_trans [of fb fb1 fb2] by (auto simp: paints_def same_screen_ok)
qed

lemma paints_get: "paints R g fb fb' \<Longrightarrow> on_screen fb p \<Longrightarrow> fb_get fb' p = (if p \<in> R then Some (g p) else fb_get fb p)"
  unfolding paints_def by blast

lemma paints_ok: "paints R g fb fb' \<Longrightarrow> fb_ok fb' = fb_ok fb" "paints R g fb fb' \<Longrightarrow> on_screen fb' p = on_screen fb p"
  by (auto simp: paints_def same_screen_ok)

lemma fb_set_paints:
  assumes "fb_ok fb" "on_screen fb pos"
  shows "\<exists>fb'. fb_set pos (g pos) fb = Some fb' \<and> paints {pos} g fb fb'"
proof -
  obtain x y where pos: "pos = (x, y)" by (cases pos)
  note i = pixel_index_on_screen [OF assms(1) assms(2) [unfolded pos]]
  let ?i = "unat y * unat (scanline_length fb) + unat x"
  let ?fb' = "fb\<lparr>fb_buffer := (fb_buffer fb)[?i := g pos]\<rparr>"
  have "fb_set pos (g pos) fb = Some ?fb'" using i by (simp add: fb_set_def pos slice_set_def)
  moreover have "fb_get ?fb' p = (if p \<in> {pos} then Some (g p) else fb_get fb p)" if p: "on_screen fb p" for p
  proof -
    obtain x' y' where p': "p = (x', y')" by (cases p)
    note j = pixel_index_on_screen [OF assms(1) p [unfolded p']]
    let ?j = "unat y' * unat (scanline_length fb) + unat x'"
    have same: "pixel_index ?fb' p = Some ?j" using j(1) by (simp add: pixel_index_def p')
    show ?thesis
    proof (cases "p = pos")
      case True
      then show ?thesis using same j i pos p' by (simp add: fb_get_def slice_get_def)
    next
      case False
      then have "?j \<noteq> ?i" using pixel_index_inj [OF assms(1), of x' y' x y] p assms(2) pos p' by metis
      then show ?thesis using same j p' False by (simp add: fb_get_def slice_get_def)
    qed
  qed
  moreover have "same_screen fb ?fb'" by (simp add: same_screen_def)
  ultimately show ?thesis unfolding paints_def by blast
qed

lemma for_each_paints:
  assumes "\<And>x fb'. x \<in> set xs \<Longrightarrow> same_screen fb fb' \<Longrightarrow> fb_ok fb' \<Longrightarrow> \<exists>fb''. f x fb' = Some fb'' \<and> paints (R x) g fb' fb''"
    and "fb_ok fb"
  shows "\<exists>fb'. for_each f xs fb = Some fb' \<and> paints (\<Union>x \<in> set xs. R x) g fb fb'"
  using assms
proof (induction xs arbitrary: fb)
  case Nil
  then show ?case by (simp add: paints_refl)
next
  case (Cons x xs)
  from Cons.prems(1) [of x fb] Cons.prems(2) obtain fb1 where fb1: "f x fb = Some fb1" "paints (R x) g fb fb1" by auto
  then have s1: "same_screen fb fb1" "fb_ok fb1" using Cons.prems(2) by (auto simp: paints_def same_screen_ok)
  have "\<exists>fb''. f y fb' = Some fb'' \<and> paints (R y) g fb' fb''" if "y \<in> set xs" "same_screen fb1 fb'" "fb_ok fb'" for y fb'
    using that Cons.prems(1) [of y fb'] same_screen_trans [OF s1(1)] by simp
  from Cons.IH [OF this s1(2)] obtain fb2 where "for_each f xs fb1 = Some fb2" "paints (\<Union>x \<in> set xs. R x) g fb1 fb2" by blast
  then show ?case using fb1 paints_trans [OF fb1(2)] by auto
qed

lemma set_u32_range: "set (u32_range a b) = {x. a \<le> x \<and> x < b}"
proof (intro set_eqI iffI)
  fix x assume "x \<in> set (u32_range a b)"
  then obtain n where n: "x = of_nat n" "unat a \<le> n" "n < unat b" by (auto simp: u32_range_def)
  then have "unat x = n" using unsigned_less [of b, where ?'a = nat] by (simp add: unat_of_nat_small)
  with n show "x \<in> {x. a \<le> x \<and> x < b}" by (simp add: word_le_nat_alt word_less_nat_alt)
next
  fix x assume "x \<in> {x. a \<le> x \<and> x < b}"
  then show "x \<in> set (u32_range a b)"
    by (auto simp: u32_range_def word_le_nat_alt word_less_nat_alt image_iff intro!: bexI [of _ "unat x"])
qed

definition rectangle :: "u32 \<times> u32 \<Rightarrow> u32 \<times> u32 \<Rightarrow> (u32 \<times> u32) set" where
  "rectangle start_pos dims = {p. fst start_pos \<le> fst p \<and> fst p < fst start_pos + fst dims
     \<and> snd start_pos \<le> snd p \<and> snd p < snd start_pos + snd dims}"

text \<open>A rectangle that ends on the screen.\<close>

definition fits :: "framebuffer \<Rightarrow> u32 \<times> u32 \<Rightarrow> u32 \<times> u32 \<Rightarrow> bool" where
  "fits fb start_pos dims \<longleftrightarrow> unat (fst start_pos) + unat (fst dims) \<le> unat (fb_width fb)
     \<and> unat (snd start_pos) + unat (snd dims) \<le> unat (fb_height fb)"

lemma fits_bounds:
  assumes "fits fb (x, y) (w, h)"
  shows "unat (x + w) = unat x + unat w" "unat (y + h) = unat y + unat h" "checked_add x w = Some (x + w)" "checked_add y h = Some (y + h)"
    "x' < x + w \<Longrightarrow> y' < y + h \<Longrightarrow> on_screen fb (x', y')"
proof -
  have b: "unat x + unat w < 2 ^ 32" "unat y + unat h < 2 ^ 32"
    using assms unsigned_less [of "fb_width fb", where ?'a = nat] unsigned_less [of "fb_height fb", where ?'a = nat] by (simp_all add: fits_def)
  then show u: "unat (x + w) = unat x + unat w" "unat (y + h) = unat y + unat h" "checked_add x w = Some (x + w)" "checked_add y h = Some (y + h)"
    by (simp_all add: unat_add_small checked_add_def)
  show "x' < x + w \<Longrightarrow> y' < y + h \<Longrightarrow> on_screen fb (x', y')"
    using assms u(1,2) by (simp add: fits_def on_screen_def word_less_nat_alt)
qed

lemma fill_box_paints:
  assumes ok: "fb_ok fb" and fit: "fits fb (x, y) (w, h)" and g: "\<And>p. p \<in> rectangle (x, y) (w, h) \<Longrightarrow> g p = color"
  shows "\<exists>fb'. fill_box (x, y) (w, h) color fb = Some fb' \<and> paints (rectangle (x, y) (w, h)) g fb fb'"
proof -
  note b = fits_bounds [OF fit]
  let ?row = "\<lambda>y' fb. do { x_end \<leftarrow> checked_add x w; for_each (\<lambda>x fb. fb_set (x, y') color fb) (u32_range x x_end) fb }"
  have row: "\<exists>fb''. ?row y' fb' = Some fb'' \<and> paints {p. x \<le> fst p \<and> fst p < x + w \<and> snd p = y'} g fb' fb''"
    if y': "y' \<in> set (u32_range y (y + h))" and s: "same_screen fb fb'" "fb_ok fb'" for y' fb'
  proof -
    have "\<exists>fb''. for_each (\<lambda>x fb. fb_set (x, y') color fb) (u32_range x (x + w)) fb' = Some fb''
        \<and> paints (\<Union>x' \<in> set (u32_range x (x + w)). {(x', y')}) g fb' fb''"
    proof (rule for_each_paints [OF _ s(2)])
      fix x' fb1 assume x': "x' \<in> set (u32_range x (x + w))" "same_screen fb' fb1" "fb_ok fb1"
      have "g (x', y') = color" using x'(1) y' by (intro g) (simp add: rectangle_def set_u32_range)
      moreover have "on_screen fb1 (x', y')"
        using x' y' b(5) [of x' y'] same_screen_ok(2) [OF same_screen_trans [OF s(1) x'(2)]] by (simp add: set_u32_range)
      ultimately show "\<exists>fb''. fb_set (x', y') color fb1 = Some fb'' \<and> paints {(x', y')} g fb1 fb''"
        using fb_set_paints [OF x'(3), of "(x', y')" g] by simp
    qed
    moreover have "(\<Union>x' \<in> set (u32_range x (x + w)). {(x', y')}) = {p. x \<le> fst p \<and> fst p < x + w \<and> snd p = y'}"
      by (auto simp: set_u32_range)
    ultimately show ?thesis by (simp add: b(3))
  qed
  from for_each_paints [of "u32_range y (y + h)" fb ?row "\<lambda>y'. {p. x \<le> fst p \<and> fst p < x + w \<and> snd p = y'}" g, OF row ok]
  obtain fb' where fb': "for_each ?row (u32_range y (y + h)) fb = Some fb'"
    "paints (\<Union>y' \<in> set (u32_range y (y + h)). {p. x \<le> fst p \<and> fst p < x + w \<and> snd p = y'}) g fb fb'" by blast
  moreover have "(\<Union>y' \<in> set (u32_range y (y + h)). {p. x \<le> fst p \<and> fst p < x + w \<and> snd p = y'}) = rectangle (x, y) (w, h)"
    by (auto simp: set_u32_range rectangle_def)
  ultimately show ?thesis by (simp add: fill_box_def b(4))
qed

lemma fb_clear_paints: "fb_ok fb \<Longrightarrow> paints UNIV (\<lambda>_. 0) fb (fb_clear fb)"
proof -
  assume ok: "fb_ok fb"
  have "fb_get (fb_clear fb) p = Some 0" if "on_screen fb p" for p
    using pixel_index_on_screen [OF ok, of "fst p" "snd p"] that
    by (simp add: fb_get_def fb_clear_def slice_get_def pixel_index_def)
  then show ?thesis by (simp add: paints_def same_screen_def) (simp add: fb_clear_def)
qed

end
