(* ===== verification/Psf_Font.thy ===== *)
theory Psf_Font
  imports Graphics
begin

text \<open>
  The console font, the module \<^verbatim>\<open>psf\<close> of \<^verbatim>\<open>src/kernel/src/terminal.rs\<close>: the header of a font file, read as little-endian
  words, and the glyph of a character. A Rust \<^verbatim>\<open>char\<close> is its code point.
\<close>

type_synonym rust_char = u32

definition PSF_MAGIC :: u32 where
  "PSF_MAGIC = 0x864AB572"

definition PSF_VERSION :: u32 where
  "PSF_VERSION = 0"

record psf_header =
  psf_magic :: u32
  psf_version :: u32
  header_size :: u32
  psf_flags :: u32
  num_glyphs :: u32
  bytes_per_glyph :: u32
  glyph_height :: u32
  glyph_width :: u32

datatype header_parse_error = InvalidMagic | UnknownVersion

definition u32_from_le_bytes :: "u8 list \<Rightarrow> nat \<Rightarrow> u32" where
  "u32_from_le_bytes bytes i =
     ucast (bytes ! i) OR push_bit 8 (ucast (bytes ! (i + 1))) OR push_bit 16 (ucast (bytes ! (i + 2)))
       OR push_bit 24 (ucast (bytes ! (i + 3)))"

text \<open>The argument is the array of 32 bytes.\<close>

definition header_from_bytes :: "u8 list \<Rightarrow> header_parse_error + psf_header" where
  "header_from_bytes bytes =
     (let magic = u32_from_le_bytes bytes 0;
          version = u32_from_le_bytes bytes 4
      in if magic \<noteq> PSF_MAGIC then Inl InvalidMagic
         else if version \<noteq> PSF_VERSION then Inl UnknownVersion
         else Inr \<lparr>psf_magic = magic, psf_version = version,
                header_size = u32_from_le_bytes bytes 8, psf_flags = u32_from_le_bytes bytes 12,
                num_glyphs = u32_from_le_bytes bytes 16, bytes_per_glyph = u32_from_le_bytes bytes 20,
                glyph_height = u32_from_le_bytes bytes 24, glyph_width = u32_from_le_bytes bytes 28\<rparr>)"

record psf_font =
  font_header :: psf_header
  font_data :: "u8 list"

definition font_new :: "u8 list \<Rightarrow> (string + psf_font) option" where
  "font_new file =
     do { header_slice \<leftarrow> slice_range file 0 32;
          case header_from_bytes header_slice of
            Inl _ \<Rightarrow> Some (Inl ''invalid magic'')
          | Inr header \<Rightarrow>
              if bytes_per_glyph header \<noteq> 16 then Some (Inl ''invalid bytes per glyph'')
              else Some (Inr \<lparr>font_header = header, font_data = drop 32 file\<rparr>) }"

definition QUESTION_MARK :: usize where
  "QUESTION_MARK = 63"

definition get_character :: "psf_font \<Rightarrow> rust_char \<Rightarrow> u8 list option" where
  "get_character font character =
     do { let character_usize = (ucast character :: usize);
          let character_usize = (if ucast (num_glyphs (font_header font)) \<le> character_usize then QUESTION_MARK else character_usize);
          start_pos \<leftarrow> checked_mul (ucast (bytes_per_glyph (font_header font))) character_usize;
          end_pos \<leftarrow> checked_add start_pos (ucast (bytes_per_glyph (font_header font)));
          if length (font_data font) \<le> unat end_pos then Some []
          else slice_range (font_data font) (unat start_pos) (unat end_pos) }"

end
