(* ===== verification/Terminal.thy ===== *)
theory Terminal
  imports Psf_Font
begin

text \<open>
  The text console, \<^verbatim>\<open>src/kernel/src/terminal.rs\<close>: a grid of coloured characters, drawn to the framebuffer cell by
  cell where it changed, and the state machine that reads text with escape sequences.

  Every operation works on a \<open>console\<close>, the terminal beside the global framebuffer.
\<close>

subsection \<open>Colours, cells and modes\<close>

definition VGA_COLORS :: "u32 list" where
  "VGA_COLORS = [0x000000, 0xAA0000, 0x00AA00, 0xAAAA00, 0x0000AA, 0xAA00AA, 0x00AAAA, 0xAAAAAA]"

definition VGA_BRIGHT_COLORS :: "u32 list" where
  "VGA_BRIGHT_COLORS = [0x555555, 0xFF5555, 0x55FF55, 0xFFFF55, 0x5555FF, 0xFF55FF, 0x55FFFF, 0xFFFFFF]"

record screen_char =
  sc_character :: rust_char
  sc_foreground :: u32
  sc_background :: u32

definition SPACE :: rust_char where
  "SPACE = 32"

definition screen_char_default :: screen_char where
  "screen_char_default = \<lparr>sc_character = SPACE, sc_foreground = VGA_BRIGHT_COLORS ! 7, sc_background = VGA_COLORS ! 0\<rparr>"

datatype terminal_mode =
    TextMode
  | Escape1
  | Escape2
  | FirstArgument u32
  | FirstArgumentEnd u32
  | SecondArgument u32 u32
  | SecondArgumentEnd u32 u32
  | ThirdArgument u32 u32 u32
  | ThirdArgumentEnd u32 u32 u32
  | FourthArgument u32 u32 u32 u32
  | FourthArgumentEnd u32 u32 u32 u32
  | FifthArgument u32 u32 u32 u32 u32

record terminal_state =
  ts_mode :: terminal_mode
  cursor_x :: u16
  cursor_y :: u16
  ts_foreground :: u32
  ts_background :: u32

definition terminal_state_default :: terminal_state where
  "terminal_state_default = \<lparr>ts_mode = TextMode, cursor_x = 0, cursor_y = 0,
     ts_foreground = VGA_BRIGHT_COLORS ! 7, ts_background = VGA_COLORS ! 0\<rparr>"

record terminal =
  t_font :: psf_font
  t_width :: u16
  t_height :: u16
  front_buffer :: "screen_char list"
  back_buffer :: "screen_char list"
  current_state :: terminal_state

record console =
  FRAMEBUFFER :: "framebuffer option"
  console_terminal :: terminal

datatype try_reserve_error = TryReserveError

subsection \<open>Creation\<close>

text \<open>
  Division panics for a zero divisor. The answers of the heap to the two calls of \<^verbatim>\<open>try_reserve_exact\<close> are parameters,
  functions of the number of cells.
\<close>

definition checked_div :: "'a::len word \<Rightarrow> 'a word \<Rightarrow> 'a word option" where
  "checked_div a b = (if b = 0 then None else Some (a div b))"

definition terminal_new :: "(nat \<Rightarrow> bool) \<Rightarrow> (nat \<Rightarrow> bool) \<Rightarrow> psf_font \<Rightarrow> framebuffer option \<Rightarrow> (try_reserve_error + terminal) option" where
  "terminal_new reserve_front reserve_back font framebuffer_lock =
     do { fb \<leftarrow> framebuffer_lock;
          w \<leftarrow> checked_div (fb_width fb) (glyph_width (font_header font));
          h \<leftarrow> checked_div (fb_height fb) (glyph_height (font_header font));
          let width = (ucast w :: u16);
          let height = (ucast h :: u16);
          buffer_len \<leftarrow> checked_mul (ucast width :: usize) (ucast height);
          if \<not> reserve_front (unat buffer_len) then Some (Inl TryReserveError)
          else if \<not> reserve_back (unat buffer_len) then Some (Inl TryReserveError)
          else Some (Inr \<lparr>t_font = font, t_width = width, t_height = height,
                 front_buffer = replicate (unat buffer_len) screen_char_default,
                 back_buffer = replicate (unat buffer_len) screen_char_default,
                 current_state = terminal_state_default\<rparr>) }"

subsection \<open>Drawing\<close>

text \<open>One line of a glyph: eight pixels, from the right; the byte is shifted before its lowest bit is read.\<close>

definition draw_bit :: "u32 \<Rightarrow> u32 \<Rightarrow> screen_char \<Rightarrow> u32 \<Rightarrow> u8 \<times> framebuffer \<Rightarrow> (u8 \<times> framebuffer) option" where
  "draw_bit x y c bit_i s =
     do { let (line, fb) = s;
          let line = drop_bit 1 line;
          let mask = (ucast (line AND 1) :: u32);
          foreground \<leftarrow> checked_mul mask (sc_foreground c);
          inverse \<leftarrow> checked_sub 1 mask;
          background \<leftarrow> checked_mul inverse (sc_background c);
          let color = foreground OR background;
          column \<leftarrow> checked_sub 7 bit_i;
          px \<leftarrow> checked_add x column;
          fb \<leftarrow> fb_set (px, y) color fb;
          Some (line, fb) }"

definition draw_line :: "psf_font \<Rightarrow> u32 \<Rightarrow> u32 \<Rightarrow> screen_char \<Rightarrow> u8 list \<Rightarrow> u32 \<Rightarrow> framebuffer \<Rightarrow> framebuffer option" where
  "draw_line font x_pos y_pos c char_bitmap line_i fb =
     do { line \<leftarrow> slice_get char_bitmap (unat line_i);
          x \<leftarrow> checked_mul x_pos (glyph_width (font_header font));
          row \<leftarrow> checked_mul y_pos (glyph_height (font_header font));
          y \<leftarrow> checked_add row line_i;
          (line, fb) \<leftarrow> for_each (draw_bit x y c) (u32_range 0 8) (line, fb);
          Some fb }"

definition draw_glyph :: "psf_font \<Rightarrow> u32 \<Rightarrow> u32 \<Rightarrow> screen_char \<Rightarrow> framebuffer \<Rightarrow> framebuffer option" where
  "draw_glyph font x_pos y_pos c fb =
     do { char_bitmap \<leftarrow> get_character font (sc_character c);
          for_each (draw_line font x_pos y_pos c char_bitmap) (u32_range 0 (glyph_height (font_header font))) fb }"

definition draw_cell :: "psf_font \<Rightarrow> u16 \<Rightarrow> nat \<Rightarrow> screen_char \<Rightarrow> framebuffer \<Rightarrow> framebuffer option" where
  "draw_cell font width i c fb =
     do { y \<leftarrow> checked_div (of_nat i) (ucast width :: usize);
          let y_pos = (ucast y :: u32);
          let x_pos = (ucast ((of_nat i :: usize) mod ucast width) :: u32);
          if sc_character c = SPACE
          then do { x0 \<leftarrow> checked_mul x_pos (glyph_width (font_header font));
                    y0 \<leftarrow> checked_mul y_pos (glyph_height (font_header font));
                    fill_box (x0, y0) (glyph_width (font_header font), glyph_height (font_header font)) (sc_background c) fb }
          else draw_glyph font x_pos y_pos c fb }"

definition render_cell :: "terminal \<Rightarrow> nat \<times> screen_char \<Rightarrow> framebuffer \<times> screen_char list \<Rightarrow> (framebuffer \<times> screen_char list) option" where
  "render_cell t cell s =
     do { let (i, c) = cell;
          let (fb, back) = s;
          old \<leftarrow> slice_get back i;
          if c \<noteq> old
          then do { fb \<leftarrow> draw_cell (t_font t) (t_width t) i c fb;
                    back \<leftarrow> slice_set back i c;
                    Some (fb, back) }
          else Some (fb, back) }"

definition render :: "console \<Rightarrow> console option" where
  "render s =
     do { fb \<leftarrow> FRAMEBUFFER s;
          let t = console_terminal s;
          (fb, back) \<leftarrow> for_each (render_cell t) (enumerate 0 (front_buffer t)) (fb, back_buffer t);
          Some (s\<lparr>FRAMEBUFFER := Some fb, console_terminal := t\<lparr>back_buffer := back\<rparr>\<rparr>) }"

subsection \<open>Cursor and attributes\<close>

definition update_state :: "(terminal_state \<Rightarrow> terminal_state) \<Rightarrow> console \<Rightarrow> console" where
  "update_state f s =
     s\<lparr>console_terminal := (console_terminal s)\<lparr>current_state := f (current_state (console_terminal s))\<rparr>\<rparr>"

definition terminal_reset :: "console \<Rightarrow> console option" where
  "terminal_reset s =
     do { fb \<leftarrow> FRAMEBUFFER s;
          let t = console_terminal s;
          Some \<lparr>FRAMEBUFFER = Some (fb_clear fb),
            console_terminal = t\<lparr>current_state := terminal_state_default,
              front_buffer := replicate (length (front_buffer t)) screen_char_default,
              back_buffer := replicate (length (back_buffer t)) screen_char_default\<rparr>\<rparr> }"

definition reset_attributes :: "terminal_state \<Rightarrow> terminal_state" where
  "reset_attributes st = st\<lparr>ts_background := VGA_COLORS ! 0, ts_foreground := VGA_BRIGHT_COLORS ! 7\<rparr>"

text \<open>
  \<^verbatim>\<open>copy_within\<close> moves the lines after the first one up; the slices panic when the buffer is shorter than a line.
\<close>

definition scroll :: "nat \<Rightarrow> screen_char list \<Rightarrow> screen_char list option" where
  "scroll width buffer =
     do { guard (width \<le> length buffer);
          let moved = drop width buffer @ drop (length buffer - width) buffer;
          Some (take (length buffer - width) moved @ replicate width screen_char_default) }"

definition new_line :: "console \<Rightarrow> console option" where
  "new_line s =
     do { let t = console_terminal s;
          y \<leftarrow> checked_add (cursor_y (current_state t)) 1;
          let s = update_state (\<lambda>st. st\<lparr>cursor_y := y\<rparr>) s;
          s \<leftarrow> (if t_height t \<le> y
                then do { last_line \<leftarrow> checked_sub (t_height t) 1;
                          buffer \<leftarrow> scroll (unat (t_width t)) (front_buffer t);
                          let s = update_state (\<lambda>st. st\<lparr>cursor_y := last_line\<rparr>) s;
                          Some (s\<lparr>console_terminal := (console_terminal s)\<lparr>front_buffer := buffer\<rparr>\<rparr>) }
                else Some s);
          render s }"

definition put_char :: "rust_char \<Rightarrow> console \<Rightarrow> console option" where
  "put_char character s =
     do { let t = console_terminal s;
          let st = current_state t;
          row \<leftarrow> checked_mul (cursor_y st) (t_width t);
          i \<leftarrow> checked_add row (cursor_x st);
          buffer \<leftarrow> slice_set (front_buffer t) (unat i)
            \<lparr>sc_character = character, sc_foreground = ts_foreground st, sc_background = ts_background st\<rparr>;
          x \<leftarrow> checked_add (cursor_x st) 1;
          let s = update_state (\<lambda>st. st\<lparr>cursor_x := x\<rparr>) (s\<lparr>console_terminal := t\<lparr>front_buffer := buffer\<rparr>\<rparr>);
          if t_width t \<le> x
          then do { x \<leftarrow> checked_sub x 1;
                    s \<leftarrow> new_line (update_state (\<lambda>st. st\<lparr>cursor_x := x\<rparr>) s);
                    Some (update_state (\<lambda>st. st\<lparr>cursor_x := 0\<rparr>) s) }
          else Some s }"

subsection \<open>Escape sequences\<close>

definition is_digit :: "rust_char \<Rightarrow> bool" where
  "is_digit c \<longleftrightarrow> 48 \<le> c \<and> c \<le> 57"

definition SEMICOLON :: rust_char where "SEMICOLON = 59"
definition LETTER_M :: rust_char where "LETTER_M = 109"
definition ESC :: rust_char where "ESC = 0x1B"
definition BRACKET :: rust_char where "BRACKET = 91"

text \<open>\<^verbatim>\<open>arg * 10 + character as u32 - 48\<close>\<close>

definition next_digit :: "u32 \<Rightarrow> rust_char \<Rightarrow> u32 option" where
  "next_digit arg c =
     do { a \<leftarrow> checked_mul arg 10;
          b \<leftarrow> checked_add a c;
          checked_sub b 48 }"

text \<open>The colour of the 256-colour palette, \<open>None\<close> inside when there is none.\<close>

definition color_256 :: "u32 \<Rightarrow> u32 option option" where
  "color_256 arg3 =
     (if arg3 \<le> 7 then do { c \<leftarrow> slice_get VGA_COLORS (unat arg3); Some (Some c) }
      else if arg3 \<le> 15 then do { c \<leftarrow> slice_get VGA_BRIGHT_COLORS (unat arg3 - 8); Some (Some c) }
      else if arg3 \<le> 231
      then do { let cube_index = (ucast (ucast (arg3 - 16) :: u8) :: u32);
                let r_index = cube_index div 36;
                let g_index = (cube_index mod 36) div 6;
                let b_index = cube_index mod 6;
                let scale_factor = (255 div 5 :: u32);
                r \<leftarrow> checked_mul r_index scale_factor;
                g \<leftarrow> checked_mul g_index scale_factor;
                b \<leftarrow> checked_mul b_index scale_factor;
                Some (Some (push_bit 16 r OR push_bit 8 g OR b)) }
      else if arg3 \<le> 255
      then do { scaled \<leftarrow> checked_mul 0xFF arg3;
                shifted \<leftarrow> checked_sub scaled 232;
                let grey = shifted div 23;
                Some (Some (push_bit 16 grey OR push_bit 8 grey OR grey)) }
      else Some None)"

text \<open>The first argument of a colour sequence is 38 for the foreground and 48 for the background.\<close>

definition set_attribute :: "u32 \<Rightarrow> u32 \<Rightarrow> terminal_state \<Rightarrow> terminal_state" where
  "set_attribute arg1 color st =
     (if arg1 = 38 then st\<lparr>ts_foreground := color\<rparr> else st\<lparr>ts_background := color\<rparr>)"

definition sgr_one :: "u32 \<Rightarrow> terminal_state \<Rightarrow> terminal_state option" where
  "sgr_one arg st =
     (if arg = 0 then Some (reset_attributes st)
      else if 30 \<le> arg \<and> arg \<le> 37 then do { c \<leftarrow> slice_get VGA_COLORS (unat arg - 30); Some (st\<lparr>ts_foreground := c\<rparr>) }
      else if 40 \<le> arg \<and> arg \<le> 47 then do { c \<leftarrow> slice_get VGA_COLORS (unat arg - 40); Some (st\<lparr>ts_background := c\<rparr>) }
      else Some st)"

definition sgr_three :: "u32 \<Rightarrow> u32 \<Rightarrow> u32 \<Rightarrow> terminal_state \<Rightarrow> terminal_state option" where
  "sgr_three arg1 arg2 arg3 st =
     (if (arg1 \<noteq> 38 \<and> arg1 \<noteq> 48) \<or> arg2 \<noteq> 5 then Some st
      else do { color \<leftarrow> color_256 arg3;
                case color of None \<Rightarrow> Some st | Some c \<Rightarrow> Some (set_attribute arg1 c st) })"

definition sgr_five :: "u32 \<Rightarrow> u32 \<Rightarrow> u32 \<Rightarrow> u32 \<Rightarrow> u32 \<Rightarrow> terminal_state \<Rightarrow> terminal_state" where
  "sgr_five arg1 arg2 arg3 arg4 arg5 st =
     (if (arg1 \<noteq> 38 \<and> arg1 \<noteq> 48) \<or> arg2 \<noteq> 2 then st
      else set_attribute arg1 (push_bit 16 (arg3 AND 0xFF) OR push_bit 8 (arg4 AND 0xFF) OR (arg5 AND 0xFF)) st)"

text \<open>One character of an escape sequence: the new mode, and what a final \<^verbatim>\<open>m\<close> does to the attributes.\<close>

definition escape_step :: "rust_char \<Rightarrow> terminal_state \<Rightarrow> terminal_state option" where
  "escape_step c st =
     (case ts_mode st of
        TextMode \<Rightarrow> Some st
      | Escape1 \<Rightarrow> Some (st\<lparr>ts_mode := if c = BRACKET then Escape2 else TextMode\<rparr>)
      | Escape2 \<Rightarrow>
          if is_digit c then do { d \<leftarrow> checked_sub c 48; Some (st\<lparr>ts_mode := FirstArgument d\<rparr>) }
          else if c = SEMICOLON then Some (st\<lparr>ts_mode := FirstArgumentEnd 0\<rparr>)
          else if c = LETTER_M then Some ((reset_attributes st)\<lparr>ts_mode := TextMode\<rparr>)
          else Some (st\<lparr>ts_mode := TextMode\<rparr>)
      | FirstArgument arg \<Rightarrow>
          if is_digit c then do { d \<leftarrow> next_digit arg c; Some (st\<lparr>ts_mode := FirstArgument d\<rparr>) }
          else if c = SEMICOLON then Some (st\<lparr>ts_mode := FirstArgumentEnd arg\<rparr>)
          else if c = LETTER_M then do { st \<leftarrow> sgr_one arg st; Some (st\<lparr>ts_mode := TextMode\<rparr>) }
          else Some (st\<lparr>ts_mode := TextMode\<rparr>)
      | FirstArgumentEnd arg \<Rightarrow>
          if is_digit c then do { d \<leftarrow> checked_sub c 48; Some (st\<lparr>ts_mode := SecondArgument arg d\<rparr>) }
          else if c = SEMICOLON then Some (st\<lparr>ts_mode := SecondArgumentEnd arg 0\<rparr>)
          else Some (st\<lparr>ts_mode := TextMode\<rparr>)
      | SecondArgument arg1 arg2 \<Rightarrow>
          if is_digit c then do { d \<leftarrow> next_digit arg2 c; Some (st\<lparr>ts_mode := SecondArgument arg1 d\<rparr>) }
          else if c = SEMICOLON then Some (st\<lparr>ts_mode := SecondArgumentEnd arg1 arg2\<rparr>)
          else Some (st\<lparr>ts_mode := TextMode\<rparr>)
      | SecondArgumentEnd arg1 arg2 \<Rightarrow>
          if is_digit c then do { d \<leftarrow> checked_sub c 48; Some (st\<lparr>ts_mode := ThirdArgument arg1 arg2 d\<rparr>) }
          else if c = SEMICOLON then Some (st\<lparr>ts_mode := ThirdArgumentEnd arg1 arg2 0\<rparr>)
          else Some (st\<lparr>ts_mode := TextMode\<rparr>)
      | ThirdArgument arg1 arg2 arg3 \<Rightarrow>
          if is_digit c then do { d \<leftarrow> next_digit arg3 c; Some (st\<lparr>ts_mode := ThirdArgument arg1 arg2 d\<rparr>) }
          else if c = SEMICOLON then Some (st\<lparr>ts_mode := ThirdArgumentEnd arg1 arg2 arg3\<rparr>)
          else if c = LETTER_M then do { st \<leftarrow> sgr_three arg1 arg2 arg3 st; Some (st\<lparr>ts_mode := TextMode\<rparr>) }
          else Some (st\<lparr>ts_mode := TextMode\<rparr>)
      | ThirdArgumentEnd arg1 arg2 arg3 \<Rightarrow>
          if is_digit c then do { d \<leftarrow> checked_sub c 48; Some (st\<lparr>ts_mode := FourthArgument arg1 arg2 arg3 d\<rparr>) }
          else if c = SEMICOLON then Some (st\<lparr>ts_mode := FourthArgumentEnd arg1 arg2 arg3 0\<rparr>)
          else Some (st\<lparr>ts_mode := TextMode\<rparr>)
      | FourthArgument arg1 arg2 arg3 arg4 \<Rightarrow>
          if is_digit c then do { d \<leftarrow> next_digit arg4 c; Some (st\<lparr>ts_mode := FourthArgument arg1 arg2 arg3 d\<rparr>) }
          else if c = SEMICOLON then Some (st\<lparr>ts_mode := FourthArgumentEnd arg1 arg2 arg3 arg4\<rparr>)
          else Some (st\<lparr>ts_mode := TextMode\<rparr>)
      | FourthArgumentEnd arg1 arg2 arg3 arg4 \<Rightarrow>
          if is_digit c then do { d \<leftarrow> checked_sub c 48; Some (st\<lparr>ts_mode := FifthArgument arg1 arg2 arg3 arg4 d\<rparr>) }
          else Some (st\<lparr>ts_mode := TextMode\<rparr>)
      | FifthArgument arg1 arg2 arg3 arg4 arg5 \<Rightarrow>
          if is_digit c then do { d \<leftarrow> next_digit arg5 c; Some (st\<lparr>ts_mode := FifthArgument arg1 arg2 arg3 arg4 d\<rparr>) }
          else if c = LETTER_M then Some ((sgr_five arg1 arg2 arg3 arg4 arg5 st)\<lparr>ts_mode := TextMode\<rparr>)
          else Some (st\<lparr>ts_mode := TextMode\<rparr>))"

subsection \<open>Writing text\<close>

definition text_step :: "rust_char \<Rightarrow> console \<Rightarrow> console option" where
  "text_step c s =
     (if c = ESC then Some (update_state (\<lambda>st. st\<lparr>ts_mode := Escape1\<rparr>) s)
      else if c = 10 then do { s \<leftarrow> new_line s; Some (update_state (\<lambda>st. st\<lparr>cursor_x := 0\<rparr>) s) }
      else if c = 13 then Some (update_state (\<lambda>st. st\<lparr>cursor_x := 0\<rparr>) s)
      else if c = 9 then do { x \<leftarrow> checked_add (cursor_x (current_state (console_terminal s)) mod 8) 1;
                             x \<leftarrow> checked_mul x 8;
                             Some (update_state (\<lambda>st. st\<lparr>cursor_x := x\<rparr>) s) }
      else put_char c s)"

definition write_step :: "rust_char \<Rightarrow> console \<Rightarrow> console option" where
  "write_step c s =
     (if ts_mode (current_state (console_terminal s)) = TextMode then text_step c s
      else do { st \<leftarrow> escape_step c (current_state (console_terminal s));
                Some (update_state (\<lambda>_. st) s) })"

definition terminal_write :: "rust_char list \<Rightarrow> console \<Rightarrow> console option" where
  "terminal_write text s = for_each write_step text s"

end
