(* ===== verification/Terminal_Render.thy ===== *)
theory Terminal_Render
  imports Terminal
begin

text \<open>
  What the console shows. The picture of a buffer of cells gives every pixel of the text area its colour; drawing a cell
  paints the part of the picture that belongs to it, and \<open>render\<close>, which draws the changed cells only, leaves the
  whole picture of the front buffer on the screen.
\<close>

lemma unat_ucast_usize: "unat (ucast (w :: u32) :: usize) = unat w"
  by (rule unat_ucast_up) simp

subsection \<open>The picture of a buffer\<close>

text \<open>
  The fonts the console can draw: eight pixels wide, at most sixteen lines high, with a question mark and the data of all
  glyphs. The font that the kernel loads, \<^verbatim>\<open>src/initrd/template/etc/kernel/standard_font.psf\<close>, is one: 128 glyphs of sixteen lines,
  and exactly 2048 bytes of data.
\<close>

definition font_ok :: "psf_font \<Rightarrow> bool" where
  "font_ok font \<longleftrightarrow> glyph_width (font_header font) = 8 \<and> 0 < glyph_height (font_header font) \<and> glyph_height (font_header font) \<le> 16
     \<and> bytes_per_glyph (font_header font) = 16 \<and> 63 < num_glyphs (font_header font)
     \<and> 16 * unat (num_glyphs (font_header font)) \<le> length (font_data font)"

text \<open>
  The number of the glyph of a character, and the characters that can be drawn: \<open>get_character\<close> returns no lines for a glyph that ends where
  the data ends, and drawing that glyph panics. In the font that the kernel loads this is the glyph of U+007F alone.
\<close>

definition glyph_number :: "psf_font \<Rightarrow> rust_char \<Rightarrow> nat" where
  "glyph_number font c = (if num_glyphs (font_header font) \<le> c then 63 else unat c)"

definition drawable :: "psf_font \<Rightarrow> rust_char \<Rightarrow> bool" where
  "drawable font c \<longleftrightarrow> c = SPACE \<or> 16 * glyph_number font c + 16 < length (font_data font)"

lemma drawable_SPACE [simp]: "drawable font SPACE" "drawable font (sc_character screen_char_default)"
  by (simp_all add: drawable_def screen_char_default_def)

abbreviation font_height :: "psf_font \<Rightarrow> nat" where
  "font_height font \<equiv> unat (glyph_height (font_header font))"

definition glyph_line :: "psf_font \<Rightarrow> rust_char \<Rightarrow> nat \<Rightarrow> u8" where
  "glyph_line font c dy =
     font_data font ! (16 * glyph_number font c + dy)"

definition cell_pixel :: "psf_font \<Rightarrow> screen_char \<Rightarrow> nat \<Rightarrow> nat \<Rightarrow> u32" where
  "cell_pixel font c dx dy =
     (if sc_character c \<noteq> SPACE \<and> bit (glyph_line font (sc_character c) dy) (8 - dx) then sc_foreground c else sc_background c)"

definition cell_of :: "psf_font \<Rightarrow> nat \<Rightarrow> u32 \<times> u32 \<Rightarrow> nat" where
  "cell_of font width p = unat (snd p) div font_height font * width + unat (fst p) div 8"

definition picture :: "psf_font \<Rightarrow> nat \<Rightarrow> screen_char list \<Rightarrow> u32 \<times> u32 \<Rightarrow> u32" where
  "picture font width buffer p =
     cell_pixel font (buffer ! cell_of font width p) (unat (fst p) mod 8) (unat (snd p) mod font_height font)"

definition cell_area :: "psf_font \<Rightarrow> nat \<Rightarrow> nat \<Rightarrow> (u32 \<times> u32) set" where
  "cell_area font width i = {p. unat (fst p) div 8 = i mod width \<and> unat (snd p) div font_height font = i div width}"

lemma cell_of_area: "p \<in> cell_area font width i \<Longrightarrow> cell_of font width p = i"
  by (simp add: cell_area_def cell_of_def)

lemma get_character_glyph:
  assumes "font_ok font" "drawable font c" "c \<noteq> SPACE"
  obtains bm where "get_character font c = Some bm" "length bm = 16" "\<And>dy. dy < 16 \<Longrightarrow> bm ! dy = glyph_line font c dy"
proof -
  let ?n = "num_glyphs (font_header font)"
  define i where "i = (if (ucast ?n :: usize) \<le> ucast c then QUESTION_MARK else ucast c)"
  have le: "((ucast ?n :: usize) \<le> ucast c) = (?n \<le> c)" by (simp add: word_le_nat_alt unat_ucast_usize)
  have i: "unat i = glyph_number font c" unfolding i_def le by (simp add: QUESTION_MARK_def unat_ucast_usize glyph_number_def)
  have small: "unat i < unat ?n" unfolding i glyph_number_def using assms(1) by (auto simp: font_ok_def word_le_nat_alt word_less_nat_alt)
  have n: "unat ?n < 2 ^ 32" using unsigned_less [of ?n, where ?'a = nat] by simp
  have sixteen: "(ucast (bytes_per_glyph (font_header font)) :: usize) = 16" using assms(1) by (simp add: font_ok_def)
  have start: "checked_mul 16 i = Some (16 * i)" "unat (16 * i) = 16 * unat i"
    using small n by (simp_all add: checked_mul_def unat_word_ariths)
  have stop: "checked_add (16 * i) 16 = Some (16 * i + 16)" "unat (16 * i + 16) = 16 * unat i + 16"
    using small n start by (simp_all add: checked_add_def unat_word_ariths)
  have room: "16 * unat i + 16 < length (font_data font)" using assms(2,3) by (simp add: drawable_def i)
  let ?bm = "take 16 (drop (16 * unat i) (font_data font))"
  have "get_character font c = Some ?bm"
    unfolding get_character_def Let_def i_def [symmetric] sixteen using start stop room by (simp add: slice_range_def)
  moreover have "length ?bm = 16" using room by simp
  moreover have "\<And>dy. dy < 16 \<Longrightarrow> ?bm ! dy = glyph_line font c dy"
    using room by (simp add: glyph_line_def i [symmetric])
  ultimately show ?thesis by (rule that)
qed

subsection \<open>Drawing one cell\<close>

lemma mul_one: "checked_mul 1 (w :: u32) = Some w" "checked_mul 0 (w :: u32) = Some 0"
  by (simp_all add: checked_mul_Some)

lemma checked_sub_one: "checked_sub 1 1 = Some (0 :: u32)" "checked_sub 1 0 = Some (1 :: u32)"
  by (simp_all add: checked_sub_def)

lemma draw_bits_paint:
  assumes "fb_ok fb" and "unat x + 8 \<le> unat (fb_width fb)" and "y < fb_height fb" and "n \<le> 8"
    and "\<And>k. k < n \<Longrightarrow> g (x + of_nat k, y) = (if bit line (8 - k) then sc_foreground c else sc_background c)"
  shows "\<exists>l fb'. for_each (draw_bit x y c) (map of_nat [8 - n..<8]) (drop_bit (8 - n) line, fb) = Some (l, fb')
     \<and> paints {p. unat x \<le> unat (fst p) \<and> unat (fst p) < unat x + n \<and> snd p = y} g fb fb'"
  using assms
proof (induction n arbitrary: fb)
  case 0
  have "{p :: u32 \<times> u32. unat x \<le> unat (fst p) \<and> unat (fst p) < unat x + 0 \<and> snd p = y} = {}" by auto
  then show ?case using paints_refl by (simp del: Collect_empty_eq)
next
  case (Suc m)
  let ?color = "if bit line (8 - m) then sc_foreground c else sc_background c"
  have upt: "[8 - Suc m..<8] = (7 - m) # [8 - m..<8]" 
    using Suc.prems(4) upt_conv_Cons [of "7 - m" 8] Suc_diff_le [of m 7] by simp
  have W: "unat (fb_width fb) < 2 ^ 32" using unsigned_less [of "fb_width fb", where ?'a = nat] by simp
  have col: "checked_sub 7 (of_nat (7 - m)) = Some (of_nat m :: u32)"
    using Suc.prems(4) unfolding checked_sub_Some by (subst (1 2) unat_of_nat_small) simp_all
  have px: "checked_add x (of_nat m) = Some (x + of_nat m)" "unat (x + of_nat m) = unat x + m"
    using Suc.prems(2,4) W by (simp_all add: checked_add_def unat_word_ariths unat_of_nat_small)
  have shift: "drop_bit 1 (drop_bit (8 - Suc m) line) = drop_bit (8 - m) line"
    using Suc.prems(4) Suc_diff_le [of m 7] by simp
  have mask: "(ucast (drop_bit (8 - m) line AND 1) :: u32) = (if bit line (8 - m) then 1 else 0)"
    by (simp add: and_one_eq mod_2_eq_odd bit_iff_odd_drop_bit)
  have on: "on_screen fb (x + of_nat m, y)"
    using px(2) Suc.prems(2,3,4) by (simp add: on_screen_def word_less_nat_alt)
  have g: "g (x + of_nat m, y) = ?color" using Suc.prems(5) [of m] by simp
  from fb_set_paints [OF Suc.prems(1) on, of g] obtain fb1 where
    fb1: "fb_set (x + of_nat m, y) ?color fb = Some fb1" "paints {(x + of_nat m, y)} g fb fb1" by (auto simp: g)
  have step: "draw_bit x y c (of_nat (7 - m)) (drop_bit (8 - Suc m) line, fb) = Some (drop_bit (8 - m) line, fb1)"
    unfolding draw_bit_def Let_def prod.case shift mask
    using col px(1) fb1(1) by (cases "bit line (8 - m)") (simp_all add: mul_one checked_sub_one)
  have same: "fb_ok fb1" "fb_width fb1 = fb_width fb" "fb_height fb1 = fb_height fb"
    using fb1(2) Suc.prems(1) by (auto simp: paints_def same_screen_ok) (auto simp: same_screen_def)
  from Suc.IH [of fb1] same Suc.prems obtain l fb2 where
    fb2: "for_each (draw_bit x y c) (map of_nat [8 - m..<8]) (drop_bit (8 - m) line, fb1) = Some (l, fb2)"
      "paints {p. unat x \<le> unat (fst p) \<and> unat (fst p) < unat x + m \<and> snd p = y} g fb1 fb2" by fastforce
  have "{(x + of_nat m, y)} \<union> {p. unat x \<le> unat (fst p) \<and> unat (fst p) < unat x + m \<and> snd p = y}
      = {p. unat x \<le> unat (fst p) \<and> unat (fst p) < unat x + Suc m \<and> snd p = y}"
    using px(2) by (auto simp: word_unat_eq_iff)
  then show ?case using fb2(1) step upt paints_trans [OF fb1(2) fb2(2)] by auto
qed

lemma draw_line_paints:
  assumes "fb_ok fb" "font_ok font" "length bm = 16" "line_i < glyph_height (font_header font)"
    and "(unat x_pos + 1) * 8 \<le> unat (fb_width fb)" "(unat y_pos + 1) * font_height font \<le> unat (fb_height fb)"
    and g: "\<And>p. unat (fst p) div 8 = unat x_pos \<Longrightarrow> unat (snd p) = unat y_pos * font_height font + unat line_i \<Longrightarrow>
       g p = (if bit (bm ! unat line_i) (8 - unat (fst p) mod 8) then sc_foreground c else sc_background c)"
  shows "\<exists>fb'. draw_line font x_pos y_pos c bm line_i fb = Some fb'
     \<and> paints {p. unat (fst p) div 8 = unat x_pos \<and> unat (snd p) = unat y_pos * font_height font + unat line_i} g fb fb'"
proof -
  let ?h = "glyph_height (font_header font)"
  have h: "unat ?h \<le> 16" "unat line_i < unat ?h" using assms(2,4) by (auto simp: font_ok_def word_le_nat_alt word_less_nat_alt)
  have W: "unat (fb_width fb) < 2 ^ 32" "unat (fb_height fb) < 2 ^ 32"
    using unsigned_less [of "fb_width fb", where ?'a = nat] unsigned_less [of "fb_height fb", where ?'a = nat] by simp_all
  have x: "checked_mul x_pos 8 = Some (x_pos * 8)" "unat (x_pos * 8) = unat x_pos * 8"
    using assms(5) W by (simp_all add: checked_mul_def unat_word_ariths)
  have row: "checked_mul y_pos ?h = Some (y_pos * ?h)" "unat (y_pos * ?h) = unat y_pos * unat ?h"
    using assms(6) W by (simp_all add: checked_mul_def unat_word_ariths)
  have y: "checked_add (y_pos * ?h) line_i = Some (y_pos * ?h + line_i)" "unat (y_pos * ?h + line_i) = unat y_pos * unat ?h + unat line_i"
    using assms(6) W h by (simp_all add: checked_add_def unat_word_ariths row(2))
  have yon: "y_pos * ?h + line_i < fb_height fb" using y(2) h assms(6) by (simp add: word_less_nat_alt)
  have gk: "g (x_pos * 8 + of_nat k, y_pos * ?h + line_i) = (if bit (bm ! unat line_i) (8 - k) then sc_foreground c else sc_background c)"
    if "k < 8" for k
  proof -
    have "unat (x_pos * 8 + of_nat k) = unat x_pos * 8 + k"
      using that assms(5) W by (simp add: unat_word_ariths unat_of_nat_small x(2))
    then show ?thesis using that by (subst g) (simp_all add: y(2))
  qed
  have "[0..<8] = [0, 1, 2, 3, 4, 5, 6, 7 :: nat]" by (simp add: upt_rec)
  then have range: "u32_range 0 8 = map of_nat [8 - 8..<8]" by (simp add: u32_range_def)
  have "unat (x_pos * 8) + 8 \<le> unat (fb_width fb)" using assms(5) x(2) by simp
  from draw_bits_paint [where g = g and line = "bm ! unat line_i" and c = c, OF assms(1) this yon order_refl gk]
  obtain l fb' where fb': "for_each (draw_bit (x_pos * 8) (y_pos * ?h + line_i) c) (u32_range 0 8) (bm ! unat line_i, fb) = Some (l, fb')"
    "paints {p. unat (x_pos * 8) \<le> unat (fst p) \<and> unat (fst p) < unat (x_pos * 8) + 8 \<and> snd p = y_pos * ?h + line_i} g fb fb'"
    unfolding range by auto
  have area: "{p. unat (x_pos * 8) \<le> unat (fst p) \<and> unat (fst p) < unat (x_pos * 8) + 8 \<and> snd p = y_pos * ?h + line_i}
      = {p. unat (fst p) div 8 = unat x_pos \<and> unat (snd p) = unat y_pos * unat ?h + unat line_i}"
    by (rule Collect_cong) (use x(2) y(2) in \<open>auto simp: word_unat_eq_iff\<close>)
  have "draw_line font x_pos y_pos c bm line_i fb = Some fb'"
    using fb'(1) assms(2,3) h x(1) row(1) y(1) by (simp add: draw_line_def slice_get_def font_ok_def)
  with fb'(2) show ?thesis unfolding area by blast
qed

text \<open>The screen has the cell.\<close>

definition cell_fits :: "framebuffer \<Rightarrow> psf_font \<Rightarrow> nat \<Rightarrow> nat \<Rightarrow> bool" where
  "cell_fits fb font width i \<longleftrightarrow> (i mod width + 1) * 8 \<le> unat (fb_width fb) \<and> (i div width + 1) * font_height font \<le> unat (fb_height fb)"

lemma draw_glyph_paints:
  assumes ok: "fb_ok fb" "font_ok font" and fit: "cell_fits fb font width i"
    and pos: "unat x_pos = i mod width" "unat y_pos = i div width"
    and g: "\<And>p. p \<in> cell_area font width i \<Longrightarrow> g p = cell_pixel font c (unat (fst p) mod 8) (unat (snd p) mod font_height font)"
    and c: "drawable font (sc_character c)" "sc_character c \<noteq> SPACE"
  shows "\<exists>fb'. draw_glyph font x_pos y_pos c fb = Some fb' \<and> paints (cell_area font width i) g fb fb'"
proof -
  let ?h = "glyph_height (font_header font)"
  let ?R = "\<lambda>line_i :: u32. {p. unat (fst p) div 8 = unat x_pos \<and> unat (snd p) = unat y_pos * unat ?h + unat line_i}"
  have h: "0 < unat ?h" "unat ?h \<le> 16" using ok(2) by (auto simp: font_ok_def word_le_nat_alt word_less_nat_alt)
  obtain bm where bm: "get_character font (sc_character c) = Some bm" "length bm = 16"
    "\<And>dy. dy < 16 \<Longrightarrow> bm ! dy = glyph_line font (sc_character c) dy" by (rule get_character_glyph [OF ok(2) c]) (rule that)
  have line: "\<exists>fb''. draw_line font x_pos y_pos c bm line_i fb' = Some fb'' \<and> paints (?R line_i) g fb' fb''"
    if l: "line_i \<in> set (u32_range 0 ?h)" and s: "same_screen fb fb'" "fb_ok fb'" for line_i fb'
  proof (rule draw_line_paints [OF s(2) ok(2) bm(2)])
    show line_i: "line_i < ?h" using l by (simp add: set_u32_range)
    show "(unat x_pos + 1) * 8 \<le> unat (fb_width fb')" "(unat y_pos + 1) * unat ?h \<le> unat (fb_height fb')"
      using fit s(1) by (simp_all add: cell_fits_def same_screen_def pos)
    fix p :: "u32 \<times> u32" assume p: "unat (fst p) div 8 = unat x_pos" "unat (snd p) = unat y_pos * unat ?h + unat line_i"
    have lt: "unat line_i < unat ?h" using line_i by (simp add: word_less_nat_alt)
    have "p \<in> cell_area font width i" "unat (snd p) mod unat ?h = unat line_i"
      using p lt by (simp_all add: cell_area_def pos)
    then show "g p = (if bit (bm ! unat line_i) (8 - unat (fst p) mod 8) then sc_foreground c else sc_background c)"
      using g c bm(3) lt h by (simp add: cell_pixel_def)
  qed
  from for_each_paints [of "u32_range 0 ?h" fb "draw_line font x_pos y_pos c bm" ?R g, OF line ok(1)]
  obtain fb' where fb': "for_each (draw_line font x_pos y_pos c bm) (u32_range 0 ?h) fb = Some fb'"
    "paints (\<Union>line_i \<in> set (u32_range 0 ?h). ?R line_i) g fb fb'" by blast
  have "(\<Union>line_i \<in> set (u32_range 0 ?h). ?R line_i) = cell_area font width i"
  proof (intro set_eqI iffI)
    fix p assume "p \<in> cell_area font width i"
    then have p: "unat (fst p) div 8 = unat x_pos" "unat (snd p) div unat ?h = unat y_pos" by (simp_all add: cell_area_def pos)
    let ?l = "of_nat (unat (snd p) mod unat ?h) :: u32"
    have l: "unat (snd p) mod unat ?h < unat ?h" "unat ?l = unat (snd p) mod unat ?h"
      using h by (simp_all add: unat_of_nat_small order_less_trans [OF mod_less_divisor])
    have "p \<in> ?R ?l" using p(1) div_mult_mod_eq [of "unat (snd p)" "unat ?h"] unfolding p(2) l(2) by simp
    moreover have "?l \<in> set (u32_range 0 ?h)" using l by (simp add: set_u32_range word_less_nat_alt)
    ultimately show "p \<in> (\<Union>line_i \<in> set (u32_range 0 ?h). ?R line_i)" by blast
  qed (auto simp: cell_area_def pos set_u32_range word_less_nat_alt)
  with fb' show ?thesis by (simp add: draw_glyph_def bm(1))
qed

text \<open>
  The terminal matches the screen: the cells fit on it, the index of a cell is a 16-bit number, and the characters that are to be shown
  can be drawn.
\<close>

definition terminal_ok :: "framebuffer \<Rightarrow> terminal \<Rightarrow> bool" where
  "terminal_ok fb t \<longleftrightarrow> font_ok (t_font t) \<and> 0 < t_width t \<and> 0 < t_height t
     \<and> unat (t_width t) * unat (t_height t) \<le> 2 ^ 16
     \<and> unat (t_width t) * 8 \<le> unat (fb_width fb)
     \<and> unat (t_height t) * font_height (t_font t) \<le> unat (fb_height fb)
     \<and> length (front_buffer t) = unat (t_width t) * unat (t_height t)
     \<and> length (back_buffer t) = unat (t_width t) * unat (t_height t)
     \<and> (\<forall>c \<in> set (front_buffer t). drawable (t_font t) (sc_character c))"

definition text_area :: "terminal \<Rightarrow> (u32 \<times> u32) set" where
  "text_area t = {p. unat (fst p) div 8 < unat (t_width t) \<and> unat (snd p) div font_height (t_font t) < unat (t_height t)}"

abbreviation terminal_picture :: "terminal \<Rightarrow> screen_char list \<Rightarrow> u32 \<times> u32 \<Rightarrow> u32" where
  "terminal_picture t \<equiv> picture (t_font t) (unat (t_width t))"

text \<open>The pixels of the text area are the picture of the buffer.\<close>

definition displays :: "terminal \<Rightarrow> screen_char list \<Rightarrow> framebuffer \<Rightarrow> bool" where
  "displays t buffer fb \<longleftrightarrow> (\<forall>p \<in> text_area t. fb_get fb p = Some (terminal_picture t buffer p))"

lemma terminal_okD:
  assumes "terminal_ok fb t"
  shows "font_ok (t_font t)" "0 < unat (t_width t)" "0 < unat (t_height t)" "0 < font_height (t_font t)"
    "unat (t_width t) * unat (t_height t) \<le> 65536"
  using assms by (auto simp: terminal_ok_def font_ok_def word_less_nat_alt)

lemma cell_div_less: "i < w * h \<Longrightarrow> i div w < (h :: nat)"
  by (simp add: less_mult_imp_div_less mult.commute)

lemma cell_fits_ok:
  assumes "terminal_ok fb t" "i < unat (t_width t) * unat (t_height t)"
  shows "cell_fits fb (t_font t) (unat (t_width t)) i"
proof -
  have "Suc (i mod unat (t_width t)) \<le> unat (t_width t)" using terminal_okD(2) [OF assms(1)] by (simp add: Suc_leI)
  then have "Suc (i mod unat (t_width t)) * 8 \<le> unat (t_width t) * 8" by (rule mult_le_mono1)
  moreover have "Suc (i div unat (t_width t)) \<le> unat (t_height t)" using cell_div_less [OF assms(2)] by (rule Suc_leI)
  then have "Suc (i div unat (t_width t)) * font_height (t_font t) \<le> unat (t_height t) * font_height (t_font t)" by (rule mult_le_mono1)
  ultimately show ?thesis using assms(1) by (simp add: cell_fits_def terminal_ok_def)
qed

lemma text_area_cells:
  assumes "terminal_ok fb t"
  shows "text_area t = (\<Union>i < unat (t_width t) * unat (t_height t). cell_area (t_font t) (unat (t_width t)) i)"
proof (intro set_eqI iffI)
  fix p assume p: "p \<in> text_area t"
  let ?i = "cell_of (t_font t) (unat (t_width t)) p"
  have "?i < unat (t_width t) * unat (t_height t)"
  proof -
    have "Suc (unat (snd p) div font_height (t_font t)) * unat (t_width t) \<le> unat (t_height t) * unat (t_width t)"
      using p by (intro mult_le_mono1 Suc_leI) (simp add: text_area_def)
    then show ?thesis using p by (simp add: text_area_def cell_of_def algebra_simps)
  qed
  moreover have "p \<in> cell_area (t_font t) (unat (t_width t)) ?i" using p by (simp add: text_area_def cell_area_def cell_of_def)
  ultimately show "p \<in> (\<Union>i < unat (t_width t) * unat (t_height t). cell_area (t_font t) (unat (t_width t)) i)" by blast
next
  fix p assume "p \<in> (\<Union>i < unat (t_width t) * unat (t_height t). cell_area (t_font t) (unat (t_width t)) i)"
  then show "p \<in> text_area t"
    using terminal_okD(2) [OF assms] by (auto simp: text_area_def cell_area_def cell_div_less)
qed

lemma text_area_on_screen:
  assumes "terminal_ok fb t" "p \<in> text_area t"
  shows "on_screen fb p"
proof -
  let ?h = "font_height (t_font t)"
  have "unat (fst p) < unat (t_width t) * 8" "unat (snd p) < unat (t_height t) * ?h"
    using assms(2) terminal_okD(4) [OF assms(1)] by (auto simp: text_area_def div_less_iff_less_mult)
  then show ?thesis using assms(1) by (simp add: terminal_ok_def on_screen_def word_less_nat_alt)
qed

lemma div_eq_range: "0 < h \<Longrightarrow> (n div h = q) = (q * h \<le> n \<and> n < q * h + (h :: nat))"
  using div_nat_eqI [of h q n] dividend_less_div_times [of h n] div_times_less_eq_dividend [of n h]
  by (auto simp: mult.commute)

lemma cell_area_rectangle:
  assumes "font_ok font" and "cell_fits fb font width i"
    and "unat x0 = i mod width * 8" "unat y0 = i div width * font_height font"
  shows "cell_area font width i = rectangle (x0, y0) (8, glyph_height (font_header font))"
    "fits fb (x0, y0) (8, glyph_height (font_header font))"
proof -
  let ?h = "glyph_height (font_header font)"
  show fit: "fits fb (x0, y0) (8, ?h)" using assms(2-4) by (simp add: cell_fits_def fits_def)
  have h: "0 < unat ?h" using assms(1) by (simp add: font_ok_def word_less_nat_alt)
  have "(unat y div unat ?h = i div width) = (y0 \<le> y \<and> y < y0 + ?h)" for y
    unfolding word_le_nat_alt word_less_nat_alt fits_bounds(2) [OF fit] assms(4) by (rule div_eq_range [OF h])
  moreover have "(unat x div 8 = i mod width) = (x0 \<le> x \<and> x < x0 + 8)" for x
    unfolding word_le_nat_alt word_less_nat_alt fits_bounds(1) [OF fit] assms(3) by auto
  ultimately show "cell_area font width i = rectangle (x0, y0) (8, ?h)" by (auto simp: cell_area_def rectangle_def)
qed

lemma draw_cell_paints:
  assumes ok: "fb_ok fb" "terminal_ok fb t" and i: "i < unat (t_width t) * unat (t_height t)"
    and c: "drawable (t_font t) (sc_character c)"
    and g: "\<And>p. p \<in> cell_area (t_font t) (unat (t_width t)) i \<Longrightarrow>
       g p = cell_pixel (t_font t) c (unat (fst p) mod 8) (unat (snd p) mod font_height (t_font t))"
  shows "\<exists>fb'. draw_cell (t_font t) (t_width t) i c fb = Some fb' \<and> paints (cell_area (t_font t) (unat (t_width t)) i) g fb fb'"
proof -
  let ?w = "ucast (t_width t) :: usize" and ?h = "glyph_height (font_header (t_font t))"
  let ?x = "ucast ((of_nat i :: usize) mod ?w) :: u32" and ?y = "ucast ((of_nat i :: usize) div ?w) :: u32"
  note t = terminal_okD [OF ok(2)]
  note fit = cell_fits_ok [OF ok(2) i]
  have w: "unat ?w = unat (t_width t)" by (rule unat_ucast_up) simp
  have oi: "unat (of_nat i :: usize) = i" using i t(5) by (intro unat_of_nat_small) simp
  have down: "unat (ucast (v :: usize) :: u32) = unat v" if "unat v \<le> i" for v
    using that i t(5) by (simp add: unsigned_ucast_eq take_bit_nat_eq_self)
  have x: "unat ?x = i mod unat (t_width t)" using down [of "of_nat i mod ?w"] by (simp add: unat_mod w oi)
  have y: "unat ?y = i div unat (t_width t)" using down [of "of_nat i div ?w"] by (simp add: unat_div w oi)
  have "?w \<noteq> 0" using t(2) w by (metis unat_0 less_irrefl)
  then have div: "checked_div (of_nat i) ?w = Some (of_nat i div ?w)" by (simp add: checked_div_def)
  show ?thesis
  proof (cases "sc_character c = SPACE")
    case False
    from draw_glyph_paints [OF ok(1) t(1) fit x y g c False] show ?thesis using False div by (simp add: draw_cell_def)
  next
    case True
    have W: "unat (fb_width fb) < 2 ^ 32" "unat (fb_height fb) < 2 ^ 32"
      using unsigned_less [of "fb_width fb", where ?'a = nat] unsigned_less [of "fb_height fb", where ?'a = nat] by simp_all
    have 8: "glyph_width (font_header (t_font t)) = 8" using t(1) by (simp add: font_ok_def)
    have x0: "checked_mul ?x 8 = Some (?x * 8)" "unat (?x * 8) = i mod unat (t_width t) * 8"
      using fit W x by (simp_all add: cell_fits_def checked_mul_def unat_word_ariths)
    have y0: "checked_mul ?y ?h = Some (?y * ?h)" "unat (?y * ?h) = i div unat (t_width t) * unat ?h"
      using fit W y by (simp_all add: cell_fits_def checked_mul_def unat_word_ariths)
    note r = cell_area_rectangle [OF t(1) fit x0(2) y0(2)]
    have "g p = sc_background c" if "p \<in> rectangle (?x * 8, ?y * ?h) (8, ?h)" for p
      using g [of p] that True unfolding r(1) by (simp add: cell_pixel_def)
    from fill_box_paints [OF ok(1) r(2) this] show ?thesis
      using True div x0(1) y0(1) 8 unfolding r(1) [symmetric] by (simp add: draw_cell_def)
  qed
qed

subsection \<open>Rendering\<close>

lemma picture_update:
  assumes "i < length buffer"
  shows "p \<in> cell_area (t_font t) (unat (t_width t)) i \<Longrightarrow>
      terminal_picture t (buffer[i := c]) p = cell_pixel (t_font t) c (unat (fst p) mod 8) (unat (snd p) mod font_height (t_font t))"
    "p \<in> text_area t \<Longrightarrow> p \<notin> cell_area (t_font t) (unat (t_width t)) i \<Longrightarrow> terminal_picture t (buffer[i := c]) p = terminal_picture t buffer p"
proof -
  assume "p \<in> cell_area (t_font t) (unat (t_width t)) i"
  with assms show "terminal_picture t (buffer[i := c]) p = cell_pixel (t_font t) c (unat (fst p) mod 8) (unat (snd p) mod font_height (t_font t))"
    by (simp add: picture_def cell_of_area)
next
  assume p: "p \<in> text_area t" "p \<notin> cell_area (t_font t) (unat (t_width t)) i"
  have "i \<noteq> cell_of (t_font t) (unat (t_width t)) p" using p by (auto simp: cell_of_def cell_area_def text_area_def)
  then show "terminal_picture t (buffer[i := c]) p = terminal_picture t buffer p" by (simp add: picture_def)
qed

lemma render_cell_displays:
  assumes ok: "fb_ok fb" "terminal_ok fb t" and i: "i < unat (t_width t) * unat (t_height t)"
    and bk: "length back = unat (t_width t) * unat (t_height t)" "displays t back fb"
    and c: "drawable (t_font t) (sc_character c)"
  shows "\<exists>fb'. render_cell t (i, c) (fb, back) = Some (fb', back[i := c]) \<and> displays t (back[i := c]) fb'
     \<and> same_screen fb fb' \<and> (\<forall>p. on_screen fb p \<longrightarrow> p \<notin> text_area t \<longrightarrow> fb_get fb' p = fb_get fb p)"
proof (cases "c = back ! i")
  case True
  then show ?thesis using i bk by (simp add: render_cell_def slice_get_def)
next
  case False
  let ?A = "cell_area (t_font t) (unat (t_width t)) i"
  have "\<And>p. p \<in> ?A \<Longrightarrow> terminal_picture t (back[i := c]) p
      = cell_pixel (t_font t) c (unat (fst p) mod 8) (unat (snd p) mod font_height (t_font t))"
    using i bk(1) by (intro picture_update) simp_all
  from draw_cell_paints [OF ok i c this] obtain fb' where fb': "draw_cell (t_font t) (t_width t) i c fb = Some fb'"
    "paints ?A (terminal_picture t (back[i := c])) fb fb'" by blast
  have "?A \<subseteq> text_area t" using i by (auto simp: text_area_cells [OF ok(2)])
  moreover have "displays t (back[i := c]) fb'"
    unfolding displays_def
  proof
    fix p assume p: "p \<in> text_area t"
    then show "fb_get fb' p = Some (terminal_picture t (back[i := c]) p)"
      using paints_get [OF fb'(2) text_area_on_screen [OF ok(2) p]] bk(2) picture_update(2) [of i "back" p t c] i bk(1)
      by (simp add: displays_def)
  qed
  ultimately show ?thesis using fb' False i bk(1)
    by (auto simp: render_cell_def slice_get_def slice_set_def paints_def)
qed

lemma terminal_ok_same: "same_screen fb fb' \<Longrightarrow> terminal_ok fb' t = terminal_ok fb t"
  by (simp add: terminal_ok_def same_screen_def)

lemma render_loop:
  assumes "fb_ok fb" "terminal_ok fb t" "displays t back fb" "length back = unat (t_width t) * unat (t_height t)"
    and "n + length cells = length back" "\<forall>c \<in> set cells. drawable (t_font t) (sc_character c)"
  shows "\<exists>fb'. for_each (render_cell t) (enumerate n cells) (fb, back) = Some (fb', take n back @ cells) \<and> displays t (take n back @ cells) fb'
     \<and> same_screen fb fb' \<and> (\<forall>p. on_screen fb p \<longrightarrow> p \<notin> text_area t \<longrightarrow> fb_get fb' p = fb_get fb p)"
  using assms
proof (induction cells arbitrary: n "back" fb)
  case Nil
  then show ?case by simp
next
  case (Cons c cells)
  have n: "n < unat (t_width t) * unat (t_height t)" using Cons.prems(4,5) by simp
  from render_cell_displays [OF Cons.prems(1,2) n Cons.prems(4,3), of c] Cons.prems(6) obtain fb1 where
    fb1: "render_cell t (n, c) (fb, back) = Some (fb1, back[n := c])" "displays t (back[n := c]) fb1" "same_screen fb fb1"
      "\<forall>p. on_screen fb p \<longrightarrow> p \<notin> text_area t \<longrightarrow> fb_get fb1 p = fb_get fb p" by auto
  have buf: "take (Suc n) (back[n := c]) @ cells = take n back @ c # cells"
    using Cons.prems(5) by (simp add: take_Suc_conv_app_nth)
  have "\<exists>fb'. for_each (render_cell t) (enumerate (Suc n) cells) (fb1, back[n := c]) = Some (fb', take n back @ c # cells)
     \<and> displays t (take n back @ c # cells) fb' \<and> same_screen fb1 fb'
     \<and> (\<forall>p. on_screen fb1 p \<longrightarrow> p \<notin> text_area t \<longrightarrow> fb_get fb' p = fb_get fb1 p)"
    using Cons.IH [of fb1 "back[n := c]" "Suc n"] Cons.prems fb1(2,3) unfolding buf by (simp add: same_screen_ok terminal_ok_same)
  then obtain fb2 where fb2: "for_each (render_cell t) (enumerate (Suc n) cells) (fb1, back[n := c]) = Some (fb2, take n back @ c # cells)"
    "displays t (take n back @ c # cells) fb2" "same_screen fb1 fb2"
    "\<forall>p. on_screen fb1 p \<longrightarrow> p \<notin> text_area t \<longrightarrow> fb_get fb2 p = fb_get fb1 p" by blast
  have "same_screen fb fb2" using fb1(3) fb2(3) by (rule same_screen_trans)
  moreover have "\<forall>p. on_screen fb p \<longrightarrow> p \<notin> text_area t \<longrightarrow> fb_get fb2 p = fb_get fb p"
    using fb1(4) fb2(4) same_screen_ok(2) [OF fb1(3)] by simp
  ultimately show ?case using fb1(1) fb2(1,2) by simp
qed

text \<open>The state of a console whose screen shows the back buffer.\<close>

definition console_ok :: "console \<Rightarrow> bool" where
  "console_ok s \<longleftrightarrow> (case FRAMEBUFFER s of None \<Rightarrow> False
     | Some fb \<Rightarrow> fb_ok fb \<and> terminal_ok fb (console_terminal s)
         \<and> displays (console_terminal s) (back_buffer (console_terminal s)) fb)
     \<and> cursor_x (current_state (console_terminal s)) < t_width (console_terminal s)
     \<and> cursor_y (current_state (console_terminal s)) < t_height (console_terminal s)"

text \<open>The reference: every cell of the front buffer is drawn.\<close>

definition redraw :: "console \<Rightarrow> framebuffer option" where
  "redraw s =
     do { fb \<leftarrow> FRAMEBUFFER s;
          let t = console_terminal s;
          for_each (\<lambda>(i, c). draw_cell (t_font t) (t_width t) i c) (enumerate 0 (front_buffer t)) fb }"

lemma displays_back: "displays (t\<lparr>back_buffer := b\<rparr>) = displays t"
  by (intro ext) (simp add: displays_def text_area_def)

lemma terminal_ok_back: "length b = length (back_buffer t) \<Longrightarrow> terminal_ok fb (t\<lparr>back_buffer := b\<rparr>) = terminal_ok fb t"
  by (simp add: terminal_ok_def)

lemma render_displays:
  assumes "console_ok s"
  obtains fb fb' where "FRAMEBUFFER s = Some fb"
    "render s = Some (s\<lparr>FRAMEBUFFER := Some fb', console_terminal := (console_terminal s)\<lparr>back_buffer := front_buffer (console_terminal s)\<rparr>\<rparr>)"
    "displays (console_terminal s) (front_buffer (console_terminal s)) fb'" "same_screen fb fb'" "fb_ok fb" "terminal_ok fb (console_terminal s)"
    "\<And>p. on_screen fb p \<Longrightarrow> p \<notin> text_area (console_terminal s) \<Longrightarrow> fb_get fb' p = fb_get fb p"
proof -
  let ?t = "console_terminal s"
  from assms obtain fb where fb: "FRAMEBUFFER s = Some fb" "fb_ok fb" "terminal_ok fb ?t" "displays ?t (back_buffer ?t) fb"
    by (auto simp: console_ok_def split: option.splits)
  have len: "length (back_buffer ?t) = unat (t_width ?t) * unat (t_height ?t)" "length (front_buffer ?t) = length (back_buffer ?t)"
    using fb(3) by (simp_all add: terminal_ok_def)
  have "\<forall>c \<in> set (front_buffer ?t). drawable (t_font ?t) (sc_character c)" using fb(3) by (simp add: terminal_ok_def)
  with render_loop [OF fb(2-4) len(1), of 0 "front_buffer ?t"] len(2) obtain fb' where
    fb': "for_each (render_cell ?t) (enumerate 0 (front_buffer ?t)) (fb, back_buffer ?t) = Some (fb', front_buffer ?t)"
      "displays ?t (front_buffer ?t) fb'" "same_screen fb fb'"
      "\<forall>p. on_screen fb p \<longrightarrow> p \<notin> text_area ?t \<longrightarrow> fb_get fb' p = fb_get fb p" by auto
  have "render s = Some (s\<lparr>FRAMEBUFFER := Some fb', console_terminal := ?t\<lparr>back_buffer := front_buffer ?t\<rparr>\<rparr>)"
    using fb(1) fb'(1) by (simp add: render_def Let_def)
  from that [OF fb(1) this fb'(2,3) fb(2,3)] fb'(4) show ?thesis by simp
qed

lemma redraw_paints:
  assumes "FRAMEBUFFER s = Some fb" "fb_ok fb" "terminal_ok fb (console_terminal s)"
  obtains fb' where "redraw s = Some fb'"
    "paints (text_area (console_terminal s)) (terminal_picture (console_terminal s) (front_buffer (console_terminal s))) fb fb'"
proof -
  let ?t = "console_terminal s"
  let ?g = "terminal_picture ?t (front_buffer ?t)" and ?A = "\<lambda>(i, c). cell_area (t_font ?t) (unat (t_width ?t)) i"
  have len: "length (front_buffer ?t) = unat (t_width ?t) * unat (t_height ?t)" using assms(3) by (simp add: terminal_ok_def)
  have step: "\<exists>fb''. (\<lambda>(i, c). draw_cell (t_font ?t) (t_width ?t) i c) cell fb' = Some fb'' \<and> paints (?A cell) ?g fb' fb''"
    if cell: "cell \<in> set (enumerate 0 (front_buffer ?t))" and s: "same_screen fb fb'" "fb_ok fb'" for cell fb'
  proof -
    obtain i where i: "cell = (i, front_buffer ?t ! i)" "i < length (front_buffer ?t)"
      using cell that [of "fst cell"] by (simp add: in_set_enumerate_eq)
    have "?g p = cell_pixel (t_font ?t) (front_buffer ?t ! i) (unat (fst p) mod 8) (unat (snd p) mod font_height (t_font ?t))"
      if "p \<in> cell_area (t_font ?t) (unat (t_width ?t)) i" for p
      using that by (simp add: picture_def cell_of_area)
    moreover have "drawable (t_font ?t) (sc_character (front_buffer ?t ! i))" using assms(3) i(2) by (simp add: terminal_ok_def)
    ultimately show ?thesis using draw_cell_paints [of fb' ?t i "front_buffer ?t ! i" ?g, OF s(2)] assms(3) i len
      by (simp add: terminal_ok_same [OF s(1)])
  qed
  from for_each_paints [of "enumerate 0 (front_buffer ?t)" fb "\<lambda>(i, c). draw_cell (t_font ?t) (t_width ?t) i c" ?A ?g, OF step assms(2)]
  obtain fb' where fb': "for_each (\<lambda>(i, c). draw_cell (t_font ?t) (t_width ?t) i c) (enumerate 0 (front_buffer ?t)) fb = Some fb'"
    "paints (\<Union>cell \<in> set (enumerate 0 (front_buffer ?t)). ?A cell) ?g fb fb'" by blast
  have "(\<Union>cell \<in> set (enumerate 0 (front_buffer ?t)). ?A cell)
      = (\<Union>i \<in> set (map fst (enumerate 0 (front_buffer ?t))). cell_area (t_font ?t) (unat (t_width ?t)) i)"
    by (simp add: split_beta del: map_fst_enumerate)
  then have "(\<Union>cell \<in> set (enumerate 0 (front_buffer ?t)). ?A cell) = text_area ?t"
    unfolding text_area_cells [OF assms(3)] map_fst_enumerate by (simp add: len atLeast0LessThan)
  with fb' assms(1) show ?thesis by (intro that) (simp_all add: redraw_def)
qed

lemma console_okD:
  assumes "console_ok s"
  obtains fb where "FRAMEBUFFER s = Some fb" "fb_ok fb" "terminal_ok fb (console_terminal s)"
    "displays (console_terminal s) (back_buffer (console_terminal s)) fb"
  using assms by (auto simp: console_ok_def split: option.splits)

lemma displays_cleared:
  assumes "fb_ok fb" "terminal_ok fb t"
  shows "displays t (replicate (unat (t_width t) * unat (t_height t)) screen_char_default) (fb_clear fb)"
  unfolding displays_def
proof
  fix p assume p: "p \<in> text_area t"
  then obtain i where i: "i < unat (t_width t) * unat (t_height t)" "p \<in> cell_area (t_font t) (unat (t_width t)) i"
    unfolding text_area_cells [OF assms(2)] by blast
  have "terminal_picture t (replicate (unat (t_width t) * unat (t_height t)) screen_char_default) p = 0"
    unfolding picture_def cell_of_area [OF i(2)] using i(1) by (simp add: cell_pixel_def screen_char_default_def VGA_COLORS_def)
  then show "fb_get (fb_clear fb) p = Some (terminal_picture t (replicate (unat (t_width t) * unat (t_height t)) screen_char_default) p)"
    using paints_get [OF fb_clear_paints [OF assms(1)] text_area_on_screen [OF assms(2) p]] by simp
qed

lemma render_console_ok:
  assumes "console_ok s" "render s = Some s'"
  shows "console_ok s'" "back_buffer (console_terminal s') = front_buffer (console_terminal s)"
    "console_terminal s' = (console_terminal s)\<lparr>back_buffer := front_buffer (console_terminal s)\<rparr>"
proof -
  let ?t = "console_terminal s"
  obtain fb fb' where r: "FRAMEBUFFER s = Some fb"
    "render s = Some (s\<lparr>FRAMEBUFFER := Some fb', console_terminal := ?t\<lparr>back_buffer := front_buffer ?t\<rparr>\<rparr>)"
    "displays ?t (front_buffer ?t) fb'" "same_screen fb fb'" "fb_ok fb" "terminal_ok fb ?t"
    by (rule render_displays [OF assms(1)])
  then have s': "s' = s\<lparr>FRAMEBUFFER := Some fb', console_terminal := ?t\<lparr>back_buffer := front_buffer ?t\<rparr>\<rparr>" using assms(2) by simp
  have "length (front_buffer ?t) = length (back_buffer ?t)" using r(6) by (simp add: terminal_ok_def)
  then show "console_ok s'" using assms(1) r(3-6)
    by (simp add: s' console_ok_def displays_back terminal_ok_back terminal_ok_same same_screen_ok)
  show "back_buffer (console_terminal s') = front_buffer ?t" "console_terminal s' = ?t\<lparr>back_buffer := front_buffer ?t\<rparr>" by (simp_all add: s')
qed

subsection \<open>Properties\<close>

text \<open>
  C6. Incremental rendering is full rendering: from a console whose screen shows the back buffer and whose front buffer holds only
  characters that the font can draw, which for the font of the kernel are all but U+007F, \<open>render\<close>, which draws
  only the cells that differ from the back buffer, never panics and leaves on every pixel of the screen what drawing every
  cell of the front buffer would leave there; the back buffer is then the front buffer, and the screen shows it.
\<close>

theorem render_equals_redraw:
  assumes "console_ok s"
  shows "\<exists>fb fb' full s'. FRAMEBUFFER s = Some fb \<and> render s = Some s' \<and> FRAMEBUFFER s' = Some fb' \<and> redraw s = Some full
     \<and> same_screen fb fb' \<and> (\<forall>p. on_screen fb p \<longrightarrow> fb_get fb' p = fb_get full p)
     \<and> console_terminal s' = (console_terminal s)\<lparr>back_buffer := front_buffer (console_terminal s)\<rparr> \<and> console_ok s'"
proof -
  let ?t = "console_terminal s"
  obtain fb fb' where r: "FRAMEBUFFER s = Some fb"
    "render s = Some (s\<lparr>FRAMEBUFFER := Some fb', console_terminal := ?t\<lparr>back_buffer := front_buffer ?t\<rparr>\<rparr>)"
    "displays ?t (front_buffer ?t) fb'" "same_screen fb fb'" "fb_ok fb" "terminal_ok fb ?t"
    "\<And>p. on_screen fb p \<Longrightarrow> p \<notin> text_area ?t \<Longrightarrow> fb_get fb' p = fb_get fb p"
    by (rule render_displays [OF assms]) (rule that)
  from redraw_paints [OF r(1,5,6)] obtain full where
    full: "redraw s = Some full" "paints (text_area ?t) (terminal_picture ?t (front_buffer ?t)) fb full" by blast
  have "fb_get fb' p = fb_get full p" if p: "on_screen fb p" for p
    using paints_get [OF full(2) p] r(3) r(7) [OF p] by (cases "p \<in> text_area ?t") (simp_all add: displays_def)
  then show ?thesis using r(1,2,4) full(1) render_console_ok [OF assms r(2)] by auto
qed

text \<open>
  A console of four cells on a screen of sixteen pixels by thirty-two lines, with a font that has the header and the size of the font that
  the kernel loads. Its last glyph cannot be drawn.
\<close>

definition demo_font :: psf_font where
  "demo_font = \<lparr>font_header = \<lparr>psf_magic = PSF_MAGIC, psf_version = PSF_VERSION, header_size = 32, psf_flags = 0xC0000,
     num_glyphs = 128, bytes_per_glyph = 16, glyph_height = 16, glyph_width = 8\<rparr>, font_data = replicate 2048 0x55\<rparr>"

lemma demo_font_drawable: "drawable demo_font c \<longleftrightarrow> c \<noteq> 127"
proof -
  have "glyph_number demo_font c = (if 128 \<le> c then 63 else unat c)" by (simp add: glyph_number_def demo_font_def)
  then have "16 * glyph_number demo_font c + 16 < 2048 \<longleftrightarrow> c \<noteq> 127" by (auto simp: word_le_nat_alt word_unat_eq_iff)
  then show ?thesis by (auto simp: drawable_def demo_font_def SPACE_def)
qed

lemma default_character: "sc_character screen_char_default = 32"
  by (simp add: screen_char_default_def SPACE_def)

lemma demo_font_last_glyph: "get_character demo_font 127 = Some []"
  by (simp add: get_character_def demo_font_def checked_mul_def checked_add_def)

definition demo_console :: console where
  "demo_console = \<lparr>FRAMEBUFFER = Some \<lparr>fb_buffer = replicate 512 0, fb_width = 16, fb_height = 32, scanline_length = 16, color_format = Rgbr8\<rparr>,
     console_terminal = \<lparr>t_font = demo_font, t_width = 2, t_height = 2,
       front_buffer = replicate 4 screen_char_default, back_buffer = replicate 4 screen_char_default,
       current_state = terminal_state_default\<rparr>\<rparr>"

lemma demo_console_ok: "console_ok (demo_console\<lparr>console_terminal := (console_terminal demo_console)
    \<lparr>front_buffer := front, current_state := st\<rparr>\<rparr>) 
    \<longleftrightarrow> length front = 4 \<and> (\<forall>c \<in> set front. sc_character c \<noteq> 127) \<and> cursor_x st < 2 \<and> cursor_y st < 2"
proof -
  let ?t = "(console_terminal demo_console)\<lparr>front_buffer := replicate 4 screen_char_default\<rparr>"
  let ?fb = "the (FRAMEBUFFER demo_console)"
  have "fb_ok ?fb" by (simp add: fb_ok_def demo_console_def)
  moreover have t: "terminal_ok ?fb ?t"
    by (simp add: terminal_ok_def demo_console_def demo_font_def font_ok_def PSF_MAGIC_def PSF_VERSION_def)
  ultimately have d: "displays ?t (replicate 4 screen_char_default) (fb_clear ?fb)"
    using displays_cleared [of ?fb ?t] by (simp add: demo_console_def)
  have clear: "fb_clear ?fb = ?fb" by (simp add: fb_clear_def demo_console_def)
  have area: "displays (?t\<lparr>front_buffer := f, current_state := st\<rparr>) = displays ?t" for f
    by (intro ext) (simp add: displays_def text_area_def)
  show ?thesis
    using d [unfolded clear area [symmetric, of front]] t \<open>fb_ok ?fb\<close> by (auto simp: console_ok_def demo_console_def terminal_ok_def demo_font_drawable)
qed

theorem render_equals_redraw_witness:
  "let s = demo_console\<lparr>console_terminal := (console_terminal demo_console)\<lparr>front_buffer :=
       [screen_char_default, screen_char_default\<lparr>sc_character := 65\<rparr>, screen_char_default, screen_char_default]\<rparr>\<rparr>
   in console_ok s \<and> (\<exists>fb fb' full s'. FRAMEBUFFER s = Some fb \<and> render s = Some s' \<and> FRAMEBUFFER s' = Some fb' \<and> redraw s = Some full
     \<and> same_screen fb fb' \<and> (\<forall>p. on_screen fb p \<longrightarrow> fb_get fb' p = fb_get full p)
     \<and> console_terminal s' = (console_terminal s)\<lparr>back_buffer := front_buffer (console_terminal s)\<rparr> \<and> console_ok s')"
proof -
  let ?front = "[screen_char_default, screen_char_default\<lparr>sc_character := 65\<rparr>, screen_char_default, screen_char_default]"
  let ?s = "demo_console\<lparr>console_terminal := (console_terminal demo_console)\<lparr>front_buffer := ?front\<rparr>\<rparr>"
  have "console_ok ?s"
    using demo_console_ok [where front = ?front and st = "current_state (console_terminal demo_console)"]
    by (simp add: demo_console_def terminal_state_default_def default_character)
  with render_equals_redraw [OF this] show ?thesis unfolding Let_def by blast
qed

end
