(* ===== verification/Terminal_Write.thy ===== *)
theory Terminal_Write
  imports Terminal_Render
begin

text \<open>
  Writing to the console. Plain text is checked against an abstract screen, a grid with a cursor that wraps and scrolls;
  colour sequences are checked by writing a colour in decimal and reading it back.
\<close>

subsection \<open>The abstract screen\<close>

record screen =
  grid :: "nat \<Rightarrow> nat \<Rightarrow> screen_char"
  column :: nat
  line :: nat

text \<open>A line feed scrolls when the cursor is on the last line.\<close>

definition screen_feed :: "nat \<Rightarrow> screen \<Rightarrow> screen" where
  "screen_feed h s =
     (if Suc (line s) < h then s\<lparr>column := 0, line := Suc (line s)\<rparr>
      else s\<lparr>column := 0, grid := \<lambda>x y. if Suc y < h then grid s x (Suc y) else screen_char_default\<rparr>)"

definition screen_type :: "nat \<Rightarrow> nat \<Rightarrow> u32 \<Rightarrow> u32 \<Rightarrow> rust_char \<Rightarrow> screen \<Rightarrow> screen" where
  "screen_type w h fg bg c s =
     (if c = 10 then screen_feed h s
      else if c = 13 then s\<lparr>column := 0\<rparr>
      else let s' = s\<lparr>grid := (grid s)(column s := (grid s (column s))
                (line s := \<lparr>sc_character = c, sc_foreground = fg, sc_background = bg\<rparr>))\<rparr>
           in if Suc (column s) < w then s'\<lparr>column := Suc (column s)\<rparr> else screen_feed h s')"

definition screen_of :: "terminal \<Rightarrow> screen" where
  "screen_of t =
     \<lparr>grid = \<lambda>x y. if x < unat (t_width t) \<and> y < unat (t_height t) then front_buffer t ! (y * unat (t_width t) + x) else screen_char_default,
      column = unat (cursor_x (current_state t)), line = unat (cursor_y (current_state t))\<rparr>"

subsection \<open>The steps\<close>

text \<open>What writing text keeps.\<close>

definition same_attributes :: "terminal \<Rightarrow> terminal \<Rightarrow> bool" where
  "same_attributes t t' \<longleftrightarrow> t_font t' = t_font t \<and> t_width t' = t_width t \<and> t_height t' = t_height t
     \<and> ts_mode (current_state t') = ts_mode (current_state t)
     \<and> ts_foreground (current_state t') = ts_foreground (current_state t)
     \<and> ts_background (current_state t') = ts_background (current_state t)"

lemma front_state: "t\<lparr>current_state := st, front_buffer := b\<rparr> = (t :: terminal)\<lparr>front_buffer := b, current_state := st\<rparr>"
  by simp

lemma console_ok_update:
  assumes "console_ok s" "length b = length (front_buffer (console_terminal s))"
    and "\<forall>c \<in> set b. drawable (t_font (console_terminal s)) (sc_character c)"
    and "cursor_x st < t_width (console_terminal s)" "cursor_y st < t_height (console_terminal s)"
  shows "console_ok (s\<lparr>console_terminal := (console_terminal s)\<lparr>front_buffer := b, current_state := st\<rparr>\<rparr>)"
  using assms by (auto simp: console_ok_def terminal_ok_def displays_def text_area_def split: option.splits)

lemma console_ok_bounds:
  assumes "console_ok s"
  defines "t \<equiv> console_terminal s"
  shows "unat (cursor_x (current_state t)) < unat (t_width t)" "unat (cursor_y (current_state t)) < unat (t_height t)"
    "length (front_buffer t) = unat (t_width t) * unat (t_height t)" "unat (t_width t) * unat (t_height t) \<le> 65536"
    "\<forall>c \<in> set (front_buffer t). drawable (t_font t) (sc_character c)"
  using assms by (auto simp: console_ok_def terminal_ok_def word_less_nat_alt split: option.splits)

lemma cell_index_less: "x < w \<Longrightarrow> y < h \<Longrightarrow> y * w + x < w * (h :: nat)"
proof -
  assume "x < w" "y < h"
  then have "Suc y * w \<le> h * w" by (intro mult_le_mono1) simp
  with \<open>x < w\<close> show ?thesis by (simp add: mult.commute)
qed

lemma cell_index_inj: "x < w \<Longrightarrow> x' < w \<Longrightarrow> y * w + x = y' * w + x' \<longleftrightarrow> x = x' \<and> y = (y' :: nat)"
proof
  assume "x < w" "x' < w" "y * w + x = y' * w + x'"
  then have "(y * w + x) div w = (y' * w + x') div w" "(y * w + x) mod w = (y' * w + x') mod w" by simp_all
  with \<open>x < w\<close> \<open>x' < w\<close> show "x = x' \<and> y = y'" by simp
qed simp

lemma scroll_line:
  assumes "length b = w * h" "0 < h"
  obtains b' where "scroll w b = Some b'" "length b' = w * h" "set b' \<subseteq> insert screen_char_default (set b)"
    "\<And>x y. x < w \<Longrightarrow> y < h \<Longrightarrow> b' ! (y * w + x) = (if Suc y < h then b ! (Suc y * w + x) else screen_char_default)"
proof -
  let ?b = "drop w b @ replicate w screen_char_default"
  from assms(2) obtain k where k: "h = Suc k" by (cases h) auto
  have "scroll w b = Some ?b" using assms(1) by (simp add: scroll_def guard_def k)
  moreover have "length ?b = w * h" using assms(1) by (simp add: k)
  moreover have "set ?b \<subseteq> insert screen_char_default (set b)" by (auto dest: in_set_dropD)
  moreover have "?b ! (y * w + x) = (if Suc y < h then b ! (Suc y * w + x) else screen_char_default)" if "x < w" "y < h" for x y
  proof (cases "Suc y < h")
    case True
    then have "y * w + x < w * k" using cell_index_less [OF that(1), of y k] k by simp
    then show ?thesis using True assms(1) by (simp add: nth_append k algebra_simps)
  next
    case False
    then have "y = k" using that(2) k by simp
    then show ?thesis using False assms(1) that(1) by (simp add: nth_append k algebra_simps)
  qed
  ultimately show ?thesis by (rule that)
qed

lemma new_line_ok:
  assumes ok: "console_ok s"
  obtains s' where "new_line s = Some s'" "console_ok s'"
    "same_attributes (console_terminal s) (console_terminal s')"
    "cursor_x (current_state (console_terminal s')) = cursor_x (current_state (console_terminal s))"
    "screen_of (console_terminal s') = (screen_feed (unat (t_height (console_terminal s))) (screen_of (console_terminal s)))
       \<lparr>column := unat (cursor_x (current_state (console_terminal s)))\<rparr>"
proof -
  let ?t = "console_terminal s"
  let ?st = "current_state ?t"
  note b = console_ok_bounds [OF ok]
  have H: "unat (t_height ?t) < 65536" using unsigned_less [of "t_height ?t", where ?'a = nat] by simp
  have y: "checked_add (cursor_y ?st) 1 = Some (cursor_y ?st + 1)" "unat (cursor_y ?st + 1) = Suc (unat (cursor_y ?st))"
    using b(2) H by (simp_all add: checked_add_def unat_word_ariths)
  have height: "0 < unat (t_height ?t)" using b(2) by linarith
  show ?thesis
  proof (cases "t_height ?t \<le> cursor_y ?st + 1")
    case False
    let ?s = "s\<lparr>console_terminal := ?t\<lparr>front_buffer := front_buffer ?t, current_state := ?st\<lparr>cursor_y := cursor_y ?st + 1\<rparr>\<rparr>\<rparr>"
    have ok': "console_ok ?s" by (rule console_ok_update [OF ok]) (use b False in \<open>simp_all add: word_less_nat_alt word_le_nat_alt\<close>)
    from render_displays [OF ok'] obtain s' where r: "render ?s = Some s'" by metis
    note r' = render_console_ok [OF ok' r]
    have "new_line s = Some s'" using False y(1) r by (simp add: new_line_def update_state_def)
    moreover have "screen_of (console_terminal s') = (screen_feed (unat (t_height ?t)) (screen_of ?t))\<lparr>column := unat (cursor_x ?st)\<rparr>"
      using False y(2) by (simp add: r'(3) screen_of_def screen_feed_def word_le_nat_alt fun_eq_iff)
    ultimately show ?thesis using r'(1) by (intro that [of s']) (simp_all add: r'(3) same_attributes_def)
  next
    case True
    let ?last = "t_height ?t - 1"
    have last: "checked_sub (t_height ?t) 1 = Some ?last" "unat ?last = unat (t_height ?t) - 1"
      using height by (simp_all add: checked_sub_def word_le_nat_alt unat_minus_one word_neq_0_conv [symmetric] unat_eq_0 [symmetric])
    obtain buffer where buffer: "scroll (unat (t_width ?t)) (front_buffer ?t) = Some buffer" "length buffer = unat (t_width ?t) * unat (t_height ?t)"
      "set buffer \<subseteq> insert screen_char_default (set (front_buffer ?t))"
      "\<And>x y. x < unat (t_width ?t) \<Longrightarrow> y < unat (t_height ?t) \<Longrightarrow> buffer ! (y * unat (t_width ?t) + x)
        = (if Suc y < unat (t_height ?t) then front_buffer ?t ! (Suc y * unat (t_width ?t) + x) else screen_char_default)"
      by (rule scroll_line [OF b(3) height]) (rule that)
    let ?s = "s\<lparr>console_terminal := ?t\<lparr>front_buffer := buffer, current_state := ?st\<lparr>cursor_y := ?last\<rparr>\<rparr>\<rparr>"
    have "\<forall>c \<in> set buffer. drawable (t_font ?t) (sc_character c)" using buffer(3) b(5) by auto
    then have ok': "console_ok ?s" by (intro console_ok_update [OF ok]) (use b buffer(2) last(2) height in \<open>simp_all add: word_less_nat_alt\<close>)
    from render_displays [OF ok'] obtain s' where r: "render ?s = Some s'" by metis
    note r' = render_console_ok [OF ok' r]
    have "new_line s = Some s'" using True y(1) r last(1) buffer(1) by (simp add: new_line_def update_state_def Let_def front_state)
    moreover have "screen_of (console_terminal s') = (screen_feed (unat (t_height ?t)) (screen_of ?t))\<lparr>column := unat (cursor_x ?st)\<rparr>"
    proof -
      have "unat (t_height ?t) - 1 = unat (cursor_y ?st)" "\<not> Suc (unat (cursor_y ?st)) < unat (t_height ?t)"
        using True y(2) b(2) by (simp_all add: word_le_nat_alt)
      then show ?thesis using last(2) buffer(4) by (simp add: r'(3) screen_of_def screen_feed_def fun_eq_iff)
    qed
    ultimately show ?thesis using r'(1) by (intro that [of s']) (simp_all add: r'(3) same_attributes_def)
  qed
qed

lemma put_char_ok:
  assumes ok: "console_ok s" and c: "c \<noteq> 10" "c \<noteq> 13" and draw: "drawable (t_font (console_terminal s)) c"
  obtains s' where "put_char c s = Some s'" "console_ok s'" "same_attributes (console_terminal s) (console_terminal s')"
    "screen_of (console_terminal s') = screen_type (unat (t_width (console_terminal s))) (unat (t_height (console_terminal s)))
       (ts_foreground (current_state (console_terminal s))) (ts_background (current_state (console_terminal s))) c (screen_of (console_terminal s))"
proof -
  let ?t = "console_terminal s"
  let ?st = "current_state ?t"
  let ?x = "cursor_x ?st" and ?y = "cursor_y ?st" and ?w = "unat (t_width ?t)" and ?h = "unat (t_height ?t)"
  let ?cell = "\<lparr>sc_character = c, sc_foreground = ts_foreground ?st, sc_background = ts_background ?st\<rparr>"
  let ?i = "unat ?y * ?w + unat ?x"
  let ?b = "(front_buffer ?t)[?i := ?cell]"
  note b = console_ok_bounds [OF ok]
  have i: "?i < ?w * ?h" using b(1,2) by (rule cell_index_less)
  have chars: "\<forall>c \<in> set ?b. drawable (t_font ?t) (sc_character c)" using b(5) draw by (auto dest!: set_update_subset_insert [THEN subsetD])
  have W: "?w < 65536" using unsigned_less [of "t_width ?t", where ?'a = nat] by simp
  have row: "checked_mul ?y (t_width ?t) = Some (?y * t_width ?t)" "unat (?y * t_width ?t) = unat ?y * ?w"
    using i b(4) by (simp_all add: checked_mul_def unat_word_ariths)
  have index: "checked_add (?y * t_width ?t) ?x = Some (?y * t_width ?t + ?x)" "unat (?y * t_width ?t + ?x) = ?i"
    using i b(4) row(2) by (simp_all add: checked_add_def unat_word_ariths)
  have set: "slice_set (front_buffer ?t) (unat (?y * t_width ?t + ?x)) ?cell = Some ?b"
    unfolding index(2) using i b(3) by (simp add: slice_set_def)
  have x1: "checked_add ?x 1 = Some (?x + 1)" "unat (?x + 1) = Suc (unat ?x)"
    using b(1) W by (simp_all add: checked_add_def unat_word_ariths)
  let ?type = "screen_type ?w ?h (ts_foreground ?st) (ts_background ?st) c (screen_of ?t)"
  let ?put = "(screen_of ?t)\<lparr>grid := (grid (screen_of ?t))(unat ?x := (grid (screen_of ?t) (unat ?x))(unat ?y := ?cell))\<rparr>"
  have nth: "?b ! (y * ?w + x) = (if x = unat ?x \<and> y = unat ?y then ?cell else front_buffer ?t ! (y * ?w + x))" if "x < ?w" "y < ?h" for x y
    using cell_index_inj [OF that(1) b(1), of y "unat ?y"] cell_index_less [OF that] b(3) by (auto simp: nth_list_update)
  have put: "screen_of (?t\<lparr>front_buffer := ?b, current_state := st\<rparr>) = ?put\<lparr>column := unat (cursor_x st), line := unat (cursor_y st)\<rparr>" for st
    using b(1,2) nth by (auto simp: screen_of_def fun_eq_iff)
  show ?thesis
  proof (cases "t_width ?t \<le> ?x + 1")
    case False
    let ?s = "s\<lparr>console_terminal := ?t\<lparr>front_buffer := ?b, current_state := ?st\<lparr>cursor_x := ?x + 1\<rparr>\<rparr>\<rparr>"
    have "console_ok ?s" by (rule console_ok_update [OF ok _ chars]) (use b False in \<open>simp_all add: word_less_nat_alt word_le_nat_alt\<close>)
    moreover have "put_char c s = Some ?s" using False row(1) index(1) set x1(1) by (simp add: put_char_def update_state_def Let_def front_state)
    moreover have "screen_of (console_terminal ?s) = ?type"
      using False x1(2) c put [of "?st\<lparr>cursor_x := ?x + 1\<rparr>"]
      by (simp add: screen_type_def Let_def word_le_nat_alt) (simp add: screen_of_def)
    ultimately show ?thesis by (intro that [of ?s]) (simp_all add: same_attributes_def)
  next
    case True
    let ?s = "s\<lparr>console_terminal := ?t\<lparr>front_buffer := ?b, current_state := ?st\<rparr>\<rparr>"
    have ok1: "console_ok ?s" by (rule console_ok_update [OF ok _ chars]) (use b in \<open>simp_all add: word_less_nat_alt\<close>)
    have same: "update_state (\<lambda>st. st\<lparr>cursor_x := ?x\<rparr>) (s\<lparr>console_terminal := ?t\<lparr>front_buffer := ?b, current_state := ?st\<lparr>cursor_x := ?x + 1\<rparr>\<rparr>\<rparr>) = ?s"
      by (simp add: update_state_def)
    have sub: "checked_sub (?x + 1) 1 = Some ?x" using x1(2) by (simp add: checked_sub_Some)
    obtain s1 where s1: "new_line ?s = Some s1" "console_ok s1" "same_attributes (console_terminal ?s) (console_terminal s1)"
      "screen_of (console_terminal s1) = (screen_feed ?h (screen_of (console_terminal ?s)))\<lparr>column := unat ?x\<rparr>"
      by (rule new_line_ok [OF ok1]) (simp_all add: that)
    let ?s' = "s1\<lparr>console_terminal := (console_terminal s1)\<lparr>front_buffer := front_buffer (console_terminal s1),
      current_state := (current_state (console_terminal s1))\<lparr>cursor_x := 0\<rparr>\<rparr>\<rparr>"
    have "console_ok ?s'"
      by (rule console_ok_update [OF s1(2)]) (use console_ok_bounds [OF s1(2)] in \<open>simp_all add: word_less_nat_alt\<close>)
    moreover have "put_char c s = Some ?s'"
      using True row(1) index(1) set x1(1) sub same s1(1) by (simp add: put_char_def update_state_def Let_def front_state)
    moreover have "screen_of (console_terminal ?s') = ?type"
    proof -
      have "screen_of (console_terminal ?s') = (screen_of (console_terminal s1))\<lparr>column := 0\<rparr>" by (simp add: screen_of_def fun_eq_iff)
      also have "\<dots> = screen_feed ?h (screen_of (?t\<lparr>front_buffer := ?b, current_state := ?st\<rparr>))" by (simp add: s1(4) screen_feed_def)
      also have "\<dots> = screen_feed ?h ?put"
      proof -
        have "?put\<lparr>column := unat ?x, line := unat ?y\<rparr> = ?put" by (rule screen.equality) (simp_all add: screen_of_def)
        then show ?thesis unfolding put by (rule arg_cong)
      qed
      also have "\<dots> = ?type" using True x1(2) c by (simp add: screen_type_def Let_def word_le_nat_alt) (simp add: screen_of_def)
      finally show ?thesis .
    qed
    ultimately show ?thesis using s1(3) by (intro that [of ?s']) (simp_all add: same_attributes_def)
  qed
qed

lemma text_step_ok:
  assumes ok: "console_ok s" and c: "c \<noteq> ESC" "c \<noteq> 9" "c = 10 \<or> c = 13 \<or> drawable (t_font (console_terminal s)) c"
  obtains s' where "text_step c s = Some s'" "console_ok s'" "same_attributes (console_terminal s) (console_terminal s')"
    "screen_of (console_terminal s') = screen_type (unat (t_width (console_terminal s))) (unat (t_height (console_terminal s)))
       (ts_foreground (current_state (console_terminal s))) (ts_background (current_state (console_terminal s))) c (screen_of (console_terminal s))"
proof -
  let ?home = "\<lambda>s :: console. s\<lparr>console_terminal := (console_terminal s)\<lparr>front_buffer := front_buffer (console_terminal s),
    current_state := (current_state (console_terminal s))\<lparr>cursor_x := 0\<rparr>\<rparr>\<rparr>"
  have home: "console_ok (?home s)" "screen_of (console_terminal (?home s)) = (screen_of (console_terminal s))\<lparr>column := 0\<rparr>"
      "same_attributes (console_terminal s) (console_terminal (?home s))" if "console_ok s" for s
  proof -
    show "console_ok (?home s)" by (rule console_ok_update [OF that]) (use console_ok_bounds [OF that] in \<open>simp_all add: word_less_nat_alt\<close>)
    show "screen_of (console_terminal (?home s)) = (screen_of (console_terminal s))\<lparr>column := 0\<rparr>" by (simp add: screen_of_def fun_eq_iff)
    show "same_attributes (console_terminal s) (console_terminal (?home s))" by (simp add: same_attributes_def)
  qed
  consider "c = 10" | "c = 13" | "c \<noteq> 10" "c \<noteq> 13" by blast
  then show ?thesis
  proof cases
    case 1
    obtain s1 where s1: "new_line s = Some s1" "console_ok s1" "same_attributes (console_terminal s) (console_terminal s1)"
      "screen_of (console_terminal s1) = (screen_feed (unat (t_height (console_terminal s))) (screen_of (console_terminal s)))
         \<lparr>column := unat (cursor_x (current_state (console_terminal s)))\<rparr>"
      by (rule new_line_ok [OF ok])
    have "text_step c s = Some (?home s1)" using 1 s1(1) by (simp add: text_step_def ESC_def update_state_def)
    moreover have "same_attributes (console_terminal s) (console_terminal (?home s1))" using s1(3) by (simp add: same_attributes_def)
    ultimately show ?thesis using home(1,2) [OF s1(2)] 1 by (intro that [of "?home s1"]) (simp_all add: s1(4) screen_type_def screen_feed_def)
  next
    case 2
    have "text_step c s = Some (?home s)" using 2 by (simp add: text_step_def ESC_def update_state_def)
    then show ?thesis using home [OF ok] 2 by (intro that [of "?home s"]) (simp_all add: screen_type_def)
  next
    case 3
    obtain s' where "put_char c s = Some s'" "console_ok s'" "same_attributes (console_terminal s) (console_terminal s')"
      "screen_of (console_terminal s') = screen_type (unat (t_width (console_terminal s))) (unat (t_height (console_terminal s)))
       (ts_foreground (current_state (console_terminal s))) (ts_background (current_state (console_terminal s))) c (screen_of (console_terminal s))"
      by (rule put_char_ok [OF ok 3]) (use c(3) 3 in auto)
    then show ?thesis using c 3 by (intro that [of s']) (simp_all add: text_step_def)
  qed
qed

subsection \<open>Colour sequences\<close>

fun decimal :: "nat \<Rightarrow> rust_char list" where
  "decimal n = (if n < 10 then [48 + of_nat n] else decimal (n div 10) @ [48 + of_nat (n mod 10)])"

declare decimal.simps [simp del]

abbreviation with_state :: "terminal_state \<Rightarrow> console \<Rightarrow> console" where
  "with_state st s \<equiv> update_state (\<lambda>_. st) s"

lemma for_each_append: "for_each f (xs @ ys) s = do { s' \<leftarrow> for_each f xs s; for_each f ys s' }"
  by (induction xs arbitrary: s) (auto split: bind_splits)

lemma write_escape:
  assumes "ts_mode st \<noteq> TextMode" "escape_step c st = Some st'"
  shows "write_step c (with_state st s) = Some (with_state st' s)"
  using assms by (simp add: write_step_def update_state_def)

lemma digit_ok:
  assumes "n < 10"
  shows "is_digit (48 + of_nat n)" "checked_sub (48 + of_nat n) 48 = Some (of_nat n :: u32)" "unat (48 + of_nat n :: u32) = 48 + n"
proof -
  have u: "unat (of_nat n :: u32) = n" using assms by (simp add: unat_of_nat_small)
  then show v: "unat (48 + of_nat n :: u32) = 48 + n" using assms by (simp add: unat_word_ariths)
  show "is_digit (48 + of_nat n)" using assms unfolding is_digit_def word_le_nat_alt v by simp
  show "checked_sub (48 + of_nat n) 48 = Some (of_nat n :: u32)" unfolding checked_sub_Some v u by simp
qed

lemma next_digit_ok:
  assumes "n < 10 ^ 8" "d < 10"
  shows "next_digit (of_nat n) (48 + of_nat d) = Some (of_nat (n * 10 + d))"
proof -
  have n: "unat (of_nat n :: u32) = n" using assms(1) by (simp add: unat_of_nat_small)
  have m: "checked_mul (of_nat n) 10 = Some (of_nat (n * 10) :: u32)"
    unfolding checked_mul_Some n using assms(1) by (simp add: unat_of_nat_small del: of_nat_mult)
  have a: "checked_add (of_nat (n * 10)) (48 + of_nat d) = Some (of_nat (n * 10 + d + 48) :: u32)"
    unfolding checked_add_Some digit_ok(3) [OF assms(2)] using assms by (simp add: unat_of_nat_small del: of_nat_mult of_nat_add)
  have s: "checked_sub (of_nat (n * 10 + d + 48)) 48 = Some (of_nat (n * 10 + d) :: u32)"
    unfolding checked_sub_Some using assms by (simp add: unat_of_nat_small del: of_nat_mult of_nat_add)
  show ?thesis unfolding next_digit_def m by (simp add: a s del: of_nat_mult of_nat_add)
qed

lemma write_decimal:
  assumes "\<And>c. is_digit c \<Longrightarrow> escape_step c (st\<lparr>ts_mode := begin_mode\<rparr>) = do { d \<leftarrow> checked_sub c 48; Some (st\<lparr>ts_mode := K d\<rparr>) }"
    and "\<And>arg c. is_digit c \<Longrightarrow> escape_step c (st\<lparr>ts_mode := K arg\<rparr>) = do { d \<leftarrow> next_digit arg c; Some (st\<lparr>ts_mode := K d\<rparr>) }"
    and "begin_mode \<noteq> TextMode" "\<And>arg. K arg \<noteq> TextMode" and "n < 10 ^ 8"
  shows "for_each write_step (decimal n) (with_state (st\<lparr>ts_mode := begin_mode\<rparr>) s) = Some (with_state (st\<lparr>ts_mode := K (of_nat n)\<rparr>) s)"
  using assms(5)
proof (induction n rule: decimal.induct)
  case (1 n)
  show ?case
  proof (cases "n < 10")
    case True
    note d = digit_ok [OF True]
    have "escape_step (48 + of_nat n) (st\<lparr>ts_mode := begin_mode\<rparr>) = Some (st\<lparr>ts_mode := K (of_nat n)\<rparr>)"
      using assms(1) [OF d(1)] d(2) by simp
    from write_escape [OF _ this] show ?thesis using True assms(3) by (simp add: decimal.simps [of n])
  next
    case False
    have lt: "n mod 10 < 10" "n div 10 < 10 ^ 8" using 1(2) by simp_all
    have "n div 10 * 10 + n mod 10 = n" by simp
    then have "escape_step (48 + of_nat (n mod 10)) (st\<lparr>ts_mode := K (of_nat (n div 10))\<rparr>) = Some (st\<lparr>ts_mode := K (of_nat n)\<rparr>)"
      using assms(2) [OF digit_ok(1) [OF lt(1)]] next_digit_ok [OF lt(2,1)] by simp
    from write_escape [OF _ this] show ?thesis
      using 1(1) [OF False lt(2)] False assms(4) by (simp add: decimal.simps [of n] for_each_append)
  qed
qed

text \<open>The sequence that selects a colour by its red, green and blue parts: 38 for the foreground, 48 for the background.\<close>

definition sgr_rgb :: "nat \<Rightarrow> nat \<Rightarrow> nat \<Rightarrow> nat \<Rightarrow> rust_char list" where
  "sgr_rgb which r g b =
     [ESC, BRACKET] @ decimal which @ [SEMICOLON] @ decimal 2 @ [SEMICOLON] @ decimal r @ [SEMICOLON] @ decimal g @ [SEMICOLON]
       @ decimal b @ [LETTER_M]"

lemma sgr_arguments:
  assumes "which < 10 ^ 8" "r < 10 ^ 8" "g < 10 ^ 8" "b < 10 ^ 8"
  shows "for_each write_step (decimal which @ [SEMICOLON] @ decimal 2 @ [SEMICOLON] @ decimal r @ [SEMICOLON] @ decimal g @ [SEMICOLON] @ decimal b)
      (with_state (st\<lparr>ts_mode := Escape2\<rparr>) s)
    = Some (with_state (st\<lparr>ts_mode := FifthArgument (of_nat which) 2 (of_nat r) (of_nat g) (of_nat b)\<rparr>) s)"
proof -
  note step = write_escape [of _ SEMICOLON]
  have semi: "\<not> is_digit SEMICOLON" by (simp add: is_digit_def SEMICOLON_def)
  have 1: "for_each write_step (decimal which) (with_state (st\<lparr>ts_mode := Escape2\<rparr>) s) = Some (with_state (st\<lparr>ts_mode := FirstArgument (of_nat which)\<rparr>) s)"
    using assms(1) by (intro write_decimal) (simp_all add: escape_step_def)
  have 2: "for_each write_step (decimal 2) (with_state (st\<lparr>ts_mode := FirstArgumentEnd a\<rparr>) s) = Some (with_state (st\<lparr>ts_mode := SecondArgument a 2\<rparr>) s)" for a
    using write_decimal [where st = st and begin_mode = "FirstArgumentEnd a" and K = "SecondArgument a" and n = 2 and s = s] by (simp add: escape_step_def)
  have 3: "for_each write_step (decimal r) (with_state (st\<lparr>ts_mode := SecondArgumentEnd a a2\<rparr>) s)
      = Some (with_state (st\<lparr>ts_mode := ThirdArgument a a2 (of_nat r)\<rparr>) s)" for a a2
    using assms(2) by (intro write_decimal) (simp_all add: escape_step_def)
  have 4: "for_each write_step (decimal g) (with_state (st\<lparr>ts_mode := ThirdArgumentEnd a a2 a3\<rparr>) s)
      = Some (with_state (st\<lparr>ts_mode := FourthArgument a a2 a3 (of_nat g)\<rparr>) s)" for a a2 a3
    using assms(3) by (intro write_decimal) (simp_all add: escape_step_def)
  have 5: "for_each write_step (decimal b) (with_state (st\<lparr>ts_mode := FourthArgumentEnd a a2 a3 a4\<rparr>) s)
      = Some (with_state (st\<lparr>ts_mode := FifthArgument a a2 a3 a4 (of_nat b)\<rparr>) s)" for a a2 a3 a4
    using assms(4) by (intro write_decimal) (simp_all add: escape_step_def)
  have e1: "write_step SEMICOLON (with_state (st\<lparr>ts_mode := FirstArgument a\<rparr>) s) = Some (with_state (st\<lparr>ts_mode := FirstArgumentEnd a\<rparr>) s)" for a
    by (rule step) (simp_all add: escape_step_def semi)
  have e2: "write_step SEMICOLON (with_state (st\<lparr>ts_mode := SecondArgument a a2\<rparr>) s) = Some (with_state (st\<lparr>ts_mode := SecondArgumentEnd a a2\<rparr>) s)" for a a2
    by (rule step) (simp_all add: escape_step_def semi)
  have e3: "write_step SEMICOLON (with_state (st\<lparr>ts_mode := ThirdArgument a a2 a3\<rparr>) s) = Some (with_state (st\<lparr>ts_mode := ThirdArgumentEnd a a2 a3\<rparr>) s)" for a a2 a3
    by (rule step) (simp_all add: escape_step_def semi)
  have e4: "write_step SEMICOLON (with_state (st\<lparr>ts_mode := FourthArgument a a2 a3 a4\<rparr>) s) = Some (with_state (st\<lparr>ts_mode := FourthArgumentEnd a a2 a3 a4\<rparr>) s)" for a a2 a3 a4
    by (rule step) (simp_all add: escape_step_def semi)
  show ?thesis by (simp add: for_each_append 1 2 3 4 5 e1 e2 e3 e4)
qed

lemma byte_mask: "n < 256 \<Longrightarrow> (of_nat n :: u32) AND 0xFF = of_nat n"
proof -
  assume n: "n < 256"
  have "(of_nat n :: u32) AND mask 8 = take_bit 8 (of_nat n)" by (simp add: take_bit_eq_mask)
  also have "\<dots> = of_nat n" using n by (simp add: take_bit_of_nat take_bit_nat_eq_self)
  finally show ?thesis by (simp add: mask_eq_exp_minus_1)
qed

lemma rgb_parts:
  assumes "r < 256" "g < 256" "b < 256"
  defines "color \<equiv> push_bit 16 (of_nat r) OR push_bit 8 (of_nat g) OR of_nat b :: u32"
  shows "unat (drop_bit 16 color) = r" "unat (drop_bit 8 color AND 0xFF) = g" "unat (color AND 0xFF) = b"
proof -
  have low: "i < 8" if "n < 256" "bit n i" for n i :: nat
    using bit_take_bit_iff [of 8 n i] take_bit_nat_eq_self [of n 8] that by simp
  have part: "(of_nat n :: u32) = w \<Longrightarrow> unat w = n" if "n < 256" for n w
    using that unat_of_nat_small [where ?'a = 32, of n] by auto
  have ff: "(0xFF :: u32) = mask 8" by (simp add: mask_eq_exp_minus_1)
  note bits = bit_eq_iff bit_drop_bit_eq bit_or_iff bit_and_iff bit_push_bit_iff bit_mask_iff bit_of_nat_iff
  show "unat (drop_bit 16 color) = r" by (rule part [OF assms(1)]) (auto simp: color_def bits ff assms dest: low [OF assms(1)] low [OF assms(2)] low [OF assms(3)])
  show "unat (drop_bit 8 color AND 0xFF) = g" by (rule part [OF assms(2)]) (auto simp: color_def bits ff assms dest: low [OF assms(1)] low [OF assms(2)] low [OF assms(3)])
  show "unat (color AND 0xFF) = b" by (rule part [OF assms(3)]) (auto simp: color_def bits ff assms dest: low [OF assms(1)] low [OF assms(2)] low [OF assms(3)])
qed

lemma set_attribute_mode: "(set_attribute a color (st\<lparr>ts_mode := m\<rparr>))\<lparr>ts_mode := m'\<rparr> = set_attribute a color (st\<lparr>ts_mode := m'\<rparr>)"
  by (simp add: set_attribute_def)

lemma sgr_rgb_color:
  assumes "ts_mode (current_state (console_terminal s)) = TextMode" "which = 38 \<or> which = 48" "r < 256" "g < 256" "b < 256"
  shows "terminal_write (sgr_rgb which r g b) s = Some (update_state (set_attribute (of_nat which)
     (push_bit 16 (of_nat r) OR push_bit 8 (of_nat g) OR of_nat b)) s)"
proof -
  let ?st = "current_state (console_terminal s)"
  let ?st' = "\<lambda>m. ?st\<lparr>ts_mode := m\<rparr>"
  have noop: "?st\<lparr>ts_mode := TextMode\<rparr> = ?st" using assms(1) by (simp add: terminal_state.equality)
  have 1: "write_step ESC s = Some (with_state (?st' Escape1) s)"
    using assms(1) by (simp add: write_step_def text_step_def update_state_def)
  have 2: "write_step BRACKET (with_state (?st' Escape1) s) = Some (with_state (?st' Escape2) s)"
    by (rule write_escape) (simp_all add: escape_step_def)
  have 3: "for_each write_step (decimal which @ [SEMICOLON] @ decimal 2 @ [SEMICOLON] @ decimal r @ [SEMICOLON] @ decimal g @ [SEMICOLON] @ decimal b)
      (with_state (?st' Escape2) s) = Some (with_state (?st' (FifthArgument (of_nat which) 2 (of_nat r) (of_nat g) (of_nat b))) s)"
    using assms(2-5) by (intro sgr_arguments) auto
  let ?color = "push_bit 16 (of_nat r) OR push_bit 8 (of_nat g) OR of_nat b :: u32"
  have "escape_step LETTER_M (?st' (FifthArgument (of_nat which) 2 (of_nat r) (of_nat g) (of_nat b))) = Some (set_attribute (of_nat which) ?color ?st)"
    using assms(2-5) set_attribute_mode [where a = "of_nat which" and color = ?color and st = ?st] noop
    by (auto simp: escape_step_def sgr_five_def is_digit_def LETTER_M_def byte_mask)
  then have 4: "write_step LETTER_M (with_state (?st' (FifthArgument (of_nat which) 2 (of_nat r) (of_nat g) (of_nat b))) s)
      = Some (with_state (set_attribute (of_nat which) ?color ?st) s)"
    by (intro write_escape) simp_all
  have split: "sgr_rgb which r g b = [ESC, BRACKET] @ (decimal which @ [SEMICOLON] @ decimal 2 @ [SEMICOLON] @ decimal r @ [SEMICOLON]
      @ decimal g @ [SEMICOLON] @ decimal b) @ [LETTER_M]" by (simp add: sgr_rgb_def)
  let ?args = "decimal which @ [SEMICOLON] @ decimal 2 @ [SEMICOLON] @ decimal r @ [SEMICOLON] @ decimal g @ [SEMICOLON] @ decimal b"
  have "terminal_write (sgr_rgb which r g b) s = for_each write_step (?args @ [LETTER_M]) (with_state (?st' Escape2) s)"
    unfolding terminal_write_def split by (simp add: 1 2)
  also have "\<dots> = Some (with_state (set_attribute (of_nat which) ?color ?st) s)"
    unfolding for_each_append [of write_step ?args] 3 by (simp add: 4)
  finally show ?thesis by (simp add: update_state_def)
qed

subsection \<open>Properties\<close>

text \<open>
  C11. Writing plain text refines the abstract screen: on a console whose screen shows the back buffer, any text without
  tabs and escapes whose characters the font can draw (for the font that the kernel loads: all but U+007F) is written without a panic, however often the cursor wraps or the screen scrolls; the cells and the
  cursor are those of a grid on which the characters are typed one by one, the colours and the mode stay, and the console
  keeps its invariant.
\<close>

theorem terminal_write_refines:
  assumes "console_ok s" and "ts_mode (current_state (console_terminal s)) = TextMode" 
    and "\<forall>c \<in> set text. c \<noteq> ESC \<and> c \<noteq> 9 \<and> (c = 10 \<or> c = 13 \<or> drawable (t_font (console_terminal s)) c)"
  shows "\<exists>s'. terminal_write text s = Some s' \<and> console_ok s' \<and> same_attributes (console_terminal s) (console_terminal s')
     \<and> screen_of (console_terminal s') = fold (screen_type (unat (t_width (console_terminal s))) (unat (t_height (console_terminal s)))
          (ts_foreground (current_state (console_terminal s))) (ts_background (current_state (console_terminal s)))) text
          (screen_of (console_terminal s))"
  using assms
proof (induction "text" arbitrary: s)
  case Nil
  then show ?case by (simp add: terminal_write_def same_attributes_def)
next
  case (Cons c cs)
  obtain s1 where s1: "text_step c s = Some s1" "console_ok s1" "same_attributes (console_terminal s) (console_terminal s1)"
    "screen_of (console_terminal s1) = screen_type (unat (t_width (console_terminal s))) (unat (t_height (console_terminal s)))
       (ts_foreground (current_state (console_terminal s))) (ts_background (current_state (console_terminal s))) c (screen_of (console_terminal s))"
    by (rule text_step_ok [OF Cons.prems(1), of c]) (use Cons.prems(3) in auto)
  from Cons.IH [OF s1(2)] Cons.prems(2,3) s1(3) obtain s2 where "terminal_write cs s1 = Some s2" "console_ok s2"
    "same_attributes (console_terminal s) (console_terminal s2)"
    "screen_of (console_terminal s2) = fold (screen_type (unat (t_width (console_terminal s))) (unat (t_height (console_terminal s)))
          (ts_foreground (current_state (console_terminal s))) (ts_background (current_state (console_terminal s)))) cs
          (screen_of (console_terminal s1))" by (auto simp: same_attributes_def)
  then show ?case using s1(1,4) Cons.prems(2) by (simp add: terminal_write_def write_step_def)
qed

lemma demo_console_start: "console_ok demo_console" "ts_mode (current_state (console_terminal demo_console)) = TextMode"
  using demo_console_ok [where front = "front_buffer (console_terminal demo_console)" and st = "current_state (console_terminal demo_console)"]
  by (simp_all add: demo_console_def terminal_state_default_def default_character)

theorem terminal_write_refines_witness:
  "\<exists>s'. terminal_write [72, 105, 10, 33] demo_console = Some s' \<and> console_ok s'
     \<and> column (screen_of (console_terminal s')) = 1 \<and> line (screen_of (console_terminal s')) = 1
     \<and> sc_character (grid (screen_of (console_terminal s')) 0 1) = 33"
proof -
  have "fold (screen_type 2 2 fg bg) [72, 105, 10, 33] (screen_of (console_terminal demo_console))
    = (fold (screen_type 2 2 fg bg) [72, 105, 10] (screen_of (console_terminal demo_console)))
      \<lparr>grid := \<lambda>x y. if x = 0 \<and> y = 1 then \<lparr>sc_character = 33, sc_foreground = fg, sc_background = bg\<rparr>
          else grid (fold (screen_type 2 2 fg bg) [72, 105, 10] (screen_of (console_terminal demo_console))) x y, column := 1\<rparr>" for fg bg
    by (simp add: screen_type_def screen_feed_def screen_of_def demo_console_def terminal_state_default_def Let_def fun_eq_iff)
  moreover have "line (fold (screen_type 2 2 fg bg) [72, 105, 10] (screen_of (console_terminal demo_console))) = 1" for fg bg
    by (simp add: screen_type_def screen_feed_def screen_of_def demo_console_def terminal_state_default_def Let_def)
  ultimately show ?thesis
    using terminal_write_refines [OF demo_console_start, of "[72, 105, 10, 33]"] by (auto simp: ESC_def demo_console_def demo_font_drawable)
qed

text \<open>
  Colours survive the escape sequence that carries them: writing \<^verbatim>\<open>ESC [ 38 ; 2 ; r ; g ; b m\<close>, or 48 in the place
  of 38, with the parts in decimal, sets the foreground or the background to a colour with exactly these parts and changes
  nothing else of the console.
\<close>

theorem sgr_rgb_round_trip:
  assumes "ts_mode (current_state (console_terminal s)) = TextMode" "which = 38 \<or> which = 48" "r < 256" "g < 256" "b < 256"
  shows "\<exists>color. terminal_write (sgr_rgb which r g b) s = Some (update_state (set_attribute (of_nat which) color) s)
     \<and> unat (drop_bit 16 color) = r \<and> unat (drop_bit 8 color AND 0xFF) = g \<and> unat (color AND 0xFF) = b"
proof -
  let ?color = "push_bit 16 (of_nat r) OR push_bit 8 (of_nat g) OR of_nat b :: u32"
  note parts = rgb_parts [OF assms(3-5)]
  show ?thesis using sgr_rgb_color [OF assms] parts by (intro exI [of _ ?color]) simp
qed

theorem sgr_rgb_round_trip_witness:
  "\<exists>color. terminal_write (sgr_rgb 48 18 52 255) demo_console = Some (update_state (set_attribute 48 color) demo_console)
     \<and> unat (drop_bit 16 color) = 18 \<and> unat (drop_bit 8 color AND 0xFF) = 52 \<and> unat (color AND 0xFF) = 255"
  using sgr_rgb_round_trip [OF demo_console_start(2), of 48 18 52 255] by simp

end
