(* ===== verification/Cpio.thy ===== *)
theory Cpio
  imports Prelude
begin

text \<open>
  Archives, \<^verbatim>\<open>src/kernel/src/cpio.rs\<close>: the portable ASCII format with octal numbers, in which the kernel finds its font.
  The search is checked against the archives that a writer of the format makes.
\<close>

subsection \<open>Reading\<close>

record cpio_node =
  cpio_magic :: "u8 list"
  cpio_device :: "u8 list"
  cpio_i_number :: "u8 list"
  cpio_mode :: "u8 list"
  cpio_user_id :: "u8 list"
  cpio_group_id :: "u8 list"
  cpio_num_links :: "u8 list"
  cpio_r_device :: "u8 list"
  cpio_modified_time :: "u8 list"
  name_len_octal :: "u8 list"
  file_size_octal :: "u8 list"

definition NAME_OFFSET :: usize where
  "NAME_OFFSET = 76"

definition CPIO_MAGIC :: "u8 list" where
  "CPIO_MAGIC = [0x30, 0x37, 0x30, 0x37, 0x30, 0x37]"

definition size_of_cpio_node :: usize where
  "size_of_cpio_node = 76"

fun octal_to_binary_loop :: "u8 list \<Rightarrow> usize \<Rightarrow> usize option" where
  "octal_to_binary_loop [] number = Some number"
| "octal_to_binary_loop (digit # octal) number =
     do { let number = push_bit 3 number;
          d \<leftarrow> checked_sub digit 0x30;
          number \<leftarrow> checked_add number (ucast d);
          octal_to_binary_loop octal number }"

definition octal_to_binary :: "u8 list \<Rightarrow> usize option" where
  "octal_to_binary octal = octal_to_binary_loop octal 0"

definition get_name_cstring_len :: "cpio_node \<Rightarrow> usize option" where
  "get_name_cstring_len node = octal_to_binary (name_len_octal node)"

definition get_file_size :: "cpio_node \<Rightarrow> usize option" where
  "get_file_size node = octal_to_binary (file_size_octal node)"

text \<open>
  The cast of a pointer into the archive to a pointer to a node; reading a node that the archive does not hold completely
  is undefined.
\<close>

definition cast_node :: "u8 list \<Rightarrow> nat \<Rightarrow> cpio_node option" where
  "cast_node archive pos =
     do { b \<leftarrow> slice_range archive pos (pos + 76);
          Some \<lparr>cpio_magic = take 6 b, cpio_device = take 6 (drop 6 b), cpio_i_number = take 6 (drop 12 b),
                cpio_mode = take 6 (drop 18 b), cpio_user_id = take 6 (drop 24 b), cpio_group_id = take 6 (drop 30 b),
                cpio_num_links = take 6 (drop 36 b), cpio_r_device = take 6 (drop 42 b),
                cpio_modified_time = take 11 (drop 48 b), name_len_octal = take 6 (drop 59 b),
                file_size_octal = drop 65 b\<rparr> }"

text \<open>\<^verbatim>\<open>archive[start..][0..n]\<close>\<close>

definition slice_from :: "'a list \<Rightarrow> nat \<Rightarrow> nat \<Rightarrow> 'a list option" where
  "slice_from xs start n =
     do { rest \<leftarrow> slice_range xs start (length xs);
          slice_range rest 0 n }"

partial_function (option) find_file_loop :: "u8 list \<Rightarrow> u8 list \<Rightarrow> usize \<Rightarrow> u8 list option option" where
  "find_file_loop archive file_name current_pos =
     (if \<not> current_pos < of_nat (length archive) then Some None
      else do { left \<leftarrow> checked_sub (of_nat (length archive)) current_pos;
                left \<leftarrow> checked_add left 1;
                if left < size_of_cpio_node then Some None
                else do { node \<leftarrow> cast_node archive (unat current_pos);
                          node_name_len \<leftarrow> get_name_cstring_len node;
                          node_file_size \<leftarrow> get_file_size node;
                          name_pos \<leftarrow> checked_add current_pos NAME_OFFSET;
                          n \<leftarrow> checked_sub node_name_len 1;
                          node_name \<leftarrow> slice_from archive (unat name_pos) (unat n);
                          if cpio_magic node \<noteq> CPIO_MAGIC then Some None
                          else if file_name \<noteq> node_name
                          then do { a \<leftarrow> checked_add 76 node_name_len;
                                    b \<leftarrow> checked_add a node_file_size;
                                    next_pos \<leftarrow> checked_add current_pos b;
                                    find_file_loop archive file_name next_pos }
                          else do { data_pos \<leftarrow> checked_add name_pos node_name_len;
                                    data \<leftarrow> slice_from archive (unat data_pos) (unat node_file_size);
                                    Some (Some data) } } })"

definition find_file :: "u8 list \<Rightarrow> u8 list \<Rightarrow> u8 list option option" where
  "find_file archive file_name = find_file_loop archive file_name 0"

subsection \<open>Archives as they are written\<close>

text \<open>A number of \<open>k\<close> octal digits.\<close>

fun octal :: "nat \<Rightarrow> nat \<Rightarrow> u8 list" where
  "octal 0 n = []"
| "octal (Suc k) n = octal k (n div 8) @ [48 + of_nat (n mod 8)]"

text \<open>A member of an archive; the fields from the device to the time of the last change are not looked at.\<close>

record member =
  member_meta :: "u8 list"
  member_name :: "u8 list"
  member_data :: "u8 list"

definition encode_member :: "member \<Rightarrow> u8 list" where
  "encode_member m = CPIO_MAGIC @ member_meta m @ octal 6 (length (member_name m) + 1) @ octal 11 (length (member_data m))
     @ member_name m @ [0] @ member_data m"

definition encode_archive :: "member list \<Rightarrow> u8 list" where
  "encode_archive ms = concat (map encode_member ms)"

definition member_ok :: "member \<Rightarrow> bool" where
  "member_ok m \<longleftrightarrow> length (member_meta m) = 53 \<and> length (member_name m) + 1 < 8 ^ 6 \<and> length (member_data m) < 8 ^ 11"

text \<open>The contents of the first member with the name.\<close>

definition lookup_member :: "member list \<Rightarrow> u8 list \<Rightarrow> u8 list option" where
  "lookup_member ms name = map_option member_data (find (\<lambda>m. member_name m = name) ms)"

lemma length_octal [simp]: "length (octal k n) = k"
  by (induction k arbitrary: n) simp_all

lemma octal_to_binary_loop_append:
  "octal_to_binary_loop (xs @ ys) acc = do { acc \<leftarrow> octal_to_binary_loop xs acc; octal_to_binary_loop ys acc }"
  by (induction xs acc rule: octal_to_binary_loop.induct) (auto simp: Let_def split: bind_splits)

lemma octal_digit:
  assumes "d < 8"
  shows "checked_sub (48 + of_nat d :: u8) 0x30 = Some (of_nat d)" "unat (ucast (of_nat d :: u8) :: usize) = d"
proof -
  have d: "unat (of_nat d :: u8) = d" using assms by (simp add: unat_of_nat_small)
  then have "unat (48 + of_nat d :: u8) = 48 + d" using assms by (simp add: unat_word_ariths)
  then show "checked_sub (48 + of_nat d :: u8) 0x30 = Some (of_nat d)" using d by (simp add: checked_sub_Some)
  show "unat (ucast (of_nat d :: u8) :: usize) = d" using d by (subst unat_ucast_up) simp_all
qed

lemma octal_to_binary_octal:
  assumes "n < 8 ^ k" "k \<le> 20"
  shows "octal_to_binary (octal k n) = Some (of_nat n)"
  using assms
proof (induction k arbitrary: n)
  case 0
  then show ?case by (simp add: octal_to_binary_def)
next
  case (Suc k)
  have q: "n div 8 < 8 ^ k" using Suc.prems(1) by (simp add: div_less_iff_less_mult mult.commute)
  have "8 ^ Suc k \<le> (8 :: nat) ^ 20" using Suc.prems(2) by (rule power_increasing) simp
  then have n: "n < 2 ^ 60" using Suc.prems(1) by simp
  have "push_bit 3 (of_nat (n div 8)) = (of_nat (n div 8 * 8) :: usize)"
    by (simp add: push_bit_eq_mult)
  moreover have "unat (of_nat (n div 8 * 8) :: usize) = n div 8 * 8" "unat (of_nat n :: usize) = n"
    using n by (simp_all add: unat_of_nat_small del: of_nat_mult)
  then have "checked_add (of_nat (n div 8 * 8)) (ucast (of_nat (n mod 8) :: u8)) = Some (of_nat n :: usize)"
    unfolding checked_add_Some by (simp add: octal_digit(2) del: of_nat_mult)
  ultimately show ?case
    using Suc.IH [OF q] Suc.prems(2) octal_digit(1) [of "n mod 8"]
    by (simp add: octal_to_binary_def octal_to_binary_loop_append Let_def del: of_nat_mult)
qed

subsection \<open>One member\<close>

lemma length_encode_member:
  "member_ok m \<Longrightarrow> length (encode_member m) = 76 + (length (member_name m) + 1) + length (member_data m)"
  by (simp add: encode_member_def member_ok_def CPIO_MAGIC_def)

lemma slice_from_append: "n = length ys \<Longrightarrow> k = length xs \<Longrightarrow> slice_from (xs @ ys @ zs) k n = Some ys"
  by (simp add: slice_from_def slice_range_def)

lemma cast_node_member:
  assumes "member_ok m"
  obtains node where "cast_node (pre @ encode_member m @ rest) (length pre) = Some node" "cpio_magic node = CPIO_MAGIC"
    "name_len_octal node = octal 6 (length (member_name m) + 1)" "file_size_octal node = octal 11 (length (member_data m))"
proof -
  let ?h = "CPIO_MAGIC @ member_meta m @ octal 6 (length (member_name m) + 1) @ octal 11 (length (member_data m))"
  have len: "length ?h = 76" "length (member_meta m) = 53" "length CPIO_MAGIC = 6"
    using assms by (simp_all add: member_ok_def CPIO_MAGIC_def)
  have e: "encode_member m = ?h @ member_name m @ [0] @ member_data m" by (simp add: encode_member_def)
  have "slice_range (pre @ encode_member m @ rest) (length pre) (length pre + 76) = Some ?h"
    unfolding e using len(1) by (simp add: slice_range_def)
  then have "\<exists>node. cast_node (pre @ encode_member m @ rest) (length pre) = Some node \<and> cpio_magic node = CPIO_MAGIC
      \<and> name_len_octal node = octal 6 (length (member_name m) + 1) \<and> file_size_octal node = octal 11 (length (member_data m))"
    using len(2,3) by (simp add: cast_node_def del: octal.simps)
  then show ?thesis using that by blast
qed

lemma find_file_member:
  assumes m: "member_ok m" and len: "length (pre @ encode_member m @ rest) < 2 ^ 63"
  shows "find_file_loop (pre @ encode_member m @ rest) name (of_nat (length pre)) =
    (if member_name m = name then Some (Some (member_data m))
     else find_file_loop (pre @ encode_member m @ rest) name (of_nat (length (pre @ encode_member m))))"
proof -
  let ?a = "pre @ encode_member m @ rest" and ?p = "of_nat (length pre) :: usize"
  let ?n = "length (member_name m) + 1" and ?d = "length (member_data m)"
  note lm = length_encode_member [OF m]
  have pos: "unat (of_nat i :: usize) = i" if "i \<le> length ?a" for i using that len by (simp add: unat_of_nat_small)
  have add: "checked_add (of_nat i) (of_nat j) = Some (of_nat (i + j) :: usize)" if "i + j \<le> length ?a + 1" for i j
    using that len unfolding checked_add_Some by (simp add: unat_of_nat_small del: of_nat_add)
  obtain node where node: "cast_node ?a (length pre) = Some node" "cpio_magic node = CPIO_MAGIC"
    "name_len_octal node = octal 6 ?n" "file_size_octal node = octal 11 ?d" by (rule cast_node_member [OF m])
  have fields: "get_name_cstring_len node = Some (of_nat ?n)" "get_file_size node = Some (of_nat ?d)"
    using m octal_to_binary_octal [of ?n 6] octal_to_binary_octal [of ?d 11]
    by (simp_all add: get_name_cstring_len_def get_file_size_def node(3,4) member_ok_def del: octal.simps)
  have lt: "?p < of_nat (length ?a)"
    unfolding word_less_nat_alt using pos [of "length pre"] pos [of "length ?a"] lm by simp
  have left: "checked_sub (of_nat (length ?a)) ?p = Some (of_nat (length (encode_member m) + length rest))"
    unfolding checked_sub_Some using pos [of "length pre"] pos [of "length ?a"] pos [of "length (encode_member m) + length rest"] by simp
  have left1: "checked_add (of_nat (length (encode_member m) + length rest)) 1 = Some (of_nat (length (encode_member m) + length rest + 1) :: usize)"
    using add [of "length (encode_member m) + length rest" 1] by simp
  have big: "\<not> (of_nat (length (encode_member m) + length rest + 1) :: usize) < size_of_cpio_node"
    unfolding word_less_nat_alt size_of_cpio_node_def
    using len lm by (simp add: unat_of_nat_small del: of_nat_add)
  have name_pos: "checked_add ?p NAME_OFFSET = Some (of_nat (length pre + 76))"
    using add [of "length pre" 76] lm by (simp add: NAME_OFFSET_def)
  have n1: "checked_sub (of_nat ?n) 1 = Some (of_nat (length (member_name m)) :: usize)"
    unfolding checked_sub_Some using pos [of ?n] pos [of "length (member_name m)"] lm by simp
  have split: "?a = (pre @ CPIO_MAGIC @ member_meta m @ octal 6 ?n @ octal 11 ?d) @ member_name m @ ([0] @ member_data m @ rest)"
    "?a = (pre @ CPIO_MAGIC @ member_meta m @ octal 6 ?n @ octal 11 ?d @ member_name m @ [0]) @ member_data m @ rest"
    by (simp_all add: encode_member_def del: octal.simps)
  have name: "slice_from ?a (length pre + 76) (length (member_name m)) = Some (member_name m)"
    unfolding split(1) by (rule slice_from_append) (use m in \<open>simp_all add: member_ok_def CPIO_MAGIC_def del: octal.simps\<close>)
  have data: "slice_from ?a (length pre + 76 + ?n) ?d = Some (member_data m)"
    unfolding split(2) by (rule slice_from_append) (use m in \<open>simp_all add: member_ok_def CPIO_MAGIC_def del: octal.simps\<close>)
  have data_pos: "checked_add (of_nat (length pre + 76)) (of_nat ?n) = Some (of_nat (length pre + 76 + ?n) :: usize)"
    by (rule add) (simp add: lm)
  have nxt: "checked_add 76 (of_nat ?n) = Some (of_nat (76 + ?n) :: usize)"
    "checked_add (of_nat (76 + ?n)) (of_nat ?d) = Some (of_nat (76 + ?n + ?d) :: usize)"
    "checked_add ?p (of_nat (76 + ?n + ?d)) = Some (of_nat (length (pre @ encode_member m)))"
    using add [of 76 ?n] add [of "76 + ?n" ?d] add [of "length pre" "76 + ?n + ?d"] lm by simp_all
  have u: "unat (of_nat (length pre + 76) :: usize) = length pre + 76" "unat (of_nat (length (member_name m)) :: usize) = length (member_name m)"
    "unat (of_nat (length pre + 76 + ?n) :: usize) = length pre + 76 + ?n" "unat (of_nat ?d :: usize) = ?d" "unat ?p = length pre"
    using lm by (intro pos, simp)+
  show ?thesis
    by (subst find_file_loop.simps)
      (use lt big in \<open>auto simp only: left left1 node fields name_pos n1 u name data data_pos nxt bind.simps if_True if_False simp_thms split: if_split\<close>)
qed

subsection \<open>A whole archive\<close>

lemma find_file_members:
  assumes "\<forall>m \<in> set ms. member_ok m" "length (pre @ encode_archive ms @ rest) < 2 ^ 63"
  shows "find_file_loop (pre @ encode_archive ms @ rest) name (of_nat (length pre)) =
    (case lookup_member ms name of Some data \<Rightarrow> Some (Some data)
     | None \<Rightarrow> find_file_loop (pre @ encode_archive ms @ rest) name (of_nat (length (pre @ encode_archive ms))))"
  using assms
proof (induction ms arbitrary: pre)
  case Nil
  then show ?case by (simp add: encode_archive_def lookup_member_def)
next
  case (Cons m ms)
  have a: "encode_archive (m # ms) @ rest = encode_member m @ encode_archive ms @ rest" by (simp add: encode_archive_def)
  have "find_file_loop (pre @ encode_member m @ encode_archive ms @ rest) name (of_nat (length pre)) =
    (if member_name m = name then Some (Some (member_data m))
     else find_file_loop (pre @ encode_member m @ encode_archive ms @ rest) name (of_nat (length (pre @ encode_member m))))"
    using Cons.prems by (intro find_file_member) (simp_all add: encode_archive_def)
  moreover have "length (pre @ encode_archive (m # ms)) = length ((pre @ encode_member m) @ encode_archive ms)" by (simp add: encode_archive_def)
  moreover have "lookup_member (m # ms) name = (if member_name m = name then Some (member_data m) else lookup_member ms name)"
    by (simp add: lookup_member_def)
  ultimately show ?case
    using Cons.IH [of "pre @ encode_member m"] Cons.prems unfolding a append_assoc by (cases "member_name m = name") (simp_all add: a split: option.split)
qed

lemma find_file_end:
  assumes "length (a @ rest) < 2 ^ 63"
  shows "length rest < 75 \<Longrightarrow> find_file_loop (a @ rest) name (of_nat (length a)) = Some None"
    "75 \<le> length rest \<Longrightarrow> rest = replicate (length rest) 0 \<Longrightarrow> find_file_loop (a @ rest) name (of_nat (length a)) = None"
proof -
  let ?p = "of_nat (length a) :: usize"
  have pos: "unat (of_nat i :: usize) = i" if "i \<le> length (a @ rest) + 1" for i using that assms by (simp add: unat_of_nat_small)
  have lt: "(?p < of_nat (length (a @ rest))) = (rest \<noteq> [])"
    unfolding word_less_nat_alt using pos [of "length a"] pos [of "length (a @ rest)"] by simp
  have left: "checked_sub (of_nat (length (a @ rest))) ?p = Some (of_nat (length rest))"
    unfolding checked_sub_Some using pos [of "length a"] pos [of "length (a @ rest)"] pos [of "length rest"] by simp
  have left1: "checked_add (of_nat (length rest)) 1 = Some (of_nat (length rest + 1) :: usize)"
    unfolding checked_add_Some using pos [of "length rest"] pos [of "length rest + 1"] by simp
  have small: "((of_nat (length rest + 1) :: usize) < size_of_cpio_node) = (length rest < 75)"
    unfolding word_less_nat_alt size_of_cpio_node_def using pos [of "length rest + 1"] by simp
  have up: "unat ?p = length a" by (rule pos) simp
  show "find_file_loop (a @ rest) name ?p = Some None" if "length rest < 75"
    using that by (subst find_file_loop.simps) (simp only: lt left left1 small bind.simps if_True if_cancel)
  show "find_file_loop (a @ rest) name ?p = None" if r: "75 \<le> length rest" "rest = replicate (length rest) 0"
  proof -
    have "cast_node (a @ rest) (length a) = None \<or> (\<exists>node. cast_node (a @ rest) (length a) = Some node \<and> get_name_cstring_len node = None)"
    proof (cases "length rest = 75")
      case True
      then show ?thesis by (simp add: cast_node_def slice_range_def)
    next
      case False
      then have "76 \<le> length rest" using r(1) by simp
      then have "slice_range (a @ rest) (length a) (length a + 76) = Some (take 76 rest)" by (simp add: slice_range_def)
      moreover have "take 76 rest = replicate 76 0" using r(2) \<open>76 \<le> length rest\<close> by (metis take_replicate min.absorb1)
      moreover have "octal_to_binary (replicate (Suc 5) 0) = None" unfolding octal_to_binary_def replicate_Suc by (simp add: checked_sub_def)
      ultimately show ?thesis by (simp add: cast_node_def get_name_cstring_len_def)
    qed
    moreover have "rest \<noteq> []" "\<not> length rest < 75" using r(1) by auto
    ultimately show ?thesis
      by (subst find_file_loop.simps) (elim disjE exE conjE; simp only: lt left left1 small up bind.simps if_False simp_thms)
  qed
qed

subsection \<open>Properties\<close>

text \<open>
  C20. Files are found in archives: in an archive that a writer of the format made of members, followed by anything, the
  search terminates and returns the contents of the first member with the name. For a name without a member it returns
  nothing when fewer than 75 bytes follow, and panics when the archive is padded with 75 or more zero bytes, since
  the digits of the next header are read before its magic number is checked.
\<close>

theorem find_file_correct:
  assumes "\<forall>m \<in> set ms. member_ok m" "length (encode_archive ms @ rest) < 2 ^ 63"
  shows "(\<forall>data. lookup_member ms name = Some data \<longrightarrow> find_file (encode_archive ms @ rest) name = Some (Some data))
     \<and> (lookup_member ms name = None \<longrightarrow> length rest < 75 \<longrightarrow> find_file (encode_archive ms @ rest) name = Some None)
     \<and> (lookup_member ms name = None \<longrightarrow> 75 \<le> length rest \<longrightarrow> rest = replicate (length rest) 0
          \<longrightarrow> find_file (encode_archive ms @ rest) name = None)"
  using find_file_members [of ms "[]" rest name] find_file_end [of "encode_archive ms" rest name] assms
  by (auto simp: find_file_def)

definition demo_member :: member where
  "demo_member = \<lparr>member_meta = replicate 53 48, member_name = [102, 111], member_data = [1, 2, 3]\<rparr>"

theorem find_file_correct_witness:
  "find_file (encode_archive [demo_member] @ [9, 9]) [102, 111] = Some (Some [1, 2, 3])
   \<and> find_file (encode_archive [demo_member] @ [9, 9]) [102] = Some None
   \<and> find_file (encode_archive [demo_member] @ replicate 100 0) [102] = None"
proof -
  have m: "\<forall>m \<in> set [demo_member]. member_ok m" by (simp add: member_ok_def demo_member_def)
  have len: "length (encode_archive [demo_member]) = 82"
    using m by (simp add: encode_archive_def length_encode_member) (simp add: demo_member_def)
  have l: "lookup_member [demo_member] [102, 111] = Some [1, 2, 3]" "lookup_member [demo_member] [102] = None"
    by (simp_all add: lookup_member_def demo_member_def)
  show ?thesis
    using find_file_correct [OF m, of "[9, 9]" "[102, 111]"] find_file_correct [OF m, of "[9, 9]" "[102]"]
      find_file_correct [OF m, of "replicate 100 0" "[102]"] l len by simp
qed

end
