(* ===== verification/Process_List.thy ===== *)
theory Process_List
  imports Prelude
begin

text \<open>
  The list of pending processes, \<^verbatim>\<open>src/kernel/src/process.rs\<close>: a singly linked list through the processes themselves, with
  pointers to both ends, as a state machine of pushes and pops.
\<close>

subsection \<open>The list\<close>

record register_store =
  reg_rax :: u64
  reg_rbx :: u64
  reg_rcx :: u64
  reg_rdx :: u64
  reg_rsi :: u64
  reg_rdi :: u64
  reg_rbp :: u64
  reg_rsp :: u64
  reg_r8 :: u64
  reg_r9 :: u64
  reg_r10 :: u64
  reg_r11 :: u64
  reg_r12 :: u64
  reg_r13 :: u64
  reg_r14 :: u64
  reg_r15 :: u64
  reg_rip :: u64
  reg_rflags :: u64
  reg_fs :: u64
  reg_gs :: u64
  fxsave_area :: "128 word list"

record process =
  proc_next :: "usize option"
  proc_registers :: register_store

text \<open>The processes by their addresses beside the list \<^verbatim>\<open>PENDING_PROCESSES\<close>.\<close>

record process_list =
  processes :: "usize \<Rightarrow> process option"
  list_head :: "usize option"
  list_tail :: "usize option"

definition PENDING_PROCESSES :: "(usize \<Rightarrow> process option) \<Rightarrow> process_list" where
  "PENDING_PROCESSES heap = \<lparr>processes = heap, list_head = None, list_tail = None\<rparr>"

text \<open>A \<^verbatim>\<open>PageBox\<close> is its pointer; the debug assertions compare the links with \<open>None\<close>.\<close>

definition push_back :: "usize \<Rightarrow> process_list \<Rightarrow> process_list option" where
  "push_back process_ptr s =
     do { p \<leftarrow> processes s process_ptr;
          guard (proc_next p = None);
          s \<leftarrow> (case list_tail s of
                  None \<Rightarrow> Some s
                | Some tail_ptr \<Rightarrow>
                    do { t \<leftarrow> processes s tail_ptr;
                         guard (proc_next t = None);
                         Some (s\<lparr>processes := (processes s)(tail_ptr \<mapsto> t\<lparr>proc_next := Some process_ptr\<rparr>)\<rparr>) });
          Some (s\<lparr>list_tail := Some process_ptr\<rparr>) }"

definition pop_front :: "process_list \<Rightarrow> (usize option \<times> process_list) option" where
  "pop_front s =
     (case list_head s of
        None \<Rightarrow> Some (None, s)
      | Some head_ptr \<Rightarrow>
          do { return_process \<leftarrow> processes s head_ptr;
               Some (Some head_ptr, s\<lparr>list_head := proc_next return_process\<rparr>) })"

subsection \<open>Runs\<close>

text \<open>
  A run of the kernel pushes processes it owns, each with no successor, and pops; \<open>runs heap pushed s\<close> relates the
  processes pushed so far, in their order, to the state.
\<close>

inductive runs :: "(usize \<Rightarrow> process option) \<Rightarrow> usize list \<Rightarrow> process_list \<Rightarrow> bool" for heap where
  start: "runs heap [] (PENDING_PROCESSES heap)"
| push: "runs heap pushed s \<Longrightarrow> p \<notin> set pushed \<Longrightarrow> push_back p s = Some s' \<Longrightarrow> runs heap (pushed @ [p]) s'"
| pop: "runs heap pushed s \<Longrightarrow> pop_front s = Some (r, s') \<Longrightarrow> runs heap pushed s'"

inductive_cases runs_nonempty: "runs heap (p # pushed) s"

text \<open>The processes are linked in the order of the list.\<close>

fun linked :: "(usize \<Rightarrow> process option) \<Rightarrow> usize list \<Rightarrow> bool" where
  "linked heap [] \<longleftrightarrow> True"
| "linked heap [p] \<longleftrightarrow> (\<exists>q. heap p = Some q \<and> proc_next q = None)"
| "linked heap (p # p' # ps) \<longleftrightarrow> (\<exists>q. heap p = Some q \<and> proc_next q = Some p') \<and> linked heap (p' # ps)"

definition last_option :: "'a list \<Rightarrow> 'a option" where
  "last_option xs = (if xs = [] then None else Some (last xs))"

lemma linked_other: "p \<notin> set ps \<Longrightarrow> linked (heap(p := v)) ps = linked heap ps"
  by (induction heap ps rule: linked.induct) auto

lemma linked_last: "linked heap ps \<Longrightarrow> ps \<noteq> [] \<Longrightarrow> \<exists>q. heap (last ps) = Some q \<and> proc_next q = None"
  by (induction heap ps rule: linked.induct) auto

lemma linked_snoc:
  assumes "linked heap ps" "ps \<noteq> []" "distinct ps" "p \<notin> set ps" "heap (last ps) = Some t" "heap p = Some q" "proc_next q = None"
  shows "linked (heap(last ps \<mapsto> t\<lparr>proc_next := Some p\<rparr>)) (ps @ [p])"
  using assms
proof (induction heap ps rule: linked.induct)
  case (3 heap a b ps)
  then have "a \<noteq> last (b # ps)" by (metis distinct.simps(2) last_in_set list.distinct(1))
  then show ?case using 3 by auto
qed auto

lemma runs_inv:
  assumes "runs heap pushed s"
  shows "list_head s = None \<and> distinct pushed \<and> list_tail s = last_option pushed \<and> linked (processes s) pushed"
  using assms
proof (induction rule: runs.induct)
  case start
  then show ?case by (simp add: PENDING_PROCESSES_def last_option_def)
next
  case (push pushed s p s')
  then have inv: "list_head s = None" "distinct pushed" "list_tail s = last_option pushed" "linked (processes s) pushed" by simp_all
  from push(3) obtain q where q: "processes s p = Some q" "proc_next q = None" by (auto simp: push_back_def bind_eq_Some_conv)
  show ?case
  proof (cases "pushed = []")
    case True
    then show ?thesis using push(3) inv q by (auto simp: push_back_def last_option_def)
  next
    case False
    from linked_last [OF inv(4) False] obtain t where t: "processes s (last pushed) = Some t" "proc_next t = None" by blast
    have "s' = s\<lparr>processes := (processes s)(last pushed \<mapsto> t\<lparr>proc_next := Some p\<rparr>), list_tail := Some p\<rparr>"
      using push(3) inv(3) q t False by (simp add: push_back_def last_option_def)
    then show ?thesis
      using linked_snoc [OF inv(4) False inv(2) push(2) t(1) q] inv push(2) by (simp add: last_option_def fun_upd_def)
  qed
next
  case (pop pushed s r s')
  then show ?case by (simp add: pop_front_def)
qed

subsection \<open>Properties\<close>

text \<open>
  C36. No pending process ever leaves the list: in every run of pushes and pops the processes pushed so far are linked in
  their order and the tail points to the last one, so that a push never panics, but no operation sets the head, and every
  \<open>pop_front\<close> returns nothing.
\<close>

theorem pending_processes_starve:
  assumes "runs heap pushed s" "p \<notin> set pushed" "processes s p = Some q" "proc_next q = None"
  shows "pop_front s = Some (None, s) \<and> linked (processes s) pushed \<and> list_tail s = last_option pushed
     \<and> (\<exists>s'. push_back p s = Some s' \<and> linked (processes s') (pushed @ [p]) \<and> pop_front s' = Some (None, s'))"
proof -
  note inv = runs_inv [OF assms(1)]
  have "\<exists>s'. push_back p s = Some s'"
    using inv assms(3,4) linked_last [of "processes s" pushed] by (auto simp: push_back_def last_option_def)
  then obtain s' where s': "push_back p s = Some s'" by blast
  note inv' = runs_inv [OF runs.push [OF assms(1,2) s']]
  show ?thesis using inv inv' s' by (simp add: pop_front_def)
qed

definition demo_process :: process where
  "demo_process = \<lparr>proc_next = None, proc_registers = \<lparr>reg_rax = 0, reg_rbx = 0, reg_rcx = 0, reg_rdx = 0, reg_rsi = 0, reg_rdi = 0,
     reg_rbp = 0, reg_rsp = 0, reg_r8 = 0, reg_r9 = 0, reg_r10 = 0, reg_r11 = 0, reg_r12 = 0, reg_r13 = 0, reg_r14 = 0, reg_r15 = 0,
     reg_rip = 0, reg_rflags = 0, reg_fs = 0, reg_gs = 0, fxsave_area = replicate 32 0\<rparr>\<rparr>"

theorem pending_processes_starve_witness:
  "\<exists>s s'. push_back 4096 (PENDING_PROCESSES (\<lambda>_. Some demo_process)) = Some s \<and> pop_front s = Some (None, s)
     \<and> push_back 8192 s = Some s' \<and> linked (processes s') [4096, 8192] \<and> pop_front s' = Some (None, s')"
proof -
  let ?start = "PENDING_PROCESSES (\<lambda>_. Some demo_process)"
  let ?s = "?start\<lparr>list_tail := Some 4096\<rparr>"
  have s: "push_back 4096 ?start = Some ?s" by (simp add: push_back_def PENDING_PROCESSES_def demo_process_def)
  have r: "runs (\<lambda>_. Some demo_process) [4096] ?s" using runs.push [OF runs.start _ s] by simp
  have "processes ?s 8192 = Some demo_process" "proc_next demo_process = None" by (simp_all add: PENDING_PROCESSES_def demo_process_def)
  from pending_processes_starve [OF r _ this] obtain s' where "pop_front ?s = Some (None, ?s)" "push_back 8192 ?s = Some s'"
    "linked (processes s') [4096, 8192]" "pop_front s' = Some (None, s')" by auto
  with s show ?thesis by blast
qed

end
