(* ===== verification/Descriptors.thy ===== *)
theory Descriptors
  imports Prelude
begin

text \<open>
  The tables the processor reads: the segment descriptors of \<^verbatim>\<open>src/kernel/src/arch/x86_64/gdt.rs\<close>, the task state segment of
  \<^verbatim>\<open>tss.rs\<close>, the interrupt descriptors of \<^verbatim>\<open>idt.rs\<close> and the table pointers of \<^verbatim>\<open>mod.rs\<close>. The addresses that the linker chooses,
  of the handlers, the stacks and the tables, are arguments.
\<close>

subsection \<open>Layouts\<close>

text \<open>
  The layout of a \<^verbatim>\<open>repr(C)\<close> structure: every field, a size and an alignment, starts at the next multiple of its alignment, which
  \<^verbatim>\<open>packed(p)\<close> bounds by \<open>p\<close>.
\<close>

fun field_offsets :: "nat \<Rightarrow> nat \<Rightarrow> (nat \<times> nat) list \<Rightarrow> nat list" where
  "field_offsets p n [] = []"
| "field_offsets p n ((sz, al) # fields) =
     (let start = align_up (min p al) n in start # field_offsets p (start + sz) fields)"

fun end_offset :: "nat \<Rightarrow> nat \<Rightarrow> (nat \<times> nat) list \<Rightarrow> nat" where
  "end_offset p n [] = n"
| "end_offset p n ((sz, al) # fields) = end_offset p (align_up (min p al) n + sz) fields"

definition struct_size :: "nat \<Rightarrow> (nat \<times> nat) list \<Rightarrow> nat" where
  "struct_size p fields = align_up (fold (\<lambda>(_, a) m. max m (min p a)) fields 1) (end_offset p 0 fields)"

subsection \<open>Table pointers\<close>

definition descriptor_table_pointer_new :: "u64 \<Rightarrow> u16 \<Rightarrow> u8 list option" where
  "descriptor_table_pointer_new base limit =
     do { let base_bytes = le_bytes 8 base;
          let limit_bytes = le_bytes 2 limit;
          let table = replicate 10 (0 :: u8);
          let (limit_out, base_out) = (take 2 table, drop 2 table);
          limit_out \<leftarrow> copy_from_slice limit_out limit_bytes;
          base_out \<leftarrow> copy_from_slice base_out base_bytes;
          Some (limit_out @ base_out) }"

definition to_base_and_limit :: "u8 list \<Rightarrow> (u64 \<times> u16) option" where
  "to_base_and_limit table =
     do { let base_bytes = replicate 8 (0 :: u8);
          let limit_bytes = replicate 2 (0 :: u8);
          let (limit_slice, base_slice) = (take 2 table, drop 2 table);
          base_bytes \<leftarrow> copy_from_slice base_bytes base_slice;
          limit_bytes \<leftarrow> copy_from_slice limit_bytes limit_slice;
          Some (of_le_bytes base_bytes, of_le_bytes limit_bytes) }"

subsection \<open>The task state segment\<close>

record privilege_stacks =
  system_call :: u64
  ps_unused :: "u64 list"

record interrupt_stacks =
  is_generic :: u64
  is_double_fault :: u64
  is_page_fault :: u64
  is_general_protection_fault :: u64
  is_unused :: "u64 list"

record kernel_tss =
  tss_reserved_1 :: u32
  privilege_stack_table :: privilege_stacks
  tss_reserved_2 :: u64
  interrupt_stack_table :: interrupt_stacks
  tss_reserved_3 :: u64
  tss_reserved_4 :: u64
  iopb_base :: u16
  iopb :: "u8 list"

definition STACK_SIZE :: u64 where
  "STACK_SIZE = 4096"

definition get_end_address :: "u64 \<Rightarrow> u64" where
  "get_end_address ptr = ptr + (STACK_SIZE AND NOT 0xF)"

text \<open>The addresses of the static stacks.\<close>

record stacks =
  GENERIC :: u64
  DOUBLE_FAULT :: u64
  PAGE_FAULT :: u64
  GENERAL_PROTECTION_FAULT :: u64
  SYSTEM_CALL_STACK :: u64

definition tss_fields :: "(nat \<times> nat) list" where
  "tss_fields = [(4, 4), (24, 4), (8, 8), (56, 4), (8, 8), (8, 8), (2, 2), (8192, 1)]"

definition iopb_offset :: nat where
  "iopb_offset = field_offsets 4 0 tss_fields ! 7"

definition size_of_kernel_tss :: nat where
  "size_of_kernel_tss = struct_size 4 tss_fields"

definition KERNEL_TSS :: "stacks \<Rightarrow> kernel_tss" where
  "KERNEL_TSS s =
     \<lparr>tss_reserved_1 = 0,
      privilege_stack_table = \<lparr>system_call = get_end_address (SYSTEM_CALL_STACK s), ps_unused = replicate 2 0\<rparr>,
      tss_reserved_2 = 0,
      interrupt_stack_table = \<lparr>is_generic = get_end_address (GENERIC s), is_double_fault = get_end_address (DOUBLE_FAULT s),
        is_page_fault = get_end_address (PAGE_FAULT s),
        is_general_protection_fault = get_end_address (GENERAL_PROTECTION_FAULT s), is_unused = replicate 3 0\<rparr>,
      tss_reserved_3 = 0, tss_reserved_4 = 0, iopb_base = of_nat iopb_offset, iopb = replicate 8192 0xFF\<rparr>"

subsection \<open>Segment descriptors\<close>

definition ACCESSED :: u64 where "ACCESSED = push_bit 40 1"
definition WRITABLE :: u64 where "WRITABLE = push_bit 41 1"
definition CONFORMING :: u64 where "CONFORMING = push_bit 42 1"
definition EXECUTABLE :: u64 where "EXECUTABLE = push_bit 43 1"
definition USER :: u64 where "USER = push_bit 44 1"
definition DPL_RING_3 :: u64 where "DPL_RING_3 = push_bit 45 3"
definition PRESENT :: u64 where "PRESENT = push_bit 47 1"
definition LONG_MODE :: u64 where "LONG_MODE = push_bit 53 1"
definition BITS_32 :: u64 where "BITS_32 = push_bit 54 1"
definition PAGE_GRANULARITY :: u64 where "PAGE_GRANULARITY = push_bit 55 1"
definition MAX_LIMIT :: u64 where "MAX_LIMIT = push_bit 48 0xF OR 0xFFFF"
definition COMMON :: u64 where "COMMON = USER OR PRESENT OR WRITABLE OR PAGE_GRANULARITY OR MAX_LIMIT"
definition KERNEL_DATA :: u64 where "KERNEL_DATA = COMMON OR BITS_32"
definition KERNEL_CODE_32 :: u64 where "KERNEL_CODE_32 = COMMON OR EXECUTABLE OR BITS_32"
definition KERNEL_CODE_64 :: u64 where "KERNEL_CODE_64 = COMMON OR EXECUTABLE OR LONG_MODE"
definition USER_DATA :: u64 where "USER_DATA = KERNEL_DATA OR DPL_RING_3"
definition USER_CODE_32 :: u64 where "USER_CODE_32 = KERNEL_CODE_32 OR DPL_RING_3"
definition USER_CODE_64 :: u64 where "USER_CODE_64 = KERNEL_CODE_64 OR DPL_RING_3"

record kernel_gdt =
  gdt_null :: u64
  kernel_code :: u64
  kernel_data :: u64
  tss_lower :: u64
  tss_upper :: u64
  user_code_32 :: u64
  user_data_32 :: u64
  user_code_64 :: u64
  user_data_64 :: u64

definition KERNEL_GDT :: kernel_gdt where
  "KERNEL_GDT = \<lparr>gdt_null = 0x000100000000FFFF, kernel_code = KERNEL_CODE_64, kernel_data = KERNEL_DATA, tss_lower = 0, tss_upper = 0,
     user_code_32 = USER_CODE_32, user_data_32 = USER_DATA, user_code_64 = USER_CODE_64, user_data_64 = USER_DATA\<rparr>"

definition gdt_words :: "kernel_gdt \<Rightarrow> u64 list" where
  "gdt_words g = [gdt_null g, kernel_code g, kernel_data g, tss_lower g, tss_upper g, user_code_32 g, user_data_32 g, user_code_64 g, user_data_64 g]"

text \<open>The table with the descriptor of the task state segment, and the pointer that is loaded.\<close>

definition inject_tss :: "u64 \<Rightarrow> kernel_gdt \<Rightarrow> kernel_gdt option" where
  "inject_tss tss_address gdt =
     do { let low = PRESENT;
          let low = low OR push_bit 16 (tss_address AND 0xFFFFFF);
          let low = low OR push_bit 32 (tss_address AND 0xFF000000);
          limit \<leftarrow> checked_sub (of_nat size_of_kernel_tss) 1;
          let low = low OR (limit AND 0xFFFF);
          let low = low OR push_bit 40 9;
          let high = drop_bit 32 (tss_address AND 0xFFFFFFFF00000000);
          Some (gdt\<lparr>tss_lower := low, tss_upper := high\<rparr>) }"

definition size_of_kernel_gdt :: nat where
  "size_of_kernel_gdt = align_up 16 (struct_size 16 (replicate 9 (8, 8)))"

definition inject_tss_and_load :: "u64 \<Rightarrow> u64 \<Rightarrow> kernel_gdt \<Rightarrow> (kernel_gdt \<times> u8 list) option" where
  "inject_tss_and_load tss_address gdt_address gdt =
     do { gdt \<leftarrow> inject_tss tss_address gdt;
          limit \<leftarrow> checked_sub (of_nat size_of_kernel_gdt) 1;
          ptr \<leftarrow> descriptor_table_pointer_new gdt_address limit;
          Some (gdt, ptr) }"

subsection \<open>Interrupt descriptors\<close>

record interrupt_frame =
  intruction_address :: usize
  code_segment :: usize
  cpu_flags :: usize
  stack_address :: usize
  stack_segment :: usize

text \<open>A handler is its address with the type of the function; the type is the parameter of an entry.\<close>

datatype handler_type = HandlerFunc | HandlerFuncWithErrCode | DivergingHandlerFunc | DivergingHandlerFuncWithErrCode

record handler =
  handler_type :: handler_type
  handler_address :: usize

definition get_address :: "handler \<Rightarrow> usize" where
  "get_address f = handler_address f"

definition protection_violation :: "u64 \<Rightarrow> bool" where "protection_violation e = bit e 0"
definition caused_by_write :: "u64 \<Rightarrow> bool" where "caused_by_write e = bit e 1"
definition user_mode :: "u64 \<Rightarrow> bool" where "user_mode e = bit e 2"
definition malformed_table :: "u64 \<Rightarrow> bool" where "malformed_table e = bit e 3"
definition instruction_fetch :: "u64 \<Rightarrow> bool" where "instruction_fetch e = bit e 4"

definition stack_index_minus_one :: "u16 \<Rightarrow> u16" where "stack_index_minus_one w = w AND 7"
definition gate_type :: "u16 \<Rightarrow> u16" where "gate_type w = drop_bit 9 w AND 7"
definition interrupts_enabled :: "u16 \<Rightarrow> bool" where "interrupts_enabled w = bit w 8"
definition discriptor_privilege_level :: "u16 \<Rightarrow> u16" where "discriptor_privilege_level w = drop_bit 13 w AND 3"
definition option_present :: "u16 \<Rightarrow> bool" where "option_present w = bit w 15"

definition minimal :: u16 where
  "minimal = push_bit 9 7"

definition present_minimal :: u16 where
  "present_minimal = push_bit 15 1 OR push_bit 9 7"

definition present_with_stack_index :: "u8 \<Rightarrow> u16 option" where
  "present_with_stack_index tss_index =
     do { i \<leftarrow> checked_add tss_index 1;
          Some (present_minimal OR ucast (i AND 7)) }"

record idt_entry =
  ptr_low :: u16
  gdt_selector :: u16
  entry_options :: u16
  ptr_middle :: u16
  ptr_high :: u32
  entry_reserved :: u32
  entry_type :: handler_type

definition missing :: "handler_type \<Rightarrow> idt_entry" where
  "missing ty = \<lparr>ptr_low = 0, gdt_selector = 0, entry_options = minimal, ptr_middle = 0, ptr_high = 0, entry_reserved = 0, entry_type = ty\<rparr>"

text \<open>\<^verbatim>\<open>offset_of!(KernelGdt, kernel_code)\<close>\<close>

definition kernel_code_offset :: nat where
  "kernel_code_offset = field_offsets 16 0 (replicate 9 (8, 8)) ! 1"

definition with_handler :: "handler \<Rightarrow> idt_entry" where
  "with_handler f =
     (let address = get_address f
      in \<lparr>ptr_low = ucast address, gdt_selector = of_nat kernel_code_offset, entry_options = present_minimal,
          ptr_middle = ucast (drop_bit 16 address), ptr_high = ucast (drop_bit 32 address), entry_reserved = 0,
          entry_type = handler_type f\<rparr>)"

definition with_handler_and_stack :: "handler \<Rightarrow> u8 \<Rightarrow> idt_entry option" where
  "with_handler_and_stack f tss_index =
     do { let address = get_address f;
          options \<leftarrow> present_with_stack_index tss_index;
          Some \<lparr>ptr_low = ucast address, gdt_selector = of_nat kernel_code_offset, entry_options = options,
                ptr_middle = ucast (drop_bit 16 address), ptr_high = ucast (drop_bit 32 address), entry_reserved = 0,
                entry_type = handler_type f\<rparr> }"

text \<open>\<^verbatim>\<open>offset_of!(InterruptStacks, ...) / 8\<close> for the field with the number \<open>k\<close>.\<close>

definition stack_slot :: "nat \<Rightarrow> u8" where
  "stack_slot k = of_nat (field_offsets 4 0 [(8, 8), (8, 8), (8, 8), (8, 8), (24, 8)] ! k div 8)"

definition with_handler_and_generic_stack :: "handler \<Rightarrow> idt_entry option" where
  "with_handler_and_generic_stack f = with_handler_and_stack f (stack_slot 0)"

record interrupt_descriptor_table =
  divide_by_zero :: idt_entry
  idt_debug :: idt_entry
  non_maskable_interrupt :: idt_entry
  idt_breakpoint :: idt_entry
  idt_overflow :: idt_entry
  bound_range_exceeded :: idt_entry
  invalid_opcode :: idt_entry
  device_not_available :: idt_entry
  double_fault :: idt_entry
  coprocessor_segment_overrun :: idt_entry
  invalid_tss :: idt_entry
  segment_not_present :: idt_entry
  stack_segment_fault :: idt_entry
  general_protection_fault :: idt_entry
  page_fault :: idt_entry
  reserved_1 :: idt_entry
  x87_floating_point :: idt_entry
  alignment_check :: idt_entry
  machine_check :: idt_entry
  simd_floating_point :: idt_entry
  idt_virtualization :: idt_entry
  reserved_2 :: "idt_entry list"
  idt_security :: idt_entry
  reserved_3 :: idt_entry
  pic_interrupts :: "idt_entry list"
  reserved_interrupts :: "idt_entry list"
  apic_interrupts :: "idt_entry list"

text \<open>The addresses of the functions of the module \<^verbatim>\<open>exception_handlers\<close>, with the types of their declarations.\<close>

record exception_handlers =
  at_divide_by_zero :: usize
  at_debug :: usize
  at_non_maskable_interrupt :: usize
  at_breakpoint :: usize
  at_overflow :: usize
  at_bound_range_exceeded :: usize
  at_invalid_opcode :: usize
  at_device_not_available :: usize
  at_double_fault :: usize
  at_invalid_tss :: usize
  at_segment_not_present :: usize
  at_stack_segment_fault :: usize
  at_general_protection_fault :: usize
  at_page_fault :: usize
  at_x87_floating_point :: usize
  at_alignment_exception :: usize
  at_machine_check :: usize
  at_simd_floating_point :: usize
  at_virtualization :: usize
  at_security :: usize

abbreviation plain :: "usize \<Rightarrow> handler" where
  "plain a \<equiv> \<lparr>handler_type = HandlerFunc, handler_address = a\<rparr>"

abbreviation coded :: "usize \<Rightarrow> handler" where
  "coded a \<equiv> \<lparr>handler_type = HandlerFuncWithErrCode, handler_address = a\<rparr>"

definition idt_new :: "exception_handlers \<Rightarrow> interrupt_descriptor_table option" where
  "idt_new h =
     do { let apic = replicate (256 - 128) (missing HandlerFunc);
          e0 \<leftarrow> with_handler_and_generic_stack (plain (at_divide_by_zero h));
          e1 \<leftarrow> with_handler_and_generic_stack (plain (at_debug h));
          e2 \<leftarrow> with_handler_and_generic_stack (plain (at_non_maskable_interrupt h));
          e3 \<leftarrow> with_handler_and_generic_stack (plain (at_breakpoint h));
          e4 \<leftarrow> with_handler_and_generic_stack (plain (at_overflow h));
          e5 \<leftarrow> with_handler_and_generic_stack (plain (at_bound_range_exceeded h));
          e6 \<leftarrow> with_handler_and_generic_stack (plain (at_invalid_opcode h));
          e7 \<leftarrow> with_handler_and_generic_stack (plain (at_device_not_available h));
          e8 \<leftarrow> with_handler_and_stack \<lparr>handler_type = DivergingHandlerFuncWithErrCode, handler_address = at_double_fault h\<rparr> (stack_slot 1);
          e10 \<leftarrow> with_handler_and_generic_stack (coded (at_invalid_tss h));
          e11 \<leftarrow> with_handler_and_generic_stack (coded (at_segment_not_present h));
          e12 \<leftarrow> with_handler_and_generic_stack (coded (at_stack_segment_fault h));
          e13 \<leftarrow> with_handler_and_stack (coded (at_general_protection_fault h)) (stack_slot 3);
          e14 \<leftarrow> with_handler_and_stack (coded (at_page_fault h)) (stack_slot 2);
          e16 \<leftarrow> with_handler_and_generic_stack (plain (at_x87_floating_point h));
          e17 \<leftarrow> with_handler_and_generic_stack (coded (at_alignment_exception h));
          e18 \<leftarrow> with_handler_and_generic_stack \<lparr>handler_type = DivergingHandlerFunc, handler_address = at_machine_check h\<rparr>;
          e19 \<leftarrow> with_handler_and_generic_stack (plain (at_simd_floating_point h));
          e20 \<leftarrow> with_handler_and_generic_stack (plain (at_virtualization h));
          e30 \<leftarrow> with_handler_and_generic_stack (coded (at_security h));
          Some \<lparr>divide_by_zero = e0, idt_debug = e1, non_maskable_interrupt = e2, idt_breakpoint = e3, idt_overflow = e4,
            bound_range_exceeded = e5, invalid_opcode = e6, device_not_available = e7, double_fault = e8,
            coprocessor_segment_overrun = missing HandlerFunc, invalid_tss = e10, segment_not_present = e11,
            stack_segment_fault = e12, general_protection_fault = e13, page_fault = e14, reserved_1 = missing HandlerFunc,
            x87_floating_point = e16, alignment_check = e17, machine_check = e18, simd_floating_point = e19,
            idt_virtualization = e20, reserved_2 = replicate 9 (missing HandlerFunc), idt_security = e30,
            reserved_3 = missing HandlerFunc, pic_interrupts = replicate 16 (missing HandlerFunc),
            reserved_interrupts = replicate 80 (missing HandlerFunc), apic_interrupts = apic\<rparr> }"

text \<open>The table in memory, and the pointer that is loaded.\<close>

definition idt_entries :: "interrupt_descriptor_table \<Rightarrow> idt_entry list" where
  "idt_entries t =
     [divide_by_zero t, idt_debug t, non_maskable_interrupt t, idt_breakpoint t, idt_overflow t, bound_range_exceeded t,
      invalid_opcode t, device_not_available t, double_fault t, coprocessor_segment_overrun t, invalid_tss t,
      segment_not_present t, stack_segment_fault t, general_protection_fault t, page_fault t, reserved_1 t,
      x87_floating_point t, alignment_check t, machine_check t, simd_floating_point t, idt_virtualization t]
     @ reserved_2 t @ [idt_security t, reserved_3 t] @ pic_interrupts t @ reserved_interrupts t @ apic_interrupts t"

definition idt_load :: "u64 \<Rightarrow> interrupt_descriptor_table \<Rightarrow> u8 list option" where
  "idt_load address t =
     do { limit \<leftarrow> checked_sub (of_nat (16 * length (idt_entries t)) :: u16) 1;
          descriptor_table_pointer_new address limit }"

end
