(* ===== verification/Descriptor_Tables.thy ===== *)
theory Descriptor_Tables
  imports Descriptors
begin

text \<open>
  The descriptor tables as the processor reads them: what it finds in an interrupt gate, a segment descriptor and the task
  state segment, and that the tables the kernel builds hold what the kernel put in.
\<close>

subsection \<open>Table pointers\<close>

lemma descriptor_table_pointer_round_trip:
  "\<exists>p. descriptor_table_pointer_new base limit = Some p \<and> length p = 10 \<and> to_base_and_limit p = Some (base, limit)"
  using take_bit_length_eq [of base] take_bit_length_eq [of limit]
  by (simp add: descriptor_table_pointer_new_def to_base_and_limit_def copy_from_slice_def of_le_bytes_le_bytes)

subsection \<open>What the processor reads\<close>

text \<open>The target of an interrupt gate.\<close>

definition entry_target :: "idt_entry \<Rightarrow> u64" where
  "entry_target e = ucast (ptr_low e) OR push_bit 16 (ucast (ptr_middle e)) OR push_bit 32 (ucast (ptr_high e))"

text \<open>The base, the limit and the type of a system descriptor of two words.\<close>

definition descriptor_base :: "u64 \<Rightarrow> u64 \<Rightarrow> u64" where
  "descriptor_base low high = take_bit 24 (drop_bit 16 low) OR push_bit 24 (drop_bit 56 low) OR push_bit 32 high"

definition descriptor_limit :: "u64 \<Rightarrow> u64" where
  "descriptor_limit low = take_bit 16 low OR push_bit 16 (take_bit 4 (drop_bit 48 low))"

definition descriptor_type :: "u64 \<Rightarrow> u64" where
  "descriptor_type low = take_bit 5 (drop_bit 40 low)"

text \<open>A present code segment for 64-bit code of the kernel.\<close>

definition kernel_code_segment :: "u64 \<Rightarrow> bool" where
  "kernel_code_segment d \<longleftrightarrow> bit d 47 \<and> \<not> bit d 46 \<and> \<not> bit d 45 \<and> bit d 44 \<and> bit d 43 \<and> \<not> bit d 42 \<and> bit d 53 \<and> \<not> bit d 54"

text \<open>The interrupt stack with the number that a gate holds; 0 selects none.\<close>

definition interrupt_stack :: "kernel_tss \<Rightarrow> nat \<Rightarrow> u64" where
  "interrupt_stack t ist = (let s = interrupt_stack_table t
     in ([is_generic s, is_double_fault s, is_page_fault s, is_general_protection_fault s] @ is_unused s) ! (ist - 1))"

text \<open>The exceptions of the architecture for which the processor pushes an error code.\<close>

definition error_code_vectors :: "nat list" where
  "error_code_vectors = [8, 10, 11, 12, 13, 14, 17, 21, 29, 30]"

fun takes_error_code :: "handler_type \<Rightarrow> bool" where
  "takes_error_code HandlerFunc = False"
| "takes_error_code HandlerFuncWithErrCode = True"
| "takes_error_code DivergingHandlerFunc = False"
| "takes_error_code DivergingHandlerFuncWithErrCode = True"

definition exception_handler :: "exception_handlers \<Rightarrow> nat \<Rightarrow> usize option" where
  "exception_handler h = map_of [(0, at_divide_by_zero h), (1, at_debug h), (2, at_non_maskable_interrupt h), (3, at_breakpoint h),
     (4, at_overflow h), (5, at_bound_range_exceeded h), (6, at_invalid_opcode h), (7, at_device_not_available h),
     (8, at_double_fault h), (10, at_invalid_tss h), (11, at_segment_not_present h), (12, at_stack_segment_fault h),
     (13, at_general_protection_fault h), (14, at_page_fault h), (16, at_x87_floating_point h), (17, at_alignment_exception h),
     (18, at_machine_check h), (19, at_simd_floating_point h), (20, at_virtualization h), (30, at_security h)]"

definition exception_stack :: "stacks \<Rightarrow> nat \<Rightarrow> u64" where
  "exception_stack s v = (if v = 8 then DOUBLE_FAULT s else if v = 13 then GENERAL_PROTECTION_FAULT s
     else if v = 14 then PAGE_FAULT s else GENERIC s)"

text \<open>An interrupt gate into the kernel that runs a function on a stack.\<close>

definition gate_ok :: "stacks \<Rightarrow> idt_entry \<Rightarrow> usize \<Rightarrow> u64 \<Rightarrow> bool" where
  "gate_ok s e f stack \<longleftrightarrow> option_present (entry_options e) \<and> gate_type (entry_options e) = 7 \<and> \<not> interrupts_enabled (entry_options e)
     \<and> discriptor_privilege_level (entry_options e) = 0
     \<and> entry_target e = f
     \<and> unat (gdt_selector e) mod 8 = 0 \<and> kernel_code_segment (gdt_words KERNEL_GDT ! (unat (gdt_selector e) div 8))
     \<and> 0 < unat (entry_options e AND 7) \<and> interrupt_stack (KERNEL_TSS s) (unat (entry_options e AND 7)) = stack + STACK_SIZE"

lemma split_address: "(ucast (ucast a :: u16) :: u64) OR push_bit 16 (ucast (ucast (drop_bit 16 a) :: u16))
    OR push_bit 32 (ucast (ucast (drop_bit 32 a) :: u32)) = (a :: u64)" (is "?x = a")
proof (rule bit_word_eqI)
  fix n assume "n < LENGTH(64)"
  then show "bit ?x n = bit a n" by (cases "n < 32") (auto simp: bit_simps)
qed

lemma kernel_code_ok: "kernel_code_offset = 8" "kernel_code_segment (gdt_words KERNEL_GDT ! 1)"
proof -
  have "replicate 9 (8 :: nat, 8 :: nat) = [(8, 8), (8, 8), (8, 8), (8, 8), (8, 8), (8, 8), (8, 8), (8, 8), (8, 8)]"
    by (simp add: numeral_eq_Suc)
  then show "kernel_code_offset = 8" by (simp add: kernel_code_offset_def align_up_def)
  show "kernel_code_segment (gdt_words KERNEL_GDT ! 1)"
    by (simp add: gdt_words_def KERNEL_GDT_def kernel_code_segment_def KERNEL_CODE_64_def COMMON_def USER_def PRESENT_def WRITABLE_def
        PAGE_GRANULARITY_def MAX_LIMIT_def EXECUTABLE_def LONG_MODE_def bit_simps)
qed

lemma fields_tss: "field_offsets 4 0 tss_fields = [0, 4, 28, 36, 92, 100, 108, 110]" "end_offset 4 0 tss_fields = 8302"
  by (simp_all add: tss_fields_def align_up_def)

lemma size_of_tss: "size_of_kernel_tss = 8304" "iopb_offset = 110"
  using fields_tss by (simp_all add: size_of_kernel_tss_def struct_size_def iopb_offset_def) (simp_all add: tss_fields_def align_up_def)

lemma end_address: "get_end_address a = a + STACK_SIZE"
  by (simp add: get_end_address_def STACK_SIZE_def)

lemma stack_slots: "stack_slot 0 = 0" "stack_slot 1 = 1" "stack_slot 2 = 2" "stack_slot 3 = 3"
  by (simp_all add: stack_slot_def align_up_def)

text \<open>An entry with a handler and one of the four stacks.\<close>

definition gate :: "handler \<Rightarrow> nat \<Rightarrow> idt_entry" where
  "gate f k = \<lparr>ptr_low = ucast (handler_address f), gdt_selector = 8, entry_options = present_minimal OR of_nat (k + 1),
     ptr_middle = ucast (drop_bit 16 (handler_address f)), ptr_high = ucast (drop_bit 32 (handler_address f)),
     entry_reserved = 0, entry_type = handler_type f\<rparr>"

lemma stack_options:
  assumes "k < 4"
  shows "present_with_stack_index (stack_slot k) = Some (present_minimal OR of_nat (k + 1))"
    "unat ((present_minimal OR of_nat (k + 1)) AND 7) = k + 1"
    "gate_type (present_minimal OR of_nat (k + 1)) = 7" "option_present (present_minimal OR of_nat (k + 1))"
    "\<not> interrupts_enabled (present_minimal OR of_nat (k + 1))" "discriptor_privilege_level (present_minimal OR of_nat (k + 1)) = 0"
proof -
  from assms have "k = 0 \<or> k = 1 \<or> k = 2 \<or> k = 3" by linarith
  then show "present_with_stack_index (stack_slot k) = Some (present_minimal OR of_nat (k + 1))"
    "unat ((present_minimal OR of_nat (k + 1)) AND 7) = k + 1"
    "gate_type (present_minimal OR of_nat (k + 1)) = 7" "option_present (present_minimal OR of_nat (k + 1))"
    "\<not> interrupts_enabled (present_minimal OR of_nat (k + 1))" "discriptor_privilege_level (present_minimal OR of_nat (k + 1)) = 0"
    by (auto simp: present_with_stack_index_def stack_slot_def align_up_def present_minimal_def checked_add_def gate_type_def
        option_present_def interrupts_enabled_def discriptor_privilege_level_def)
qed

lemma with_handler_gate:
  "k < 4 \<Longrightarrow> with_handler_and_stack f (stack_slot k) = Some (gate f k)" "with_handler_and_generic_stack f = Some (gate f 0)"
  using stack_options(1) [of k] stack_options(1) [of 0]
  by (simp_all add: with_handler_and_generic_stack_def with_handler_and_stack_def gate_def get_address_def kernel_code_ok(1) Let_def)

lemma gate_gate_ok:
  assumes "k < 4"
  shows "gate_ok s (gate f k) (handler_address f) ([GENERIC s, DOUBLE_FAULT s, PAGE_FAULT s, GENERAL_PROTECTION_FAULT s] ! k)"
proof -
  from assms have "k = 0 \<or> k = 1 \<or> k = 2 \<or> k = 3" by linarith
  then have "interrupt_stack (KERNEL_TSS s) (k + 1) = [GENERIC s, DOUBLE_FAULT s, PAGE_FAULT s, GENERAL_PROTECTION_FAULT s] ! k + STACK_SIZE"
    by (auto simp: interrupt_stack_def KERNEL_TSS_def end_address)
  then show ?thesis
    using stack_options(2-6) [OF assms] kernel_code_ok(2) split_address [of "handler_address f"]
    by (simp add: gate_ok_def entry_target_def gate_def)
qed

lemma missing_absent: "\<not> option_present (entry_options (missing ty))"
  by (simp add: missing_def minimal_def option_present_def)

subsection \<open>The interrupt descriptor table\<close>

text \<open>What the table holds for a vector.\<close>

definition vector_ok :: "exception_handlers \<Rightarrow> stacks \<Rightarrow> nat \<Rightarrow> idt_entry \<Rightarrow> bool" where
  "vector_ok h s v e =
     (case exception_handler h v of
        None \<Rightarrow> \<not> option_present (entry_options e)
      | Some f \<Rightarrow> gate_ok s e f (exception_stack s v) \<and> (takes_error_code (entry_type e) \<longleftrightarrow> v \<in> set error_code_vectors))"

lemma vector_ok_gate:
  assumes "exception_handler h v = Some (handler_address f)" "k < 4"
    and "exception_stack s v = [GENERIC s, DOUBLE_FAULT s, PAGE_FAULT s, GENERAL_PROTECTION_FAULT s] ! k"
    and "takes_error_code (handler_type f) \<longleftrightarrow> v \<in> set error_code_vectors"
  shows "vector_ok h s v (gate f k)"
  using assms gate_gate_ok [OF assms(2), of s f] by (simp add: vector_ok_def gate_def)

lemma vector_ok_missing: "exception_handler h v = None \<Longrightarrow> vector_ok h s v (missing ty)"
  by (simp add: vector_ok_def missing_absent)

text \<open>The first 32 entries; all others are missing.\<close>

definition exception_entries :: "exception_handlers \<Rightarrow> idt_entry list" where
  "exception_entries h =
     [gate (plain (at_divide_by_zero h)) 0, gate (plain (at_debug h)) 0, gate (plain (at_non_maskable_interrupt h)) 0,
      gate (plain (at_breakpoint h)) 0, gate (plain (at_overflow h)) 0, gate (plain (at_bound_range_exceeded h)) 0,
      gate (plain (at_invalid_opcode h)) 0, gate (plain (at_device_not_available h)) 0,
      gate \<lparr>handler_type = DivergingHandlerFuncWithErrCode, handler_address = at_double_fault h\<rparr> 1, missing HandlerFunc,
      gate (coded (at_invalid_tss h)) 0, gate (coded (at_segment_not_present h)) 0, gate (coded (at_stack_segment_fault h)) 0,
      gate (coded (at_general_protection_fault h)) 3, gate (coded (at_page_fault h)) 2, missing HandlerFunc,
      gate (plain (at_x87_floating_point h)) 0, gate (coded (at_alignment_exception h)) 0,
      gate \<lparr>handler_type = DivergingHandlerFunc, handler_address = at_machine_check h\<rparr> 0,
      gate (plain (at_simd_floating_point h)) 0, gate (plain (at_virtualization h)) 0]
     @ replicate 9 (missing HandlerFunc) @ [gate (coded (at_security h)) 0, missing HandlerFunc]"

lemma idt_new_entries:
  obtains t where "idt_new h = Some t" "idt_entries t = exception_entries h @ replicate 224 (missing HandlerFunc)"
proof -
  have "replicate 224 (missing HandlerFunc) = replicate 16 (missing HandlerFunc) @ replicate 80 (missing HandlerFunc) @ replicate 128 (missing HandlerFunc)"
    by (simp add: replicate_add [symmetric])
  then have "\<exists>t. idt_new h = Some t \<and> idt_entries t = exception_entries h @ replicate 224 (missing HandlerFunc)"
    unfolding idt_new_def Let_def with_handler_gate(2) by (simp add: with_handler_gate(1) idt_entries_def exception_entries_def)
  then show ?thesis using that by blast
qed

lemma exception_entries_ok:
  assumes "v < 32"
  shows "vector_ok h s v (exception_entries h ! v)"
proof -
  have nine: "replicate 9 (missing HandlerFunc) = map (\<lambda>_. missing HandlerFunc) [0 :: nat, 1, 2, 3, 4, 5, 6, 7, 8]"
    by (simp add: numeral_eq_Suc)
  have "v \<in> set [0, 1, 2, 3, 4, 5, 6, 7, 8, 9, 10, 11, 12, 13, 14, 15, 16, 17, 18, 19, 20, 21, 22, 23, 24, 25, 26, 27, 28, 29, 30, 31]"
  proof -
    have "[0..<32] = [0, 1, 2, 3, 4, 5, 6, 7, 8, 9, 10, 11, 12, 13, 14, 15, 16, 17, 18, 19, 20, 21, 22, 23, 24, 25, 26, 27, 28, 29, 30, 31 :: nat]"
      by (simp add: upt_rec)
    then show ?thesis using assms by (metis atLeast_upt lessThan_iff)
  qed
  then show ?thesis
    unfolding exception_entries_def nine
    by (simp only: set_simps insert_iff empty_iff simp_thms)
      (elim disjE; simp; (rule vector_ok_gate vector_ok_missing; simp add: exception_handler_def exception_stack_def error_code_vectors_def)?)
qed

lemma idt_new_vectors:
  assumes "idt_new h = Some t" "idt_entries t = exception_entries h @ replicate 224 (missing HandlerFunc)"
  shows "length (idt_entries t) = 256" "v < 256 \<Longrightarrow> vector_ok h s v (idt_entries t ! v)"
proof -
  have len: "length (exception_entries h) = 32" by (simp add: exception_entries_def)
  then show "length (idt_entries t) = 256" by (simp add: assms(2))
  assume v: "v < 256"
  show "vector_ok h s v (idt_entries t ! v)"
  proof (cases "v < 32")
    case True
    then show ?thesis using len exception_entries_ok [OF True] by (simp add: assms(2) nth_append)
  next
    case False
    then have "exception_handler h v = None" by (simp add: exception_handler_def)
    then show ?thesis using len False v by (simp add: assms(2) nth_append vector_ok_missing)
  qed
qed

subsection \<open>The task state segment\<close>

definition tss_bytes :: "kernel_tss \<Rightarrow> u8 list" where
  "tss_bytes t = le_bytes 4 (tss_reserved_1 t)
     @ le_bytes 8 (system_call (privilege_stack_table t)) @ concat (map (le_bytes 8) (ps_unused (privilege_stack_table t)))
     @ le_bytes 8 (tss_reserved_2 t)
     @ concat (map (le_bytes 8) ([is_generic (interrupt_stack_table t), is_double_fault (interrupt_stack_table t),
         is_page_fault (interrupt_stack_table t), is_general_protection_fault (interrupt_stack_table t)]
         @ is_unused (interrupt_stack_table t)))
     @ le_bytes 8 (tss_reserved_3 t) @ le_bytes 8 (tss_reserved_4 t) @ le_bytes 2 (iopb_base t) @ iopb t"

text \<open>
  The processor takes the base of the I/O permission map from the bytes 102 and 103 of the segment. A port is open to user
  programs when its bit in the map is clear; the byte of the bit and the byte behind it lie within the limit.
\<close>

definition io_map_base :: "u8 list \<Rightarrow> u16" where
  "io_map_base bytes = of_le_bytes (take 2 (drop 102 bytes))"

definition port_open :: "u8 list \<Rightarrow> nat \<Rightarrow> u16 \<Rightarrow> nat \<Rightarrow> bool" where
  "port_open bytes limit base port \<longleftrightarrow> unat base + port div 8 + 1 \<le> limit \<and> \<not> bit (bytes ! (unat base + port div 8)) (port mod 8)"

lemma tss_prefix:
  obtains as where "tss_bytes (KERNEL_TSS s) = replicate 4 0 @ as @ replicate 8 0 @ le_bytes 2 (of_nat 110 :: u16) @ replicate 8192 0xFF"
    "length as = 96"
proof -
  let ?t = "KERNEL_TSS s"
  let ?as = "le_bytes 8 (system_call (privilege_stack_table ?t)) @ concat (map (le_bytes 8) (ps_unused (privilege_stack_table ?t)))
     @ le_bytes 8 (tss_reserved_2 ?t)
     @ concat (map (le_bytes 8) ([is_generic (interrupt_stack_table ?t), is_double_fault (interrupt_stack_table ?t),
         is_page_fault (interrupt_stack_table ?t), is_general_protection_fault (interrupt_stack_table ?t)]
         @ is_unused (interrupt_stack_table ?t)))
     @ le_bytes 8 (tss_reserved_3 ?t)"
  have "tss_bytes ?t = replicate 4 0 @ ?as @ replicate 8 0 @ le_bytes 2 (of_nat 110 :: u16) @ replicate 8192 0xFF"
    by (simp add: tss_bytes_def) (simp add: KERNEL_TSS_def size_of_tss le_bytes_zero)
  moreover have "length ?as = 96" by (simp add: KERNEL_TSS_def length_concat comp_def sum_list_replicate)
  ultimately show ?thesis by (rule that)
qed

lemma size_of_gdt: "size_of_kernel_gdt = 80"
proof -
  have "replicate 9 (8 :: nat, 8 :: nat) = [(8, 8), (8, 8), (8, 8), (8, 8), (8, 8), (8, 8), (8, 8), (8, 8), (8, 8)]"
    by (simp add: numeral_eq_Suc)
  then show ?thesis by (simp add: size_of_kernel_gdt_def struct_size_def align_up_def)
qed

lemma tss_descriptor:
  fixes a :: u64
  defines "low \<equiv> PRESENT OR push_bit 16 (a AND 0xFFFFFF) OR push_bit 32 (a AND 0xFF000000) OR 8303 OR push_bit 40 9"
  shows "descriptor_base low (drop_bit 32 (a AND 0xFFFFFFFF00000000)) = a" "descriptor_limit low = 8303"
    "descriptor_type low = 9" "bit low 47"
proof -
  have masks: "(0xFFFFFF :: u64) = mask 24" "(0xFF000000 :: u64) = push_bit 24 (mask 8)" "(0xFFFFFFFF00000000 :: u64) = push_bit 32 (mask 32)"
    by (simp_all add: mask_eq_exp_minus_1)
  have small: "\<not> bit (8303 :: u64) n" if "16 \<le> n" for n
    using that bit_take_bit_iff [of 16 "8303 :: u64" n] by simp
  have nine: "\<not> bit (9 :: u64) n" if "4 \<le> n" for n
    using that bit_take_bit_iff [of 4 "9 :: u64" n] by simp
  have one: "bit (1 :: u64) n = (n = 0)" for n by (simp add: bit_1_iff)
  note bits = low_def PRESENT_def masks bit_or_iff bit_and_iff bit_push_bit_iff bit_drop_bit_eq bit_take_bit_iff bit_mask_iff
  show "descriptor_base low (drop_bit 32 (a AND 0xFFFFFFFF00000000)) = a"
  proof (rule bit_word_eqI)
    fix n assume n: "n < LENGTH(64)"
    consider "n < 24" | "24 \<le> n" "n < 32" | "32 \<le> n" by linarith
    then show "bit (descriptor_base low (drop_bit 32 (a AND 0xFFFFFFFF00000000))) n = bit a n"
      by cases (use n in \<open>auto simp: descriptor_base_def bits small nine one\<close>)
  qed
  show "descriptor_limit low = 8303"
    by (rule bit_word_eqI) (auto simp: descriptor_limit_def bits small nine one)
  show "descriptor_type low = 9"
    by (rule bit_word_eqI) (auto simp: descriptor_type_def bits small nine one)
  show "bit low 47" by (simp add: bits)
qed

subsection \<open>Properties\<close>

text \<open>
  C26. The interrupt descriptor table is well formed: \<open>InterruptDescriptorTable::new\<close> never panics and fills 256 entries, and the
  entry of each exception of the architecture that has a handler is a present interrupt gate for the kernel's 64-bit code
  segment that leads to this handler, on the stack of the exception in the task state segment; the handler takes an error
  code exactly when the processor pushes one. All other entries are not present.
\<close>

theorem idt_new_well_formed:
  "\<exists>t. idt_new h = Some t \<and> length (idt_entries t) = 256 \<and> (\<forall>v < 256. vector_ok h s v (idt_entries t ! v))"
  by (rule idt_new_entries [of h]) (use idt_new_vectors in blast)

definition demo_handlers :: exception_handlers where
  "demo_handlers = \<lparr>at_divide_by_zero = 16, at_debug = 32, at_non_maskable_interrupt = 48, at_breakpoint = 64, at_overflow = 80,
     at_bound_range_exceeded = 96, at_invalid_opcode = 112, at_device_not_available = 128, at_double_fault = 144,
     at_invalid_tss = 160, at_segment_not_present = 176, at_stack_segment_fault = 192, at_general_protection_fault = 208,
     at_page_fault = 0xFFFFFFFF80000000, at_x87_floating_point = 240, at_alignment_exception = 256, at_machine_check = 272,
     at_simd_floating_point = 288, at_virtualization = 304, at_security = 320\<rparr>"

definition demo_stacks :: stacks where
  "demo_stacks = \<lparr>GENERIC = 0x1000, DOUBLE_FAULT = 0x2000, PAGE_FAULT = 0x3000, GENERAL_PROTECTION_FAULT = 0x4000, SYSTEM_CALL_STACK = 0x5000\<rparr>"

theorem idt_new_well_formed_witness:
  "\<exists>t. idt_new demo_handlers = Some t \<and> gate_ok demo_stacks (idt_entries t ! 14) 0xFFFFFFFF80000000 0x3000
     \<and> takes_error_code (entry_type (idt_entries t ! 14))"
proof -
  from idt_new_well_formed [of demo_handlers demo_stacks] obtain t where
    t: "idt_new demo_handlers = Some t" "\<forall>v < 256. vector_ok demo_handlers demo_stacks v (idt_entries t ! v)" by blast
  from t(2) have "vector_ok demo_handlers demo_stacks 14 (idt_entries t ! 14)" by simp
  with t(1) show ?thesis
    by (simp add: vector_ok_def exception_handler_def exception_stack_def error_code_vectors_def demo_handlers_def demo_stacks_def)
qed

text \<open>
  The global descriptor table describes the task state segment: \<open>inject_tss_and_load\<close> never panics, and from the two words
  it writes the processor reads back the address of the segment for every address, its exact limit, and the type of an
  available 64-bit task state segment; the loaded pointer holds the address and the limit of the table.
\<close>

theorem inject_tss_round_trip:
  "\<exists>low high ptr. inject_tss_and_load tss_address gdt_address KERNEL_GDT = Some (KERNEL_GDT\<lparr>tss_lower := low, tss_upper := high\<rparr>, ptr)
     \<and> descriptor_base low high = tss_address \<and> unat (descriptor_limit low) + 1 = size_of_kernel_tss
     \<and> descriptor_type low = 9 \<and> bit low 47
     \<and> to_base_and_limit ptr = Some (gdt_address, of_nat (size_of_kernel_gdt - 1))"
proof -
  let ?low = "PRESENT OR push_bit 16 (tss_address AND 0xFFFFFF) OR push_bit 32 (tss_address AND 0xFF000000) OR 8303 OR push_bit 40 9"
  let ?high = "drop_bit 32 (tss_address AND 0xFFFFFFFF00000000)"
  from descriptor_table_pointer_round_trip [of gdt_address 79] obtain ptr where
    ptr: "descriptor_table_pointer_new gdt_address 79 = Some ptr" "to_base_and_limit ptr = Some (gdt_address, 79)" by blast
  have "inject_tss_and_load tss_address gdt_address KERNEL_GDT = Some (KERNEL_GDT\<lparr>tss_lower := ?low, tss_upper := ?high\<rparr>, ptr)"
    using ptr(1) by (simp add: inject_tss_and_load_def inject_tss_def Let_def checked_sub_def size_of_tss size_of_gdt or.assoc)
  then show ?thesis using tss_descriptor [of tss_address] ptr(2) by (intro exI conjI) (simp_all add: size_of_tss size_of_gdt)
qed

text \<open>
  C38. The I/O permission map is not where the processor looks for it: the fields of the task state segment put the base
  of the map at byte 108 instead of 102, so that the processor reads the base 0. Every port is closed in the map that the
  kernel filled, but for user programs the first bytes of the segment count, and the ports 0 to 31 are open.
\<close>

theorem io_map_misplaced:
  "unat (iopb_base (KERNEL_TSS s)) = iopb_offset
   \<and> (\<forall>port < 65536. \<not> port_open (tss_bytes (KERNEL_TSS s)) (size_of_kernel_tss - 1) (iopb_base (KERNEL_TSS s)) port)
   \<and> io_map_base (tss_bytes (KERNEL_TSS s)) = 0
   \<and> (\<forall>port < 32. port_open (tss_bytes (KERNEL_TSS s)) (size_of_kernel_tss - 1) (io_map_base (tss_bytes (KERNEL_TSS s))) port)"
proof -
  obtain as where b: "tss_bytes (KERNEL_TSS s) = replicate 4 0 @ as @ replicate 8 0 @ le_bytes 2 (of_nat 110 :: u16) @ replicate 8192 0xFF"
    "length as = 96" by (rule tss_prefix)
  have base: "io_map_base (tss_bytes (KERNEL_TSS s)) = 0"
    by (simp add: io_map_base_def b of_le_bytes_zero)
  have field: "unat (iopb_base (KERNEL_TSS s)) = 110" by (simp add: KERNEL_TSS_def size_of_tss)
  have "\<not> port_open (tss_bytes (KERNEL_TSS s)) (size_of_kernel_tss - 1) (iopb_base (KERNEL_TSS s)) port" if "port < 65536" for port
  proof -
    have "tss_bytes (KERNEL_TSS s) ! (110 + port div 8) = 0xFF" using that b(2) by (simp add: b(1) nth_append)
    moreover have "bit (0xFF :: u8) k" if "k < 8" for k
      using that bit_mask_iff [of 8 k, where ?'a = "8 word"] by (simp add: mask_eq_exp_minus_1)
    ultimately show ?thesis by (simp add: port_open_def field)
  qed
  moreover have "port_open (tss_bytes (KERNEL_TSS s)) (size_of_kernel_tss - 1) 0 port" if "port < 32" for port
  proof -
    have "port div 8 < 4" using that by simp
    then have "tss_bytes (KERNEL_TSS s) ! (port div 8) = 0" by (simp add: b(1) nth_append)
    then show ?thesis using \<open>port div 8 < 4\<close> by (simp add: port_open_def size_of_tss)
  qed
  ultimately show ?thesis using base field by (simp add: size_of_tss)
qed

theorem io_map_misplaced_witness:
  "port_open (tss_bytes (KERNEL_TSS demo_stacks)) 8303 (io_map_base (tss_bytes (KERNEL_TSS demo_stacks))) 31
   \<and> \<not> port_open (tss_bytes (KERNEL_TSS demo_stacks)) 8303 (iopb_base (KERNEL_TSS demo_stacks)) 31"
proof -
  have "31 < (32 :: nat)" "31 < (65536 :: nat)" by simp_all
  with io_map_misplaced [of demo_stacks] show ?thesis unfolding size_of_tss by auto
qed

end
