(* ===== verification/Heap.thy ===== *)
theory Heap
  imports Kernel_Paging
begin

text \<open>
  The kernel heap, \<^verbatim>\<open>src/kernel/src/heap.rs\<close>: a list of blocks, each a header word in front of its space, in an area of the
  kernel's virtual memory whose pages are mapped on demand. The headers are read and written through the kernel's page
  table; an access to a page that is not mapped is a page fault, and modelled as a panic.
\<close>

subsection \<open>Virtual memory\<close>

definition read_word :: "machine \<Rightarrow> usize \<Rightarrow> u64 option" where
  "read_word s va = do { f \<leftarrow> kernel_translate s va; Some (mem s f (unat va mod 4096 div 8)) }"

definition write_word :: "machine \<Rightarrow> usize \<Rightarrow> u64 \<Rightarrow> machine option" where
  "write_word s va w = do { f \<leftarrow> kernel_translate s va; Some (s\<lparr>mem := write_entry (mem s) f (unat va mod 4096 div 8) w\<rparr>) }"

subsection \<open>Blocks\<close>

definition LEN_MASK :: u64 where
  "LEN_MASK = 0x3FFFFFFFFFFFFFFF"

definition block_new :: "usize \<Rightarrow> bool \<Rightarrow> bool \<Rightarrow> u64" where
  "block_new len used has_next = (len AND LEN_MASK) OR push_bit 62 (of_bool used) OR push_bit 63 (of_bool has_next)"

definition block_len :: "u64 \<Rightarrow> usize" where
  "block_len b = take_bit 62 b"

definition set_block_len :: "usize \<Rightarrow> u64 \<Rightarrow> u64" where
  "set_block_len len b = (b AND NOT (mask 62)) OR take_bit 62 len"

definition block_used :: "u64 \<Rightarrow> bool" where
  "block_used b = bit b 62"

definition set_block_used :: "bool \<Rightarrow> u64 \<Rightarrow> u64" where
  "set_block_used v b = (if v then set_bit 62 b else unset_bit 62 b)"

definition block_has_next :: "u64 \<Rightarrow> bool" where
  "block_has_next b = bit b 63"

definition set_block_has_next :: "bool \<Rightarrow> u64 \<Rightarrow> u64" where
  "set_block_has_next v b = (if v then set_bit 63 b else unset_bit 63 b)"

definition size_of_block :: usize where
  "size_of_block = 8"

definition block_start_address :: "usize \<Rightarrow> usize option" where
  "block_start_address p = checked_add p size_of_block"

text \<open>A block that says it has a successor must not end at the null address.\<close>

definition get_next :: "usize \<Rightarrow> u64 \<Rightarrow> usize option option" where
  "get_next p b =
     (if \<not> block_has_next b then Some None
      else do { a \<leftarrow> checked_add p size_of_block;
                address \<leftarrow> checked_add a (block_len b);
                guard (address \<noteq> 0);
                Some (Some address) })"

text \<open>A step of the iterator reads the successor before the block is handed out.\<close>

definition update_block :: "usize \<Rightarrow> (u64 \<Rightarrow> u64) \<Rightarrow> machine \<Rightarrow> machine option" where
  "update_block p f s = do { b \<leftarrow> read_word s p; write_word s p (f b) }"

subsection \<open>Allocation\<close>

definition PAGE_FLAGS :: page_table_entry where
  "PAGE_FLAGS = READ_WRITE"

text \<open>Mapping a page of the heap: a page that exists is kept, any other error panics.\<close>

definition map_heap_page :: "usize \<Rightarrow> machine \<Rightarrow> machine option" where
  "map_heap_page va s =
     do { (r, s) \<leftarrow> map_page s va PAGE_FLAGS;
          case r of Inr _ \<Rightarrow> Some s | Inl PageAlreadyExists \<Rightarrow> Some s | Inl OutOfPages \<Rightarrow> None }"

text \<open>Marking the block as used and splitting it.\<close>

definition reserve_headers :: "usize \<Rightarrow> usize \<Rightarrow> usize \<Rightarrow> usize \<Rightarrow> machine \<Rightarrow> machine option" where
  "reserve_headers p unaligned_start_addr max_addr end_addr s =
     do { s \<leftarrow> update_block p (set_block_used True) s;
          past_end \<leftarrow> checked_add end_addr 1;
          new_block_addr \<leftarrow> next_multiple_of past_end 8;
          new_space_start \<leftarrow> checked_add new_block_addr size_of_block;
          if new_space_start < max_addr
          then do { len \<leftarrow> checked_sub new_block_addr unaligned_start_addr;
                    s \<leftarrow> update_block p (set_block_len len) s;
                    s \<leftarrow> map_heap_page new_block_addr s;
                    rest \<leftarrow> checked_sub max_addr new_space_start;
                    rest \<leftarrow> checked_add rest 1;
                    b \<leftarrow> read_word s p;
                    s \<leftarrow> write_word s new_block_addr (block_new rest False (block_has_next b));
                    update_block p (set_block_has_next True) s }
          else Some s }"

definition reserve_block :: "usize \<Rightarrow> usize \<Rightarrow> usize \<Rightarrow> usize \<Rightarrow> usize \<Rightarrow> machine \<Rightarrow> (usize \<times> machine) option" where
  "reserve_block p unaligned_start_addr start_addr max_addr end_addr s =
     do { s \<leftarrow> reserve_headers p unaligned_start_addr max_addr end_addr s;
          s \<leftarrow> for_each map_heap_page (pages_to (align_to_page unaligned_start_addr) (align_to_page end_addr)) s;
          Some (start_addr, s) }"

partial_function (option) alloc_loop :: "usize \<Rightarrow> usize \<Rightarrow> usize option \<Rightarrow> machine \<Rightarrow> (usize \<times> machine) option" where
  "alloc_loop layout_size layout_align current s =
     (case current of
        None \<Rightarrow> Some (0, s)
      | Some p \<Rightarrow>
          do { b \<leftarrow> read_word s p;
               nxt \<leftarrow> get_next p b;
               if block_used b then alloc_loop layout_size layout_align nxt s
               else do { unaligned_start_addr \<leftarrow> block_start_address p;
                         start_addr \<leftarrow> next_multiple_of unaligned_start_addr layout_align;
                         last_offset \<leftarrow> checked_sub (block_len b) 1;
                         max_addr \<leftarrow> checked_add unaligned_start_addr last_offset;
                         size_1 \<leftarrow> checked_sub layout_size 1;
                         end_addr \<leftarrow> checked_add start_addr size_1;
                         if max_addr < end_addr then alloc_loop layout_size layout_align nxt s
                         else reserve_block p unaligned_start_addr start_addr max_addr end_addr s } })"

text \<open>The allocator beside the machine; the null pointer is the failure to allocate.\<close>

record kernel_heap =
  heap_machine :: machine
  heap_list_head :: "usize option"

definition heap_alloc :: "usize \<Rightarrow> usize \<Rightarrow> kernel_heap \<Rightarrow> (usize \<times> kernel_heap) option" where
  "heap_alloc layout_size layout_align h =
     (case heap_list_head h of
        None \<Rightarrow> Some (0, h)
      | Some list_head \<Rightarrow>
          do { (a, s) \<leftarrow> alloc_loop layout_size layout_align (Some list_head) (heap_machine h);
               Some (a, h\<lparr>heap_machine := s\<rparr>) })"

subsection \<open>Deallocation\<close>

definition merge_forward :: "usize \<Rightarrow> machine \<Rightarrow> machine option" where
  "merge_forward p s =
     do { let current_block_page = align_to_page p;
          b \<leftarrow> read_word s p;
          nxt \<leftarrow> get_next p b;
          case nxt of
            None \<Rightarrow> Some s
          | Some next_block \<Rightarrow>
              do { nb \<leftarrow> read_word s next_block;
                   if block_used nb then Some s
                   else do { let next_block_page = align_to_page next_block;
                             len \<leftarrow> checked_add (block_len b) size_of_block;
                             len \<leftarrow> checked_add len (block_len nb);
                             s \<leftarrow> update_block p (set_block_len len) s;
                             s \<leftarrow> update_block p (set_block_has_next (block_has_next nb)) s;
                             if current_block_page \<noteq> next_block_page then Some s
                             else do { nb \<leftarrow> read_word s next_block;
                                       nn \<leftarrow> get_next next_block nb;
                                       case nn of
                                         None \<Rightarrow> Some s
                                       | Some next_next_block \<Rightarrow>
                                           if align_to_page next_next_block \<noteq> next_block_page
                                           then unmap_and_free_page s next_block_page
                                           else Some s } } } }"

definition merge_backward :: "usize option \<Rightarrow> usize \<Rightarrow> machine \<Rightarrow> machine option" where
  "merge_backward maybe_previous_block p s =
     (case maybe_previous_block of
        None \<Rightarrow> Some s
      | Some previous_block \<Rightarrow>
          do { pb \<leftarrow> read_word s previous_block;
               if block_used pb then Some s
               else do { let current_block_page = align_to_page p;
                         let previous_block_page = align_to_page previous_block;
                         b \<leftarrow> read_word s p;
                         len \<leftarrow> checked_add (block_len pb) size_of_block;
                         len \<leftarrow> checked_add len (block_len b);
                         s \<leftarrow> update_block previous_block (set_block_len len) s;
                         s \<leftarrow> update_block previous_block (set_block_has_next (block_has_next b)) s;
                         if previous_block_page \<noteq> current_block_page then Some s
                         else do { b \<leftarrow> read_word s p;
                                   nxt \<leftarrow> get_next p b;
                                   case nxt of
                                     None \<Rightarrow> Some s
                                   | Some next_block \<Rightarrow>
                                       if align_to_page next_block \<noteq> current_block_page
                                       then unmap_and_free_page s current_block_page
                                       else Some s } } })"

definition release_block :: "usize option \<Rightarrow> usize \<Rightarrow> usize \<Rightarrow> usize \<Rightarrow> machine \<Rightarrow> machine option" where
  "release_block maybe_previous_block p min_addr max_addr s =
     do { b \<leftarrow> read_word s p;
          guard (block_used b);
          s \<leftarrow> update_block p (set_block_used False) s;
          start_page \<leftarrow> next_multiple_of min_addr PAGE_SIZE;
          let end_page = align_to_page max_addr;
          s \<leftarrow> for_each (\<lambda>page s. free_page s page) (pages_before start_page end_page) s;
          s \<leftarrow> merge_forward p s;
          merge_backward maybe_previous_block p s }"

partial_function (option) dealloc_loop :: "usize \<Rightarrow> usize option \<Rightarrow> usize option \<Rightarrow> machine \<Rightarrow> machine option" where
  "dealloc_loop search_addr maybe_previous_block current s =
     (case current of
        None \<Rightarrow> Some s
      | Some p \<Rightarrow>
          do { b \<leftarrow> read_word s p;
               nxt \<leftarrow> get_next p b;
               min_addr \<leftarrow> block_start_address p;
               last_offset \<leftarrow> checked_sub (block_len b) 1;
               max_addr \<leftarrow> checked_add min_addr last_offset;
               if min_addr \<le> search_addr \<and> search_addr \<le> max_addr
               then release_block maybe_previous_block p min_addr max_addr s
               else dealloc_loop search_addr (Some p) nxt s })"

definition heap_dealloc :: "usize \<Rightarrow> kernel_heap \<Rightarrow> kernel_heap option" where
  "heap_dealloc ptr h =
     do { list_head \<leftarrow> heap_list_head h;
          s \<leftarrow> dealloc_loop ptr None (Some list_head) (heap_machine h);
          Some (h\<lparr>heap_machine := s\<rparr>) }"

subsection \<open>Initialisation\<close>

definition init_heap :: "usize \<Rightarrow> usize \<Rightarrow> kernel_heap \<Rightarrow> kernel_heap option" where
  "init_heap start_address heap_length h =
     do { new_block_addr \<leftarrow> next_multiple_of start_address 8;
          (r, s) \<leftarrow> map_page (heap_machine h) new_block_addr PAGE_FLAGS;
          case r of
            Inl _ \<Rightarrow> None
          | Inr _ \<Rightarrow>
              do { past_end \<leftarrow> checked_add start_address heap_length;
                   len \<leftarrow> checked_sub past_end new_block_addr;
                   len \<leftarrow> checked_sub len size_of_block;
                   s \<leftarrow> write_word s new_block_addr (block_new len False False);
                   Some (h\<lparr>heap_machine := s, heap_list_head := Some new_block_addr\<rparr>) } }"

end
