(* ===== verification/Heap_Area.thy ===== *)
theory Heap_Area
  imports Heap
begin

text \<open>
  The pages of the heap area: reading, writing and mapping words of it. Mapped pages of the area lead to distinct frames
  that are in use and hold no page table, so a write to a word changes this word only, and mapping a page changes none.
\<close>

subsection \<open>Writing to a frame that is not a page table\<close>

lemma walk_cong_tables:
  assumes "\<And>b. is_table m root b \<Longrightarrow> m' b = m b" and q: "page_path q"
  shows "walk m' root q = walk m root q"
  using q
proof (induction q rule: rev_induct)
  case (snoc j q)
  then have q: "table_path q" by (simp add: page_path_snoc)
  with snoc have ih: "walk m' root q = walk m root q" by (simp add: table_path_page_path)
  show ?case
  proof (cases "walk m root q")
    case (Some b)
    then have "m' b = m b" using q by (intro assms(1)) (auto simp: is_table_def)
    with ih Some show ?thesis by (simp add: walk_snoc)
  qed (simp add: walk_snoc ih)
qed simp

lemma kernel_write_data:
  fixes i :: nat and w :: u64
  assumes "kernel_wf s" "\<not> kernel_table s f"
  defines "s' \<equiv> s\<lparr>mem := write_entry (mem s) f i w\<rparr>"
  shows "kernel_wf s'" "kernel_translate s' va = kernel_translate s va" "kernel_table s' b = kernel_table s b"
    "machine_frames s' = machine_frames s"
proof -
  obtain pa where pa: "PAGE_ALLOCATOR s = Some pa" "pa_inv pa" "pt_wf (mem s) (kernel_root pa) (pa_frames pa)"
    using assms(1) by (rule kernel_wfE)
  let ?r = "kernel_root pa"
  have w: "walk (write_entry (mem s) f i w) ?r q = walk (mem s) ?r q" if "page_path q" for q
    by (rule walk_cong_tables [OF _ that]) (use assms(2) pa(1) in \<open>auto simp: kernel_table_def write_entry_def\<close>)
  then have t: "walk (write_entry (mem s) f i w) ?r q = walk (mem s) ?r q" if "table_path q" for q
    using that by (simp add: table_path_page_path)
  have "pt_wf (write_entry (mem s) f i w) ?r (pa_frames pa)" using pa(3) t unfolding pt_wf_def by metis
  then show "kernel_wf s'" using pa by (simp add: kernel_wf_def s'_def)
  show "kernel_translate s' va = kernel_translate s va" using pa(1) w [of "va_path va"] by (simp add: kernel_translate_def s'_def translate_def)
  have "is_table (write_entry (mem s) f i w) ?r b = is_table (mem s) ?r b" using t unfolding is_table_def by metis
  then show "kernel_table s' b = kernel_table s b" using pa(1) by (simp add: kernel_table_def s'_def)
  show "machine_frames s' = machine_frames s" by (simp add: machine_frames_def s'_def)
qed

subsection \<open>Pages of an area\<close>

definition area_ok :: "nat \<Rightarrow> nat \<Rightarrow> bool" where
  "area_ok lo hi \<longleftrightarrow> lo < hi \<and> hi < 2 ^ 64 \<and> hi \<le> lo + 2 ^ 47"

definition area_page :: "nat \<Rightarrow> nat \<Rightarrow> usize \<Rightarrow> bool" where
  "area_page lo hi va \<longleftrightarrow> lo div 4096 \<le> unat va div 4096 \<and> unat va div 4096 \<le> (hi - 1) div 4096"

lemma page_bits: "unat (drop_bit 12 ((va :: usize) AND 0xFFFFFFFFF000)) = unat va div 4096 mod 2 ^ 36"
proof -
  have m: "(0xFFFFFFFFF000 :: usize) = push_bit 12 (mask 36)"
    by (simp add: mask_eq_exp_minus_1 push_bit_eq_mult)
  have "drop_bit 12 (va AND 0xFFFFFFFFF000) = take_bit 36 (drop_bit 12 va)"
    unfolding m by (rule bit_word_eqI) (auto simp: bit_simps)
  then show ?thesis by (simp add: unsigned_take_bit_eq unsigned_drop_bit_eq take_bit_eq_mod drop_bit_eq_div unat_div unat_mod)
qed

lemma mod_eq_close:
  assumes "x mod n = y mod n" "x < y + n" "y < x + (n :: nat)"
  shows "x = y"
proof -
  have close: "a = b" if "a mod n = b mod n" "a \<le> b" "b < a + n" for a b :: nat
  proof -
    have "n dvd b - a" using that(1,2) by (metis mod_eq_dvd_iff_nat)
    then have "b - a = 0" using that(3) dvd_imp_le [of n "b - a"] by linarith
    then show ?thesis using that(2) by simp
  qed
  show ?thesis using close [of x y] close [of y x] assms by linarith
qed

lemma same_page:
  assumes "area_ok lo hi" "area_page lo hi va" "area_page lo hi va'"
  shows "va_path va = va_path va' \<longleftrightarrow> unat va div 4096 = unat va' div 4096"
proof
  assume "va_path va = va_path va'"
  then have "unat va div 4096 mod 2 ^ 36 = unat va' div 4096 mod 2 ^ 36"
    unfolding va_path_eq_iff page_bits [symmetric] by simp
  moreover have "(hi - 1) div 4096 < lo div 4096 + 2 ^ 36" using assms(1) by (auto simp: area_ok_def)
  ultimately show "unat va div 4096 = unat va' div 4096"
    using assms(2,3) mod_eq_close [of "unat va div 4096" "2 ^ 36" "unat va' div 4096"] unfolding area_page_def by linarith
qed (rule va_path_page)

definition heap_pages :: "nat \<Rightarrow> nat \<Rightarrow> machine \<Rightarrow> bool" where
  "heap_pages lo hi s \<longleftrightarrow> kernel_wf s \<and> area_ok lo hi
     \<and> (\<forall>va a. area_page lo hi va \<longrightarrow> kernel_translate s va = Some a \<longrightarrow> a \<in> machine_frames s \<and> \<not> kernel_table s a)
     \<and> (\<forall>va va' a. area_page lo hi va \<longrightarrow> area_page lo hi va' \<longrightarrow> kernel_translate s va = Some a
          \<longrightarrow> kernel_translate s va' = Some a \<longrightarrow> unat va div 4096 = unat va' div 4096)"

text \<open>The frames of the area.\<close>

definition area_frames :: "nat \<Rightarrow> nat \<Rightarrow> machine \<Rightarrow> usize set" where
  "area_frames lo hi s = {a. \<exists>va. area_page lo hi va \<and> kernel_translate s va = Some a}"

lemma heap_pagesD:
  assumes "heap_pages lo hi s"
  shows "kernel_wf s" "area_ok lo hi"
    "area_page lo hi va \<Longrightarrow> kernel_translate s va = Some a \<Longrightarrow> a \<in> machine_frames s \<and> \<not> kernel_table s a"
    "area_page lo hi va \<Longrightarrow> area_page lo hi va' \<Longrightarrow> kernel_translate s va = Some a \<Longrightarrow> kernel_translate s va' = Some a
       \<Longrightarrow> unat va div 4096 = unat va' div 4096"
  using assms unfolding heap_pages_def by blast+

lemma kernel_translate_page: "unat va div 4096 = unat va' div 4096 \<Longrightarrow> kernel_translate s va = kernel_translate s va'"
  using va_path_page [of va va'] by (simp add: kernel_translate_def translate_def)

lemma word_slot:
  assumes "unat va div 4096 = unat va' div 4096" "unat va mod 4096 div 8 = unat va' mod 4096 div 8" "unat va mod 8 = 0" "unat va' mod 8 = 0"
  shows "va = va'"
proof -
  have split: "n = n div 4096 * 4096 + (n mod 4096 div 8 * 8 + n mod 8)" for n :: nat
    using div_mult_mod_eq [of n 4096] div_mult_mod_eq [of "n mod 4096" 8] mod_mod_cancel [of 8 4096 n] by simp
  have "unat va = unat va'" using split [of "unat va"] split [of "unat va'"] assms by simp
  then show ?thesis by (simp add: word_unat_eq_iff)
qed

text \<open>A write to an aligned word of the area.\<close>

lemma write_word_area:
  assumes pages: "heap_pages lo hi s" and va: "area_page lo hi va" "unat va mod 8 = 0" and mapped: "read_word s va \<noteq> None"
  obtains s' where "write_word s va w = Some s'" "heap_pages lo hi s'" "\<And>va'. kernel_translate s' va' = kernel_translate s va'"
    "machine_frames s' = machine_frames s" "PAGE_ALLOCATOR s' = PAGE_ALLOCATOR s" "\<And>b. kernel_table s' b = kernel_table s b"
    "\<And>va'. area_page lo hi va' \<Longrightarrow> unat va' mod 8 = 0 \<Longrightarrow> read_word s' va' = (if va' = va then Some w else read_word s va')"
    "\<And>b. b \<notin> area_frames lo hi s \<Longrightarrow> mem s' b = mem s b"
proof -
  from mapped obtain f where f: "kernel_translate s va = Some f" by (auto simp: read_word_def bind_eq_Some_conv)
  note nt = heap_pagesD(3) [OF pages va(1) f]
  let ?i = "unat va mod 4096 div 8"
  let ?s = "s\<lparr>mem := write_entry (mem s) f ?i w\<rparr>"
  note k = kernel_write_data [OF heap_pagesD(1) [OF pages] conjunct2 [OF nt], of ?i w]
  have "heap_pages lo hi ?s" using pages k(1) unfolding heap_pages_def k(2-4) by blast
  moreover have "read_word ?s va' = (if va' = va then Some w else read_word s va')" if va': "area_page lo hi va'" "unat va' mod 8 = 0" for va'
  proof (cases "kernel_translate s va'")
    case None
    then show ?thesis using k(2) [of va'] f by (auto simp: read_word_def)
  next
    case (Some f')
    show ?thesis
    proof (cases "f' = f \<and> unat va' mod 4096 div 8 = ?i")
      case True
      then have "va' = va" using heap_pagesD(4) [OF pages va'(1) va(1)] Some f va' va(2) by (intro word_slot) auto
      then show ?thesis using f k(2) [of va] by (simp add: read_word_def)
    next
      case False
      then have "va' \<noteq> va" using Some f by auto
      then show ?thesis using False Some k(2) [of va'] by (auto simp: read_word_def write_entry_def)
    qed
  qed
  moreover have "mem ?s b = mem s b" if "b \<notin> area_frames lo hi s" for b
    using that f va(1) by (auto simp: area_frames_def write_entry_def)
  moreover have "write_word s va w = Some ?s" using f by (simp add: write_word_def)
  ultimately show ?thesis by (intro that [of ?s]) (simp_all add: k)
qed

subsection \<open>Free pages\<close>

text \<open>What is left of the physical pages bounds how many pages can be mapped: a mapping takes at most four.\<close>

definition room :: "machine \<Rightarrow> nat" where
  "room s = (case PAGE_ALLOCATOR s of None \<Rightarrow> 0 | Some pa \<Rightarrow> unat (free_pages pa))"

definition total :: "machine \<Rightarrow> usize option" where
  "total s = map_option total_pages (PAGE_ALLOCATOR s)"

lemma pa_full_free:
  assumes "pa_inv pa" "pa_used pa = pa_slots pa"
  shows "free_pages pa = 0"
proof -
  let ?bs = "memory_bitmap pa"
  have "used_slots ?bs = {..<8 * length ?bs}"
  proof
    show "used_slots ?bs \<subseteq> {..<8 * length ?bs}" by (auto simp: used_slots_def)
    show "{..<8 * length ?bs} \<subseteq> used_slots ?bs"
    proof
      fix n assume n: "n \<in> {..<8 * length ?bs}"
      consider "n = 0" | "unat (total_pages pa) \<le> n" | "n \<in> pa_slots pa" using n by (fastforce simp: pa_slots_def)
      then show "n \<in> used_slots ?bs"
        using assms n by cases (auto simp: pa_inv_def used_slots_def pa_used_def)
    qed
  qed
  then have "zero_bits ?bs = 0" using zero_bits_card [of ?bs] by simp
  then show ?thesis using assms(1) by (simp add: pa_inv_def unat_eq_0)
qed

lemma map_translation_loop_room:
  assumes "pa_inv pa" "map_translation_loop phys va flags is current pa m = Some (r, pa', m')"
  shows "unat (free_pages pa) \<le> unat (free_pages pa') + length (filter (\<lambda>i. i \<noteq> 3) is)
    \<and> (r = Inl OutOfPages \<longrightarrow> unat (free_pages pa) < length (filter (\<lambda>i. i \<noteq> 3) is)) \<and> total_pages pa' = total_pages pa"
  using assms
proof (induction "is" arbitrary: current pa m)
  case (Cons i "is")
  from Cons.prems(2) obtain entry where e: "read_table m current (level_index i va) = Some entry"
    by (auto simp: Let_def bind_eq_Some_conv)
  consider "i = 3" | "i \<noteq> 3" "present entry" | "i \<noteq> 3" "\<not> present entry" by blast
  then show ?case
  proof cases
    case 1
    then show ?thesis using Cons.prems(2) e by (auto simp: Let_def split: if_splits)
  next
    case 2
    then have "map_translation_loop phys va flags is (address entry) pa m = Some (r, pa', m')"
      using Cons.prems(2) e by (simp add: Let_def)
    from Cons.IH [OF Cons.prems(1) this] 2 show ?thesis by auto
  next
    case 3
    show ?thesis
    proof (cases rule: pai_find_and_reserve_page_cases [OF Cons.prems(1), of m])
      case 1
      then have "pa' = pa" using Cons.prems(2) e 3 by (simp add: Let_def)
      then show ?thesis using pa_full_free [OF Cons.prems(1) 1(2)] 3 by simp
    next
      case (2 n pa1)
      then show ?thesis using Cons.prems(2) e 3 Cons.IH [OF 2(4)] by (fastforce simp: Let_def)
    qed
  qed
qed simp

lemma pai_free_page_room: "pai_free_page pa a = Some pa' \<Longrightarrow> unat (free_pages pa) \<le> unat (free_pages pa') \<and> total_pages pa' = total_pages pa"
  by (auto simp: pai_free_page_def Let_def bind_eq_Some_conv checked_add_Some split: if_splits)

lemma pai_map_page_room:
  assumes "pa_inv pa" "pai_map_page pa m va flags = Some (r, pa', m')"
  shows "unat (free_pages pa) \<le> unat (free_pages pa') + 4" "4 \<le> unat (free_pages pa) \<Longrightarrow> r \<noteq> Inl OutOfPages" "total_pages pa' = total_pages pa"
proof -
  have "unat (free_pages pa) \<le> unat (free_pages pa') + 4 \<and> (r = Inl OutOfPages \<longrightarrow> unat (free_pages pa) < 4) \<and> total_pages pa' = total_pages pa"
  proof (cases rule: pai_find_and_reserve_page_cases [OF assms(1), of m])
    case 1
    then show ?thesis using assms(2) pa_full_free [OF assms(1) 1(2)] by (simp add: pai_map_page_def)
  next
    case (2 n pa1)
    let ?m = "m(frame_of n := (\<lambda>_. 0))"
    from assms(2) 2(1) obtain r2 pa2 m2 where t: "pai_map_page_translation pa1 ?m (frame_of n) va flags = Some (r2, pa2, m2)"
      and rest: "(case r2 of Inl err \<Rightarrow> do { pa3 \<leftarrow> pai_free_page pa2 (frame_of n); Some (Inl err, pa3, m2) } | Inr u \<Rightarrow> Some (Inr u, pa2, m2))
        = Some (r, pa', m')"
      by (auto simp: pai_map_page_def bind_eq_Some_conv)
    have "unat (free_pages pa1) \<le> unat (free_pages pa2) + 3 \<and> (r2 = Inl OutOfPages \<longrightarrow> unat (free_pages pa1) < 3) \<and> total_pages pa2 = total_pages pa"
      using map_translation_loop_room [OF 2(4) t [unfolded pai_map_page_translation_def]] 2(8) by (auto simp: levels_def)
    then show ?thesis using rest 2(9) pai_free_page_room [of pa2 "frame_of n" pa']
      by (auto simp: bind_eq_Some_conv split: sum.splits)
  qed
  then show "unat (free_pages pa) \<le> unat (free_pages pa') + 4" "4 \<le> unat (free_pages pa) \<Longrightarrow> r \<noteq> Inl OutOfPages" "total_pages pa' = total_pages pa" by auto
qed

lemma map_page_room:
  assumes "kernel_wf s" "map_page s va flags = Some (r, s')"
  shows "room s \<le> room s' + 4" "4 \<le> room s \<Longrightarrow> r \<noteq> Inl OutOfPages" "total s' = total s"
proof -
  obtain pa where pa: "PAGE_ALLOCATOR s = Some pa" "pa_inv pa" using assms(1) by (rule kernel_wfE)
  from assms(2) obtain pa' m' where "pai_map_page pa (mem s) va flags = Some (r, pa', m')" "s' = s\<lparr>PAGE_ALLOCATOR := Some pa', mem := m'\<rparr>"
    by (auto simp: map_page_def pa(1) bind_eq_Some_conv)
  with pai_map_page_room [OF pa(2) this(1)] show "room s \<le> room s' + 4" "4 \<le> room s \<Longrightarrow> r \<noteq> Inl OutOfPages" "total s' = total s" by (simp_all add: room_def total_def pa(1))
qed

text \<open>Mapping a page of the area, with pages left.\<close>

lemma present_PAGE_FLAGS: "present PAGE_FLAGS"
  by (simp add: PAGE_FLAGS_def present_constants)

lemma map_heap_page_area:
  assumes pages: "heap_pages lo hi s" and va: "area_page lo hi va"
    and left: "4 \<le> room s"
  obtains s' where "map_heap_page va s = Some s'" "room s \<le> room s' + 4" "total s' = total s" "heap_pages lo hi s'" "kernel_translate s' va \<noteq> None"
    "machine_frames s \<subseteq> machine_frames s'" "\<And>b. b \<in> machine_frames s \<Longrightarrow> \<not> kernel_table s b \<Longrightarrow> mem s' b = mem s b \<and> \<not> kernel_table s' b"
    "\<And>va'. kernel_translate s va' \<noteq> None \<Longrightarrow> kernel_translate s' va' = kernel_translate s va'"
    "\<And>va' a. kernel_translate s' va' = Some a \<Longrightarrow> a \<in> machine_frames s \<Longrightarrow> kernel_translate s va' = Some a"
    "\<And>va'. area_page lo hi va' \<Longrightarrow> read_word s va' \<noteq> None \<Longrightarrow> read_word s' va' = read_word s va'"
proof -
  from map_page_post_holds [OF heap_pagesD(1) [OF pages], of va PAGE_FLAGS] obtain r s' where
    r: "map_page s va PAGE_FLAGS = Some (r, s')" and post: "map_page_post s va PAGE_FLAGS r s'"
    and tables: "\<forall>b \<in> machine_frames s. \<not> kernel_table s b \<longrightarrow> \<not> kernel_table s' b" by blast
  note p = post [unfolded map_page_post_def]
  have data: "mem s' b = mem s b \<and> \<not> kernel_table s' b" if "b \<in> machine_frames s" "\<not> kernel_table s b" for b
    using p tables that by blast
  have False: "r \<noteq> Inl OutOfPages" using map_page_room(2) [OF heap_pagesD(1) [OF pages] r left] .
  have eq: "map_heap_page va s = Some s'" using False r by (auto simp: map_heap_page_def split: sum.splits map_page_error.splits)
  have keep: "kernel_translate s' va' = kernel_translate s va'" if "kernel_translate s va' \<noteq> None" for va'
  proof (cases "va_path va' = va_path va")
    case True
    then have same: "kernel_translate t va' = kernel_translate t va" for t by (simp add: kernel_translate_def translate_def)
    then show ?thesis using p that False by (auto simp: same split: sum.splits map_page_error.splits)
  next
    case False
    then show ?thesis using p by (simp add: va_path_eq_iff)
  qed
  have new: "kernel_translate s' va' = kernel_translate s va' \<or> (va_path va' = va_path va \<and> (\<exists>a. kernel_translate s' va' = Some a
      \<and> a \<notin> machine_frames s \<and> a \<in> machine_frames s' \<and> \<not> kernel_table s' a))" for va'
  proof (cases "va_path va' = va_path va")
    case True
    then have same: "kernel_translate t va' = kernel_translate t va" for t by (simp add: kernel_translate_def translate_def)
    then show ?thesis using p False True present_PAGE_FLAGS by (auto simp: same split: sum.splits map_page_error.splits)
  next
    case False
    then show ?thesis using p by (simp add: va_path_eq_iff)
  qed
  have frames: "machine_frames s \<subseteq> machine_frames s'" using p by blast
  have area: "heap_pages lo hi s'" unfolding heap_pages_def
  proof (intro conjI allI impI)
    show "kernel_wf s'" "area_ok lo hi" using p heap_pagesD(2) [OF pages] by blast+
    fix va1 a assume 1: "area_page lo hi va1" "kernel_translate s' va1 = Some a"
    show "a \<in> machine_frames s'" "\<not> kernel_table s' a"
      using new [of va1] 1 heap_pagesD(3) [OF pages 1(1), of a] frames data [of a] by auto
    fix va2 assume 2: "area_page lo hi va2" "kernel_translate s' va2 = Some a"
    note old = heap_pagesD(3) [OF pages 1(1), of a] heap_pagesD(3) [OF pages 2(1), of a] heap_pagesD(4) [OF pages 1(1) 2(1), of a]
    consider "va_path va1 = va_path va2" | "kernel_translate s va1 = Some a" "kernel_translate s va2 = Some a"
      using new [of va1] new [of va2] 1(2) 2(2) old(1,2) by fastforce
    then show "unat va1 div 4096 = unat va2 div 4096"
      using old(3) same_page [OF heap_pagesD(2) [OF pages] 1(1) 2(1)] by cases blast+
  qed
  have mapped: "kernel_translate s' va \<noteq> None" using p False present_PAGE_FLAGS by (auto split: sum.splits map_page_error.splits)
  have words: "read_word s' va' = read_word s va'" if "area_page lo hi va'" "read_word s va' \<noteq> None" for va'
  proof -
    from that(2) obtain a where a: "kernel_translate s va' = Some a" by (auto simp: read_word_def bind_eq_Some_conv)
    then show ?thesis using keep [of va'] data [of a] heap_pagesD(3) [OF pages that(1) a] by (simp add: read_word_def)
  qed
  have old: "kernel_translate s va' = Some a" if "kernel_translate s' va' = Some a" "a \<in> machine_frames s" for va' a
    using new [of va'] that by auto
  show ?thesis by (rule that [OF eq map_page_room(1,3) [OF heap_pagesD(1) [OF pages] r] area mapped frames data keep old words])
qed

end
