(* ===== verification/Heap_Blocks.thy ===== *)
theory Heap_Blocks
  imports Heap_Area
begin

text \<open>
  The blocks of the kernel heap as a list: their header words, the steps of the allocator on the pages of the heap and what
  they keep, and the chain of headers that tiles the area.
\<close>

subsection \<open>Header words\<close>

lemma block_new_bits:
  fixes len :: usize
  shows "block_len (block_new len u h) = take_bit 62 len" "block_used (block_new len u h) = u"
    "block_has_next (block_new len u h) = h"
    "set_block_len len' (block_new len u h) = block_new len' u h"
    "set_block_used u' (block_new len u h) = block_new len u' h"
    "set_block_has_next h' (block_new len u h) = block_new len u h'"
proof -
  have m: "LEN_MASK = mask 62" by (simp add: LEN_MASK_def mask_eq_exp_minus_1)
  have b: "bit (block_new l v w) n \<longleftrightarrow> (if n < 62 then bit l n else if n = 62 then v else n = 63 \<and> w)" for l :: usize and v w n
    unfolding block_new_def m bit_or_iff bit_and_iff bit_push_bit_iff bit_mask_iff bit_of_bool_iff by (auto dest: bit_imp_le_length)
  show "block_len (block_new len u h) = take_bit 62 len"
    by (rule bit_word_eqI) (auto simp: block_len_def bit_simps b)
  show "block_used (block_new len u h) = u" "block_has_next (block_new len u h) = h"
    by (simp_all add: block_used_def block_has_next_def b)
  show "set_block_len len' (block_new len u h) = block_new len' u h"
    by (rule bit_word_eqI) (auto simp: set_block_len_def bit_simps b)
  show "set_block_used u' (block_new len u h) = block_new len u' h"
    by (rule bit_word_eqI) (auto simp: set_block_used_def bit_simps b)
  show "set_block_has_next h' (block_new len u h) = block_new len u h'"
    by (rule bit_word_eqI) (auto simp: set_block_has_next_def bit_simps b)
qed

lemma block_len_nat: "n < 2 ^ 62 \<Longrightarrow> block_len (block_new (of_nat n) u h) = of_nat n"
proof -
  assume "n < 2 ^ 62"
  then have "take_bit 62 (of_nat n :: usize) = of_nat n" by (simp add: take_bit_of_nat take_bit_nat_eq_self)
  then show ?thesis by (simp add: block_new_bits)
qed

subsection \<open>What the steps of the allocator keep\<close>

text \<open>
  Between two states of the machine the pages of the area stay mapped where they are, the mapped words outside of
  \<open>X\<close> keep their value, and so do the frames in use that are neither of the area nor page tables.
\<close>

definition keeps :: "nat \<Rightarrow> nat \<Rightarrow> usize set \<Rightarrow> machine \<Rightarrow> machine \<Rightarrow> bool" where
  "keeps lo hi X s s' \<longleftrightarrow> heap_pages lo hi s' \<and> machine_frames s \<subseteq> machine_frames s' \<and> total s' = total s
     \<and> (\<forall>va. kernel_translate s va \<noteq> None \<longrightarrow> kernel_translate s' va = kernel_translate s va)
     \<and> (\<forall>va. area_page lo hi va \<longrightarrow> unat va mod 8 = 0 \<longrightarrow> va \<notin> X \<longrightarrow> read_word s va \<noteq> None \<longrightarrow> read_word s' va = read_word s va)
     \<and> (\<forall>b \<in> machine_frames s. b \<notin> area_frames lo hi s \<longrightarrow> \<not> kernel_table s b
          \<longrightarrow> mem s' b = mem s b \<and> \<not> kernel_table s' b \<and> b \<notin> area_frames lo hi s')"

lemma keepsD:
  assumes "keeps lo hi X s s'"
  shows "heap_pages lo hi s'" "machine_frames s \<subseteq> machine_frames s'"
    "kernel_translate s va \<noteq> None \<Longrightarrow> kernel_translate s' va = kernel_translate s va"
    "area_page lo hi va \<Longrightarrow> unat va mod 8 = 0 \<Longrightarrow> va \<notin> X \<Longrightarrow> read_word s va \<noteq> None \<Longrightarrow> read_word s' va = read_word s va"
    "total s' = total s"
  using assms by (simp_all add: keeps_def)

lemma read_word_None: "read_word s va = None \<longleftrightarrow> kernel_translate s va = None"
  by (cases "kernel_translate s va") (simp_all add: read_word_def)

lemma keeps_refl: "heap_pages lo hi s \<Longrightarrow> keeps lo hi X s s"
  by (simp add: keeps_def)

lemma keeps_mono: "keeps lo hi X s s' \<Longrightarrow> X \<subseteq> Y \<Longrightarrow> keeps lo hi Y s s'"
  by (auto simp: keeps_def subset_iff)

lemma keeps_trans:
  assumes 1: "keeps lo hi X s s1" and 2: "keeps lo hi Y s1 s2"
  shows "keeps lo hi (X \<union> Y) s s2"
  unfolding keeps_def
proof (intro conjI allI impI ballI)
  show "heap_pages lo hi s2" "machine_frames s \<subseteq> machine_frames s2" "total s2 = total s"
    using keepsD(2,5) [OF 1] keepsD(1,2,5) [OF 2] by auto
  show "kernel_translate s2 va = kernel_translate s va" if "kernel_translate s va \<noteq> None" for va
    using keepsD(3) [OF 1 that] keepsD(3) [OF 2, of va] that by simp
  show "read_word s2 va = read_word s va" if "area_page lo hi va" "unat va mod 8 = 0" "va \<notin> X \<union> Y" "read_word s va \<noteq> None" for va
    using keepsD(4) [OF 1, of va] keepsD(4) [OF 2, of va] that by simp
  fix b assume b: "b \<in> machine_frames s" "b \<notin> area_frames lo hi s" "\<not> kernel_table s b"
  then have "mem s1 b = mem s b" "\<not> kernel_table s1 b" "b \<notin> area_frames lo hi s1" "b \<in> machine_frames s1"
    using 1 unfolding keeps_def by blast+
  then show "mem s2 b = mem s b" "\<not> kernel_table s2 b" "b \<notin> area_frames lo hi s2" using 2 unfolding keeps_def by auto
qed

lemma keeps_write:
  assumes "heap_pages lo hi s" "area_page lo hi va" "unat va mod 8 = 0" "read_word s va \<noteq> None"
  obtains s' where "write_word s va w = Some s'" "keeps lo hi {va} s s'" "read_word s' va = Some w" "room s' = room s"
proof (rule write_word_area [OF assms, of w])
  fix s' assume *: "write_word s va w = Some s'" "heap_pages lo hi s'" "\<And>va'. kernel_translate s' va' = kernel_translate s va'"
    "machine_frames s' = machine_frames s" "PAGE_ALLOCATOR s' = PAGE_ALLOCATOR s" "\<And>b. kernel_table s' b = kernel_table s b"
    "\<And>va'. area_page lo hi va' \<Longrightarrow> unat va' mod 8 = 0 \<Longrightarrow> read_word s' va' = (if va' = va then Some w else read_word s va')"
    "\<And>b. b \<notin> area_frames lo hi s \<Longrightarrow> mem s' b = mem s b"
  have "area_frames lo hi s' = area_frames lo hi s" unfolding area_frames_def *(3) ..
  then have "keeps lo hi {va} s s'" unfolding keeps_def using *(2,3,4,5,6,7,8) by (simp add: total_def)
  moreover have "room s' = room s" by (simp add: room_def *(5))
  moreover have "read_word s' va = Some w" using *(7) [OF assms(2,3)] by simp
  ultimately show thesis using *(1) by (intro that)
qed

lemma update_block_keeps:
  assumes "heap_pages lo hi s" "area_page lo hi p" "unat p mod 8 = 0" "read_word s p = Some b"
  obtains s' where "update_block p f s = Some s'" "keeps lo hi {p} s s'" "read_word s' p = Some (f b)" "room s' = room s"
  using assms by (auto simp: update_block_def intro: keeps_write [OF assms(1-3), of "f b"])

lemma map_heap_page_keeps:
  assumes "heap_pages lo hi s" "area_page lo hi va" "4 \<le> room s"
  obtains s' where "map_heap_page va s = Some s'" "keeps lo hi {} s s'" "kernel_translate s' va \<noteq> None" "room s \<le> room s' + 4"
proof (rule map_heap_page_area [OF assms])
  fix s' assume *: "map_heap_page va s = Some s'" "room s \<le> room s' + 4" "total s' = total s" "heap_pages lo hi s'" "kernel_translate s' va \<noteq> None"
    "machine_frames s \<subseteq> machine_frames s'" "\<And>b. b \<in> machine_frames s \<Longrightarrow> \<not> kernel_table s b \<Longrightarrow> mem s' b = mem s b \<and> \<not> kernel_table s' b"
    "\<And>va'. kernel_translate s va' \<noteq> None \<Longrightarrow> kernel_translate s' va' = kernel_translate s va'"
    "\<And>va' a. kernel_translate s' va' = Some a \<Longrightarrow> a \<in> machine_frames s \<Longrightarrow> kernel_translate s va' = Some a"
    "\<And>va'. area_page lo hi va' \<Longrightarrow> read_word s va' \<noteq> None \<Longrightarrow> read_word s' va' = read_word s va'"
  have "b \<notin> area_frames lo hi s'" if "b \<in> machine_frames s" "b \<notin> area_frames lo hi s" for b
    using that *(9) unfolding area_frames_def by blast
  then have "keeps lo hi {} s s'" unfolding keeps_def using *(3,4,6,7,8,10) by blast
  then show thesis using *(1,2,5) by (intro that)
qed

lemma map_heap_pages_keeps:
  assumes "heap_pages lo hi s" "\<And>va. va \<in> set vas \<Longrightarrow> area_page lo hi va" "4 * length vas \<le> room s"
  shows "\<exists>s'. for_each map_heap_page vas s = Some s' \<and> keeps lo hi {} s s' \<and> (\<forall>va \<in> set vas. kernel_translate s' va \<noteq> None)
    \<and> room s \<le> room s' + 4 * length vas"
  using assms
proof (induction vas arbitrary: s)
  case Nil
  then show ?case by (simp add: keeps_refl)
next
  case (Cons va vas)
  from Cons.prems(3) have "4 \<le> room s" by simp
  from map_heap_page_keeps [OF Cons.prems(1) Cons.prems(2) [of va] this] obtain s1 where
    1: "map_heap_page va s = Some s1" "keeps lo hi {} s s1" "kernel_translate s1 va \<noteq> None" "room s \<le> room s1 + 4" by auto
  from Cons.IH [OF keepsD(1) [OF 1(2)]] Cons.prems(2,3) 1(4) obtain s2 where
    2: "for_each map_heap_page vas s1 = Some s2" "keeps lo hi {} s1 s2" "\<forall>va \<in> set vas. kernel_translate s2 va \<noteq> None"
      "room s1 \<le> room s2 + 4 * length vas" by auto
  show ?case using 1 2 keeps_trans [OF 1(2) 2(2)] keepsD(3) [OF 2(2) 1(3)] by auto
qed

subsection \<open>The list of blocks\<close>

text \<open>A block is the address of its header, the length of its space, and whether it is in use.\<close>

type_synonym block = "nat \<times> nat \<times> bool"

fun tiles :: "nat \<Rightarrow> block list \<Rightarrow> nat \<Rightarrow> bool" where
  "tiles lo [] hi = (lo = hi)"
| "tiles lo ((p, l, u) # bs) hi = (p = lo \<and> p mod 8 = 0 \<and> 0 < l \<and> tiles (p + 8 + l) bs hi)"

fun chain :: "machine \<Rightarrow> block list \<Rightarrow> bool" where
  "chain s [] = True"
| "chain s ((p, l, u) # bs) = (read_word s (of_nat p) = Some (block_new (of_nat l) u (bs \<noteq> [])) \<and> chain s bs)"

definition heap_ok :: "nat \<Rightarrow> nat \<Rightarrow> block list \<Rightarrow> machine \<Rightarrow> bool" where
  "heap_ok lo hi bs s \<longleftrightarrow> heap_pages lo hi s \<and> bs \<noteq> [] \<and> tiles lo bs hi \<and> chain s bs"

lemma tiles_le: "tiles lo bs hi \<Longrightarrow> lo \<le> hi"
  by (induction lo bs hi rule: tiles.induct) auto

lemma tiles_append: "tiles lo (xs @ ys) hi \<longleftrightarrow> (\<exists>m. tiles lo xs m \<and> tiles m ys hi)"
  by (induction xs arbitrary: lo) auto

lemma tiles_header: "tiles lo bs hi \<Longrightarrow> (p, l, u) \<in> set bs \<Longrightarrow> lo \<le> p \<and> p + 8 + l \<le> hi \<and> 0 < l \<and> p mod 8 = 0"
proof (induction lo bs hi rule: tiles.induct)
  case (2 lo p' l' u' bs hi)
  then show ?case using tiles_le [of "p' + 8 + l'" bs hi] by auto
qed simp

lemma chain_append:
  "ys \<noteq> [] \<Longrightarrow> chain s (xs @ ys) \<longleftrightarrow> (\<forall>(p, l, u) \<in> set xs. read_word s (of_nat p) = Some (block_new (of_nat l) u True)) \<and> chain s ys"
  by (induction xs) auto

lemma chain_mapped: "chain s bs \<Longrightarrow> (p, l, u) \<in> set bs \<Longrightarrow> read_word s (of_nat p) \<noteq> None"
  by (induction bs) auto

lemma chain_cong:
  "\<forall>(p, l, u) \<in> set bs. read_word s' (of_nat p) = read_word s (of_nat p) \<Longrightarrow> chain s' bs = chain s bs"
  by (induction bs) auto

lemma tiles_end: "tiles lo bs hi \<Longrightarrow> tiles lo bs hi' \<Longrightarrow> hi = hi'"
  by (induction lo bs hi rule: tiles.induct) auto

lemma area_page_nat: "lo \<le> n \<Longrightarrow> n < hi \<Longrightarrow> hi < 2 ^ 64 \<Longrightarrow> area_page lo hi (of_nat n)"
  by (simp add: area_page_def unat_of_nat_small div_le_mono)

lemma get_next_chain:
  assumes "p + 8 + l < 2 ^ 64" "l < 2 ^ 62"
  shows "get_next (of_nat p) (block_new (of_nat l) u h) = Some (if h then Some (of_nat (p + 8 + l)) else None)"
proof -
  have nz: "(of_nat (p + 8 + l) :: usize) \<noteq> 0" using of_nat_usize_eq [of "p + 8 + l" 0] assms(1) by simp
  have "checked_add (of_nat p :: usize) size_of_block = Some (of_nat (p + 8))"
    using checked_add_nat [of p 8 "p + 8"] assms(1) by (simp add: size_of_block_def del: of_nat_add)
  then show ?thesis using assms nz checked_add_nat [of "p + 8" l "p + 8 + l"]
    by (simp add: get_next_def block_new_bits(3) block_len_nat guard_def del: of_nat_add)
qed

lemma heap_okD:
  assumes "heap_ok lo hi bs s"
  shows "heap_pages lo hi s" "area_ok lo hi" "tiles lo bs hi" "chain s bs" "hi < 2 ^ 64" "hi < 2 ^ 62 + lo"
  using assms heap_pagesD(2) [of lo hi s] by (auto simp: heap_ok_def area_ok_def)

lemma header_in_area:
  assumes "tiles lo bs hi" "area_ok lo hi" "(p, l, u) \<in> set bs"
  shows "area_page lo hi (of_nat p)" "unat (of_nat p :: usize) mod 8 = 0" "p < 2 ^ 64"
  using tiles_header [OF assms(1,3)] assms(2) by (simp_all add: area_page_nat area_ok_def unat_of_nat_small)

text \<open>The headers that are not changed keep their place in the chain.\<close>

lemma chain_replace:
  assumes ok: "heap_ok lo hi (xs @ old @ ys) s" and old: "tiles p old e" "p < e" and k: "keeps lo hi X s s'"
    and X: "X \<subseteq> of_nat ` {p..<e}" and bs: "bs \<noteq> []" "tiles p bs e"
    and new: "\<And>pre q k v post. bs = pre @ (q, k, v) # post \<Longrightarrow> read_word s' (of_nat q) = Some (block_new (of_nat k) v (post @ ys \<noteq> []))"
  shows "heap_ok lo hi (xs @ bs @ ys) s'"
proof -
  note D = heap_okD [OF ok]
  have "old \<noteq> []" using old by auto
  then obtain q k u rest where q: "old = (q, k, u) # rest" by (cases old) auto
  then have "q = p" using old(1) by simp
  obtain m m' where t: "tiles lo xs m" "tiles m old m'" "tiles m' ys hi" using D(3) by (auto simp: tiles_append)
  have "m = p" using t(2) \<open>q = p\<close> by (simp add: q)
  then have t: "tiles lo xs p" "tiles e ys hi" using t tiles_end [OF old(1)] by auto
  have hi: "e \<le> hi" by (rule tiles_le [OF t(2)])
  have same: "read_word s' (of_nat q) = read_word s (of_nat q)" if q: "(q, k, v) \<in> set xs \<union> set ys" for q k v
  proof -
    have out: "q < p \<or> e \<le> q" using q tiles_header [OF t(1), of q k v] tiles_header [OF t(2), of q k v] by auto
    have in_bs: "(q, k, v) \<in> set (xs @ old @ ys)" using q by auto
    note h = header_in_area [OF D(3,2) in_bs]
    have "of_nat q \<notin> X"
    proof
      assume "of_nat q \<in> X"
      then obtain n where "(of_nat q :: usize) = of_nat n" "p \<le> n" "n < e" using X by auto
      then show False using of_nat_usize_eq [OF h(3), of n] out hi D(5) by simp
    qed
    then show ?thesis by (intro keepsD(4) [OF k h(1,2)] chain_mapped [OF D(4) in_bs])
  qed
  have c: "chain s (old @ ys)" "\<forall>(q, k, v) \<in> set xs. read_word s (of_nat q) = Some (block_new (of_nat k) v True)"
    using D(4) \<open>old \<noteq> []\<close> by (auto simp: chain_append)
  then have "chain s ys" by (cases "ys = []") (simp_all add: chain_append)
  then have "chain s' ys" using same chain_cong [of ys s' s] by auto
  moreover have "chain s' (bs' @ ys)" if "bs = pre @ bs'" for pre bs'
    using that
  proof (induction bs' arbitrary: pre)
    case Nil
    then show ?case using calculation by simp
  next
    case (Cons b bs')
    obtain q k v where b: "b = (q, k, v)" by (cases b) auto
    show ?case using new [of pre q k v bs'] Cons.IH [of "pre @ [b]"] Cons.prems by (simp add: b)
  qed
  then have "chain s' (bs @ ys)" by simp
  moreover have "read_word s' (of_nat q) = Some (block_new (of_nat k) v True)" if "(q, k, v) \<in> set xs" for q k v
    using c(2) that same [of q k v] by auto
  ultimately have "chain s' (xs @ bs @ ys)" using bs(1) by (auto simp: chain_append)
  moreover have "tiles lo (xs @ bs @ ys) hi" using t bs(2) by (auto simp: tiles_append)
  ultimately show ?thesis using keepsD(1) [OF k] bs(1) by (simp add: heap_ok_def)
qed

end
