(* ===== verification/Heap_Alloc.thy ===== *)
theory Heap_Alloc
  imports Heap_Blocks
begin

text \<open>
  Allocation from the kernel heap is first fit on the list of blocks: the first free block that holds the aligned request is
  taken, and split when a block with at least two bytes of space fits behind the request.
\<close>

subsection \<open>First fit\<close>

definition split_block :: "nat \<Rightarrow> nat \<Rightarrow> nat \<Rightarrow> block list" where
  "split_block past_end p l =
     (let nb = align_up 8 past_end
      in if nb + 8 < p + 7 + l then [(p, nb - (p + 8), True), (nb, p + l - nb, False)] else [(p, l, True)])"

fun first_fit :: "nat \<Rightarrow> nat \<Rightarrow> block list \<Rightarrow> (nat \<times> block list) option" where
  "first_fit sz al [] = None"
| "first_fit sz al ((p, l, u) # bs) =
     (let start = align_up al (p + 8)
      in if \<not> u \<and> start + sz \<le> p + 8 + l then Some (start, split_block (start + sz) p l @ bs)
         else map_option (\<lambda>(a, bs'). (a, (p, l, u) # bs')) (first_fit sz al bs))"

lemma split_block_tiles:
  assumes "p + 8 < past_end" "past_end \<le> p + 8 + l" "p mod 8 = 0" "0 < l"
  shows "tiles p (split_block past_end p l) (p + 8 + l)" "split_block past_end p l \<noteq> []"
proof -
  have nb: "past_end \<le> align_up 8 past_end" "align_up 8 past_end mod 8 = 0" using align_up_bounds [of 8 past_end] by simp_all
  show "tiles p (split_block past_end p l) (p + 8 + l)" using assms nb by (auto simp: split_block_def Let_def)
  show "split_block past_end p l \<noteq> []" by (simp add: split_block_def Let_def)
qed

subsection \<open>Scanning the list\<close>

lemma alloc_loop_scan:
  assumes "tiles m bs hi" "chain s bs" "hi < 2 ^ 62 + m" "hi + sz + al < 2 ^ 64" "0 < sz" "0 < al"
  shows "(first_fit sz al bs = None
        \<and> alloc_loop (of_nat sz) (of_nat al) (if bs = [] then None else Some (of_nat m)) s = Some (0, s))
    \<or> (\<exists>xs p l ys start. bs = xs @ (p, l, False) # ys \<and> start = align_up al (p + 8) \<and> start + sz \<le> p + 8 + l
        \<and> first_fit sz al bs = Some (start, xs @ split_block (start + sz) p l @ ys)
        \<and> alloc_loop (of_nat sz) (of_nat al) (if bs = [] then None else Some (of_nat m)) s
          = reserve_block (of_nat p) (of_nat (p + 8)) (of_nat start) (of_nat (p + 7 + l)) (of_nat (start + sz - 1)) s)"
    (is "?none m bs \<or> ?some m bs")
  using assms(1-3)
proof (induction bs arbitrary: m)
  case Nil
  then show ?case by (simp add: alloc_loop.simps)
next
  case (Cons b bs)
  obtain p l u where b: "b = (p, l, u)" by (cases b) auto
  have p: "p = m" "0 < l" "tiles (p + 8 + l) bs hi" and c: "read_word s (of_nat p) = Some (block_new (of_nat l) u (bs \<noteq> []))" "chain s bs"
    using Cons.prems by (auto simp: b)
  have hi: "p + 8 + l \<le> hi" by (rule tiles_le [OF p(3)])
  then have l: "l < 2 ^ 62" using Cons.prems(3) p(1) by linarith
  define start where "start = align_up al (p + 8)"
  have start: "p + 8 \<le> start" "start < p + 8 + al" using align_up_bounds [OF assms(6), of "p + 8"] by (simp_all add: start_def)
  let ?next = "if bs = [] then None else Some (of_nat (p + 8 + l))"
  have nxt: "get_next (of_nat p) (block_new (of_nat l) u (bs \<noteq> [])) = Some ?next"
    using hi assms(4) l by (simp add: get_next_chain del: of_nat_add)
  have ih: "?none (p + 8 + l) bs \<or> ?some (p + 8 + l) bs" using Cons.IH [OF p(3) c(2)] Cons.prems(3) p(1) by simp
  let ?max = "p + 7 + l" and ?lst = "start + sz - 1"
  have "alloc_loop (of_nat sz) (of_nat al) (Some (of_nat p)) s =
      (if u \<or> ?max < ?lst then alloc_loop (of_nat sz) (of_nat al) ?next s
       else reserve_block (of_nat p) (of_nat (p + 8)) (of_nat start) (of_nat ?max) (of_nat ?lst) s)"
  proof -
    have "block_start_address (of_nat p) = Some (of_nat (p + 8))"
      using checked_add_nat [of p 8 "p + 8"] hi assms(4) by (simp add: block_start_address_def size_of_block_def del: of_nat_add)
    moreover have "next_multiple_of (of_nat (p + 8)) (of_nat al) = Some (of_nat start)"
      using hi assms(4,6) unfolding start_def by (intro next_multiple_of_nat) simp_all
    moreover have "checked_sub (of_nat l :: usize) 1 = Some (of_nat (l - 1))" "checked_sub (of_nat sz :: usize) 1 = Some (of_nat (sz - 1))"
      using checked_sub_nat [of l 1 "l - 1"] checked_sub_nat [of sz 1 "sz - 1"] hi assms(4,5) p(2) by (simp_all del: of_nat_diff)
    moreover have "checked_add (of_nat (p + 8) :: usize) (of_nat (l - 1)) = Some (of_nat ?max)"
      using hi assms(4) p(2) by (intro checked_add_nat) simp_all
    moreover have "checked_add (of_nat start :: usize) (of_nat (sz - 1)) = Some (of_nat ?lst)"
      using hi start assms(4,5) by (intro checked_add_nat) simp_all
    moreover have "(of_nat ?max :: usize) < of_nat ?lst \<longleftrightarrow> ?max < ?lst"
      using hi start assms(4) by (intro of_nat_usize_less) simp_all
    ultimately show ?thesis
      by (subst alloc_loop.simps) (simp add: c(1) nxt block_new_bits(2) block_len_nat [OF l] del: of_nat_add of_nat_diff)
  qed
  moreover have "?max < ?lst \<longleftrightarrow> \<not> start + sz \<le> p + 8 + l" using assms(5) by linarith
  ultimately have step: "alloc_loop (of_nat sz) (of_nat al) (Some (of_nat p)) s =
      (if u \<or> \<not> start + sz \<le> p + 8 + l then alloc_loop (of_nat sz) (of_nat al) ?next s
       else reserve_block (of_nat p) (of_nat (p + 8)) (of_nat start) (of_nat ?max) (of_nat ?lst) s)" by simp
  show ?case
  proof (cases "\<not> u \<and> start + sz \<le> p + 8 + l")
    case True
    then have "b # bs = [] @ (p, l, False) # bs" "start + sz \<le> p + 8 + l"
      "first_fit sz al (b # bs) = Some (start, [] @ split_block (start + sz) p l @ bs)" by (simp_all add: b start_def Let_def)
    moreover have "alloc_loop (of_nat sz) (of_nat al) (if b # bs = [] then None else Some (of_nat m)) s
        = reserve_block (of_nat p) (of_nat (p + 8)) (of_nat start) (of_nat ?max) (of_nat ?lst) s"
      using True step by (simp add: p(1) [symmetric] del: of_nat_add of_nat_diff)
    ultimately have "?some m (b # bs)" using start_def by blast
    then show ?thesis ..
  next
    case False
    then have loop: "alloc_loop (of_nat sz) (of_nat al) (if b # bs = [] then None else Some (of_nat m)) s = alloc_loop (of_nat sz) (of_nat al) ?next s"
      using step by (simp add: p(1) [symmetric] del: of_nat_add)
    have ff: "first_fit sz al (b # bs) = map_option (\<lambda>(a, bs'). (a, b # bs')) (first_fit sz al bs)"
      using False by (auto simp: b start_def Let_def)
    from ih show ?thesis
    proof
      assume "?some (p + 8 + l) bs"
      then obtain xs q k ys st where some: "bs = xs @ (q, k, False) # ys" "st = align_up al (q + 8)" "st + sz \<le> q + 8 + k"
        "first_fit sz al bs = Some (st, xs @ split_block (st + sz) q k @ ys)" "alloc_loop (of_nat sz) (of_nat al) ?next s
          = reserve_block (of_nat q) (of_nat (q + 8)) (of_nat st) (of_nat (q + 7 + k)) (of_nat (st + sz - 1)) s" by blast
      have "b # bs = (b # xs) @ (q, k, False) # ys" using some(1) by simp
      moreover have "first_fit sz al (b # bs) = Some (st, (b # xs) @ split_block (st + sz) q k @ ys)" unfolding ff some(4) by simp
      ultimately have "?some m (b # bs)" unfolding loop using some(2,3,5) by blast
      then show ?thesis ..
    qed (unfold loop ff, simp)
  qed
qed

subsection \<open>Reserving a block\<close>

lemma pages_to_nat:
  assumes "a \<le> b" "b < 2 ^ 64"
  shows "pages_to (align_to_page (of_nat a)) (align_to_page (of_nat b)) = map (\<lambda>i. of_nat (4096 * i)) [a div 4096..<b div 4096 + 1]"
proof -
  have le: "a div 4096 \<le> b div 4096" using assms(1) by (rule div_le_mono)
  have u: "unat (align_to_page (of_nat a)) = 4096 * (a div 4096)" "unat (align_to_page (of_nat b)) = 4096 * (b div 4096)"
    using assms by (simp_all add: unat_align_to_page unat_of_nat_small)
  then have start: "align_to_page (of_nat a) = of_nat (4096 * (a div 4096))" using assms by (simp add: word_unat_eq_iff unat_of_nat_small del: of_nat_mult)
  have n: "(4096 * (b div 4096) - 4096 * (a div 4096)) div 4096 = b div 4096 - a div 4096"
    by (metis diff_mult_distrib2 nonzero_mult_div_cancel_left zero_neq_numeral)
  have "pages_to (align_to_page (of_nat a)) (align_to_page (of_nat b))
      = map (\<lambda>i. align_to_page (of_nat a) + of_nat (4096 * i)) [0..<b div 4096 - a div 4096 + 1]"
    unfolding pages_to_def u n using le by (simp add: word_le_nat_alt u)
  also have "\<dots> = map (\<lambda>i. of_nat (4096 * i)) [a div 4096..<b div 4096 + 1]"
    using map_add_upt [of "a div 4096" "b div 4096 - a div 4096 + 1", symmetric] le by (simp add: start algebra_simps del: upt_Suc)
  finally show ?thesis .
qed

lemma map_block_pages:
  assumes s: "heap_pages lo hi s" and ab: "lo \<le> a" "a \<le> b" "b < hi" and left: "4 * (b div 4096 - a div 4096 + 1) \<le> room s"
  obtains s' where "for_each map_heap_page (pages_to (align_to_page (of_nat a)) (align_to_page (of_nat b))) s = Some s'"
    "keeps lo hi {} s s'" "\<And>x. a \<le> x \<Longrightarrow> x \<le> b \<Longrightarrow> kernel_translate s' (of_nat x) \<noteq> None"
    "room s \<le> room s' + 4 * (b div 4096 - a div 4096 + 1)"
proof -
  let ?vas = "map (\<lambda>i. of_nat (4096 * i)) [a div 4096..<b div 4096 + 1] :: usize list"
  have hi: "hi < 2 ^ 64" using heap_pagesD(2) [OF s] by (simp add: area_ok_def)
  have page: "unat (of_nat (4096 * i) :: usize) = 4096 * i" if "i \<le> b div 4096" for i
    using that ab(3) hi by (intro unat_of_nat_small) simp
  have area: "area_page lo hi va" if "va \<in> set ?vas" for va
  proof -
    from that obtain i where i: "va = of_nat (4096 * i)" "a div 4096 \<le> i" "i \<le> b div 4096" by auto
    then show ?thesis using div_le_mono [OF ab(1), of 4096] div_le_mono [of b "hi - 1" 4096] ab(3) page [of i]
      by (simp add: area_page_def del: of_nat_mult)
  qed
  have len: "length ?vas = b div 4096 - a div 4096 + 1" using div_le_mono [OF ab(2), of 4096] by simp
  then have "4 * length ?vas \<le> room s" using left by simp
  from map_heap_pages_keeps [OF s area this] obtain s' where
    s': "for_each map_heap_page ?vas s = Some s'" "keeps lo hi {} s s'" "\<forall>va \<in> set ?vas. kernel_translate s' va \<noteq> None"
    "room s \<le> room s' + 4 * length ?vas" by blast
  have "kernel_translate s' (of_nat x) \<noteq> None" if "a \<le> x" "x \<le> b" for x
  proof -
    have d: "a div 4096 \<le> x div 4096" "x div 4096 \<le> b div 4096" using that by (simp_all add: div_le_mono)
    then have "of_nat (4096 * (x div 4096)) \<in> set ?vas" unfolding set_map by (intro imageI) (simp del: upt_Suc)
    moreover have "unat (of_nat (4096 * (x div 4096)) :: usize) div 4096 = unat (of_nat x :: usize) div 4096"
      using page [OF d(2)] that ab(3) hi by (simp add: unat_of_nat_small del: of_nat_mult)
    ultimately show ?thesis using s'(3) kernel_translate_page by metis
  qed
  then show ?thesis using s'(1,2,4) pages_to_nat [OF ab(2)] ab(3) hi by (intro that [of s']) (simp_all only: len, simp_all)
qed

lemma reserve_headers_ok:
  assumes ok: "heap_ok lo hi (xs @ (p, l, False) # ys) s" and e: "p + 8 \<le> e" "e < p + 8 + l"
    and hi: "hi + 16 < 2 ^ 64" and left: "4 \<le> room s"
  obtains s' where "reserve_headers (of_nat p) (of_nat (p + 8)) (of_nat (p + 7 + l)) (of_nat e) s = Some s'"
    "heap_ok lo hi (xs @ split_block (e + 1) p l @ ys) s'" "keeps lo hi (of_nat ` {p..<p + 8 + l}) s s'" "room s \<le> room s' + 4"
proof -
  let ?X = "of_nat ` {p..<p + 8 + l} :: usize set"
  note D = heap_okD [OF ok]
  have in_bs: "(p, l, False) \<in> set (xs @ (p, l, False) # ys)" by simp
  note h = header_in_area [OF D(3,2) in_bs] and t = tiles_header [OF D(3) in_bs]
  define nb where "nb = align_up 8 (e + 1)"
  have nb: "e < nb" "nb < e + 9" "nb mod 8 = 0" using align_up_bounds [of 8 "e + 1"] by (simp_all add: nb_def)
  have small: "e + 1 < 2 ^ 64" "nb + 8 < 2 ^ 64" "p + 7 + l < 2 ^ 64" using nb(2) e(2) t hi by linarith+
  have read: "read_word s (of_nat p) = Some (block_new (of_nat l) False (ys \<noteq> []))" using D(4) by (auto simp: chain_append)
  obtain s1 where 1: "update_block (of_nat p) (set_block_used True) s = Some s1" "keeps lo hi {of_nat p} s s1"
    "read_word s1 (of_nat p) = Some (block_new (of_nat l) True (ys \<noteq> []))" "room s1 = room s"
    using update_block_keeps [OF D(1) h(1,2) read, of "set_block_used True"] by (auto simp: block_new_bits)
  have pX: "of_nat p \<in> ?X" by (intro imageI) simp
  define past where "past = e + 1"
  have pe: "checked_add (of_nat e :: usize) 1 = Some (of_nat past)"
    using checked_add_nat [of e 1 past] small by (simp add: past_def del: of_nat_add)
  have nm: "next_multiple_of (of_nat past) 8 = Some (of_nat nb)"
    using next_multiple_of_nat [of 8 past] e(2) t hi by (simp add: nb_def past_def)
  have ns: "checked_add (of_nat nb :: usize) size_of_block = Some (of_nat (nb + 8))"
    using checked_add_nat [of nb 8, OF refl] small by (simp add: size_of_block_def del: of_nat_add)
  have less: "(of_nat (nb + 8) :: usize) < of_nat (p + 7 + l) \<longleftrightarrow> nb + 8 < p + 7 + l"
    using small by (intro of_nat_usize_less)
  have sb: "tiles p (split_block (e + 1) p l) (p + 8 + l)" "split_block (e + 1) p l \<noteq> []"
    using split_block_tiles [of p "e + 1" l] e t by simp_all
  have seg: "xs @ (p, l, False) # ys = xs @ [(p, l, False)] @ ys" by simp
  have old: "tiles p [(p, l, False)] (p + 8 + l)" "p < p + 8 + l" using t by simp_all
  note run = reserve_headers_def 1(1) pe nm ns less
  show thesis
  proof (cases "nb + 8 < p + 7 + l")
    case False
    then have eq: "split_block (e + 1) p l = [(p, l, True)]" by (simp add: split_block_def Let_def nb_def)
    have k: "keeps lo hi ?X s s1" using keeps_mono [OF 1(2)] pX by simp
    have "heap_ok lo hi (xs @ split_block (e + 1) p l @ ys) s1"
      unfolding eq by (rule chain_replace [OF ok [unfolded seg] old k _ sb(2,1) [unfolded eq]]) (auto simp: Cons_eq_append_conv 1(3))
    then show thesis using False 1(4) k by (intro that [of s1]) (simp_all add: run del: of_nat_add)
  next
    case True
    then have eq: "split_block (e + 1) p l = [(p, nb - (p + 8), True), (nb, p + l - nb, False)]" by (simp add: split_block_def Let_def nb_def)
    have nbX: "of_nat nb \<in> ?X" using nb e True by (intro imageI) simp
    have nba: "area_page lo hi (of_nat nb)" "unat (of_nat nb :: usize) mod 8 = 0"
      using nb e True t hi by (simp_all add: area_page_nat unat_of_nat_small)
    have ne: "(of_nat nb :: usize) \<noteq> of_nat p" using of_nat_usize_eq [of nb p] nb e small h(3) by simp
    obtain s2 where 2: "update_block (of_nat p) (set_block_len (of_nat (nb - (p + 8)))) s1 = Some s2" "keeps lo hi {of_nat p} s1 s2"
      "read_word s2 (of_nat p) = Some (block_new (of_nat (nb - (p + 8))) True (ys \<noteq> []))" "room s2 = room s1"
      using update_block_keeps [OF keepsD(1) [OF 1(2)] h(1,2) 1(3), of "set_block_len (of_nat (nb - (p + 8)))"] by (auto simp: block_new_bits)
    obtain s3 where 3: "map_heap_page (of_nat nb) s2 = Some s3" "keeps lo hi {} s2 s3" "kernel_translate s3 (of_nat nb) \<noteq> None" "room s2 \<le> room s3 + 4"
      using map_heap_page_keeps [OF keepsD(1) [OF 2(2)] nba(1)] left 1(4) 2(4) by auto
    have r3: "read_word s3 (of_nat p) = Some (block_new (of_nat (nb - (p + 8))) True (ys \<noteq> []))"
      using keepsD(4) [OF 3(2) h(1,2)] 2(3) by simp
    let ?w = "block_new (of_nat (p + l - nb)) False (ys \<noteq> [])"
    obtain s4 where 4: "write_word s3 (of_nat nb) ?w = Some s4" "keeps lo hi {of_nat nb} s3 s4" "read_word s4 (of_nat nb) = Some ?w" "room s4 = room s3"
      using keeps_write [OF keepsD(1) [OF 3(2)] nba, of ?w] 3(3) by (auto simp: read_word_None)
    have r4: "read_word s4 (of_nat p) = Some (block_new (of_nat (nb - (p + 8))) True (ys \<noteq> []))"
      using keepsD(4) [OF 4(2) h(1,2)] r3 ne by simp
    obtain s5 where 5: "update_block (of_nat p) (set_block_has_next True) s4 = Some s5" "keeps lo hi {of_nat p} s4 s5"
      "read_word s5 (of_nat p) = Some (block_new (of_nat (nb - (p + 8))) True True)" "room s5 = room s4"
      using update_block_keeps [OF keepsD(1) [OF 4(2)] h(1,2) r4, of "set_block_has_next True"] by (auto simp: block_new_bits)
    have r5: "read_word s5 (of_nat nb) = Some ?w" using keepsD(4) [OF 5(2) nba] 4(3) ne by simp
    have "keeps lo hi ({of_nat p} \<union> {of_nat p} \<union> {} \<union> {of_nat nb} \<union> {of_nat p}) s s5"
      by (rule keeps_trans [OF keeps_trans [OF keeps_trans [OF keeps_trans [OF 1(2) 2(2)] 3(2)] 4(2)] 5(2)])
    then have k: "keeps lo hi ?X s s5" by (rule keeps_mono) (use pX nbX in auto)
    have "heap_ok lo hi (xs @ split_block (e + 1) p l @ ys) s5"
      unfolding eq by (rule chain_replace [OF ok [unfolded seg] old k _ sb(2,1) [unfolded eq]]) (auto simp: Cons_eq_append_conv 5(3) r5)
    moreover have "checked_sub (of_nat nb :: usize) (of_nat (p + 8)) = Some (of_nat (nb - (p + 8)))"
      using small nb(1) e(1) by (intro checked_sub_nat) simp_all
    moreover have "checked_sub (of_nat (p + 7 + l) :: usize) (of_nat (nb + 8)) = Some (of_nat (p + l - nb - 1))"
      using small True by (intro checked_sub_nat) simp_all
    moreover have "checked_add (of_nat (p + l - nb - 1) :: usize) (of_nat 1) = Some (of_nat (p + l - nb))"
      using small True by (intro checked_add_nat) simp_all
    ultimately show thesis using True 1(4) 2(4) 3(4) 4(4) 5(4) k unfolding of_nat_1
      by (intro that [of s5]) (simp_all add: run 2(1) 3(1) 4(1) 5(1) r3 block_new_bits(3) del: of_nat_add of_nat_diff)
  qed
qed

lemma reserve_block_ok:
  assumes ok: "heap_ok lo hi (xs @ (p, l, False) # ys) s" and start: "p + 8 \<le> start" "start + sz \<le> p + 8 + l" "0 < sz"
    and hi: "hi + 16 < 2 ^ 64" and left: "4 * ((start + sz - 1) div 4096 - (p + 8) div 4096 + 2) \<le> room s"
  obtains s' where "reserve_block (of_nat p) (of_nat (p + 8)) (of_nat start) (of_nat (p + 7 + l)) (of_nat (start + sz - 1)) s = Some (of_nat start, s')"
    "heap_ok lo hi (xs @ split_block (start + sz) p l @ ys) s'" "keeps lo hi (of_nat ` {p..<p + 8 + l}) s s'"
    "\<And>x. start \<le> x \<Longrightarrow> x < start + sz \<Longrightarrow> kernel_translate s' (of_nat x) \<noteq> None"
    "room s \<le> room s' + 4 * ((start + sz - 1) div 4096 - (p + 8) div 4096 + 2)"
proof -
  let ?e = "start + sz - 1"
  have e: "p + 8 \<le> ?e" "?e < p + 8 + l" "?e + 1 = start + sz" using start by linarith+
  have t: "lo \<le> p" "p + 8 + l \<le> hi" using tiles_header [OF heap_okD(3) [OF ok], of p l False] by simp_all
  have left4: "4 \<le> room s" using left by simp
  obtain s1 where 1: "reserve_headers (of_nat p) (of_nat (p + 8)) (of_nat (p + 7 + l)) (of_nat ?e) s = Some s1"
    "heap_ok lo hi (xs @ split_block (start + sz) p l @ ys) s1" "keeps lo hi (of_nat ` {p..<p + 8 + l}) s s1" "room s \<le> room s1 + 4"
    by (rule reserve_headers_ok [OF ok e(1,2) hi left4, unfolded e(3)])
  note ok1 = heap_okD [OF 1(2)]
  have pages: "lo \<le> p + 8" "?e < hi" "4 * (?e div 4096 - (p + 8) div 4096 + 1) \<le> room s1" using t e left 1(4) by simp_all
  obtain s2 where 2: "for_each map_heap_page (pages_to (align_to_page (of_nat (p + 8))) (align_to_page (of_nat ?e))) s1 = Some s2"
    "keeps lo hi {} s1 s2" "\<And>x. p + 8 \<le> x \<Longrightarrow> x \<le> ?e \<Longrightarrow> kernel_translate s2 (of_nat x) \<noteq> None"
    "room s1 \<le> room s2 + 4 * (?e div 4096 - (p + 8) div 4096 + 1)"
    by (rule map_block_pages [OF ok1(1) pages(1) e(1) pages(2,3)]) (rule that)
  have "\<forall>(q, k, u) \<in> set (xs @ split_block (start + sz) p l @ ys). read_word s2 (of_nat q) = read_word s1 (of_nat q)"
  proof clarify
    fix q k u assume q: "(q, k, u) \<in> set (xs @ split_block (start + sz) p l @ ys)"
    show "read_word s2 (of_nat q) = read_word s1 (of_nat q)"
      by (rule keepsD(4) [OF 2(2) header_in_area(1,2) [OF ok1(3,2) q] _ chain_mapped [OF ok1(4) q]]) simp
  qed
  then have "chain s2 (xs @ split_block (start + sz) p l @ ys)" using ok1(4) chain_cong by blast
  then have "heap_ok lo hi (xs @ split_block (start + sz) p l @ ys) s2" using 1(2) keepsD(1) [OF 2(2)] by (simp add: heap_ok_def)
  moreover have "keeps lo hi (of_nat ` {p..<p + 8 + l}) s s2" using keeps_trans [OF 1(3) 2(2)] by simp
  moreover have "room s \<le> room s2 + 4 * (?e div 4096 - (p + 8) div 4096 + 2)" using 1(4) 2(4) by simp
  ultimately show thesis using 1(1) 2(1,3) start(1,3) by (intro that [of s2]) (simp_all add: reserve_block_def del: of_nat_add of_nat_diff)
qed

lemma first_fit_pages:
  assumes "start < p + 8 + al" "p + 8 \<le> start" "0 < (sz :: nat)"
  shows "(start + sz - 1) div 4096 - (p + 8) div 4096 + 2 \<le> (sz + al) div 4096 + 3"
proof -
  have "start + sz - 1 \<le> (p + 8) + (sz + al)" using assms by linarith
  then have "(start + sz - 1) div 4096 \<le> ((p + 8) + (sz + al)) div 4096" by (rule div_le_mono)
  moreover have "((p + 8) + (sz + al)) div 4096 \<le> (p + 8) div 4096 + (sz + al) div 4096 + 1"
    by (simp add: div_add1_eq [of "p + 8" "sz + al"])
  ultimately show ?thesis by linarith
qed

lemma heap_alloc_first_fit:
  assumes ok: "heap_ok lo hi bs (heap_machine h)" and hd: "heap_list_head h = Some (of_nat lo)"
    and sz: "0 < sz" "0 < al" "hi + sz + al + 16 < 2 ^ 64" and left: "4 * ((sz + al) div 4096 + 3) \<le> room (heap_machine h)"
  obtains (full) "first_fit sz al bs = None" "heap_alloc (of_nat sz) (of_nat al) h = Some (0, h)"
  | (found) xs p l ys a s' where "bs = xs @ (p, l, False) # ys" "a = align_up al (p + 8)" "a + sz \<le> p + 8 + l"
    "first_fit sz al bs = Some (a, xs @ split_block (a + sz) p l @ ys)" "heap_alloc (of_nat sz) (of_nat al) h = Some (of_nat a, h\<lparr>heap_machine := s'\<rparr>)"
    "heap_ok lo hi (xs @ split_block (a + sz) p l @ ys) s'" "keeps lo hi (of_nat ` {p..<p + 8 + l}) (heap_machine h) s'"
    "\<And>x. a \<le> x \<Longrightarrow> x < a + sz \<Longrightarrow> kernel_translate s' (of_nat x) \<noteq> None"
    "room (heap_machine h) \<le> room s' + 4 * ((sz + al) div 4096 + 3)"
proof -
  note D = heap_okD [OF ok]
  have "hi + sz + al < 2 ^ 64" using sz(3) by simp
  note scan = alloc_loop_scan [OF D(3,4,6) this sz(1,2)]
  have bs: "bs \<noteq> []" using ok by (simp add: heap_ok_def)
  have alloc: "heap_alloc (of_nat sz) (of_nat al) h = do { (a, s) \<leftarrow> alloc_loop (of_nat sz) (of_nat al) (Some (of_nat lo)) (heap_machine h); Some (a, h\<lparr>heap_machine := s\<rparr>) }"
    using hd by (simp add: heap_alloc_def)
  from scan show thesis
  proof (elim disjE exE conjE)
    assume "first_fit sz al bs = None" "alloc_loop (of_nat sz) (of_nat al) (if bs = [] then None else Some (of_nat lo)) (heap_machine h) = Some (0, heap_machine h)"
    then show thesis using bs by (intro full) (simp_all add: alloc)
  next
    fix xs p l ys a assume 1: "bs = xs @ (p, l, False) # ys" "a = align_up al (p + 8)" "a + sz \<le> p + 8 + l"
      "first_fit sz al bs = Some (a, xs @ split_block (a + sz) p l @ ys)"
      and loop: "alloc_loop (of_nat sz) (of_nat al) (if bs = [] then None else Some (of_nat lo)) (heap_machine h)
        = reserve_block (of_nat p) (of_nat (p + 8)) (of_nat a) (of_nat (p + 7 + l)) (of_nat (a + sz - 1)) (heap_machine h)"
    have a: "p + 8 \<le> a" "a < p + 8 + al" using align_up_bounds [OF sz(2), of "p + 8"] by (simp_all add: 1(2))
    have hi: "hi + 16 < 2 ^ 64" using sz(3) by simp
    note pages = mult_le_mono2 [OF first_fit_pages [OF a(2,1) sz(1)], of 4]
    have room: "4 * ((a + sz - 1) div 4096 - (p + 8) div 4096 + 2) \<le> room (heap_machine h)"
      using pages left by (rule le_trans)
    obtain s' where 2: "reserve_block (of_nat p) (of_nat (p + 8)) (of_nat a) (of_nat (p + 7 + l)) (of_nat (a + sz - 1)) (heap_machine h) = Some (of_nat a, s')"
      "heap_ok lo hi (xs @ split_block (a + sz) p l @ ys) s'" "keeps lo hi (of_nat ` {p..<p + 8 + l}) (heap_machine h) s'"
      "\<And>x. a \<le> x \<Longrightarrow> x < a + sz \<Longrightarrow> kernel_translate s' (of_nat x) \<noteq> None"
      "room (heap_machine h) \<le> room s' + 4 * ((a + sz - 1) div 4096 - (p + 8) div 4096 + 2)"
      by (rule reserve_block_ok [OF ok [unfolded 1(1)] a(1) 1(3) sz(1) hi room]) (rule that)
    have "heap_alloc (of_nat sz) (of_nat al) h = Some (of_nat a, h\<lparr>heap_machine := s'\<rparr>)"
      using loop 2(1) bs by (simp add: alloc del: of_nat_add of_nat_diff)
    moreover have "room (heap_machine h) \<le> room s' + 4 * ((sz + al) div 4096 + 3)" using 2(5) pages by linarith
    ultimately show thesis using 1 2(2-4) by (intro found)
  qed
qed

subsection \<open>A new heap\<close>

lemma map_page_unmapped:
  assumes "kernel_wf s" "kernel_translate s va = None" "4 \<le> room s"
  obtains s' where "map_page s va PAGE_FLAGS = Some (Inr (), s')" "map_heap_page va s = Some s'"
proof -
  from map_page_post_holds [OF assms(1), of va PAGE_FLAGS] obtain r s' where
    r: "map_page s va PAGE_FLAGS = Some (r, s')" "map_page_post s va PAGE_FLAGS r s'" by blast
  have "r \<noteq> Inl OutOfPages" by (rule map_page_room(2) [OF assms(1) r(1) assms(3)])
  moreover have "r \<noteq> Inl PageAlreadyExists" using r(2) assms(2) by (auto simp: map_page_post_def)
  ultimately have "r = Inr ()" by (metis (full_types) map_page_error.exhaust old.sum.exhaust old.unit.exhaust)
  with r(1) show ?thesis by (intro that) (simp_all add: map_heap_page_def)
qed

lemma init_heap_ok:
  assumes wf: "kernel_wf (heap_machine h)" and area: "area_ok (align_up 8 start) (start + len)" "align_up 8 start + 8 < start + len"
    and unmapped: "\<And>va. area_page (align_up 8 start) (start + len) va \<Longrightarrow> kernel_translate (heap_machine h) va = None"
    and left: "4 \<le> room (heap_machine h)"
  obtains s where "init_heap (of_nat start) (of_nat len) h = Some (h\<lparr>heap_machine := s, heap_list_head := Some (of_nat (align_up 8 start))\<rparr>)"
    "heap_ok (align_up 8 start) (start + len) [(align_up 8 start, start + len - align_up 8 start - 8, False)] s"
    "room (heap_machine h) \<le> room s + 4" "total s = total (heap_machine h)"
proof -
  let ?lo = "align_up 8 start" and ?hi = "start + len" and ?s = "heap_machine h"
  have hi: "?lo < ?hi" "?hi < 2 ^ 64" using area(1) by (simp_all add: area_ok_def)
  have lo: "start \<le> ?lo" "?lo mod 8 = 0" using align_up_bounds [of 8 start] by simp_all
  have page: "area_page ?lo ?hi (of_nat ?lo)" "unat (of_nat ?lo :: usize) mod 8 = 0"
    using hi lo(2) by (simp_all add: area_page_nat unat_of_nat_small)
  have pages: "heap_pages ?lo ?hi ?s" using wf area(1) unmapped by (simp add: heap_pages_def)
  obtain s1 where 1: "map_page ?s (of_nat ?lo) PAGE_FLAGS = Some (Inr (), s1)" "map_heap_page (of_nat ?lo) ?s = Some s1"
    by (rule map_page_unmapped [OF wf unmapped [OF page(1)] left])
  have 2: "keeps ?lo ?hi {} ?s s1" "kernel_translate s1 (of_nat ?lo) \<noteq> None" "room ?s \<le> room s1 + 4"
    using map_heap_page_keeps [OF pages page(1) left] 1(2) by (metis option.inject)+
  let ?len = "?hi - ?lo - 8"
  obtain s2 where 3: "write_word s1 (of_nat ?lo) (block_new (of_nat ?len) False False) = Some s2" "keeps ?lo ?hi {of_nat ?lo} s1 s2"
    "read_word s2 (of_nat ?lo) = Some (block_new (of_nat ?len) False False)" "room s2 = room s1"
    using keeps_write [OF keepsD(1) [OF 2(1)] page, of "block_new (of_nat ?len) False False"] 2(2) by (auto simp: read_word_None)
  have "heap_ok ?lo ?hi [(?lo, ?len, False)] s2" using keepsD(1) [OF 3(2)] 3(3) area(2) lo(2) by (simp add: heap_ok_def)
  moreover have "next_multiple_of (of_nat start) 8 = Some (of_nat ?lo)" using next_multiple_of_nat [of 8 start] lo(1) area(2) hi by simp
  moreover have "checked_add (of_nat start :: usize) (of_nat len) = Some (of_nat ?hi)" using hi by (intro checked_add_nat) simp_all
  moreover have "checked_sub (of_nat ?hi :: usize) (of_nat ?lo) = Some (of_nat (?hi - ?lo))" using hi by (intro checked_sub_nat) simp_all
  moreover have "checked_sub (of_nat (?hi - ?lo) :: usize) size_of_block = Some (of_nat ?len)"
    using checked_sub_nat [of "?hi - ?lo" 8 ?len] hi area(2) by (simp add: size_of_block_def del: of_nat_add of_nat_diff)
  moreover have "total s2 = total ?s" using keepsD(5) [OF 2(1)] keepsD(5) [OF 3(2)] by simp
  ultimately show thesis using 1(1) 2(3) 3(1,4) by (intro that [of s2]) (simp_all add: init_heap_def del: of_nat_add of_nat_diff)
qed

text \<open>A machine with 62 free pages and an empty page table.\<close>

definition heap_machine_0 :: machine where
  "heap_machine_0 = \<lparr>PAGE_ALLOCATOR = Some \<lparr>memory_bitmap = [0xC0, 0, 0, 0, 0, 0, 0, 0], total_pages = 64, free_pages = 62, page_table = 0x1000\<rparr>,
     mem = (\<lambda>_ _. 0)\<rparr>"

lemma heap_machine_0_wf: "kernel_wf heap_machine_0" "kernel_translate heap_machine_0 va = None" "room heap_machine_0 = 62"
  "total heap_machine_0 = Some 64"
proof -
  let ?pa = "\<lparr>memory_bitmap = [0xC0, 0, 0, 0, 0, 0, 0, 0], total_pages = 64, free_pages = 62, page_table = 0x1000\<rparr> :: page_allocator"
  have root: "kernel_root ?pa = frame_of 1" unfolding kernel_root_def by (simp add: frame_of_def address_low_frame)
  have "zero_bits [0xC0, 0, 0, 0, 0, 0, 0, 0] = 62" by code_simp
  moreover have "slot_bit [0xC0, 0, 0, 0, 0, 0, 0, 0] 0" "slot_bit [0xC0, 0, 0, 0, 0, 0, 0, 0] 1" by code_simp+
  ultimately have inv: "pa_inv ?pa" "1 \<in> pa_used ?pa" by (simp_all add: pa_inv_def pa_used_def pa_slots_def used_slots_def)
  then have "pt_wf (\<lambda>_ _. 0) (kernel_root ?pa) (pa_frames ?pa)"
    unfolding root by (intro pt_wf_empty_table) (simp_all add: pa_frames_def frame_of_nonzero)
  then show "kernel_wf heap_machine_0" using inv(1) by (simp add: kernel_wf_def heap_machine_0_def)
  show "kernel_translate heap_machine_0 va = None" by (simp add: kernel_translate_def heap_machine_0_def translate_def va_path_def levels_def walk_zero_frame)
  show "room heap_machine_0 = 62" "total heap_machine_0 = Some 64" by (simp_all add: room_def total_def heap_machine_0_def)
qed

lemma new_heap_0:
  obtains h where "init_heap 0x400000 0x100000 \<lparr>heap_machine = heap_machine_0, heap_list_head = None\<rparr> = Some h"
    "heap_ok 0x400000 0x500000 [(0x400000, 0xFFFF8, False)] (heap_machine h)" "heap_list_head h = Some (of_nat 0x400000)"
    "58 \<le> room (heap_machine h)" "total (heap_machine h) = Some 64"
proof -
  let ?h = "\<lparr>heap_machine = heap_machine_0, heap_list_head = None\<rparr>"
  have up: "align_up 8 0x400000 = 0x400000" by (simp add: align_up_def)
  obtain s where "init_heap (of_nat 0x400000) (of_nat 0x100000) ?h = Some (?h\<lparr>heap_machine := s, heap_list_head := Some (of_nat 0x400000)\<rparr>)"
    "heap_ok 0x400000 0x500000 [(0x400000, 0xFFFF8, False)] s" "62 \<le> room s + 4" "total s = Some 64"
    using init_heap_ok [of ?h "0x400000" "0x100000", unfolded up] by (auto simp: heap_machine_0_wf area_ok_def)
  then show ?thesis by (intro that [of "?h\<lparr>heap_machine := s, heap_list_head := Some (of_nat 0x400000)\<rparr>"]) simp_all
qed

text \<open>Allocation where first fit is known.\<close>

lemma heap_alloc_list:
  assumes "heap_ok lo hi bs (heap_machine h)" "heap_list_head h = Some (of_nat lo)" "first_fit sz al bs = Some (a, bs')"
    "0 < sz" "0 < al" "hi + sz + al + 16 < 2 ^ 64" "4 * ((sz + al) div 4096 + 3) \<le> room (heap_machine h)"
  obtains s' where "heap_alloc (of_nat sz) (of_nat al) h = Some (of_nat a, h\<lparr>heap_machine := s'\<rparr>)" "heap_ok lo hi bs' s'"
    "total s' = total (heap_machine h)" "room (heap_machine h) \<le> room s' + 4 * ((sz + al) div 4096 + 3)"
proof (rule heap_alloc_first_fit [OF assms(1,2,4-7)])
  fix xs p l ys a1 s' assume *: "first_fit sz al bs = Some (a1, xs @ split_block (a1 + sz) p l @ ys)"
    "heap_alloc (of_nat sz) (of_nat al) h = Some (of_nat a1, h\<lparr>heap_machine := s'\<rparr>)" "heap_ok lo hi (xs @ split_block (a1 + sz) p l @ ys) s'"
    "keeps lo hi (of_nat ` {p..<p + 8 + l}) (heap_machine h) s'" "room (heap_machine h) \<le> room s' + 4 * ((sz + al) div 4096 + 3)"
  have "a1 = a" "xs @ split_block (a1 + sz) p l @ ys = bs'" using *(1) assms(3) by simp_all
  then show thesis using that [of s'] *(2,3,5) keepsD(5) [OF *(4)] by simp
qed (use assms(3) in simp)

subsection \<open>Properties\<close>

text \<open>
  C4. Allocation refines first fit. On a heap whose block headers tile the area \<open>lo..<hi\<close> and are linked in order, with four
  free pages for every page the request can touch and three more, \<^verbatim>\<open>alloc\<close> never panics and always ends: when no free block
  holds the aligned request it returns null and changes nothing; otherwise it returns the multiple of the alignment that
  first fit gives, inside of a block that was free, and the headers then tile the area as in the list that first fit
  gives. Every byte of the allocation is mapped, and neither a word of the area outside of this block nor a frame in use
  outside of the heap and the page tables changes.
\<close>

theorem heap_alloc_correct:
  assumes "heap_ok lo hi bs (heap_machine h)" "heap_list_head h = Some (of_nat lo)"
    "0 < sz" "0 < al" "hi + sz + al + 16 < 2 ^ 64" "4 * ((sz + al) div 4096 + 3) \<le> room (heap_machine h)"
  shows "case first_fit sz al bs of
      None \<Rightarrow> heap_alloc (of_nat sz) (of_nat al) h = Some (0, h)
    | Some (a, bs') \<Rightarrow> (\<exists>s' p l. heap_alloc (of_nat sz) (of_nat al) h = Some (of_nat a, h\<lparr>heap_machine := s'\<rparr>)
        \<and> heap_ok lo hi bs' s' \<and> a mod al = 0
        \<and> (p, l, False) \<in> set bs \<and> p + 8 \<le> a \<and> a + sz \<le> p + 8 + l
        \<and> (\<forall>x. a \<le> x \<longrightarrow> x < a + sz \<longrightarrow> kernel_translate s' (of_nat x) \<noteq> None)
        \<and> (\<forall>x. lo \<le> x \<longrightarrow> x < p \<or> p + 8 + l \<le> x \<longrightarrow> x < hi \<longrightarrow> x mod 8 = 0 \<longrightarrow> read_word (heap_machine h) (of_nat x) \<noteq> None
             \<longrightarrow> read_word s' (of_nat x) = read_word (heap_machine h) (of_nat x))
        \<and> (\<forall>b \<in> machine_frames (heap_machine h). b \<notin> area_frames lo hi (heap_machine h) \<longrightarrow> \<not> kernel_table (heap_machine h) b
             \<longrightarrow> mem s' b = mem (heap_machine h) b))"
proof (cases rule: heap_alloc_first_fit [OF assms])
  case 1
  then show ?thesis by simp
next
  case (2 xs p l ys a s')
  have a: "p + 8 \<le> a" "a mod al = 0" using align_up_bounds [OF assms(4), of "p + 8"] by (simp_all add: 2(2))
  have in_bs: "(p, l, False) \<in> set bs" using 2(1) by simp
  note D = heap_okD [OF assms(1)]
  have words: "read_word s' (of_nat x) = read_word (heap_machine h) (of_nat x)"
    if x: "lo \<le> x" "x < p \<or> p + 8 + l \<le> x" "x < hi" "x mod 8 = 0" "read_word (heap_machine h) (of_nat x) \<noteq> None" for x
  proof -
    have "of_nat x \<notin> (of_nat ` {p..<p + 8 + l} :: usize set)"
    proof
      assume "of_nat x \<in> (of_nat ` {p..<p + 8 + l} :: usize set)"
      then obtain n where "(of_nat x :: usize) = of_nat n" "p \<le> n" "n < p + 8 + l" by auto
      then show False using of_nat_usize_eq [of x n] x(2,3) D(5) tiles_header [OF D(3) in_bs] by simp
    qed
    then show ?thesis using x D(5) by (intro keepsD(4) [OF 2(7)]) (simp_all add: area_page_nat unat_of_nat_small)
  qed
  have frames: "mem s' b = mem (heap_machine h) b"
    if "b \<in> machine_frames (heap_machine h)" "b \<notin> area_frames lo hi (heap_machine h)" "\<not> kernel_table (heap_machine h) b" for b
    using 2(7) that unfolding keeps_def by blast
  show ?thesis unfolding 2(4) option.case prod.case
    by (rule exI [of _ s'], rule exI [of _ p], rule exI [of _ l], intro conjI allI impI ballI)
      (fact 2(5) 2(6) a(2) in_bs a(1) 2(3) | rule 2(8) words frames; assumption)+
qed

theorem heap_alloc_correct_witness:
  "\<exists>h s'. init_heap 0x400000 0x100000 \<lparr>heap_machine = heap_machine_0, heap_list_head = None\<rparr> = Some h
     \<and> heap_alloc 100 64 h = Some (0x400040, h\<lparr>heap_machine := s'\<rparr>)
     \<and> heap_ok 0x400000 0x500000 [(0x400000, 160, True), (0x4000A8, 1048400, False)] s'"
proof -
  obtain h where h: "init_heap 0x400000 0x100000 \<lparr>heap_machine = heap_machine_0, heap_list_head = None\<rparr> = Some h"
    "heap_ok 0x400000 0x500000 [(0x400000, 0xFFFF8, False)] (heap_machine h)" "heap_list_head h = Some (of_nat 0x400000)"
    "58 \<le> room (heap_machine h)" by (rule new_heap_0)
  have ff: "first_fit 100 64 [(0x400000, 0xFFFF8, False)] = Some (0x400040, [(0x400000, 160, True), (0x4000A8, 1048400, False)])"
    by (simp add: Let_def split_block_def align_up_def)
  from heap_alloc_correct [OF h(2,3), of 100 64] h(4)
  obtain s' where "heap_alloc (of_nat 100) (of_nat 64) h = Some (of_nat 0x400040, h\<lparr>heap_machine := s'\<rparr>)"
    "heap_ok 0x400000 0x500000 [(0x400000, 160, True), (0x4000A8, 1048400, False)] s'"
    unfolding ff by auto
  with h(1) show ?thesis by auto
qed

end
