(* ===== verification/Heap_Dealloc.thy ===== *)
theory Heap_Dealloc
  imports Heap_Alloc
begin

text \<open>
  Deallocation on the kernel heap: the block is marked free and merged with its free neighbours, unless the merge unmaps
  the page of a header that is still in use.
\<close>

subsection \<open>Merging with the next block\<close>

fun merge_next :: "nat \<Rightarrow> nat \<Rightarrow> block list \<Rightarrow> block list" where
  "merge_next p l ((q, k, False) # ys) = (p, l + 8 + k, False) # ys"
| "merge_next p l ys = (p, l, False) # ys"

text \<open>
  Whether a merge of the blocks at \<open>p\<close> and \<open>q\<close> unmaps a page: when both headers are on one page and the header behind
  them is on another.
\<close>

fun unmaps_header :: "nat \<Rightarrow> nat \<Rightarrow> block list \<Rightarrow> bool" where
  "unmaps_header p q ((r, _, _) # _) = (p div 4096 = q div 4096 \<and> r div 4096 \<noteq> q div 4096)"
| "unmaps_header p q [] = False"

fun forward_unmaps :: "nat \<Rightarrow> block list \<Rightarrow> bool" where
  "forward_unmaps p ((q, k, False) # ys) = unmaps_header p q ys"
| "forward_unmaps p ys = False"

lemma align_to_page_nat:
  assumes "a < 2 ^ 64" "b < 2 ^ 64"
  shows "align_to_page (of_nat a) = align_to_page (of_nat b) \<longleftrightarrow> a div 4096 = b div 4096"
  using assms by (simp add: word_unat_eq_iff unat_align_to_page unat_of_nat_small)

lemma unmaps_header_page:
  "unmaps_header p q ys \<longleftrightarrow> p div 4096 = q div 4096 \<and> ys \<noteq> [] \<and> fst (hd ys) div 4096 \<noteq> q div 4096"
  by (cases ys) auto

text \<open>The header of the first of two neighbours takes the second in.\<close>

lemma merge_pair:
  assumes ok: "heap_ok lo hi (xs @ (p, l, u) # (q, k, v) # ys) s"
  obtains s1 s2 where "update_block (of_nat p) (set_block_len (of_nat (l + 8 + k))) s = Some s1"
    "update_block (of_nat p) (set_block_has_next (ys \<noteq> [])) s1 = Some s2" "heap_ok lo hi (xs @ (p, l + 8 + k, u) # ys) s2"
    "keeps lo hi {of_nat p} s s2" "read_word s2 (of_nat q) = read_word s (of_nat q)" "room s2 = room s"
    "checked_add (of_nat l) size_of_block = Some (of_nat (l + 8))" "checked_add (of_nat (l + 8)) (of_nat k) = Some (of_nat (l + 8 + k) :: usize)"
proof -
  note D = heap_okD [OF ok]
  let ?bs = "xs @ (p, l, u) # (q, k, v) # ys"
  have in_bs: "(p, l, u) \<in> set ?bs" "(q, k, v) \<in> set ?bs" by simp_all
  note h = header_in_area [OF D(3,2) in_bs(1)] and hq = header_in_area [OF D(3,2) in_bs(2)]
  have q: "q = p + 8 + l" "p mod 8 = 0" "0 < l" "0 < k" "tiles (q + 8 + k) ys hi" "q mod 8 = 0" using D(3) by (auto simp: tiles_append)
  have hi: "q + 8 + k \<le> hi" by (rule tiles_le [OF q(5)])
  have read: "read_word s (of_nat p) = Some (block_new (of_nat l) u True)" "read_word s (of_nat q) \<noteq> None"
    using D(4) by (auto simp: chain_append)
  obtain s1 where 1: "update_block (of_nat p) (set_block_len (of_nat (l + 8 + k))) s = Some s1" "keeps lo hi {of_nat p} s s1"
    "read_word s1 (of_nat p) = Some (block_new (of_nat (l + 8 + k)) u True)" "room s1 = room s"
    using update_block_keeps [OF D(1) h(1,2) read(1), of "set_block_len (of_nat (l + 8 + k))"] by (auto simp: block_new_bits)
  obtain s2 where 2: "update_block (of_nat p) (set_block_has_next (ys \<noteq> [])) s1 = Some s2" "keeps lo hi {of_nat p} s1 s2"
    "read_word s2 (of_nat p) = Some (block_new (of_nat (l + 8 + k)) u (ys \<noteq> []))" "room s2 = room s1"
    using update_block_keeps [OF keepsD(1) [OF 1(2)] h(1,2) 1(3), of "set_block_has_next (ys \<noteq> [])"] by (auto simp: block_new_bits)
  have k: "keeps lo hi {of_nat p} s s2" using keeps_trans [OF 1(2) 2(2)] by simp
  have "heap_ok lo hi (xs @ [(p, l + 8 + k, u)] @ ys) s2"
    by (rule chain_replace [of lo hi xs "[(p, l, u), (q, k, v)]" ys s p "q + 8 + k" "{of_nat p}"])
      (use ok k q 2(3) in \<open>auto simp: Cons_eq_append_conv\<close>)
  moreover have "of_nat q \<noteq> (of_nat p :: usize)" using of_nat_usize_eq [OF hq(3) h(3)] q(1) by simp
  then have "read_word s2 (of_nat q) = read_word s (of_nat q)" using keepsD(4) [OF k hq(1,2)] read(2) by simp
  moreover have "checked_add (of_nat l) size_of_block = Some (of_nat (l + 8) :: usize)"
    using checked_add_nat [of l 8, OF refl] hi q(1) D(5) by (simp add: size_of_block_def del: of_nat_add)
  moreover have "checked_add (of_nat (l + 8)) (of_nat k) = Some (of_nat (l + 8 + k) :: usize)"
    using hi q(1) D(5) by (intro checked_add_nat) simp_all
  ultimately show thesis using 1(1,4) 2(1,4) k by (intro that [of s1 s2]) simp_all
qed

lemma get_next_block:
  assumes ok: "heap_ok lo hi (xs @ (p, l, u) # ys) s"
  shows "read_word s (of_nat p) = Some (block_new (of_nat l) u (ys \<noteq> []))" "block_len (block_new (of_nat l) u (ys \<noteq> [])) = of_nat l"
    "get_next (of_nat p) (block_new (of_nat l) u (ys \<noteq> [])) = Some (if ys = [] then None else Some (of_nat (fst (hd ys))))"
    "p < 2 ^ 64" "ys \<noteq> [] \<Longrightarrow> fst (hd ys) < 2 ^ 64"
proof -
  note D = heap_okD [OF ok]
  have t: "tiles (p + 8 + l) ys hi" "p + 8 + l \<le> hi" "lo \<le> p"
    using D(3) tiles_header [OF D(3), of p l u] by (auto simp: tiles_append)
  have l: "l < 2 ^ 62" "p + 8 + l < 2 ^ 64" using t D(5,6) by linarith+
  show "read_word s (of_nat p) = Some (block_new (of_nat l) u (ys \<noteq> []))" using D(4) by (auto simp: chain_append)
  show "block_len (block_new (of_nat l) u (ys \<noteq> [])) = of_nat l" by (rule block_len_nat [OF l(1)])
  show "p < 2 ^ 64" using l(2) by simp
  have hd: "fst (hd ys) = p + 8 + l" if "ys \<noteq> []" using that t(1) by (cases ys) auto
  then show "ys \<noteq> [] \<Longrightarrow> fst (hd ys) < 2 ^ 64" using l(2) by simp
  show "get_next (of_nat p) (block_new (of_nat l) u (ys \<noteq> [])) = Some (if ys = [] then None else Some (of_nat (fst (hd ys))))"
    using get_next_chain [OF l(2,1)] hd by simp
qed

lemma merge_forward_eq:
  assumes ok: "heap_ok lo hi (xs @ (p, l, False) # ys) s"
  obtains s' where "heap_ok lo hi (xs @ merge_next p l ys) s'" "keeps lo hi {of_nat p} s s'" "room s' = room s"
    "merge_forward (of_nat p) s = (if forward_unmaps p ys then unmap_and_free_page s' (align_to_page (of_nat p)) else Some s')"
proof -
  note N = get_next_block [OF ok]
  consider (last) "ys = []" | (used) q k zs where "ys = (q, k, True) # zs" | (free) q k zs where "ys = (q, k, False) # zs"
    by (metis (full_types) neq_Nil_conv prod_cases3)
  then show thesis
  proof cases
    case last
    then show thesis using ok N keeps_refl [OF heap_okD(1) [OF ok]] by (intro that [of s]) (simp_all add: merge_forward_def Let_def)
  next
    case (used q k zs)
    have "read_word s (of_nat q) = Some (block_new (of_nat k) True (zs \<noteq> []))"
      using get_next_block(1) [of lo hi "xs @ [(p, l, False)]" q k True zs s] ok used by simp
    then show thesis using ok N used keeps_refl [OF heap_okD(1) [OF ok]]
      by (intro that [of s]) (simp_all add: merge_forward_def Let_def block_new_bits)
  next
    case (free q k zs)
    have ok': "heap_ok lo hi ((xs @ [(p, l, False)]) @ (q, k, False) # zs) s" using ok free by simp
    note Q = get_next_block [OF ok']
    obtain s1 s2 where m: "update_block (of_nat p) (set_block_len (of_nat (l + 8 + k))) s = Some s1"
      "update_block (of_nat p) (set_block_has_next (zs \<noteq> [])) s1 = Some s2" "heap_ok lo hi (xs @ (p, l + 8 + k, False) # zs) s2"
      "keeps lo hi {of_nat p} s s2" "read_word s2 (of_nat q) = read_word s (of_nat q)" "room s2 = room s"
      "checked_add (of_nat l) size_of_block = Some (of_nat (l + 8) :: usize)" "checked_add (of_nat (l + 8)) (of_nat k) = Some (of_nat (l + 8 + k) :: usize)"
      by (rule merge_pair [OF ok [unfolded free]])
    have "merge_forward (of_nat p) s = (if align_to_page (of_nat p) \<noteq> align_to_page (of_nat q) then Some s2
        else if zs = [] then Some s2 else if align_to_page (of_nat (fst (hd zs))) \<noteq> align_to_page (of_nat q)
        then unmap_and_free_page s2 (align_to_page (of_nat q)) else Some s2)"
      using N(1-3) Q(1-3) m by (simp add: merge_forward_def Let_def free block_new_bits del: of_nat_add)
    then have "merge_forward (of_nat p) s = (if forward_unmaps p ys then unmap_and_free_page s2 (align_to_page (of_nat p)) else Some s2)"
      using N(4) Q(4,5) align_to_page_nat [of p q] align_to_page_nat [of "fst (hd zs)" q] by (auto simp: free unmaps_header_page)
    then show thesis using m(3,4,6) by (intro that [of s2]) (simp_all add: free)
  qed
qed

subsection \<open>Merging with the previous block\<close>

fun merge_prev :: "block list \<Rightarrow> block list \<Rightarrow> block list" where
  "merge_prev [] bs = bs"
| "merge_prev [x] [] = [x]"
| "merge_prev [(q, k, u)] ((p, l, v) # ys) = (if u then (q, k, u) # (p, l, v) # ys else (q, k + 8 + l, u) # ys)"
| "merge_prev (x # y # xs) bs = x # merge_prev (y # xs) bs"

fun backward_unmaps :: "block list \<Rightarrow> block list \<Rightarrow> bool" where
  "backward_unmaps [] bs = False"
| "backward_unmaps [x] [] = False"
| "backward_unmaps [(q, k, u)] ((p, l, v) # ys) = (\<not> u \<and> unmaps_header q p ys)"
| "backward_unmaps (x # y # xs) bs = backward_unmaps (y # xs) bs"

lemma prev_snoc:
  "merge_prev (zs @ [(q, k, u)]) ((p, l, v) # ys) = zs @ (if u then (q, k, u) # (p, l, v) # ys else (q, k + 8 + l, u) # ys)"
  "backward_unmaps (zs @ [(q, k, u)]) ((p, l, v) # ys) \<longleftrightarrow> \<not> u \<and> unmaps_header q p ys"
proof -
  have 1: "merge_prev (x # zs @ [(q, k, u)]) ((p, l, v) # ys) = x # merge_prev (zs @ [(q, k, u)]) ((p, l, v) # ys)"
    "backward_unmaps (x # zs @ [(q, k, u)]) ((p, l, v) # ys) = backward_unmaps (zs @ [(q, k, u)]) ((p, l, v) # ys)" for x zs
    by (cases zs; simp)+
  show "merge_prev (zs @ [(q, k, u)]) ((p, l, v) # ys) = zs @ (if u then (q, k, u) # (p, l, v) # ys else (q, k + 8 + l, u) # ys)"
    by (induction zs) (simp_all add: 1)
  show "backward_unmaps (zs @ [(q, k, u)]) ((p, l, v) # ys) \<longleftrightarrow> \<not> u \<and> unmaps_header q p ys"
    by (induction zs) (simp_all add: 1)
qed

lemma merge_backward_eq:
  assumes ok: "heap_ok lo hi (zs @ (q, k, u) # (p, l, False) # ys) s"
  obtains s' where "heap_ok lo hi (merge_prev (zs @ [(q, k, u)]) ((p, l, False) # ys)) s'" "keeps lo hi {of_nat q} s s'" "room s' = room s"
    "merge_backward (Some (of_nat q)) (of_nat p) s =
       (if backward_unmaps (zs @ [(q, k, u)]) ((p, l, False) # ys) then unmap_and_free_page s' (align_to_page (of_nat p)) else Some s')"
proof -
  note Q = get_next_block [OF ok]
  have ok': "heap_ok lo hi ((zs @ [(q, k, u)]) @ (p, l, False) # ys) s" using ok by simp
  note P = get_next_block [OF ok']
  show thesis
  proof (cases u)
    case True
    then show thesis using ok Q keeps_refl [OF heap_okD(1) [OF ok]]
      by (intro that [of s]) (simp_all add: merge_backward_def Let_def prev_snoc block_new_bits)
  next
    case False
    obtain s1 s2 where m: "update_block (of_nat q) (set_block_len (of_nat (k + 8 + l))) s = Some s1"
      "update_block (of_nat q) (set_block_has_next (ys \<noteq> [])) s1 = Some s2" "heap_ok lo hi (zs @ (q, k + 8 + l, u) # ys) s2"
      "keeps lo hi {of_nat q} s s2" "read_word s2 (of_nat p) = read_word s (of_nat p)" "room s2 = room s"
      "checked_add (of_nat k) size_of_block = Some (of_nat (k + 8) :: usize)" "checked_add (of_nat (k + 8)) (of_nat l) = Some (of_nat (k + 8 + l) :: usize)"
      by (rule merge_pair [OF ok])
    have "merge_backward (Some (of_nat q)) (of_nat p) s = (if align_to_page (of_nat q) \<noteq> align_to_page (of_nat p) then Some s2
        else if ys = [] then Some s2 else if align_to_page (of_nat (fst (hd ys))) \<noteq> align_to_page (of_nat p)
        then unmap_and_free_page s2 (align_to_page (of_nat p)) else Some s2)"
      using Q(1,2) P(1-3) m False by (simp add: merge_backward_def Let_def block_new_bits del: of_nat_add)
    then have "merge_backward (Some (of_nat q)) (of_nat p) s =
        (if backward_unmaps (zs @ [(q, k, u)]) ((p, l, False) # ys) then unmap_and_free_page s2 (align_to_page (of_nat p)) else Some s2)"
      using Q(4) P(4,5) False align_to_page_nat [of q p] align_to_page_nat [of "fst (hd ys)" p] by (auto simp: prev_snoc unmaps_header_page)
    then show thesis using m(3,4,6) False by (intro that [of s2]) (simp_all add: prev_snoc)
  qed
qed

subsection \<open>Releasing a block\<close>

text \<open>
  \<^verbatim>\<open>free_page\<close> takes a physical address; the pages of a heap above the physical memory are out of its range, and it does nothing.
\<close>

definition above_memory :: "nat \<Rightarrow> machine \<Rightarrow> bool" where
  "above_memory lo s = (case total s of None \<Rightarrow> False | Some n \<Rightarrow> unat n \<le> lo div 4096)"

lemma free_page_above:
  assumes "above_memory lo s" "lo \<le> unat va"
  shows "free_page s va = Some s"
proof -
  from assms(1) obtain pa where pa: "PAGE_ALLOCATOR s = Some pa" "unat (total_pages pa) \<le> lo div 4096"
    by (auto simp: above_memory_def total_def split: option.splits)
  have n: "unat va div 32768 * 8 + unat va div 4096 mod 8 = unat va div 4096"
    using div_mult_mod_eq [of "unat va div 4096" 8] by (simp add: div_mult2_eq [symmetric])
  have b: "unat (va div BYTE_RATIO) = unat va div 32768" "unat (va div PAGE_SIZE mod 8) = unat va div 4096 mod 8"
    by (simp_all add: BYTE_RATIO_def PAGE_SIZE_def unat_div unat_mod)
  have lt: "unat va div 4096 < 2 ^ 64" by (rule le_less_trans [OF div_le_dividend]) (use unsigned_less [of va] in simp)
  obtain bits where 1: "checked_mul (va div BYTE_RATIO) 8 = Some bits" "unat bits = unat va div 32768 * 8"
  proof (rule that)
    show "checked_mul (va div BYTE_RATIO) 8 = Some (of_nat (unat va div 32768 * 8))"
      unfolding checked_mul_Some b using n lt by (subst unat_of_nat_small) simp_all
    show "unat (of_nat (unat va div 32768 * 8) :: usize) = unat va div 32768 * 8" using n lt by (intro unat_of_nat_small) simp
  qed
  have "checked_add bits (va div PAGE_SIZE mod 8) = Some (of_nat (unat va div 4096))"
    unfolding checked_add_Some b 1(2) n using lt by (simp add: unat_of_nat_small)
  moreover have "total_pages pa \<le> of_nat (unat va div 4096)"
    using pa(2) assms(2) lt div_le_mono [OF assms(2), of 4096] by (simp add: word_le_nat_alt unat_of_nat_small)
  ultimately have "pai_free_page pa va = Some pa" using 1(1) by (simp add: pai_free_page_def Let_def)
  then show ?thesis by (simp add: free_page_def pa(1))
qed

lemma pages_before_ge: "va \<in> set (pages_before a b) \<Longrightarrow> unat a \<le> unat va"
proof -
  assume "va \<in> set (pages_before a b)"
  then obtain i where i: "va = a + of_nat (4096 * i)" "a < b" "i \<le> (unat b - unat a - 1) div 4096"
    by (auto simp: pages_before_def split: if_splits)
  have "4096 * i \<le> unat b - unat a - 1" using i(3) by (simp add: less_eq_div_iff_mult_less_eq)
  then have lt: "unat a + 4096 * i < unat b" using i(2) by (simp add: word_less_nat_alt)
  moreover have "unat b < 2 ^ 64" using unsigned_less [of b] by simp
  ultimately have u: "unat (of_nat (4096 * i) :: usize) = 4096 * i" by (intro unat_of_nat_small) simp
  have "unat va = unat a + 4096 * i" unfolding i(1)
    using lt \<open>unat b < 2 ^ 64\<close> by (subst unat_add_small) (simp_all only: u, simp)
  then show ?thesis by simp
qed

lemma for_each_same: "(\<And>x. x \<in> set xs \<Longrightarrow> f x s = Some s) \<Longrightarrow> for_each f xs s = Some s"
  by (induction xs) simp_all

text \<open>The block becomes free; the pages between its ends keep mapped.\<close>

lemma release_marks:
  assumes ok: "heap_ok lo hi (xs @ (p, l, True) # ys) s" and hi: "hi + 4096 < 2 ^ 64" and above: "above_memory lo s"
  obtains s' where "heap_ok lo hi (xs @ (p, l, False) # ys) s'" "keeps lo hi {of_nat p} s s'" "room s' = room s"
    "release_block prev (of_nat p) (of_nat (p + 8)) (of_nat (p + 7 + l)) s = do { s \<leftarrow> merge_forward (of_nat p) s'; merge_backward prev (of_nat p) s }"
proof -
  note D = heap_okD [OF ok] and N = get_next_block [OF ok]
  have in_bs: "(p, l, True) \<in> set (xs @ (p, l, True) # ys)" by simp
  note h = header_in_area [OF D(3,2) in_bs] and t = tiles_header [OF D(3) in_bs]
  obtain s1 where 1: "update_block (of_nat p) (set_block_used False) s = Some s1" "keeps lo hi {of_nat p} s s1"
    "read_word s1 (of_nat p) = Some (block_new (of_nat l) False (ys \<noteq> []))" "room s1 = room s"
    using update_block_keeps [OF D(1) h(1,2) N(1), of "set_block_used False"] by (auto simp: block_new_bits)
  have ok1: "heap_ok lo hi (xs @ [(p, l, False)] @ ys) s1"
    by (rule chain_replace [of lo hi xs "[(p, l, True)]" ys s p "p + 8 + l" "{of_nat p}"])
      (use ok 1(2,3) t in \<open>auto simp: Cons_eq_append_conv\<close>)
  have above1: "above_memory lo s1" using above keepsD(5) [OF 1(2)] by (simp add: above_memory_def)
  have next_page: "next_multiple_of (of_nat (p + 8)) PAGE_SIZE = Some (of_nat (align_up 4096 (p + 8)))"
    using next_multiple_of_nat [of 4096 "p + 8"] t hi by (simp add: PAGE_SIZE_def)
  have "for_each (\<lambda>page s. free_page s page) (pages_before (of_nat (align_up 4096 (p + 8))) (align_to_page (of_nat (p + 7 + l)))) s1 = Some s1"
  proof (rule for_each_same, rule free_page_above [OF above1])
    fix va assume "va \<in> set (pages_before (of_nat (align_up 4096 (p + 8))) (align_to_page (of_nat (p + 7 + l))))"
    then have "unat (of_nat (align_up 4096 (p + 8)) :: usize) \<le> unat va" by (rule pages_before_ge)
    moreover have "unat (of_nat (align_up 4096 (p + 8)) :: usize) = align_up 4096 (p + 8)"
      using align_up_bounds(2) [of 4096 "p + 8"] t hi by (intro unat_of_nat_small) simp
    ultimately show "lo \<le> unat va" using align_up_bounds(1) [of 4096 "p + 8"] t by simp
  qed
  then have "release_block prev (of_nat p) (of_nat (p + 8)) (of_nat (p + 7 + l)) s = do { s \<leftarrow> merge_forward (of_nat p) s1; merge_backward prev (of_nat p) s }"
    using N(1) 1(1) next_page by (simp add: release_block_def Let_def block_new_bits del: of_nat_add)
  then show thesis using ok1 1(2,4) by (intro that [of s1]) simp_all
qed

lemma dealloc_loop_step:
  assumes "read_word s (of_nat q) = Some (block_new (of_nat k) v h)" "q + 8 + k < 2 ^ 64" "0 < k" "k < 2 ^ 62" "a < 2 ^ 64"
  shows "dealloc_loop (of_nat a) prev (Some (of_nat q)) s =
    (if q + 8 \<le> a \<and> a < q + 8 + k then release_block prev (of_nat q) (of_nat (q + 8)) (of_nat (q + 7 + k)) s
     else dealloc_loop (of_nat a) (Some (of_nat q)) (if h then Some (of_nat (q + 8 + k)) else None) s)"
proof -
  have "block_start_address (of_nat q) = Some (of_nat (q + 8))"
    using checked_add_nat [of q 8, OF refl] assms(2) by (simp add: block_start_address_def size_of_block_def del: of_nat_add)
  moreover have "checked_sub (of_nat k :: usize) 1 = Some (of_nat (k - 1))"
    using checked_sub_nat [of k 1 "k - 1"] assms(2,3) by (simp del: of_nat_diff)
  moreover have "checked_add (of_nat (q + 8) :: usize) (of_nat (k - 1)) = Some (of_nat (q + 7 + k))"
    using assms(2,3) by (intro checked_add_nat) simp_all
  moreover have "(of_nat (q + 8) :: usize) \<le> of_nat a \<longleftrightarrow> q + 8 \<le> a" "(of_nat a :: usize) \<le> of_nat (q + 7 + k) \<longleftrightarrow> a < q + 8 + k"
    using assms(2,5) by (auto simp: word_le_nat_alt unat_of_nat_small simp del: of_nat_add)
  ultimately show ?thesis
    using assms(1) by (subst dealloc_loop.simps) (simp add: get_next_chain [OF assms(2,4)] block_len_nat [OF assms(4)] del: of_nat_add of_nat_diff)
qed

lemma dealloc_loop_scan:
  assumes "tiles m (xs @ (p, l, u) # ys) hi" "chain s (xs @ (p, l, u) # ys)" "hi < 2 ^ 62 + m" "hi < 2 ^ 64" "p + 8 \<le> a" "a < p + 8 + l"
  shows "dealloc_loop (of_nat a) prev (Some (of_nat m)) s =
    release_block (if xs = [] then prev else Some (of_nat (fst (last xs)))) (of_nat p) (of_nat (p + 8)) (of_nat (p + 7 + l)) s"
  using assms(1-3)
proof (induction xs arbitrary: m prev)
  case Nil
  then have "p = m" "0 < l" "p + 8 + l \<le> hi" using tiles_le [of "p + 8 + l" ys hi] by auto
  then show ?case using Nil assms(4-6) dealloc_loop_step [of s p l u "ys \<noteq> []" a prev] by (simp del: of_nat_add)
next
  case (Cons x xs)
  obtain q k v where x: "x = (q, k, v)" by (cases x) auto
  have t: "q = m" "0 < k" "tiles (q + 8 + k) (xs @ (p, l, u) # ys) hi" "chain s (xs @ (p, l, u) # ys)"
    "read_word s (of_nat q) = Some (block_new (of_nat k) v True)" using Cons.prems by (auto simp: x)
  have p: "q + 8 + k \<le> p" "p + 8 + l \<le> hi" using tiles_header [OF t(3), of p l u] by auto
  have "dealloc_loop (of_nat a) prev (Some (of_nat q)) s = dealloc_loop (of_nat a) (Some (of_nat q)) (Some (of_nat (q + 8 + k))) s"
    using dealloc_loop_step [OF t(5), of a prev] t(1,2) p assms(4-6) Cons.prems(3) by (simp del: of_nat_add)
  also have "\<dots> = release_block (if xs = [] then Some (of_nat q) else Some (of_nat (fst (last xs)))) (of_nat p) (of_nat (p + 8)) (of_nat (p + 7 + l)) s"
    using Cons.IH [OF t(3,4), of "Some (of_nat q)"] Cons.prems(3) t(1) by simp
  finally show ?case using t(1) by (simp add: x)
qed

lemma heap_dealloc_scan:
  assumes ok: "heap_ok lo hi (xs @ (p, l, True) # ys) (heap_machine h)" and hd: "heap_list_head h = Some (of_nat lo)"
    and hi: "hi + 4096 < 2 ^ 64" and above: "above_memory lo (heap_machine h)" and a: "p + 8 \<le> a" "a < p + 8 + l"
  obtains s where "heap_ok lo hi (xs @ (p, l, False) # ys) s" "keeps lo hi {of_nat p} (heap_machine h) s" "room s = room (heap_machine h)"
    "heap_dealloc (of_nat a) h = do { s \<leftarrow> merge_forward (of_nat p) s;
       s \<leftarrow> merge_backward (if xs = [] then None else Some (of_nat (fst (last xs)))) (of_nat p) s; Some (h\<lparr>heap_machine := s\<rparr>) }"
proof -
  note D = heap_okD [OF ok]
  let ?prev = "if xs = [] then None else Some (of_nat (fst (last xs))) :: usize option"
  obtain s where s: "heap_ok lo hi (xs @ (p, l, False) # ys) s" "keeps lo hi {of_nat p} (heap_machine h) s" "room s = room (heap_machine h)"
    "release_block ?prev (of_nat p) (of_nat (p + 8)) (of_nat (p + 7 + l)) (heap_machine h) = do { s \<leftarrow> merge_forward (of_nat p) s; merge_backward ?prev (of_nat p) s }"
    by (rule release_marks [OF ok hi above])
  have "heap_dealloc (of_nat a) h = do { s \<leftarrow> merge_forward (of_nat p) s; s \<leftarrow> merge_backward ?prev (of_nat p) s; Some (h\<lparr>heap_machine := s\<rparr>) }"
    using dealloc_loop_scan [OF D(3,4,6,5) a, of None] s(4) hd by (simp add: heap_dealloc_def del: of_nat_add)
  then show thesis by (rule that [OF s(1-3)])
qed

lemma merge_next_head: "\<exists>l' ys'. merge_next p l ys = (p, l', False) # ys'"
  by (cases "(p, l, ys)" rule: merge_next.cases) auto

lemma heap_dealloc_merges:
  assumes ok: "heap_ok lo hi (xs @ (p, l, True) # ys) (heap_machine h)" and hd: "heap_list_head h = Some (of_nat lo)"
    and hi: "hi + 4096 < 2 ^ 64" and above: "above_memory lo (heap_machine h)" and a: "p + 8 \<le> a" "a < p + 8 + l"
    and stay: "\<not> forward_unmaps p ys" "\<not> backward_unmaps xs (merge_next p l ys)"
  obtains s' where "heap_dealloc (of_nat a) h = Some (h\<lparr>heap_machine := s'\<rparr>)" "heap_ok lo hi (merge_prev xs (merge_next p l ys)) s'"
    "keeps lo hi (of_nat ` insert p (fst ` set xs)) (heap_machine h) s'" "room s' = room (heap_machine h)"
proof -
  let ?X = "of_nat ` insert p (fst ` set xs) :: usize set"
  obtain s where s: "heap_ok lo hi (xs @ (p, l, False) # ys) s" "keeps lo hi {of_nat p} (heap_machine h) s" "room s = room (heap_machine h)"
    "heap_dealloc (of_nat a) h = do { s \<leftarrow> merge_forward (of_nat p) s;
       s \<leftarrow> merge_backward (if xs = [] then None else Some (of_nat (fst (last xs)))) (of_nat p) s; Some (h\<lparr>heap_machine := s\<rparr>) }"
    by (rule heap_dealloc_scan [OF ok hd hi above a])
  obtain s1 where 1: "heap_ok lo hi (xs @ merge_next p l ys) s1" "keeps lo hi {of_nat p} s s1" "room s1 = room s" "merge_forward (of_nat p) s = Some s1"
    by (rule merge_forward_eq [OF s(1)]) (use stay(1) in auto)
  have k1: "keeps lo hi {of_nat p} (heap_machine h) s1" using keeps_trans [OF s(2) 1(2)] by simp
  obtain l' ys' where m: "merge_next p l ys = (p, l', False) # ys'" using merge_next_head by blast
  show thesis
  proof (cases xs rule: rev_cases)
    case Nil
    then have "heap_dealloc (of_nat a) h = Some (h\<lparr>heap_machine := s1\<rparr>)" by (simp add: s(4) 1(4) merge_backward_def)
    then show thesis using 1(1,3) s(3) k1 Nil by (intro that [of s1]) simp_all
  next
    case (snoc zs x)
    obtain q k u where x: "x = (q, k, u)" by (cases x) auto
    have ok1: "heap_ok lo hi (zs @ (q, k, u) # (p, l', False) # ys') s1" using 1(1) by (simp add: snoc x m)
    obtain s2 where 2: "heap_ok lo hi (merge_prev xs (merge_next p l ys)) s2" "keeps lo hi {of_nat q} s1 s2" "room s2 = room s1"
      "merge_backward (Some (of_nat q)) (of_nat p) s1 = Some s2"
      by (rule merge_backward_eq [OF ok1]) (use stay(2) in \<open>auto simp: snoc x m\<close>)
    have "heap_dealloc (of_nat a) h = Some (h\<lparr>heap_machine := s2\<rparr>)" using 2(4) by (simp add: s(4) 1(4) snoc x)
    moreover have "keeps lo hi ?X (heap_machine h) s2"
      by (rule keeps_mono [OF keeps_trans [OF k1 2(2)]]) (auto simp: snoc x)
    ultimately show thesis using 2(1,3) 1(3) s(3) by (intro that [of s2]) simp_all
  qed
qed

subsection \<open>Properties\<close>

text \<open>
  C7. \<^verbatim>\<open>dealloc\<close> of an address in a block in use of a heap above the physical memory marks the block free and merges it
  with the free blocks before and behind it, when no merge unmaps a page (both headers on one page and the header behind
  them on another). The headers then tile the area as in the merged list, no word of the area but headers and no other
  frame in use changes, and no physical page is given back.
\<close>

theorem heap_dealloc_correct:
  assumes "heap_ok lo hi (xs @ (p, l, True) # ys) (heap_machine h)" "heap_list_head h = Some (of_nat lo)"
    "hi + 4096 < 2 ^ 64" "above_memory lo (heap_machine h)" "p + 8 \<le> a" "a < p + 8 + l"
    "\<not> forward_unmaps p ys" "\<not> backward_unmaps xs (merge_next p l ys)"
  shows "\<exists>s'. heap_dealloc (of_nat a) h = Some (h\<lparr>heap_machine := s'\<rparr>) \<and> heap_ok lo hi (merge_prev xs (merge_next p l ys)) s'
    \<and> room s' = room (heap_machine h)
    \<and> (\<forall>va. area_page lo hi va \<longrightarrow> unat va mod 8 = 0 \<longrightarrow> va \<notin> of_nat ` insert p (fst ` set xs) \<longrightarrow> read_word (heap_machine h) va \<noteq> None
         \<longrightarrow> read_word s' va = read_word (heap_machine h) va)
    \<and> (\<forall>b \<in> machine_frames (heap_machine h). b \<notin> area_frames lo hi (heap_machine h) \<longrightarrow> \<not> kernel_table (heap_machine h) b
         \<longrightarrow> mem s' b = mem (heap_machine h) b)"
proof -
  obtain s' where s': "heap_dealloc (of_nat a) h = Some (h\<lparr>heap_machine := s'\<rparr>)" "heap_ok lo hi (merge_prev xs (merge_next p l ys)) s'"
    "keeps lo hi (of_nat ` insert p (fst ` set xs)) (heap_machine h) s'" "room s' = room (heap_machine h)"
    by (rule heap_dealloc_merges [OF assms])
  have "mem s' b = mem (heap_machine h) b"
    if "b \<in> machine_frames (heap_machine h)" "b \<notin> area_frames lo hi (heap_machine h)" "\<not> kernel_table (heap_machine h) b" for b
    using s'(3) that unfolding keeps_def by blast
  then show ?thesis using s'(1,2,4) keepsD(4) [OF s'(3)] by blast
qed

theorem heap_dealloc_correct_witness:
  "\<exists>h s1 s2. init_heap 0x400000 0x100000 \<lparr>heap_machine = heap_machine_0, heap_list_head = None\<rparr> = Some h
     \<and> heap_alloc 100 64 h = Some (0x400040, h\<lparr>heap_machine := s1\<rparr>)
     \<and> heap_dealloc 0x400040 (h\<lparr>heap_machine := s1\<rparr>) = Some (h\<lparr>heap_machine := s2\<rparr>)
     \<and> heap_ok 0x400000 0x500000 [(0x400000, 0xFFFF8, False)] s2"
proof -
  obtain h where h: "init_heap 0x400000 0x100000 \<lparr>heap_machine = heap_machine_0, heap_list_head = None\<rparr> = Some h"
    "heap_ok 0x400000 0x500000 [(0x400000, 0xFFFF8, False)] (heap_machine h)" "heap_list_head h = Some (of_nat 0x400000)"
    "58 \<le> room (heap_machine h)" "total (heap_machine h) = Some 64" by (rule new_heap_0)
  have "first_fit 100 64 [(0x400000, 0xFFFF8, False)] = Some (0x400040, [(0x400000, 160, True), (0x4000A8, 1048400, False)])"
    by (simp add: Let_def split_block_def align_up_def)
  from heap_alloc_list [OF h(2,3) this] h(4) obtain s1 where
    1: "heap_alloc (of_nat 100) (of_nat 64) h = Some (of_nat 0x400040, h\<lparr>heap_machine := s1\<rparr>)"
      "heap_ok 0x400000 0x500000 [(0x400000, 160, True), (0x4000A8, 1048400, False)] s1" "total s1 = Some 64" unfolding h(5) by auto
  from heap_dealloc_correct [of "0x400000" "0x500000" "[]" "0x400000" 160 "[(0x4000A8, 1048400, False)]" "h\<lparr>heap_machine := s1\<rparr>" "0x400040"] 1(2,3) h(3)
  have "\<exists>s2. heap_dealloc (of_nat 0x400040) (h\<lparr>heap_machine := s1\<rparr>) = Some (h\<lparr>heap_machine := s2\<rparr>)
      \<and> heap_ok 0x400000 0x500000 [(0x400000, 0xFFFF8, False)] s2" by (auto simp: above_memory_def)
  with h(1) 1(1) show ?thesis by auto
qed

text \<open>
  C35. When the first block of the heap is released, the block behind it is free with its header on the same page, and the
  header behind that is on another page, then \<^verbatim>\<open>dealloc\<close> unmaps the page that holds the head of the list: every later
  allocation and deallocation runs into a page fault.
\<close>

theorem heap_dealloc_unmaps_head:
  assumes "heap_ok lo hi ((lo, l, True) # ys) (heap_machine h)" "heap_list_head h = Some (of_nat lo)"
    "hi + 4096 < 2 ^ 64" "above_memory lo (heap_machine h)" "lo + 8 \<le> a" "a < lo + 8 + l" "forward_unmaps lo ys"
  shows "\<exists>h'. heap_dealloc (of_nat a) h = Some h' \<and> heap_alloc sz al h' = None \<and> heap_dealloc ptr h' = None"
proof -
  obtain s where s: "heap_ok lo hi ([] @ (lo, l, False) # ys) s"
    "heap_dealloc (of_nat a) h = do { s \<leftarrow> merge_forward (of_nat lo) s; s \<leftarrow> merge_backward None (of_nat lo) s; Some (h\<lparr>heap_machine := s\<rparr>) }"
    using heap_dealloc_scan [of lo hi "[]" lo l ys h a] assms by auto
  obtain s1 where 1: "heap_ok lo hi ([] @ merge_next lo l ys) s1" "merge_forward (of_nat lo) s = unmap_and_free_page s1 (align_to_page (of_nat lo))"
    by (rule merge_forward_eq [OF s(1)]) (use assms(7) in auto)
  note D = heap_okD [OF 1(1)]
  have lo: "lo < 2 ^ 64" "area_page lo hi (of_nat lo)" using heap_pagesD(2) [OF D(1)] by (auto simp: area_ok_def intro: area_page_nat)
  have page: "unat (align_to_page (of_nat lo)) div 4096 = unat (of_nat lo :: usize) div 4096"
    by (simp add: unat_align_to_page)
  then have ap: "area_page lo hi (align_to_page (of_nat lo))" using lo(2) by (simp add: area_page_def)
  obtain l' ys' where "merge_next lo l ys = (lo, l', False) # ys'" using merge_next_head by blast
  then have "read_word s1 (of_nat lo) \<noteq> None" using D(4) by simp
  then obtain f where f: "kernel_translate s1 (align_to_page (of_nat lo)) = Some f"
    using kernel_translate_page [OF page, of s1] by (auto simp: read_word_None)
  obtain s2 where 2: "unmap_and_free_page s1 (align_to_page (of_nat lo)) = Some s2"
    "\<And>va'. kernel_translate s2 va' = (if va_path va' = va_path (align_to_page (of_nat lo)) then None else kernel_translate s1 va')"
    using unmap_and_free_page_mapped [OF heap_pagesD(1) [OF D(1)] f] heap_pagesD(3) [OF D(1) ap f] by metis
  have "read_word s2 (of_nat lo) = None" using 2(2) [of "of_nat lo"] va_path_page [OF page [symmetric]] by (simp add: read_word_None)
  then have "heap_alloc sz al (h\<lparr>heap_machine := s2\<rparr>) = None" "heap_dealloc ptr (h\<lparr>heap_machine := s2\<rparr>) = None"
    using assms(2) by (simp_all add: heap_alloc_def heap_dealloc_def alloc_loop.simps dealloc_loop.simps)
  then show ?thesis using s(2) 1(2) 2(1) by (simp add: merge_backward_def)
qed

text \<open>Allocating and releasing on a machine where all is known.\<close>

lemma heap_dealloc_list:
  assumes "heap_ok lo hi (xs @ (p, l, True) # ys) s" "heap_list_head h = Some (of_nat lo)"
    "hi + 4096 < 2 ^ 64" "above_memory lo s" "p + 8 \<le> a" "a < p + 8 + l"
    "\<not> forward_unmaps p ys" "\<not> backward_unmaps xs (merge_next p l ys)"
  obtains s' where "heap_dealloc (of_nat a) (h\<lparr>heap_machine := s\<rparr>) = Some (h\<lparr>heap_machine := s'\<rparr>)"
    "heap_ok lo hi (merge_prev xs (merge_next p l ys)) s'" "total s' = total s"
proof -
  obtain s' where "heap_dealloc (of_nat a) (h\<lparr>heap_machine := s\<rparr>) = Some (h\<lparr>heap_machine := s\<rparr>\<lparr>heap_machine := s'\<rparr>)"
    "heap_ok lo hi (merge_prev xs (merge_next p l ys)) s'"
    "keeps lo hi (of_nat ` insert p (fst ` set xs)) (heap_machine (h\<lparr>heap_machine := s\<rparr>)) s'"
    by (rule heap_dealloc_merges [of lo hi xs p l ys "h\<lparr>heap_machine := s\<rparr>" a]) (use assms in simp_all)
  then show thesis using keepsD(5) by (intro that [of s']) fastforce+
qed

theorem heap_dealloc_unmaps_head_witness:
  "\<exists>h h1 h2 h3 h4 h5. init_heap 0x400000 0x100000 \<lparr>heap_machine = heap_machine_0, heap_list_head = None\<rparr> = Some h
     \<and> heap_alloc 64 8 h = Some (0x400008, h1) \<and> heap_alloc 4096 8 h1 = Some (0x400050, h2) \<and> heap_alloc 64 8 h2 = Some (0x401058, h3)
     \<and> heap_dealloc 0x400050 h3 = Some h4 \<and> heap_dealloc 0x400008 h4 = Some h5 \<and> heap_alloc 1 1 h5 = None"
proof -
  obtain h where h: "init_heap 0x400000 0x100000 \<lparr>heap_machine = heap_machine_0, heap_list_head = None\<rparr> = Some h"
    "heap_ok 0x400000 0x500000 [(0x400000, 0xFFFF8, False)] (heap_machine h)" "heap_list_head h = Some (of_nat 0x400000)"
    "58 \<le> room (heap_machine h)" "total (heap_machine h) = Some 64" by (rule new_heap_0)
  let ?h = "\<lambda>s. h\<lparr>heap_machine := s\<rparr>"
  have f1: "first_fit 64 8 [(0x400000, 0xFFFF8, False)] = Some (0x400008, [(0x400000, 64, True), (0x400048, 0xFFFB0, False)])"
    by (simp add: Let_def split_block_def align_up_def)
  have r1: "4 * ((64 + 8) div 4096 + 3) \<le> room (heap_machine h)" using h(4) by simp
  obtain s1 where 1: "heap_alloc (of_nat 64) (of_nat 8) h = Some (of_nat 0x400008, ?h s1)"
    "heap_ok 0x400000 0x500000 [(0x400000, 64, True), (0x400048, 0xFFFB0, False)] s1" "total s1 = total (heap_machine h)"
    "room (heap_machine h) \<le> room s1 + 4 * ((64 + 8) div 4096 + 3)"
    by (rule heap_alloc_list [OF h(2,3) f1 _ _ _ r1]) (simp, simp, simp)
  have hd: "heap_list_head (?h s) = Some (of_nat 0x400000)" for s using h(3) by simp
  have f2: "first_fit 4096 8 [(0x400000, 64, True), (0x400048, 0xFFFB0, False)]
      = Some (0x400050, [(0x400000, 64, True), (0x400048, 4096, True), (0x401050, 0xFEFA8, False)])"
    by (simp add: Let_def split_block_def align_up_def)
  have r2: "4 * ((4096 + 8) div 4096 + 3) \<le> room (heap_machine (?h s1))" using h(4) 1(4) by simp
  have ok1: "heap_ok 0x400000 0x500000 [(0x400000, 64, True), (0x400048, 0xFFFB0, False)] (heap_machine (?h s1))" using 1(2) by simp
  obtain s2 where 2: "heap_alloc (of_nat 4096) (of_nat 8) (?h s1) = Some (of_nat 0x400050, ?h s1\<lparr>heap_machine := s2\<rparr>)"
    "heap_ok 0x400000 0x500000 [(0x400000, 64, True), (0x400048, 4096, True), (0x401050, 0xFEFA8, False)] s2" "total s2 = total (heap_machine (?h s1))"
    "room (heap_machine (?h s1)) \<le> room s2 + 4 * ((4096 + 8) div 4096 + 3)"
    by (rule heap_alloc_list [OF ok1 hd f2 _ _ _ r2]) (simp, simp, simp)
  have f3: "first_fit 64 8 [(0x400000, 64, True), (0x400048, 4096, True), (0x401050, 0xFEFA8, False)]
      = Some (0x401058, [(0x400000, 64, True), (0x400048, 4096, True), (0x401050, 64, True), (0x401098, 0xFEF60, False)])"
    by (simp add: Let_def split_block_def align_up_def)
  have r3: "4 * ((64 + 8) div 4096 + 3) \<le> room (heap_machine (?h s2))" using h(4) 1(4) 2(4) by simp
  have ok2: "heap_ok 0x400000 0x500000 [(0x400000, 64, True), (0x400048, 4096, True), (0x401050, 0xFEFA8, False)] (heap_machine (?h s2))" using 2(2) by simp
  obtain s3 where 3: "heap_alloc (of_nat 64) (of_nat 8) (?h s2) = Some (of_nat 0x401058, ?h s2\<lparr>heap_machine := s3\<rparr>)"
    "heap_ok 0x400000 0x500000 [(0x400000, 64, True), (0x400048, 4096, True), (0x401050, 64, True), (0x401098, 0xFEF60, False)] s3"
    "total s3 = total (heap_machine (?h s2))"
    by (rule heap_alloc_list [OF ok2 hd f3 _ _ _ r3]) (simp, simp, simp)
  have t3: "total s3 = Some 64" using 1(3) 2(3) 3(3) h(5) by simp
  have ok3: "heap_ok 0x400000 0x500000 ([(0x400000, 64, True)] @ (0x400048, 4096, True) # [(0x401050, 64, True), (0x401098, 0xFEF60, False)]) s3"
    using 3(2) by simp
  obtain s4 where 4: "heap_dealloc (of_nat 0x400050) (?h s3) = Some (?h s4)"
      "heap_ok 0x400000 0x500000 (merge_prev [(0x400000, 64, True)] (merge_next 0x400048 4096 [(0x401050, 64, True), (0x401098, 0xFEF60, False)])) s4"
      "total s4 = total s3"
    by (rule heap_dealloc_list [OF ok3 h(3), of "0x400050"]) (simp_all add: above_memory_def t3)
  have "\<exists>h'. heap_dealloc (of_nat 0x400008) (?h s4) = Some h' \<and> heap_alloc 1 1 h' = None \<and> heap_dealloc 0 h' = None"
    by (rule heap_dealloc_unmaps_head [of "0x400000" "0x500000" 64 "[(0x400048, 4096, False), (0x401050, 64, True), (0x401098, 0xFEF60, False)]"])
      (use 4(2,3) h(3) t3 in \<open>simp_all add: above_memory_def\<close>)
  with h(1) 1(1) 2(1) 3(1) 4(1) show ?thesis by auto
qed

lemma first_fit_last:
  assumes "\<forall>(q, k, u) \<in> set xs. u" "align_up al (p + 8) + sz \<le> p + 8 + l"
  shows "first_fit sz al (xs @ [(p, l, False)]) = Some (align_up al (p + 8), xs @ split_block (align_up al (p + 8) + sz) p l)"
  using assms by (induction xs) (auto simp: Let_def)

lemma merge_prev_used:
  assumes "\<forall>(q, k, u) \<in> set xs. u"
  shows "merge_prev xs [(p, l, v)] = xs @ [(p, l, v)]" "\<not> backward_unmaps xs [(p, l, v)]"
  using assms by (cases xs rule: rev_cases; force simp: prev_snoc)+

text \<open>
  C19. On a heap whose blocks are all in use but the last, an allocation that fits followed by the release of the address
  it returned restores the blocks of the heap, whether the last block was split or not.
\<close>

theorem heap_alloc_dealloc_round_trip:
  assumes ok: "heap_ok lo hi (xs @ [(p, l, False)]) (heap_machine h)" and hd: "heap_list_head h = Some (of_nat lo)"
    and used: "\<forall>(q, k, u) \<in> set xs. u" and fits: "align_up al (p + 8) + sz \<le> p + 8 + l" "0 < sz" "0 < al"
    and hi: "hi + sz + al + 4096 < 2 ^ 64" and left: "4 * ((sz + al) div 4096 + 3) \<le> room (heap_machine h)"
    and above: "above_memory lo (heap_machine h)"
  shows "\<exists>a h1 h2. heap_alloc (of_nat sz) (of_nat al) h = Some (a, h1) \<and> heap_dealloc a h1 = Some h2
    \<and> heap_ok lo hi (xs @ [(p, l, False)]) (heap_machine h2) \<and> heap_list_head h2 = heap_list_head h"
proof -
  let ?a = "align_up al (p + 8)"
  have a: "p + 8 \<le> ?a" by (rule align_up_bounds(1) [OF fits(3)])
  have small: "hi + sz + al + 16 < 2 ^ 64" "hi + 4096 < 2 ^ 64" using hi by simp_all
  obtain s where s: "heap_alloc (of_nat sz) (of_nat al) h = Some (of_nat ?a, h\<lparr>heap_machine := s\<rparr>)" "heap_ok lo hi (xs @ split_block (?a + sz) p l) s"
    "total s = total (heap_machine h)"
    by (rule heap_alloc_list [OF ok hd first_fit_last [OF used fits(1)] fits(2,3) small(1) left])
  have above': "above_memory lo s" using above s(3) by (simp add: above_memory_def)
  let ?nb = "align_up 8 (?a + sz)"
  have nb: "?a + sz \<le> ?nb" by (rule align_up_bounds(1)) simp
  obtain k ys where split: "split_block (?a + sz) p l = (p, k, True) # ys" "?a < p + 8 + k" "merge_next p k ys = [(p, l, False)]" "\<not> forward_unmaps p ys"
  proof (cases "?nb + 8 < p + 7 + l")
    case True
    then show thesis using nb a fits(2) by (intro that [of "?nb - (p + 8)" "[(?nb, p + l - ?nb, False)]"]) (auto simp: split_block_def Let_def)
  next
    case False
    then show thesis using fits(1,2) by (intro that [of l "[]"]) (auto simp: split_block_def Let_def)
  qed
  obtain s2 where "heap_dealloc (of_nat ?a) (h\<lparr>heap_machine := s\<rparr>) = Some (h\<lparr>heap_machine := s2\<rparr>)" "heap_ok lo hi (merge_prev xs (merge_next p k ys)) s2"
    "total s2 = total s"
    by (rule heap_dealloc_list [OF s(2) [unfolded split(1)] hd small(2) above' a split(2,4)])
      (simp_all add: split(3) merge_prev_used [OF used])
  then show ?thesis using s(1) hd by (simp add: split(3) merge_prev_used [OF used])
qed

theorem heap_alloc_dealloc_round_trip_witness:
  "\<exists>h a h1 h2. init_heap 0x400000 0x100000 \<lparr>heap_machine = heap_machine_0, heap_list_head = None\<rparr> = Some h
     \<and> heap_alloc 5000 4096 h = Some (a, h1) \<and> heap_dealloc a h1 = Some h2
     \<and> heap_ok 0x400000 0x500000 [(0x400000, 0xFFFF8, False)] (heap_machine h2)"
proof -
  obtain h where h: "init_heap 0x400000 0x100000 \<lparr>heap_machine = heap_machine_0, heap_list_head = None\<rparr> = Some h"
    "heap_ok 0x400000 0x500000 [(0x400000, 0xFFFF8, False)] (heap_machine h)" "heap_list_head h = Some (of_nat 0x400000)"
    "58 \<le> room (heap_machine h)" "total (heap_machine h) = Some 64" by (rule new_heap_0)
  have up: "align_up 4096 (0x400000 + 8) = 0x401000" by (simp add: align_up_def)
  have "\<exists>a h1 h2. heap_alloc (of_nat 5000) (of_nat 4096) h = Some (a, h1) \<and> heap_dealloc a h1 = Some h2
      \<and> heap_ok 0x400000 0x500000 ([] @ [(0x400000, 0xFFFF8, False)]) (heap_machine h2) \<and> heap_list_head h2 = heap_list_head h"
    by (rule heap_alloc_dealloc_round_trip) (use h(2-5) up in \<open>simp_all add: above_memory_def\<close>)
  with h(1) show ?thesis by auto
qed

end
