(* ===== verification/Limine.thy ===== *)
theory Limine
  imports Page_Allocation Graphics
begin

text \<open>
  The entry from the boot loader, \<^verbatim>\<open>src/kernel/src/arch/x86_64/limine\<close> (\<^verbatim>\<open>mod.rs\<close>, \<^verbatim>\<open>entry.rs\<close>): the memory map is turned into
  the bitmap of the page allocator, the framebuffers are collected, and the arguments for the kernel
  (\<^verbatim>\<open>kernel_args.rs\<close>) are put together. The answers of the boot loader are an argument of the model.
\<close>

subsection \<open>The memory map\<close>

datatype memory_map_entry_type =
  Usable | Reserved | AcpiReclaimable | AcpiNonVolatileStorage | BadMemory | BootloaderReclaimable | KernelAndModules | FramebufferMemory

record memory_map_entry =
  entry_base :: usize
  entry_length :: usize
  entry_type :: memory_map_entry_type

fun mappable_bytes :: "usize \<Rightarrow> memory_map_entry list \<Rightarrow> usize option" where
  "mappable_bytes acc [] = Some acc"
| "mappable_bytes acc (entry # entries) =
     do { past_end \<leftarrow> checked_add (entry_base entry) (entry_length entry);
          mappable_bytes (max acc past_end) entries }"

definition START_MASKS :: "u8 list" where
  "START_MASKS = [0xFF, 0x7F, 0x3F, 0x1F, 0x0F, 0x07, 0x03, 0x01]"

definition END_MASKS :: "u8 list" where
  "END_MASKS = [0x80, 0xC0, 0xE0, 0xF0, 0xF8, 0xFC, 0xFE, 0xFF]"

definition BIT_RATIO :: usize where
  "BIT_RATIO = 4096"

definition memory_map_page_size :: "usize \<Rightarrow> usize option" where
  "memory_map_page_size mappable = next_multiple_of (mappable div (BIT_RATIO * 8)) 4096"

text \<open>\<^verbatim>\<open>slice[a..b].fill(v)\<close>\<close>

definition slice_fill :: "'a list \<Rightarrow> nat \<Rightarrow> nat \<Rightarrow> 'a \<Rightarrow> 'a list option" where
  "slice_fill xs a b v = (if a \<le> b \<and> b \<le> length xs then Some (take a xs @ replicate (b - a) v @ drop b xs) else None)"

definition update_byte :: "(u8 \<Rightarrow> u8) \<Rightarrow> nat \<Rightarrow> u8 list \<Rightarrow> u8 list option" where
  "update_byte f i bytes = do { byte \<leftarrow> slice_get bytes i; slice_set bytes i (f byte) }"

text \<open>Freeing the pages of a usable entry.\<close>

definition free_entry :: "memory_map_entry \<Rightarrow> u8 list \<Rightarrow> u8 list option" where
  "free_entry entry bitmap =
     do { past_end \<leftarrow> checked_add (entry_base entry) (entry_length entry);
          end_addr \<leftarrow> checked_sub past_end 1;
          let start_bitmap_i = unat (entry_base entry div BIT_RATIO);
          let end_bitmap_i = unat (end_addr div BIT_RATIO);
          let start_byte_i = start_bitmap_i div 8;
          let end_byte_i = end_bitmap_i div 8;
          let start_bit_i = start_bitmap_i mod 8;
          let end_bit_i = end_bitmap_i mod 8;
          if start_byte_i = end_byte_i
          then update_byte (\<lambda>byte. byte AND (NOT (START_MASKS ! start_bit_i) OR NOT (END_MASKS ! end_bit_i))) start_byte_i bitmap
          else do { bitmap \<leftarrow> update_byte (\<lambda>byte. byte AND NOT (START_MASKS ! start_bit_i)) start_byte_i bitmap;
                    bitmap \<leftarrow> slice_fill bitmap (start_byte_i + 1) end_byte_i 0;
                    update_byte (\<lambda>byte. byte AND NOT (END_MASKS ! end_bit_i)) end_byte_i bitmap } }"

text \<open>Reserving the pages of the bitmap itself; the index of its last page is its last address, not divided by the page size.\<close>

definition reserve_bitmap :: "usize \<Rightarrow> u8 list \<Rightarrow> u8 list option" where
  "reserve_bitmap ptr bitmap =
     do { past_end \<leftarrow> checked_add ptr (of_nat (length bitmap));
          end_addr \<leftarrow> checked_sub past_end 1;
          let start_bitmap_i = unat (ptr div BIT_RATIO);
          let end_bitmap_i = unat end_addr;
          let start_byte_i = start_bitmap_i div 8;
          let end_byte_i = end_bitmap_i div 8;
          let start_bit_i = start_bitmap_i mod 8;
          let end_bit_i = end_bitmap_i mod 8;
          if start_byte_i = end_byte_i
          then update_byte (\<lambda>byte. byte OR (START_MASKS ! start_bit_i AND END_MASKS ! end_bit_i)) start_byte_i bitmap
          else do { bitmap \<leftarrow> update_byte (\<lambda>byte. byte OR START_MASKS ! start_bit_i) start_byte_i bitmap;
                    bitmap \<leftarrow> slice_fill bitmap (start_byte_i + 1) end_byte_i 0xFF;
                    update_byte (\<lambda>byte. byte OR END_MASKS ! end_bit_i) end_byte_i bitmap } }"

text \<open>The address and the bytes of the bitmap.\<close>

definition kernel_bitmap :: "usize \<Rightarrow> memory_map_entry list \<Rightarrow> (usize \<times> u8 list) option" where
  "kernel_bitmap mappable memory_map =
     do { size \<leftarrow> memory_map_page_size mappable;
          entry \<leftarrow> find (\<lambda>entry. entry_type entry = Usable \<and> entry_length entry \<ge> size) memory_map;
          let bitmap = replicate (unat size) 0xFF;
          bitmap \<leftarrow> for_each free_entry (filter (\<lambda>entry. entry_type entry = Usable) memory_map) bitmap;
          bitmap \<leftarrow> reserve_bitmap (entry_base entry) bitmap;
          Some (entry_base entry, bitmap) }"

text \<open>The page allocator is set up with the page table that is loaded.\<close>

definition init_page_allocator :: "usize \<Rightarrow> memory_map_entry list \<Rightarrow> machine \<Rightarrow> (usize \<times> usize \<times> machine) option" where
  "init_page_allocator cr3 memory_map s =
     do { mappable \<leftarrow> mappable_bytes 0 memory_map;
          (ptr, bitmap) \<leftarrow> kernel_bitmap mappable memory_map;
          s \<leftarrow> init cr3 bitmap (mappable div 4096) s;
          Some (mappable, ptr, s) }"

subsection \<open>Framebuffers\<close>

record limine_framebuffer =
  lfb_ptr :: usize
  lfb_width :: u64
  lfb_height :: u64
  lfb_pitch :: u64
  lfb_bpp :: u16
  lfb_memory_model :: u8

definition FramebufferModel_Rgb :: u8 where
  "FramebufferModel_Rgb = 1"

datatype ptr_type = Physical | Linear

record args_framebuffer =
  args_ptr :: usize
  args_ptr_type :: ptr_type
  args_size :: u32
  args_width :: u32
  args_height :: u32
  args_scanline_length :: u32
  args_color_format :: color_format

text \<open>
  \<^verbatim>\<open>size_of::<kernel_args::Framebuffer>()\<close>: the pointer, five 32-bit fields and the colour format, whose largest variant has four
  32-bit masks behind the tag.
\<close>

definition size_of_args_framebuffer :: usize where
  "size_of_args_framebuffer = 48"

definition convert_framebuffer :: "limine_framebuffer \<Rightarrow> args_framebuffer option" where
  "convert_framebuffer fb =
     do { let bytes_per_pixel = (ucast (lfb_bpp fb) :: u32) div 8;
          guard (bytes_per_pixel \<noteq> 0);
          let scanline_length = (ucast (lfb_pitch fb) :: u32) div bytes_per_pixel;
          pixels \<leftarrow> checked_mul scanline_length (ucast (lfb_height fb));
          size \<leftarrow> checked_mul pixels bytes_per_pixel;
          Some \<lparr>args_ptr = lfb_ptr fb, args_ptr_type = Linear, args_size = size, args_width = ucast (lfb_width fb),
                args_height = ucast (lfb_height fb), args_scanline_length = scanline_length, args_color_format = Bgrr8\<rparr> }"

fun push_framebuffers :: "nat \<Rightarrow> args_framebuffer list \<Rightarrow> limine_framebuffer list \<Rightarrow> args_framebuffer list option" where
  "push_framebuffers capacity framebuffers [] = Some framebuffers"
| "push_framebuffers capacity framebuffers (fb # fbs) =
     (if lfb_bpp fb \<noteq> 32 then push_framebuffers capacity framebuffers fbs
      else if lfb_memory_model fb \<noteq> FramebufferModel_Rgb then push_framebuffers capacity framebuffers fbs
      else do { new \<leftarrow> convert_framebuffer fb;
                let framebuffers = framebuffers @ [new];
                if length framebuffers = capacity then Some framebuffers
                else push_framebuffers capacity framebuffers fbs })"

text \<open>A \<^verbatim>\<open>PageVec\<close> with the capacity of a page; a failed allocation aborts.\<close>

definition new_with_max_capacity :: "usize \<Rightarrow> machine \<Rightarrow> (usize \<times> nat \<times> machine) option" where
  "new_with_max_capacity size_of_t s =
     do { guard (size_of_t \<noteq> 0);
          let capacity = PAGE_SIZE div size_of_t;
          (r, s) \<leftarrow> block_allocate s (capacity * size_of_t) 8;
          case r of Inl _ \<Rightarrow> None | Inr a \<Rightarrow> Some (a, unat capacity, s) }"

subsection \<open>The arguments of the kernel\<close>

record kernel_slice =
  slice_ptr :: usize
  slice_len :: usize

definition slice_null :: kernel_slice where
  "slice_null = \<lparr>slice_ptr = 0, slice_len = 0\<rparr>"

record args_memory_bitmap =
  bitmap_slice :: kernel_slice
  mapped_size :: usize

record arch_pointers =
  efi_ptr :: usize
  acpi_ptr :: "usize option"
  mp_ptr :: usize
  smbi_ptr :: usize

record kernel_args =
  kernel_elf :: kernel_slice
  args_page_table_address :: usize
  environment :: kernel_slice
  args_memory_bitmap :: args_memory_bitmap
  initrd :: kernel_slice
  arch_ptrs :: arch_pointers
  framebuffers_slice :: kernel_slice
  framebuffers_data :: "args_framebuffer list"

text \<open>The answers of the boot loader to the requests.\<close>

record limine_file =
  file_ptr :: usize
  file_size :: u64

record limine_responses =
  kernel_file_response :: "limine_file option"
  memory_map_response :: "memory_map_entry list option"
  framebuffer_response :: "limine_framebuffer list option"
  module_response :: "limine_file list option"
  efi_system_table_response :: "usize option"
  rsdp_response :: "usize option option"

definition get_args_framebuffers :: "limine_framebuffer list option \<Rightarrow> machine \<Rightarrow> (kernel_slice \<times> args_framebuffer list \<times> machine) option" where
  "get_args_framebuffers response s =
     (case response of
        None \<Rightarrow> Some (slice_null, [], s)
      | Some fbs \<Rightarrow>
          do { (a, capacity, s) \<leftarrow> new_with_max_capacity size_of_args_framebuffer s;
               framebuffers \<leftarrow> push_framebuffers capacity [] fbs;
               Some (\<lparr>slice_ptr = a, slice_len = of_nat (length framebuffers)\<rparr>, framebuffers, s) })"

text \<open>
  The kernel's arguments are put on a page of their own, then the allocator is taken out again. The result is what \<^verbatim>\<open>init64\<close> is
  called with. \<open>size_of_args\<close> is the size of the arguments.
\<close>

definition pass_arguments ::
  "usize \<Rightarrow> limine_file \<Rightarrow> usize \<Rightarrow> usize \<Rightarrow> kernel_slice \<Rightarrow> args_framebuffer list \<Rightarrow> limine_responses \<Rightarrow> machine \<Rightarrow>
   (usize \<times> kernel_args \<times> page_allocator \<times> machine) option" where
  "pass_arguments size_of_args kernel_file mappable bitmap_ptr framebuffers framebuffer_list responses s =
     do { modules \<leftarrow> module_response responses;
          guard (modules \<noteq> []);
          let initrd_file = hd modules;
          let efi = (case efi_system_table_response responses of Some p \<Rightarrow> p | None \<Rightarrow> 0);
          let acpi = (case rsdp_response responses of Some p \<Rightarrow> p | None \<Rightarrow> None);
          pt \<leftarrow> page_table_address s;
          bitmap \<leftarrow> memory_bitmap_slice s;
          (r, s) \<leftarrow> block_allocate s size_of_args 8;
          case r of
            Inl _ \<Rightarrow> None
          | Inr kernel_args_ptr \<Rightarrow>
              do { let args = \<lparr>kernel_elf = \<lparr>slice_ptr = file_ptr kernel_file, slice_len = file_size kernel_file\<rparr>,
                               args_page_table_address = pt, environment = slice_null,
                               args_memory_bitmap = \<lparr>bitmap_slice = \<lparr>slice_ptr = bitmap_ptr, slice_len = of_nat (length bitmap)\<rparr>, mapped_size = mappable\<rparr>,
                               initrd = \<lparr>slice_ptr = file_ptr initrd_file, slice_len = file_size initrd_file\<rparr>,
                               arch_ptrs = \<lparr>efi_ptr = efi, acpi_ptr = acpi, mp_ptr = 0, smbi_ptr = 0\<rparr>,
                               framebuffers_slice = framebuffers, framebuffers_data = framebuffer_list\<rparr>;
                   let (removed, s) = deinit_and_remove s;
                   pa \<leftarrow> removed;
                   Some (kernel_args_ptr, args, pa, s) } }"

definition limine_entry :: "usize \<Rightarrow> usize \<Rightarrow> limine_responses \<Rightarrow> machine \<Rightarrow> (usize \<times> kernel_args \<times> page_allocator \<times> machine) option" where
  "limine_entry size_of_args cr3 responses s =
     do { kernel_file \<leftarrow> kernel_file_response responses;
          memory_map \<leftarrow> memory_map_response responses;
          (mappable, bitmap_ptr, s) \<leftarrow> init_page_allocator cr3 memory_map s;
          (framebuffers, framebuffer_list, s) \<leftarrow> get_args_framebuffers (framebuffer_response responses) s;
          pass_arguments size_of_args kernel_file mappable bitmap_ptr framebuffers framebuffer_list responses s }"

end
