(* ===== verification/Limine_Memory.thy ===== *)
theory Limine_Memory
  imports Limine
begin

text \<open>
  The bitmap that the boot entry builds: a page is free when a usable entry of the memory map covers it and it is not in the
  range that is reserved for the bitmap.
\<close>

subsection \<open>Ranges of bits\<close>

lemma mask_bits:
  assumes "i < 8" "k < 8"
  shows "bit (START_MASKS ! i) (7 - k) \<longleftrightarrow> i \<le> k" "bit (END_MASKS ! i) (7 - k) \<longleftrightarrow> k \<le> i"
proof -
  have "\<forall>i \<in> set [0..<8]. \<forall>k \<in> set [0..<8]. (bit (START_MASKS ! i) (7 - k) \<longleftrightarrow> i \<le> k) \<and> (bit (END_MASKS ! i) (7 - k) \<longleftrightarrow> k \<le> i)"
    by code_simp
  then show "bit (START_MASKS ! i) (7 - k) \<longleftrightarrow> i \<le> k" "bit (END_MASKS ! i) (7 - k) \<longleftrightarrow> k \<le> i" using assms by simp_all
qed

lemma slice_fill_nth:
  assumes "slice_fill xs a b v = Some ys"
  shows "length ys = length xs" "i < length xs \<Longrightarrow> ys ! i = (if a \<le> i \<and> i < b then v else xs ! i)"
  using assms by (auto simp: slice_fill_def nth_append split: if_splits)

lemma update_byte_Some: "update_byte f i bs = Some bs' \<longleftrightarrow> i < length bs \<and> bs' = bs[i := f (bs ! i)]"
  by (auto simp: update_byte_def slice_get_def slice_set_def)

text \<open>The position of a slot in the bytes that hold the ends of a range.\<close>

lemma slot_range:
  fixes a b n :: nat
  shows "a div 8 < n div 8 \<Longrightarrow> n div 8 < b div 8 \<Longrightarrow> a \<le> n \<and> n \<le> b"
    "n div 8 = a div 8 \<Longrightarrow> n div 8 < b div 8 \<Longrightarrow> (a \<le> n \<and> n \<le> b \<longleftrightarrow> a mod 8 \<le> n mod 8)"
    "a div 8 < n div 8 \<Longrightarrow> n div 8 = b div 8 \<Longrightarrow> (a \<le> n \<and> n \<le> b \<longleftrightarrow> n mod 8 \<le> b mod 8)"
    "n div 8 = a div 8 \<Longrightarrow> n div 8 = b div 8 \<Longrightarrow> (a \<le> n \<and> n \<le> b \<longleftrightarrow> a mod 8 \<le> n mod 8 \<and> n mod 8 \<le> b mod 8)"
    "n div 8 < a div 8 \<or> b div 8 < n div 8 \<Longrightarrow> \<not> (a \<le> n \<and> n \<le> b)"
proof -
  have d: "x = 8 * (x div 8) + x mod 8" "x mod 8 < 8" for x :: nat by simp_all
  note D = d [of a] d [of b] d [of n]
  show "a div 8 < n div 8 \<Longrightarrow> n div 8 < b div 8 \<Longrightarrow> a \<le> n \<and> n \<le> b" using D by linarith
  show "n div 8 = a div 8 \<Longrightarrow> n div 8 < b div 8 \<Longrightarrow> (a \<le> n \<and> n \<le> b \<longleftrightarrow> a mod 8 \<le> n mod 8)" using D by linarith
  show "a div 8 < n div 8 \<Longrightarrow> n div 8 = b div 8 \<Longrightarrow> (a \<le> n \<and> n \<le> b \<longleftrightarrow> n mod 8 \<le> b mod 8)" using D by linarith
  show "n div 8 = a div 8 \<Longrightarrow> n div 8 = b div 8 \<Longrightarrow> (a \<le> n \<and> n \<le> b \<longleftrightarrow> a mod 8 \<le> n mod 8 \<and> n mod 8 \<le> b mod 8)" using D by linarith
  show "n div 8 < a div 8 \<or> b div 8 < n div 8 \<Longrightarrow> \<not> (a \<le> n \<and> n \<le> b)" using D by linarith
qed

lemma byte_masks:
  fixes v :: u8 and n a b :: nat
  shows "bit (v AND NOT (START_MASKS ! (a mod 8))) (7 - n mod 8) \<longleftrightarrow> bit v (7 - n mod 8) \<and> \<not> a mod 8 \<le> n mod 8"
    "bit (v AND NOT (END_MASKS ! (b mod 8))) (7 - n mod 8) \<longleftrightarrow> bit v (7 - n mod 8) \<and> \<not> n mod 8 \<le> b mod 8"
    "bit (v AND (NOT (START_MASKS ! (a mod 8)) OR NOT (END_MASKS ! (b mod 8)))) (7 - n mod 8)
       \<longleftrightarrow> bit v (7 - n mod 8) \<and> \<not> (a mod 8 \<le> n mod 8 \<and> n mod 8 \<le> b mod 8)"
    "bit (v OR START_MASKS ! (a mod 8)) (7 - n mod 8) \<longleftrightarrow> bit v (7 - n mod 8) \<or> a mod 8 \<le> n mod 8"
    "bit (v OR END_MASKS ! (b mod 8)) (7 - n mod 8) \<longleftrightarrow> bit v (7 - n mod 8) \<or> n mod 8 \<le> b mod 8"
    "bit (v OR (START_MASKS ! (a mod 8) AND END_MASKS ! (b mod 8))) (7 - n mod 8)
       \<longleftrightarrow> bit v (7 - n mod 8) \<or> (a mod 8 \<le> n mod 8 \<and> n mod 8 \<le> b mod 8)"
proof -
  have m: "x mod 8 < 8" for x :: nat by simp
  have k: "7 - n mod 8 < LENGTH(8)" by simp
  note bits = mask_bits(1) [OF m m, of a n] mask_bits(2) [OF m m, of b n]
  have n: "bit (NOT w) (7 - n mod 8) \<longleftrightarrow> \<not> bit w (7 - n mod 8)" for w :: u8 using k by (simp add: bit_not_iff)
  show "bit (v AND NOT (START_MASKS ! (a mod 8))) (7 - n mod 8) \<longleftrightarrow> bit v (7 - n mod 8) \<and> \<not> a mod 8 \<le> n mod 8"
    "bit (v AND NOT (END_MASKS ! (b mod 8))) (7 - n mod 8) \<longleftrightarrow> bit v (7 - n mod 8) \<and> \<not> n mod 8 \<le> b mod 8"
    "bit (v AND (NOT (START_MASKS ! (a mod 8)) OR NOT (END_MASKS ! (b mod 8)))) (7 - n mod 8)
       \<longleftrightarrow> bit v (7 - n mod 8) \<and> \<not> (a mod 8 \<le> n mod 8 \<and> n mod 8 \<le> b mod 8)"
    "bit (v OR START_MASKS ! (a mod 8)) (7 - n mod 8) \<longleftrightarrow> bit v (7 - n mod 8) \<or> a mod 8 \<le> n mod 8"
    "bit (v OR END_MASKS ! (b mod 8)) (7 - n mod 8) \<longleftrightarrow> bit v (7 - n mod 8) \<or> n mod 8 \<le> b mod 8"
    "bit (v OR (START_MASKS ! (a mod 8) AND END_MASKS ! (b mod 8))) (7 - n mod 8)
       \<longleftrightarrow> bit v (7 - n mod 8) \<or> (a mod 8 \<le> n mod 8 \<and> n mod 8 \<le> b mod 8)"
    unfolding bit_and_iff bit_or_iff n bits by blast+
qed

text \<open>
  Changing the bits of a range byte by byte: the byte of the first bit, the bytes between, the byte of the last bit.
\<close>

lemma range_update:
  fixes bs :: "u8 list"
  assumes "a \<le> b" "b < 8 * length bs"
    and one: "\<And>v n. bit (f v) (7 - n mod 8) \<longleftrightarrow> P (a mod 8 \<le> n mod 8 \<and> n mod 8 \<le> b mod 8) (bit v (7 - n mod 8))"
    and first: "\<And>v n. bit (g v) (7 - n mod 8) \<longleftrightarrow> P (a mod 8 \<le> n mod 8) (bit v (7 - n mod 8))"
    and mid: "\<And>(v :: u8) n. bit c (7 - n mod 8) \<longleftrightarrow> P True (bit v (7 - n mod 8))"
    and final: "\<And>v n. bit (h v) (7 - n mod 8) \<longleftrightarrow> P (n mod 8 \<le> b mod 8) (bit v (7 - n mod 8))"
    and same: "\<And>x. P False x = x"
  shows "\<exists>bs'. (if a div 8 = b div 8 then update_byte f (a div 8) bs
        else do { bs \<leftarrow> update_byte g (a div 8) bs; bs \<leftarrow> slice_fill bs (a div 8 + 1) (b div 8) c; update_byte h (b div 8) bs }) = Some bs'
     \<and> length bs' = length bs \<and> (\<forall>n < 8 * length bs. slot_bit bs' n \<longleftrightarrow> P (a \<le> n \<and> n \<le> b) (slot_bit bs n))"
proof -
  have len: "a div 8 < length bs" "b div 8 < length bs" "a div 8 \<le> b div 8" using assms(1,2) by (auto simp: div_le_mono)
  show ?thesis
  proof (cases "a div 8 = b div 8")
    case True
    have "slot_bit (bs[a div 8 := f (bs ! (a div 8))]) n \<longleftrightarrow> P (a \<le> n \<and> n \<le> b) (slot_bit bs n)" if "n < 8 * length bs" for n
    proof (cases "n div 8 = a div 8")
      case t: True
      show ?thesis unfolding slot_bit_def t slot_range(4) [OF t t [unfolded True]] nth_list_update_eq [OF len(1)] one ..
    next
      case f: False
      then have "n div 8 < a div 8 \<or> b div 8 < n div 8" using True by linarith
      then have out: "(a \<le> n \<and> n \<le> b) = False" using slot_range(5) by blast
      show ?thesis unfolding out same using f by (simp add: slot_bit_def)
    qed
    then show ?thesis using True len by (auto simp: update_byte_def slice_get_def slice_set_def)
  next
    case False
    then have lt: "a div 8 < b div 8" using len(3) by simp
    let ?bs1 = "bs[a div 8 := g (bs ! (a div 8))]"
    obtain bs2 where bs2: "slice_fill ?bs1 (a div 8 + 1) (b div 8) c = Some bs2" using lt len by (simp add: slice_fill_def)
    note fill = slice_fill_nth [OF bs2]
    let ?bs3 = "bs2[b div 8 := h (bs2 ! (b div 8))]"
    have "slot_bit ?bs3 n \<longleftrightarrow> P (a \<le> n \<and> n \<le> b) (slot_bit bs n)" if n: "n < 8 * length bs" for n
    proof -
      have nl: "n div 8 < length bs" using n by auto
      consider "n div 8 < a div 8 \<or> b div 8 < n div 8" | "n div 8 = a div 8" | "a div 8 < n div 8" "n div 8 < b div 8" | "n div 8 = b div 8" by linarith
      then show ?thesis
      proof cases
        case 1
        then have out: "(a \<le> n \<and> n \<le> b) = False" using slot_range(5) by blast
        have "?bs3 ! (n div 8) = bs ! (n div 8)" using 1 nl lt len by (auto simp: fill)
        then show ?thesis unfolding out same by (simp add: slot_bit_def)
      next
        case 2
        have "?bs3 ! (n div 8) = g (bs ! (n div 8))" using 2 nl lt len by (simp add: fill)
        moreover have "(a \<le> n \<and> n \<le> b) = (a mod 8 \<le> n mod 8)" using slot_range(2) 2 lt by simp
        ultimately show ?thesis by (simp only: slot_bit_def first)
      next
        case 3
        have "?bs3 ! (n div 8) = c" using 3 nl lt len by (simp add: fill)
        moreover have "(a \<le> n \<and> n \<le> b) = True" using slot_range(1) [OF 3] by simp
        ultimately show ?thesis by (simp only: slot_bit_def mid [of n "bs ! (n div 8)"])
      next
        case 4
        have "?bs3 ! (n div 8) = h (bs ! (n div 8))" using 4 nl lt len by (simp add: fill)
        moreover have "(a \<le> n \<and> n \<le> b) = (n mod 8 \<le> b mod 8)" using slot_range(3) 4 lt by simp
        ultimately show ?thesis by (simp only: slot_bit_def final)
      qed
    qed
    then show ?thesis using False len lt bs2 fill(1) by (simp add: update_byte_def slice_get_def slice_set_def)
  qed
qed

text \<open>The byte of the last bit is touched last, so a range past the end panics.\<close>

lemma range_panics:
  assumes "8 * length bs \<le> b"
  shows "(if a div 8 = b div 8 then update_byte f (a div 8) bs
        else do { bs \<leftarrow> update_byte g (a div 8) bs; bs \<leftarrow> slice_fill bs (a div 8 + 1) (b div 8) c; update_byte h (b div 8) bs }) = None"
proof -
  have "length bs \<le> b div 8" using assms by linarith
  then show ?thesis by (auto simp: update_byte_def slice_get_def slice_set_def slice_fill_def bind_eq_None_conv)
qed

subsection \<open>The entries of the memory map\<close>

definition last_page :: "memory_map_entry \<Rightarrow> nat" where
  "last_page entry = (unat (entry_base entry) + unat (entry_length entry) - 1) div 4096"

definition covers :: "memory_map_entry \<Rightarrow> nat \<Rightarrow> bool" where
  "covers entry n \<longleftrightarrow> unat (entry_base entry) div 4096 \<le> n \<and> n \<le> last_page entry"

definition entry_ok :: "memory_map_entry \<Rightarrow> bool" where
  "entry_ok entry \<longleftrightarrow> 0 < unat (entry_length entry) \<and> unat (entry_base entry) + unat (entry_length entry) < 2 ^ 64"

lemma page_of: "unat (p div BIT_RATIO) = unat p div 4096"
  by (simp add: unat_div BIT_RATIO_def)

lemma range_end_address:
  fixes p l :: usize
  assumes "unat p + unat l < 2 ^ 64" "0 < unat p + unat l"
  shows "checked_add p l = Some (of_nat (unat p + unat l))"
    "checked_sub (of_nat (unat p + unat l)) 1 = Some (of_nat (unat p + unat l - 1) :: usize)"
proof -
  show "checked_add p l = Some (of_nat (unat p + unat l))"
    unfolding checked_add_Some using assms(1) by (intro unat_of_nat_small) simp
  show "checked_sub (of_nat (unat p + unat l)) 1 = Some (of_nat (unat p + unat l - 1) :: usize)"
    using checked_sub_nat [of "unat p + unat l" 1 "unat p + unat l - 1"] assms by (simp del: of_nat_add of_nat_diff)
qed

lemma free_entry_slots:
  assumes ok: "entry_ok entry"
  shows "last_page entry < 8 * length bs \<Longrightarrow>
      \<exists>bs'. free_entry entry bs = Some bs' \<and> length bs' = length bs \<and> (\<forall>n < 8 * length bs. slot_bit bs' n \<longleftrightarrow> slot_bit bs n \<and> \<not> covers entry n)"
    and "8 * length bs \<le> last_page entry \<Longrightarrow> free_entry entry bs = None"
proof -
  let ?p = "unat (entry_base entry)" and ?l = "unat (entry_length entry)"
  let ?a = "?p div 4096" and ?b = "last_page entry"
  have pl: "?p + ?l < 2 ^ 64" "0 < ?p + ?l" "?p + ?l - 1 < 2 ^ 64" using ok by (auto simp: entry_ok_def)
  have b: "unat (of_nat (?p + ?l - 1) :: usize) div 4096 = ?b"
    using pl(3) by (simp add: last_page_def unat_of_nat_small del: of_nat_diff)
  have le: "?a \<le> ?b" using ok unfolding last_page_def by (intro div_le_mono) (auto simp: entry_ok_def)
  have zero: "bit (0 :: u8) k \<longleftrightarrow> x \<and> \<not> True" for k and x :: bool by simp
  have eq: "free_entry entry bs = (if ?a div 8 = ?b div 8
        then update_byte (\<lambda>byte. byte AND (NOT (START_MASKS ! (?a mod 8)) OR NOT (END_MASKS ! (?b mod 8)))) (?a div 8) bs
        else do { bs \<leftarrow> update_byte (\<lambda>byte. byte AND NOT (START_MASKS ! (?a mod 8))) (?a div 8) bs;
                  bs \<leftarrow> slice_fill bs (?a div 8 + 1) (?b div 8) 0;
                  update_byte (\<lambda>byte. byte AND NOT (END_MASKS ! (?b mod 8))) (?b div 8) bs })"
    by (simp only: free_entry_def range_end_address [OF pl(1,2)] bind.bind_lunit Let_def b page_of)
  show "\<exists>bs'. free_entry entry bs = Some bs' \<and> length bs' = length bs \<and> (\<forall>n < 8 * length bs. slot_bit bs' n \<longleftrightarrow> slot_bit bs n \<and> \<not> covers entry n)"
    if "last_page entry < 8 * length bs"
    unfolding eq covers_def by (rule range_update [OF le that, where P = "\<lambda>r x. x \<and> \<not> r"]) (simp_all only: byte_masks zero, simp_all)
  show "free_entry entry bs = None" if "8 * length bs \<le> last_page entry" unfolding eq by (rule range_panics [OF that])
qed

lemma reserve_bitmap_slots:
  assumes "unat ptr + length bs < 2 ^ 64" "0 < length bs"
  shows "unat ptr + length bs \<le> 8 * length bs \<Longrightarrow>
      \<exists>bs'. reserve_bitmap ptr bs = Some bs' \<and> length bs' = length bs
        \<and> (\<forall>n < 8 * length bs. slot_bit bs' n \<longleftrightarrow> slot_bit bs n \<or> unat ptr div 4096 \<le> n \<and> n < unat ptr + length bs)"
    and "8 * length bs < unat ptr + length bs \<Longrightarrow> reserve_bitmap ptr bs = None"
proof -
  let ?l = "length bs" and ?p = "unat ptr"
  let ?a = "?p div 4096" and ?b = "?p + ?l - 1"
  have l: "unat (of_nat ?l :: usize) = ?l" using assms(1) by (intro unat_of_nat_small) simp
  have b: "unat (of_nat ?b :: usize) = ?b" using assms(1) by (intro unat_of_nat_small) simp
  have ends: "checked_add ptr (of_nat ?l) = Some (of_nat (?p + ?l))" "checked_sub (of_nat (?p + ?l)) 1 = Some (of_nat ?b :: usize)"
    using range_end_address [of ptr "of_nat ?l"] assms by (simp_all add: l del: of_nat_add of_nat_diff)
  have le: "?a \<le> ?b" using assms(2) div_le_dividend [of ?p 4096] by linarith
  have full: "bit (0xFF :: u8) (7 - n mod 8) \<longleftrightarrow> x \<or> True" for n and x :: bool
    using slot_bit_FF [of "n mod 8" "[]"] by (simp add: slot_bit_def)
  have lt: "n < ?p + ?l \<longleftrightarrow> n \<le> ?b" for n using assms(2) by linarith
  have eq: "reserve_bitmap ptr bs = (if ?a div 8 = ?b div 8
        then update_byte (\<lambda>byte. byte OR (START_MASKS ! (?a mod 8) AND END_MASKS ! (?b mod 8))) (?a div 8) bs
        else do { bs \<leftarrow> update_byte (\<lambda>byte. byte OR START_MASKS ! (?a mod 8)) (?a div 8) bs;
                  bs \<leftarrow> slice_fill bs (?a div 8 + 1) (?b div 8) 0xFF;
                  update_byte (\<lambda>byte. byte OR END_MASKS ! (?b mod 8)) (?b div 8) bs })"
    by (simp only: reserve_bitmap_def ends bind.bind_lunit Let_def b page_of)
  show "\<exists>bs'. reserve_bitmap ptr bs = Some bs' \<and> length bs' = length bs
        \<and> (\<forall>n < 8 * length bs. slot_bit bs' n \<longleftrightarrow> slot_bit bs n \<or> unat ptr div 4096 \<le> n \<and> n < unat ptr + length bs)"
    if "?p + ?l \<le> 8 * ?l"
  proof -
    have "?b < 8 * ?l" using that assms(2) by linarith
    then show ?thesis unfolding eq lt
      by (rule range_update [OF le, where P = "\<lambda>r x. x \<or> r"]) (simp_all only: byte_masks full, simp_all)
  qed
  show "reserve_bitmap ptr bs = None" if "8 * ?l < ?p + ?l" unfolding eq by (rule range_panics) (use that in linarith)
qed

lemma free_entries_slots:
  assumes "\<forall>e \<in> set es. entry_ok e" "\<forall>e \<in> set es. last_page e < 8 * length bs"
  shows "\<exists>bs'. for_each free_entry es bs = Some bs' \<and> length bs' = length bs
    \<and> (\<forall>n < 8 * length bs. slot_bit bs' n \<longleftrightarrow> slot_bit bs n \<and> (\<forall>e \<in> set es. \<not> covers e n))"
  using assms
proof (induction es arbitrary: bs)
  case (Cons x es)
  then obtain bs1 where bs1: "free_entry x bs = Some bs1" "length bs1 = length bs"
    "\<forall>n < 8 * length bs. slot_bit bs1 n \<longleftrightarrow> slot_bit bs n \<and> \<not> covers x n"
    using free_entry_slots(1) [of x bs] by auto
  from Cons.IH [of bs1] Cons.prems bs1(2) obtain bs2 where "for_each free_entry es bs1 = Some bs2" "length bs2 = length bs"
    "\<forall>n < 8 * length bs. slot_bit bs2 n \<longleftrightarrow> slot_bit bs1 n \<and> (\<forall>e \<in> set es. \<not> covers e n)" by auto
  then show ?case using bs1 by auto
qed simp

lemma free_entries_panic:
  assumes "\<forall>e \<in> set es. entry_ok e" "e \<in> set es" "8 * length bs \<le> last_page e"
  shows "for_each free_entry es bs = None"
  using assms
proof (induction es arbitrary: bs)
  case (Cons x es)
  show ?case
  proof (cases "last_page x < 8 * length bs")
    case True
    then obtain bs1 where "free_entry x bs = Some bs1" "length bs1 = length bs"
      using free_entry_slots(1) [of x bs] Cons.prems(1) by auto
    then show ?thesis using Cons.IH [of bs1] Cons.prems True by auto
  next
    case False
    then show ?thesis using free_entry_slots(2) [of x bs] Cons.prems(1) by simp
  qed
qed simp

subsection \<open>Properties\<close>

definition usable :: "memory_map_entry list \<Rightarrow> memory_map_entry list" where
  "usable memory_map = filter (\<lambda>entry. entry_type entry = Usable) memory_map"

lemma kernel_bitmap_slots:
  assumes sz: "memory_map_page_size mappable = Some sz" "unat sz < 2 ^ 52"
    and e: "find (\<lambda>entry. entry_type entry = Usable \<and> entry_length entry \<ge> sz) memory_map = Some e"
    and ok: "\<forall>x \<in> set (usable memory_map). entry_ok x" and pos: "0 < unat sz"
  shows "\<forall>x \<in> set (usable memory_map). last_page x < 8 * unat sz \<Longrightarrow> unat (entry_base e) + unat sz \<le> 8 * unat sz \<Longrightarrow>
      \<exists>bitmap. kernel_bitmap mappable memory_map = Some (entry_base e, bitmap) \<and> length bitmap = unat sz
        \<and> (\<forall>n < 8 * unat sz. slot_bit bitmap n \<longleftrightarrow>
             (\<forall>x \<in> set (usable memory_map). \<not> covers x n) \<or> unat (entry_base e) div 4096 \<le> n \<and> n < unat (entry_base e) + unat sz)"
    and "x \<in> set (usable memory_map) \<Longrightarrow> 8 * unat sz \<le> last_page x \<Longrightarrow> kernel_bitmap mappable memory_map = None"
    and "8 * unat sz < unat (entry_base e) + unat sz \<Longrightarrow> kernel_bitmap mappable memory_map = None"
proof -
  let ?full = "replicate (unat sz) (0xFF :: u8)"
  have full: "slot_bit ?full n" if "n < 8 * unat sz" for n
    using that all_FF_used [of ?full] by (auto simp: used_slots_def)
  have "e \<in> set memory_map" "entry_type e = Usable" "unat sz \<le> unat (entry_length e)"
    using find_Some_iff [THEN iffD1, OF e] by (auto simp: word_le_nat_alt)
  then have "entry_ok e" using ok by (auto simp: usable_def)
  then have base: "unat (entry_base e) + unat sz < 2 ^ 64" using \<open>unat sz \<le> unat (entry_length e)\<close> by (auto simp: entry_ok_def)
  have eq: "kernel_bitmap mappable memory_map =
      do { bitmap \<leftarrow> for_each free_entry (usable memory_map) ?full; bitmap \<leftarrow> reserve_bitmap (entry_base e) bitmap; Some (entry_base e, bitmap) }"
    by (simp add: kernel_bitmap_def sz e usable_def)
  note free = free_entries_slots [OF ok, of ?full] free_entries_panic [OF ok, of _ ?full]
  show "kernel_bitmap mappable memory_map = None" if "x \<in> set (usable memory_map)" "8 * unat sz \<le> last_page x"
    using free(2) [OF that(1)] that(2) by (simp add: eq)
  have fit: "\<exists>bs. for_each free_entry (usable memory_map) ?full = Some bs \<and> length bs = unat sz
      \<and> (\<forall>n < 8 * unat sz. slot_bit bs n \<longleftrightarrow> (\<forall>e \<in> set (usable memory_map). \<not> covers e n))"
    if "\<forall>x \<in> set (usable memory_map). last_page x < 8 * unat sz"
    using free(1) that full by auto
  show "kernel_bitmap mappable memory_map = None" if "8 * unat sz < unat (entry_base e) + unat sz"
  proof (cases "\<forall>x \<in> set (usable memory_map). last_page x < 8 * unat sz")
    case True
    from fit [OF True] obtain bs where "for_each free_entry (usable memory_map) ?full = Some bs" "length bs = unat sz" by blast
    then show ?thesis using reserve_bitmap_slots(2) [of "entry_base e" bs] base pos that by (simp add: eq)
  next
    case False
    then show ?thesis using free(2) by (auto simp: eq not_less)
  qed
  assume fits: "\<forall>x \<in> set (usable memory_map). last_page x < 8 * unat sz" "unat (entry_base e) + unat sz \<le> 8 * unat sz"
  from fit [OF fits(1)] obtain bs where bs: "for_each free_entry (usable memory_map) ?full = Some bs" "length bs = unat sz"
    "\<forall>n < 8 * unat sz. slot_bit bs n \<longleftrightarrow> (\<forall>e \<in> set (usable memory_map). \<not> covers e n)" by blast
  from reserve_bitmap_slots(1) [of "entry_base e" bs] base pos fits(2) bs(2) obtain bs' where
    "reserve_bitmap (entry_base e) bs = Some bs'" "length bs' = unat sz"
    "\<forall>n < 8 * unat sz. slot_bit bs' n \<longleftrightarrow> slot_bit bs n \<or> unat (entry_base e) div 4096 \<le> n \<and> n < unat (entry_base e) + unat sz" by auto
  then show "\<exists>bitmap. kernel_bitmap mappable memory_map = Some (entry_base e, bitmap) \<and> length bitmap = unat sz
        \<and> (\<forall>n < 8 * unat sz. slot_bit bitmap n \<longleftrightarrow>
             (\<forall>x \<in> set (usable memory_map). \<not> covers x n) \<or> unat (entry_base e) div 4096 \<le> n \<and> n < unat (entry_base e) + unat sz)"
    using bs by (auto simp: eq)
qed

lemma mappable_bytes_ge:
  assumes "mappable_bytes acc memory_map = Some m"
  shows "acc \<le> m" "x \<in> set memory_map \<Longrightarrow> unat (entry_base x) + unat (entry_length x) \<le> unat m"
  using assms
proof (induction memory_map arbitrary: acc)
  case (Cons y ys)
  {
    case 1
    then show ?case using Cons.IH(1) by (fastforce simp: bind_eq_Some_conv)
  next
    case 2
    then obtain past_end where p: "checked_add (entry_base y) (entry_length y) = Some past_end" "mappable_bytes (max acc past_end) ys = Some m"
      by (auto simp: bind_eq_Some_conv)
    have "past_end \<le> m" using Cons.IH(1) [OF p(2)] by simp
    then show ?case using 2 p(1) Cons.IH(2) [OF _ p(2)] by (auto simp: checked_add_Some word_le_nat_alt)
  }
qed simp_all

text \<open>The size of the bitmap, in bytes.\<close>

definition bitmap_size :: "usize \<Rightarrow> nat" where
  "bitmap_size m = align_up 4096 (unat m div 32768)"

lemma page_size_nat:
  "memory_map_page_size m = Some (of_nat (bitmap_size m))" "unat (of_nat (bitmap_size m) :: usize) = bitmap_size m" "bitmap_size m < 2 ^ 52"
proof -
  have m: "unat m div 32768 < 2 ^ 49" using unat_usize_less [of m] by (simp add: less_mult_imp_div_less)
  moreover have "bitmap_size m < unat m div 32768 + 4096" unfolding bitmap_size_def by (rule align_up_bounds(2)) simp
  ultimately show lt: "bitmap_size m < 2 ^ 52" by simp
  then show "unat (of_nat (bitmap_size m) :: usize) = bitmap_size m"
    by (intro unat_of_nat_small) simp
  have "m div (BIT_RATIO * 8) = of_nat (unat m div 32768)"
    unfolding word_unat_eq_iff using m by (simp add: unat_div BIT_RATIO_def unat_of_nat_small)
  then show "memory_map_page_size m = Some (of_nat (bitmap_size m))"
    using next_multiple_of_nat [of 4096 "unat m div 32768"] m by (simp add: memory_map_page_size_def bitmap_size_def)
qed

text \<open>
  C12. The bitmap of the boot entry. With usable entries that are aligned to pages, do not contain page 0 and lie in the range
  of the bitmap, and with the bitmap not above seven times its own size, the page allocator is set up with its invariant:
  exactly the pages of usable entries are free, but for those from the first page of the bitmap up to the page whose
  \<^emph>\<open>number\<close> is the last address of the bitmap. In particular no page of the bitmap is free, but 4096 times too many pages are
  reserved for it.
\<close>

theorem init_page_allocator_correct:
  assumes none: "PAGE_ALLOCATOR s = None" and m: "mappable_bytes 0 memory_map = Some m" and size: "0 < bitmap_size m" "bitmap_size m < 2 ^ 29"
    and aligned: "\<forall>x \<in> set (usable memory_map). 0 < unat (entry_length x) \<and> 4096 dvd unat (entry_base x) \<and> 4096 dvd unat (entry_length x)
      \<and> 4096 \<le> unat (entry_base x) \<and> last_page x < 8 * bitmap_size m"
    and e: "find (\<lambda>entry. entry_type entry = Usable \<and> entry_length entry \<ge> of_nat (bitmap_size m)) memory_map = Some e" "unat (entry_base e) \<le> 7 * bitmap_size m"
  shows "\<exists>pa. init_page_allocator cr3 memory_map s = Some (m, entry_base e, s\<lparr>PAGE_ALLOCATOR := Some pa\<rparr>)
    \<and> pa_inv pa \<and> total_pages pa = m div 4096 \<and> address (page_table pa) = address cr3 \<and> length (memory_bitmap pa) = bitmap_size m
    \<and> pa_used pa = {n \<in> pa_slots pa. (\<forall>x \<in> set (usable memory_map). \<not> covers x n)
        \<or> unat (entry_base e) div 4096 \<le> n \<and> n < unat (entry_base e) + bitmap_size m}"
proof -
  note ps = page_size_nat [of m]
  have ok: "\<forall>x \<in> set (usable memory_map). entry_ok x"
  proof
    fix x assume x: "x \<in> set (usable memory_map)"
    then have "unat (entry_base x) + unat (entry_length x) \<le> unat m" using mappable_bytes_ge(2) [OF m] by (simp add: usable_def)
    then show "entry_ok x" using aligned x unat_usize_less [of m] by (simp add: entry_ok_def)
  qed
  have "\<exists>bitmap. kernel_bitmap m memory_map = Some (entry_base e, bitmap) \<and> length bitmap = bitmap_size m
      \<and> (\<forall>n < 8 * bitmap_size m. slot_bit bitmap n \<longleftrightarrow>
           (\<forall>x \<in> set (usable memory_map). \<not> covers x n) \<or> unat (entry_base e) div 4096 \<le> n \<and> n < unat (entry_base e) + bitmap_size m)"
    using kernel_bitmap_slots(1) [OF ps(1) _ e(1) ok] aligned size e(2) unfolding ps(2) by simp
  then obtain bm where bm: "kernel_bitmap m memory_map = Some (entry_base e, bm)" "length bm = bitmap_size m"
    "\<And>n. n < 8 * bitmap_size m \<Longrightarrow> slot_bit bm n \<longleftrightarrow>
       (\<forall>x \<in> set (usable memory_map). \<not> covers x n) \<or> unat (entry_base e) div 4096 \<le> n \<and> n < unat (entry_base e) + bitmap_size m" by blast
  have "0 \<in> used_slots bm" using bm(2,3) size(1) aligned by (force simp: used_slots_def covers_def)
  moreover have "slot_bit bm n" if n: "n < 8 * length bm" "unat (m div 4096) \<le> n" for n
  proof -
    have "\<not> covers x n" if x: "x \<in> set (usable memory_map)" for x
    proof -
      have le: "unat (entry_base x) + unat (entry_length x) \<le> unat m" using mappable_bytes_ge(2) [OF m] x by (simp add: usable_def)
      obtain k where k: "unat (entry_base x) + unat (entry_length x) = 4096 * k" using aligned x by (meson dvd_add dvdE)
      then have "last_page x < k" using aligned x by (auto simp: last_page_def intro: less_mult_imp_div_less)
      moreover have "k \<le> unat m div 4096" using le k by (simp add: less_eq_div_iff_mult_less_eq)
      ultimately show ?thesis using n(2) by (simp add: covers_def unat_div)
    qed
    then show ?thesis using bm(2,3) n(1) by simp
  qed
  ultimately obtain pa where pa: "init cr3 bm (m div 4096) s = Some (s\<lparr>PAGE_ALLOCATOR := Some pa\<rparr>)" "pa_inv pa" "total_pages pa = m div 4096"
    "memory_bitmap pa = bm" "address (page_table pa) = address cr3"
    using init_new_allocator [OF none, of bm "m div 4096" cr3] bm(2) size(2) by auto
  have "pa_used pa = {n \<in> pa_slots pa. (\<forall>x \<in> set (usable memory_map). \<not> covers x n)
        \<or> unat (entry_base e) div 4096 \<le> n \<and> n < unat (entry_base e) + bitmap_size m}"
    using bm(2,3) pa(4) by (auto simp: pa_used_def used_slots_def pa_slots_def)
  then show ?thesis using pa m bm(1,2) by (intro exI [of _ pa]) (simp add: init_page_allocator_def)
qed

text \<open>A memory map with 64 MiB, and one that has usable memory from 1 MiB only.\<close>

definition map_64 :: "memory_map_entry list" where
  "map_64 = [\<lparr>entry_base = 0, entry_length = 0x1000, entry_type = Reserved\<rparr>,
     \<lparr>entry_base = 0x1000, entry_length = 0x3FFF000, entry_type = Usable\<rparr>]"

definition map_high :: "memory_map_entry list" where
  "map_high = [\<lparr>entry_base = 0x100000, entry_length = 0x3F00000, entry_type = Usable\<rparr>]"

lemma maps_eval:
  "mappable_bytes 0 map_64 = Some 0x4000000" "mappable_bytes 0 map_high = Some 0x4000000" "bitmap_size 0x4000000 = 4096"
  by (simp_all add: map_64_def map_high_def checked_add_def max_def bitmap_size_def align_up_def)

theorem init_page_allocator_correct_witness:
  "\<exists>pa. init_page_allocator 0x1000 map_64 \<lparr>PAGE_ALLOCATOR = None, mem = (\<lambda>_ _. 0)\<rparr> =
      Some (0x4000000, 0x1000, \<lparr>PAGE_ALLOCATOR = Some pa, mem = (\<lambda>_ _. 0)\<rparr>) \<and> pa_inv pa
    \<and> pa_used pa = {n \<in> pa_slots pa. n < 0x2000}"
proof -
  let ?s = "\<lparr>PAGE_ALLOCATOR = None, mem = (\<lambda>_ _. 0)\<rparr> :: machine"
  let ?e = "\<lparr>entry_base = 0x1000, entry_length = 0x3FFF000, entry_type = Usable\<rparr>"
  have u: "usable map_64 = [?e]" by (simp add: usable_def map_64_def)
  have "find (\<lambda>entry. entry_type entry = Usable \<and> entry_length entry \<ge> of_nat (bitmap_size 0x4000000)) map_64 = Some ?e"
    by (simp add: maps_eval) (simp add: map_64_def)
  from init_page_allocator_correct [of ?s map_64 "0x4000000" ?e "0x1000", OF _ maps_eval(1) _ _ _ this]
  obtain pa where pa: "init_page_allocator 0x1000 map_64 ?s = Some (0x4000000, 0x1000, ?s\<lparr>PAGE_ALLOCATOR := Some pa\<rparr>)" "pa_inv pa"
    "total_pages pa = 0x4000"
    "pa_used pa = {n \<in> pa_slots pa. \<not> covers ?e n \<or> 1 \<le> n \<and> n < 0x2000}"
    by (auto simp: u maps_eval last_page_def)
  have "covers ?e n \<longleftrightarrow> 1 \<le> n \<and> n < 0x4000" for n by (auto simp: covers_def last_page_def)
  moreover have "n < 0x4000" if "n \<in> pa_slots pa" for n using that pa(3) by (simp add: pa_slots_def)
  ultimately have "pa_used pa = {n \<in> pa_slots pa. n < 0x2000}" unfolding pa(4) by (fastforce simp: pa_slots_def)
  then show ?thesis using pa(1,2) by (intro exI [of _ pa]) simp
qed

text \<open>
  C34. When the memory map has an entry large enough for the bitmap, the boot entry panics while it builds the bitmap exactly when a usable entry ends past the bitmap, whose size is
  rounded down before it is rounded up to pages, or when the bitmap is placed above seven times its own size, because its
  last address is taken for a page number.
\<close>

theorem kernel_bitmap_panics:
  assumes m: "mappable_bytes 0 memory_map = Some m" and size: "0 < bitmap_size m"
    and pos: "\<forall>x \<in> set (usable memory_map). 0 < unat (entry_length x) \<and> unat (entry_base x) + unat (entry_length x) < 2 ^ 64"
    and e: "find (\<lambda>entry. entry_type entry = Usable \<and> entry_length entry \<ge> of_nat (bitmap_size m)) memory_map = Some e"
  shows "kernel_bitmap m memory_map = None \<longleftrightarrow>
    (\<exists>x \<in> set (usable memory_map). 8 * bitmap_size m \<le> last_page x) \<or> 7 * bitmap_size m < unat (entry_base e)"
proof -
  note ps = page_size_nat [of m]
  have ok: "\<forall>x \<in> set (usable memory_map). entry_ok x" using pos by (simp add: entry_ok_def)
  note slots = kernel_bitmap_slots [OF ps(1) _ e ok, unfolded ps(2), OF ps(3) size]
  show ?thesis
  proof (cases "(\<exists>x \<in> set (usable memory_map). 8 * bitmap_size m \<le> last_page x) \<or> 7 * bitmap_size m < unat (entry_base e)")
    case True
    then show ?thesis using slots(2,3) by auto
  next
    case False
    then show ?thesis using slots(1) by (force simp: not_le not_less)
  qed
qed

theorem kernel_bitmap_panics_witness: "kernel_bitmap 0x4000000 map_high = None"
proof -
  let ?e = "\<lparr>entry_base = 0x100000, entry_length = 0x3F00000, entry_type = Usable\<rparr>"
  have "find (\<lambda>entry. entry_type entry = Usable \<and> entry_length entry \<ge> of_nat (bitmap_size 0x4000000)) map_high = Some ?e"
    by (simp add: maps_eval) (simp add: map_high_def)
  from kernel_bitmap_panics [OF maps_eval(2) _ _ this] show ?thesis by (simp add: maps_eval) (simp add: usable_def map_high_def)
qed

subsection \<open>Framebuffers\<close>

text \<open>The framebuffers with 32 bits in the RGB model are kept, up to the capacity.\<close>

definition supported :: "limine_framebuffer \<Rightarrow> bool" where
  "supported fb \<longleftrightarrow> lfb_bpp fb = 32 \<and> lfb_memory_model fb = FramebufferModel_Rgb"

lemma push_framebuffers_spec:
  assumes "length acc < capacity" "\<forall>fb \<in> set fbs. supported fb \<longrightarrow> convert_framebuffer fb = Some (f fb)"
  shows "push_framebuffers capacity acc fbs = Some (take capacity (acc @ map f (filter supported fbs)))"
  using assms
proof (induction fbs arbitrary: acc)
  case (Cons fb fbs)
  show ?case
  proof (cases "supported fb")
    case True
    have c: "convert_framebuffer fb = Some (f fb)" using Cons.prems(2) True by simp
    show ?thesis
    proof (cases "Suc (length acc) = capacity")
      case full: True
      then show ?thesis using True c by (auto simp: supported_def take_Cons')
    next
      case False
      then have "length (acc @ [f fb]) < capacity" using Cons.prems(1) by simp
      from Cons.IH [OF this] Cons.prems(2) show ?thesis using True c False by (simp add: supported_def)
    qed
  next
    case False
    then show ?thesis using Cons by (auto simp: supported_def)
  qed
qed simp

end
