(* ===== verification/Hardware.thy ===== *)
theory Hardware
  imports Prelude
begin

text \<open>
  The instructions through which the kernel reaches the hardware (\<^verbatim>\<open>src/kernel/src/arch/x86_64/mod.rs\<close>, modules \<open>msr\<close> and
  \<open>port\<close>) and the processor identification of \<^verbatim>\<open>cpuid.rs\<close>. The devices are no part of the kernel: the state of all of them is a
  value of the type \<open>'d\<close>, and a \<open>bus\<close> says what each instruction does to it.
\<close>

subsection \<open>The bus\<close>

record cpuid_result =
  eax :: u32
  ebx :: u32
  ecx :: u32
  edx :: u32

text \<open>
  Volatile reads and writes of device memory, port input and output, the model-specific registers as the pair of \<^verbatim>\<open>eax\<close> and
  \<^verbatim>\<open>edx\<close>, and \<^verbatim>\<open>sti; hlt; cli\<close>, which gives the vectors of the interrupts that arrive before interrupts are disabled again, or
  nothing when the processor never wakes up. The answers of \<^verbatim>\<open>cpuid\<close> are fixed.
\<close>

record 'd bus =
  mmio_read :: "usize \<Rightarrow> 'd \<Rightarrow> u32 \<times> 'd"
  mmio_write :: "usize \<Rightarrow> u32 \<Rightarrow> 'd \<Rightarrow> 'd"
  port_in :: "u16 \<Rightarrow> 'd \<Rightarrow> u8 \<times> 'd"
  port_out :: "u16 \<Rightarrow> u8 \<Rightarrow> 'd \<Rightarrow> 'd"
  rdmsr :: "u32 \<Rightarrow> 'd \<Rightarrow> (u32 \<times> u32) \<times> 'd"
  wrmsr :: "u32 \<Rightarrow> u32 \<times> u32 \<Rightarrow> 'd \<Rightarrow> 'd"
  sti_hlt_cli :: "'d \<Rightarrow> (u8 list \<times> 'd) option"
  cpuid :: "u32 \<Rightarrow> cpuid_result"

subsection \<open>Model-specific registers and ports\<close>

definition msr_read :: "'d bus \<Rightarrow> u32 \<Rightarrow> 'd \<Rightarrow> u64 \<times> 'd" where
  "msr_read bus index d =
     (let ((low, high), d') = rdmsr bus index d in (push_bit 32 (ucast high) OR ucast low, d'))"

text \<open>The instruction is \<^verbatim>\<open>rdmsr\<close> here too: the value loaded into the registers is overwritten, never written.\<close>

definition msr_write :: "'d bus \<Rightarrow> u32 \<Rightarrow> u64 \<Rightarrow> 'd \<Rightarrow> 'd" where
  "msr_write bus index v d = snd (rdmsr bus index d)"

definition GS_BASE :: u32 where "GS_BASE = 0xC0000101"

definition port_read_byte :: "'d bus \<Rightarrow> u16 \<Rightarrow> 'd \<Rightarrow> u8 \<times> 'd" where
  "port_read_byte bus port d = port_in bus port d"

definition port_write_byte :: "'d bus \<Rightarrow> u16 \<Rightarrow> u8 \<Rightarrow> 'd \<Rightarrow> 'd" where
  "port_write_byte bus port byte d = port_out bus port byte d"

definition BOCHS_DEBUG :: u16 where "BOCHS_DEBUG = 0xE9"
definition CMOS_NMI_AND_REGISTER :: u16 where "CMOS_NMI_AND_REGISTER = 0x70"
definition CMOS_DATA :: u16 where "CMOS_DATA = 0x71"

subsection \<open>Processor identification\<close>

record cpuid_info =
  cpu_vendor_id :: "u8 list"
  local_apic_timer_tsc_deadline :: bool
  brand_string_bytes :: "u8 list option"
  invariant_tsc :: bool

definition cpuid_result_to_le_bytes :: "cpuid_result \<Rightarrow> u8 list" where
  "cpuid_result_to_le_bytes regs = le_bytes 4 (eax regs) @ le_bytes 4 (ebx regs) @ le_bytes 4 (ecx regs) @ le_bytes 4 (edx regs)"

definition generate_info :: "(u32 \<Rightarrow> cpuid_result) \<Rightarrow> cpuid_info" where
  "generate_info leaf =
     (let regs = leaf 0;
          standard_maximum_level = eax regs;
          vendor = le_bytes 4 (ebx regs) @ le_bytes 4 (edx regs) @ le_bytes 4 (ecx regs);
          extended_maximum_level = eax (leaf 0x80000000)
      in \<lparr>cpu_vendor_id = vendor,
          local_apic_timer_tsc_deadline = (1 \<le> standard_maximum_level \<and> ecx (leaf 1) AND 0x1000000 \<noteq> 0),
          brand_string_bytes =
            (if 0x80000004 \<le> extended_maximum_level
             then Some (cpuid_result_to_le_bytes (leaf 0x80000002) @ cpuid_result_to_le_bytes (leaf 0x80000002)
                          @ cpuid_result_to_le_bytes (leaf 0x80000003))
             else None),
          invariant_tsc = (0x80000007 \<le> extended_maximum_level \<and> edx (leaf 0x80000007) AND 0x100 \<noteq> 0)\<rparr>)"

lemma length_cpuid_result_to_le_bytes [simp]: "length (cpuid_result_to_le_bytes regs) = 16"
  by (simp add: cpuid_result_to_le_bytes_def)

text \<open>
  The identification has the lengths of its array types. When the processor has a brand string, the middle third of the stored one
  repeats the first third, and the processor's last third is not read at all: two processors that differ only there look alike.
\<close>

lemma generate_info_brand_string:
  "length (cpu_vendor_id (generate_info leaf)) = 12"
  "brand_string_bytes (generate_info leaf) = Some bytes \<Longrightarrow> length bytes = 48 \<and> take 16 (drop 16 bytes) = take 16 bytes"
  "generate_info (leaf(0x80000004 := regs)) = generate_info leaf"
  by (auto simp: generate_info_def Let_def split: if_splits)

end
