(* ===== verification/Apic.thy ===== *)
theory Apic
  imports Hardware Page_Walk
begin

text \<open>
  The interrupt controllers of \<^verbatim>\<open>src/kernel/src/arch/x86_64/apic.rs\<close>: the registers of the local APIC of the processor and of the
  I/O APICs that route the interrupts of the devices, with the bit fields of a timer register and of a redirection entry.
\<close>

subsection \<open>Bit fields\<close>

text \<open>The getters and setters that the \<^verbatim>\<open>bitfield!\<close> declarations name, for the bits \<open>msb\<close> down to \<open>lsb\<close> and for a single bit.\<close>

definition bit_range :: "nat \<Rightarrow> nat \<Rightarrow> 'a::len word \<Rightarrow> u8" where
  "bit_range msb lsb w = ucast (take_bit (msb + 1 - lsb) (drop_bit lsb w))"

definition set_bit_range :: "nat \<Rightarrow> nat \<Rightarrow> u8 \<Rightarrow> 'a::len word \<Rightarrow> 'a word" where
  "set_bit_range msb lsb v w =
     (w AND NOT (push_bit lsb (mask (msb + 1 - lsb)))) OR push_bit lsb (take_bit (msb + 1 - lsb) (ucast v))"

definition set_bit_bool :: "nat \<Rightarrow> bool \<Rightarrow> 'a::len word \<Rightarrow> 'a word" where
  "set_bit_bool i b w = (if b then set_bit i w else unset_bit i w)"

subsection \<open>The local APIC\<close>

datatype local_apic_register =
    LapicId | LapicVersion | TaskPriority | LocalArbitrationPriority | ProcessorPriority | Eoi | RemoteRead
  | LogicalDestination | DestinationFormat | SpuriousInterruptVector | ErrorStatus | LvtCmci | LvtTimer | LvtThermalSensor
  | LvtPerfMonitoringCounters | LvtLint0 | LvtLint1 | LvtError | InitialCount | CurrentCount | DivideConfiguration

fun local_get_properties :: "local_apic_register \<Rightarrow> usize \<times> bool \<times> bool" where
  "local_get_properties LapicId = (0x20, True, True)"
| "local_get_properties LapicVersion = (0x30, True, False)"
| "local_get_properties TaskPriority = (0x80, True, True)"
| "local_get_properties LocalArbitrationPriority = (0x90, True, False)"
| "local_get_properties ProcessorPriority = (0xA0, True, False)"
| "local_get_properties Eoi = (0xB0, False, True)"
| "local_get_properties RemoteRead = (0xC0, True, False)"
| "local_get_properties LogicalDestination = (0xD0, True, True)"
| "local_get_properties DestinationFormat = (0xE0, True, True)"
| "local_get_properties SpuriousInterruptVector = (0xF0, True, True)"
| "local_get_properties ErrorStatus = (0x280, True, False)"
| "local_get_properties LvtCmci = (0x2F0, True, True)"
| "local_get_properties LvtTimer = (0x320, True, True)"
| "local_get_properties LvtThermalSensor = (0x330, True, True)"
| "local_get_properties LvtPerfMonitoringCounters = (0x340, True, True)"
| "local_get_properties LvtLint0 = (0x350, True, True)"
| "local_get_properties LvtLint1 = (0x360, True, True)"
| "local_get_properties LvtError = (0x370, True, True)"
| "local_get_properties InitialCount = (0x380, True, True)"
| "local_get_properties CurrentCount = (0x390, True, False)"
| "local_get_properties DivideConfiguration = (0x3E0, True, True)"

text \<open>A \<^verbatim>\<open>LocalApic\<close> is the address of its registers.\<close>

definition local_read_register :: "'d bus \<Rightarrow> usize \<Rightarrow> local_apic_register \<Rightarrow> 'd \<Rightarrow> (u32 \<times> 'd) option" where
  "local_read_register bus apic register d =
     (case local_get_properties register of (offset, may_read, _) \<Rightarrow>
        do { guard may_read;
             address \<leftarrow> checked_add apic offset;
             Some (mmio_read bus address d) })"

definition local_write_register :: "'d bus \<Rightarrow> usize \<Rightarrow> local_apic_register \<Rightarrow> u32 \<Rightarrow> 'd \<Rightarrow> 'd option" where
  "local_write_register bus apic register v d =
     (case local_get_properties register of (offset, _, may_write) \<Rightarrow>
        do { guard may_write;
             address \<leftarrow> checked_add apic offset;
             Some (mmio_write bus address v d) })"

definition local_signal_eoi :: "'d bus \<Rightarrow> usize \<Rightarrow> 'd \<Rightarrow> 'd option" where
  "local_signal_eoi bus apic d = local_write_register bus apic Eoi 0 d"

text \<open>\<open>LOCAL_APIC_BASE\<close> is the address that the linker script gives the symbol of that name.\<close>

definition local_apic_new :: "usize \<Rightarrow> usize \<Rightarrow> machine \<Rightarrow> (usize \<times> machine) option" where
  "local_apic_new LOCAL_APIC_BASE base m =
     do { (r, m) \<leftarrow> map_page_translation m base LOCAL_APIC_BASE READ_WRITE;
          case r of Inl _ \<Rightarrow> None | Inr _ \<Rightarrow> Some (LOCAL_APIC_BASE, m) }"

text \<open>The bytes that the initialisation sends to the two legacy interrupt controllers, in order; the last two mask all their interrupts.\<close>

definition pic_sequence :: "(u16 \<times> u8) list" where
  "pic_sequence =
     [(0x20, 0x11), (0xA0, 0x11), (0x21, 0x20), (0xA1, 0x28), (0x21, 0x04), (0xA1, 0x02), (0x21, 0x01), (0xA1, 0x01),
      (0xA1, 0xFF), (0x21, 0xFF)]"

definition enable_bsp_local_apic :: "'d bus \<Rightarrow> usize \<Rightarrow> 'd \<Rightarrow> 'd option" where
  "enable_bsp_local_apic bus apic d =
     (let d = fold (\<lambda>(port, byte). port_out bus port byte) pic_sequence d;
          ((low, high), d) = rdmsr bus 0x1B d;
          d = wrmsr bus 0x1B (low OR 0x800, high) d
      in local_write_register bus apic SpuriousInterruptVector 0x1FF d)"

datatype timer_mode_t = OneShot | Periodic | TscDeadline | TimerReserved

fun timer_mode_u8 :: "timer_mode_t \<Rightarrow> u8" where
  "timer_mode_u8 OneShot = 0"
| "timer_mode_u8 Periodic = 1"
| "timer_mode_u8 TscDeadline = 2"
| "timer_mode_u8 TimerReserved = 3"

text \<open>A \<^verbatim>\<open>TimerLvt\<close> is a 32-bit word.\<close>

definition timer_interrupt_vector :: "u32 \<Rightarrow> u8" where "timer_interrupt_vector w = bit_range 7 0 w"
definition timer_set_interrupt_vector :: "u8 \<Rightarrow> u32 \<Rightarrow> u32" where "timer_set_interrupt_vector v w = set_bit_range 7 0 v w"
definition timer_interrupt_pending :: "u32 \<Rightarrow> bool" where "timer_interrupt_pending w = bit w 12"
definition timer_masked :: "u32 \<Rightarrow> bool" where "timer_masked w = bit w 16"
definition timer_set_masked :: "bool \<Rightarrow> u32 \<Rightarrow> u32" where "timer_set_masked b w = set_bit_bool 16 b w"

definition timer_mode :: "u32 \<Rightarrow> timer_mode_t option" where
  "timer_mode w =
     (let m = bit_range 18 17 w
      in if m = 0 then Some OneShot else if m = 1 then Some Periodic else if m = 2 then Some TscDeadline
         else if m = 3 then Some TimerReserved else None)"

definition set_timer_mode :: "timer_mode_t \<Rightarrow> u32 \<Rightarrow> u32" where
  "set_timer_mode m w = set_bit_range 18 17 (timer_mode_u8 m) w"

subsection \<open>Redirection entries\<close>

datatype delivery_mode_t =
  Normal | LowPriority | SystemManagementInterrupt | Unknown1 | NonMaskableInterrupt | DeliverInit | Unknown2 | External

fun delivery_mode_u8 :: "delivery_mode_t \<Rightarrow> u8" where
  "delivery_mode_u8 Normal = 0"
| "delivery_mode_u8 LowPriority = 1"
| "delivery_mode_u8 SystemManagementInterrupt = 2"
| "delivery_mode_u8 Unknown1 = 3"
| "delivery_mode_u8 NonMaskableInterrupt = 4"
| "delivery_mode_u8 DeliverInit = 5"
| "delivery_mode_u8 Unknown2 = 6"
| "delivery_mode_u8 External = 7"

datatype destination_mode_t = Physical | Logical
datatype polarity_t = High | Low
datatype level_triggered_interrupt_status_t = EoiSent | InterruptReceived
datatype trigger_mode_t = EdgeSensitive | LevelSensitive

text \<open>A \<^verbatim>\<open>RedirectionEntry\<close> is a 64-bit word.\<close>

definition interrupt_vector :: "u64 \<Rightarrow> u8" where "interrupt_vector w = bit_range 7 0 w"
definition set_interrupt_vector :: "u8 \<Rightarrow> u64 \<Rightarrow> u64" where "set_interrupt_vector v w = set_bit_range 7 0 v w"
definition interrupt_pending :: "u64 \<Rightarrow> bool" where "interrupt_pending w = bit w 12"
definition masked :: "u64 \<Rightarrow> bool" where "masked w = bit w 16"
definition set_masked :: "bool \<Rightarrow> u64 \<Rightarrow> u64" where "set_masked b w = set_bit_bool 16 b w"
definition destination :: "u64 \<Rightarrow> u8" where "destination w = bit_range 63 56 w"
definition set_destination :: "u8 \<Rightarrow> u64 \<Rightarrow> u64" where "set_destination v w = set_bit_range 63 56 v w"

definition delivery_mode :: "u64 \<Rightarrow> delivery_mode_t option" where
  "delivery_mode w =
     (let m = bit_range 10 8 w
      in if m = 0 then Some Normal else if m = 1 then Some LowPriority else if m = 2 then Some SystemManagementInterrupt
         else if m = 3 then Some Unknown1 else if m = 4 then Some NonMaskableInterrupt else if m = 5 then Some DeliverInit
         else if m = 6 then Some Unknown1 else if m = 7 then Some External else None)"

definition set_delivery_mode :: "delivery_mode_t \<Rightarrow> u64 \<Rightarrow> u64" where
  "set_delivery_mode m w = set_bit_range 10 8 (delivery_mode_u8 m) w"

definition destination_mode :: "u64 \<Rightarrow> destination_mode_t" where "destination_mode w = (if bit w 11 then Logical else Physical)"
definition set_destination_mode :: "destination_mode_t \<Rightarrow> u64 \<Rightarrow> u64" where
  "set_destination_mode m w = set_bit_bool 11 (m = Logical) w"

definition polarity :: "u64 \<Rightarrow> polarity_t" where "polarity w = (if bit w 13 then Low else High)"
definition set_polarity :: "polarity_t \<Rightarrow> u64 \<Rightarrow> u64" where "set_polarity p w = set_bit_bool 13 (p = Low) w"

definition level_triggered_interrupt_status :: "u64 \<Rightarrow> level_triggered_interrupt_status_t" where
  "level_triggered_interrupt_status w = (if bit w 14 then InterruptReceived else EoiSent)"
definition set_level_triggered_interrupt_status :: "level_triggered_interrupt_status_t \<Rightarrow> u64 \<Rightarrow> u64" where
  "set_level_triggered_interrupt_status st w = set_bit_bool 14 (st = InterruptReceived) w"

definition trigger_mode :: "u64 \<Rightarrow> trigger_mode_t" where "trigger_mode w = (if bit w 15 then LevelSensitive else EdgeSensitive)"
definition set_trigger_mode :: "trigger_mode_t \<Rightarrow> u64 \<Rightarrow> u64" where
  "set_trigger_mode m w = set_bit_bool 15 (m = LevelSensitive) w"

subsection \<open>The I/O APIC\<close>

record io_apic =
  io_base_address :: usize
  io_id :: u8
  global_system_interrupt_base :: u32
  num_redirection_entries :: u16

datatype io_apic_register = IoApicId | NumRedirectionEntries | IoArbitrationPriority

fun io_get_properties :: "io_apic_register \<Rightarrow> u32 \<times> bool \<times> bool" where
  "io_get_properties IoApicId = (0, True, True)"
| "io_get_properties NumRedirectionEntries = (1, True, False)"
| "io_get_properties IoArbitrationPriority = (2, True, False)"

text \<open>Writing the number of a register to the selection register and accessing the window.\<close>

definition select_read :: "'d bus \<Rightarrow> io_apic \<Rightarrow> u32 \<Rightarrow> 'd \<Rightarrow> (u32 \<times> 'd) option" where
  "select_read bus io index d =
     do { let d = mmio_write bus (io_base_address io) index d;
          window \<leftarrow> checked_add (io_base_address io) 0x10;
          Some (mmio_read bus window d) }"

definition select_write :: "'d bus \<Rightarrow> io_apic \<Rightarrow> u32 \<Rightarrow> u32 \<Rightarrow> 'd \<Rightarrow> 'd option" where
  "select_write bus io index v d =
     do { let d = mmio_write bus (io_base_address io) index d;
          window \<leftarrow> checked_add (io_base_address io) 0x10;
          Some (mmio_write bus window v d) }"

definition io_read_register :: "'d bus \<Rightarrow> io_apic \<Rightarrow> io_apic_register \<Rightarrow> 'd \<Rightarrow> (u32 \<times> 'd) option" where
  "io_read_register bus io register d =
     (case io_get_properties register of (index, may_read, _) \<Rightarrow> do { guard may_read; select_read bus io index d })"

definition io_write_register :: "'d bus \<Rightarrow> io_apic \<Rightarrow> io_apic_register \<Rightarrow> u32 \<Rightarrow> 'd \<Rightarrow> 'd option" where
  "io_write_register bus io register v d =
     (case io_get_properties register of (index, _, may_write) \<Rightarrow> do { guard may_write; select_write bus io index v d })"

definition read_redirection_entry :: "'d bus \<Rightarrow> io_apic \<Rightarrow> u8 \<Rightarrow> 'd \<Rightarrow> (u64 \<times> 'd) option" where
  "read_redirection_entry bus io i d =
     do { guard (ucast i < num_redirection_entries io);
          twice \<leftarrow> checked_mul i 2;
          register_start_index \<leftarrow> checked_add twice 0x10;
          (lower, d) \<leftarrow> select_read bus io (ucast register_start_index) d;
          (upper, d) \<leftarrow> select_read bus io (ucast register_start_index + 1) d;
          Some (push_bit 32 (ucast upper) OR ucast lower, d) }"

definition write_redirection_entry :: "'d bus \<Rightarrow> io_apic \<Rightarrow> u8 \<Rightarrow> u64 \<Rightarrow> 'd \<Rightarrow> 'd option" where
  "write_redirection_entry bus io i entry d =
     do { guard (ucast i < num_redirection_entries io);
          twice \<leftarrow> checked_mul i 2;
          register_start_index \<leftarrow> checked_add twice 0x10;
          d \<leftarrow> select_write bus io (ucast register_start_index) (ucast entry) d;
          select_write bus io (ucast register_start_index + 1) (ucast (drop_bit 32 entry)) d }"

definition io_apic_new :: "'d bus \<Rightarrow> usize \<Rightarrow> u8 \<Rightarrow> u32 \<Rightarrow> machine \<times> 'd \<Rightarrow> (io_apic \<times> machine \<times> 'd) option" where
  "io_apic_new bus base_address ident gsi_base st =
     (case st of (m, d) \<Rightarrow>
        do { mapped \<leftarrow> is_address_identity_mapped m base_address;
             m \<leftarrow> (if mapped then Some m
                   else do { (r, m) \<leftarrow> map_page_translation m base_address base_address READ_WRITE;
                             case r of Inl _ \<Rightarrow> None | Inr _ \<Rightarrow> Some m });
             let io = \<lparr>io_base_address = base_address, io_id = ident, global_system_interrupt_base = gsi_base,
                       num_redirection_entries = 0\<rparr>;
             (n, d) \<leftarrow> io_read_register bus io NumRedirectionEntries d;
             let n = (ucast n :: u16);
             guard (n < 0x3F);
             Some (io\<lparr>num_redirection_entries := n\<rparr>, m, d) })"

end
