(* ===== verification/Madt.thy ===== *)
theory Madt
  imports Prelude
begin

text \<open>
  The kernel's view of ACPI: the status codes of \<^verbatim>\<open>src/kernel/src/platform/acpi/acpica_sys.rs\<close>, the errors of \<^verbatim>\<open>mod.rs\<close> and the
  iterator over the entries of the MADT, the table that describes the interrupt controllers. Memory is a function from addresses to
  bytes; the iterator is a recursion that may not end, so its type is an option.
\<close>

subsection \<open>Status codes\<close>

datatype acpi_error_code = Environment | Programmer | AcpiTable | Aml | Control | UnknownCode

definition acpi_error_code_from :: "u16 \<Rightarrow> acpi_error_code" where
  "acpi_error_code_from v =
     (if v = 0 then Environment else if v = 1 then Programmer else if v = 2 then AcpiTable
      else if v = 3 then Aml else if v = 4 then Control else UnknownCode)"

text \<open>The discriminant of \<^verbatim>\<open>acpica_sys::Code\<close>, whose constructors are those of \<open>acpi_error_code\<close> without the last.\<close>

fun code_discriminant :: "acpi_error_code \<Rightarrow> u32" where
  "code_discriminant Environment = 0"
| "code_discriminant Programmer = 1"
| "code_discriminant AcpiTable = 2"
| "code_discriminant Aml = 3"
| "code_discriminant Control = 4"
| "code_discriminant UnknownCode = 5"

text \<open>A status is a 32-bit word. In \<^verbatim>\<open>code as u32 & 0xF << 12\<close> the shift binds tighter than the conjunction.\<close>

definition status_exception :: "u32 \<Rightarrow> u16" where "status_exception s = ucast (take_bit 12 s)"
definition status_code :: "u32 \<Rightarrow> u16" where "status_code s = ucast (take_bit 4 (drop_bit 12 s))"

definition status_new :: "acpi_error_code \<Rightarrow> u16 \<Rightarrow> u32" where
  "status_new code exception = (ucast exception AND 0xFFF) OR (code_discriminant code AND push_bit 12 0xF)"

definition status_OK :: u32 where "status_OK = 0"
definition NO_MEMORY :: u32 where "NO_MEMORY = status_new Environment 0x4"
definition TIME :: u32 where "TIME = status_new Environment 0x11"
definition BAD_PARAMETER :: u32 where "BAD_PARAMETER = status_new Programmer 0x1"

record acpi_error =
  acpi_code :: acpi_error_code
  acpi_exception :: u16

definition result_from_status :: "u32 \<Rightarrow> acpi_error + unit" where
  "result_from_status status =
     (let code = acpi_error_code_from (status_code status);
          exception = status_exception status
      in if code = Environment \<and> exception = 0 then Inr () else Inl \<lparr>acpi_code = code, acpi_exception = exception\<rparr>)"

text \<open>The class that \<^verbatim>\<open>Status::new\<close> is given is lost: every status it makes is an environmental one.\<close>

lemma result_from_status_new:
  "result_from_status (status_new code exception)
     = (if take_bit 12 exception = 0 then Inr () else Inl \<lparr>acpi_code = Environment, acpi_exception = take_bit 12 exception\<rparr>)"
proof -
  have lost: "code_discriminant code AND push_bit 12 0xF = 0" by (cases code) simp_all
  have eq: "status_new code exception = take_bit 12 (ucast exception)"
    unfolding status_new_def lost by (simp add: take_bit_eq_mask mask_eq_exp_minus_1)
  have c: "drop_bit 12 (status_new code exception) = 0" unfolding eq by (simp add: drop_bit_take_bit)
  have x: "status_exception (status_new code exception) = take_bit 12 exception"
    unfolding status_exception_def eq by (rule bit_word_eqI) (auto simp: bit_simps)
  show ?thesis unfolding result_from_status_def Let_def x by (simp add: status_code_def c acpi_error_code_from_def)
qed

subsection \<open>The table\<close>

definition read_le :: "nat \<Rightarrow> (usize \<Rightarrow> u8) \<Rightarrow> usize \<Rightarrow> 'a::len word" where
  "read_le n bytes a = of_le_bytes (map (\<lambda>i. bytes (a + of_nat i)) [0..<n])"

text \<open>The fields of \<^verbatim>\<open>Madt\<close> that the kernel uses, and its size.\<close>

definition size_of_madt :: usize where "size_of_madt = 44"
definition madt_length :: "(usize \<Rightarrow> u8) \<Rightarrow> usize \<Rightarrow> u32" where "madt_length bytes madt = read_le 4 bytes (madt + 4)"
definition bsp_local_apic_address :: "(usize \<Rightarrow> u8) \<Rightarrow> usize \<Rightarrow> u32" where
  "bsp_local_apic_address bytes madt = read_le 4 bytes (madt + 36)"
definition madt_flags :: "(usize \<Rightarrow> u8) \<Rightarrow> usize \<Rightarrow> u32" where "madt_flags bytes madt = read_le 4 bytes (madt + 40)"

datatype madt_entry =
    LocalApic u8 u8 u32
  | IoApic u8 u32 u32
  | InterruptSourceOverride u8 u8 u32 u16
  | Nmi u8 u16 u8
  | LocalApicAddressOverride u64

record madt_entry_iterator =
  current_header :: usize
  end_address :: usize

definition entry_iter :: "(usize \<Rightarrow> u8) \<Rightarrow> usize \<Rightarrow> madt_entry_iterator option" where
  "entry_iter bytes madt =
     do { header \<leftarrow> checked_add madt size_of_madt;
          past_end \<leftarrow> checked_add madt (ucast (madt_length bytes madt));
          last_address \<leftarrow> checked_sub past_end 1;
          Some \<lparr>current_header = header, end_address = last_address\<rparr> }"

text \<open>The fields of the packed structure that the type of the entry names.\<close>

definition decode_entry :: "(usize \<Rightarrow> u8) \<Rightarrow> usize \<Rightarrow> madt_entry option" where
  "decode_entry bytes h =
     (let ty = bytes h
      in if ty = 0 then Some (LocalApic (bytes (h + 2)) (bytes (h + 3)) (read_le 4 bytes (h + 4)))
         else if ty = 1 then Some (IoApic (bytes (h + 2)) (read_le 4 bytes (h + 4)) (read_le 4 bytes (h + 8)))
         else if ty = 2
         then Some (InterruptSourceOverride (bytes (h + 2)) (bytes (h + 3)) (read_le 4 bytes (h + 4)) (read_le 2 bytes (h + 8)))
         else if ty = 4 then Some (Nmi (bytes (h + 2)) (read_le 2 bytes (h + 3)) (bytes (h + 5)))
         else if ty = 5 then Some (LocalApicAddressOverride (read_le 8 bytes (h + 4)))
         else None)"

text \<open>
  The iterator skips an entry of another type by calling itself. The recursion is not bounded: entries of other types in a row
  take stack, and one of length zero overflows it, which is \<open>None\<close> here like every other failure.
\<close>

partial_function (option) madt_next ::
  "(usize \<Rightarrow> u8) \<Rightarrow> madt_entry_iterator \<Rightarrow> (madt_entry option \<times> madt_entry_iterator) option" where
  "madt_next bytes it =
     (if end_address it \<le> current_header it then Some (None, it)
      else
        do { let header_address = current_header it;
             let header_length = ucast (bytes (header_address + 1));
             header \<leftarrow> checked_add header_address header_length;
             let it = it\<lparr>current_header := header\<rparr>;
             case decode_entry bytes header_address of
               Some entry \<Rightarrow> Some (Some entry, it)
             | None \<Rightarrow> madt_next bytes it })"

text \<open>A \<^verbatim>\<open>for\<close> loop over the entries.\<close>

partial_function (option) for_entries ::
  "(usize \<Rightarrow> u8) \<Rightarrow> (madt_entry \<Rightarrow> 's \<Rightarrow> 's option) \<Rightarrow> madt_entry_iterator \<Rightarrow> 's \<Rightarrow> 's option" where
  "for_entries bytes body it s =
     do { (entry, it) \<leftarrow> madt_next bytes it;
          case entry of
            None \<Rightarrow> Some s
          | Some entry \<Rightarrow> do { s \<leftarrow> body entry s; for_entries bytes body it s } }"

declare madt_next.simps [code] for_entries.simps [code]

subsection \<open>Entries in memory\<close>

text \<open>The bytes of an entry as the firmware writes them. Entries of other types have their length in the second byte too.\<close>

fun encode_entry :: "madt_entry \<Rightarrow> u8 list" where
  "encode_entry (LocalApic processor apic flags) = [0, 8, processor, apic] @ le_bytes 4 flags"
| "encode_entry (IoApic ident addr gsi_base) = [1, 12, ident, 0] @ le_bytes 4 addr @ le_bytes 4 gsi_base"
| "encode_entry (InterruptSourceOverride bus_source irq_source gsi flags) = [2, 10, bus_source, irq_source] @ le_bytes 4 gsi @ le_bytes 2 flags"
| "encode_entry (Nmi processor flags lint) = [4, 6, processor] @ le_bytes 2 flags @ [lint]"
| "encode_entry (LocalApicAddressOverride addr) = [5, 12, 0, 0] @ le_bytes 8 addr"

datatype madt_item = Known madt_entry | Other u8 "u8 list"

fun encode_item :: "madt_item \<Rightarrow> u8 list" where
  "encode_item (Known entry) = encode_entry entry"
| "encode_item (Other ty payload) = [ty, of_nat (2 + length payload)] @ payload"

fun item_ok :: "madt_item \<Rightarrow> bool" where
  "item_ok (Known _) = True"
| "item_ok (Other ty payload) = (ty \<notin> {0, 1, 2, 4, 5} \<and> length payload < 254)"

fun known_entries :: "madt_item list \<Rightarrow> madt_entry list" where
  "known_entries [] = []"
| "known_entries (Known entry # items) = entry # known_entries items"
| "known_entries (Other _ _ # items) = known_entries items"

fun holds :: "(usize \<Rightarrow> u8) \<Rightarrow> usize \<Rightarrow> u8 list \<Rightarrow> bool" where
  "holds bytes a [] = True"
| "holds bytes a (x # xs) = (bytes a = x \<and> holds bytes (a + 1) xs)"

lemma holds_append [simp]: "holds bytes a (xs @ ys) = (holds bytes a xs \<and> holds bytes (a + of_nat (length xs)) ys)"
  by (induction xs arbitrary: a) (simp_all add: algebra_simps)

lemma holds_map: "holds bytes a xs \<Longrightarrow> map (\<lambda>i. bytes (a + of_nat i)) [0..<length xs] = xs"
proof (induction xs arbitrary: a)
  case (Cons x xs)
  then have "map (\<lambda>i. bytes (a + 1 + of_nat i)) [0..<length xs] = xs" "bytes a = x" by simp_all
  then show ?case by (simp add: upt_conv_Cons map_Suc_upt [symmetric] comp_def add_ac del: upt_Suc)
qed simp

lemma read_le_holds:
  "holds bytes a (le_bytes n (w :: 'a::len word)) \<Longrightarrow> LENGTH('a) \<le> 8 * n \<Longrightarrow> read_le n bytes a = w"
  using holds_map [of bytes a "le_bytes n w"] by (simp add: read_le_def of_le_bytes_le_bytes take_bit_word_eq_self)

lemma decode_encode_entry:
  assumes "holds bytes h (encode_entry entry)"
  shows "decode_entry bytes h = Some entry" "bytes (h + 1) = of_nat (length (encode_entry entry))" "2 \<le> length (encode_entry entry)"
    "length (encode_entry entry) < 256"
  using assms by (cases entry; simp add: decode_entry_def add.assoc read_le_holds)+

lemma decode_other:
  assumes "holds bytes h (encode_item (Other ty payload))" "item_ok (Other ty payload)"
  shows "decode_entry bytes h = None" "bytes (h + 1) = of_nat (length (encode_item (Other ty payload)))"
  using assms by (auto simp: decode_entry_def)

lemma madt_next_header:
  assumes "bytes (of_nat a + 1) = of_nat l" "l < 256" "a < e" "a + l < 2 ^ 64" "e < 2 ^ 64"
  shows "madt_next bytes \<lparr>current_header = of_nat a, end_address = of_nat e\<rparr>
    = (case decode_entry bytes (of_nat a) of
         Some entry \<Rightarrow> Some (Some entry, \<lparr>current_header = of_nat (a + l), end_address = of_nat e\<rparr>)
       | None \<Rightarrow> madt_next bytes \<lparr>current_header = of_nat (a + l), end_address = of_nat e\<rparr>)"
proof -
  have "\<not> (of_nat e :: usize) \<le> of_nat a" using assms by (simp add: not_le of_nat_usize_less)
  moreover have "(ucast (of_nat l :: u8) :: usize) = of_nat l"
    using assms(2) by (simp add: word_eq_unatI unat_ucast_up unat_of_nat_small)
  moreover have "checked_add (of_nat a :: usize) (of_nat l) = Some (of_nat (a + l))" using assms(4) by (intro checked_add_nat) simp_all
  ultimately show ?thesis
    by (subst madt_next.simps) (simp add: assms(1) Let_def del: of_nat_add cong: option.case_cong)
qed

text \<open>A loop over the entries meets the known ones in the order of the table.\<close>

lemma for_entries_items:
  assumes "\<forall>item\<in>set items. item_ok item" "holds bytes (of_nat a) (concat (map encode_item items))"
    "a + length (concat (map encode_item items)) = e + 1" "e + 1 < 2 ^ 64"
  shows "for_entries bytes body \<lparr>current_header = of_nat a, end_address = of_nat e\<rparr> s = for_each body (known_entries items) s"
  using assms
proof (induction items arbitrary: a s rule: known_entries.induct)
  case 1
  then have "a = e + 1" by simp
  moreover have "(of_nat e :: usize) \<le> of_nat (e + 1)" using 1(4) of_nat_usize_less [of e "e + 1"] by simp
  ultimately have "madt_next bytes \<lparr>current_header = of_nat a, end_address = of_nat e\<rparr> = Some (None, \<lparr>current_header = of_nat a, end_address = of_nat e\<rparr>)"
    by (subst madt_next.simps) (simp del: of_nat_add)
  then show ?case by (subst for_entries.simps) simp
next
  case (2 entry items)
  let ?l = "length (encode_entry entry)"
  have h: "holds bytes (of_nat a) (encode_entry entry)" "holds bytes (of_nat (a + ?l)) (concat (map encode_item items))" using 2(3) by simp_all
  note d = decode_encode_entry [OF h(1)]
  have "madt_next bytes \<lparr>current_header = of_nat a, end_address = of_nat e\<rparr> = Some (Some entry, \<lparr>current_header = of_nat (a + ?l), end_address = of_nat e\<rparr>)"
    using madt_next_header [where bytes = bytes and a = a and l = ?l and e = e] d 2(4,5) by simp
  moreover have "for_entries bytes body \<lparr>current_header = of_nat (a + ?l), end_address = of_nat e\<rparr> = for_each body (known_entries items)"
    using 2(2,4,5) h(2) by (intro ext 2(1)) simp_all
  ultimately show ?case by (subst for_entries.simps) (simp del: of_nat_add)
next
  case (3 ty payload items)
  let ?l = "length (encode_item (Other ty payload))"
  have h: "holds bytes (of_nat a) (encode_item (Other ty payload))" "holds bytes (of_nat (a + ?l)) (concat (map encode_item items))"
    using 3(3) by (simp_all add: algebra_simps)
  have ok: "item_ok (Other ty payload)" using 3(2) by simp
  note d = decode_other [OF h(1) ok]
  have "madt_next bytes \<lparr>current_header = of_nat a, end_address = of_nat e\<rparr> = madt_next bytes \<lparr>current_header = of_nat (a + ?l), end_address = of_nat e\<rparr>"
    using madt_next_header [where bytes = bytes and a = a and l = ?l and e = e] d ok 3(4,5) by (simp del: of_nat_add)
  moreover have "for_entries bytes body \<lparr>current_header = of_nat (a + ?l), end_address = of_nat e\<rparr> s = for_each body (known_entries items) s"
    using 3(2,4,5) h(2) by (intro 3(1)) simp_all
  ultimately show ?case by (subst for_entries.simps, subst (asm) for_entries.simps) (simp del: of_nat_add)
qed

lemma entry_iter_items:
  assumes "\<forall>item\<in>set items. item_ok item" "holds bytes (madt + size_of_madt) (concat (map encode_item items))"
    "unat (madt_length bytes madt) = 44 + length (concat (map encode_item items))" "unat madt + unat (madt_length bytes madt) < 2 ^ 64"
  defines "it \<equiv> \<lparr>current_header = of_nat (unat madt + 44), end_address = of_nat (unat madt + 44 + length (concat (map encode_item items)) - 1)\<rparr>"
  shows "entry_iter bytes madt = Some it" "for_entries bytes body it s = for_each body (known_entries items) s"
proof -
  let ?n = "length (concat (map encode_item items))" and ?a = "unat madt + 44"
  have m: "madt = of_nat (unat madt)" and e: "(ucast (madt_length bytes madt) :: usize) = of_nat (44 + ?n)"
    using assms(3) unat_usize_less [of "of_nat (44 + ?n)"] by (simp_all add: word_eq_unatI unat_ucast_up unat_of_nat_small flip: assms(3))
  have start: "madt + size_of_madt = of_nat ?a" by (simp add: size_of_madt_def)
  have "checked_add madt size_of_madt = Some (of_nat ?a)"
    using checked_add_nat [OF refl, of "unat madt" 44] assms(3,4) by (simp add: size_of_madt_def)
  moreover have "checked_add madt (ucast (madt_length bytes madt)) = Some (of_nat (?a + ?n))"
    using checked_add_nat [of "unat madt" "44 + ?n" "?a + ?n"] assms(3,4) unfolding e by (simp del: of_nat_add)
  moreover have "checked_sub (of_nat (?a + ?n) :: usize) 1 = Some (of_nat (?a + ?n - 1))"
    using checked_sub_nat [of "?a + ?n" 1 "?a + ?n - 1"] assms(3,4) by (simp del: of_nat_add of_nat_diff)
  ultimately show "entry_iter bytes madt = Some it" by (simp add: entry_iter_def it_def del: of_nat_add of_nat_diff)
  show "for_entries bytes body it s = for_each body (known_entries items) s"
    unfolding it_def using assms(1-4) by (intro for_entries_items) (simp_all add: start [symmetric] del: of_nat_add of_nat_diff)
qed

text \<open>
  C25. Let the memory behind the header of the table hold the encoding of a list of entries, of the types the kernel knows and of others,
  and let the length field of the table say so. A loop over the entries then runs its body on exactly the known entries, with
  the values that were encoded, in the order of the table, and ends.
\<close>

theorem madt_entries_round_trip:
  assumes "\<forall>item\<in>set items. item_ok item" "holds bytes (madt + size_of_madt) (concat (map encode_item items))"
    "unat (madt_length bytes madt) = 44 + length (concat (map encode_item items))" "unat madt + unat (madt_length bytes madt) < 2 ^ 64"
  shows "\<exists>it. entry_iter bytes madt = Some it \<and> for_entries bytes body it s = for_each body (known_entries items) s"
  by (intro exI conjI) (rule entry_iter_items [OF assms])+

text \<open>The memory that holds a list of bytes from an address on.\<close>

definition bytes_at :: "usize \<Rightarrow> u8 list \<Rightarrow> usize \<Rightarrow> u8" where
  "bytes_at base xs a = (let i = unat (a - base) in if i < length xs then xs ! i else 0)"

lemma holds_bytes_at: "length xs < 2 ^ 64 \<Longrightarrow> holds (bytes_at base xs) (base + of_nat k) (drop k xs)"
proof (induction "length xs - k" arbitrary: k)
  case (Suc n)
  then have k: "k < length xs" by simp
  then have "holds (bytes_at base xs) (base + of_nat (Suc k)) (drop (Suc k) xs)" using Suc by (intro Suc(1)) simp_all
  moreover have "bytes_at base xs (base + of_nat k) = xs ! k" using k Suc(3) by (simp add: bytes_at_def unat_of_nat_small)
  ultimately show ?case unfolding Cons_nth_drop_Suc [OF k, symmetric] by (simp add: algebra_simps)
qed simp

definition sample_items :: "madt_item list" where
  "sample_items = [Known (LocalApic 0 0 1), Known (IoApic 1 0xFEC00000 0), Other 9 [7, 7], Known (InterruptSourceOverride 0 0 2 0)]"

definition sample_madt :: "usize \<Rightarrow> u8" where
  "sample_madt = bytes_at 0x1000 (replicate 4 0 @ le_bytes 4 (78 :: u32) @ replicate 36 0 @ concat (map encode_item sample_items))"

lemma sample_madt_holds:
  "holds sample_madt 0x1004 (le_bytes 4 (78 :: u32))" "holds sample_madt 0x102C (concat (map encode_item sample_items))"
proof -
  let ?xs = "replicate 4 0 @ le_bytes 4 (78 :: u32) @ replicate 36 0 @ concat (map encode_item sample_items)"
  have l: "length ?xs < 2 ^ 64" by (simp add: sample_items_def)
  show "holds sample_madt 0x1004 (le_bytes 4 (78 :: u32))" "holds sample_madt 0x102C (concat (map encode_item sample_items))"
    using holds_bytes_at [OF l, of "0x1000" 4] holds_bytes_at [OF l, of "0x1000" 44] by (simp_all add: sample_madt_def)
qed

theorem madt_entries_round_trip_witness:
  "\<exists>it. entry_iter sample_madt 0x1000 = Some it
     \<and> for_entries sample_madt (\<lambda>entry acc. Some (acc @ [entry])) it []
         = Some [LocalApic 0 0 1, IoApic 1 0xFEC00000 0, InterruptSourceOverride 0 0 2 0]"
proof -
  have "\<exists>it. entry_iter sample_madt 0x1000 = Some it
     \<and> for_entries sample_madt (\<lambda>entry acc. Some (acc @ [entry])) it [] = for_each (\<lambda>entry acc. Some (acc @ [entry])) (known_entries sample_items) []"
  proof (rule madt_entries_round_trip)
    show "\<forall>item\<in>set sample_items. item_ok item" by (simp add: sample_items_def)
    have l: "madt_length sample_madt 0x1000 = 78" using read_le_holds [OF sample_madt_holds(1)] by (simp add: madt_length_def)
    show "holds sample_madt (0x1000 + size_of_madt) (concat (map encode_item sample_items))"
      using sample_madt_holds(2) by (simp add: size_of_madt_def)
    show "unat (madt_length sample_madt 0x1000) = 44 + length (concat (map encode_item sample_items))" by (simp add: l sample_items_def)
    show "unat (0x1000 :: usize) + unat (madt_length sample_madt 0x1000) < 2 ^ 64" by (simp add: l)
  qed
  then show ?thesis by (simp add: sample_items_def)
qed

text \<open>The first \<open>n\<close> rounds of a \<^verbatim>\<open>for\<close> loop over the entries: the iterator and the state after them.\<close>

fun entry_rounds :: "nat \<Rightarrow> (usize \<Rightarrow> u8) \<Rightarrow> (madt_entry \<Rightarrow> 's \<Rightarrow> 's option) \<Rightarrow> madt_entry_iterator \<Rightarrow> 's \<Rightarrow>
    (madt_entry_iterator \<times> 's) option" where
  "entry_rounds 0 bytes body it s = Some (it, s)"
| "entry_rounds (Suc n) bytes body it s =
     do { (entry, it) \<leftarrow> madt_next bytes it;
          case entry of
            None \<Rightarrow> Some (it, s)
          | Some entry \<Rightarrow> do { s \<leftarrow> body entry s; entry_rounds n bytes body it s } }"

text \<open>
  C37. An entry of a known type whose length byte is zero holds the boot: the iterator returns the entry without a panic and
  stays at its address, so a loop whose body does not panic on the entry runs its body on the same entry in every round,
  for any number of rounds, and never returns. No check of the length protects the kernel from a table with such an entry.
\<close>

theorem madt_zero_length_diverges:
  assumes it: "current_header it < end_address it" "bytes (current_header it + 1) = 0"
    and known: "decode_entry bytes (current_header it) = Some entry" and body: "\<And>s. body entry s = Some (f s)"
  shows "madt_next bytes it = Some (Some entry, it)
    \<and> (\<forall>n. entry_rounds n bytes body it s = Some (it, (f ^^ n) s))
    \<and> for_entries bytes body it s = None"
proof -
  have stay: "checked_add (current_header it) (ucast (0 :: u8)) = Some (current_header it)" by (simp add: checked_add_Some)
  have same: "madt_next bytes it = Some (Some entry, it)"
    by (subst madt_next.simps) (use it stay known in \<open>simp add: not_le [symmetric] Let_def\<close>)
  have "entry_rounds n bytes body it s = Some (it, (f ^^ n) s)" for n s
    by (induction n arbitrary: s) (simp_all add: same body funpow_swap1)
  moreover have "\<not> (b = bytes \<and> i = it)" if "for_entries b body i s = Some r" for b i s r
    using that
  proof (rule for_entries.raw_induct [rotated])
    fix loop b g i s r
    assume IH: "\<And>b g i s r. loop b g i s = Some r \<Longrightarrow> \<not> (b = bytes \<and> i = it)"
      and run: "do { (entry, i) \<leftarrow> madt_next b i; case entry of None \<Rightarrow> Some s | Some e \<Rightarrow> g e s \<bind> loop b g i } = Some r"
    show "\<not> (b = bytes \<and> i = it)"
    proof
      assume "b = bytes \<and> i = it"
      with run obtain s1 where "loop bytes g it s1 = Some r" by (auto simp: same bind_eq_Some_conv)
      from IH [OF this] show False by simp
    qed
  qed
  then have "for_entries bytes body it s = None" by (cases "for_entries bytes body it s") blast+
  ultimately show ?thesis using same by blast
qed

theorem madt_zero_length_diverges_witness:
  "madt_next (bytes_at 0x1000 [1, 0]) \<lparr>current_header = 0x1000, end_address = 0x1010\<rparr>
     = Some (Some (IoApic 0 0 0), \<lparr>current_header = 0x1000, end_address = 0x1010\<rparr>)
   \<and> entry_rounds 1000 (bytes_at 0x1000 [1, 0]) (\<lambda>entry s. Some (Suc s)) \<lparr>current_header = 0x1000, end_address = 0x1010\<rparr> 0
     = Some (\<lparr>current_header = 0x1000, end_address = 0x1010\<rparr>, 1000)
   \<and> for_entries (bytes_at 0x1000 [1, 0]) (\<lambda>entry s. Some (Suc s)) \<lparr>current_header = 0x1000, end_address = 0x1010\<rparr> 0 = None"
proof -
  have "decode_entry (bytes_at 0x1000 [1, 0]) 0x1000 = Some (IoApic 0 0 0)" by code_simp
  moreover have "(Suc ^^ 1000) 0 = 1000" by (simp add: Suc_funpow)
  ultimately show ?thesis
    using madt_zero_length_diverges [of "\<lparr>current_header = 0x1000, end_address = 0x1010\<rparr>" "bytes_at 0x1000 [1, 0]" "IoApic 0 0 0"
        "\<lambda>entry s. Some (Suc s)" Suc 0]
    by (simp add: bytes_at_def)
qed

end
