(* ===== verification/Thread_Local.thy ===== *)
theory Thread_Local
  imports Hardware Descriptors Page_Walk
begin

text \<open>
  The thread-local storage of \<^verbatim>\<open>src/kernel/src/arch/x86_64/tls.rs\<close>: the structure that holds the state of the processor's local
  APIC, its interrupt table and the reason of the last return from user mode, and how it is set up.
\<close>

record local_apic_info =
  info_apic :: "usize option"
  interrupt_idt_index :: "usize option"
  timer_us_numerator :: usize
  timer_us_denominator :: usize
  interrupt_received :: bool

definition local_apic_info_default :: local_apic_info where
  "local_apic_info_default =
     \<lparr>info_apic = None, interrupt_idt_index = None, timer_us_numerator = 1, timer_us_denominator = 1, interrupt_received = False\<rparr>"

datatype yield_reason = Timeout | YieldSystemCall | SystemCallRequest | ExitRequest | Exception

datatype exception_type =
    DivideByZero | Debug | ExceptionNonMaskableInterrupt | Breakpoint | Overflow | BoundRangeExceeded | InvalidOpcode
  | DeviceNotAvailable | DoubleFault | InvalidTss | SegmentNotPresent | StackSegmentFault | GeneralProtectionFault | PageFault
  | X87FloatingPoint | AlignmentCheck | MachineCheck | SimdFloatingPoint | Virtualization | ControlProtection
  | HypervisorInjection | VmmCommunication | Security

text \<open>The discriminants, which the assembly compares with.\<close>

fun exception_number :: "exception_type \<Rightarrow> u64" where
  "exception_number DivideByZero = 0"
| "exception_number Debug = 1"
| "exception_number ExceptionNonMaskableInterrupt = 2"
| "exception_number Breakpoint = 3"
| "exception_number Overflow = 4"
| "exception_number BoundRangeExceeded = 5"
| "exception_number InvalidOpcode = 6"
| "exception_number DeviceNotAvailable = 7"
| "exception_number DoubleFault = 8"
| "exception_number InvalidTss = 10"
| "exception_number SegmentNotPresent = 11"
| "exception_number StackSegmentFault = 12"
| "exception_number GeneralProtectionFault = 13"
| "exception_number PageFault = 14"
| "exception_number X87FloatingPoint = 16"
| "exception_number AlignmentCheck = 17"
| "exception_number MachineCheck = 18"
| "exception_number SimdFloatingPoint = 19"
| "exception_number Virtualization = 20"
| "exception_number ControlProtection = 21"
| "exception_number HypervisorInjection = 28"
| "exception_number VmmCommunication = 29"
| "exception_number Security = 30"

text \<open>Only an exception initialises \<^verbatim>\<open>exception_type\<close>.\<close>

record yield_info =
  yield_reason :: yield_reason
  yield_exception_type :: "exception_type option"
  exception_error_code :: u64
  page_fault_address :: u64

definition yield_info_default :: yield_info where
  "yield_info_default = \<lparr>yield_reason = Timeout, yield_exception_type = None, exception_error_code = 0, page_fault_address = 0\<rparr>"

record thread_local_storage =
  self_pointer :: usize
  local_apic :: local_apic_info
  tls_idt :: interrupt_descriptor_table
  tls_yield_info :: yield_info

text \<open>
  The address of \<^verbatim>\<open>TLS\<close> is the linker's; its size is the compiler's, since the layout of the structure is unspecified. Every page is
  mapped before the structure is written.
\<close>

definition map_tls_page :: "usize \<Rightarrow> machine \<Rightarrow> machine option" where
  "map_tls_page a m =
     do { (r, m) \<leftarrow> map_page m a READ_WRITE;
          case r of Inl _ \<Rightarrow> None | Inr _ \<Rightarrow> Some m }"

definition tls_init ::
  "'d bus \<Rightarrow> exception_handlers \<Rightarrow> usize \<Rightarrow> usize \<Rightarrow> machine \<times> 'd \<Rightarrow> (thread_local_storage \<times> machine \<times> 'd) option" where
  "tls_init bus handlers TLS tls_size st =
     (case st of (m, d) \<Rightarrow>
        do { let start_address = TLS AND NOT 0xFFF;
             past_end \<leftarrow> checked_add start_address tls_size;
             m \<leftarrow> for_each map_tls_page (pages_before start_address past_end) m;
             guard (TLS \<noteq> 0);
             idt \<leftarrow> idt_new handlers;
             let tls = \<lparr>self_pointer = TLS, local_apic = local_apic_info_default, tls_idt = idt, tls_yield_info = yield_info_default\<rparr>;
             let d = msr_write bus GS_BASE TLS d;
             Some (tls, m, d) })"

end
