(* ===== verification/Io_Interrupts.thy ===== *)
theory Io_Interrupts
  imports Apic Madt Thread_Local
begin

text \<open>
  The routing of device interrupts, \<^verbatim>\<open>src/kernel/src/arch/x86_64/interrupts.rs\<close>: the state that the MADT sets up, the map of the
  interrupt vectors in use, and the registration of a handler for one of the sixteen legacy interrupt lines.
\<close>

subsection \<open>State\<close>

datatype controller = Apic

record interrupt_source_override =
  override_bus_source :: u8
  override_irq_source :: u8
  override_gsi :: u32
  override_flags :: u16

record apic_state =
  io_apics :: "io_apic list"
  interrupt_source_overrides :: "interrupt_source_override list"
  interrupt_vector_map :: "u64 list"

text \<open>The pointer to an entry of the interrupt table is the index of that entry among the vectors of the APIC.\<close>

record io_handler =
  handler_idt_entry :: nat
  entry_index :: u8

text \<open>
  What the functions of the module share: the page tables, the devices, the thread-local storage, which is absent until it is
  set up, and the statics of the module.
\<close>

record 'd kernel =
  kmachine :: machine
  devices :: 'd
  TLS :: "thread_local_storage option"
  ACTIVE_IO_INTERRUPT_SYSTEM :: "controller option"
  LEGACY_IRQS :: "io_handler option list"
  APIC_STATE :: "apic_state option"

subsection \<open>The local APIC of this processor\<close>

definition get_local_apic :: "('d, 'm) kernel_scheme \<Rightarrow> usize option" where
  "get_local_apic k = do { tls \<leftarrow> TLS k; info_apic (local_apic tls) }"

definition apic_read :: "'d bus \<Rightarrow> local_apic_register \<Rightarrow> ('d, 'm) kernel_scheme \<Rightarrow> (u32 \<times> ('d, 'm) kernel_scheme) option" where
  "apic_read bus register k =
     do { apic \<leftarrow> get_local_apic k;
          (v, d) \<leftarrow> local_read_register bus apic register (devices k);
          Some (v, k\<lparr>devices := d\<rparr>) }"

definition apic_write :: "'d bus \<Rightarrow> local_apic_register \<Rightarrow> u32 \<Rightarrow> ('d, 'm) kernel_scheme \<Rightarrow> ('d, 'm) kernel_scheme option" where
  "apic_write bus register v k =
     do { apic \<leftarrow> get_local_apic k;
          d \<leftarrow> local_write_register bus apic register v (devices k);
          Some (k\<lparr>devices := d\<rparr>) }"

definition apic_signal_eoi :: "'d bus \<Rightarrow> ('d, 'm) kernel_scheme \<Rightarrow> ('d, 'm) kernel_scheme option" where
  "apic_signal_eoi bus k =
     do { apic \<leftarrow> get_local_apic k;
          d \<leftarrow> local_signal_eoi bus apic (devices k);
          Some (k\<lparr>devices := d\<rparr>) }"

definition signal_eoi :: "'d bus \<Rightarrow> ('d, 'm) kernel_scheme \<Rightarrow> ('d, 'm) kernel_scheme option" where
  "signal_eoi bus k =
     (case ACTIVE_IO_INTERRUPT_SYSTEM k of Some Apic \<Rightarrow> apic_signal_eoi bus k | None \<Rightarrow> None)"

subsection \<open>Interrupt vectors\<close>

definition leading_ones :: "u64 \<Rightarrow> nat" where
  "leading_ones w = leading_zeros (NOT w)"

fun reserve_in_groups :: "nat \<Rightarrow> u64 list \<Rightarrow> (u8 option \<times> u64 list) option" where
  "reserve_in_groups group_index [] = Some (None, [])"
| "reserve_in_groups group_index (g # groups) =
     (if g \<noteq> NOT 0
      then do { let index_in_group = leading_ones g;
                i \<leftarrow> checked_add (of_nat group_index) (of_nat index_in_group);
                Some (Some i, (g OR drop_bit index_in_group (push_bit 63 1)) # groups) }
      else do { (r, groups) \<leftarrow> reserve_in_groups (group_index + 1) groups;
                Some (r, g # groups) })"

definition try_find_and_reserve_entry :: "apic_state \<Rightarrow> (u8 option \<times> apic_state) option" where
  "try_find_and_reserve_entry state =
     do { (r, vectors) \<leftarrow> reserve_in_groups 0 (interrupt_vector_map state);
          Some (r, state\<lparr>interrupt_vector_map := vectors\<rparr>) }"

definition free_vector :: "u8 \<Rightarrow> apic_state \<Rightarrow> apic_state option" where
  "free_vector i state =
     do { let group_index = unat (drop_bit 6 i);
          let index_in_group = unat (i AND 0x3F);
          g \<leftarrow> slice_get (interrupt_vector_map state) group_index;
          vectors \<leftarrow> slice_set (interrupt_vector_map state) group_index (g AND NOT (drop_bit index_in_group (push_bit 63 1)));
          Some (state\<lparr>interrupt_vector_map := vectors\<rparr>) }"

subsection \<open>Redirection\<close>

text \<open>The loop over the I/O APICs that both functions below contain, up to the first whose range contains the interrupt.\<close>

fun redirect :: "'d bus \<Rightarrow> (u64 \<Rightarrow> u64) \<Rightarrow> u32 \<Rightarrow> io_apic list \<Rightarrow> 'd \<Rightarrow> 'd option" where
  "redirect bus update irq [] d = None"
| "redirect bus update irq (io # ios) d =
     do { let start_irq = global_system_interrupt_base io;
          end_irq \<leftarrow> checked_add start_irq (ucast (num_redirection_entries io));
          if start_irq \<le> irq \<and> irq < end_irq
          then do { guard (irq - start_irq \<le> 0x3F);
                    let index = ucast (irq - start_irq);
                    (entry, d) \<leftarrow> read_redirection_entry bus io index d;
                    write_redirection_entry bus io index (update entry) d }
          else redirect bus update irq ios d }"

definition register_update :: "u8 \<Rightarrow> polarity_t \<Rightarrow> trigger_mode_t \<Rightarrow> u8 \<Rightarrow> u64 \<Rightarrow> u64" where
  "register_update vector pol trigger local_apic_id entry =
     (let entry = set_interrupt_vector vector entry;
          entry = set_delivery_mode Normal entry;
          entry = set_destination_mode Physical entry;
          entry = set_polarity pol entry;
          entry = set_trigger_mode trigger entry;
          entry = set_destination local_apic_id entry
      in set_masked False entry)"

definition unregister_update :: "u64 \<Rightarrow> u64" where
  "unregister_update entry =
     (let entry = set_interrupt_vector 0 entry;
          entry = set_destination 0 entry
      in set_masked True entry)"

definition legacy_route :: "apic_state \<Rightarrow> u8 \<Rightarrow> (polarity_t \<times> trigger_mode_t \<times> u32) option" where
  "legacy_route state irq =
     (case List.find (\<lambda>ov. ucast (override_irq_source ov) = (ucast irq :: u32)) (interrupt_source_overrides state) of
        Some ov \<Rightarrow>
          do { let pol = (if override_flags ov AND 2 \<noteq> 0 then Low else High);
               let trigger = (if override_flags ov AND 8 \<noteq> 0 then LevelSensitive else EdgeSensitive);
               guard (override_gsi ov \<le> 255);
               Some (pol, trigger, override_gsi ov) }
      | None \<Rightarrow> Some (High, EdgeSensitive, ucast irq))"

definition register_legacy_irq :: "'d bus \<Rightarrow> u8 \<Rightarrow> u8 \<Rightarrow> ('d, 'm) kernel_scheme \<Rightarrow> ('d, 'm) kernel_scheme option" where
  "register_legacy_irq bus irq vector k =
     do { guard (irq < 16);
          state \<leftarrow> APIC_STATE k;
          (pol, trigger, gsi) \<leftarrow> legacy_route state irq;
          (local_apic_id, k) \<leftarrow> apic_read bus LapicId k;
          guard (local_apic_id < 256);
          d \<leftarrow> redirect bus (register_update vector pol trigger (ucast local_apic_id)) gsi (io_apics state) (devices k);
          Some (k\<lparr>devices := d\<rparr>) }"

text \<open>The override's own source line is looked up again, not the line it stands for.\<close>

definition unregister_legacy_irq :: "'d bus \<Rightarrow> u8 \<Rightarrow> ('d, 'm) kernel_scheme \<Rightarrow> ('d, 'm) kernel_scheme option" where
  "unregister_legacy_irq bus irq k =
     do { state \<leftarrow> APIC_STATE k;
          let gsi = (case List.find (\<lambda>ov. override_irq_source ov = irq) (interrupt_source_overrides state) of
                       Some ov \<Rightarrow> ucast (override_irq_source ov)
                     | None \<Rightarrow> (ucast irq :: u32));
          d \<leftarrow> redirect bus unregister_update gsi (io_apics state) (devices k);
          Some (k\<lparr>devices := d\<rparr>) }"

subsection \<open>Legacy interrupt lines\<close>

text \<open>Writing an entry of the interrupt table of this processor.\<close>

definition set_apic_interrupt :: "nat \<Rightarrow> idt_entry \<Rightarrow> ('d, 'm) kernel_scheme \<Rightarrow> ('d, 'm) kernel_scheme option" where
  "set_apic_interrupt i entry k =
     do { tls \<leftarrow> TLS k;
          entries \<leftarrow> slice_set (apic_interrupts (tls_idt tls)) i entry;
          Some (k\<lparr>TLS := Some (tls\<lparr>tls_idt := tls_idt tls\<lparr>apic_interrupts := entries\<rparr>\<rparr>)\<rparr>) }"

definition reserve_vector :: "('d, 'm) kernel_scheme \<Rightarrow> (u8 option \<times> ('d, 'm) kernel_scheme) option" where
  "reserve_vector k =
     do { state \<leftarrow> APIC_STATE k;
          (r, state) \<leftarrow> try_find_and_reserve_entry state;
          Some (r, k\<lparr>APIC_STATE := Some state\<rparr>) }"

definition free_entry_vector :: "u8 \<Rightarrow> ('d, 'm) kernel_scheme \<Rightarrow> ('d, 'm) kernel_scheme option" where
  "free_entry_vector i k =
     do { state \<leftarrow> APIC_STATE k;
          state \<leftarrow> free_vector i state;
          Some (k\<lparr>APIC_STATE := Some state\<rparr>) }"

definition map_legacy_irq :: "'d bus \<Rightarrow> u8 \<Rightarrow> handler \<Rightarrow> ('d, 'm) kernel_scheme \<Rightarrow> ('d, 'm) kernel_scheme option" where
  "map_legacy_irq bus irq h k =
     do { guard (irq < 16);
          case ACTIVE_IO_INTERRUPT_SYSTEM k of
            Some Apic \<Rightarrow>
              do { (r, k) \<leftarrow> reserve_vector k;
                   index \<leftarrow> r;
                   entry \<leftarrow> with_handler_and_generic_stack h;
                   k \<leftarrow> set_apic_interrupt (unat index) entry k;
                   vector \<leftarrow> checked_add 128 index;
                   k \<leftarrow> register_legacy_irq bus irq vector k;
                   old \<leftarrow> slice_get (LEGACY_IRQS k) (unat irq);
                   guard (old = None);
                   irqs \<leftarrow> slice_set (LEGACY_IRQS k) (unat irq) (Some \<lparr>handler_idt_entry = unat index, entry_index = index\<rparr>);
                   Some (k\<lparr>LEGACY_IRQS := irqs\<rparr>) }
          | None \<Rightarrow> None }"

definition unmap_legacy_id :: "'d bus \<Rightarrow> u8 \<Rightarrow> ('d, 'm) kernel_scheme \<Rightarrow> ('d, 'm) kernel_scheme option" where
  "unmap_legacy_id bus irq k =
     do { guard (irq < 16);
          case ACTIVE_IO_INTERRUPT_SYSTEM k of
            Some Apic \<Rightarrow>
              do { old \<leftarrow> slice_get (LEGACY_IRQS k) (unat irq);
                   irq_info \<leftarrow> old;
                   irqs \<leftarrow> slice_set (LEGACY_IRQS k) (unat irq) None;
                   let k = k\<lparr>LEGACY_IRQS := irqs\<rparr>;
                   k \<leftarrow> unregister_legacy_irq bus irq k;
                   k \<leftarrow> free_entry_vector (entry_index irq_info) k;
                   set_apic_interrupt (handler_idt_entry irq_info) (missing HandlerFunc) k }
          | None \<Rightarrow> None }"

text \<open>The scoped mapping is its line number; dropping it unmaps the line.\<close>

definition scoped_map_legacy_irq :: "'d bus \<Rightarrow> u8 \<Rightarrow> handler \<Rightarrow> ('d, 'm) kernel_scheme \<Rightarrow> (u8 \<times> ('d, 'm) kernel_scheme) option" where
  "scoped_map_legacy_irq bus irq h k = do { k \<leftarrow> map_legacy_irq bus irq h k; Some (irq, k) }"

definition drop_scoped_mapping :: "'d bus \<Rightarrow> u8 \<Rightarrow> ('d, 'm) kernel_scheme \<Rightarrow> ('d, 'm) kernel_scheme option" where
  "drop_scoped_mapping bus mapping k = unmap_legacy_id bus mapping k"

subsection \<open>Initialisation\<close>

text \<open>The body of the loop over the entries of the table, on the vectors it fills, the page tables and the devices.\<close>

fun add_madt_entry ::
  "'d bus \<Rightarrow> madt_entry \<Rightarrow> (io_apic list \<times> interrupt_source_override list) \<times> machine \<times> 'd
     \<Rightarrow> ((io_apic list \<times> interrupt_source_override list) \<times> machine \<times> 'd) option" where
  "add_madt_entry bus (IoApic ident addr gsi_base) ((ios, ovs), m, d) =
     do { (io, m, d) \<leftarrow> io_apic_new bus (ucast addr) ident gsi_base (m, d);
          Some ((ios @ [io], ovs), m, d) }"
| "add_madt_entry bus (InterruptSourceOverride bus_source irq_source gsi flags) ((ios, ovs), m, d) =
     Some ((ios, ovs @ [\<lparr>override_bus_source = bus_source, override_irq_source = irq_source, override_gsi = gsi,
                         override_flags = flags\<rparr>]), m, d)"
| "add_madt_entry bus _ st = Some st"

definition init_from_madt ::
  "'d bus \<Rightarrow> usize \<Rightarrow> (usize \<Rightarrow> u8) \<Rightarrow> usize \<Rightarrow> ('d, 'm) kernel_scheme \<Rightarrow> ('d, 'm) kernel_scheme option" where
  "init_from_madt bus LOCAL_APIC_BASE bytes madt k =
     do { (apic, m) \<leftarrow> local_apic_new LOCAL_APIC_BASE (ucast (bsp_local_apic_address bytes madt)) (kmachine k);
          d \<leftarrow> enable_bsp_local_apic bus apic (devices k);
          tls \<leftarrow> TLS k;
          let tls = tls\<lparr>local_apic := local_apic tls\<lparr>info_apic := Some apic\<rparr>\<rparr>;
          it \<leftarrow> entry_iter bytes madt;
          ((ios, ovs), m, d) \<leftarrow> for_entries bytes (add_madt_entry bus) it (([], []), m, d);
          Some (k\<lparr>kmachine := m, devices := d, TLS := Some tls, ACTIVE_IO_INTERRUPT_SYSTEM := Some Apic,
                  APIC_STATE := Some \<lparr>io_apics = ios, interrupt_source_overrides = ovs, interrupt_vector_map = [push_bit 63 1, 0]\<rparr>\<rparr>) }"

end
