(* ===== verification/Clock.thy ===== *)
theory Clock
  imports Io_Interrupts Descriptor_Tables
begin

text \<open>
  The clocks of \<^verbatim>\<open>src/kernel/src/arch/x86_64/clock/\<close>: the choice of the clocks (\<^verbatim>\<open>mod.rs\<close>), the real-time clock behind its two ports
  (\<^verbatim>\<open>cmos.rs\<close>, \<^verbatim>\<open>rtc.rs\<close>) and the timer of the local APIC (\<^verbatim>\<open>apic.rs\<close>), which is calibrated against it. A clock's table of functions is
  a constructor that names the table; waiting for an interrupt runs the handlers of the interrupts that the bus delivers.
\<close>

subsection \<open>The choice of clocks\<close>

datatype clock = Pit | Cmos | Rtc | ApicClock | Hpet | Tsc

record calibration_timers =
  cal_hpet :: bool
  cal_apic :: bool
  cal_pit :: bool
  cal_rtc :: bool
  cal_cmos :: bool

record timers =
  timer_apic :: bool
  timer_hpet :: bool
  timer_pit :: bool

record counters =
  counter_tsc :: bool
  counter_hpet :: bool
  counter_apic :: bool
  counter_pit :: bool
  counter_rtc :: bool

text \<open>The first clock of a list that is available.\<close>

fun first_clock :: "(bool \<times> clock) list \<Rightarrow> clock option" where
  "first_clock [] = None"
| "first_clock ((available, c) # cs) = (if available then Some c else first_clock cs)"

definition calibration_preferred_clock :: "calibration_timers \<Rightarrow> clock option" where
  "calibration_preferred_clock ts =
     first_clock [(cal_hpet ts, Hpet), (cal_apic ts, ApicClock), (cal_pit ts, Pit), (cal_rtc ts, Rtc), (cal_cmos ts, Cmos)]"

definition timer_preferred_clock :: "timers \<Rightarrow> clock option" where
  "timer_preferred_clock ts = first_clock [(timer_apic ts, ApicClock), (timer_hpet ts, Hpet), (timer_pit ts, Pit)]"

definition counter_preferred_clock :: "counters \<Rightarrow> clock option" where
  "counter_preferred_clock ts =
     first_clock [(counter_tsc ts, Tsc), (counter_hpet ts, Hpet), (counter_apic ts, ApicClock), (counter_pit ts, Pit), (counter_rtc ts, Rtc)]"

definition CALIBRATION_TIMERS_init :: calibration_timers where
  "CALIBRATION_TIMERS_init = \<lparr>cal_hpet = False, cal_apic = False, cal_pit = False, cal_rtc = True, cal_cmos = True\<rparr>"

definition TIMERS_init :: timers where
  "TIMERS_init = \<lparr>timer_apic = False, timer_hpet = False, timer_pit = False\<rparr>"

definition COUNTERS_init :: counters where
  "COUNTERS_init = \<lparr>counter_tsc = False, counter_hpet = False, counter_apic = False, counter_pit = False, counter_rtc = False\<rparr>"

datatype calibration_timer = DummyCalibrationTimer | RtcCalibrationTimer | CmosCalibrationTimer
datatype timer = DummyTimer | ApicTimer

record manager =
  manager_calibration_timer :: calibration_timer
  manager_timer :: timer

definition manager_new :: manager where
  "manager_new = \<lparr>manager_calibration_timer = DummyCalibrationTimer, manager_timer = DummyTimer\<rparr>"

definition update_clock_functions :: "calibration_timers \<Rightarrow> timers \<Rightarrow> manager \<Rightarrow> manager option" where
  "update_clock_functions cts ts m =
     do { ct \<leftarrow> (case calibration_preferred_clock cts of
                   None \<Rightarrow> Some DummyCalibrationTimer
                 | Some Rtc \<Rightarrow> Some RtcCalibrationTimer
                 | Some Cmos \<Rightarrow> Some CmosCalibrationTimer
                 | Some _ \<Rightarrow> None);
          t \<leftarrow> (case timer_preferred_clock ts of
                  None \<Rightarrow> Some DummyTimer
                | Some ApicClock \<Rightarrow> Some ApicTimer
                | Some _ \<Rightarrow> None);
          Some (m\<lparr>manager_calibration_timer := ct, manager_timer := t\<rparr>) }"

text \<open>The statics of the clock modules, beside the state of the interrupts.\<close>

record 'd clocks = "'d kernel" +
  CALIBRATION_TIMERS :: calibration_timers
  TIMERS :: timers
  MANAGER :: manager
  INTERRUPT_RECEIVED :: bool

subsection \<open>Interrupt handlers\<close>

text \<open>The addresses that the linker gives to the handlers of the clocks.\<close>

record clock_handlers =
  at_rtc_sleep_handler :: usize
  at_apic_sleep_handler :: usize

definition update_local_apic :: "(local_apic_info \<Rightarrow> local_apic_info) \<Rightarrow> ('d, 'm) kernel_scheme \<Rightarrow> ('d, 'm) kernel_scheme option" where
  "update_local_apic f k = do { tls \<leftarrow> TLS k; Some (k\<lparr>TLS := Some (tls\<lparr>local_apic := f (local_apic tls)\<rparr>)\<rparr>) }"

definition rtc_sleep_handler :: "'d bus \<Rightarrow> ('d, 'm) clocks_scheme \<Rightarrow> ('d, 'm) clocks_scheme option" where
  "rtc_sleep_handler bus k = apic_signal_eoi bus (k\<lparr>INTERRUPT_RECEIVED := True\<rparr>)"

definition apic_sleep_handler :: "'d bus \<Rightarrow> ('d, 'm) clocks_scheme \<Rightarrow> ('d, 'm) clocks_scheme option" where
  "apic_sleep_handler bus k =
     do { k \<leftarrow> update_local_apic (\<lambda>info. info\<lparr>interrupt_received := True\<rparr>) k;
          apic_signal_eoi bus k }"

text \<open>
  The processor looks the vector up in the interrupt table. A missing entry is a fault, whose handler panics; the functions of other
  handlers are no part of the clocks.
\<close>

definition deliver :: "'d bus \<Rightarrow> clock_handlers \<Rightarrow> u8 \<Rightarrow> ('d, 'm) clocks_scheme \<Rightarrow> ('d, 'm) clocks_scheme option" where
  "deliver bus handlers vector k =
     do { index \<leftarrow> checked_sub vector 128;
          tls \<leftarrow> TLS k;
          entry \<leftarrow> slice_get (apic_interrupts (tls_idt tls)) (unat index);
          guard (option_present (entry_options entry));
          if entry_target entry = at_rtc_sleep_handler handlers then rtc_sleep_handler bus k
          else if entry_target entry = at_apic_sleep_handler handlers then apic_sleep_handler bus k
          else None }"

text \<open>\<^verbatim>\<open>while !received { asm!("sti; hlt; cli") }\<close>\<close>

partial_function (option) wait_for ::
  "'d bus \<Rightarrow> clock_handlers \<Rightarrow> (('d, 'm) clocks_scheme \<Rightarrow> bool) \<Rightarrow> ('d, 'm) clocks_scheme \<Rightarrow> ('d, 'm) clocks_scheme option" where
  "wait_for bus handlers received k =
     (if received k then Some k
      else do { (vectors, d) \<leftarrow> sti_hlt_cli bus (devices k);
                k \<leftarrow> for_each (deliver bus handlers) vectors (k\<lparr>devices := d\<rparr>);
                wait_for bus handlers received k })"

subsection \<open>The CMOS clock\<close>

definition STATUS_A :: u8 where "STATUS_A = 0xA"
definition STATUS_B :: u8 where "STATUS_B = 0xB"
definition STATUS_C :: u8 where "STATUS_C = 0xC"

definition cmos_read_byte :: "'d bus \<Rightarrow> bool \<Rightarrow> u8 \<Rightarrow> ('d, 'm) kernel_scheme \<Rightarrow> u8 \<times> ('d, 'm) kernel_scheme" where
  "cmos_read_byte bus disable_nmi register k =
     (let nmi_bit = push_bit 7 (of_bool disable_nmi);
          d = port_write_byte bus CMOS_NMI_AND_REGISTER (register OR nmi_bit) (devices k);
          (b, d) = port_read_byte bus CMOS_DATA d
      in (b, k\<lparr>devices := d\<rparr>))"

definition cmos_write_byte :: "'d bus \<Rightarrow> bool \<Rightarrow> u8 \<Rightarrow> u8 \<Rightarrow> ('d, 'm) kernel_scheme \<Rightarrow> ('d, 'm) kernel_scheme" where
  "cmos_write_byte bus disable_nmi register byte k =
     (let nmi_bit = push_bit 7 (of_bool disable_nmi);
          d = port_write_byte bus CMOS_NMI_AND_REGISTER (register OR nmi_bit) (devices k)
      in k\<lparr>devices := port_write_byte bus CMOS_DATA byte d\<rparr>)"

text \<open>The loops in assembly: until the update flag, bit 7 of status register A, has the given value.\<close>

partial_function (option) wait_update_flag :: "'d bus \<Rightarrow> bool \<Rightarrow> 'd \<Rightarrow> 'd option" where
  "wait_update_flag bus v d =
     (let (al, d) = port_in bus 0x71 (port_out bus 0x70 0xA d)
      in if (al AND 0x80 \<noteq> 0) = v then Some d else wait_update_flag bus v d)"

definition cmos_calibration_sleep ::
  "'d bus \<Rightarrow> (('d, 'm) clocks_scheme \<Rightarrow> ('d, 'm) clocks_scheme option) \<Rightarrow> ('d, 'm) clocks_scheme \<Rightarrow> (u32 \<times> ('d, 'm) clocks_scheme) option" where
  "cmos_calibration_sleep bus start_timer k =
     do { d \<leftarrow> wait_update_flag bus True (devices k);
          d \<leftarrow> wait_update_flag bus False d;
          k \<leftarrow> start_timer (k\<lparr>devices := d\<rparr>);
          d \<leftarrow> wait_update_flag bus True (devices k);
          d \<leftarrow> wait_update_flag bus False d;
          Some (1000000, k\<lparr>devices := d\<rparr>) }"

subsection \<open>The real-time clock\<close>

definition RATE :: u8 where "RATE = 12"
definition FREQUENCY :: u32 where "FREQUENCY = drop_bit (unat RATE - 1) 32768"

definition rtc_calibration_sleep ::
  "'d bus \<Rightarrow> clock_handlers \<Rightarrow> (('d, 'm) clocks_scheme \<Rightarrow> ('d, 'm) clocks_scheme option) \<Rightarrow> ('d, 'm) clocks_scheme
     \<Rightarrow> (u32 \<times> ('d, 'm) clocks_scheme) option" where
  "rtc_calibration_sleep bus handlers start_timer k =
     do { (mapping, k) \<leftarrow> scoped_map_legacy_irq bus 8 \<lparr>handler_type = HandlerFunc, handler_address = at_rtc_sleep_handler handlers\<rparr> k;
          let (previous_a, k) = cmos_read_byte bus True STATUS_A k;
          let (previous_b, k) = cmos_read_byte bus True STATUS_B k;
          let new_a = (previous_a AND 0xF0) OR RATE;
          let new_b_interrupt = previous_b OR 0x40;
          let new_b_no_interrupt = previous_b AND 0xBF;
          let k = k\<lparr>INTERRUPT_RECEIVED := False\<rparr>;
          let k = cmos_write_byte bus True STATUS_A new_a k;
          let k = cmos_write_byte bus True STATUS_B new_b_interrupt k;
          let (_, k) = cmos_read_byte bus True STATUS_C k;
          k \<leftarrow> wait_for bus handlers INTERRUPT_RECEIVED k;
          k \<leftarrow> start_timer k;
          let (_, k) = cmos_read_byte bus True STATUS_C k;
          let k = k\<lparr>INTERRUPT_RECEIVED := False\<rparr>;
          k \<leftarrow> wait_for bus handlers INTERRUPT_RECEIVED k;
          let k = cmos_write_byte bus True STATUS_B new_b_no_interrupt k;
          let (_, k) = cmos_read_byte bus False STATUS_C k;
          let k = k\<lparr>INTERRUPT_RECEIVED := False\<rparr>;
          k \<leftarrow> drop_scoped_mapping bus mapping k;
          Some (1000000 div FREQUENCY, k) }"

text \<open>The call through the table of the manager.\<close>

definition calibration_sleep ::
  "'d bus \<Rightarrow> clock_handlers \<Rightarrow> calibration_timer \<Rightarrow> (('d, 'm) clocks_scheme \<Rightarrow> ('d, 'm) clocks_scheme option)
     \<Rightarrow> ('d, 'm) clocks_scheme \<Rightarrow> (u32 \<times> ('d, 'm) clocks_scheme) option" where
  "calibration_sleep bus handlers ct start_timer k =
     (case ct of
        DummyCalibrationTimer \<Rightarrow> None
      | RtcCalibrationTimer \<Rightarrow> rtc_calibration_sleep bus handlers start_timer k
      | CmosCalibrationTimer \<Rightarrow> cmos_calibration_sleep bus start_timer k)"

subsection \<open>The timer of the local APIC\<close>

definition calibrate :: "'d bus \<Rightarrow> clock_handlers \<Rightarrow> ('d, 'm) clocks_scheme \<Rightarrow> ('d, 'm) clocks_scheme option" where
  "calibrate bus handlers k =
     do { k \<leftarrow> apic_write bus DivideConfiguration 3 k;
          (time_slept, k) \<leftarrow> calibration_sleep bus handlers (manager_calibration_timer (MANAGER k)) (apic_write bus InitialCount 0xFFFFFFFF) k;
          (end_ticks, k) \<leftarrow> apic_read bus CurrentCount k;
          num_ticks \<leftarrow> checked_sub 0xFFFFFFFF end_ticks;
          update_local_apic (\<lambda>info. info\<lparr>timer_us_numerator := ucast num_ticks, timer_us_denominator := ucast time_slept\<rparr>) k }"

definition timer_setup :: "'d bus \<Rightarrow> ('d, 'm) clocks_scheme \<Rightarrow> ('d, 'm) clocks_scheme option" where
  "timer_setup bus k =
     do { _ \<leftarrow> get_local_apic k;
          (r, k) \<leftarrow> reserve_vector k;
          index \<leftarrow> r;
          k \<leftarrow> update_local_apic (\<lambda>info. info\<lparr>interrupt_idt_index := Some (ucast index)\<rparr>) k;
          (timer_lvt, k) \<leftarrow> apic_read bus LvtTimer k;
          vector \<leftarrow> checked_add 128 index;
          let timer_lvt = timer_set_interrupt_vector vector timer_lvt;
          let timer_lvt = timer_set_masked True timer_lvt;
          let timer_lvt = set_timer_mode OneShot timer_lvt;
          k \<leftarrow> apic_write bus LvtTimer timer_lvt k;
          k \<leftarrow> apic_write bus DivideConfiguration 3 k;
          k \<leftarrow> apic_write bus InitialCount 0xFFFFFFFF k;
          Some (k\<lparr>TIMERS := (TIMERS k)\<lparr>timer_apic := True\<rparr>\<rparr>) }"

datatype interrupt_type = Sleep | ContextSwitch

definition set_interrupt_type :: "clock_handlers \<Rightarrow> interrupt_type \<Rightarrow> ('d, 'm) clocks_scheme \<Rightarrow> ('d, 'm) clocks_scheme option" where
  "set_interrupt_type handlers ty k =
     do { tls \<leftarrow> TLS k;
          index \<leftarrow> interrupt_idt_index (local_apic tls);
          h \<leftarrow> (case ty of Sleep \<Rightarrow> Some \<lparr>handler_type = HandlerFunc, handler_address = at_apic_sleep_handler handlers\<rparr> | ContextSwitch \<Rightarrow> None);
          entry \<leftarrow> with_handler_and_generic_stack h;
          set_apic_interrupt (unat index) entry k }"

text \<open>The block that \<^verbatim>\<open>sleep_ms\<close> and \<^verbatim>\<open>start_countdown_ms\<close> share.\<close>

definition start_countdown_ms :: "'d bus \<Rightarrow> u32 \<Rightarrow> ('d, 'm) kernel_scheme \<Rightarrow> ('d, 'm) kernel_scheme option" where
  "start_countdown_ms bus time_ms k =
     do { time_us \<leftarrow> checked_mul (ucast time_ms) 1000;
          tls \<leftarrow> TLS k;
          _ \<leftarrow> get_local_apic k;
          let numerator = timer_us_numerator (local_apic tls);
          let denominator = timer_us_denominator (local_apic tls);
          product \<leftarrow> checked_mul numerator time_us;
          guard (denominator \<noteq> 0);
          let time_apic_ticks = (ucast (product div denominator) :: u32);
          (timer_lvt, k) \<leftarrow> apic_read bus LvtTimer k;
          let timer_lvt = timer_set_masked False timer_lvt;
          let timer_lvt = set_timer_mode OneShot timer_lvt;
          k \<leftarrow> apic_write bus LvtTimer timer_lvt k;
          k \<leftarrow> update_local_apic (\<lambda>info. info\<lparr>interrupt_received := False\<rparr>) k;
          apic_write bus InitialCount time_apic_ticks k }"

definition apic_interrupt_received :: "('d, 'm) kernel_scheme \<Rightarrow> bool" where
  "apic_interrupt_received k = (case TLS k of Some tls \<Rightarrow> interrupt_received (local_apic tls) | None \<Rightarrow> False)"

definition sleep_ms :: "'d bus \<Rightarrow> clock_handlers \<Rightarrow> u32 \<Rightarrow> ('d, 'm) clocks_scheme \<Rightarrow> ('d, 'm) clocks_scheme option" where
  "sleep_ms bus handlers time_ms k =
     do { k \<leftarrow> start_countdown_ms bus time_ms k;
          k \<leftarrow> wait_for bus handlers apic_interrupt_received k;
          update_local_apic (\<lambda>info. info\<lparr>interrupt_received := False\<rparr>) k }"

definition countdown_remaining_ms :: "'d bus \<Rightarrow> ('d, 'm) kernel_scheme \<Rightarrow> (u32 \<times> ('d, 'm) kernel_scheme) option" where
  "countdown_remaining_ms bus k =
     do { tls \<leftarrow> TLS k;
          let numerator = timer_us_numerator (local_apic tls);
          let denominator = timer_us_denominator (local_apic tls);
          (time_apic_ticks, k) \<leftarrow> apic_read bus CurrentCount k;
          product \<leftarrow> checked_mul (ucast time_apic_ticks) denominator;
          guard (numerator \<noteq> 0);
          Some (ucast (product div numerator div 1000), k) }"

definition countdown_ended :: "('d, 'm) kernel_scheme \<Rightarrow> bool option" where
  "countdown_ended k = do { tls \<leftarrow> TLS k; Some (interrupt_received (local_apic tls)) }"

definition stop_countdown :: "'d bus \<Rightarrow> ('d, 'm) kernel_scheme \<Rightarrow> ('d, 'm) kernel_scheme option" where
  "stop_countdown bus k =
     do { (timer_lvt, k) \<leftarrow> apic_read bus LvtTimer k;
          apic_write bus LvtTimer (timer_set_masked True timer_lvt) k }"

definition acknowledge_countdown_interrupt :: "'d bus \<Rightarrow> ('d, 'm) kernel_scheme \<Rightarrow> ('d, 'm) kernel_scheme option" where
  "acknowledge_countdown_interrupt bus k = apic_signal_eoi bus k"

declare wait_for.simps [code] wait_update_flag.simps [code]

end
