(* ===== verification/Io_Routing.thy ===== *)
theory Io_Routing
  imports Io_Interrupts Descriptor_Tables
begin

text \<open>
  What the interrupt routing does: the laws of the bit fields, the redirection entries that registering and unregistering a line
  leave in the I/O APICs, and which interrupt vectors are given out.
\<close>

subsection \<open>Bit fields\<close>

lemma bit_set_bit_range:
  assumes "msb < LENGTH('a)" "lsb \<le> msb" "msb - lsb < 8"
  shows "bit (set_bit_range msb lsb v (w :: 'a::len word)) n \<longleftrightarrow> (if lsb \<le> n \<and> n \<le> msb then bit v (n - lsb) else bit w n)"
  using assms by (auto simp: set_bit_range_def bit_simps dest: bit_imp_le_length)

lemma bit_bit_range:
  assumes "msb < LENGTH('a)" "lsb \<le> msb" "msb - lsb < 8"
  shows "bit (bit_range msb lsb (w :: 'a::len word)) n \<longleftrightarrow> n \<le> msb - lsb \<and> bit w (lsb + n)"
  using assms by (auto simp: bit_range_def bit_simps)

lemma bit_set_bit_bool: "i < LENGTH('a) \<Longrightarrow> bit (set_bit_bool i b (w :: 'a::len word)) n \<longleftrightarrow> (if n = i then b else bit w n)"
  by (auto simp: set_bit_bool_def bit_simps)

lemmas entry_setters = set_interrupt_vector_def set_delivery_mode_def set_destination_mode_def set_polarity_def
  set_level_triggered_interrupt_status_def set_trigger_mode_def set_destination_def set_masked_def

lemmas entry_getters = interrupt_vector_def delivery_mode_def destination_mode_def polarity_def level_triggered_interrupt_status_def
  trigger_mode_def destination_def masked_def

lemmas field_bits = bit_set_bit_range bit_bit_range bit_set_bit_bool

text \<open>The bits of a redirection entry that software writes; the others are read-only or reserved.\<close>

definition redirection_mask :: u64 where
  "redirection_mask = 0xFF0000000001AFFF"

lemma bit_redirection_mask: "bit redirection_mask n \<longleftrightarrow> n \<le> 11 \<or> n = 13 \<or> n = 15 \<or> n = 16 \<or> 56 \<le> n \<and> n < 64"
proof (cases "n < 64")
  case True
  have "\<forall>i\<in>set [0..<64]. bit redirection_mask i = (i \<le> 11 \<or> i = 13 \<or> i = 15 \<or> i = 16 \<or> 56 \<le> i)" by code_simp
  then show ?thesis using True by auto
qed (auto dest: bit_imp_le_length)

text \<open>What a registered entry says, as the getters read it.\<close>

lemma register_update_fields:
  fixes vector pol trigger ident entry
  defines "e \<equiv> register_update vector pol trigger ident entry AND redirection_mask"
  shows "interrupt_vector e = vector" "delivery_mode e = Some Normal" "destination_mode e = Physical" "polarity e = pol"
    "trigger_mode e = trigger" "destination e = ident" "\<not> masked e"
proof -
  note s = e_def register_update_def Let_def entry_setters bit_and_iff bit_redirection_mask
  show "interrupt_vector e = vector"
    by (rule bit_word_eqI) (simp add: s entry_getters field_bits)
  show "destination e = ident"
    by (rule bit_word_eqI) (simp add: s entry_getters field_bits)
  have "bit_range 10 8 e = 0"
    by (rule bit_word_eqI) (auto simp: s field_bits)
  then show "delivery_mode e = Some Normal" by (simp add: delivery_mode_def)
  show "destination_mode e = Physical" "polarity e = pol" "trigger_mode e = trigger" "\<not> masked e"
    by (cases pol; cases trigger; simp add: s entry_getters field_bits)+
qed

lemma register_update_masked: "register_update vector pol trigger ident entry AND redirection_mask = register_update vector pol trigger ident 0 AND redirection_mask"
  by (rule bit_word_eqI) (auto simp: register_update_def Let_def entry_setters bit_and_iff bit_redirection_mask field_bits)

subsection \<open>The I/O APIC\<close>

text \<open>
  What the documentation of the device says of the accesses the kernel makes: writing the number of a redirection register to the
  selection register and then reading the window gives that register, and writing the window changes the writable bits of that
  register alone. \<open>reg d b i\<close> are the writable bits of register \<open>i\<close> of the device at \<open>b\<close>, and \<open>entries b\<close> is the number of its
  redirection entries. Their halves are the registers from \<open>0x10\<close> on; nothing is said of other registers, which the eight bits
  of the selection register may not even reach. The kernel's own record of the number of entries may be wrong, since
  \<^verbatim>\<open>IoApic::new\<close> reads it from the wrong bits of the version register; the theorems say of the entry they are about that the device has it.
\<close>

definition register_mask :: "u32 \<Rightarrow> u32" where
  "register_mask i = (if even i then 0x1AFFF else 0xFF000000)"

definition io_apics_behave :: "'d bus \<Rightarrow> ('d \<Rightarrow> usize \<Rightarrow> u32 \<Rightarrow> u32) \<Rightarrow> (usize \<Rightarrow> nat) \<Rightarrow> usize set \<Rightarrow> bool" where
  "io_apics_behave bus reg entries bases \<longleftrightarrow>
     (\<forall>b\<in>bases. unat b + 0x10 < 2 ^ 64 \<and> entries b \<le> 120 \<and>
        (\<forall>i d. 0x10 \<le> unat i \<and> unat i < 0x10 + 2 * entries b \<longrightarrow>
           fst (mmio_read bus (b + 0x10) (mmio_write bus b i d)) AND register_mask i = reg d b i
         \<and> reg (snd (mmio_read bus (b + 0x10) (mmio_write bus b i d))) = reg d
         \<and> (\<forall>v. reg (mmio_write bus (b + 0x10) v (mmio_write bus b i d)) = (reg d)(b := (reg d b)(i := v AND register_mask i)))))"

text \<open>The writable bits of the redirection entry with number \<open>n\<close>.\<close>

definition redirection :: "('d \<Rightarrow> usize \<Rightarrow> u32 \<Rightarrow> u32) \<Rightarrow> 'd \<Rightarrow> usize \<Rightarrow> nat \<Rightarrow> u64" where
  "redirection reg d b n = push_bit 32 (ucast (reg d b (of_nat (17 + 2 * n)))) OR ucast (reg d b (of_nat (16 + 2 * n)))"

lemma window_address: "io_apics_behave bus reg entries bases \<Longrightarrow> b \<in> bases \<Longrightarrow> checked_add b 0x10 = Some (b + 0x10)"
  by (simp add: checked_add_Some io_apics_behave_def unat_add_small)

lemma select_read_behave:
  assumes "io_apics_behave bus reg entries bases" "io_base_address io \<in> bases"
    "0x10 \<le> unat i" "unat i < 0x10 + 2 * entries (io_base_address io)"
  obtains v d' where "select_read bus io i d = Some (v, d')" "v AND register_mask i = reg d (io_base_address io) i" "reg d' = reg d"
proof -
  let ?r = "mmio_read bus (io_base_address io + 0x10) (mmio_write bus (io_base_address io) i d)"
  note window = window_address [OF assms(1,2)]
  then have "select_read bus io i d = Some (fst ?r, snd ?r)" by (simp add: select_read_def)
  moreover have "fst ?r AND register_mask i = reg d (io_base_address io) i" "reg (snd ?r) = reg d"
    using assms unfolding io_apics_behave_def by blast+
  ultimately show thesis by (rule that)
qed

lemma select_write_behave:
  assumes "io_apics_behave bus reg entries bases" "io_base_address io \<in> bases"
    "0x10 \<le> unat i" "unat i < 0x10 + 2 * entries (io_base_address io)"
  obtains d' where "select_write bus io i v d = Some d'"
    "reg d' = (reg d)(io_base_address io := (reg d (io_base_address io))(i := v AND register_mask i))"
proof -
  note window = window_address [OF assms(1,2)]
  then have "select_write bus io i v d = Some (mmio_write bus (io_base_address io + 0x10) v (mmio_write bus (io_base_address io) i d))"
    by (simp add: select_write_def)
  moreover have "reg (mmio_write bus (io_base_address io + 0x10) v (mmio_write bus (io_base_address io) i d))
      = (reg d)(io_base_address io := (reg d (io_base_address io))(i := v AND register_mask i))"
    using assms unfolding io_apics_behave_def by blast
  ultimately show thesis by (rule that)
qed

text \<open>The registers of an entry.\<close>

lemma entry_registers:
  assumes "unat i < 0x3F"
  shows "checked_mul (i :: u8) 2 = Some (of_nat (2 * unat i))" "checked_add (of_nat (2 * unat i) :: u8) 0x10 = Some (of_nat (16 + 2 * unat i))"
    "(ucast (of_nat (16 + 2 * unat i) :: u8) :: u32) = of_nat (16 + 2 * unat i)"
    "unat (of_nat (16 + 2 * unat i) :: u32) = 16 + 2 * unat i" "unat (of_nat (17 + 2 * unat i) :: u32) = 17 + 2 * unat i"
    "register_mask (of_nat (16 + 2 * unat i)) = 0x1AFFF" "register_mask (of_nat (17 + 2 * unat i)) = 0xFF000000"
proof -
  have n: "unat (of_nat (16 + 2 * unat i) :: u8) = 16 + 2 * unat i" "unat (of_nat (2 * unat i) :: u8) = 2 * unat i"
    "unat (of_nat (16 + 2 * unat i) :: u32) = 16 + 2 * unat i" "unat (of_nat (17 + 2 * unat i) :: u32) = 17 + 2 * unat i"
    using assms by (simp_all add: unat_of_nat_small del: of_nat_add of_nat_mult)
  show "checked_mul i 2 = Some (of_nat (2 * unat i))" "checked_add (of_nat (2 * unat i) :: u8) 0x10 = Some (of_nat (16 + 2 * unat i))"
    using assms n by (simp_all add: checked_mul_Some checked_add_Some)
  show "(ucast (of_nat (16 + 2 * unat i) :: u8) :: u32) = of_nat (16 + 2 * unat i)"
    by (rule word_eq_unatI) (simp add: unat_ucast_up n del: of_nat_add of_nat_mult)
  show "unat (of_nat (16 + 2 * unat i) :: u32) = 16 + 2 * unat i" "unat (of_nat (17 + 2 * unat i) :: u32) = 17 + 2 * unat i"
    by (simp_all only: n)
  show "register_mask (of_nat (16 + 2 * unat i)) = 0x1AFFF" "register_mask (of_nat (17 + 2 * unat i)) = 0xFF000000"
    by (simp_all add: register_mask_def)
qed

lemma redirection_mask_halves: "redirection_mask = push_bit 32 (ucast (0xFF000000 :: u32)) OR ucast (0x1AFFF :: u32)"
  by code_simp

lemma halves_and:
  "(push_bit 32 (ucast (up :: u32)) OR ucast (lo :: u32) :: u64) AND (push_bit 32 (ucast (um :: u32)) OR ucast (lm :: u32))
     = push_bit 32 (ucast (up AND um)) OR ucast (lo AND lm)"
  by (rule bit_word_eqI) (auto simp: bit_simps dest: bit_imp_le_length)

lemma halves_masked:
  "(push_bit 32 (ucast (up :: u32)) OR ucast (lo :: u32) :: u64) AND redirection_mask
     = push_bit 32 (ucast (up AND 0xFF000000)) OR ucast (lo AND 0x1AFFF)"
  unfolding redirection_mask_halves by (rule halves_and)

lemma halves_join: "(push_bit 32 (ucast (ucast (drop_bit 32 v) :: u32)) OR ucast (ucast v :: u32) :: u64) = v"
  by (rule bit_word_eqI) (auto simp: bit_simps)

lemma read_redirection_entry_behave:
  assumes "io_apics_behave bus reg entries bases" "io_base_address io \<in> bases" "ucast i < num_redirection_entries io" "unat i < 0x3F"
    "unat i < entries (io_base_address io)"
  obtains v d' where "read_redirection_entry bus io i d = Some (v, d')" "reg d' = reg d"
    "v AND redirection_mask = redirection reg d (io_base_address io) (unat i)"
proof -
  note e = entry_registers [OF assms(4)]
  have r: "0x10 \<le> unat (of_nat (16 + 2 * unat i) :: u32)" "unat (of_nat (16 + 2 * unat i) :: u32) < 0x10 + 2 * entries (io_base_address io)"
    "0x10 \<le> unat (of_nat (17 + 2 * unat i) :: u32)" "unat (of_nat (17 + 2 * unat i) :: u32) < 0x10 + 2 * entries (io_base_address io)"
    using assms(5) unfolding e(4,5) by simp_all
  obtain lo d1 where lo: "select_read bus io (of_nat (16 + 2 * unat i)) d = Some (lo, d1)"
    "lo AND 0x1AFFF = reg d (io_base_address io) (of_nat (16 + 2 * unat i))" "reg d1 = reg d"
    by (rule select_read_behave [OF assms(1,2) r(1,2), of d]) (simp only: e)
  obtain up d2 where up: "select_read bus io (of_nat (17 + 2 * unat i)) d1 = Some (up, d2)"
    "up AND 0xFF000000 = reg d (io_base_address io) (of_nat (17 + 2 * unat i))" "reg d2 = reg d"
    by (rule select_read_behave [OF assms(1,2) r(3,4), of d1]) (simp only: e lo(3))
  have n: "(of_nat (16 + 2 * unat i) :: u32) + 1 = of_nat (17 + 2 * unat i)" by simp
  have "read_redirection_entry bus io i d = Some (push_bit 32 (ucast up) OR ucast lo, d2)"
    using assms(3) by (simp only: read_redirection_entry_def guard_True bind.bind_lunit e n lo(1) up(1) prod.case)
  moreover have "(push_bit 32 (ucast up) OR ucast lo) AND redirection_mask = redirection reg d (io_base_address io) (unat i)"
    by (simp only: halves_masked redirection_def lo(2) up(2))
  ultimately show thesis using up(3) that by blast
qed

lemma redirection_update:
  assumes "n < 0x3F" "m < 0x3F"
    and "reg d' = (reg d)(b := (reg d b)(of_nat (16 + 2 * n) := lo AND 0x1AFFF, of_nat (17 + 2 * n) := up AND 0xFF000000))"
  shows "redirection reg d' c m = (if c = b \<and> m = n then (push_bit 32 (ucast up) OR ucast lo) AND redirection_mask else redirection reg d c m)"
proof -
  have u: "unat (of_nat (16 + 2 * k) :: u32) = 16 + 2 * k" "unat (of_nat (17 + 2 * k) :: u32) = 17 + 2 * k" if "k < 0x3F" for k
    using that by (simp_all add: unat_of_nat_small del: of_nat_add of_nat_mult)
  have "(of_nat (16 + 2 * m) :: u32) = of_nat (16 + 2 * n) \<longleftrightarrow> m = n" "(of_nat (17 + 2 * m) :: u32) = of_nat (17 + 2 * n) \<longleftrightarrow> m = n"
    "(of_nat (17 + 2 * m) :: u32) \<noteq> of_nat (16 + 2 * n)" "(of_nat (16 + 2 * m) :: u32) \<noteq> of_nat (17 + 2 * n)"
    "(of_nat (16 + 2 * n) :: u32) \<noteq> of_nat (17 + 2 * n)"
    unfolding word_unat_eq_iff u [OF assms(1)] u [OF assms(2)] by presburger+
  then show ?thesis unfolding redirection_def halves_masked by (simp add: assms(3) del: of_nat_add of_nat_mult)
qed

lemma write_redirection_entry_behave:
  assumes "io_apics_behave bus reg entries bases" "io_base_address io \<in> bases" "ucast i < num_redirection_entries io" "unat i < 0x3F"
    "unat i < entries (io_base_address io)"
  obtains d' where "write_redirection_entry bus io i v d = Some d'"
    "\<And>c m. m < 0x3F \<Longrightarrow> redirection reg d' c m = (if c = io_base_address io \<and> m = unat i then v AND redirection_mask else redirection reg d c m)"
proof -
  let ?b = "io_base_address io" and ?lo = "ucast v :: u32" and ?up = "ucast (drop_bit 32 v) :: u32"
  note e = entry_registers [OF assms(4)]
  have r: "0x10 \<le> unat (of_nat (16 + 2 * unat i) :: u32)" "unat (of_nat (16 + 2 * unat i) :: u32) < 0x10 + 2 * entries (io_base_address io)"
    "0x10 \<le> unat (of_nat (17 + 2 * unat i) :: u32)" "unat (of_nat (17 + 2 * unat i) :: u32) < 0x10 + 2 * entries (io_base_address io)"
    using assms(5) unfolding e(4,5) by simp_all
  obtain d1 where d1: "select_write bus io (of_nat (16 + 2 * unat i)) ?lo d = Some d1"
    "reg d1 = (reg d)(?b := (reg d ?b)(of_nat (16 + 2 * unat i) := ?lo AND 0x1AFFF))"
    by (rule select_write_behave [OF assms(1,2) r(1,2), of ?lo d]) (simp only: e)
  obtain d2 where d2: "select_write bus io (of_nat (17 + 2 * unat i)) ?up d1 = Some d2"
    "reg d2 = (reg d1)(?b := (reg d1 ?b)(of_nat (17 + 2 * unat i) := ?up AND 0xFF000000))"
    by (rule select_write_behave [OF assms(1,2) r(3,4), of ?up d1]) (simp only: e)
  have n: "(of_nat (16 + 2 * unat i) :: u32) + 1 = of_nat (17 + 2 * unat i)" by simp
  have "write_redirection_entry bus io i v d = Some d2"
    using assms(3) by (simp only: write_redirection_entry_def guard_True bind.bind_lunit e n d1(1) d2(1))
  moreover have u: "reg d2 = (reg d)(?b := (reg d ?b)(of_nat (16 + 2 * unat i) := ?lo AND 0x1AFFF, of_nat (17 + 2 * unat i) := ?up AND 0xFF000000))"
    by (simp add: d2(2) d1(2) del: of_nat_add of_nat_mult)
  moreover have "redirection reg d2 c m = (if c = ?b \<and> m = unat i then v AND redirection_mask else redirection reg d c m)" if "m < 0x3F" for c m
    using redirection_update [OF assms(4) that u, of c] by (simp only: halves_join)
  ultimately show thesis using that by blast
qed

subsection \<open>Routing a line\<close>

definition io_apic_ok :: "io_apic \<Rightarrow> bool" where
  "io_apic_ok io \<longleftrightarrow> num_redirection_entries io < 0x3F \<and> unat (global_system_interrupt_base io) + unat (num_redirection_entries io) < 2 ^ 32"

definition serves :: "u32 \<Rightarrow> io_apic \<Rightarrow> bool" where
  "serves irq io \<longleftrightarrow> unat (global_system_interrupt_base io) \<le> unat irq
     \<and> unat irq < unat (global_system_interrupt_base io) + unat (num_redirection_entries io)"

text \<open>The number of the entry for an interrupt.\<close>

definition slot :: "u32 \<Rightarrow> io_apic \<Rightarrow> nat" where
  "slot irq io = unat irq - unat (global_system_interrupt_base io)"

lemma end_irq:
  assumes "io_apic_ok io"
  obtains end_irq where "checked_add (global_system_interrupt_base io) (ucast (num_redirection_entries io)) = Some end_irq"
    "(global_system_interrupt_base io \<le> irq \<and> irq < end_irq) = serves irq io"
proof -
  let ?e = "global_system_interrupt_base io + ucast (num_redirection_entries io)"
  have e: "unat ?e = unat (global_system_interrupt_base io) + unat (num_redirection_entries io)"
    using assms by (simp add: io_apic_ok_def unat_add_small unat_ucast_up)
  then have "checked_add (global_system_interrupt_base io) (ucast (num_redirection_entries io)) = Some ?e"
    by (simp add: checked_add_Some unat_ucast_up)
  moreover have "(global_system_interrupt_base io \<le> irq \<and> irq < ?e) = serves irq io"
    by (simp add: serves_def word_le_nat_alt word_less_nat_alt e)
  ultimately show thesis by (rule that)
qed

lemma serves_slot:
  assumes "io_apic_ok io" "serves irq io"
  shows "unat (irq - global_system_interrupt_base io) = slot irq io" "slot irq io < 0x3F" "slot irq io < unat (num_redirection_entries io)"
    "unat (ucast (irq - global_system_interrupt_base io) :: u8) = slot irq io"
proof -
  show u: "unat (irq - global_system_interrupt_base io) = slot irq io"
    using assms(2) by (simp add: slot_def serves_def unat_sub word_le_nat_alt)
  show less: "slot irq io < unat (num_redirection_entries io)" using assms(2) by (simp add: slot_def serves_def less_diff_conv2)
  also have small: "\<dots> < 0x3F" using assms(1) by (simp add: io_apic_ok_def word_less_nat_alt)
  finally show "slot irq io < 0x3F" .
  then show "unat (ucast (irq - global_system_interrupt_base io) :: u8) = slot irq io" by (simp add: unsigned_ucast_eq u take_bit_nat_eq_self)
qed

lemma redirect_behave:
  assumes "io_apics_behave bus reg entries bases" "\<forall>io\<in>set ios. io_apic_ok io \<and> io_base_address io \<in> bases" "List.find (serves irq) ios = Some io"
    and held: "slot irq io < entries (io_base_address io)"
  obtains d' entry where "redirect bus update irq ios d = Some d'"
    "entry AND redirection_mask = redirection reg d (io_base_address io) (slot irq io)"
    "\<And>c m. m < 0x3F \<Longrightarrow> redirection reg d' c m
       = (if c = io_base_address io \<and> m = slot irq io then update entry AND redirection_mask else redirection reg d c m)"
  using assms(2,3)
proof (induction ios arbitrary: thesis)
  case (Cons x xs)
  have x: "io_apic_ok x" "io_base_address x \<in> bases" using Cons.prems(2) by simp_all
  obtain end_irq where e: "checked_add (global_system_interrupt_base x) (ucast (num_redirection_entries x)) = Some end_irq"
    "(global_system_interrupt_base x \<le> irq \<and> irq < end_irq) = serves irq x"
    by (rule end_irq [OF x(1)])
  show ?case
  proof (cases "serves irq x")
    case True
    then have [simp]: "io = x" using Cons.prems(3) by simp
    let ?i = "ucast (irq - global_system_interrupt_base x) :: u8"
    note sl = serves_slot [OF x(1) True]
    have i: "ucast ?i < num_redirection_entries x" "unat ?i < 0x3F" "unat ?i < entries (io_base_address x)"
      using sl held by (simp_all add: word_less_nat_alt unat_ucast_up)
    have g: "irq - global_system_interrupt_base x \<le> 0x3F" using sl(1,2) by (simp add: word_le_nat_alt)
    obtain v d1 where r: "read_redirection_entry bus x ?i d = Some (v, d1)" "reg d1 = reg d"
      "v AND redirection_mask = redirection reg d (io_base_address x) (unat ?i)"
      by (rule read_redirection_entry_behave [OF assms(1) x(2) i])
    obtain d' where w: "write_redirection_entry bus x ?i (update v) d1 = Some d'"
      "\<And>c m. m < 0x3F \<Longrightarrow> redirection reg d' c m
         = (if c = io_base_address x \<and> m = unat ?i then update v AND redirection_mask else redirection reg d1 c m)"
      by (rule write_redirection_entry_behave [OF assms(1) x(2) i]) (rule that)
    have "redirect bus update irq (x # xs) d = Some d'"
      using True e g r(1) w(1) by (simp add: Let_def)
    moreover have "redirection reg d1 c m = redirection reg d c m" for c m by (simp add: redirection_def r(2))
    ultimately show thesis using Cons.prems(1) [of d' v] r(3) w(2) by (simp add: sl(4))
  next
    case False
    then have f: "List.find (serves irq) xs = Some io" using Cons.prems(3) by simp
    have "redirect bus update irq (x # xs) d = redirect bus update irq xs d" using False e by (auto simp: Let_def)
    moreover have "\<forall>io\<in>set xs. io_apic_ok io \<and> io_base_address io \<in> bases" using Cons.prems(2) by simp
    ultimately show thesis using Cons.IH [OF _ _ f] Cons.prems(1) by metis
  qed
qed simp

text \<open>
  The identification register of the local APIC holds the identification in its top eight bits, the others are zero. Reading it
  leaves the I/O APICs alone.
\<close>

definition lapic_id_is :: "'d bus \<Rightarrow> ('d \<Rightarrow> usize \<Rightarrow> u32 \<Rightarrow> u32) \<Rightarrow> usize \<Rightarrow> u8 \<Rightarrow> bool" where
  "lapic_id_is bus reg apic ident \<longleftrightarrow> unat apic + 0x20 < 2 ^ 64
     \<and> (\<forall>d. fst (mmio_read bus (apic + 0x20) d) = push_bit 24 (ucast ident) \<and> reg (snd (mmio_read bus (apic + 0x20) d)) = reg d)"

lemma apic_read_id:
  assumes "lapic_id_is bus reg apic ident" "get_local_apic k = Some apic"
  obtains d where "apic_read bus LapicId k = Some (push_bit 24 (ucast ident), k\<lparr>devices := d\<rparr>)" "reg d = reg (devices k)"
proof -
  have "checked_add apic 0x20 = Some (apic + 0x20)" using assms(1) by (simp add: lapic_id_is_def checked_add_Some unat_add_small)
  then have "apic_read bus LapicId k = Some (push_bit 24 (ucast ident), k\<lparr>devices := snd (mmio_read bus (apic + 0x20) (devices k))\<rparr>)"
    using assms by (simp add: apic_read_def local_read_register_def lapic_id_is_def case_prod_beta)
  then show thesis by (rule that) (use assms(1) in \<open>simp add: lapic_id_is_def\<close>)
qed

text \<open>
  Registering a line changes exactly one redirection entry: that of the first I/O APIC which serves the interrupt that the
  overrides of the MADT give the line.
\<close>

lemma register_effect:
  assumes "io_apics_behave bus reg entries (io_base_address ` set (io_apics state))" "\<forall>io\<in>set (io_apics state). io_apic_ok io"
    and "lapic_id_is bus reg apic 0" "get_local_apic k = Some apic" "APIC_STATE k = Some state"
    and "irq < 16" "legacy_route state irq = Some (pol, trigger, gsi)" "List.find (serves gsi) (io_apics state) = Some io"
    and "slot gsi io < entries (io_base_address io)"
  obtains d e where "register_legacy_irq bus irq vector k = Some (k\<lparr>devices := d\<rparr>)"
    "redirection reg d (io_base_address io) (slot gsi io) = e" "interrupt_vector e = vector" "delivery_mode e = Some Normal"
    "destination_mode e = Physical" "polarity e = pol" "trigger_mode e = trigger" "destination e = 0" "\<not> masked e"
    "\<forall>c m. m < 0x3F \<and> (c, m) \<noteq> (io_base_address io, slot gsi io) \<longrightarrow> redirection reg d c m = redirection reg (devices k) c m"
proof -
  obtain d1 where d1: "apic_read bus LapicId k = Some (0, k\<lparr>devices := d1\<rparr>)" "reg d1 = reg (devices k)"
    by (rule apic_read_id [OF assms(3,4)]) simp
  let ?update = "register_update vector pol trigger 0"
  have io: "io_apic_ok io" "serves gsi io" using assms(2,8) by (auto simp: find_Some_iff)
  have b: "\<forall>io\<in>set (io_apics state). io_apic_ok io \<and> io_base_address io \<in> io_base_address ` set (io_apics state)"
    using assms(2) by simp
  obtain d2 entry where d2: "redirect bus ?update gsi (io_apics state) d1 = Some d2"
    "\<And>c m. m < 0x3F \<Longrightarrow> redirection reg d2 c m
       = (if c = io_base_address io \<and> m = slot gsi io then ?update entry AND redirection_mask else redirection reg d1 c m)"
    by (rule redirect_behave [OF assms(1) b assms(8,9), of ?update d1]) (rule that)
  have r: "register_legacy_irq bus irq vector k = Some (k\<lparr>devices := d2\<rparr>)"
    using assms(4-7) by (simp add: register_legacy_irq_def d1(1) d2(1))
  have s: "redirection reg d2 (io_base_address io) (slot gsi io) = ?update entry AND redirection_mask"
    using d2(2) serves_slot(2) [OF io] by simp
  have same: "redirection reg d1 c m = redirection reg (devices k) c m" for c m by (simp add: redirection_def d1(2))
  have rest: "\<forall>c m. m < 0x3F \<and> (c, m) \<noteq> (io_base_address io, slot gsi io) \<longrightarrow> redirection reg d2 c m = redirection reg (devices k) c m"
    using d2(2) same by auto
  show thesis using that [OF r s] rest register_update_fields [of vector pol trigger 0 entry] by blast
qed

text \<open>
  The identification is compared with 256 before it is shifted down from the top bits, so registering a line panics on every
  processor but the one with the identification zero.
\<close>

lemma register_other_processor:
  assumes "lapic_id_is bus reg apic ident" "ident \<noteq> 0" "get_local_apic k = Some apic"
  shows "register_legacy_irq bus irq vector k = None"
proof -
  obtain d where d: "apic_read bus LapicId k = Some (push_bit 24 (ucast ident), k\<lparr>devices := d\<rparr>)"
    by (rule apic_read_id [OF assms(1,3)])
  have "unat (push_bit 24 (ucast ident) :: u32) = 2 ^ 24 * unat ident"
    using unsigned_less [of ident, where 'a = nat] by (simp add: push_bit_eq_mult unat_word_ariths unat_ucast_up)
  moreover have "0 < unat ident" using assms(2) by (simp add: unat_gt_0)
  ultimately have "\<not> (push_bit 24 (ucast ident) :: u32) < 256" by (simp add: word_less_nat_alt)
  then show ?thesis by (auto simp: register_legacy_irq_def d guard_def split: option.splits bind_splits)
qed

lemma unregister_update_masked: "masked (unregister_update entry AND redirection_mask)"
  by (simp add: unregister_update_def Let_def entry_setters entry_getters field_bits bit_and_iff bit_redirection_mask)

lemma find_override_irq: "List.find (\<lambda>ov. override_irq_source ov = irq) ovs = Some ov \<Longrightarrow> override_irq_source ov = irq"
  by (auto simp: find_Some_iff)

lemma unregister_effect:
  assumes "io_apics_behave bus reg entries (io_base_address ` set (io_apics state))" "\<forall>io\<in>set (io_apics state). io_apic_ok io"
    and "APIC_STATE k = Some state" "List.find (serves (ucast irq)) (io_apics state) = Some io"
    and "slot (ucast irq) io < entries (io_base_address io)"
  obtains d where "unregister_legacy_irq bus irq k = Some (k\<lparr>devices := d\<rparr>)" "masked (redirection reg d (io_base_address io) (slot (ucast irq) io))"
    "\<And>c m. m < 0x3F \<Longrightarrow> (c, m) \<noteq> (io_base_address io, slot (ucast irq) io) \<Longrightarrow> redirection reg d c m = redirection reg (devices k) c m"
proof -
  have b: "\<forall>io\<in>set (io_apics state). io_apic_ok io \<and> io_base_address io \<in> io_base_address ` set (io_apics state)"
    using assms(2) by simp
  have io: "io_apic_ok io" "serves (ucast irq) io" using assms(2,4) by (auto simp: find_Some_iff)
  obtain d entry where d: "redirect bus unregister_update (ucast irq) (io_apics state) (devices k) = Some d"
    "\<And>c m. m < 0x3F \<Longrightarrow> redirection reg d c m
       = (if c = io_base_address io \<and> m = slot (ucast irq) io then unregister_update entry AND redirection_mask else redirection reg (devices k) c m)"
    by (rule redirect_behave [OF assms(1) b assms(4,5), of unregister_update "devices k"]) (rule that)
  have "(case List.find (\<lambda>ov. override_irq_source ov = irq) (interrupt_source_overrides state) of
      Some ov \<Rightarrow> ucast (override_irq_source ov) | None \<Rightarrow> (ucast irq :: u32)) = ucast irq"
    by (auto split: option.split dest: find_override_irq)
  then have "unregister_legacy_irq bus irq k = Some (k\<lparr>devices := d\<rparr>)"
    by (simp add: unregister_legacy_irq_def assms(3) d(1))
  then show thesis
  proof (rule that)
    show "masked (redirection reg d (io_base_address io) (slot (ucast irq) io))"
      using d(2) serves_slot(2) [OF io] unregister_update_masked [of entry] by simp
  qed (use d(2) in auto)
qed

subsection \<open>Interrupt vectors\<close>

text \<open>Vector \<open>i\<close> of the APIC is in use; the vectors are counted from the top bit of the first group.\<close>

definition in_use :: "u64 list \<Rightarrow> nat \<Rightarrow> bool" where
  "in_use vectors i = bit (vectors ! (i div 64)) (63 - i mod 64)"

lemma leading_ones_less:
  assumes "g \<noteq> NOT 0"
  shows "leading_ones g < 64" "\<not> bit g (63 - leading_ones g)" "j < leading_ones g \<Longrightarrow> bit g (63 - j)"
proof -
  have "NOT g \<noteq> 0" using assms by (metis bit.double_compl)
  note z = leading_zeros_less [OF this, folded leading_ones_def]
  show l: "leading_ones g < 64" using z(1) by simp
  show "\<not> bit g (63 - leading_ones g)" using z(2) by (simp add: bit_not_iff)
  show "bit g (63 - j)" if "j < leading_ones g" using z(3) [of "63 - j"] that l by (simp add: bit_not_iff)
qed

lemma bit_top_one: "bit (drop_bit l (0x8000000000000000 :: u64)) n \<longleftrightarrow> l < 64 \<and> n = 63 - l"
proof -
  have top: "(0x8000000000000000 :: u64) = push_bit 63 1" by simp
  show ?thesis unfolding top by (simp only: bit_drop_bit_eq comp_def bit_push_bit_iff) (auto simp: bit_1_iff)
qed

lemma reserve_group:
  assumes "g \<noteq> NOT 0" "n < 64"
  shows "bit (g OR drop_bit (leading_ones g) (push_bit 63 1)) (63 - n) \<longleftrightarrow> n = leading_ones g \<or> bit g (63 - n)"
  using assms(2) leading_ones_less(1) [OF assms(1)] by (auto simp: bit_or_iff bit_top_one)

lemma in_use_pair: "j < 128 \<Longrightarrow> in_use [g0, g1] j = (if j < 64 then bit g0 (63 - j) else bit g1 (63 - (j - 64)))"
proof -
  assume "j < 128"
  then have "\<not> j < 64 \<Longrightarrow> j div 64 = 1 \<and> j mod 64 = j - 64" by (simp add: div_nat_eqI le_mod_geq)
  then show ?thesis by (auto simp: in_use_def)
qed

lemma reserve_first:
  assumes "interrupt_vector_map state = [g0, g1]" "g0 \<noteq> NOT 0"
  shows "try_find_and_reserve_entry state
    = Some (Some (of_nat (leading_ones g0)), state\<lparr>interrupt_vector_map := [g0 OR drop_bit (leading_ones g0) (push_bit 63 1), g1]\<rparr>)"
    "unat (of_nat (leading_ones g0) :: u8) = leading_ones g0"
proof -
  show u: "unat (of_nat (leading_ones g0) :: u8) = leading_ones g0"
    using leading_ones_less(1) [OF assms(2)] by (simp add: unat_of_nat_small)
  then have "checked_add 0 (of_nat (leading_ones g0) :: u8) = Some (of_nat (leading_ones g0))" by (simp add: checked_add_Some)
  then show "try_find_and_reserve_entry state
    = Some (Some (of_nat (leading_ones g0)), state\<lparr>interrupt_vector_map := [g0 OR drop_bit (leading_ones g0) (push_bit 63 1), g1]\<rparr>)"
    using assms by (simp add: try_find_and_reserve_entry_def Let_def)
qed

lemma free_first:
  assumes "interrupt_vector_map state = [g0 OR drop_bit (leading_ones g0) (push_bit 63 1), g1]" "g0 \<noteq> NOT 0"
  shows "free_vector (of_nat (leading_ones g0)) state = Some (state\<lparr>interrupt_vector_map := [g0, g1]\<rparr>)"
proof -
  let ?l = "leading_ones g0"
  note l = leading_ones_less [OF assms(2)]
  have u: "unat (of_nat ?l :: u8) = ?l" using l(1) by (simp add: unat_of_nat_small)
  have "unat (drop_bit 6 (of_nat ?l :: u8)) = 0" using l(1) u by (simp add: drop_bit_eq_div unat_div)
  moreover have "unat ((of_nat ?l :: u8) AND 0x3F) = ?l"
  proof -
    have "(of_nat ?l :: u8) AND 0x3F = take_bit 6 (of_nat ?l)" by (simp add: take_bit_eq_mask mask_eq_exp_minus_1)
    then show ?thesis using l(1) u by (simp add: unsigned_take_bit_eq take_bit_nat_eq_self)
  qed
  moreover have "(g0 OR drop_bit ?l (push_bit 63 1)) AND NOT (drop_bit ?l (push_bit 63 1)) = g0"
    by (rule bit_word_eqI) (use l(2) in \<open>auto simp: bit_or_iff bit_and_iff bit_not_iff bit_top_one\<close>)
  ultimately show ?thesis using assms(1) by (simp add: free_vector_def Let_def slice_get_def slice_set_def)
qed

text \<open>
  C30. While the first sixty-four vectors are not all taken, reserving a vector gives the lowest free one and marks exactly that one. From
  then on the position in the second group is added to the number of the group instead of to sixty-four: the vector that is marked is
  a free one, but the index that is returned is of a vector already in use, so two devices share it. Only when all 128 vectors
  are taken is none returned.
\<close>

theorem try_find_and_reserve_entry_correct:
  assumes "interrupt_vector_map state = [g0, g1]"
  shows "\<exists>r vectors. try_find_and_reserve_entry state = Some (r, state\<lparr>interrupt_vector_map := vectors\<rparr>) \<and> length vectors = 2
    \<and> (case r of
         None \<Rightarrow> vectors = [g0, g1] \<and> (\<forall>j<128. in_use [g0, g1] j)
       | Some i \<Rightarrow>
           if g0 \<noteq> NOT 0
           then unat i < 64 \<and> \<not> in_use [g0, g1] (unat i) \<and> (\<forall>j<unat i. in_use [g0, g1] j)
              \<and> (\<forall>j<128. in_use vectors j = (j = unat i \<or> in_use [g0, g1] j))
           else in_use [g0, g1] (unat i)
              \<and> (\<exists>n. unat i = 1 + n \<and> \<not> in_use [g0, g1] (64 + n) \<and> (\<forall>j<128. in_use vectors j = (j = 64 + n \<or> in_use [g0, g1] j))))"
proof -
  consider "g0 \<noteq> NOT 0" | "g0 = NOT 0" "g1 \<noteq> NOT 0" | "g0 = NOT 0" "g1 = NOT 0" by blast
  then show ?thesis
  proof cases
    case 1
    note l = leading_ones_less [OF 1]
    let ?l = "leading_ones g0" and ?v = "[g0 OR drop_bit (leading_ones g0) (push_bit 63 1), g1]"
    note r = reserve_first [OF assms 1]
    moreover have "\<forall>j<128. in_use ?v j = (j = ?l \<or> in_use [g0, g1] j)" using l(1) reserve_group [OF 1] by (auto simp: in_use_pair)
    moreover have "\<not> in_use [g0, g1] ?l" "\<forall>j<?l. in_use [g0, g1] j" using l by (auto simp: in_use_pair)
    ultimately show ?thesis using l(1) r 1 by (intro exI [of _ "Some (of_nat ?l)"] exI [of _ ?v]) simp
  next
    case 2
    note l = leading_ones_less [OF 2(2)]
    let ?l = "leading_ones g1" and ?v = "[g0, g1 OR drop_bit (leading_ones g1) (push_bit 63 1)]"
    have u: "unat (of_nat (1 + ?l) :: u8) = 1 + ?l" "unat (of_nat ?l :: u8) = ?l" using l(1) by (simp_all add: unat_of_nat_small del: of_nat_add of_nat_Suc)
    then have "checked_add 1 (of_nat ?l :: u8) = Some (of_nat (1 + ?l))" by (simp add: checked_add_Some)
    then have "try_find_and_reserve_entry state = Some (Some (of_nat (1 + ?l)), state\<lparr>interrupt_vector_map := ?v\<rparr>)"
      using 2 by (simp add: try_find_and_reserve_entry_def assms Let_def)
    moreover have "in_use ?v j = (j = 64 + ?l \<or> in_use [g0, g1] j)" if "j < 128" for j
      using that l(1) reserve_group [OF 2(2), of "j - 64"] by (auto simp: in_use_pair)
    moreover have "in_use [g0, g1] (1 + ?l)" using l(1) l(3) [of 0] 2 by (auto simp: in_use_pair bit_not_iff)
    moreover have "\<not> in_use [g0, g1] (64 + ?l)" using l by (auto simp: in_use_pair)
    ultimately show ?thesis using u(1) 2(1) by (intro exI [of _ "Some (of_nat (1 + ?l))"] exI [of _ ?v]) simp
  next
    case 3
    then show ?thesis
      by (intro exI [of _ None] exI [of _ "[g0, g1]"]) (auto simp: try_find_and_reserve_entry_def assms in_use_pair)
  qed
qed

subsection \<open>Mapping and unmapping a line\<close>

lemma set_apic_interrupt_Some:
  "TLS k = Some tls \<Longrightarrow> i < length (apic_interrupts (tls_idt tls))
     \<Longrightarrow> set_apic_interrupt i entry k
           = Some (k\<lparr>TLS := Some (tls\<lparr>tls_idt := tls_idt tls\<lparr>apic_interrupts := (apic_interrupts (tls_idt tls))[i := entry]\<rparr>\<rparr>)\<rparr>)"
  by (simp add: set_apic_interrupt_def slice_set_def)

lemma map_effect:
  assumes dev: "io_apics_behave bus reg entries (io_base_address ` set (io_apics state))" "\<forall>io\<in>set (io_apics state). io_apic_ok io"
    "lapic_id_is bus reg apic 0"
    and k: "ACTIVE_IO_INTERRUPT_SYSTEM k = Some Apic" "TLS k = Some tls" "info_apic (local_apic tls) = Some apic"
    "length (apic_interrupts (tls_idt tls)) = 128" "APIC_STATE k = Some state" "length (LEGACY_IRQS k) = 16"
    and vectors: "interrupt_vector_map state = [g0, g1]" "g0 \<noteq> NOT 0"
    and irq: "irq < 16" "LEGACY_IRQS k ! unat irq = None" "legacy_route state irq = Some (pol, trigger, gsi)"
    "List.find (serves gsi) (io_apics state) = Some io" "slot gsi io < entries (io_base_address io)"
  obtains d e where "map_legacy_irq bus irq h k = Some (k\<lparr>
      devices := d,
      TLS := Some (tls\<lparr>tls_idt := tls_idt tls\<lparr>apic_interrupts := (apic_interrupts (tls_idt tls))[leading_ones g0 := gate h 0]\<rparr>\<rparr>),
      LEGACY_IRQS := (LEGACY_IRQS k)[unat irq := Some \<lparr>handler_idt_entry = leading_ones g0, entry_index = of_nat (leading_ones g0)\<rparr>],
      APIC_STATE := Some (state\<lparr>interrupt_vector_map := [g0 OR drop_bit (leading_ones g0) (push_bit 63 1), g1]\<rparr>)\<rparr>)"
    "redirection reg d (io_base_address io) (slot gsi io) = e" "unat (interrupt_vector e) = 128 + leading_ones g0"
    "delivery_mode e = Some Normal" "destination_mode e = Physical" "polarity e = pol" "trigger_mode e = trigger"
    "destination e = 0" "\<not> masked e"
    "\<forall>c m. m < 0x3F \<and> (c, m) \<noteq> (io_base_address io, slot gsi io) \<longrightarrow> redirection reg d c m = redirection reg (devices k) c m"
proof -
  let ?l = "leading_ones g0"
  let ?tls = "tls\<lparr>tls_idt := tls_idt tls\<lparr>apic_interrupts := (apic_interrupts (tls_idt tls))[?l := gate h 0]\<rparr>\<rparr>"
  define st where "st = state\<lparr>interrupt_vector_map := [g0 OR drop_bit ?l (push_bit 63 1), g1]\<rparr>"
  let ?k = "k\<lparr>APIC_STATE := Some st, TLS := Some ?tls\<rparr>"
  have l: "?l < 64" by (rule leading_ones_less(1) [OF vectors(2)])
  have r: "reserve_vector k = Some (Some (of_nat ?l), k\<lparr>APIC_STATE := Some st\<rparr>)" and u: "unat (of_nat ?l :: u8) = ?l"
    using reserve_first [OF vectors] by (simp_all add: reserve_vector_def k(5) st_def)
  have v: "checked_add 128 (of_nat ?l :: u8) = Some (of_nat (128 + ?l))" and vu: "unat (of_nat (128 + ?l) :: u8) = 128 + ?l"
    using l by (simp_all add: checked_add_Some unat_of_nat_small u del: of_nat_add)
  obtain d e where d: "register_legacy_irq bus irq (of_nat (128 + ?l)) ?k = Some (?k\<lparr>devices := d\<rparr>)"
    "redirection reg d (io_base_address io) (slot gsi io) = e" "interrupt_vector e = of_nat (128 + ?l)" "delivery_mode e = Some Normal"
    "destination_mode e = Physical" "polarity e = pol" "trigger_mode e = trigger" "destination e = 0" "\<not> masked e"
    "\<forall>c m. m < 0x3F \<and> (c, m) \<noteq> (io_base_address io, slot gsi io) \<longrightarrow> redirection reg d c m = redirection reg (devices ?k) c m"
  proof (rule register_effect)
    show "io_apics_behave bus reg entries (io_base_address ` set (io_apics st))" "\<forall>io\<in>set (io_apics st). io_apic_ok io" using dev by (simp_all add: st_def)
    show "get_local_apic ?k = Some apic" using k by (simp add: get_local_apic_def)
    show "legacy_route st irq = Some (pol, trigger, gsi)" using irq(3) by (simp add: legacy_route_def st_def)
    show "List.find (serves gsi) (io_apics st) = Some io" using irq(4) by (simp add: st_def)
  qed (use dev irq in simp_all)
  have i: "unat irq < 16" using irq(1) by (simp add: word_less_nat_alt)
  have s: "set_apic_interrupt ?l (gate h 0) (k\<lparr>APIC_STATE := Some st\<rparr>) = Some ?k"
    using l k by (simp add: set_apic_interrupt_Some)
  have "map_legacy_irq bus irq h k = Some (?k\<lparr>devices := d, LEGACY_IRQS := (LEGACY_IRQS k)[unat irq := Some \<lparr>handler_idt_entry = ?l, entry_index = of_nat ?l\<rparr>]\<rparr>)"
    using irq(1,2) k(1,6) i
    by (simp add: map_legacy_irq_def r u with_handler_gate(2) s v d(1) slice_get_def slice_set_def del: of_nat_add)
  also have "?k\<lparr>devices := d, LEGACY_IRQS := irqs\<rparr> = k\<lparr>devices := d, TLS := Some ?tls, LEGACY_IRQS := irqs, APIC_STATE := Some st\<rparr>" for irqs
    by simp
  finally show thesis using that d(2-10) vu by (simp add: st_def)
qed

lemma unmap_effect:
  assumes dev: "io_apics_behave bus reg entries (io_base_address ` set (io_apics state))" "\<forall>io\<in>set (io_apics state). io_apic_ok io"
    and k: "ACTIVE_IO_INTERRUPT_SYSTEM k = Some Apic" "TLS k = Some tls" "length (apic_interrupts (tls_idt tls)) = 128"
    "APIC_STATE k = Some state" "length (LEGACY_IRQS k) = 16"
    and vectors: "interrupt_vector_map state = [g0 OR drop_bit (leading_ones g0) (push_bit 63 1), g1]" "g0 \<noteq> NOT 0"
    and irq: "irq < 16" "LEGACY_IRQS k ! unat irq = Some \<lparr>handler_idt_entry = leading_ones g0, entry_index = of_nat (leading_ones g0)\<rparr>"
    "List.find (serves (ucast irq)) (io_apics state) = Some io" "slot (ucast irq) io < entries (io_base_address io)"
  obtains d where "unmap_legacy_id bus irq k = Some (k\<lparr>
      devices := d,
      TLS := Some (tls\<lparr>tls_idt := tls_idt tls\<lparr>apic_interrupts := (apic_interrupts (tls_idt tls))[leading_ones g0 := missing HandlerFunc]\<rparr>\<rparr>),
      LEGACY_IRQS := (LEGACY_IRQS k)[unat irq := None],
      APIC_STATE := Some (state\<lparr>interrupt_vector_map := [g0, g1]\<rparr>)\<rparr>)"
    "masked (redirection reg d (io_base_address io) (slot (ucast irq) io))"
    "\<And>c m. m < 0x3F \<Longrightarrow> (c, m) \<noteq> (io_base_address io, slot (ucast irq) io) \<Longrightarrow> redirection reg d c m = redirection reg (devices k) c m"
proof -
  let ?l = "leading_ones g0" and ?k = "k\<lparr>LEGACY_IRQS := (LEGACY_IRQS k)[unat irq := None]\<rparr>"
  have l: "?l < 128" using leading_ones_less(1) [OF vectors(2)] by simp
  have i: "unat irq < 16" using irq(1) by (simp add: word_less_nat_alt)
  have st: "APIC_STATE ?k = Some state" using k(4) by simp
  obtain d where d: "unregister_legacy_irq bus irq ?k = Some (?k\<lparr>devices := d\<rparr>)"
    "masked (redirection reg d (io_base_address io) (slot (ucast irq) io))"
    "\<And>c m. m < 0x3F \<Longrightarrow> (c, m) \<noteq> (io_base_address io, slot (ucast irq) io) \<Longrightarrow> redirection reg d c m = redirection reg (devices ?k) c m"
    by (rule unregister_effect [OF dev st irq(3,4)]) (rule that)
  have f: "free_entry_vector (of_nat ?l) (?k\<lparr>devices := d\<rparr>) = Some (?k\<lparr>devices := d, APIC_STATE := Some (state\<lparr>interrupt_vector_map := [g0, g1]\<rparr>)\<rparr>)"
    using free_first [OF vectors] by (simp add: free_entry_vector_def k(4))
  have "unmap_legacy_id bus irq k = Some (k\<lparr>
      devices := d,
      TLS := Some (tls\<lparr>tls_idt := tls_idt tls\<lparr>apic_interrupts := (apic_interrupts (tls_idt tls))[?l := missing HandlerFunc]\<rparr>\<rparr>),
      LEGACY_IRQS := (LEGACY_IRQS k)[unat irq := None],
      APIC_STATE := Some (state\<lparr>interrupt_vector_map := [g0, g1]\<rparr>)\<rparr>)"
    using irq(1,2) k i l by (simp add: unmap_legacy_id_def slice_get_def slice_set_def d(1) f set_apic_interrupt_Some)
  then show thesis by (rule that) (use d(2,3) in simp_all)
qed

lemma map_other_processor:
  assumes "lapic_id_is bus reg apic ident" "ident \<noteq> 0" and k: "TLS k = Some tls" "info_apic (local_apic tls) = Some apic"
  shows "map_legacy_irq bus irq h k = None"
proof (rule ccontr)
  assume "map_legacy_irq bus irq h k \<noteq> None"
  then obtain r k1 i entry k2 vector k3 where run: "reserve_vector k = Some (r, k1)" "set_apic_interrupt i entry k1 = Some k2"
    "register_legacy_irq bus irq vector k2 = Some k3"
    by (auto simp: map_legacy_irq_def bind_eq_Some_conv split: option.splits controller.splits)
  then have "get_local_apic k2 = Some apic"
    using k by (auto simp: reserve_vector_def set_apic_interrupt_def get_local_apic_def bind_eq_Some_conv)
  from register_other_processor [OF assms(1,2) this] run(3) show False by simp
qed

text \<open>
  C14. Mapping a free legacy line on the processor whose local APIC has the identification zero, while the first sixty-four vectors are not all taken, takes the
  lowest free vector, puts the handler with the generic stack into its entry of the interrupt table, records both for the line, and
  changes exactly one redirection entry, on I/O APICs that behave as documented: that of the interrupt which the overrides of the MADT
  give the line. The entry then sends the interrupt to this processor as a normal, physically addressed, unmasked interrupt with that
  vector, with the polarity and the trigger mode of the override, or active high and edge triggered for a line without one. On a
  processor with any other identification the call panics: the identification is in the top bits of the register, and the code
  compares the register with 256 without shifting it.
\<close>

theorem map_legacy_irq_correct:
  assumes "io_apics_behave bus reg entries (io_base_address ` set (io_apics state))" "\<forall>io\<in>set (io_apics state). io_apic_ok io"
    "lapic_id_is bus reg apic ident" "ACTIVE_IO_INTERRUPT_SYSTEM k = Some Apic" "TLS k = Some tls" "info_apic (local_apic tls) = Some apic"
    "length (apic_interrupts (tls_idt tls)) = 128" "APIC_STATE k = Some state" "length (LEGACY_IRQS k) = 16"
    "interrupt_vector_map state = [g0, g1]" "g0 \<noteq> NOT 0" "irq < 16" "LEGACY_IRQS k ! unat irq = None"
    "legacy_route state irq = Some (pol, trigger, gsi)" "List.find (serves gsi) (io_apics state) = Some io"
    "slot gsi io < entries (io_base_address io)"
  shows "if ident = 0 then \<exists>i d e vectors.
      i < 64 \<and> \<not> in_use [g0, g1] i \<and> (\<forall>j<i. in_use [g0, g1] j) \<and> (\<forall>j<128. in_use vectors j = (j = i \<or> in_use [g0, g1] j))
    \<and> map_legacy_irq bus irq h k = Some (k\<lparr>
        devices := d,
        TLS := Some (tls\<lparr>tls_idt := tls_idt tls\<lparr>apic_interrupts := (apic_interrupts (tls_idt tls))[i := gate h 0]\<rparr>\<rparr>),
        LEGACY_IRQS := (LEGACY_IRQS k)[unat irq := Some \<lparr>handler_idt_entry = i, entry_index = of_nat i\<rparr>],
        APIC_STATE := Some (state\<lparr>interrupt_vector_map := vectors\<rparr>)\<rparr>)
    \<and> redirection reg d (io_base_address io) (slot gsi io) = e \<and> unat (interrupt_vector e) = 128 + i \<and> delivery_mode e = Some Normal
    \<and> destination_mode e = Physical \<and> polarity e = pol \<and> trigger_mode e = trigger \<and> destination e = 0 \<and> \<not> masked e
    \<and> (\<forall>c m. m < 0x3F \<and> (c, m) \<noteq> (io_base_address io, slot gsi io) \<longrightarrow> redirection reg d c m = redirection reg (devices k) c m)
    else map_legacy_irq bus irq h k = None"
proof (cases "ident = 0")
  case True
  let ?l = "leading_ones g0" and ?v = "[g0 OR drop_bit (leading_ones g0) (push_bit 63 1), g1]"
  note l = leading_ones_less [OF assms(11)]
  have free: "\<not> in_use [g0, g1] ?l" "\<forall>j<?l. in_use [g0, g1] j" "\<forall>j<128. in_use ?v j = (j = ?l \<or> in_use [g0, g1] j)"
    using l reserve_group [OF assms(11)] by (auto simp: in_use_pair)
  have ident: "lapic_id_is bus reg apic 0" using assms(3) True by simp
  show ?thesis unfolding if_P [OF True] by (rule map_effect [OF assms(1,2) ident assms(4-16), of h]) (use free l(1) in blast)
next
  case False
  then show ?thesis using map_other_processor [OF assms(3) False assms(5,6)] by simp
qed

text \<open>
  C29. On the processor whose local APIC has the identification zero and for a line without an override, unmapping undoes mapping: the vector is free again, the line has no handler, the entry of the interrupt table is
  missing, the redirection entry of the line is masked, and no other redirection entry has changed.
\<close>

theorem map_unmap_legacy_irq_round_trip:
  assumes "io_apics_behave bus reg entries (io_base_address ` set (io_apics state))" "\<forall>io\<in>set (io_apics state). io_apic_ok io"
    "lapic_id_is bus reg apic 0" "ACTIVE_IO_INTERRUPT_SYSTEM k = Some Apic" "TLS k = Some tls" "info_apic (local_apic tls) = Some apic"
    "length (apic_interrupts (tls_idt tls)) = 128" "APIC_STATE k = Some state" "length (LEGACY_IRQS k) = 16"
    "interrupt_vector_map state = [g0, g1]" "g0 \<noteq> NOT 0" "irq < 16" "LEGACY_IRQS k ! unat irq = None"
    "legacy_route state irq = Some (pol, trigger, ucast irq)" "List.find (serves (ucast irq)) (io_apics state) = Some io"
    "slot (ucast irq) io < entries (io_base_address io)"
  shows "\<exists>k1 d i. map_legacy_irq bus irq h k = Some k1
    \<and> unmap_legacy_id bus irq k1 = Some (k\<lparr>devices := d,
        TLS := Some (tls\<lparr>tls_idt := tls_idt tls\<lparr>apic_interrupts := (apic_interrupts (tls_idt tls))[i := missing HandlerFunc]\<rparr>\<rparr>)\<rparr>)
    \<and> masked (redirection reg d (io_base_address io) (slot (ucast irq) io))
    \<and> (\<forall>c m. m < 0x3F \<and> (c, m) \<noteq> (io_base_address io, slot (ucast irq) io) \<longrightarrow> redirection reg d c m = redirection reg (devices k) c m)"
proof (rule map_effect [OF assms, of h])
  fix d1 e
  let ?l = "leading_ones g0"
  let ?tls = "tls\<lparr>tls_idt := tls_idt tls\<lparr>apic_interrupts := (apic_interrupts (tls_idt tls))[?l := gate h 0]\<rparr>\<rparr>"
  let ?state = "state\<lparr>interrupt_vector_map := [g0 OR drop_bit ?l (push_bit 63 1), g1]\<rparr>"
  let ?k1 = "k\<lparr>devices := d1, TLS := Some ?tls, LEGACY_IRQS := (LEGACY_IRQS k)[unat irq := Some \<lparr>handler_idt_entry = ?l, entry_index = of_nat ?l\<rparr>],
      APIC_STATE := Some ?state\<rparr>"
  assume m: "map_legacy_irq bus irq h k = Some ?k1"
    and rest: "\<forall>c m. m < 0x3F \<and> (c, m) \<noteq> (io_base_address io, slot (ucast irq) io) \<longrightarrow> redirection reg d1 c m = redirection reg (devices k) c m"
  have i: "unat irq < 16" using assms(12) by (simp add: word_less_nat_alt)
  obtain d where d: "unmap_legacy_id bus irq ?k1 = Some (?k1\<lparr>devices := d,
      TLS := Some (?tls\<lparr>tls_idt := tls_idt ?tls\<lparr>apic_interrupts := (apic_interrupts (tls_idt ?tls))[?l := missing HandlerFunc]\<rparr>\<rparr>),
      LEGACY_IRQS := (LEGACY_IRQS ?k1)[unat irq := None], APIC_STATE := Some (?state\<lparr>interrupt_vector_map := [g0, g1]\<rparr>)\<rparr>)"
    "masked (redirection reg d (io_base_address io) (slot (ucast irq) io))"
    "\<And>c m. m < 0x3F \<Longrightarrow> (c, m) \<noteq> (io_base_address io, slot (ucast irq) io) \<Longrightarrow> redirection reg d c m = redirection reg (devices ?k1) c m"
    by (rule unmap_effect [of bus reg entries ?state ?k1 ?tls g0 g1 irq io]) (use assms i in simp_all)
  have irqs: "(LEGACY_IRQS k)[unat irq := None] = LEGACY_IRQS k" using assms(13) by (metis list_update_id)
  have st: "state\<lparr>interrupt_vector_map := [g0, g1]\<rparr> = state" using assms(10) by simp
  have "unmap_legacy_id bus irq ?k1 = Some (k\<lparr>devices := d,
      TLS := Some (tls\<lparr>tls_idt := tls_idt tls\<lparr>apic_interrupts := (apic_interrupts (tls_idt tls))[?l := missing HandlerFunc]\<rparr>\<rparr>)\<rparr>)"
    using d(1) irqs st assms(8) by simp
  then show ?thesis using m d(2,3) rest by auto
qed

lemma slots_differ:
  assumes "distinct (map io_base_address ios)" "List.find (serves irq) ios = Some io" "List.find (serves gsi) ios = Some io'" "irq \<noteq> gsi"
  shows "(io_base_address io, slot irq io) \<noteq> (io_base_address io', slot gsi io')"
proof
  have s: "serves irq io" "serves gsi io'" "io \<in> set ios" "io' \<in> set ios" using assms(2,3) by (auto simp: find_Some_iff)
  assume eq: "(io_base_address io, slot irq io) = (io_base_address io', slot gsi io')"
  then have "io = io'" using assms(1) s(3,4) by (auto simp: distinct_map inj_on_def)
  then have "unat irq = unat gsi" using eq s(1,2) by (auto simp: slot_def serves_def)
  then show False using assms(4) by (simp add: word_unat_eq_iff)
qed

text \<open>
  C33. Unmapping looks the line itself up, not the interrupt that an override gives it. On the processor whose local APIC has the
  identification zero, after mapping and unmapping a line with an override to another
  interrupt, the redirection entry that mapping had set still sends its interrupts, unmasked, with a vector that is free again and
  whose entry of the interrupt table is missing; the entry with the number of the line, which may belong to another device, is
  masked instead.
\<close>

theorem unmap_legacy_irq_misses_override:
  assumes "io_apics_behave bus reg entries (io_base_address ` set (io_apics state))" "\<forall>io\<in>set (io_apics state). io_apic_ok io"
    "lapic_id_is bus reg apic 0" "ACTIVE_IO_INTERRUPT_SYSTEM k = Some Apic" "TLS k = Some tls" "info_apic (local_apic tls) = Some apic"
    "length (apic_interrupts (tls_idt tls)) = 128" "APIC_STATE k = Some state" "length (LEGACY_IRQS k) = 16"
    "interrupt_vector_map state = [g0, g1]" "g0 \<noteq> NOT 0" "irq < 16" "LEGACY_IRQS k ! unat irq = None"
    "legacy_route state irq = Some (pol, trigger, gsi)" "List.find (serves gsi) (io_apics state) = Some io"
    "slot gsi io < entries (io_base_address io)"
    and other: "gsi \<noteq> ucast irq" "List.find (serves (ucast irq)) (io_apics state) = Some io'" "slot (ucast irq) io' < entries (io_base_address io')"
      "distinct (map io_base_address (io_apics state))"
  shows "\<exists>k1 k2 tls2 state2 i e. map_legacy_irq bus irq h k = Some k1 \<and> unmap_legacy_id bus irq k1 = Some k2
    \<and> TLS k2 = Some tls2 \<and> APIC_STATE k2 = Some state2 \<and> i < 64
    \<and> \<not> in_use (interrupt_vector_map state2) i \<and> apic_interrupts (tls_idt tls2) ! i = missing HandlerFunc
    \<and> redirection reg (devices k2) (io_base_address io) (slot gsi io) = e \<and> \<not> masked e \<and> unat (interrupt_vector e) = 128 + i
    \<and> masked (redirection reg (devices k2) (io_base_address io') (slot (ucast irq) io'))"
proof (rule map_effect [OF assms(1-16), of h])
  fix d1 e
  let ?l = "leading_ones g0"
  let ?tls = "tls\<lparr>tls_idt := tls_idt tls\<lparr>apic_interrupts := (apic_interrupts (tls_idt tls))[?l := gate h 0]\<rparr>\<rparr>"
  let ?state = "state\<lparr>interrupt_vector_map := [g0 OR drop_bit ?l (push_bit 63 1), g1]\<rparr>"
  let ?k1 = "k\<lparr>devices := d1, TLS := Some ?tls, LEGACY_IRQS := (LEGACY_IRQS k)[unat irq := Some \<lparr>handler_idt_entry = ?l, entry_index = of_nat ?l\<rparr>],
      APIC_STATE := Some ?state\<rparr>"
  assume m: "map_legacy_irq bus irq h k = Some ?k1" and e: "redirection reg d1 (io_base_address io) (slot gsi io) = e"
    "unat (interrupt_vector e) = 128 + ?l" "\<not> masked e"
  note l = leading_ones_less [OF assms(11)]
  have i: "unat irq < 16" using assms(12) by (simp add: word_less_nat_alt)
  have sl: "slot gsi io < 0x3F" using assms(2,15) serves_slot(2) by (auto simp: find_Some_iff)
  have ne: "(io_base_address io, slot gsi io) \<noteq> (io_base_address io', slot (ucast irq) io')"
    by (rule slots_differ [OF other(4) assms(15) other(2,1)])
  obtain d where d: "unmap_legacy_id bus irq ?k1 = Some (?k1\<lparr>devices := d,
      TLS := Some (?tls\<lparr>tls_idt := tls_idt ?tls\<lparr>apic_interrupts := (apic_interrupts (tls_idt ?tls))[?l := missing HandlerFunc]\<rparr>\<rparr>),
      LEGACY_IRQS := (LEGACY_IRQS ?k1)[unat irq := None], APIC_STATE := Some (?state\<lparr>interrupt_vector_map := [g0, g1]\<rparr>)\<rparr>)"
    "masked (redirection reg d (io_base_address io') (slot (ucast irq) io'))"
    "\<And>c m. m < 0x3F \<Longrightarrow> (c, m) \<noteq> (io_base_address io', slot (ucast irq) io') \<Longrightarrow> redirection reg d c m = redirection reg (devices ?k1) c m"
    by (rule unmap_effect [of bus reg entries ?state ?k1 ?tls g0 g1 irq io']) (use assms other i in simp_all)
  have free: "\<not> in_use [g0, g1] ?l" using l by (simp add: in_use_pair)
  have same: "redirection reg d (io_base_address io) (slot gsi io) = e" using d(3) [OF sl ne] e(1) by simp
  show ?thesis using m d(1,2) free same e(2,3) l(1) assms(7) by simp
qed

subsection \<open>A device\<close>

text \<open>
  An I/O APIC with 24 entries at the usual address as its selection register and its other registers, and a local APIC that answers with the
  identification zero.
\<close>

definition demo_bus :: "(u32 \<times> (u32 \<Rightarrow> u32)) bus" where
  "demo_bus = \<lparr>
     mmio_read = (\<lambda>a (sel, regs). (if a = 0xFEC00010 then regs sel else 0, (sel, regs))),
     mmio_write = (\<lambda>a v (sel, regs).
       if a = 0xFEC00000 then (v AND 0xFF, regs) else if a = 0xFEC00010 then (sel, regs(sel := v AND register_mask sel)) else (sel, regs)),
     port_in = (\<lambda>p d. (0, d)), port_out = (\<lambda>p b d. d), rdmsr = (\<lambda>i d. ((0, 0), d)), wrmsr = (\<lambda>i v d. d),
     sti_hlt_cli = (\<lambda>d. None), cpuid = (\<lambda>i. \<lparr>eax = 0, ebx = 0, ecx = 0, edx = 0\<rparr>)\<rparr>"

definition demo_reg :: "u32 \<times> (u32 \<Rightarrow> u32) \<Rightarrow> usize \<Rightarrow> u32 \<Rightarrow> u32" where
  "demo_reg d b i = (if b = 0xFEC00000 then snd d i AND register_mask i else 0)"

definition demo_state :: apic_state where
  "demo_state = \<lparr>io_apics = [\<lparr>io_base_address = 0xFEC00000, io_id = 1, global_system_interrupt_base = 0, num_redirection_entries = 24\<rparr>],
     interrupt_source_overrides = [\<lparr>override_bus_source = 0, override_irq_source = 0, override_gsi = 2, override_flags = 0\<rparr>],
     interrupt_vector_map = [push_bit 63 1, 0]\<rparr>"

definition demo_kernel :: "interrupt_descriptor_table \<Rightarrow> (u32 \<times> (u32 \<Rightarrow> u32)) kernel" where
  "demo_kernel t = \<lparr>kmachine = \<lparr>PAGE_ALLOCATOR = None, mem = (\<lambda>a i. 0)\<rparr>, devices = (0, \<lambda>i. 0),
     TLS = Some \<lparr>self_pointer = 0xFFFFFFFF20000000, local_apic = local_apic_info_default\<lparr>info_apic := Some 0xFFFFFFFF10002000\<rparr>,
                 tls_idt = t, tls_yield_info = yield_info_default\<rparr>,
     ACTIVE_IO_INTERRUPT_SYSTEM = Some Apic, LEGACY_IRQS = replicate 16 None, APIC_STATE = Some demo_state\<rparr>"

lemma selector_byte: "unat i < 64 \<Longrightarrow> i AND 0xFF = (i :: u32)"
proof -
  assume "unat i < 64"
  moreover have "i AND 0xFF = take_bit 8 i" by (simp add: take_bit_eq_mask mask_eq_exp_minus_1)
  ultimately show ?thesis by (simp add: word_unat_eq_iff unsigned_take_bit_eq take_bit_nat_eq_self)
qed

lemma demo_bus_behaves: "io_apics_behave demo_bus demo_reg (\<lambda>_. 24) {0xFEC00000}" "lapic_id_is demo_bus demo_reg 0xFFFFFFFF10002000 0"
proof -
  have "demo_reg (mmio_write demo_bus 0xFEC00010 v (mmio_write demo_bus 0xFEC00000 i d))
      = (demo_reg d)(0xFEC00000 := (demo_reg d 0xFEC00000)(i := v AND register_mask i))" if "i AND 0xFF = i" for v i d
    by (rule ext)+ (simp add: demo_bus_def demo_reg_def case_prod_beta and.assoc that)
  then show "io_apics_behave demo_bus demo_reg (\<lambda>_. 24) {0xFEC00000}"
    by (simp add: io_apics_behave_def selector_byte) (simp add: demo_bus_def demo_reg_def case_prod_beta fun_eq_iff selector_byte)
  show "lapic_id_is demo_bus demo_reg 0xFFFFFFFF10002000 0"
    by (simp add: lapic_id_is_def demo_bus_def demo_reg_def case_prod_beta fun_eq_iff)
qed

lemma idt_new_apic_interrupts:
  assumes "idt_new h = Some t"
  shows "apic_interrupts t = replicate 128 (missing HandlerFunc)"
  using assms unfolding idt_new_def Let_def with_handler_gate(2) by (auto simp: with_handler_gate(1))

lemma demo_kernel_facts:
  assumes "idt_new demo_handlers = Some t"
  obtains tls where "TLS (demo_kernel t) = Some tls" "info_apic (local_apic tls) = Some 0xFFFFFFFF10002000"
    "length (apic_interrupts (tls_idt tls)) = 128" "length (LEGACY_IRQS (demo_kernel t)) = 16"
    "ACTIVE_IO_INTERRUPT_SYSTEM (demo_kernel t) = Some Apic" "APIC_STATE (demo_kernel t) = Some demo_state"
  using that idt_new_apic_interrupts [OF assms] by (simp add: demo_kernel_def)

lemma demo_state_facts:
  "io_apics_behave demo_bus demo_reg (\<lambda>_. 24) (io_base_address ` set (io_apics demo_state))" "\<forall>io\<in>set (io_apics demo_state). io_apic_ok io"
  "interrupt_vector_map demo_state = [push_bit 63 1, 0]" "(push_bit 63 1 :: u64) \<noteq> NOT 0"
  "legacy_route demo_state 8 = Some (High, EdgeSensitive, ucast (8 :: u8))" "legacy_route demo_state 0 = Some (High, EdgeSensitive, 2)"
  "distinct (map io_base_address (io_apics demo_state))"
  "List.find (serves 2) (io_apics demo_state) = Some (hd (io_apics demo_state))"
  "List.find (serves (ucast (8 :: u8))) (io_apics demo_state) = Some (hd (io_apics demo_state))"
  "List.find (serves (ucast (0 :: u8))) (io_apics demo_state) = Some (hd (io_apics demo_state))"
  using demo_bus_behaves(1) by (simp_all add: demo_state_def io_apic_ok_def serves_def legacy_route_def)

definition demo_handler :: handler where
  "demo_handler = \<lparr>handler_type = HandlerFunc, handler_address = 0xFFFFFFFF80001000\<rparr>"

lemma demo_io: "io_base_address (hd (io_apics demo_state)) = 0xFEC00000" "slot 2 (hd (io_apics demo_state)) = 2"
  "slot (ucast (8 :: u8)) (hd (io_apics demo_state)) = 8" "slot (ucast (0 :: u8)) (hd (io_apics demo_state)) = 0"
  by (simp_all add: demo_state_def slot_def)

lemma demo_held: "slot 2 (hd (io_apics demo_state)) < 24" "slot (ucast (8 :: u8)) (hd (io_apics demo_state)) < 24"
  "slot (ucast (0 :: u8)) (hd (io_apics demo_state)) < 24"
  unfolding demo_io by simp_all

lemma demo_lines: "LEGACY_IRQS (demo_kernel t) ! unat (0 :: u8) = None" "LEGACY_IRQS (demo_kernel t) ! unat (8 :: u8) = None"
  by (simp_all add: demo_kernel_def)

theorem map_legacy_irq_correct_witness:
  "\<exists>t k e. idt_new demo_handlers = Some t \<and> map_legacy_irq demo_bus 0 demo_handler (demo_kernel t) = Some k
     \<and> redirection demo_reg (devices k) 0xFEC00000 2 = e \<and> \<not> masked e \<and> unat (interrupt_vector e) = 129"
proof -
  obtain t where t: "idt_new demo_handlers = Some t" using idt_new_entries [of demo_handlers] by blast
  obtain tls where k: "TLS (demo_kernel t) = Some tls" "info_apic (local_apic tls) = Some 0xFFFFFFFF10002000"
    "length (apic_interrupts (tls_idt tls)) = 128" "length (LEGACY_IRQS (demo_kernel t)) = 16"
    "ACTIVE_IO_INTERRUPT_SYSTEM (demo_kernel t) = Some Apic" "APIC_STATE (demo_kernel t) = Some demo_state"
    by (rule demo_kernel_facts [OF t])
  have less: "(0 :: u8) < 16" by simp
  have "in_use [push_bit 63 1, 0] 0" "\<not> in_use [push_bit 63 1, 0] 1" by (simp_all add: in_use_def)
  then have first: "i = 1" if "\<not> in_use [push_bit 63 1, 0] i" "\<forall>j<i. in_use [push_bit 63 1, 0] j" for i
    using that by (metis less_one nat_neq_iff)
  from map_legacy_irq_correct [OF demo_state_facts(1,2) demo_bus_behaves(2) k(5,1,2,3,6,4) demo_state_facts(3,4) less demo_lines(1)
      demo_state_facts(6,8) demo_held(1), of demo_handler] first t
  show ?thesis unfolding demo_io by fastforce
qed

theorem map_unmap_legacy_irq_round_trip_witness:
  "\<exists>t k1 k2. idt_new demo_handlers = Some t \<and> map_legacy_irq demo_bus 8 demo_handler (demo_kernel t) = Some k1
     \<and> unmap_legacy_id demo_bus 8 k1 = Some k2 \<and> APIC_STATE k2 = Some demo_state \<and> masked (redirection demo_reg (devices k2) 0xFEC00000 8)"
proof -
  obtain t where t: "idt_new demo_handlers = Some t" using idt_new_entries [of demo_handlers] by blast
  obtain tls where k: "TLS (demo_kernel t) = Some tls" "info_apic (local_apic tls) = Some 0xFFFFFFFF10002000"
    "length (apic_interrupts (tls_idt tls)) = 128" "length (LEGACY_IRQS (demo_kernel t)) = 16"
    "ACTIVE_IO_INTERRUPT_SYSTEM (demo_kernel t) = Some Apic" "APIC_STATE (demo_kernel t) = Some demo_state"
    by (rule demo_kernel_facts [OF t])
  have less: "(8 :: u8) < 16" by simp
  from map_unmap_legacy_irq_round_trip [OF demo_state_facts(1,2) demo_bus_behaves(2) k(5,1,2,3,6,4) demo_state_facts(3,4) less demo_lines(2)
      demo_state_facts(5,9) demo_held(2), of demo_handler] t k(6)
  show ?thesis unfolding demo_io by fastforce
qed

theorem unmap_legacy_irq_misses_override_witness:
  "\<exists>t k1 k2. idt_new demo_handlers = Some t \<and> map_legacy_irq demo_bus 0 demo_handler (demo_kernel t) = Some k1
     \<and> unmap_legacy_id demo_bus 0 k1 = Some k2
     \<and> \<not> masked (redirection demo_reg (devices k2) 0xFEC00000 2) \<and> masked (redirection demo_reg (devices k2) 0xFEC00000 0)"
proof -
  obtain t where t: "idt_new demo_handlers = Some t" using idt_new_entries [of demo_handlers] by blast
  obtain tls where k: "TLS (demo_kernel t) = Some tls" "info_apic (local_apic tls) = Some 0xFFFFFFFF10002000"
    "length (apic_interrupts (tls_idt tls)) = 128" "length (LEGACY_IRQS (demo_kernel t)) = 16"
    "ACTIVE_IO_INTERRUPT_SYSTEM (demo_kernel t) = Some Apic" "APIC_STATE (demo_kernel t) = Some demo_state"
    by (rule demo_kernel_facts [OF t])
  have less: "(0 :: u8) < 16" and ne: "(2 :: u32) \<noteq> ucast (0 :: u8)" by simp_all
  from unmap_legacy_irq_misses_override [OF demo_state_facts(1,2) demo_bus_behaves(2) k(5,1,2,3,6,4) demo_state_facts(3,4) less demo_lines(1)
      demo_state_facts(6,8) demo_held(1) ne demo_state_facts(10) demo_held(3) demo_state_facts(7), of demo_handler] t
  show ?thesis unfolding demo_io by blast
qed

text \<open>A map whose first group is full.\<close>

theorem try_find_and_reserve_entry_correct_witness:
  "\<exists>i vectors. try_find_and_reserve_entry (demo_state\<lparr>interrupt_vector_map := [NOT 0, 0]\<rparr>)
       = Some (Some i, demo_state\<lparr>interrupt_vector_map := vectors\<rparr>) \<and> in_use [NOT 0, 0] (unat i)"
proof -
  have "\<not> in_use [NOT 0, 0] 64" by (simp add: in_use_def)
  moreover have "(64 :: nat) < 128" by simp
  ultimately have n: "\<not> (\<forall>j<128. in_use [NOT 0, 0] j)" by blast
  from try_find_and_reserve_entry_correct [of "demo_state\<lparr>interrupt_vector_map := [NOT 0, 0]\<rparr>" "NOT 0" 0] n
  show ?thesis by (auto split: option.splits)
qed

end
