(* ===== verification/Clock_Calibration.thy ===== *)
theory Clock_Calibration
  imports Clock Io_Routing
begin

text \<open>
  What the clocks do: the calibration of the timer of the local APIC against the periodic interrupt of the real-time clock, which uses
  the interrupt routing, and the conversion between milliseconds and ticks.
\<close>

subsection \<open>The devices\<close>

text \<open>
  What can be observed of the devices that the calibration uses: the redirection registers of the I/O APICs; status registers A and B of
  the real-time clock and its periodic interrupt flag (bit 6 of status register C); whether an interrupt of that clock is held until
  interrupts are enabled, and whether one is in service; the time, in cycles of the 32768 Hz oscillator of the clock; and the
  timer of the local APIC, as the divider, the initial count and the time at which that was written.
\<close>

record clock_view =
  cv_reg :: "usize \<Rightarrow> u32 \<Rightarrow> u32"
  cv_a :: u8
  cv_b :: u8
  cv_flag :: bool
  cv_held :: bool
  cv_in_service :: bool
  cv_now :: nat
  cv_divide :: u32
  cv_initial :: u32
  cv_started :: nat

text \<open>The redirection entry of the line of the clock.\<close>

definition view_entry :: "usize \<Rightarrow> nat \<Rightarrow> clock_view \<Rightarrow> u64" where
  "view_entry base n w = redirection cv_reg w base n"

text \<open>
  The real-time clock. Writing a number to port \<open>0x70\<close> selects a register, whose top bit is not part of the number, and port \<open>0x71\<close> reads or
  writes it. The top bit of status register A is not writable. Enabling the periodic interrupt, bit 6 of status register B, while the flag is
  already set raises the interrupt at once; reading status register C clears the flag. These accesses take no time: they are
  short against a cycle of the oscillator.
\<close>

definition set_status_b :: "usize \<Rightarrow> nat \<Rightarrow> u8 \<Rightarrow> clock_view \<Rightarrow> clock_view" where
  "set_status_b base n v w =
     w\<lparr>cv_b := v, cv_held := cv_held w \<or> bit v 6 \<and> \<not> bit (cv_b w) 6 \<and> cv_flag w \<and> \<not> masked (view_entry base n w)\<rparr>"

definition rtc_behaves :: "'d bus \<Rightarrow> ('d \<Rightarrow> clock_view) \<Rightarrow> usize \<Rightarrow> nat \<Rightarrow> bool" where
  "rtc_behaves bus view base n \<longleftrightarrow>
     (\<forall>r d. r AND 0x7F = 0xA \<longrightarrow>
        fst (port_in bus 0x71 (port_out bus 0x70 r d)) AND 0x7F = cv_a (view d)
      \<and> view (snd (port_in bus 0x71 (port_out bus 0x70 r d))) = view d
      \<and> (\<forall>v. view (port_out bus 0x71 v (port_out bus 0x70 r d)) = (view d)\<lparr>cv_a := v AND 0x7F\<rparr>))
   \<and> (\<forall>r d. r AND 0x7F = 0xB \<longrightarrow>
        fst (port_in bus 0x71 (port_out bus 0x70 r d)) = cv_b (view d)
      \<and> view (snd (port_in bus 0x71 (port_out bus 0x70 r d))) = view d
      \<and> (\<forall>v. view (port_out bus 0x71 v (port_out bus 0x70 r d)) = set_status_b base n v (view d)))
   \<and> (\<forall>r d. r AND 0x7F = 0xC \<longrightarrow> view (snd (port_in bus 0x71 (port_out bus 0x70 r d))) = (view d)\<lparr>cv_flag := False\<rparr>)"

text \<open>
  While the periodic interrupt is enabled, its redirection entry is not masked and no interrupt is in service, waiting ends with the
  vector of that entry: at once when an interrupt is held, and otherwise, if the flag is clear, at the next edge of the divider chain of
  the clock. With the usual time base the edges of rate \<open>r\<close> come every \<open>2 ^ (r - 1)\<close> cycles. The edge sets the flag; while the flag is set no
  further interrupt is raised. No other device interrupts the calibration.
\<close>

definition period :: "u8 \<Rightarrow> nat" where
  "period a = 2 ^ (unat (a AND 0xF) - 1)"

definition rtc_ticks :: "'d bus \<Rightarrow> ('d \<Rightarrow> clock_view) \<Rightarrow> usize \<Rightarrow> nat \<Rightarrow> bool" where
  "rtc_ticks bus view base n \<longleftrightarrow>
     (\<forall>d. let w = view d; e = view_entry base n w in
        bit (cv_b w) 6 \<and> \<not> masked e \<and> \<not> cv_in_service w \<longrightarrow>
          (cv_held w \<longrightarrow> (\<exists>d'. sti_hlt_cli bus d = Some ([interrupt_vector e], d') \<and> view d' = w\<lparr>cv_held := False, cv_in_service := True\<rparr>))
        \<and> (\<not> cv_held w \<and> \<not> cv_flag w \<and> cv_a w AND 0x70 = 0x20 \<and> 3 \<le> unat (cv_a w AND 0xF) \<longrightarrow>
             (\<exists>d'. sti_hlt_cli bus d = Some ([interrupt_vector e], d')
                \<and> view d' = w\<lparr>cv_now := (cv_now w div period (cv_a w) + 1) * period (cv_a w), cv_flag := True, cv_in_service := True\<rparr>)))"

text \<open>
  The local APIC: the end-of-interrupt register takes the interrupt out of service, and the timer counts down from the initial count,
  with a divider of 16 by \<open>speed\<close> ticks per cycle of the oscillator.
\<close>

definition lapic_behaves :: "'d bus \<Rightarrow> ('d \<Rightarrow> clock_view) \<Rightarrow> nat \<Rightarrow> usize \<Rightarrow> bool" where
  "lapic_behaves bus view speed apic \<longleftrightarrow> unat apic + 0x1000 \<le> 2 ^ 64
     \<and> (\<forall>v d. view (mmio_write bus (apic + 0xB0) v d) = (view d)\<lparr>cv_in_service := False\<rparr>
          \<and> view (mmio_write bus (apic + 0x380) v d) = (view d)\<lparr>cv_initial := v, cv_started := cv_now (view d)\<rparr>
          \<and> view (mmio_write bus (apic + 0x3E0) v d) = (view d)\<lparr>cv_divide := v\<rparr>)
     \<and> (\<forall>d. view (snd (mmio_read bus (apic + 0x20) d)) = view d \<and> view (snd (mmio_read bus (apic + 0x390) d)) = view d)
     \<and> (\<forall>d. let w = view d; ticks = speed * (cv_now w - cv_started w) in
          cv_divide w = 3 \<and> ticks \<le> unat (cv_initial w) \<longrightarrow> fst (mmio_read bus (apic + 0x390) d) = cv_initial w - of_nat ticks)"

text \<open>Accesses to an I/O APIC concern its registers alone.\<close>

definition io_apics_apart :: "'d bus \<Rightarrow> ('d \<Rightarrow> clock_view) \<Rightarrow> usize set \<Rightarrow> bool" where
  "io_apics_apart bus view bases \<longleftrightarrow>
     (\<forall>b\<in>bases. \<forall>a\<in>{b, b + 0x10}. \<forall>v d. \<exists>r r'. view (mmio_write bus a v d) = (view d)\<lparr>cv_reg := r\<rparr>
        \<and> view (snd (mmio_read bus a d)) = (view d)\<lparr>cv_reg := r'\<rparr>)"

subsection \<open>Registers of the local APIC\<close>

lemma apic_write_at:
  assumes "unat apic + 0x1000 \<le> 2 ^ 64" "get_local_apic k = Some apic" "fst (local_get_properties r) < 0x1000" "snd (snd (local_get_properties r))"
  shows "apic_write bus r v k = Some (k\<lparr>devices := mmio_write bus (apic + fst (local_get_properties r)) v (devices k)\<rparr>)"
proof -
  obtain off a b where p: "local_get_properties r = (off, a, b)" by (cases "local_get_properties r") auto
  then have "checked_add apic off = Some (apic + off)"
    using assms(1,3) by (simp add: checked_add_Some unat_add_small word_less_nat_alt)
  then show ?thesis using assms(2,4) p by (simp add: apic_write_def local_write_register_def)
qed

lemma apic_read_at:
  assumes "unat apic + 0x1000 \<le> 2 ^ 64" "get_local_apic k = Some apic" "fst (local_get_properties r) < 0x1000" "fst (snd (local_get_properties r))"
  shows "apic_read bus r k = (let (v, d) = mmio_read bus (apic + fst (local_get_properties r)) (devices k) in Some (v, k\<lparr>devices := d\<rparr>))"
proof -
  obtain off a b where p: "local_get_properties r = (off, a, b)" by (cases "local_get_properties r") auto
  then have "checked_add apic off = Some (apic + off)"
    using assms(1,3) by (simp add: checked_add_Some unat_add_small word_less_nat_alt)
  then show ?thesis using assms(2,4) p by (simp add: apic_read_def local_read_register_def case_prod_beta)
qed

text \<open>Routing a line accesses the I/O APICs, and the identification register of the local APIC.\<close>

definition kept_by_io_apics :: "'d bus \<Rightarrow> ('d \<Rightarrow> 'a) \<Rightarrow> usize set \<Rightarrow> bool" where
  "kept_by_io_apics bus f bases \<longleftrightarrow>
     (\<forall>b\<in>bases. \<forall>a\<in>{b, b + 0x10}. \<forall>v d. f (mmio_write bus a v d) = f d \<and> f (snd (mmio_read bus a d)) = f d)"

lemma select_keeps:
  assumes "kept_by_io_apics bus f bases" "io_base_address io \<in> bases"
  shows "select_read bus io i d = Some r \<Longrightarrow> f (snd r) = f d" "select_write bus io i v d = Some d' \<Longrightarrow> f d' = f d"
  using assms by (auto simp: kept_by_io_apics_def select_read_def select_write_def checked_add_def Let_def bind_eq_Some_conv split: if_splits)

lemma redirect_keeps:
  assumes "kept_by_io_apics bus f bases" "io_base_address ` set ios \<subseteq> bases"
  shows "redirect bus update irq ios d = Some d' \<Longrightarrow> f d' = f d"
  using assms(2)
proof (induction ios)
  case (Cons io ios)
  have "io_base_address io \<in> bases" using Cons.prems(2) by simp
  note k = select_keeps [OF assms(1) this]
  have r: "read_redirection_entry bus io i d = Some (e, d1) \<Longrightarrow> f d1 = f d" for i e d1
    using k(1) by (fastforce simp: read_redirection_entry_def bind_eq_Some_conv)
  have w: "write_redirection_entry bus io i e d1 = Some d2 \<Longrightarrow> f d2 = f d1" for i e d1 d2
    using k(2) by (fastforce simp: write_redirection_entry_def bind_eq_Some_conv)
  from Cons.prems show ?case using r w Cons.IH by (fastforce simp: Let_def bind_eq_Some_conv split: if_splits)
qed simp

lemma apic_read_id_keeps:
  assumes "\<And>d. f (snd (mmio_read bus (apic + 0x20) d)) = f d" "get_local_apic k = Some apic" "apic_read bus LapicId k = Some (v, k')"
  shows "f (devices k') = f (devices k)"
  using assms by (auto simp: apic_read_def local_read_register_def checked_add_def bind_eq_Some_conv case_prod_beta split: if_splits)

lemma register_keeps:
  assumes io: "kept_by_io_apics bus f (io_base_address ` set (io_apics state))" and k: "APIC_STATE k = Some state"
  shows "(\<And>d. f (snd (mmio_read bus (apic + 0x20) d)) = f d) \<Longrightarrow> get_local_apic k = Some apic \<Longrightarrow>
      register_legacy_irq bus irq vector k = Some k' \<Longrightarrow> f (devices k') = f (devices k)"
    "unregister_legacy_irq bus irq k = Some k' \<Longrightarrow> f (devices k') = f (devices k)"
proof -
  note kept = redirect_keeps [OF io subset_refl]
  show "f (devices k') = f (devices k)" if "\<And>d. f (snd (mmio_read bus (apic + 0x20) d)) = f d" "get_local_apic k = Some apic"
    "register_legacy_irq bus irq vector k = Some k'"
    using that(3) apic_read_id_keeps [of f, OF that(1,2)] k by (auto simp: register_legacy_irq_def bind_eq_Some_conv dest!: kept)
  show "unregister_legacy_irq bus irq k = Some k' \<Longrightarrow> f (devices k') = f (devices k)"
    using k by (auto simp: unregister_legacy_irq_def bind_eq_Some_conv Let_def dest!: kept)
qed

lemma vector_keeps:
  assumes "APIC_STATE k = Some state"
  shows "reserve_vector k = Some (r, k') \<Longrightarrow>
      devices k' = devices k \<and> get_local_apic k' = get_local_apic k \<and> (\<exists>state'. APIC_STATE k' = Some state' \<and> io_apics state' = io_apics state)"
    "set_apic_interrupt j e k = Some k' \<Longrightarrow>
      devices k' = devices k \<and> get_local_apic k' = get_local_apic k \<and> APIC_STATE k' = APIC_STATE k"
    "free_entry_vector i k = Some k' \<Longrightarrow> devices k' = devices k"
  using assms
  by (auto simp: reserve_vector_def free_entry_vector_def set_apic_interrupt_def get_local_apic_def try_find_and_reserve_entry_def
      Let_def bind_eq_Some_conv split: if_splits list.splits)

lemma map_keeps:
  assumes io: "kept_by_io_apics bus f (io_base_address ` set (io_apics state))" and k: "APIC_STATE k = Some state"
  shows "(\<And>d. f (snd (mmio_read bus (apic + 0x20) d)) = f d) \<Longrightarrow> get_local_apic k = Some apic \<Longrightarrow>
      map_legacy_irq bus irq h k = Some k' \<Longrightarrow> f (devices k') = f (devices k)"
    "unmap_legacy_id bus irq k = Some k' \<Longrightarrow> f (devices k') = f (devices k)"
proof -
  assume id: "\<And>d. f (snd (mmio_read bus (apic + 0x20) d)) = f d" and a: "get_local_apic k = Some apic"
    and "map_legacy_irq bus irq h k = Some k'"
  then obtain r k1 i entry k2 vector k3 where run: "reserve_vector k = Some (r, k1)" "set_apic_interrupt i entry k1 = Some k2"
    "register_legacy_irq bus irq vector k2 = Some k3" "devices k' = devices k3"
    by (auto simp: map_legacy_irq_def bind_eq_Some_conv split: option.splits controller.splits)
  obtain state1 where k1: "devices k1 = devices k" "get_local_apic k1 = Some apic" "APIC_STATE k1 = Some state1" "io_apics state1 = io_apics state"
    using vector_keeps(1) [OF k run(1)] a by auto
  have k2: "devices k2 = devices k1" "get_local_apic k2 = Some apic" "APIC_STATE k2 = Some state1"
    using vector_keeps(2) [OF k1(3) run(2)] k1(2,3) by simp_all
  have "f (devices k3) = f (devices k2)"
    by (rule register_keeps(1) [of bus f state1, OF _ k2(3) id k2(2) run(3)]) (use io k1(4) in simp)
  then show "f (devices k') = f (devices k)" using run(4) k1(1) k2(1) by simp
next
  assume "unmap_legacy_id bus irq k = Some k'"
  then obtain irqs k1 i k2 j where run: "unregister_legacy_irq bus irq (k\<lparr>LEGACY_IRQS := irqs\<rparr>) = Some k1" "free_entry_vector i k1 = Some k2"
    "set_apic_interrupt j (missing HandlerFunc) k2 = Some k'"
    by (auto simp: unmap_legacy_id_def bind_eq_Some_conv Let_def split: option.splits controller.splits)
  have "APIC_STATE (k\<lparr>LEGACY_IRQS := irqs\<rparr>) = Some state" using k by simp
  from register_keeps(2) [OF io this run(1)] have "f (devices k1) = f (devices k)" by simp
  then show "f (devices k') = f (devices k)"
    using run(2,3) by (auto simp: free_entry_vector_def set_apic_interrupt_def bind_eq_Some_conv)
qed

subsection \<open>The real-time clock\<close>

lemma cmos_registers:
  "(STATUS_A OR push_bit 7 (of_bool b)) AND 0x7F = 0xA" "(STATUS_B OR push_bit 7 (of_bool b)) AND 0x7F = 0xB"
  "(STATUS_C OR push_bit 7 (of_bool b)) AND 0x7F = 0xC"
  by (simp_all add: STATUS_A_def STATUS_B_def STATUS_C_def)

lemmas cmos_access = cmos_read_byte_def cmos_write_byte_def Let_def port_write_byte_def port_read_byte_def CMOS_NMI_AND_REGISTER_def
  CMOS_DATA_def case_prod_beta

lemma cmos_behaves:
  assumes "rtc_behaves bus view base n"
  shows "\<exists>v d. cmos_read_byte bus b STATUS_A k = (v, k\<lparr>devices := d\<rparr>) \<and> v AND 0x7F = cv_a (view (devices k)) \<and> view d = view (devices k)"
    "\<exists>d. cmos_read_byte bus b STATUS_B k = (cv_b (view (devices k)), k\<lparr>devices := d\<rparr>) \<and> view d = view (devices k)"
    "\<exists>v d. cmos_read_byte bus b STATUS_C k = (v, k\<lparr>devices := d\<rparr>) \<and> view d = (view (devices k))\<lparr>cv_flag := False\<rparr>"
    "\<exists>d. cmos_write_byte bus b STATUS_A v k = k\<lparr>devices := d\<rparr> \<and> view d = (view (devices k))\<lparr>cv_a := v AND 0x7F\<rparr>"
    "\<exists>d. cmos_write_byte bus b STATUS_B v k = k\<lparr>devices := d\<rparr> \<and> view d = set_status_b base n v (view (devices k))"
proof -
  let ?p = "\<lambda>r. port_in bus 0x71 (port_out bus 0x70 (r OR push_bit 7 (of_bool b)) (devices k))"
  let ?w = "\<lambda>r. port_out bus 0x71 v (port_out bus 0x70 (r OR push_bit 7 (of_bool b)) (devices k))"
  have rd: "cmos_read_byte bus b r k = (fst (?p r), k\<lparr>devices := snd (?p r)\<rparr>)" for r by (simp add: cmos_access)
  have wr: "cmos_write_byte bus b r v k = k\<lparr>devices := ?w r\<rparr>" for r by (simp add: cmos_access)
  note law = assms [unfolded rtc_behaves_def]
  have a: "fst (?p STATUS_A) AND 0x7F = cv_a (view (devices k))" "view (snd (?p STATUS_A)) = view (devices k)"
    "view (?w STATUS_A) = (view (devices k))\<lparr>cv_a := v AND 0x7F\<rparr>" using law cmos_registers(1) [of b] by blast+
  have b: "fst (?p STATUS_B) = cv_b (view (devices k))" "view (snd (?p STATUS_B)) = view (devices k)"
    "view (?w STATUS_B) = set_status_b base n v (view (devices k))" using law cmos_registers(2) [of b] by blast+
  have c: "view (snd (?p STATUS_C)) = (view (devices k))\<lparr>cv_flag := False\<rparr>" using law cmos_registers(3) [of b] by blast
  show "\<exists>v d. cmos_read_byte bus b STATUS_A k = (v, k\<lparr>devices := d\<rparr>) \<and> v AND 0x7F = cv_a (view (devices k)) \<and> view d = view (devices k)"
    unfolding rd using a(1,2) by blast
  show "\<exists>d. cmos_read_byte bus b STATUS_B k = (cv_b (view (devices k)), k\<lparr>devices := d\<rparr>) \<and> view d = view (devices k)"
    unfolding rd using b(1,2) by auto
  show "\<exists>v d. cmos_read_byte bus b STATUS_C k = (v, k\<lparr>devices := d\<rparr>) \<and> view d = (view (devices k))\<lparr>cv_flag := False\<rparr>"
    unfolding rd using c by blast
  show "\<exists>d. cmos_write_byte bus b STATUS_A v k = k\<lparr>devices := d\<rparr> \<and> view d = (view (devices k))\<lparr>cv_a := v AND 0x7F\<rparr>"
    unfolding wr using a(3) by blast
  show "\<exists>d. cmos_write_byte bus b STATUS_B v k = k\<lparr>devices := d\<rparr> \<and> view d = set_status_b base n v (view (devices k))"
    unfolding wr using b(3) by blast
qed

lemma gate_fields: "entry_target (gate f 0) = handler_address f" "option_present (entry_options (gate f 0))"
  using gate_gate_ok [of 0 undefined f] by (simp_all add: gate_ok_def)

text \<open>One tick: the wait ends after one interrupt, whose handler has taken it out of service.\<close>

lemma wait_tick:
  assumes dev: "lapic_behaves bus view speed apic"
    and tls: "TLS k = Some tls" "info_apic (local_apic tls) = Some apic" "length (apic_interrupts (tls_idt tls)) = 128"
    "apic_interrupts (tls_idt tls) ! i = gate \<lparr>handler_type = HandlerFunc, handler_address = at_rtc_sleep_handler handlers\<rparr> 0" "i < 128"
    and hlt: "sti_hlt_cli bus (devices k) = Some ([vector], d1)" "unat vector = 128 + i" "\<not> INTERRUPT_RECEIVED k"
  obtains d where "wait_for bus handlers INTERRUPT_RECEIVED k = Some (k\<lparr>INTERRUPT_RECEIVED := True, devices := d\<rparr>)"
    "view d = (view d1)\<lparr>cv_in_service := False\<rparr>"
proof -
  let ?k = "k\<lparr>devices := d1, INTERRUPT_RECEIVED := True\<rparr>" and ?d2 = "mmio_write bus (apic + 0xB0) 0 d1"
  have bound: "unat apic + 0x1000 \<le> 2 ^ 64" using dev by (simp add: lapic_behaves_def)
  have a: "get_local_apic ?k = Some apic" using tls by (simp add: get_local_apic_def)
  have eoi: "apic_signal_eoi bus ?k = Some (?k\<lparr>devices := ?d2\<rparr>)"
    using apic_write_at [OF bound a, of Eoi bus 0] by (simp add: apic_signal_eoi_def apic_write_def local_signal_eoi_def)
  have "checked_sub vector 128 = Some (of_nat i)" "unat (of_nat i :: u8) = i"
    using hlt(2) tls(5) by (simp_all add: checked_sub_Some unat_of_nat_small)
  then have "deliver bus handlers vector (k\<lparr>devices := d1\<rparr>) = Some (?k\<lparr>devices := ?d2\<rparr>)"
    using tls eoi by (simp add: deliver_def slice_get_def gate_fields rtc_sleep_handler_def)
  then have "wait_for bus handlers INTERRUPT_RECEIVED k = wait_for bus handlers INTERRUPT_RECEIVED (?k\<lparr>devices := ?d2\<rparr>)"
    using hlt(1,3) by (subst wait_for.simps) simp
  also have "\<dots> = Some (?k\<lparr>devices := ?d2\<rparr>)" by (subst wait_for.simps) simp
  finally show thesis using that [of ?d2] dev by (simp add: lapic_behaves_def)
qed

text \<open>The part of the calibration between mapping and unmapping the line, on a state in which the line is mapped.\<close>

definition rtc_measure ::
  "'d bus \<Rightarrow> clock_handlers \<Rightarrow> (('d, 'm) clocks_scheme \<Rightarrow> ('d, 'm) clocks_scheme option) \<Rightarrow> ('d, 'm) clocks_scheme \<Rightarrow> ('d, 'm) clocks_scheme option" where
  "rtc_measure bus handlers start_timer k =
     do { let (previous_a, k) = cmos_read_byte bus True STATUS_A k;
          let (previous_b, k) = cmos_read_byte bus True STATUS_B k;
          let k = k\<lparr>INTERRUPT_RECEIVED := False\<rparr>;
          let k = cmos_write_byte bus True STATUS_A ((previous_a AND 0xF0) OR RATE) k;
          let k = cmos_write_byte bus True STATUS_B (previous_b OR 0x40) k;
          let (_, k) = cmos_read_byte bus True STATUS_C k;
          k \<leftarrow> wait_for bus handlers INTERRUPT_RECEIVED k;
          k \<leftarrow> start_timer k;
          let (_, k) = cmos_read_byte bus True STATUS_C k;
          let k = k\<lparr>INTERRUPT_RECEIVED := False\<rparr>;
          k \<leftarrow> wait_for bus handlers INTERRUPT_RECEIVED k;
          let k = cmos_write_byte bus True STATUS_B (previous_b AND 0xBF) k;
          let (_, k) = cmos_read_byte bus False STATUS_C k;
          Some (k\<lparr>INTERRUPT_RECEIVED := False\<rparr>) }"

lemma rtc_calibration_sleep_measure:
  "rtc_calibration_sleep bus handlers start_timer k =
     do { (mapping, k) \<leftarrow> scoped_map_legacy_irq bus 8 \<lparr>handler_type = HandlerFunc, handler_address = at_rtc_sleep_handler handlers\<rparr> k;
          k \<leftarrow> rtc_measure bus handlers start_timer k;
          k \<leftarrow> drop_scoped_mapping bus mapping k;
          Some (62500, k) }"
proof -
  have "1000000 div FREQUENCY = 62500" by (simp add: FREQUENCY_def RATE_def)
  then show ?thesis
    unfolding rtc_calibration_sleep_def rtc_measure_def Let_def case_prod_beta bind_assoc bind.bind_lunit by simp
qed

lemma received_devices: "k\<lparr>devices := d, INTERRUPT_RECEIVED := b\<rparr> = k\<lparr>INTERRUPT_RECEIVED := b, devices := d\<rparr>"
  by simp

text \<open>
  The cycles between the two interrupts that the calibration waits for: a whole period, unless the flag of the clock was set before.
  Then the first interrupt is raised when the interrupt is enabled, at any time in a period, and the second one ends that period.
\<close>

definition cycles_slept :: "clock_view \<Rightarrow> nat" where
  "cycles_slept w = (if cv_flag w then 2048 - cv_now w mod 2048 else 2048)"

lemma view_entry_cong: "cv_reg w = cv_reg w' \<Longrightarrow> view_entry base n w = view_entry base n w'"
  by (simp add: view_entry_def redirection_def)

lemma rate_bits:
  fixes a :: u8
  defines "a' \<equiv> ((a AND 0xF0) OR RATE) AND 0x7F"
  assumes "(a AND 0x7F) AND 0x70 = 0x20"
  shows "a' AND 0x70 = 0x20" "unat (a' AND 0xF) = 12" "period a' = 2048"
proof -
  show "a' AND 0x70 = 0x20" using assms by (simp add: RATE_def and.assoc bit.conj_disj_distrib2)
  show "unat (a' AND 0xF) = 12" by (simp add: a'_def RATE_def and.assoc bit.conj_disj_distrib2)
  then show "period a' = 2048" by (simp add: period_def)
qed

lemma next_multiple: "(x div 2048 + 1) * 2048 = x + (2048 - x mod 2048)" for x :: nat
proof -
  have "(q + 1) * 2048 = (2048 * q + r) + (2048 - r)" if "r < 2048" for q r :: nat using that by simp
  from this [of "x mod 2048" "x div 2048"] show ?thesis by simp
qed

text \<open>Both waits.\<close>

lemma wait_for_interrupt:
  assumes dev: "rtc_ticks bus view base n" "lapic_behaves bus view speed apic"
    and tls: "TLS k = Some tls" "info_apic (local_apic tls) = Some apic" "length (apic_interrupts (tls_idt tls)) = 128"
    "apic_interrupts (tls_idt tls) ! i = gate \<lparr>handler_type = HandlerFunc, handler_address = at_rtc_sleep_handler handlers\<rparr> 0" "i < 128"
    and w: "w = view (devices k)" "bit (cv_b w) 6" "\<not> cv_in_service w" "\<not> cv_flag w" "cv_a w AND 0x70 = 0x20" "unat (cv_a w AND 0xF) = 12"
    and irq: "\<not> masked (view_entry base n w)" "unat (interrupt_vector (view_entry base n w)) = 128 + i" "\<not> INTERRUPT_RECEIVED k"
  obtains d where "wait_for bus handlers INTERRUPT_RECEIVED k = Some (k\<lparr>INTERRUPT_RECEIVED := True, devices := d\<rparr>)"
    "view d = (if cv_held w then w\<lparr>cv_held := False\<rparr> else w\<lparr>cv_now := (cv_now w div 2048 + 1) * 2048, cv_flag := True\<rparr>)"
proof -
  let ?w = "if cv_held w then w\<lparr>cv_held := False, cv_in_service := True\<rparr>
    else w\<lparr>cv_now := (cv_now w div 2048 + 1) * 2048, cv_flag := True, cv_in_service := True\<rparr>"
  have p: "period (cv_a w) = 2048" using w(6) by (simp add: period_def)
  obtain d1 where d1: "sti_hlt_cli bus (devices k) = Some ([interrupt_vector (view_entry base n w)], d1)" "view d1 = ?w"
    using dev(1) w irq(1) unfolding rtc_ticks_def Let_def p [symmetric] by (cases "cv_held w") auto
  obtain d where d: "wait_for bus handlers INTERRUPT_RECEIVED k = Some (k\<lparr>INTERRUPT_RECEIVED := True, devices := d\<rparr>)"
    "view d = (view d1)\<lparr>cv_in_service := False\<rparr>" by (rule wait_tick [OF dev(2) tls d1(1) irq(2,3)])
  have "w\<lparr>cv_in_service := False\<rparr> = w" using w(3) by (cases w) simp
  then have "view d = (if cv_held w then w\<lparr>cv_held := False\<rparr> else w\<lparr>cv_now := (cv_now w div 2048 + 1) * 2048, cv_flag := True\<rparr>)"
    using w(3) d(2) d1(2) by (cases w) simp
  with d(1) show thesis by (rule that)
qed

lemma rtc_measure_effect:
  assumes dev: "rtc_behaves bus view base n" "rtc_ticks bus view base n" "lapic_behaves bus view speed apic"
    and tls: "TLS k = Some tls" "info_apic (local_apic tls) = Some apic" "length (apic_interrupts (tls_idt tls)) = 128"
    "apic_interrupts (tls_idt tls) ! i = gate \<lparr>handler_type = HandlerFunc, handler_address = at_rtc_sleep_handler handlers\<rparr> 0" "i < 128"
    and w: "w = view (devices k)" "\<not> bit (cv_b w) 6" "\<not> cv_held w" "\<not> cv_in_service w" "cv_a w AND 0x70 = 0x20"
    and irq: "\<not> masked (view_entry base n w)" "unat (interrupt_vector (view_entry base n w)) = 128 + i"
  obtains d a t where "rtc_measure bus handlers (apic_write bus InitialCount 0xFFFFFFFF) k = Some (k\<lparr>INTERRUPT_RECEIVED := False, devices := d\<rparr>)"
    "view d = w\<lparr>cv_a := a, cv_b := cv_b w AND 0xBF, cv_flag := False, cv_now := t + cycles_slept w, cv_initial := 0xFFFFFFFF, cv_started := t\<rparr>"
proof -
  let ?b = "cv_b w" and ?k = "\<lambda>b d. k\<lparr>INTERRUPT_RECEIVED := b, devices := d\<rparr>"
  note cmos = cmos_behaves [OF dev(1)]
  note wait = wait_for_interrupt [OF dev(2,3), where handlers = handlers and i = i and tls = tls]
  obtain v d1 where d1: "cmos_read_byte bus True STATUS_A k = (v, k\<lparr>devices := d1\<rparr>)" "v AND 0x7F = cv_a w" "view d1 = w"
    using cmos(1) [of True k] w(1) by auto
  obtain d2 where d2: "cmos_read_byte bus True STATUS_B (k\<lparr>devices := d1\<rparr>) = (?b, k\<lparr>devices := d2\<rparr>)" "view d2 = w"
    using cmos(2) [of True "k\<lparr>devices := d1\<rparr>"] d1(3) by auto
  define a where "a = ((v AND 0xF0) OR RATE) AND 0x7F"
  note rate = rate_bits [of v, folded a_def, unfolded d1(2), OF w(5)]
  obtain d3 where d3: "cmos_write_byte bus True STATUS_A ((v AND 0xF0) OR RATE) (?k False d2) = ?k False d3" "view d3 = w\<lparr>cv_a := a\<rparr>"
    using cmos(4) [of True "(v AND 0xF0) OR RATE" "?k False d2"] d2(2) by (auto simp: a_def)
  have on: "bit (?b OR 0x40) 6" "\<not> bit (?b AND 0xBF) 6" by (simp_all add: bit_or_iff bit_and_iff)
  have "view_entry base n (w\<lparr>cv_a := a\<rparr>) = view_entry base n w" by (rule view_entry_cong) simp
  then obtain d4 where d4: "cmos_write_byte bus True STATUS_B (?b OR 0x40) (?k False d3) = ?k False d4"
    "view d4 = w\<lparr>cv_a := a, cv_b := ?b OR 0x40, cv_held := cv_flag w\<rparr>"
    using cmos(5) [of True "?b OR 0x40" "?k False d3"] d3(2) w on irq(1) by (auto simp: set_status_b_def)
  let ?w5 = "w\<lparr>cv_a := a, cv_b := ?b OR 0x40, cv_held := cv_flag w, cv_flag := False\<rparr>"
  obtain c d5 where d5: "cmos_read_byte bus True STATUS_C (?k False d4) = (c, ?k False d5)" "view d5 = ?w5"
    using cmos(3) [of True "?k False d4"] d4(2) by auto
  have e5: "view_entry base n ?w5 = view_entry base n w" by (rule view_entry_cong) simp
  define t where "t = (if cv_flag w then cv_now w else (cv_now w div 2048 + 1) * 2048)"
  let ?w6 = "w\<lparr>cv_a := a, cv_b := ?b OR 0x40, cv_flag := \<not> cv_flag w, cv_now := t\<rparr>"
  obtain d6 where d6: "wait_for bus handlers INTERRUPT_RECEIVED (?k False d5) = Some (?k True d6)"
    "view d6 = (if cv_held ?w5 then ?w5\<lparr>cv_held := False\<rparr> else ?w5\<lparr>cv_now := (cv_now ?w5 div 2048 + 1) * 2048, cv_flag := True\<rparr>)"
    by (rule wait [of "?k False d5" ?w5]) (use tls w rate on irq d5 e5 in simp_all)
  have v6: "view d6 = ?w6" using d6(2) w(3) by (cases w) (simp add: t_def)
  have bound: "unat apic + 0x1000 \<le> 2 ^ 64" using dev(3) by (simp add: lapic_behaves_def)
  have a6: "get_local_apic (?k True d6) = Some apic" using tls by (simp add: get_local_apic_def)
  let ?w7 = "?w6\<lparr>cv_initial := 0xFFFFFFFF, cv_started := t\<rparr>"
  obtain d7 where d7: "apic_write bus InitialCount 0xFFFFFFFF (?k True d6) = Some (?k True d7)" "view d7 = ?w7"
    using apic_write_at [OF bound a6, of InitialCount bus "0xFFFFFFFF"] dev(3) v6 by (simp add: lapic_behaves_def)
  let ?w8 = "?w7\<lparr>cv_flag := False\<rparr>"
  obtain c2 d8 where d8: "cmos_read_byte bus True STATUS_C (?k True d7) = (c2, ?k True d8)" "view d8 = ?w8"
    using cmos(3) [of True "?k True d7"] d7(2) by auto
  have e8: "view_entry base n ?w8 = view_entry base n w" by (rule view_entry_cong) simp
  have slept: "(t div 2048 + 1) * 2048 = t + cycles_slept w"
  proof (cases "cv_flag w")
    case True
    then show ?thesis using next_multiple [of "cv_now w"] by (simp add: t_def cycles_slept_def)
  next
    case False
    then show ?thesis by (simp add: t_def cycles_slept_def)
  qed
  obtain d9 where d9: "wait_for bus handlers INTERRUPT_RECEIVED (?k False d8) = Some (?k True d9)"
    "view d9 = (if cv_held ?w8 then ?w8\<lparr>cv_held := False\<rparr> else ?w8\<lparr>cv_now := (cv_now ?w8 div 2048 + 1) * 2048, cv_flag := True\<rparr>)"
    by (rule wait [of "?k False d8" ?w8]) (use tls w rate on irq d8 e8 in simp_all)
  have v9: "view d9 = ?w8\<lparr>cv_now := t + cycles_slept w, cv_flag := True\<rparr>" using d9(2) w(3) slept by simp
  obtain d10 where d10: "cmos_write_byte bus True STATUS_B (?b AND 0xBF) (?k True d9) = ?k True d10"
    "view d10 = ?w8\<lparr>cv_now := t + cycles_slept w, cv_flag := True, cv_b := ?b AND 0xBF\<rparr>"
    using cmos(5) [of True "?b AND 0xBF" "?k True d9"] v9 w(3) on by (cases w) (auto simp: set_status_b_def)
  obtain c3 d11 where d11: "cmos_read_byte bus False STATUS_C (?k True d10) = (c3, ?k True d11)"
    "view d11 = ?w8\<lparr>cv_now := t + cycles_slept w, cv_b := ?b AND 0xBF\<rparr>"
    using cmos(3) [of False "?k True d10"] d10(2) by auto
  have "rtc_measure bus handlers (apic_write bus InitialCount 0xFFFFFFFF) k = Some (?k False d11)"
    by (simp add: rtc_measure_def received_devices d1(1) d2(1) d3(1) d4(1) d5(1) d6(1) d7(1) d8(1) d9(1) d10(1) d11(1))
  then show thesis by (rule that [where a = a and t = t]) (use d11(2) in \<open>cases w; simp\<close>)
qed

subsection \<open>The calibration\<close>

text \<open>All that the I/O APICs leave alone.\<close>

definition apart_from_io :: "clock_view \<Rightarrow> clock_view" where
  "apart_from_io w = w\<lparr>cv_reg := \<lambda>_ _. 0\<rparr>"

lemma apart_from_io_reg: "apart_from_io (w\<lparr>cv_reg := r\<rparr>) = apart_from_io w"
  by (simp add: apart_from_io_def)

lemma apart_from_io_eq:
  "apart_from_io w = apart_from_io w' \<longleftrightarrow> cv_a w = cv_a w' \<and> cv_b w = cv_b w' \<and> cv_flag w = cv_flag w' \<and> cv_held w = cv_held w'
     \<and> cv_in_service w = cv_in_service w' \<and> cv_now w = cv_now w' \<and> cv_divide w = cv_divide w' \<and> cv_initial w = cv_initial w'
     \<and> cv_started w = cv_started w'"
  by (cases w; cases w') (simp add: apart_from_io_def)

lemma io_apics_apart_keep: "io_apics_apart bus view bases \<Longrightarrow> kept_by_io_apics bus (\<lambda>d. apart_from_io (view d)) bases"
  unfolding io_apics_apart_def kept_by_io_apics_def by (metis apart_from_io_reg)

lemma redirection_view: "redirection (\<lambda>d. cv_reg (view d)) d base n = view_entry base n (view d)"
  by (simp add: view_entry_def redirection_def)

lemma rtc_sleep_effect:
  fixes view :: "'d \<Rightarrow> clock_view"
  defines "reg \<equiv> \<lambda>d. cv_reg (view d)"
  assumes dev: "io_apics_behave bus reg entries (io_base_address ` set (io_apics state))" "\<forall>io\<in>set (io_apics state). io_apic_ok io"
    "lapic_id_is bus reg apic 0" "io_apics_apart bus view (io_base_address ` set (io_apics state))" "lapic_behaves bus view speed apic"
    "rtc_behaves bus view (io_base_address io) (slot 8 io)" "rtc_ticks bus view (io_base_address io) (slot 8 io)"
    and k: "ACTIVE_IO_INTERRUPT_SYSTEM k = Some Apic" "TLS k = Some tls" "info_apic (local_apic tls) = Some apic"
    "length (apic_interrupts (tls_idt tls)) = 128" "APIC_STATE k = Some state" "length (LEGACY_IRQS k) = 16"
    and vectors: "interrupt_vector_map state = [g0, g1]" "g0 \<noteq> NOT 0"
    and irq: "LEGACY_IRQS k ! 8 = None" "legacy_route state 8 = Some (pol, trigger, 8)" "List.find (serves 8) (io_apics state) = Some io"
    "slot 8 io < entries (io_base_address io)"
    and w: "w = view (devices k)" "\<not> bit (cv_b w) 6" "\<not> cv_held w" "\<not> cv_in_service w" "cv_a w AND 0x70 = 0x20"
  obtains d a t where "rtc_calibration_sleep bus handlers (apic_write bus InitialCount 0xFFFFFFFF) k
      = Some (62500, k\<lparr>INTERRUPT_RECEIVED := False, devices := d,
          TLS := Some (tls\<lparr>tls_idt := tls_idt tls\<lparr>apic_interrupts := (apic_interrupts (tls_idt tls))[leading_ones g0 := missing HandlerFunc]\<rparr>\<rparr>)\<rparr>)"
    "masked (redirection reg d (io_base_address io) (slot 8 io))"
    "apart_from_io (view d) = apart_from_io (w\<lparr>cv_a := a, cv_b := cv_b w AND 0xBF, cv_flag := False,
       cv_now := t + cycles_slept w, cv_initial := 0xFFFFFFFF, cv_started := t\<rparr>)"
    "\<forall>c m. m < 0x3F \<and> (c, m) \<noteq> (io_base_address io, slot 8 io) \<longrightarrow> redirection reg d c m = redirection reg (devices k) c m"
proof (rule map_effect [OF dev(1-3) k vectors, of 8 pol trigger 8 io "\<lparr>handler_type = HandlerFunc, handler_address = at_rtc_sleep_handler handlers\<rparr>"])
  let ?l = "leading_ones g0" and ?h = "\<lparr>handler_type = HandlerFunc, handler_address = at_rtc_sleep_handler handlers\<rparr>"
  let ?tls = "tls\<lparr>tls_idt := tls_idt tls\<lparr>apic_interrupts := (apic_interrupts (tls_idt tls))[?l := gate ?h 0]\<rparr>\<rparr>"
  let ?state = "state\<lparr>interrupt_vector_map := [g0 OR drop_bit ?l (push_bit 63 1), g1]\<rparr>"
  let ?irqs = "(LEGACY_IRQS k)[unat (8 :: u8) := Some \<lparr>handler_idt_entry = ?l, entry_index = of_nat ?l\<rparr>]"
  let ?io = "io_base_address ` set (io_apics state)" and ?f = "\<lambda>d. apart_from_io (view d)"
  show "(8 :: u8) < 16" "LEGACY_IRQS k ! unat (8 :: u8) = None" "legacy_route state 8 = Some (pol, trigger, 8)"
    "List.find (serves 8) (io_apics state) = Some io" "slot 8 io < entries (io_base_address io)" using irq by simp_all
  fix d1 e
  let ?k1 = "k\<lparr>devices := d1, TLS := Some ?tls, LEGACY_IRQS := ?irqs, APIC_STATE := Some ?state\<rparr>"
  assume m: "map_legacy_irq bus 8 ?h k = Some ?k1" and e: "redirection reg d1 (io_base_address io) (slot 8 io) = e"
    "unat (interrupt_vector e) = 128 + ?l" "\<not> masked e"
    and rest: "\<forall>c m. m < 0x3F \<and> (c, m) \<noteq> (io_base_address io, slot 8 io) \<longrightarrow> redirection reg d1 c m = redirection reg (devices k) c m"
  have l: "?l < 128" using leading_ones_less(1) [OF vectors(2)] by simp
  note keep = io_apics_apart_keep [OF dev(4)]
  have a: "get_local_apic k = Some apic" using k(2,3) by (simp add: get_local_apic_def)
  have "?f (snd (mmio_read bus (apic + 0x20) d)) = ?f d" for d using dev(5) by (simp add: lapic_behaves_def)
  from map_keeps(1) [of bus ?f, OF keep k(5) this a m] have f1: "apart_from_io (view d1) = apart_from_io w" by (simp add: w(1))
  define w1 where "w1 = view d1"
  have w1: "\<not> bit (cv_b w1) 6" "\<not> cv_held w1" "\<not> cv_in_service w1" "cv_a w1 AND 0x70 = 0x20" "cycles_slept w1 = cycles_slept w"
    using f1 w(2-5) unfolding w1_def [symmetric] apart_from_io_eq cycles_slept_def by simp_all
  have e1: "\<not> masked (view_entry (io_base_address io) (slot 8 io) w1)"
    "unat (interrupt_vector (view_entry (io_base_address io) (slot 8 io) w1)) = 128 + ?l"
    using e unfolding w1_def redirection_view [symmetric] reg_def by simp_all
  have tls1: "TLS ?k1 = Some ?tls" "info_apic (local_apic ?tls) = Some apic" "length (apic_interrupts (tls_idt ?tls)) = 128"
    "apic_interrupts (tls_idt ?tls) ! ?l = gate \<lparr>handler_type = HandlerFunc, handler_address = at_rtc_sleep_handler handlers\<rparr> 0" "?l < 128"
    using k l by simp_all
  have w1d: "w1 = view (devices ?k1)" by (simp add: w1_def)
  obtain d2 a t where d2: "rtc_measure bus handlers (apic_write bus InitialCount 0xFFFFFFFF) ?k1 = Some (?k1\<lparr>INTERRUPT_RECEIVED := False, devices := d2\<rparr>)"
    "view d2 = w1\<lparr>cv_a := a, cv_b := cv_b w1 AND 0xBF, cv_flag := False, cv_now := t + cycles_slept w1, cv_initial := 0xFFFFFFFF, cv_started := t\<rparr>"
    by (rule rtc_measure_effect [OF dev(6,7,5) tls1 w1d w1(1-4) e1]) (rule that)
  have r2: "redirection reg d2 c m = redirection reg d1 c m" for c m
  proof -
    have "cv_reg (view d2) = cv_reg (view d1)" unfolding d2(2) w1_def by simp
    then show ?thesis unfolding reg_def redirection_def by simp
  qed
  let ?k2 = "?k1\<lparr>INTERRUPT_RECEIVED := False, devices := d2\<rparr>"
  obtain d where d: "unmap_legacy_id bus 8 ?k2 = Some (?k2\<lparr>devices := d,
      TLS := Some (?tls\<lparr>tls_idt := tls_idt ?tls\<lparr>apic_interrupts := (apic_interrupts (tls_idt ?tls))[?l := missing HandlerFunc]\<rparr>\<rparr>),
      LEGACY_IRQS := (LEGACY_IRQS ?k2)[unat (8 :: u8) := None], APIC_STATE := Some (?state\<lparr>interrupt_vector_map := [g0, g1]\<rparr>)\<rparr>)"
    "masked (redirection reg d (io_base_address io) (slot (ucast (8 :: u8)) io))"
    "\<And>c m. m < 0x3F \<Longrightarrow> (c, m) \<noteq> (io_base_address io, slot (ucast (8 :: u8)) io) \<Longrightarrow> redirection reg d c m = redirection reg (devices ?k2) c m"
    by (rule unmap_effect [of bus reg entries ?state ?k2 ?tls g0 g1 8 io]) (use dev k vectors irq in simp_all)
  have k2: "APIC_STATE ?k2 = Some ?state" "kept_by_io_apics bus ?f (io_base_address ` set (io_apics ?state))" using keep by simp_all
  from map_keeps(2) [OF k2(2,1) d(1)] have "apart_from_io (view d) = apart_from_io (view d2)" by simp
  also have "\<dots> = apart_from_io (w\<lparr>cv_a := a, cv_b := cv_b w AND 0xBF, cv_flag := False,
       cv_now := t + cycles_slept w, cv_initial := 0xFFFFFFFF, cv_started := t\<rparr>)"
    using f1 unfolding d2(2) w1(5) w1_def [symmetric] apart_from_io_eq by simp
  finally have s: "apart_from_io (view d) = apart_from_io (w\<lparr>cv_a := a, cv_b := cv_b w AND 0xBF, cv_flag := False,
       cv_now := t + cycles_slept w, cv_initial := 0xFFFFFFFF, cv_started := t\<rparr>)" .
  have irqs: "(LEGACY_IRQS k)[8 := None] = LEGACY_IRQS k" using irq(1) by (metis list_update_id)
  have st: "state\<lparr>interrupt_vector_map := [g0, g1]\<rparr> = state" using vectors(1) by simp
  let ?k = "k\<lparr>INTERRUPT_RECEIVED := False, devices := d,
      TLS := Some (tls\<lparr>tls_idt := tls_idt tls\<lparr>apic_interrupts := (apic_interrupts (tls_idt tls))[?l := missing HandlerFunc]\<rparr>\<rparr>)\<rparr>"
  have u: "unmap_legacy_id bus 8 ?k2 = Some ?k" using d(1) irqs st k(5) by simp
  have "rtc_calibration_sleep bus handlers (apic_write bus InitialCount 0xFFFFFFFF) k = Some (62500, ?k)"
    by (simp only: rtc_calibration_sleep_measure scoped_map_legacy_irq_def drop_scoped_mapping_def m d2(1) u bind.bind_lunit prod.case)
  then show thesis by (rule that [OF _ _ s]) (use d(2,3) r2 rest in auto)
qed

text \<open>
  C17. The calibration ends, on the processor with the local APIC identification zero, with line 8 not overridden and devices that behave as
  documented, in particular with a real-time clock that raises no second interrupt before the flag of the first is cleared. It records
  as time 62500 microseconds, which are the 2048 cycles of the oscillator between two interrupts at the rate it programs, and as ticks
  what the timer of the local APIC counts down in 2048 cycles, but only if the flag of the clock is clear at the start. If it
  is set, enabling the interrupt raises the first interrupt at once, and the ticks are those of the rest of the running period. In
  both cases line 8 is unmapped again and masked, no other redirection entry has changed, and the periodic interrupt is disabled.
\<close>

theorem calibrate_correct:
  assumes "io_apics_behave bus (\<lambda>d. cv_reg (view d)) entries (io_base_address ` set (io_apics state))"
    "\<forall>io\<in>set (io_apics state). io_apic_ok io" "lapic_id_is bus (\<lambda>d. cv_reg (view d)) apic 0"
    "io_apics_apart bus view (io_base_address ` set (io_apics state))" "lapic_behaves bus view speed apic"
    "rtc_behaves bus view (io_base_address io) (slot 8 io)" "rtc_ticks bus view (io_base_address io) (slot 8 io)"
    and "ACTIVE_IO_INTERRUPT_SYSTEM k = Some Apic" "TLS k = Some tls" "info_apic (local_apic tls) = Some apic"
    "length (apic_interrupts (tls_idt tls)) = 128" "APIC_STATE k = Some state" "length (LEGACY_IRQS k) = 16"
    and "interrupt_vector_map state = [g0, g1]" "g0 \<noteq> NOT 0"
    and "LEGACY_IRQS k ! 8 = None" "legacy_route state 8 = Some (pol, trigger, 8)" "List.find (serves 8) (io_apics state) = Some io"
    "slot 8 io < entries (io_base_address io)"
    and w: "w = view (devices k)" "\<not> bit (cv_b w) 6" "\<not> cv_held w" "\<not> cv_in_service w" "cv_a w AND 0x70 = 0x20"
    and speed: "speed * 2048 < 2 ^ 32" and "manager_calibration_timer (MANAGER k) = RtcCalibrationTimer"
  shows "\<exists>d i. calibrate bus handlers k = Some (k\<lparr>INTERRUPT_RECEIVED := False, devices := d,
        TLS := Some (tls\<lparr>tls_idt := tls_idt tls\<lparr>apic_interrupts := (apic_interrupts (tls_idt tls))[i := missing HandlerFunc]\<rparr>,
          local_apic := (local_apic tls)\<lparr>timer_us_numerator := of_nat (speed * (if cv_flag w then 2048 - cv_now w mod 2048 else 2048)),
            timer_us_denominator := 62500\<rparr>\<rparr>)\<rparr>)
    \<and> masked (view_entry (io_base_address io) (slot 8 io) (view d)) \<and> \<not> bit (cv_b (view d)) 6
    \<and> (\<forall>c m. m < 0x3F \<and> (c, m) \<noteq> (io_base_address io, slot 8 io) \<longrightarrow> view_entry c m (view d) = view_entry c m w)"
proof -
  let ?reg = "\<lambda>d. cv_reg (view d)" and ?l = "leading_ones g0" and ?n = "cycles_slept w"
  have bound: "unat apic + 0x1000 \<le> 2 ^ 64" using assms(5) by (simp add: lapic_behaves_def)
  have a: "get_local_apic k = Some apic" using assms(9,10) by (simp add: get_local_apic_def)
  obtain d1 where d1: "apic_write bus DivideConfiguration 3 k = Some (k\<lparr>devices := d1\<rparr>)" "view d1 = w\<lparr>cv_divide := 3\<rparr>"
    using apic_write_at [OF bound a, of DivideConfiguration bus 3] assms(5) w(1) by (simp add: lapic_behaves_def)
  let ?k1 = "k\<lparr>devices := d1\<rparr>"
  let ?tls = "tls\<lparr>tls_idt := tls_idt tls\<lparr>apic_interrupts := (apic_interrupts (tls_idt tls))[?l := missing HandlerFunc]\<rparr>\<rparr>"
  have k1: "ACTIVE_IO_INTERRUPT_SYSTEM ?k1 = Some Apic" "TLS ?k1 = Some tls" "APIC_STATE ?k1 = Some state" "length (LEGACY_IRQS ?k1) = 16"
    "LEGACY_IRQS ?k1 ! 8 = None" "w\<lparr>cv_divide := 3\<rparr> = view (devices ?k1)" using assms(8,9,12,13,16) d1(2) by simp_all
  have w1: "\<not> bit (cv_b (w\<lparr>cv_divide := 3\<rparr>)) 6" "\<not> cv_held (w\<lparr>cv_divide := 3\<rparr>)" "\<not> cv_in_service (w\<lparr>cv_divide := 3\<rparr>)"
    "cv_a (w\<lparr>cv_divide := 3\<rparr>) AND 0x70 = 0x20" "cycles_slept (w\<lparr>cv_divide := 3\<rparr>) = ?n"
    using w(2-5) by (simp_all add: cycles_slept_def)
  obtain d2 b t where d2: "rtc_calibration_sleep bus handlers (apic_write bus InitialCount 0xFFFFFFFF) ?k1
      = Some (62500, ?k1\<lparr>INTERRUPT_RECEIVED := False, devices := d2, TLS := Some ?tls\<rparr>)"
    "masked (redirection ?reg d2 (io_base_address io) (slot 8 io))"
    "apart_from_io (view d2) = apart_from_io ((w\<lparr>cv_divide := 3\<rparr>)\<lparr>cv_a := b, cv_b := cv_b (w\<lparr>cv_divide := 3\<rparr>) AND 0xBF, cv_flag := False,
       cv_now := t + cycles_slept (w\<lparr>cv_divide := 3\<rparr>), cv_initial := 0xFFFFFFFF, cv_started := t\<rparr>)"
    "\<forall>c m. m < 0x3F \<and> (c, m) \<noteq> (io_base_address io, slot 8 io) \<longrightarrow> redirection ?reg d2 c m = redirection ?reg (devices ?k1) c m"
    by (rule rtc_sleep_effect [OF assms(1-7) k1(1,2) assms(10,11) k1(3,4) assms(14,15) k1(5) assms(17-19) k1(6) w1(1-4)]) (rule that)
  have v2: "cv_b (view d2) = cv_b w AND 0xBF" "cv_divide (view d2) = 3" "cv_initial (view d2) = 0xFFFFFFFF"
    "cv_now (view d2) - cv_started (view d2) = ?n"
    using d2(3) by (simp_all add: apart_from_io_eq w1(5))
  let ?k2 = "k\<lparr>INTERRUPT_RECEIVED := False, devices := d2, TLS := Some ?tls\<rparr>"
  have a2: "get_local_apic ?k2 = Some apic" using assms(10) by (simp add: get_local_apic_def)
  have "speed * ?n \<le> speed * 2048" by (simp add: cycles_slept_def)
  then have ticks: "speed * ?n < 2 ^ 32" using speed by linarith
  then have "fst (mmio_read bus (apic + 0x390) d2) = 0xFFFFFFFF - of_nat (speed * ?n)"
    using assms(5) v2 unfolding lapic_behaves_def Let_def by auto
  moreover have "view (snd (mmio_read bus (apic + 0x390) d2)) = view d2" using assms(5) unfolding lapic_behaves_def by blast
  ultimately obtain d where d: "mmio_read bus (apic + 0x390) d2 = (0xFFFFFFFF - of_nat (speed * ?n), d)" "view d = view d2"
    by (metis prod.collapse)
  have rd: "apic_read bus CurrentCount ?k2 = Some (0xFFFFFFFF - of_nat (speed * ?n), ?k2\<lparr>devices := d\<rparr>)"
    using apic_read_at [OF bound a2, of CurrentCount bus] d(1) by simp
  have "(x :: u32) \<le> 0xFFFFFFFF" for x using unsigned_less [of x, where 'a = nat] by (simp add: word_le_nat_alt)
  then have sub: "checked_sub 0xFFFFFFFF (0xFFFFFFFF - of_nat (speed * ?n) :: u32) = Some (of_nat (speed * ?n))"
    by (simp add: checked_sub_def)
  have cast: "(ucast (of_nat (speed * ?n) :: u32) :: usize) = of_nat (speed * ?n)"
    using ticks by (intro word_eq_unatI) (simp add: unat_ucast_up unat_of_nat_small del: of_nat_mult)
  have "calibrate bus handlers k = Some (k\<lparr>INTERRUPT_RECEIVED := False, devices := d,
      TLS := Some (?tls\<lparr>local_apic := (local_apic tls)\<lparr>timer_us_numerator := of_nat (speed * ?n), timer_us_denominator := 62500\<rparr>\<rparr>)\<rparr>)"
    using assms(26) d2(1) by (simp add: calibrate_def d1(1) calibration_sleep_def rd sub cast update_local_apic_def del: of_nat_mult)
  moreover have "\<not> bit (cv_b (view d)) 6" using v2(1) d(2) by (simp add: bit_and_iff)
  moreover have "view_entry c m (view d1) = view_entry c m w" for c m using d1(2) by (intro view_entry_cong) simp
  ultimately show ?thesis
    using d2(2,4) d(2) by (intro exI [of _ d] exI [of _ ?l]) (simp add: redirection_view cycles_slept_def)
qed

subsection \<open>Ticks and milliseconds\<close>

text \<open>
  A countdown writes the number of ticks, truncated to the 32 bits of the register, as its last access. The product of ticks and
  microseconds must fit into 64 bits, or the kernel panics.
\<close>

lemma start_countdown_programs:
  assumes "get_local_apic k = Some apic" "unat apic + 0x1000 \<le> 2 ^ 64" "TLS k = Some tls"
    and "timer_us_numerator (local_apic tls) = of_nat n" "timer_us_denominator (local_apic tls) = of_nat q"
    and "0 < q" "q < 2 ^ 64" "n * (1000 * unat t) < 2 ^ 64" "n < 2 ^ 64"
  obtains d where "start_countdown_ms bus t k
      = Some (k\<lparr>devices := mmio_write bus (apic + 0x380) (of_nat (n * (1000 * unat t) div q)) d,
          TLS := Some (tls\<lparr>local_apic := (local_apic tls)\<lparr>interrupt_received := False\<rparr>\<rparr>)\<rparr>)"
proof -
  let ?tls = "tls\<lparr>local_apic := (local_apic tls)\<lparr>interrupt_received := False\<rparr>\<rparr>"
  define ticks where "ticks = (of_nat (n * (1000 * unat t) div q) :: u32)"
  have t: "unat t < 2 ^ 32" using unsigned_less [of t, where 'a = nat] by simp
  then have us: "unat (of_nat (1000 * unat t) :: usize) = 1000 * unat t" by (simp add: unat_of_nat_small del: of_nat_mult)
  have time: "checked_mul (ucast t :: usize) 1000 = Some (of_nat (1000 * unat t))"
    using t us by (simp add: checked_mul_Some unat_ucast_up del: of_nat_mult)
  have prod: "checked_mul (of_nat n :: usize) (of_nat (1000 * unat t)) = Some (of_nat (n * (1000 * unat t)))"
    using us assms(8,9) by (simp add: checked_mul_Some unat_of_nat_small del: of_nat_mult)
  have q: "(of_nat q :: usize) \<noteq> 0" using assms(6,7) of_nat_usize_eq [of q 0] by simp
  have "(of_nat (n * (1000 * unat t)) :: usize) div of_nat q = of_nat (n * (1000 * unat t) div q)"
    using assms(7,8) by (intro word_eq_unatI) (simp add: unat_div unat_of_nat_small div_less_dividend order.strict_trans1 [OF div_le_dividend] del: of_nat_mult)
  moreover have "(ucast (of_nat x :: usize) :: u32) = of_nat x" for x by (rule bit_word_eqI) (simp add: bit_simps)
  ultimately have ticks: "ucast ((of_nat (n * (1000 * unat t)) :: usize) div of_nat q) = ticks" by (simp only: ticks_def)
  obtain lvt d1 where r: "apic_read bus LvtTimer k = Some (lvt, k\<lparr>devices := d1\<rparr>)"
    using apic_read_at [OF assms(2,1), of LvtTimer bus] by (simp add: case_prod_beta)
  let ?lvt = "set_timer_mode OneShot (timer_set_masked False lvt)"
  have a1: "get_local_apic (k\<lparr>devices := d1\<rparr>) = Some apic" using assms(1) by (simp add: get_local_apic_def)
  obtain d2 where w: "apic_write bus LvtTimer ?lvt (k\<lparr>devices := d1\<rparr>) = Some (k\<lparr>devices := d2\<rparr>)"
    using apic_write_at [OF assms(2) a1, of LvtTimer bus ?lvt] by simp
  have a2: "get_local_apic (k\<lparr>devices := d2, TLS := Some ?tls\<rparr>) = Some apic" using assms(1,3) by (simp add: get_local_apic_def)
  obtain d3 where w2: "apic_write bus InitialCount ticks (k\<lparr>devices := d2, TLS := Some ?tls\<rparr>) = Some (k\<lparr>devices := d3, TLS := Some ?tls\<rparr>)"
    "d3 = mmio_write bus (apic + 0x380) ticks d2"
    using apic_write_at [OF assms(2) a2, of InitialCount bus ticks] by simp
  have "start_countdown_ms bus t k = Some (k\<lparr>devices := d3, TLS := Some ?tls\<rparr>)"
    using assms(1,3) q
    by (simp add: start_countdown_ms_def time assms(4,5) prod ticks r w w2(1) update_local_apic_def Let_def del: of_nat_mult)
  then show thesis using that [of d2] by (simp add: w2(2) ticks_def)
qed

lemma ticks_bounds:
  fixes n q t :: nat
  defines "ticks \<equiv> n * (1000 * t) div q"
  assumes "0 < q" "q \<le> n"
  shows "ticks * q \<le> n * (1000 * t)" "ticks * q div n div 1000 \<le> t" "t \<le> ticks * q div n div 1000 + 1"
proof -
  show le: "ticks * q \<le> n * (1000 * t)" by (simp add: ticks_def)
  have n: "0 < n" using assms by simp
  have "ticks * q div n \<le> n * (1000 * t) div n" using le by (rule div_le_mono)
  then show "ticks * q div n div 1000 \<le> t" using n by simp
  have "n * (1000 * t) = ticks * q + n * (1000 * t) mod q" by (simp add: ticks_def)
  moreover have "n * (1000 * t) mod q < q" using assms(2) by simp
  ultimately have "n * (1000 * t) < ticks * q + n" using assms(3) by linarith
  then have "n * (1000 * t) div n \<le> (ticks * q + n) div n" by (intro div_le_mono) simp
  then have "1000 * t \<le> ticks * q div n + 1" using n by (simp add: div_add_self2)
  then show "t \<le> ticks * q div n div 1000 + 1" by linarith
qed

text \<open>
  C31. A countdown that was just started has the time left that it was started with, up to one millisecond of rounding: for a timer of at least one
  tick per microsecond whose count reads back, as long as the ticks fit into the 32 bits of the count register and the
  multiplication into 64 bits.
\<close>

theorem countdown_round_trip:
  assumes "get_local_apic k = Some apic" "unat apic + 0x1000 \<le> 2 ^ 64" "TLS k = Some tls"
    and "timer_us_numerator (local_apic tls) = of_nat n" "timer_us_denominator (local_apic tls) = of_nat q"
    and "0 < q" "q \<le> n" "n < 2 ^ 64" "n * (1000 * unat t) < 2 ^ 64" "n * (1000 * unat t) div q < 2 ^ 32"
    and "\<forall>c d. fst (mmio_read bus (apic + 0x390) (mmio_write bus (apic + 0x380) c d)) = c"
  shows "\<exists>k1 k2 r. start_countdown_ms bus t k = Some k1 \<and> countdown_ended k1 = Some False
    \<and> countdown_remaining_ms bus k1 = Some (r, k2) \<and> unat r \<le> unat t \<and> unat t \<le> unat r + 1"
proof -
  let ?ticks = "n * (1000 * unat t) div q"
  let ?tls = "tls\<lparr>local_apic := (local_apic tls)\<lparr>interrupt_received := False\<rparr>\<rparr>"
  note b = ticks_bounds [OF assms(6,7), of "unat t"]
  have q64: "q < 2 ^ 64" using assms(7,8) by simp
  obtain d where s: "start_countdown_ms bus t k = Some (k\<lparr>devices := mmio_write bus (apic + 0x380) (of_nat ?ticks) d, TLS := Some ?tls\<rparr>)"
    by (rule start_countdown_programs [OF assms(1-6) q64 assms(9,8)])
  let ?k1 = "k\<lparr>devices := mmio_write bus (apic + 0x380) (of_nat ?ticks) d, TLS := Some ?tls\<rparr>"
  have a1: "get_local_apic ?k1 = Some apic" using assms(1,3) by (simp add: get_local_apic_def)
  obtain c d2 where r: "apic_read bus CurrentCount ?k1 = Some (c, ?k1\<lparr>devices := d2\<rparr>)" "(c, d2) = mmio_read bus (apic + 0x390) (devices ?k1)"
    using apic_read_at [OF assms(2) a1, of CurrentCount bus] by (simp add: case_prod_beta)
  have "c = fst (mmio_read bus (apic + 0x390) (devices ?k1))" using r(2) [symmetric] by simp
  then have "c = of_nat ?ticks" using assms(11) by simp
  then have c: "unat c = ?ticks" using assms(10) by (simp add: unat_of_nat_small)
  have small: "?ticks * q < 2 ^ 64" using b(1) assms(9) by linarith
  have prod: "checked_mul (ucast c :: usize) (of_nat q) = Some (of_nat (?ticks * q))"
    using small q64 by (simp add: checked_mul_Some unat_ucast_up c unat_of_nat_small del: of_nat_mult)
  have n: "(of_nat n :: usize) \<noteq> 0" using assms(6-8) of_nat_usize_eq [of n 0] by simp
  define r where "r = (ucast ((of_nat (?ticks * q) :: usize) div of_nat n div 1000) :: u32)"
  have "unat ((of_nat (?ticks * q) :: usize) div of_nat n div 1000) = ?ticks * q div n div 1000"
    using small assms(8) by (simp add: unat_div unat_of_nat_small del: of_nat_mult)
  moreover have "?ticks * q div n div 1000 < 2 ^ 32" using b(2) unsigned_less [of t, where 'a = nat] by simp
  ultimately have u: "unat r = ?ticks * q div n div 1000" by (simp add: r_def unsigned_ucast_eq take_bit_nat_eq_self)
  have "countdown_remaining_ms bus ?k1 = Some (r, ?k1\<lparr>devices := d2\<rparr>)"
    using n by (simp add: countdown_remaining_ms_def Let_def r prod assms(4,5) r_def del: of_nat_mult)
  then show ?thesis using s b(2,3) u by (simp add: countdown_ended_def)
qed

subsection \<open>A machine with a clock\<close>

text \<open>The I/O APIC of the routing, a local APIC whose timer counts 1907 ticks per cycle of the oscillator, and a real-time clock.\<close>

record demo_device =
  dev_select :: u32
  dev_index :: u8
  dev_state :: clock_view

definition writable_bits :: "(usize \<Rightarrow> u32 \<Rightarrow> u32) \<Rightarrow> usize \<Rightarrow> u32 \<Rightarrow> u32" where
  "writable_bits r b i = (if b = 0xFEC00000 then r b i AND register_mask i else 0)"

definition clock_device_view :: "demo_device \<Rightarrow> clock_view" where
  "clock_device_view d = (dev_state d)\<lparr>cv_reg := writable_bits (cv_reg (dev_state d)), cv_a := cv_a (dev_state d) AND 0x7F\<rparr>"

definition clock_mmio_write :: "usize \<Rightarrow> u32 \<Rightarrow> demo_device \<Rightarrow> demo_device" where
  "clock_mmio_write a v d =
     (if a = 0xFEC00000 then d\<lparr>dev_select := v AND 0xFF\<rparr>
      else if a = 0xFEC00010
      then d\<lparr>dev_state := (dev_state d)\<lparr>cv_reg := (cv_reg (dev_state d))(0xFEC00000 := (cv_reg (dev_state d) 0xFEC00000)(dev_select d := v))\<rparr>\<rparr>
      else if a = 0xFFFFFFFF100020B0 then d\<lparr>dev_state := (dev_state d)\<lparr>cv_in_service := False\<rparr>\<rparr>
      else if a = 0xFFFFFFFF10002380 then d\<lparr>dev_state := (dev_state d)\<lparr>cv_initial := v, cv_started := cv_now (dev_state d)\<rparr>\<rparr>
      else if a = 0xFFFFFFFF100023E0 then d\<lparr>dev_state := (dev_state d)\<lparr>cv_divide := v\<rparr>\<rparr> else d)"

definition clock_mmio_read :: "usize \<Rightarrow> demo_device \<Rightarrow> u32" where
  "clock_mmio_read a d =
     (if a = 0xFEC00010 then cv_reg (dev_state d) 0xFEC00000 (dev_select d)
      else if a = 0xFFFFFFFF10002390
      then cv_initial (dev_state d) - of_nat (1907 * (cv_now (dev_state d) - cv_started (dev_state d))) else 0)"

definition clock_port_out :: "u16 \<Rightarrow> u8 \<Rightarrow> demo_device \<Rightarrow> demo_device" where
  "clock_port_out p v d =
     (if p = 0x70 then d\<lparr>dev_index := v\<rparr>
      else if p = 0x71 \<and> dev_index d AND 0x7F = 0xA then d\<lparr>dev_state := (dev_state d)\<lparr>cv_a := v\<rparr>\<rparr>
      else if p = 0x71 \<and> dev_index d AND 0x7F = 0xB
      then d\<lparr>dev_state := (dev_state d)\<lparr>cv_b := v, cv_held := cv_held (set_status_b 0xFEC00000 8 v (clock_device_view d))\<rparr>\<rparr> else d)"

definition clock_port_in :: "u16 \<Rightarrow> demo_device \<Rightarrow> u8 \<times> demo_device" where
  "clock_port_in p d =
     (if p = 0x71 \<and> dev_index d AND 0x7F = 0xA then (cv_a (dev_state d), d)
      else if p = 0x71 \<and> dev_index d AND 0x7F = 0xB then (cv_b (dev_state d), d)
      else if p = 0x71 \<and> dev_index d AND 0x7F = 0xC then (0, d\<lparr>dev_state := (dev_state d)\<lparr>cv_flag := False\<rparr>\<rparr>) else (0, d))"

definition clock_wait :: "demo_device \<Rightarrow> (u8 list \<times> demo_device) option" where
  "clock_wait d =
     (let w = dev_state d; a = cv_a w AND 0x7F; v = interrupt_vector (view_entry 0xFEC00000 8 (clock_device_view d))
      in if cv_held w then Some ([v], d\<lparr>dev_state := w\<lparr>cv_held := False, cv_in_service := True\<rparr>\<rparr>)
         else if cv_flag w then None
         else Some ([v], d\<lparr>dev_state := w\<lparr>cv_now := (cv_now w div period a + 1) * period a, cv_flag := True, cv_in_service := True\<rparr>\<rparr>))"

definition clock_bus :: "demo_device bus" where
  "clock_bus = \<lparr>mmio_read = (\<lambda>a d. (clock_mmio_read a d, d)), mmio_write = clock_mmio_write, port_in = clock_port_in, port_out = clock_port_out,
     rdmsr = (\<lambda>i d. ((0, 0), d)), wrmsr = (\<lambda>i v d. d), sti_hlt_cli = clock_wait,
     cpuid = (\<lambda>i. \<lparr>eax = 0, ebx = 0, ecx = 0, edx = 0\<rparr>)\<rparr>"

lemma clock_bus_io:
  "io_apics_behave clock_bus (\<lambda>d. cv_reg (clock_device_view d)) (\<lambda>_. 24) (io_base_address ` set (io_apics demo_state))"
  "lapic_id_is clock_bus (\<lambda>d. cv_reg (clock_device_view d)) 0xFFFFFFFF10002000 0"
  "io_apics_apart clock_bus clock_device_view (io_base_address ` set (io_apics demo_state))"
proof -
  have "cv_reg (clock_device_view (mmio_write clock_bus 0xFEC00010 v (mmio_write clock_bus 0xFEC00000 i d)))
      = (cv_reg (clock_device_view d))(0xFEC00000 := (cv_reg (clock_device_view d) 0xFEC00000)(i := v AND register_mask i))" if "i AND 0xFF = i" for v i d
    by (rule ext)+ (simp add: clock_bus_def clock_mmio_write_def clock_device_view_def writable_bits_def that)
  then show "io_apics_behave clock_bus (\<lambda>d. cv_reg (clock_device_view d)) (\<lambda>_. 24) (io_base_address ` set (io_apics demo_state))"
    by (simp add: io_apics_behave_def demo_state_def selector_byte)
      (simp add: clock_bus_def clock_mmio_write_def clock_mmio_read_def clock_device_view_def writable_bits_def fun_eq_iff selector_byte)
  show "lapic_id_is clock_bus (\<lambda>d. cv_reg (clock_device_view d)) 0xFFFFFFFF10002000 0"
    by (simp add: lapic_id_is_def clock_bus_def clock_mmio_read_def)
  have same: "\<exists>r. clock_device_view d = (clock_device_view d)\<lparr>cv_reg := r\<rparr>" for d
    by (rule exI [of _ "cv_reg (clock_device_view d)"]) simp
  have select: "clock_device_view (clock_mmio_write 0xFEC00000 v d) = clock_device_view d" for v d
    by (simp add: clock_mmio_write_def clock_device_view_def)
  have "clock_device_view (clock_mmio_write 0xFEC00010 v d) =
      (clock_device_view d)\<lparr>cv_reg := cv_reg (clock_device_view (clock_mmio_write 0xFEC00010 v d))\<rparr>" for v d
    by (simp add: clock_mmio_write_def clock_device_view_def)
  then have window: "\<exists>r. clock_device_view (clock_mmio_write 0xFEC00010 v d) = (clock_device_view d)\<lparr>cv_reg := r\<rparr>" for v d by blast
  show "io_apics_apart clock_bus clock_device_view (io_base_address ` set (io_apics demo_state))"
    by (simp add: io_apics_apart_def demo_state_def clock_bus_def select same window)
qed

lemma clock_bus_behaves:
  "lapic_behaves clock_bus clock_device_view 1907 0xFFFFFFFF10002000"
  "rtc_behaves clock_bus clock_device_view (io_base_address (hd (io_apics demo_state))) (slot 8 (hd (io_apics demo_state)))"
  "rtc_ticks clock_bus clock_device_view (io_base_address (hd (io_apics demo_state))) (slot 8 (hd (io_apics demo_state)))"
proof -
  show "lapic_behaves clock_bus clock_device_view 1907 0xFFFFFFFF10002000"
    by (simp add: lapic_behaves_def clock_bus_def clock_mmio_write_def clock_mmio_read_def clock_device_view_def Let_def)
  have "view_entry b n (clock_device_view (d\<lparr>dev_index := r\<rparr>)) = view_entry b n (clock_device_view d)" for b n d r
    by (rule view_entry_cong) (simp add: clock_device_view_def)
  then show "rtc_behaves clock_bus clock_device_view (io_base_address (hd (io_apics demo_state))) (slot 8 (hd (io_apics demo_state)))"
    unfolding demo_io(1) demo_io(3) [simplified]
    by (simp add: rtc_behaves_def clock_bus_def clock_port_in_def clock_port_out_def set_status_b_def)
      (simp add: clock_device_view_def)
  show "rtc_ticks clock_bus clock_device_view (io_base_address (hd (io_apics demo_state))) (slot 8 (hd (io_apics demo_state)))"
    unfolding demo_io(1) demo_io(3) [simplified]
    by (simp add: rtc_ticks_def clock_bus_def clock_wait_def Let_def) (simp add: clock_device_view_def)
qed

definition demo_clock_handlers :: clock_handlers where
  "demo_clock_handlers = \<lparr>at_rtc_sleep_handler = 0xFFFFFFFF80002000, at_apic_sleep_handler = 0xFFFFFFFF80003000\<rparr>"

definition demo_tls :: "interrupt_descriptor_table \<Rightarrow> thread_local_storage" where
  "demo_tls t = \<lparr>self_pointer = 0xFFFFFFFF20000000,
     local_apic = local_apic_info_default\<lparr>info_apic := Some 0xFFFFFFFF10002000, timer_us_numerator := 3906250, timer_us_denominator := 62500\<rparr>,
     tls_idt = t, tls_yield_info = yield_info_default\<rparr>"

definition demo_clocks :: "interrupt_descriptor_table \<Rightarrow> demo_device clocks" where
  "demo_clocks t = \<lparr>kmachine = \<lparr>PAGE_ALLOCATOR = None, mem = (\<lambda>a i. 0)\<rparr>,
     devices = \<lparr>dev_select = 0, dev_index = 0, dev_state = \<lparr>cv_reg = (\<lambda>b i. 0), cv_a = 0x26, cv_b = 2, cv_flag = False, cv_held = False,
       cv_in_service = False, cv_now = 5000, cv_divide = 0, cv_initial = 0, cv_started = 0\<rparr>\<rparr>,
     TLS = Some (demo_tls t), ACTIVE_IO_INTERRUPT_SYSTEM = Some Apic, LEGACY_IRQS = replicate 16 None, APIC_STATE = Some demo_state,
     CALIBRATION_TIMERS = CALIBRATION_TIMERS_init, TIMERS = TIMERS_init,
     MANAGER = \<lparr>manager_calibration_timer = RtcCalibrationTimer, manager_timer = DummyTimer\<rparr>, INTERRUPT_RECEIVED = True\<rparr>"

lemma demo_clocks_facts:
  assumes "idt_new demo_handlers = Some t"
  shows "ACTIVE_IO_INTERRUPT_SYSTEM (demo_clocks t) = Some Apic" "TLS (demo_clocks t) = Some (demo_tls t)"
    "info_apic (local_apic (demo_tls t)) = Some 0xFFFFFFFF10002000" "length (apic_interrupts (tls_idt (demo_tls t))) = 128"
    "APIC_STATE (demo_clocks t) = Some demo_state" "length (LEGACY_IRQS (demo_clocks t)) = 16" "LEGACY_IRQS (demo_clocks t) ! 8 = None"
    "manager_calibration_timer (MANAGER (demo_clocks t)) = RtcCalibrationTimer"
  using idt_new_apic_interrupts [OF assms] by (simp_all add: demo_clocks_def demo_tls_def)

theorem calibrate_correct_witness:
  "\<exists>t k tls. idt_new demo_handlers = Some t \<and> calibrate clock_bus demo_clock_handlers (demo_clocks t) = Some k
     \<and> TLS k = Some tls \<and> timer_us_numerator (local_apic tls) = 3905536 \<and> timer_us_denominator (local_apic tls) = 62500
     \<and> masked (view_entry 0xFEC00000 8 (clock_device_view (devices k)))"
proof -
  obtain t where t: "idt_new demo_handlers = Some t" using idt_new_entries [of demo_handlers] by blast
  note f = demo_clocks_facts [OF t]
  have route: "legacy_route demo_state 8 = Some (High, EdgeSensitive, 8)" "List.find (serves 8) (io_apics demo_state) = Some (hd (io_apics demo_state))"
    using demo_state_facts(5,9) by simp_all
  define w where "w = clock_device_view (devices (demo_clocks t))"
  have w: "\<not> bit (cv_b w) 6" "\<not> cv_held w" "\<not> cv_in_service w" "cv_a w AND 0x70 = 0x20" "\<not> cv_flag w"
    by (simp_all add: w_def demo_clocks_def clock_device_view_def)
  have speed: "(1907 :: nat) * 2048 < 2 ^ 32" by simp
  from calibrate_correct [OF clock_bus_io(1) demo_state_facts(2) clock_bus_io(2,3) clock_bus_behaves f(1-6) demo_state_facts(3,4) f(7) route
      demo_held(2) [simplified] w_def w(1-4) speed f(8), of demo_clock_handlers]
  obtain d i where d: "calibrate clock_bus demo_clock_handlers (demo_clocks t) = Some ((demo_clocks t)\<lparr>INTERRUPT_RECEIVED := False, devices := d,
      TLS := Some ((demo_tls t)\<lparr>tls_idt := tls_idt (demo_tls t)\<lparr>apic_interrupts := (apic_interrupts (tls_idt (demo_tls t)))[i := missing HandlerFunc]\<rparr>,
        local_apic := (local_apic (demo_tls t))\<lparr>timer_us_numerator := of_nat (1907 * (if cv_flag w then 2048 - cv_now w mod 2048 else 2048)),
          timer_us_denominator := 62500\<rparr>\<rparr>)\<rparr>)"
    "masked (view_entry (io_base_address (hd (io_apics demo_state))) (slot 8 (hd (io_apics demo_state))) (clock_device_view d))" by blast
  from d(2) have "masked (view_entry 0xFEC00000 8 (clock_device_view d))" unfolding demo_io(1) demo_io(3) [simplified] .
  with t d(1) w(5) show ?thesis by (intro exI [of _ t]) simp
qed

theorem countdown_round_trip_witness:
  "\<exists>t k1 k2 r. idt_new demo_handlers = Some t \<and> start_countdown_ms clock_bus 250 (demo_clocks t) = Some k1
     \<and> countdown_remaining_ms clock_bus k1 = Some (r, k2) \<and> unat r \<le> 250 \<and> 250 \<le> unat r + 1"
proof -
  obtain t where t: "idt_new demo_handlers = Some t" using idt_new_entries [of demo_handlers] by blast
  have "get_local_apic (demo_clocks t) = Some 0xFFFFFFFF10002000" "TLS (demo_clocks t) = Some (demo_tls t)"
    "timer_us_numerator (local_apic (demo_tls t)) = of_nat 3906250" "timer_us_denominator (local_apic (demo_tls t)) = of_nat 62500"
    by (simp_all add: get_local_apic_def demo_clocks_def demo_tls_def)
  moreover have "\<forall>c d. fst (mmio_read clock_bus (0xFFFFFFFF10002000 + 0x390) (mmio_write clock_bus (0xFFFFFFFF10002000 + 0x380) c d)) = c"
    by (simp add: clock_bus_def clock_mmio_write_def clock_mmio_read_def)
  ultimately show ?thesis
    using countdown_round_trip [of "demo_clocks t" "0xFFFFFFFF10002000" "demo_tls t" 3906250 62500 250 clock_bus] t by auto
qed

end
