(* ===== verification/Spec2Isabelle.thy ===== *)
theory Spec2Isabelle
  imports Virtual_Page_Mapping Vma_Segments Vma_Build Vma_Delete Terminal_Write Cpio Process_List Descriptor_Tables Heap_Dealloc Limine_Memory Clock_Calibration
begin

text \<open>
  A verification development for the 9x kernel, an x86-64 operating system kernel in Rust (\<^verbatim>\<open>src/kernel\<close>).

  \<^bold>\<open>The program.\<close> The boot loader enters the kernel in \<^verbatim>\<open>limine/entry.rs\<close>, which turns the memory map into the bitmap of the physical page
  allocator (\<^verbatim>\<open>page_allocation.rs\<close>). That allocator also edits the kernel's page table, whose entries are those of \<^verbatim>\<open>paging.rs\<close>. On it stand the
  kernel heap (\<^verbatim>\<open>heap.rs\<close>), the block allocator (\<^verbatim>\<open>physical_block_allocator.rs\<close>) and the page mappers of user address spaces
  (\<^verbatim>\<open>user_page_mapping.rs\<close>, \<^verbatim>\<open>virtual_page_mapping.rs\<close>). A process's address space is a red-black tree of segments (\<^verbatim>\<open>vma.rs\<close>) beside its page
  mapper. The processor reads the tables of \<^verbatim>\<open>gdt.rs\<close>, \<^verbatim>\<open>tss.rs\<close> and \<^verbatim>\<open>idt.rs\<close>; device interrupts reach it through the controllers of
  \<^verbatim>\<open>apic.rs\<close>, which \<^verbatim>\<open>interrupts.rs\<close> programs from the firmware's MADT (\<^verbatim>\<open>platform/acpi/mod.rs\<close>), and time comes from \<^verbatim>\<open>clock/\<close>. The console
  (\<^verbatim>\<open>terminal.rs\<close>) draws with a font that is found in the initial archive (\<^verbatim>\<open>cpio.rs\<close>) on the framebuffer (\<^verbatim>\<open>core_graphics.rs\<close>).

  \<^bold>\<open>How code is modelled.\<close> A Rust function is a HOL function with the name of the source, where that is possible, on explicit state. The outer
  type \<open>option\<close> stands for panics, undefined behaviour, page faults and loops that do not end: such a call is \<open>None\<close>. A Rust \<^verbatim>\<open>Result\<close> is a sum whose left
  part is the error. Integers are words of their width, and arithmetic that the debug build checks is \<open>checked_add\<close> and its relatives.
  Loops that follow pointers or wait are \<^theory_text>\<open>partial_function (option)\<close>; no fuel is used anywhere, so a theorem that a call gives \<open>Some\<close> states
  that it ends. Physical memory is a function from frames and word indices to words. What is not in the sources is an argument: the
  addresses that the linker chooses, the answers of the boot loader, and the hardware, as a record of bus operations on a device state of any type.
  The theorems about devices name what they rely on as hypotheses (\<open>io_apics_behave\<close>, \<open>lapic_id_is\<close>, \<open>lapic_behaves\<close>, \<open>rtc_behaves\<close>, \<open>rtc_ticks\<close>), which
  say what the manuals of the devices say of the registers that the code uses, and their witnesses give a concrete device. Time passes only while the
  processor waits for an interrupt.

  \<^bold>\<open>The theories.\<close>
  \<^item> \<open>Prelude\<close>: checked arithmetic, slices, loops over lists, integers as bytes, and the lemmas that all components share.
  \<^item> \<open>Paging\<close> (\<^verbatim>\<open>paging.rs\<close>): page table entries; the fields of an entry survive its construction.
  \<^item> \<open>Bitmap\<close>, \<open>Page_Allocation\<close> (\<^verbatim>\<open>page_allocation.rs\<close>, \<^verbatim>\<open>physical_block_allocator.rs\<close>): the bitmap, the invariant that ties it to the count of free
    pages, and that reserving gives a free page, freeing gives it back. The locale \<open>slot_allocator\<close> states the contract of a bitmap and is
    interpreted for the page allocator and for the node storage of the segment tree; \<open>frame_allocator\<close> is the contract that the page table code
    relies on, interpreted for the allocator and for the machine.
  \<^item> \<open>Page_Walk\<close>, \<open>Kernel_Paging\<close> (\<^verbatim>\<open>page_allocation.rs\<close>): the kernel's page table as a map from paths of indices to frames; mapping, unmapping and checking
    of pages against the translation of addresses.
  \<^item> \<open>User_Page_Mapping\<close>, \<open>User_Paging\<close>, \<open>User_Tasks\<close>, \<open>User_Ranges\<close>, \<open>Page_Ranges\<close>, \<open>Virtual_Page_Mapping\<close>: the two user page mappers; the loops over a range are
    proved once in the locale \<open>leaf_update\<close>, interpreted for unmapping and for the two changes of flags.
  \<^item> \<open>Vma_Nodes\<close>, \<open>Vma_Tree\<close>, \<open>Vma_Allocator\<close> (\<^verbatim>\<open>vma.rs\<close>): nodes, their storage pages, the tree and the allocator with its tasks. \<open>Vma_Shape\<close> abstracts a
    state to a binary tree; \<open>Vma_Rotate\<close>, \<open>Vma_Fix\<close>, \<open>Vma_Balance\<close>, \<open>Vma_Link\<close> and \<open>Vma_Storage\<close> prove the steps of an insertion, \<open>Vma_Insert\<close> the insertion, \<open>Vma_Build\<close>
    that a sequence of insertions builds a balanced tree of exactly the inserted segments, \<open>Vma_Segments\<close> the start of mapping and unmapping, and \<open>Vma_Delete\<close>
    the deletion of the only segment.
  \<^item> \<open>Heap\<close> (\<^verbatim>\<open>heap.rs\<close>): the heap through the kernel's page table. \<open>Heap_Area\<close> and \<open>Heap_Blocks\<close> abstract it to a list of blocks; \<open>Heap_Alloc\<close> and
    \<open>Heap_Dealloc\<close> show that allocation is first fit on that list and that deallocation merges. The hypothesis on \<open>room\<close> bounds the pages a call may need.
  \<^item> \<open>Limine\<close>, \<open>Limine_Memory\<close> (\<^verbatim>\<open>limine/\<close>, \<^verbatim>\<open>kernel_args.rs\<close>): the boot entry, and which pages the bitmap it builds marks as free.
  \<^item> \<open>Graphics\<close>, \<open>Psf_Font\<close>, \<open>Terminal\<close> (\<^verbatim>\<open>core_graphics.rs\<close>, \<^verbatim>\<open>terminal.rs\<close>): drawing and the escape sequences; \<open>Terminal_Render\<close> shows that drawing the
    changed cells gives the picture of the whole buffer, \<open>Terminal_Write\<close> that writing refines an abstract screen. Both are for characters that can be
    drawn: the code cannot fetch the glyph at the very end of the font file, which is that of U+007F in the font of the kernel.
  \<^item> \<open>Cpio\<close> (\<^verbatim>\<open>cpio.rs\<close>): the search in an archive, against a writer of the format. \<open>Process_List\<close> (\<^verbatim>\<open>process.rs\<close>): the list of pending processes as a
    state machine.
  \<^item> \<open>Descriptors\<close>, \<open>Descriptor_Tables\<close> (\<^verbatim>\<open>gdt.rs\<close>, \<^verbatim>\<open>tss.rs\<close>, \<^verbatim>\<open>idt.rs\<close>): the tables, and what the processor reads in them.
  \<^item> \<open>Hardware\<close> (\<^verbatim>\<open>mod.rs\<close>, \<^verbatim>\<open>cpuid.rs\<close>): the bus, ports, model-specific registers and the identification of the processor. \<open>Thread_Local\<close> (\<^verbatim>\<open>tls.rs\<close>).
  \<^item> \<open>Apic\<close> (\<^verbatim>\<open>apic.rs\<close>), \<open>Madt\<close> (\<^verbatim>\<open>platform/acpi\<close>), \<open>Io_Interrupts\<close> (\<^verbatim>\<open>interrupts.rs\<close>): the controllers, the table and the routing. \<open>Io_Routing\<close> shows what
    mapping and unmapping a line do to the vectors, the interrupt table and the redirection entries.
  \<^item> \<open>Clock\<close>, \<open>Clock_Calibration\<close> (\<^verbatim>\<open>clock/\<close>): the clocks; the calibration ends with the ticks between two interrupts of the real-time clock, which are those of a whole
    period only if the flag of that clock was clear, and countdowns convert between ticks and milliseconds.

  \<^bold>\<open>Departures of the code from its intention\<close> are theorems as well: vectors are given out twice once sixty-four are taken; unmapping a line with an
  override masks the wrong entry; mapping a line panics on every processor whose local APIC identification is not zero; a flag left set in the real-time clock
  shortens the calibration; new parent tables of user pages lack the user bit; flags of ranges are changed without the promised change of the parents; a MADT entry of length zero hangs the boot; the bitmap at boot reserves pages by the address instead of the page number;
  deallocation can unmap the head of the heap's list; a mapping task never returns when memory runs out; and others that the texts before the theorems describe.

  \<^bold>\<open>Not modelled.\<close> The assembly of \<^verbatim>\<open>init.s\<close> and \<^verbatim>\<open>exceptions.s\<close>, the exception handlers, the panic handler and the stack trace (\<^verbatim>\<open>debugging.rs\<close>,
  \<^verbatim>\<open>debug.rs\<close>), and the logger (\<^verbatim>\<open>logging.rs\<close>, \<^verbatim>\<open>bochs_debug.rs\<close>) have no result the kernel uses. The operating system layer for the ACPI library
  (\<^verbatim>\<open>acpica_os_layer.rs\<close>) serves C code that is not in the sources. \<^verbatim>\<open>kernel_main\<close> and the two initialisation stages only call the parts above in
  turn. Locks are left out: a modelled call runs alone, as on the one processor that the kernel starts. The size of the heap blocks of
  \<^verbatim>\<open>Vec\<close> and \<^verbatim>\<open>Box\<close> allocations outside the heap component is not tracked. Deleting a segment from a tree with several branches is modelled but only its
  one-branch case is proved.
\<close>

end
